(* ===== verification/Prelude.thy ===== *)
theory Prelude
  imports Main "HOL-Library.Word" "HOL-Library.Monad_Syntax"
begin

text \<open>
  The vocabulary shared by every component: machine integers, C strings and character
  arrays, the part of the C string library the firmware calls, and an allocator that
  counts live blocks.

  Conventions used throughout the development.
  \<^item> A character array is a list of \<open>char\<close> of the array's declared length; a pointer
    into it is the list of the bytes from that position to the end of the object.
  \<^item> A function whose C counterpart may read or write outside an object has type
    \<open>'a option\<close>, and \<open>None\<close> is that undefined behaviour. A theorem that says
    \<open>\<noteq> None\<close> is a memory-safety theorem.
  \<^item> Heap allocation (\<open>pvPortMalloc\<close>, \<open>vPortFree\<close>) is an allocator that consumes a list
    of outcomes, one per call, and counts the blocks that are live.
\<close>

section \<open>Machine integers\<close>

type_synonym byte = "8 word"
type_synonym u16 = "16 word"
type_synonym u32 = "32 word"

unbundle bit_operations_syntax

lemma u32_of_int: "0 \<le> v \<Longrightarrow> v \<le> 0xFFFFFFFF \<Longrightarrow> uint (word_of_int v :: u32) = v"
  by (simp add: uint_word_of_int take_bit_int_eq_self)

lemma u16_of_u32: "v \<le> 0xFFFF \<Longrightarrow> uint (ucast (v :: u32) :: u16) = uint v"
  by (simp add: unsigned_ucast_eq word_le_def take_bit_int_eq_self)

lemma u32_count_down: "(n :: u32) - 1 \<noteq> 0 \<Longrightarrow> unat (n - 1 - 1) < unat (n - 1)"
  by (rule measure_unat)

section \<open>Collections of rewrite rules\<close>

named_theorems cstr_simps \<open>C strings and character arrays\<close>
named_theorems heap_simps \<open>the allocator\<close>

section \<open>C strings\<close>

abbreviation nul :: char where
  "nul \<equiv> CHR 0x00"

definition cstr :: "string \<Rightarrow> string" where
  \<comment> \<open>The text of a character array up to its terminator.\<close>
  "cstr s = takeWhile (\<lambda>c. c \<noteq> nul) s"

definition c_strlen :: "string \<Rightarrow> nat option" where
  \<comment> \<open>\<open>strlen\<close>: without a terminator in the object the scan leaves it.\<close>
  "c_strlen s = (if nul \<in> set s then Some (length (cstr s)) else None)"

definition strncpy_image :: "nat \<Rightarrow> string \<Rightarrow> string" where
  \<comment> \<open>The \<open>n\<close> bytes that \<open>strncpy\<close> stores: the text, cut at \<open>n\<close>, padded with zeros.\<close>
  "strncpy_image n src = take n (cstr src) @ replicate (n - length (cstr src)) nul"

definition readable :: "string \<Rightarrow> nat \<Rightarrow> bool" where
  \<comment> \<open>A bounded string function may read \<open>n\<close> bytes, or up to the terminator.\<close>
  "readable src n \<longleftrightarrow> n \<le> length src \<or> nul \<in> set src"

definition strncpy :: "string \<Rightarrow> string \<Rightarrow> nat \<Rightarrow> string option" where
  "strncpy dest src n =
     (if n \<le> length dest \<and> readable src n
      then Some (strncpy_image n src @ drop n dest) else None)"

primrec strncmp_lit :: "string \<Rightarrow> string \<Rightarrow> bool option" where
  \<comment> \<open>\<open>0 == strncmp(p, lit, strlen(lit))\<close> for a literal: it stops at the first difference.\<close>
  "strncmp_lit p [] = Some True"
| "strncmp_lit p (c # cs) =
     (case p of [] \<Rightarrow> None | b # bs \<Rightarrow> if b = c then strncmp_lit bs cs else Some False)"

lemma length_cstr_le [cstr_simps, simp]: "length (cstr s) \<le> length s"
  by (simp add: cstr_def length_takeWhile_le)

lemma nul_notin_cstr [cstr_simps, simp]: "nul \<notin> set (cstr s)"
  by (auto simp: cstr_def dest: set_takeWhileD)

lemma cstr_append_nul [cstr_simps]: "nul \<notin> set t \<Longrightarrow> cstr (t @ nul # r) = t"
  by (simp add: cstr_def takeWhile_append)

lemma cstr_idem [cstr_simps, simp]: "cstr (cstr s) = cstr s"
  by (simp add: cstr_def)

lemma cstr_no_nul [cstr_simps]: "nul \<notin> set s \<Longrightarrow> cstr s = s"
  by (induction s) (auto simp: cstr_def)

lemma cstr_shorter: "nul \<in> set s \<Longrightarrow> length (cstr s) < length s"
  unfolding cstr_def
proof (induction s)
  case Nil
  then show ?case by simp
next
  case (Cons a s)
  then show ?case by (cases "a = nul") auto
qed

lemma cstr_full: "nul \<notin> set s \<Longrightarrow> length (cstr s) = length s"
  by (simp add: cstr_no_nul)

lemma length_strncpy_image [cstr_simps, simp]: "length (strncpy_image n s) = n"
  by (simp add: strncpy_image_def)

lemma strncpy_SomeI:
  "n \<le> length dest \<Longrightarrow> readable src n \<Longrightarrow>
   strncpy dest src n = Some (strncpy_image n src @ drop n dest)"
  by (simp add: strncpy_def)

lemma strncpy_length: "strncpy dest src n = Some d \<Longrightarrow> length d = length dest"
  by (auto simp: strncpy_def split: if_splits)

lemma cstr_strncpy_image:
  assumes "length (cstr s) < n"
  shows "cstr (strncpy_image n s @ r) = cstr s"
proof -
  obtain m where m: "n - length (cstr s) = Suc m"
    using assms by (metis Suc_diff_Suc)
  have "strncpy_image n s @ r = cstr s @ nul # (replicate m nul @ r)"
    using assms m by (simp add: strncpy_image_def)
  then show ?thesis by (simp add: cstr_append_nul)
qed

lemma strncpy_image_long:
  "n \<le> length (cstr s) \<Longrightarrow> strncpy_image n s = take n (cstr s)"
  by (simp add: strncpy_image_def)

lemma nul_strncpy_image: "nul \<in> set (strncpy_image n s) \<longleftrightarrow> length (cstr s) < n"
  by (auto simp: strncpy_image_def dest: in_set_takeD)

lemma nul_notin_take_cstr [simp]: "nul \<notin> set (take n (cstr s))"
  by (auto dest: in_set_takeD)

text \<open>
  A comparison with a literal cannot leave the object when some byte of it is not a byte
  of the literal: the scan stops there at the latest.
\<close>

lemma strncmp_lit_safe:
  "k < length p \<Longrightarrow> p ! k \<notin> set lit \<Longrightarrow> strncmp_lit p lit \<noteq> None"
proof (induction lit arbitrary: p k)
  case Nil
  then show ?case by simp
next
  case (Cons c cs)
  then obtain b bs where p: "p = b # bs" by (cases p) auto
  show ?case
  proof (cases "b = c")
    case True
    with Cons.prems p have "k \<noteq> 0" by (cases k) auto
    then obtain k' where "k = Suc k'" by (cases k) auto
    with Cons.prems p have "k' < length bs" "bs ! k' \<notin> set cs" by auto
    then have "strncmp_lit bs cs \<noteq> None" by (rule Cons.IH)
    with p True show ?thesis by simp
  next
    case False
    with p show ?thesis by simp
  qed
qed

lemma strncmp_lit_True_iff:
  "strncmp_lit p lit = Some True \<longleftrightarrow> take (length lit) p = lit"
  by (induction lit arbitrary: p) (auto split: list.splits)

section \<open>Character classes of the C locale\<close>

definition isspace :: "char \<Rightarrow> bool" where
  "isspace c \<longleftrightarrow> c = CHR 0x20 \<or> (9 \<le> (of_char c :: nat) \<and> (of_char c :: nat) \<le> 13)"

definition isprint :: "byte \<Rightarrow> bool" where
  "isprint b \<longleftrightarrow> 32 \<le> b \<and> b < 127"

lemma nul_not_space [simp]: "\<not> isspace nul"
  by (simp add: isspace_def)

section \<open>The allocator\<close>

record heap =
  outcomes :: "bool list" \<comment> \<open>what the next calls of \<open>pvPortMalloc\<close> return: success or \<open>NULL\<close>\<close>
  live :: nat             \<comment> \<open>blocks allocated and not yet freed\<close>

definition heap_malloc :: "heap \<Rightarrow> bool \<times> heap" where
  "heap_malloc h =
     (case outcomes h of
        [] \<Rightarrow> (False, h)
      | ok # rest \<Rightarrow> (ok, h\<lparr>outcomes := rest, live := live h + (if ok then 1 else 0)\<rparr>))"

definition heap_free :: "heap \<Rightarrow> heap" where
  "heap_free h = h\<lparr>live := live h - 1\<rparr>"

lemma heap_malloc_live [heap_simps]:
  "heap_malloc h = (ok, h') \<Longrightarrow> live h' = live h + (if ok then 1 else 0)"
  by (auto simp: heap_malloc_def split: list.splits)

lemma heap_free_live [heap_simps, simp]: "live (heap_free h) = live h - 1"
  by (simp add: heap_free_def)

lemma heap_free_outcomes [heap_simps, simp]: "outcomes (heap_free h) = outcomes h"
  by (simp add: heap_free_def)

section \<open>Lists\<close>

lemma option_bind_not_None:
  "m \<noteq> None \<Longrightarrow> (\<And>x. m = Some x \<Longrightarrow> f x \<noteq> None) \<Longrightarrow> Option.bind m f \<noteq> None"
  by (cases m) auto

lemma dropWhile_eq_Nil_or: "dropWhile P xs = [] \<or> \<not> P (hd (dropWhile P xs))"
  using hd_dropWhile by blast

section \<open>Formatted output\<close>

abbreviation crlf :: string where "crlf \<equiv> [CHR 0x0D, CHR 0x0A]"
abbreviation newline :: string where "newline \<equiv> [CHR 0x0A]"
abbreviation tab :: string where "tab \<equiv> [CHR 0x09]"

definition digit_char :: "nat \<Rightarrow> char" where
  "digit_char n = (if n < 10 then char_of (48 + n) else char_of (55 + n))"

fun dec_nat :: "nat \<Rightarrow> string" where
  \<comment> \<open>\<open>%u\<close>\<close>
  "dec_nat n = (if n < 10 then [digit_char n] else dec_nat (n div 10) @ [digit_char (n mod 10)])"

definition dec_int :: "int \<Rightarrow> string" where
  \<comment> \<open>\<open>%d\<close>\<close>
  "dec_int z = (if z < 0 then CHR ''-'' # dec_nat (nat (- z)) else dec_nat (nat z))"

definition dec2 :: "nat \<Rightarrow> string" where
  \<comment> \<open>\<open>%02d\<close> of a non-negative number\<close>
  "dec2 n = (if n < 10 then CHR ''0'' # dec_nat n else dec_nat n)"

definition hex2 :: "nat \<Rightarrow> string" where
  \<comment> \<open>\<open>%02X\<close> of a byte\<close>
  "hex2 n = [digit_char (n div 16 mod 16), digit_char (n mod 16)]"

declare dec_nat.simps [simp del]

lemma length_hex2 [simp]: "length (hex2 n) = 2"
  by (simp add: hex2_def)

end
