(* ===== verification/Config.thy ===== *)
theory Config
  imports Prelude
begin

text \<open>
  \<^verbatim>\<open>c/legacy/src/config.c\<close>: the configuration of the device. Sixteen character arrays,
  their setters and getters, and \<open>miso_load_config\<close>, which reads \<^verbatim>\<open>CONFIG.TXT\<close> from the
  SD card, tokenises it with jsmn and copies the values it knows into the arrays.
  \<^item> The arrays are the record \<open>config\<close>; \<open>config_wf\<close> gives their declared lengths.
  \<^item> A setter is a \<open>strncpy\<close> over the whole array, hence \<open>None\<close> when its argument is not
    terminated within its object.
  \<^item> The jsmn tokeniser (a git submodule), FatFs and the FreeRTOS heap are arguments of
    \<open>miso_load_config\<close>. The token loop itself is written out, one definition per section
    of the file, and \<open>None\<close> is an access outside the read buffer, outside the token
    array, outside a destination array, or through a null token array.
\<close>

section \<open>The configuration store\<close>

record config =
  wifi_ssid :: string
  wifi_key :: string
  lwm2m_endpoint :: string
  lwm2m_uri :: string
  lwm2m_psk_id :: string
  lwm2m_psk_key :: string
  ntp_url :: string
  sha256 :: string
  mqtt_uri :: string
  mqtt_device_id :: string
  mqtt_psk_id :: string
  mqtt_psk_key :: string
  http_uri :: string
  http_sig_uri :: string
  http_key :: string
  config_uri :: string

definition config_init :: config where
  "config_init =
    \<lparr>wifi_ssid = replicate 32 nul, wifi_key = replicate 32 nul,
     lwm2m_endpoint = replicate 128 nul, lwm2m_uri = replicate 128 nul,
     lwm2m_psk_id = replicate 128 nul, lwm2m_psk_key = replicate 64 nul,
     ntp_url = replicate 64 nul, sha256 = replicate 32 nul,
     mqtt_uri = replicate 128 nul, mqtt_device_id = replicate 128 nul,
     mqtt_psk_id = replicate 128 nul, mqtt_psk_key = replicate 64 nul,
     http_uri = replicate 128 nul, http_sig_uri = replicate 128 nul,
     http_key = replicate 256 nul, config_uri = replicate 128 nul\<rparr>"

definition config_wf :: "config \<Rightarrow> bool" where
  "config_wf c \<longleftrightarrow>
     length (wifi_ssid c) = 32 \<and> length (wifi_key c) = 32 \<and>
     length (lwm2m_endpoint c) = 128 \<and> length (lwm2m_uri c) = 128 \<and>
     length (lwm2m_psk_id c) = 128 \<and> length (lwm2m_psk_key c) = 64 \<and>
     length (ntp_url c) = 64 \<and> length (sha256 c) = 32 \<and>
     length (mqtt_uri c) = 128 \<and> length (mqtt_device_id c) = 128 \<and>
     length (mqtt_psk_id c) = 128 \<and> length (mqtt_psk_key c) = 64 \<and>
     length (http_uri c) = 128 \<and> length (http_sig_uri c) = 128 \<and>
     length (http_key c) = 256 \<and> length (config_uri c) = 128"

lemma config_init_wf: "config_wf config_init"
  by (simp add: config_wf_def config_init_def)

subsection \<open>Setters\<close>

definition config_set_wifi_ssid :: "string \<Rightarrow> config \<Rightarrow> config option" where
  "config_set_wifi_ssid s c = do { b \<leftarrow> strncpy (wifi_ssid c) s 32; Some (c\<lparr>wifi_ssid := b\<rparr>) }"

definition config_set_wifi_key :: "string \<Rightarrow> config \<Rightarrow> config option" where
  "config_set_wifi_key s c = do { b \<leftarrow> strncpy (wifi_key c) s 32; Some (c\<lparr>wifi_key := b\<rparr>) }"

definition config_set_lwm2m_endpoint :: "string \<Rightarrow> config \<Rightarrow> config option" where
  "config_set_lwm2m_endpoint s c =
     do { b \<leftarrow> strncpy (lwm2m_endpoint c) s 128; Some (c\<lparr>lwm2m_endpoint := b\<rparr>) }"

definition config_set_lwm2m_uri :: "string \<Rightarrow> config \<Rightarrow> config option" where
  "config_set_lwm2m_uri s c = do { b \<leftarrow> strncpy (lwm2m_uri c) s 128; Some (c\<lparr>lwm2m_uri := b\<rparr>) }"

definition config_set_lwm2m_psk_id :: "string \<Rightarrow> config \<Rightarrow> config option" where
  "config_set_lwm2m_psk_id s c =
     do { b \<leftarrow> strncpy (lwm2m_psk_id c) s 128; Some (c\<lparr>lwm2m_psk_id := b\<rparr>) }"

definition config_set_lwm2m_psk_key :: "string \<Rightarrow> config \<Rightarrow> config option" where
  "config_set_lwm2m_psk_key s c =
     do { b \<leftarrow> strncpy (lwm2m_psk_key c) s 64; Some (c\<lparr>lwm2m_psk_key := b\<rparr>) }"

definition config_set_ntp_url :: "string \<Rightarrow> config \<Rightarrow> config option" where
  "config_set_ntp_url s c = do { b \<leftarrow> strncpy (ntp_url c) s 64; Some (c\<lparr>ntp_url := b\<rparr>) }"

definition config_set_sha256 :: "string \<Rightarrow> config \<Rightarrow> config option" where
  \<comment> \<open>\<open>memcpy\<close> of the 32 bytes of the array\<close>
  "config_set_sha256 s c =
     (if 32 \<le> length s then Some (c\<lparr>sha256 := take 32 s @ drop 32 (sha256 c)\<rparr>) else None)"

definition config_set_mqtt_uri :: "string \<Rightarrow> config \<Rightarrow> config option" where
  "config_set_mqtt_uri s c = do { b \<leftarrow> strncpy (mqtt_uri c) s 128; Some (c\<lparr>mqtt_uri := b\<rparr>) }"

definition config_set_mqtt_device_id :: "string \<Rightarrow> config \<Rightarrow> config option" where
  "config_set_mqtt_device_id s c =
     do { b \<leftarrow> strncpy (mqtt_device_id c) s 128; Some (c\<lparr>mqtt_device_id := b\<rparr>) }"

definition config_set_mqtt_psk_id :: "string \<Rightarrow> config \<Rightarrow> config option" where
  "config_set_mqtt_psk_id s c =
     do { b \<leftarrow> strncpy (mqtt_psk_id c) s 128; Some (c\<lparr>mqtt_psk_id := b\<rparr>) }"

definition config_set_mqtt_psk_key :: "string \<Rightarrow> config \<Rightarrow> config option" where
  "config_set_mqtt_psk_key s c =
     do { b \<leftarrow> strncpy (mqtt_psk_key c) s 64; Some (c\<lparr>mqtt_psk_key := b\<rparr>) }"

definition config_set_http_uri :: "string \<Rightarrow> config \<Rightarrow> config option" where
  "config_set_http_uri s c = do { b \<leftarrow> strncpy (http_uri c) s 128; Some (c\<lparr>http_uri := b\<rparr>) }"

definition config_set_config_uri :: "string \<Rightarrow> config \<Rightarrow> config option" where
  "config_set_config_uri s c = do { b \<leftarrow> strncpy (config_uri c) s 128; Some (c\<lparr>config_uri := b\<rparr>) }"

definition config_set_http_sig_uri :: "string \<Rightarrow> config \<Rightarrow> config option" where
  "config_set_http_sig_uri s c =
     do { b \<leftarrow> strncpy (http_sig_uri c) s 128; Some (c\<lparr>http_sig_uri := b\<rparr>) }"

definition config_set_http_sig_key :: "string \<Rightarrow> config \<Rightarrow> config option" where
  "config_set_http_sig_key s c = do { b \<leftarrow> strncpy (http_key c) s 256; Some (c\<lparr>http_key := b\<rparr>) }"

subsection \<open>Getters\<close>

text \<open>A getter returns a pointer to the first byte of its array, hence the whole array.\<close>

definition config_get_wifi_ssid :: "config \<Rightarrow> string" where
  "config_get_wifi_ssid c = wifi_ssid c"

definition config_get_wifi_key :: "config \<Rightarrow> string" where
  "config_get_wifi_key c = wifi_key c"

definition config_get_lwm2m_uri :: "config \<Rightarrow> string" where
  "config_get_lwm2m_uri c = lwm2m_uri c"

definition config_get_lwm2m_psk_id :: "config \<Rightarrow> string" where
  "config_get_lwm2m_psk_id c = lwm2m_psk_id c"

definition config_get_lwm2m_psk_key :: "config \<Rightarrow> string" where
  "config_get_lwm2m_psk_key c = lwm2m_psk_key c"

definition config_get_mqtt_url :: "config \<Rightarrow> string" where
  "config_get_mqtt_url c = mqtt_uri c"

definition config_get_mqtt_device_id :: "config \<Rightarrow> string" where
  "config_get_mqtt_device_id c = mqtt_device_id c"

definition config_get_lwm2m_endpoint :: "config \<Rightarrow> string" where
  "config_get_lwm2m_endpoint c = lwm2m_endpoint c"

definition config_get_mqtt_psk_id :: "config \<Rightarrow> string" where
  "config_get_mqtt_psk_id c = mqtt_psk_id c"

definition config_get_mqtt_psk_key :: "config \<Rightarrow> string" where
  "config_get_mqtt_psk_key c = mqtt_psk_key c"

definition config_get_http_uri :: "config \<Rightarrow> string" where
  "config_get_http_uri c = http_uri c"

definition config_get_http_sig_uri :: "config \<Rightarrow> string" where
  "config_get_http_sig_uri c = http_sig_uri c"

definition config_get_http_sig_key :: "config \<Rightarrow> string" where
  "config_get_http_sig_key c = http_key c"

definition config_get_config_uri :: "config \<Rightarrow> string" where
  "config_get_config_uri c = config_uri c"

lemmas config_setter_defs =
  config_set_wifi_ssid_def config_set_wifi_key_def config_set_lwm2m_endpoint_def
  config_set_lwm2m_uri_def config_set_lwm2m_psk_id_def config_set_lwm2m_psk_key_def
  config_set_ntp_url_def config_set_mqtt_uri_def config_set_mqtt_device_id_def
  config_set_mqtt_psk_id_def config_set_mqtt_psk_key_def config_set_http_uri_def
  config_set_config_uri_def config_set_http_sig_uri_def config_set_http_sig_key_def

lemmas config_getter_defs =
  config_get_wifi_ssid_def config_get_wifi_key_def config_get_lwm2m_uri_def
  config_get_lwm2m_psk_id_def config_get_lwm2m_psk_key_def config_get_mqtt_url_def
  config_get_mqtt_device_id_def config_get_lwm2m_endpoint_def config_get_mqtt_psk_id_def
  config_get_mqtt_psk_key_def config_get_http_uri_def config_get_http_sig_uri_def
  config_get_http_sig_key_def config_get_config_uri_def

subsection \<open>The contract of a configuration entry\<close>

text \<open>
  What the rest of the firmware relies on for one entry: its setter stores the image that
  \<open>strncpy\<close> makes of the argument, keeps every array at its length and, read through the
  getter, gives that image.
\<close>

locale config_entry =
  fixes put :: "string \<Rightarrow> config \<Rightarrow> config option"
    and get :: "config \<Rightarrow> string"
    and size :: nat
  assumes put_get: "config_wf c \<Longrightarrow> readable s size \<Longrightarrow>
      \<exists>c'. put s c = Some c' \<and> get c' = strncpy_image size s \<and> config_wf c'"
    and put_unreadable: "\<not> readable s size \<Longrightarrow> put s c = None"
begin

text \<open>A text that leaves room for its terminator is read back unchanged.\<close>

lemma set_then_get:
  assumes "config_wf c" and "nul \<in> set s" and "length (cstr s) < size"
  shows "\<exists>c'. put s c = Some c' \<and> cstr (get c') = cstr s \<and>
              c_strlen (get c') = Some (length (cstr s)) \<and> config_wf c'"
proof -
  have "readable s size" using assms(2) by (simp add: readable_def)
  with assms(1) obtain c' where c': "put s c = Some c'" "get c' = strncpy_image size s"
    "config_wf c'" using put_get by blast
  have "cstr (get c') = cstr s"
    using cstr_strncpy_image [OF assms(3), of "[]"] c'(2) by simp
  moreover have "nul \<in> set (get c')" using assms(3) c'(2) by (simp add: nul_strncpy_image)
  ultimately show ?thesis using c' by (simp add: c_strlen_def)
qed

text \<open>A text as long as the array or longer loses its tail and its terminator.\<close>

lemma set_too_long:
  assumes "config_wf c" and "nul \<in> set s" and "size \<le> length (cstr s)"
  shows "\<exists>c'. put s c = Some c' \<and> get c' = take size (cstr s) \<and> c_strlen (get c') = None"
proof -
  have "readable s size" using assms(2) by (simp add: readable_def)
  with assms(1) obtain c' where c': "put s c = Some c'" "get c' = strncpy_image size s"
    using put_get by blast
  then show ?thesis using assms(3) by (simp add: strncpy_image_long c_strlen_def)
qed

end

lemmas config_entry_defs = config_setter_defs config_getter_defs config_wf_def strncpy_def

interpretation wifi_ssid: config_entry config_set_wifi_ssid config_get_wifi_ssid 32
  by unfold_locales (simp_all add: config_entry_defs)

interpretation wifi_key: config_entry config_set_wifi_key config_get_wifi_key 32
  by unfold_locales (simp_all add: config_entry_defs)

interpretation lwm2m_endpoint: config_entry config_set_lwm2m_endpoint config_get_lwm2m_endpoint 128
  by unfold_locales (simp_all add: config_entry_defs)

interpretation lwm2m_uri: config_entry config_set_lwm2m_uri config_get_lwm2m_uri 128
  by unfold_locales (simp_all add: config_entry_defs)

interpretation lwm2m_psk_id: config_entry config_set_lwm2m_psk_id config_get_lwm2m_psk_id 128
  by unfold_locales (simp_all add: config_entry_defs)

interpretation lwm2m_psk_key: config_entry config_set_lwm2m_psk_key config_get_lwm2m_psk_key 64
  by unfold_locales (simp_all add: config_entry_defs)

interpretation mqtt_uri: config_entry config_set_mqtt_uri config_get_mqtt_url 128
  by unfold_locales (simp_all add: config_entry_defs)

interpretation mqtt_device_id: config_entry config_set_mqtt_device_id config_get_mqtt_device_id 128
  by unfold_locales (simp_all add: config_entry_defs)

interpretation mqtt_psk_id: config_entry config_set_mqtt_psk_id config_get_mqtt_psk_id 128
  by unfold_locales (simp_all add: config_entry_defs)

interpretation mqtt_psk_key: config_entry config_set_mqtt_psk_key config_get_mqtt_psk_key 64
  by unfold_locales (simp_all add: config_entry_defs)

interpretation http_uri: config_entry config_set_http_uri config_get_http_uri 128
  by unfold_locales (simp_all add: config_entry_defs)

interpretation http_sig_uri: config_entry config_set_http_sig_uri config_get_http_sig_uri 128
  by unfold_locales (simp_all add: config_entry_defs)

interpretation http_sig_key: config_entry config_set_http_sig_key config_get_http_sig_key 256
  by unfold_locales (simp_all add: config_entry_defs)

interpretation config_uri: config_entry config_set_config_uri config_get_config_uri 128
  by unfold_locales (simp_all add: config_entry_defs)

text \<open>The entries that have both a setter and a getter, with the length of their array.\<close>

definition config_entries ::
  "((string \<Rightarrow> config \<Rightarrow> config option) \<times> (config \<Rightarrow> string) \<times> nat) list" where
  "config_entries =
    [(config_set_wifi_ssid, config_get_wifi_ssid, 32),
     (config_set_wifi_key, config_get_wifi_key, 32),
     (config_set_lwm2m_endpoint, config_get_lwm2m_endpoint, 128),
     (config_set_lwm2m_uri, config_get_lwm2m_uri, 128),
     (config_set_lwm2m_psk_id, config_get_lwm2m_psk_id, 128),
     (config_set_lwm2m_psk_key, config_get_lwm2m_psk_key, 64),
     (config_set_mqtt_uri, config_get_mqtt_url, 128),
     (config_set_mqtt_device_id, config_get_mqtt_device_id, 128),
     (config_set_mqtt_psk_id, config_get_mqtt_psk_id, 128),
     (config_set_mqtt_psk_key, config_get_mqtt_psk_key, 64),
     (config_set_http_uri, config_get_http_uri, 128),
     (config_set_http_sig_uri, config_get_http_sig_uri, 128),
     (config_set_http_sig_key, config_get_http_sig_key, 256),
     (config_set_config_uri, config_get_config_uri, 128)]"

lemma config_entries_ok: "(put, get, n) \<in> set config_entries \<Longrightarrow> config_entry put get n"
  by (auto simp: config_entries_def
      intro: wifi_ssid.config_entry_axioms wifi_key.config_entry_axioms
        lwm2m_endpoint.config_entry_axioms lwm2m_uri.config_entry_axioms
        lwm2m_psk_id.config_entry_axioms lwm2m_psk_key.config_entry_axioms
        mqtt_uri.config_entry_axioms mqtt_device_id.config_entry_axioms
        mqtt_psk_id.config_entry_axioms mqtt_psk_key.config_entry_axioms
        http_uri.config_entry_axioms http_sig_uri.config_entry_axioms
        http_sig_key.config_entry_axioms config_uri.config_entry_axioms)


section \<open>Properties\<close>

text \<open>C32: every setter of \<^verbatim>\<open>config.c\<close> that has a getter is read back: a text that leaves room for
  its terminator in the array comes back unchanged, terminated, and all arrays keep their
  lengths.\<close>

theorem config_set_then_get:
  assumes "(put, get, n) \<in> set config_entries" and "config_wf c"
    and "nul \<in> set s" and "length (cstr s) < n"
  shows "\<exists>c'. put s c = Some c' \<and> cstr (get c') = cstr s \<and>
              c_strlen (get c') = Some (length (cstr s)) \<and> config_wf c'"
  using config_entry.set_then_get [OF config_entries_ok [OF assms(1)] assms(2-4)] .

theorem config_set_then_get_witness:
  "\<exists>c'. config_set_wifi_ssid (''miso'' @ [nul]) config_init = Some c' \<and>
        cstr (config_get_wifi_ssid c') = ''miso'' \<and>
        c_strlen (config_get_wifi_ssid c') = Some 4 \<and> config_wf c'"
proof -
  have e: "cstr (''miso'' @ [nul]) = ''miso''" by (rule cstr_append_nul) simp
  have "(config_set_wifi_ssid, config_get_wifi_ssid, 32) \<in> set config_entries"
    by (simp add: config_entries_def)
  from config_set_then_get [OF this config_init_wf, of "''miso'' @ [nul]"]
  show ?thesis unfolding e by (simp add: eval_nat_numeral)
qed

text \<open>A text as long as the array or longer is cut to the array's length and stored without a
  terminator, so a later \<open>strlen\<close> of the getter's result, as \<^verbatim>\<open>wifi_service.c\<close> and
  \<^verbatim>\<open>object_security.c\<close> make it, leaves the array.\<close>

lemma config_set_too_long:
  assumes "(put, get, n) \<in> set config_entries" and "config_wf c"
    and "nul \<in> set s" and "n \<le> length (cstr s)"
  shows "\<exists>c'. put s c = Some c' \<and> get c' = take n (cstr s) \<and> c_strlen (get c') = None"
  using config_entry.set_too_long [OF config_entries_ok [OF assms(1)] assms(2-4)] .

lemma config_set_too_long_example:
  "\<exists>c'. config_set_wifi_key (replicate 40 CHR ''k'' @ [nul]) config_init = Some c' \<and>
        config_get_wifi_key c' = replicate 32 CHR ''k'' \<and>
        c_strlen (config_get_wifi_key c') = None"
  using config_set_too_long [of config_set_wifi_key config_get_wifi_key 32 config_init
      "replicate 40 CHR ''k'' @ [nul]"]
  by (simp add: config_entries_def config_init_wf cstr_append_nul)

end
