(* ===== verification/ConfigLoad.thy ===== *)
theory ConfigLoad
  imports Config
begin

text \<open>
  \<^verbatim>\<open>miso_load_config\<close> of \<^verbatim>\<open>c/legacy/src/config.c\<close>. The loop over the jsmn tokens is a
  recursion over the token index; its state is the record \<open>load_keys\<close> (the local
  \<open>int\<close> variables that remember where each section starts) and the configuration. Each
  section of the long \<open>else if\<close> chain is a definition of its own.
\<close>

section \<open>Tokens\<close>

datatype jsmntype = JSMN_UNDEFINED | JSMN_OBJECT | JSMN_ARRAY | JSMN_STRING | JSMN_PRIMITIVE

record jsmntok =
  tok_type :: jsmntype
  tok_start :: int
  tok_end :: int
  tok_parent :: int

definition tok_at :: "jsmntok list \<Rightarrow> nat \<Rightarrow> jsmntok option" where
  \<comment> \<open>\<open>json_tokens[i]\<close>; past the end of the allocated array it is undefined behaviour\<close>
  "tok_at toks i = (if i < length toks then Some (toks ! i) else None)"

definition key_is :: "string \<Rightarrow> jsmntok \<Rightarrow> string \<Rightarrow> bool option" where
  \<comment> \<open>\<open>0 == strncmp(json_key, lit, strlen(lit))\<close> with \<open>json_key = read_buffer + start\<close>\<close>
  "key_is buf t lit = strncmp_lit (drop (nat (tok_start t)) buf) lit"

fun key_any :: "string \<Rightarrow> jsmntok \<Rightarrow> string list \<Rightarrow> bool option" where
  \<comment> \<open>a disjunction of such comparisons, evaluated from left to right\<close>
  "key_any buf t [] = Some False"
| "key_any buf t (l # ls) =
     do { b \<leftarrow> key_is buf t l; if b then Some True else key_any buf t ls }"

fun key_chain :: "string \<Rightarrow> jsmntok \<Rightarrow> (string list \<times> 'a) list \<Rightarrow> 'a \<Rightarrow> 'a option" where
  \<comment> \<open>\<open>if (key is one of ...) a else if (...) b ... else d\<close>\<close>
  "key_chain buf t [] d = Some d"
| "key_chain buf t ((ls, a) # rest) d =
     do { b \<leftarrow> key_any buf t ls; if b then Some a else key_chain buf t rest d }"

section \<open>Destinations\<close>

text \<open>The arrays that \<open>dest_ptr\<close> can point to; \<open>dest_len\<close> is given with each use.\<close>

datatype dest =
    D_wifi_ssid | D_wifi_key | D_lwm2m_endpoint | D_lwm2m_uri | D_lwm2m_psk_id
  | D_lwm2m_psk_key | D_mqtt_uri | D_mqtt_device_id | D_mqtt_psk_id | D_mqtt_psk_key
  | D_http_uri | D_http_sig_uri | D_http_key | D_config_uri

primrec dest_get :: "dest \<Rightarrow> config \<Rightarrow> string" where
  "dest_get D_wifi_ssid c = wifi_ssid c"
| "dest_get D_wifi_key c = wifi_key c"
| "dest_get D_lwm2m_endpoint c = lwm2m_endpoint c"
| "dest_get D_lwm2m_uri c = lwm2m_uri c"
| "dest_get D_lwm2m_psk_id c = lwm2m_psk_id c"
| "dest_get D_lwm2m_psk_key c = lwm2m_psk_key c"
| "dest_get D_mqtt_uri c = mqtt_uri c"
| "dest_get D_mqtt_device_id c = mqtt_device_id c"
| "dest_get D_mqtt_psk_id c = mqtt_psk_id c"
| "dest_get D_mqtt_psk_key c = mqtt_psk_key c"
| "dest_get D_http_uri c = http_uri c"
| "dest_get D_http_sig_uri c = http_sig_uri c"
| "dest_get D_http_key c = http_key c"
| "dest_get D_config_uri c = config_uri c"

primrec dest_put :: "dest \<Rightarrow> string \<Rightarrow> config \<Rightarrow> config" where
  "dest_put D_wifi_ssid b c = c\<lparr>wifi_ssid := b\<rparr>"
| "dest_put D_wifi_key b c = c\<lparr>wifi_key := b\<rparr>"
| "dest_put D_lwm2m_endpoint b c = c\<lparr>lwm2m_endpoint := b\<rparr>"
| "dest_put D_lwm2m_uri b c = c\<lparr>lwm2m_uri := b\<rparr>"
| "dest_put D_lwm2m_psk_id b c = c\<lparr>lwm2m_psk_id := b\<rparr>"
| "dest_put D_lwm2m_psk_key b c = c\<lparr>lwm2m_psk_key := b\<rparr>"
| "dest_put D_mqtt_uri b c = c\<lparr>mqtt_uri := b\<rparr>"
| "dest_put D_mqtt_device_id b c = c\<lparr>mqtt_device_id := b\<rparr>"
| "dest_put D_mqtt_psk_id b c = c\<lparr>mqtt_psk_id := b\<rparr>"
| "dest_put D_mqtt_psk_key b c = c\<lparr>mqtt_psk_key := b\<rparr>"
| "dest_put D_http_uri b c = c\<lparr>http_uri := b\<rparr>"
| "dest_put D_http_sig_uri b c = c\<lparr>http_sig_uri := b\<rparr>"
| "dest_put D_http_key b c = c\<lparr>http_key := b\<rparr>"
| "dest_put D_config_uri b c = c\<lparr>config_uri := b\<rparr>"

primrec dest_size :: "dest \<Rightarrow> nat" where
  "dest_size D_wifi_ssid = 32"
| "dest_size D_wifi_key = 32"
| "dest_size D_lwm2m_endpoint = 128"
| "dest_size D_lwm2m_uri = 128"
| "dest_size D_lwm2m_psk_id = 128"
| "dest_size D_lwm2m_psk_key = 64"
| "dest_size D_mqtt_uri = 128"
| "dest_size D_mqtt_device_id = 128"
| "dest_size D_mqtt_psk_id = 128"
| "dest_size D_mqtt_psk_key = 64"
| "dest_size D_http_uri = 128"
| "dest_size D_http_sig_uri = 128"
| "dest_size D_http_key = 256"
| "dest_size D_config_uri = 128"

definition copyString :: "string \<Rightarrow> nat \<Rightarrow> string \<Rightarrow> nat \<Rightarrow> string option" where
  \<comment> \<open>clamp the length, clear the destination, copy at most that many bytes\<close>
  "copyString dest dest_len src src_len =
     (let n = (if src_len > dest_len then dest_len else src_len) in
      if dest_len \<le> length dest
      then strncpy (replicate dest_len nul @ drop dest_len dest) src n else None)"

definition copy_value ::
  "string \<Rightarrow> jsmntok list \<Rightarrow> nat \<Rightarrow> (dest \<times> nat) option \<Rightarrow> config \<Rightarrow> config option" where
  \<comment> \<open>the copy at the end of every section: the token after the key, if it is a string\<close>
  "copy_value buf toks i dst c =
     do { v \<leftarrow> tok_at toks (i + 1);
          case dst of
            Some (d, dest_len) \<Rightarrow>
              if tok_type v = JSMN_STRING
              then do { b \<leftarrow> copyString (dest_get d c) dest_len (drop (nat (tok_start v)) buf)
                                (nat (tok_end v - tok_start v));
                        Some (dest_put d b c) }
              else Some c
          | None \<Rightarrow> Some c }"

section \<open>The token loop\<close>

definition INT8_MIN :: int where
  "INT8_MIN = -128"

record load_keys =
  k_wifi :: int
  k_lwm2m :: int
  k_ntp :: int
  k_lwm2m_psk :: int
  k_lwm2m_cert :: int
  k_ntp_url :: int
  k_ntp_array :: int
  k_mqtt :: int
  k_mqtt_psk :: int
  k_mqtt_cert :: int
  k_http :: int
  k_config :: int

definition keys_init :: load_keys where
  "keys_init =
    \<lparr>k_wifi = INT8_MIN, k_lwm2m = INT8_MIN, k_ntp = INT8_MIN, k_lwm2m_psk = INT8_MIN,
     k_lwm2m_cert = INT8_MIN, k_ntp_url = INT8_MIN, k_ntp_array = INT8_MIN,
     k_mqtt = INT8_MIN, k_mqtt_psk = INT8_MIN, k_mqtt_cert = INT8_MIN,
     k_http = INT8_MIN, k_config = INT8_MIN\<rparr>"

definition load_root :: "string \<Rightarrow> jsmntok \<Rightarrow> nat \<Rightarrow> load_keys \<Rightarrow> load_keys option" where
  "load_root buf t i k =
     key_chain buf t
       [([''wifi''], k\<lparr>k_wifi := int i\<rparr>),
        ([''lwm2m''], k\<lparr>k_lwm2m := int i\<rparr>),
        ([''ntp''], k\<lparr>k_ntp := int i\<rparr>),
        ([''mqtt''], k\<lparr>k_mqtt := int i\<rparr>),
        ([''http''], k\<lparr>k_http := int i\<rparr>),
        ([''config''], k\<lparr>k_config := int i\<rparr>)] k"

definition load_wifi ::
  "string \<Rightarrow> jsmntok list \<Rightarrow> jsmntok \<Rightarrow> nat \<Rightarrow> load_keys \<Rightarrow> config \<Rightarrow> (load_keys \<times> config) option" where
  "load_wifi buf toks t i k c =
     do { dst \<leftarrow> key_chain buf t
                  [([''ssid''], Some (D_wifi_ssid, 32)), ([''key''], Some (D_wifi_key, 32))] None;
          c' \<leftarrow> copy_value buf toks i dst c;
          Some (k, c') }"

definition load_lwm2m ::
  "string \<Rightarrow> jsmntok list \<Rightarrow> jsmntok \<Rightarrow> nat \<Rightarrow> load_keys \<Rightarrow> config \<Rightarrow> (load_keys \<times> config) option" where
  "load_lwm2m buf toks t i k c =
     do { (k', dst) \<leftarrow> key_chain buf t
            [([''uri'', ''url''], (k, Some (D_lwm2m_uri, 128))),
             ([''psk''], (k\<lparr>k_lwm2m_psk := int i\<rparr>, None)),
             ([''cert''], (k\<lparr>k_lwm2m_cert := int i\<rparr>, None)),
             ([''bootstrap''], (k, None)),
             ([''endpoint'', ''device''], (k, Some (D_lwm2m_endpoint, 128)))] (k, None);
          c' \<leftarrow> copy_value buf toks i dst c;
          Some (k', c') }"

definition load_ntp :: "string \<Rightarrow> jsmntok \<Rightarrow> nat \<Rightarrow> load_keys \<Rightarrow> load_keys option" where
  "load_ntp buf t i k = key_chain buf t [([''url''], k\<lparr>k_ntp_url := int i\<rparr>)] k"

definition load_ntp_entry :: "string \<Rightarrow> jsmntok \<Rightarrow> config \<Rightarrow> config option" where
  \<comment> \<open>\<open>strncpy(&config_ntp_url[0], read_buffer + start, src_len)\<close>: no bound but the token's\<close>
  "load_ntp_entry buf t c =
     do { b \<leftarrow> strncpy (ntp_url c) (drop (nat (tok_start t)) buf) (nat (tok_end t - tok_start t));
          Some (c\<lparr>ntp_url := b\<rparr>) }"

definition load_mqtt ::
  "string \<Rightarrow> jsmntok list \<Rightarrow> jsmntok \<Rightarrow> nat \<Rightarrow> load_keys \<Rightarrow> config \<Rightarrow> (load_keys \<times> config) option" where
  "load_mqtt buf toks t i k c =
     do { (k', dst) \<leftarrow> key_chain buf t
            [([''uri'', ''url''], (k, Some (D_mqtt_uri, 128))),
             ([''device''], (k, Some (D_mqtt_device_id, 128))),
             ([''username''], (k, None)),
             ([''password''], (k, None)),
             ([''psk''], (k\<lparr>k_mqtt_psk := int i\<rparr>, None)),
             ([''cert''], (k\<lparr>k_mqtt_cert := int i\<rparr>, None))] (k, None);
          c' \<leftarrow> copy_value buf toks i dst c;
          Some (k', c') }"

definition load_lwm2m_psk ::
  "string \<Rightarrow> jsmntok list \<Rightarrow> jsmntok \<Rightarrow> nat \<Rightarrow> load_keys \<Rightarrow> config \<Rightarrow> (load_keys \<times> config) option" where
  "load_lwm2m_psk buf toks t i k c =
     do { dst \<leftarrow> key_chain buf t
            [([''id''], Some (D_lwm2m_psk_id, 128)), ([''key''], Some (D_lwm2m_psk_key, 64))] None;
          c' \<leftarrow> copy_value buf toks i dst c;
          Some (k, c') }"

definition load_mqtt_psk ::
  "string \<Rightarrow> jsmntok list \<Rightarrow> jsmntok \<Rightarrow> nat \<Rightarrow> load_keys \<Rightarrow> config \<Rightarrow> (load_keys \<times> config) option" where
  "load_mqtt_psk buf toks t i k c =
     do { dst \<leftarrow> key_chain buf t
            [([''id''], Some (D_mqtt_psk_id, 128)), ([''key''], Some (D_mqtt_psk_key, 64))] None;
          c' \<leftarrow> copy_value buf toks i dst c;
          Some (k, c') }"

definition load_http ::
  "string \<Rightarrow> jsmntok list \<Rightarrow> jsmntok \<Rightarrow> nat \<Rightarrow> load_keys \<Rightarrow> config \<Rightarrow> (load_keys \<times> config) option" where
  \<comment> \<open>the first test is an \<open>if\<close> of its own: the chain that follows may override it\<close>
  "load_http buf toks t i k c =
     do { dst0 \<leftarrow> key_chain buf t [([''uri'', ''url''], Some (D_http_uri, 128))] None;
          dst \<leftarrow> key_chain buf t
            [([''sig'', ''sig_uri''], Some (D_http_sig_uri, 128)),
             ([''key''], Some (D_http_key, 256)),
             ([''cert''], dst0),
             ([''endpoint'', ''device''], dst0)] dst0;
          c' \<leftarrow> copy_value buf toks i dst c;
          Some (k, c') }"

definition load_config ::
  "string \<Rightarrow> jsmntok list \<Rightarrow> jsmntok \<Rightarrow> nat \<Rightarrow> load_keys \<Rightarrow> config \<Rightarrow> (load_keys \<times> config) option" where
  "load_config buf toks t i k c =
     do { dst \<leftarrow> key_chain buf t
            [([''uri'', ''url''], Some (D_config_uri, 128)),
             ([''psk''], None), ([''cert''], None), ([''endpoint'', ''device''], None)] None;
          c' \<leftarrow> copy_value buf toks i dst c;
          Some (k, c') }"

definition load_step ::
  "string \<Rightarrow> jsmntok list \<Rightarrow> nat \<Rightarrow> load_keys \<times> config \<Rightarrow> (load_keys \<times> config) option" where
  "load_step buf toks i kc =
     (case kc of (k, c) \<Rightarrow>
       do { t \<leftarrow> tok_at toks i;
            let str = (tok_type t = JSMN_STRING);
            let par = tok_parent t;
            if par = 0 \<and> str then do { k' \<leftarrow> load_root buf t i k; Some (k', c) }
            else if k_wifi k + 1 = par \<and> str then load_wifi buf toks t i k c
            else if k_lwm2m k + 1 = par \<and> str then load_lwm2m buf toks t i k c
            else if k_ntp k + 1 = par \<and> str then do { k' \<leftarrow> load_ntp buf t i k; Some (k', c) }
            else if k_ntp_url k = par \<and> tok_type t = JSMN_ARRAY
              then Some (k\<lparr>k_ntp_array := int i\<rparr>, c)
            else if k_ntp_array k = par \<and> str then do { c' \<leftarrow> load_ntp_entry buf t c; Some (k, c') }
            else if k_mqtt k + 1 = par \<and> str then load_mqtt buf toks t i k c
            else if k_lwm2m_psk k + 1 = par \<and> str then load_lwm2m_psk buf toks t i k c
            else if k_mqtt_psk k + 1 = par \<and> str then load_mqtt_psk buf toks t i k c
            else if k_http k + 1 = par \<and> str then load_http buf toks t i k c
            else if k_config k + 1 = par \<and> str then load_config buf toks t i k c
            else Some (k, c) })"

fun load_loop ::
  "string \<Rightarrow> jsmntok list \<Rightarrow> nat list \<Rightarrow> load_keys \<times> config \<Rightarrow> (load_keys \<times> config) option" where
  "load_loop buf toks [] kc = Some kc"
| "load_loop buf toks (i # js) kc =
     do { kc' \<leftarrow> load_step buf toks i kc; load_loop buf toks js kc' }"

definition load_tokens :: "string \<Rightarrow> jsmntok list \<Rightarrow> nat \<Rightarrow> config \<Rightarrow> config option" where
  \<comment> \<open>the \<open>for\<close> loop over \<open>parse_result\<close> tokens\<close>
  "load_tokens buf toks n c = map_option snd (load_loop buf toks [0..<n] (keys_init, c))"

section \<open>Reading the file\<close>

datatype fresult = FR_OK | FR_NOT_ENOUGH_CORE | FR_ERROR nat

record load_env =
  env_open :: fresult                      \<comment> \<open>\<open>f_open(&file, "SD:/CONFIG.TXT", FA_READ)\<close>\<close>
  env_size :: nat                          \<comment> \<open>\<open>f_size(&file)\<close>\<close>
  env_read :: "nat \<Rightarrow> fresult \<times> string"    \<comment> \<open>\<open>f_read\<close> of that many bytes\<close>
  env_jsmn :: "string \<Rightarrow> nat option \<Rightarrow> int \<times> jsmntok list"
    \<comment> \<open>\<open>jsmn_parse\<close>: \<open>None\<close> is the counting call with a null token array\<close>

definition miso_load_config :: "load_env \<Rightarrow> heap \<Rightarrow> config \<Rightarrow> (heap \<times> config) option" where
  "miso_load_config e h c =
    (if env_open e \<noteq> FR_OK then Some (h, c)
     else
      (let fSize = env_size e;
           (got_buf, h1) = (if fSize > 0 then heap_malloc h else (False, h)) in
       if fSize > 0 \<and> \<not> got_buf then Some (h1, c)
       else
        (let (r, buf) = env_read e fSize in
         if r \<noteq> FR_OK then Some (if got_buf then heap_free h1 else h1, c)
         else
          (let n0 = fst (env_jsmn e buf None);
               (got_tok, h2) = (if n0 > 0 then heap_malloc h1 else (False, h1));
               (n, toks) = env_jsmn e buf (if got_tok then Some (nat n0) else None);
               h3 = (if got_tok then heap_free h2 else h2);
               h4 = (if got_buf then heap_free h3 else h3) in
           do { c' \<leftarrow> load_tokens buf (if got_tok then toks else []) (nat n) c;
                Some (h4, c') }))))"


section \<open>Memory safety of the token loop\<close>

text \<open>
  What jsmn guarantees of a string token: its bounds lie inside the buffer and the byte
  after it is the closing quote.
\<close>

definition tok_ok :: "string \<Rightarrow> jsmntok \<Rightarrow> bool" where
  "tok_ok buf t \<longleftrightarrow> -1 \<le> tok_parent t \<and>
     (tok_type t = JSMN_STRING \<longrightarrow>
        0 \<le> tok_start t \<and> tok_start t \<le> tok_end t \<and> nat (tok_end t) < length buf \<and>
        buf ! nat (tok_end t) = CHR 0x22)"

text \<open>
  A string token is a section member when its parent token follows a key of the root
  object, or a key that starts with \<open>psk\<close>: the loop then reads the token after it.
\<close>

definition member :: "string \<Rightarrow> jsmntok list \<Rightarrow> nat \<Rightarrow> bool" where
  "member buf toks i \<longleftrightarrow> tok_type (toks ! i) = JSMN_STRING \<and>
     (\<exists>j < length toks. tok_parent (toks ! i) = int j + 1 \<and> tok_type (toks ! j) = JSMN_STRING \<and>
        (tok_parent (toks ! j) = 0 \<or> key_is buf (toks ! j) ''psk'' = Some True))"

definition array_entry :: "jsmntok list \<Rightarrow> nat \<Rightarrow> bool" where
  "array_entry toks i \<longleftrightarrow> tok_type (toks ! i) = JSMN_STRING \<and>
     (\<exists>j < length toks. tok_parent (toks ! i) = int j \<and> tok_type (toks ! j) = JSMN_ARRAY)"

definition toks_wf :: "string \<Rightarrow> jsmntok list \<Rightarrow> bool" where
  "toks_wf buf toks \<longleftrightarrow>
     (\<forall>i < length toks. tok_ok buf (toks ! i) \<and> (member buf toks i \<longrightarrow> i + 1 < length toks) \<and>
        (array_entry toks i \<longrightarrow> tok_end (toks ! i) - tok_start (toks ! i) \<le> 64))"

definition keys_wf :: "string \<Rightarrow> jsmntok list \<Rightarrow> load_keys \<Rightarrow> bool" where
  "keys_wf buf toks k \<longleftrightarrow>
     (\<forall>v \<in> {k_wifi k, k_lwm2m k, k_mqtt k, k_http k, k_config k}. v = -128 \<or>
        (\<exists>j < length toks. v = int j \<and> tok_type (toks ! j) = JSMN_STRING \<and>
             tok_parent (toks ! j) = 0)) \<and>
     (\<forall>v \<in> {k_lwm2m_psk k, k_mqtt_psk k}. v = -128 \<or>
        (\<exists>j < length toks. v = int j \<and> tok_type (toks ! j) = JSMN_STRING \<and>
             key_is buf (toks ! j) ''psk'' = Some True)) \<and>
     (k_ntp_array k = -128 \<or>
        (\<exists>j < length toks. k_ntp_array k = int j \<and> tok_type (toks ! j) = JSMN_ARRAY))"

lemma keys_init_wf: "keys_wf buf toks keys_init"
  by (simp add: keys_wf_def keys_init_def INT8_MIN_def)

definition quote_free :: "(string list \<times> 'a) list \<Rightarrow> bool" where
  "quote_free tbl \<longleftrightarrow> (\<forall>(ls, a) \<in> set tbl. \<forall>l \<in> set ls. CHR 0x22 \<notin> set l)"

lemma key_is_safe:
  assumes "tok_ok buf t" "tok_type t = JSMN_STRING" "CHR 0x22 \<notin> set lit"
  shows "key_is buf t lit \<noteq> None"
proof -
  let ?p = "drop (nat (tok_start t)) buf" and ?k = "nat (tok_end t) - nat (tok_start t)"
  from assms(1,2) have "?k < length ?p" and "?p ! ?k = CHR 0x22"
    by (auto simp: tok_ok_def)
  then show ?thesis
    unfolding key_is_def using assms(3) by (intro strncmp_lit_safe [of ?k]) auto
qed

lemma key_any_safe:
  "tok_ok buf t \<Longrightarrow> tok_type t = JSMN_STRING \<Longrightarrow> \<forall>l \<in> set ls. CHR 0x22 \<notin> set l \<Longrightarrow>
   \<exists>b. key_any buf t ls = Some b \<and> (b \<longrightarrow> (\<exists>l \<in> set ls. key_is buf t l = Some True))"
proof (induction ls)
  case Nil
  show ?case by (rule exI [of _ False]) simp
next
  case (Cons l ls)
  then obtain b where "key_is buf t l = Some b" using key_is_safe by fastforce
  with Cons show ?case by auto
qed

text \<open>The rule for the \<open>else if\<close> chains: what holds of every reachable branch holds of the result.\<close>

lemma key_chain_rule:
  assumes "tok_ok buf t" "tok_type t = JSMN_STRING" "quote_free tbl" "P d"
    and "\<forall>(ls, a) \<in> set tbl. (\<exists>l \<in> set ls. key_is buf t l = Some True) \<longrightarrow> P a"
  shows "\<exists>r. key_chain buf t tbl d = Some r \<and> P r"
  using assms(3,5)
proof (induction tbl)
  case Nil
  with assms(4) show ?case by simp
next
  case (Cons x tbl)
  obtain ls a where x: "x = (ls, a)" by (cases x)
  have "\<forall>l \<in> set ls. CHR 0x22 \<notin> set l" using Cons.prems(1) x by (auto simp: quote_free_def)
  then obtain b where b: "key_any buf t ls = Some b"
    "b \<longrightarrow> (\<exists>l \<in> set ls. key_is buf t l = Some True)"
    using key_any_safe [OF assms(1,2)] by blast
  have rest: "\<exists>r. key_chain buf t tbl d = Some r \<and> P r"
    using Cons.prems by (intro Cons.IH) (auto simp: quote_free_def)
  show ?case
  proof (cases b)
    case True
    then have "P a" using Cons.prems(2) b(2) x by auto
    with True b x show ?thesis by simp
  next
    case False
    with b x rest show ?thesis by simp
  qed
qed

lemma dest_get_length: "config_wf c \<Longrightarrow> length (dest_get d c) = dest_size d"
  by (cases d) (simp_all add: config_wf_def)

lemma dest_put_wf: "config_wf c \<Longrightarrow> length b = dest_size d \<Longrightarrow> config_wf (dest_put d b c)"
  by (cases d) (simp_all add: config_wf_def)

lemma copyString_safe:
  assumes "length dest = n" "m \<le> length src \<or> n \<le> length src"
  shows "\<exists>b. copyString dest n src m = Some b \<and> length b = n"
proof -
  let ?m = "if m > n then n else m"
  have "readable src ?m" using assms(2) by (auto simp: readable_def)
  then show ?thesis using assms(1)
    by (auto simp: copyString_def Let_def strncpy_def)
qed

lemma copy_value_safe:
  assumes "toks_wf buf toks" "i + 1 < length toks" "config_wf c"
    and dst: "\<And>d n. dst = Some (d, n) \<Longrightarrow> n = dest_size d"
  shows "\<exists>c'. copy_value buf toks i dst c = Some c' \<and> config_wf c'"
proof (cases dst)
  case None
  with assms show ?thesis by (simp add: copy_value_def tok_at_def)
next
  case (Some p)
  then obtain d where d: "dst = Some (d, dest_size d)" using dst by (cases p) auto
  let ?v = "toks ! (i + 1)"
  have ok: "tok_ok buf ?v" using assms(1,2) unfolding toks_wf_def by blast
  show ?thesis
  proof (cases "tok_type ?v = JSMN_STRING")
    case True
    let ?m = "nat (tok_end ?v - tok_start ?v)"
    have "?m \<le> length (drop (nat (tok_start ?v)) buf)" using ok True by (auto simp: tok_ok_def)
    with copyString_safe [of "dest_get d c" "dest_size d" ?m] dest_get_length [OF assms(3)]
    obtain b where "copyString (dest_get d c) (dest_size d)
        (drop (nat (tok_start ?v)) buf) ?m = Some b" "length b = dest_size d" by blast
    with True d assms(2,3) dest_put_wf show ?thesis by (simp add: copy_value_def tok_at_def)
  next
    case False
    with d assms(2,3) show ?thesis by (simp add: copy_value_def tok_at_def)
  qed
qed


subsection \<open>Each section keeps the invariants\<close>

definition section_ok ::
  "string \<Rightarrow> jsmntok list \<Rightarrow> (load_keys \<times> config) option \<Rightarrow> bool" where
  "section_ok buf toks r \<longleftrightarrow> (\<exists>k c. r = Some (k, c) \<and> keys_wf buf toks k \<and> config_wf c)"

lemma section_okI:
  assumes chain: "\<exists>r. chain = Some r \<and>
      (\<forall>d n. snd r = Some (d, n) \<longrightarrow> n = dest_size d) \<and> keys_wf buf toks (fst r)"
    and "toks_wf buf toks" "i + 1 < length toks" "config_wf c"
  shows "section_ok buf toks (do { (k, dst) \<leftarrow> chain; c' \<leftarrow> copy_value buf toks i dst c; Some (k, c') })"
proof -
  obtain k dst where r: "chain = Some (k, dst)" "\<And>d n. dst = Some (d, n) \<Longrightarrow> n = dest_size d"
    "keys_wf buf toks k" using chain by fastforce
  from copy_value_safe [OF assms(2-4) r(2)] obtain c' where
    "copy_value buf toks i dst c = Some c'" "config_wf c'" by blast
  with r show ?thesis by (simp add: section_ok_def)
qed

lemma section_okI_const:
  assumes chain: "\<exists>r. chain = Some r \<and> (\<forall>d n. r = Some (d, n) \<longrightarrow> n = dest_size d)"
    and "toks_wf buf toks" "i + 1 < length toks" "config_wf c" "keys_wf buf toks k"
  shows "section_ok buf toks (do { dst \<leftarrow> chain; c' \<leftarrow> copy_value buf toks i dst c; Some (k, c') })"
proof -
  obtain dst where r: "chain = Some dst" "\<And>d n. dst = Some (d, n) \<Longrightarrow> n = dest_size d"
    using chain by blast
  from copy_value_safe [OF assms(2-4) r(2)] obtain c' where
    "copy_value buf toks i dst c = Some c'" "config_wf c'" by blast
  with r assms(5) show ?thesis by (simp add: section_ok_def)
qed

lemma keys_wf_root:
  assumes "keys_wf buf toks k" "i < length toks" "tok_type (toks ! i) = JSMN_STRING"
    "tok_parent (toks ! i) = 0"
  shows "keys_wf buf toks (k\<lparr>k_wifi := int i\<rparr>)" "keys_wf buf toks (k\<lparr>k_lwm2m := int i\<rparr>)"
    "keys_wf buf toks (k\<lparr>k_mqtt := int i\<rparr>)" "keys_wf buf toks (k\<lparr>k_http := int i\<rparr>)"
    "keys_wf buf toks (k\<lparr>k_config := int i\<rparr>)"
  using assms unfolding keys_wf_def by simp_all

lemma keys_wf_frame:
  "keys_wf buf toks (k\<lparr>k_ntp := v\<rparr>) = keys_wf buf toks k"
  "keys_wf buf toks (k\<lparr>k_ntp_url := v\<rparr>) = keys_wf buf toks k"
  "keys_wf buf toks (k\<lparr>k_lwm2m_cert := v\<rparr>) = keys_wf buf toks k"
  "keys_wf buf toks (k\<lparr>k_mqtt_cert := v\<rparr>) = keys_wf buf toks k"
  by (simp_all add: keys_wf_def)

lemma keys_wf_psk:
  assumes "keys_wf buf toks k" "i < length toks" "tok_type (toks ! i) = JSMN_STRING"
    "key_is buf (toks ! i) ''psk'' = Some True"
  shows "keys_wf buf toks (k\<lparr>k_lwm2m_psk := int i\<rparr>)" "keys_wf buf toks (k\<lparr>k_mqtt_psk := int i\<rparr>)"
  using assms unfolding keys_wf_def by simp_all

lemma keys_wf_array:
  "keys_wf buf toks k \<Longrightarrow> i < length toks \<Longrightarrow> tok_type (toks ! i) = JSMN_ARRAY \<Longrightarrow>
   keys_wf buf toks (k\<lparr>k_ntp_array := int i\<rparr>)"
  unfolding keys_wf_def by simp

lemma section_key:
  assumes "keys_wf buf toks k"
    and "v \<in> {k_wifi k, k_lwm2m k, k_mqtt k, k_http k, k_config k, k_lwm2m_psk k, k_mqtt_psk k}"
    and "v \<noteq> -128"
  shows "\<exists>j < length toks. v = int j \<and> tok_type (toks ! j) = JSMN_STRING \<and>
           (tok_parent (toks ! j) = 0 \<or> key_is buf (toks ! j) ''psk'' = Some True)"
  using assms unfolding keys_wf_def by fast

lemma section_ok_if:
  "(P \<Longrightarrow> section_ok buf toks x) \<Longrightarrow> (\<not> P \<Longrightarrow> section_ok buf toks y) \<Longrightarrow>
   section_ok buf toks (if P then x else y)"
  by simp

lemma load_ntp_entry_safe:
  assumes "tok_ok buf t" "tok_type t = JSMN_STRING" "config_wf c"
    and "tok_end t - tok_start t \<le> 64"
  shows "\<exists>c'. load_ntp_entry buf t c = Some c' \<and> config_wf c'"
proof -
  let ?n = "nat (tok_end t - tok_start t)"
  have "?n \<le> length (drop (nat (tok_start t)) buf)" using assms(1,2) by (auto simp: tok_ok_def)
  moreover have "?n \<le> length (ntp_url c)" using assms(3,4) by (simp add: config_wf_def)
  ultimately have "strncpy (ntp_url c) (drop (nat (tok_start t)) buf) ?n \<noteq> None"
    by (simp add: strncpy_def readable_def)
  then obtain b where b: "strncpy (ntp_url c) (drop (nat (tok_start t)) buf) ?n = Some b" by blast
  from strncpy_length [OF b] b assms(3) show ?thesis
    by (simp add: load_ntp_entry_def config_wf_def)
qed

lemma load_step_ok:
  assumes wf: "toks_wf buf toks" and i: "i < length toks" and k: "keys_wf buf toks k"
    and c: "config_wf c"
  shows "section_ok buf toks (load_step buf toks i (k, c))"
proof -
  define t where "t = toks ! i"
  have ok: "tok_ok buf t" using wf i unfolding toks_wf_def t_def by blast
  have at: "tok_at toks i = Some t" using i by (simp add: tok_at_def t_def)
  have root: "\<exists>k'. load_root buf t i k = Some k' \<and> keys_wf buf toks k'"
    if "tok_type t = JSMN_STRING" "tok_parent t = 0"
    unfolding load_root_def
    by (rule key_chain_rule [OF ok that(1)])
      (use that k i in \<open>simp_all add: quote_free_def keys_wf_frame t_def keys_wf_root\<close>)
  have ntp: "\<exists>k'. load_ntp buf t i k = Some k' \<and> keys_wf buf toks k'"
    if "tok_type t = JSMN_STRING"
    unfolding load_ntp_def
    by (rule key_chain_rule [OF ok that]) (use k in \<open>simp_all add: quote_free_def keys_wf_frame\<close>)
  have sect: "i + 1 < length toks"
    if str: "tok_type t = JSMN_STRING"
      and par: "tok_parent t \<in> {k_wifi k + 1, k_lwm2m k + 1, k_mqtt k + 1, k_http k + 1, k_config k + 1,
                       k_lwm2m_psk k + 1, k_mqtt_psk k + 1}"
  proof -
    obtain v where v: "tok_parent t = v + 1"
      "v \<in> {k_wifi k, k_lwm2m k, k_mqtt k, k_http k, k_config k, k_lwm2m_psk k, k_mqtt_psk k}"
      using par by blast
    then have "v \<noteq> -128" using ok by (auto simp: tok_ok_def)
    then have "member buf toks i"
      using section_key [OF k v(2)] str v(1) unfolding member_def t_def by blast
    then show ?thesis using wf i unfolding toks_wf_def by blast
  qed
  have s1: "section_ok buf toks (load_wifi buf toks t i k c)"
    if "tok_type t = JSMN_STRING" "i + 1 < length toks"
    unfolding load_wifi_def
    by (rule section_okI_const [OF key_chain_rule [OF ok that(1)] wf that(2) c k])
      (simp_all add: quote_free_def)
  have s2: "section_ok buf toks (load_lwm2m buf toks t i k c)"
    if "tok_type t = JSMN_STRING" "i + 1 < length toks"
    unfolding load_lwm2m_def
    by (rule section_okI [OF key_chain_rule [OF ok that(1)] wf that(2) c])
      (use k i that in \<open>simp_all add: quote_free_def keys_wf_frame t_def keys_wf_psk\<close>)
  have s3: "section_ok buf toks (load_mqtt buf toks t i k c)"
    if "tok_type t = JSMN_STRING" "i + 1 < length toks"
    unfolding load_mqtt_def
    by (rule section_okI [OF key_chain_rule [OF ok that(1)] wf that(2) c])
      (use k i that in \<open>simp_all add: quote_free_def keys_wf_frame t_def keys_wf_psk\<close>)
  have s4: "section_ok buf toks (load_lwm2m_psk buf toks t i k c)"
    if "tok_type t = JSMN_STRING" "i + 1 < length toks"
    unfolding load_lwm2m_psk_def
    by (rule section_okI_const [OF key_chain_rule [OF ok that(1)] wf that(2) c k])
      (simp_all add: quote_free_def)
  have s5: "section_ok buf toks (load_mqtt_psk buf toks t i k c)"
    if "tok_type t = JSMN_STRING" "i + 1 < length toks"
    unfolding load_mqtt_psk_def
    by (rule section_okI_const [OF key_chain_rule [OF ok that(1)] wf that(2) c k])
      (simp_all add: quote_free_def)
  have s6: "section_ok buf toks (load_config buf toks t i k c)"
    if "tok_type t = JSMN_STRING" "i + 1 < length toks"
    unfolding load_config_def
    by (rule section_okI_const [OF key_chain_rule [OF ok that(1)] wf that(2) c k])
      (simp_all add: quote_free_def)
  have s7: "section_ok buf toks (load_http buf toks t i k c)"
    if str: "tok_type t = JSMN_STRING" and nx: "i + 1 < length toks"
  proof -
    have "\<exists>r. key_chain buf t [([''uri'', ''url''], Some (D_http_uri, 128))] None = Some r \<and>
            (\<forall>d n. r = Some (d, n) \<longrightarrow> n = dest_size d)"
      by (rule key_chain_rule [OF ok str]) (simp_all add: quote_free_def)
    then obtain dst0 where d0: "key_chain buf t [([''uri'', ''url''], Some (D_http_uri, 128))] None
        = Some dst0" "\<forall>d n. dst0 = Some (d, n) \<longrightarrow> n = dest_size d" by blast
    show ?thesis
      unfolding load_http_def d0(1) Option.bind.simps
      by (rule section_okI_const [OF key_chain_rule [OF ok str] wf nx c k])
        (use d0(2) in \<open>simp_all add: quote_free_def\<close>)
  qed
  have entry: "\<exists>c'. load_ntp_entry buf t c = Some c' \<and> config_wf c'"
    if str: "tok_type t = JSMN_STRING" and par: "k_ntp_array k = tok_parent t"
  proof (rule load_ntp_entry_safe [OF ok str c])
    have "k_ntp_array k \<noteq> -128" using ok par by (auto simp: tok_ok_def)
    then have "array_entry toks i"
      using k str par unfolding keys_wf_def array_entry_def t_def by metis
    then show "tok_end t - tok_start t \<le> 64" using wf i unfolding toks_wf_def t_def by blast
  qed
  have upd: "section_ok buf toks (do { k' \<leftarrow> m; Some (k', c) })"
    if "\<exists>k'. m = Some k' \<and> keys_wf buf toks k'" for m
    using that c by (auto simp: section_ok_def)
  have upd2: "section_ok buf toks (do { c' \<leftarrow> m; Some (k, c') })"
    if "\<exists>c'. m = Some c' \<and> config_wf c'" for m
    using that k by (auto simp: section_ok_def)
  have arr: "section_ok buf toks (Some (k\<lparr>k_ntp_array := int i\<rparr>, c))"
    if "tok_type t = JSMN_ARRAY"
    using keys_wf_array [OF k i] that c by (simp add: section_ok_def t_def)
  have skip: "section_ok buf toks (Some (k, c))" using k c by (simp add: section_ok_def)
  show ?thesis
    unfolding load_step_def prod.case at Option.bind.simps Let_def
    by (intro section_ok_if upd upd2 root ntp entry skip arr s1 s2 s3 s4 s5 s6 s7; (elim conjE)?;
        (rule sect)?; simp)
qed

lemma load_loop_ok:
  assumes "toks_wf buf toks" "\<forall>i \<in> set js. i < length toks" "keys_wf buf toks k" "config_wf c"
  shows "section_ok buf toks (load_loop buf toks js (k, c))"
  using assms(2-4)
proof (induction js arbitrary: k c)
  case Nil
  then show ?case by (simp add: section_ok_def)
next
  case (Cons i js)
  from Cons.prems have "section_ok buf toks (load_step buf toks i (k, c))"
    by (intro load_step_ok assms(1)) auto
  then obtain k' c' where "load_step buf toks i (k, c) = Some (k', c')"
    "keys_wf buf toks k'" "config_wf c'" by (auto simp: section_ok_def)
  with Cons show ?case by simp
qed


section \<open>What a document loads\<close>

lemma cstr_append_text: "nul \<notin> set s \<Longrightarrow> cstr (s @ r) = s @ cstr r"
  by (induction s) (auto simp: cstr_def)

lemma copyString_text:
  assumes "length dest = n" and "nul \<notin> set s"
  shows "copyString dest n (s @ r) (length s) = Some (take n s @ replicate (n - length s) nul)"
proof -
  let ?m = "if length s > n then n else length s"
  have "strncpy (replicate n nul) (s @ r) ?m
      = Some (take ?m s @ drop ?m (replicate n nul))"
    using assms(2) by (auto simp: strncpy_def readable_def strncpy_image_def cstr_append_text)
  then show ?thesis using assms(1) by (auto simp: copyString_def Let_def)
qed

definition quoted :: "string \<Rightarrow> string" where
  "quoted s = CHR 0x22 # s @ [CHR 0x22]"

text \<open>For evaluation, one sample document with a wifi section, and the tokens of jsmn for it. They model no
  code of the repository.\<close>

definition wifi_doc :: "string \<Rightarrow> string \<Rightarrow> string" where
  "wifi_doc s k = ''{'' @ quoted ''wifi'' @ '':{'' @ quoted ''ssid'' @ '':'' @ quoted s @ '','' @
     quoted ''key'' @ '':'' @ quoted k @ ''}}''"

definition wifi_toks :: "string \<Rightarrow> string \<Rightarrow> jsmntok list" where
  "wifi_toks s k =
    (let n = int (length s); m = int (length k);
         tok = (\<lambda>ty a b p. \<lparr>tok_type = ty, tok_start = a, tok_end = b, tok_parent = p\<rparr>) in
     [tok JSMN_OBJECT 0 (29 + n + m) (-1), tok JSMN_STRING 2 6 0,
      tok JSMN_OBJECT 8 (28 + n + m) 1, tok JSMN_STRING 10 14 2,
      tok JSMN_STRING 17 (17 + n) 3, tok JSMN_STRING (20 + n) (23 + n) 2,
      tok JSMN_STRING (26 + n) (26 + n + m) 5])"

definition wifi_head :: string where
  "wifi_head = ''{'' @ quoted ''wifi'' @ '':{'' @ quoted ''ssid'' @ '':'' @ [CHR 0x22]"

lemma wifi_doc_split:
  "wifi_doc s k = wifi_head @ s @ ([CHR 0x22, CHR '',''] @ quoted ''key'' @ '':'' @ [CHR 0x22]) @
     k @ [CHR 0x22, CHR ''}'', CHR ''}'']"
  by (simp add: wifi_doc_def wifi_head_def quoted_def)

lemma drop_after_text: "length p \<le> a \<Longrightarrow> drop (a + length s) (p @ s @ r) = drop (a - length p) r"
  by simp

lemma length_wifi_head: "length wifi_head = 17"
  by (simp add: wifi_head_def quoted_def)

lemma wifi_doc_drops:
  "drop 2 (wifi_doc s k) = ''wifi'' @ drop 6 (wifi_doc s k)"
  "drop 10 (wifi_doc s k) = ''ssid'' @ drop 14 (wifi_doc s k)"
  "drop 17 (wifi_doc s k) = s @ drop (17 + length s) (wifi_doc s k)"
  "drop (20 + length s) (wifi_doc s k) = ''key'' @ drop (23 + length s) (wifi_doc s k)"
  "drop (26 + length s) (wifi_doc s k) = k @ [CHR 0x22, CHR ''}'', CHR ''}'']"
  subgoal by (simp add: wifi_doc_def quoted_def)
  subgoal by (simp add: wifi_doc_def quoted_def)
  subgoal unfolding wifi_doc_split by (simp add: length_wifi_head)
  subgoal unfolding wifi_doc_split
    by (subst (1 2) drop_after_text) (simp_all add: length_wifi_head quoted_def)
  subgoal unfolding wifi_doc_split
    by (subst drop_after_text) (simp_all add: length_wifi_head quoted_def)
  done

lemma nat_offset: "nat (numeral v + int n) = numeral v + n"
  by (simp add: nat_add_distrib)

lemma load_tokens_7:
  "load_tokens buf toks 7 c =
     map_option snd (do { x0 \<leftarrow> load_step buf toks 0 (keys_init, c); x1 \<leftarrow> load_step buf toks 1 x0;
       x2 \<leftarrow> load_step buf toks 2 x1; x3 \<leftarrow> load_step buf toks 3 x2;
       x4 \<leftarrow> load_step buf toks 4 x3; x5 \<leftarrow> load_step buf toks 5 x4;
       load_step buf toks 6 x5 })"
proof -
  have "[0..<7] = [0, 1, 2, 3, 4, 5, 6 :: nat]" by (simp add: upt_rec)
  moreover have "load_loop buf toks (i # js) =
      (\<lambda>kc. do { kc' \<leftarrow> load_step buf toks i kc; load_loop buf toks js kc' })" for i js
    by (rule ext) simp
  moreover have "load_loop buf toks [] = Some" by (rule ext) simp
  ultimately show ?thesis by (simp add: load_tokens_def)
qed

lemma wifi_toks_nth:
  "length (wifi_toks s k) = 7"
  "wifi_toks s k ! 0 = \<lparr>tok_type = JSMN_OBJECT, tok_start = 0,
      tok_end = 29 + int (length s) + int (length k), tok_parent = -1\<rparr>"
  "wifi_toks s k ! 1 = \<lparr>tok_type = JSMN_STRING, tok_start = 2, tok_end = 6, tok_parent = 0\<rparr>"
  "wifi_toks s k ! 2 = \<lparr>tok_type = JSMN_OBJECT, tok_start = 8,
      tok_end = 28 + int (length s) + int (length k), tok_parent = 1\<rparr>"
  "wifi_toks s k ! 3 = \<lparr>tok_type = JSMN_STRING, tok_start = 10, tok_end = 14, tok_parent = 2\<rparr>"
  "wifi_toks s k ! 4 = \<lparr>tok_type = JSMN_STRING, tok_start = 17, tok_end = 17 + int (length s),
      tok_parent = 3\<rparr>"
  "wifi_toks s k ! 5 = \<lparr>tok_type = JSMN_STRING, tok_start = 20 + int (length s),
      tok_end = 23 + int (length s), tok_parent = 2\<rparr>"
  "wifi_toks s k ! 6 = \<lparr>tok_type = JSMN_STRING, tok_start = 26 + int (length s),
      tok_end = 26 + int (length s) + int (length k), tok_parent = 5\<rparr>"
  by (simp_all add: wifi_toks_def Let_def)

lemmas wifi_toks_simps = wifi_toks_nth wifi_toks_nth(3) [unfolded One_nat_def]

lemma all_less_7:
  "(\<forall>i < 7. P i) \<longleftrightarrow> P 0 \<and> P 1 \<and> P 2 \<and> P 3 \<and> P 4 \<and> P 5 \<and> P (6::nat)"
  by (simp add: eval_nat_numeral All_less_Suc conj_ac)

lemma ex_less_7:
  "(\<exists>i < 7. P i) \<longleftrightarrow> P 0 \<or> P 1 \<or> P 2 \<or> P 3 \<or> P 4 \<or> P 5 \<or> P (6::nat)"
  by (simp add: eval_nat_numeral Ex_less_Suc disj_ac)

lemma load_wifi_copy:
  assumes "key_chain buf t [([''ssid''], Some (D_wifi_ssid, 32 :: nat)), ([''key''], Some (D_wifi_key, 32))]
             None = Some (Some (d, 32))" "d = D_wifi_ssid \<or> d = D_wifi_key"
    and "i + 1 < length toks" "tok_type (toks ! (i + 1)) = JSMN_STRING"
    and "drop (nat (tok_start (toks ! (i + 1)))) buf = s @ r"
    and "nat (tok_end (toks ! (i + 1)) - tok_start (toks ! (i + 1))) = length s"
    and "nul \<notin> set s" "config_wf c"
  shows "load_wifi buf toks t i k c =
           Some (k, dest_put d (take 32 s @ replicate (32 - length s) nul) c)"
proof -
  have "length (dest_get d c) = 32" using assms(2,8) by (auto simp: config_wf_def)
  from copyString_text [OF this assms(7)]
  show ?thesis
    unfolding load_wifi_def copy_value_def tok_at_def assms(1) Option.bind.simps
    using assms(3-6) by simp
qed


lemma wifi_keys:
  "key_is (wifi_doc s k) (wifi_toks s k ! 1) ''wifi'' = Some True"
  "key_chain (wifi_doc s k) (wifi_toks s k ! 3)
     [([''ssid''], Some (D_wifi_ssid, 32 :: nat)), ([''key''], Some (D_wifi_key, 32))] None
     = Some (Some (D_wifi_ssid, 32 :: nat))"
  "key_chain (wifi_doc s k) (wifi_toks s k ! 5)
     [([''ssid''], Some (D_wifi_ssid, 32 :: nat)), ([''key''], Some (D_wifi_key, 32))] None
     = Some (Some (D_wifi_key, 32 :: nat))"
  by (simp_all add: key_is_def wifi_toks_simps nat_offset wifi_doc_drops)

text \<open>Loading the sample document puts the two values, cut to the array and padded with
  zeros, into the arrays of the SSID and of the key, and changes no other array.\<close>

lemma load_wifi_document:
  assumes "nul \<notin> set s" and "nul \<notin> set k" and "config_wf c"
  shows "load_tokens (wifi_doc s k) (wifi_toks s k) 7 c =
    Some (c\<lparr>wifi_ssid := take 32 s @ replicate (32 - length s) nul,
            wifi_key := take 32 k @ replicate (32 - length k) nul\<rparr>)"
proof -
  let ?b = "wifi_doc s k" and ?t = "wifi_toks s k" and ?k1 = "keys_init\<lparr>k_wifi := 1\<rparr>"
  let ?c1 = "c\<lparr>wifi_ssid := take 32 s @ replicate (32 - length s) nul\<rparr>"
  let ?c2 = "?c1\<lparr>wifi_key := take 32 k @ replicate (32 - length k) nul\<rparr>"
  have wf1: "config_wf ?c1" using assms(3) by (simp add: config_wf_def)
  have 0: "load_step ?b ?t 0 (keys_init, c) = Some (keys_init, c)"
    by (simp add: load_step_def tok_at_def wifi_toks_simps keys_init_def INT8_MIN_def)
  have 1: "load_step ?b ?t 1 (keys_init, c) = Some (?k1, c)"
    using wifi_keys(1) [of s k]
    by (simp add: load_step_def tok_at_def wifi_toks_simps load_root_def)
  have 2: "load_step ?b ?t 2 (?k1, c) = Some (?k1, c)"
    by (simp add: load_step_def tok_at_def wifi_toks_simps keys_init_def INT8_MIN_def)
  have "load_wifi ?b ?t (?t ! 3) 3 ?k1 c
      = Some (?k1, dest_put D_wifi_ssid (take 32 s @ replicate (32 - length s) nul) c)"
    by (rule load_wifi_copy [OF wifi_keys(2)])
      (use assms in \<open>simp_all add: wifi_toks_simps wifi_doc_drops(3)\<close>)
  then have 3: "load_step ?b ?t 3 (?k1, c) = Some (?k1, ?c1)"
    by (simp add: load_step_def tok_at_def wifi_toks_simps)
  have 4: "load_step ?b ?t 4 (?k1, ?c1) = Some (?k1, ?c1)"
    by (simp add: load_step_def tok_at_def wifi_toks_simps keys_init_def INT8_MIN_def)
  have "load_wifi ?b ?t (?t ! 5) 5 ?k1 ?c1
      = Some (?k1, dest_put D_wifi_key (take 32 k @ replicate (32 - length k) nul) ?c1)"
    by (rule load_wifi_copy [OF wifi_keys(3)])
      (use assms wf1 in \<open>simp_all add: wifi_toks_simps nat_offset wifi_doc_drops(5)\<close>)
  then have 5: "load_step ?b ?t 5 (?k1, ?c1) = Some (?k1, ?c2)"
    by (simp add: load_step_def tok_at_def wifi_toks_simps)
  have 6: "load_step ?b ?t 6 (?k1, ?c2) = Some (?k1, ?c2)"
    by (simp add: load_step_def tok_at_def wifi_toks_simps keys_init_def INT8_MIN_def)
  from 0 1 2 3 4 5 6 show ?thesis by (simp add: load_tokens_7)
qed

lemma load_wifi_document_example:
  "load_tokens (wifi_doc ''home'' ''secret'') (wifi_toks ''home'' ''secret'') 7 config_init =
    Some (config_init\<lparr>wifi_ssid := ''home'' @ replicate 28 nul,
                      wifi_key := ''secret'' @ replicate 26 nul\<rparr>)"
  using load_wifi_document [of "''home''" "''secret''" config_init] by (simp add: config_init_wf)

text \<open>C21: the token loop stays inside the read buffer, the token array and every destination array
  and keeps the arrays' lengths, for every token array in which strings are closed by a
  quote, a section member is not the last token, and no entry of an array is longer than
  the 64 bytes of \<open>config_ntp_url\<close>.\<close>

theorem load_tokens_memory_safe:
  assumes "toks_wf buf toks" and "n \<le> length toks" and "config_wf c"
  shows "\<exists>c'. load_tokens buf toks n c = Some c' \<and> config_wf c'"
proof -
  have "section_ok buf toks (load_loop buf toks [0..<n] (keys_init, c))"
    using assms by (intro load_loop_ok keys_init_wf) auto
  then show ?thesis by (auto simp: section_ok_def load_tokens_def)
qed

theorem load_tokens_memory_safe_witness:
  "\<exists>c'. load_tokens (wifi_doc ''a'' ''b'') (wifi_toks ''a'' ''b'') 7 config_init = Some c' \<and>
        config_wf c'"
proof (rule load_tokens_memory_safe [OF _ _ config_init_wf])
  show "toks_wf (wifi_doc ''a'' ''b'') (wifi_toks ''a'' ''b'')"
    unfolding toks_wf_def member_def array_entry_def wifi_toks_nth(1) all_less_7 ex_less_7
    by (simp add: tok_ok_def key_is_def wifi_toks_simps wifi_doc_def quoted_def)
  show "7 \<le> length (wifi_toks ''a'' ''b'')" by (simp add: wifi_toks_simps)
qed

text \<open>An entry of the \<open>ntp.url\<close> array is copied with its own length as the only bound: the copy
  leaves \<open>config_ntp_url\<close> exactly when the entry is longer than 64 bytes.\<close>

lemma load_ntp_entry_overflow:
  assumes "tok_ok buf t" and "tok_type t = JSMN_STRING" and "config_wf c"
  shows "load_ntp_entry buf t c = None \<longleftrightarrow> 64 < tok_end t - tok_start t"
proof
  assume "load_ntp_entry buf t c = None"
  then show "64 < tok_end t - tok_start t"
    using load_ntp_entry_safe [OF assms] by fastforce
next
  assume "64 < tok_end t - tok_start t"
  then have "\<not> nat (tok_end t - tok_start t) \<le> length (ntp_url c)"
    using assms(3) by (simp add: config_wf_def)
  then show "load_ntp_entry buf t c = None" by (simp add: load_ntp_entry_def strncpy_def)
qed

lemma load_ntp_entry_overflow_example:
  "load_ntp_entry (replicate 65 CHR ''n'' @ [CHR 0x22])
     \<lparr>tok_type = JSMN_STRING, tok_start = 0, tok_end = 65, tok_parent = 4\<rparr> config_init = None"
  by (subst load_ntp_entry_overflow) (simp_all add: tok_ok_def config_init_wf nth_append)


text \<open>C39: whatever the file holds, a load that runs to its end frees what it allocated: the read
  buffer and the token array.\<close>

theorem miso_load_config_balanced:
  assumes "miso_load_config e h c = Some (h', c')"
  shows "live h' = live h"
  using assms
  by (auto simp: miso_load_config_def Let_def heap_malloc_def bind_eq_Some_conv
      split: if_splits prod.splits list.splits)

theorem miso_load_config_balanced_witness:
  "miso_load_config
     \<lparr>env_open = FR_OK, env_size = 2, env_read = (\<lambda>n. (FR_OK, ''{}'')),
      env_jsmn = (\<lambda>b t. (1, [\<lparr>tok_type = JSMN_OBJECT, tok_start = 0, tok_end = 2, tok_parent = -1\<rparr>]))\<rparr>
     \<lparr>outcomes = [True, True], live = 5\<rparr> config_init
   = Some (\<lparr>outcomes = [], live = 5\<rparr>, config_init) \<and>
   live \<lparr>outcomes = [], live = 5\<rparr> = live \<lparr>outcomes = [True, True], live = 5\<rparr>"
proof -
  let ?e = "\<lparr>env_open = FR_OK, env_size = 2, env_read = (\<lambda>n. (FR_OK, ''{}'')),
      env_jsmn = (\<lambda>b t. (1, [\<lparr>tok_type = JSMN_OBJECT, tok_start = 0, tok_end = 2, tok_parent = -1\<rparr>]))\<rparr>"
  have run: "miso_load_config ?e \<lparr>outcomes = [True, True], live = 5\<rparr> config_init
      = Some (\<lparr>outcomes = [], live = 5\<rparr>, config_init)"
    by (simp add: miso_load_config_def heap_malloc_def heap_free_def load_tokens_def
        load_step_def tok_at_def keys_init_def INT8_MIN_def)
  from run miso_load_config_balanced [OF run] show ?thesis by blast
qed

text \<open>When the file parses into tokens but the allocation of the token array fails, the loop
  still runs over the number of tokens the counting call returned and dereferences a null
  pointer.\<close>

lemma miso_load_config_null_tokens:
  assumes "env_open e = FR_OK" and "env_size e > 0" and "env_read e (env_size e) = (FR_OK, buf)"
    and "outcomes h = True # False # rest" and "0 < fst (env_jsmn e buf None)"
  shows "miso_load_config e h c = None"
proof -
  obtain n toks where n: "env_jsmn e buf None = (n, toks)" by (cases "env_jsmn e buf None")
  have "0 < nat n" using assms(5) n by simp
  then have "[0..<nat n] = 0 # [1..<nat n]" by (simp add: upt_conv_Cons)
  then have "load_tokens buf [] (nat n) c = None"
    by (simp add: load_tokens_def load_step_def tok_at_def)
  with assms n show ?thesis by (simp add: miso_load_config_def Let_def heap_malloc_def)
qed

lemma miso_load_config_null_tokens_example:
  "miso_load_config
     \<lparr>env_open = FR_OK, env_size = 2, env_read = (\<lambda>n. (FR_OK, ''{}'')),
      env_jsmn = (\<lambda>b t. (1, []))\<rparr> \<lparr>outcomes = [True, False], live = 0\<rparr> config_init = None"
  by (rule miso_load_config_null_tokens [where buf = "''{}''" and rest = "[]"]) simp_all

end
