(* ===== verification/Lwm2m.thy ===== *)
theory Lwm2m
  imports Prelude
begin

text \<open>
  What the LwM2M objects of \<^verbatim>\<open>c/legacy/src/lwm2m/lightclient\<close> share: the CoAP status codes, the
  \<open>lwm2m_data_t\<close> they fill, the loop over a request's resources, the contract of an object that can
  be read, and the contract of liblwm2m's instance lists.

  liblwm2m itself (the Wakaama library) is not part of the repository. Its status codes and resource
  identifiers are the numbers of RFC 7252 and of the OMA registry; its encoders are an argument, the
  record \<open>lwm2m_api\<close>; its list operations are an argument with the laws of the locale
  \<open>instance_list\<close>. An encoder fills the type and the value of the data it is given and leaves the
  identifier, so an encoder is a function to a type and a value. A data array and its length are one
  list.
\<close>

section \<open>Status codes\<close>

abbreviation COAP_NO_ERROR :: byte where "COAP_NO_ERROR \<equiv> 0x00"
abbreviation COAP_IGNORE :: byte where "COAP_IGNORE \<equiv> 0x01"
abbreviation COAP_201_CREATED :: byte where "COAP_201_CREATED \<equiv> 0x41"
abbreviation COAP_202_DELETED :: byte where "COAP_202_DELETED \<equiv> 0x42"
abbreviation COAP_204_CHANGED :: byte where "COAP_204_CHANGED \<equiv> 0x44"
abbreviation COAP_205_CONTENT :: byte where "COAP_205_CONTENT \<equiv> 0x45"
abbreviation COAP_400_BAD_REQUEST :: byte where "COAP_400_BAD_REQUEST \<equiv> 0x80"
abbreviation COAP_401_UNAUTHORIZED :: byte where "COAP_401_UNAUTHORIZED \<equiv> 0x81"
abbreviation COAP_404_NOT_FOUND :: byte where "COAP_404_NOT_FOUND \<equiv> 0x84"
abbreviation COAP_405_METHOD_NOT_ALLOWED :: byte where "COAP_405_METHOD_NOT_ALLOWED \<equiv> 0x85"
abbreviation COAP_406_NOT_ACCEPTABLE :: byte where "COAP_406_NOT_ACCEPTABLE \<equiv> 0x86"
abbreviation COAP_500_INTERNAL_SERVER_ERROR :: byte where
  "COAP_500_INTERNAL_SERVER_ERROR \<equiv> 0xA0"
abbreviation COAP_501_NOT_IMPLEMENTED :: byte where "COAP_501_NOT_IMPLEMENTED \<equiv> 0xA1"
abbreviation COAP_503_SERVICE_UNAVAILABLE :: byte where "COAP_503_SERVICE_UNAVAILABLE \<equiv> 0xA3"

section \<open>Resource data\<close>

datatype lwm2m_data_type =
    LWM2M_TYPE_UNDEFINED | LWM2M_TYPE_OBJECT | LWM2M_TYPE_OBJECT_INSTANCE
  | LWM2M_TYPE_MULTIPLE_RESOURCE | LWM2M_TYPE_STRING | LWM2M_TYPE_OPAQUE | LWM2M_TYPE_INTEGER
  | LWM2M_TYPE_UNSIGNED_INTEGER | LWM2M_TYPE_FLOAT | LWM2M_TYPE_BOOLEAN | LWM2M_TYPE_OBJECT_LINK
  | LWM2M_TYPE_CORE_LINK | LWM2M_TYPE_OTHER nat

text \<open>
  The union \<open>value\<close>: \<open>asInteger\<close>, \<open>asUnsigned\<close> and \<open>asFloat\<close> share their eight bytes, hence one
  constructor \<open>V_bits\<close> for the three.
\<close>

datatype lwm2m_data =
    LData (d_type: lwm2m_data_type) (d_id: u16) (d_value: lwm2m_value)
and lwm2m_value =
    V_none
  | V_bits "64 word"
  | V_bool bool
  | V_buffer string
  | V_children "lwm2m_data list"

type_synonym encoded = "lwm2m_data_type \<times> lwm2m_value"

record lwm2m_api =
  encode_string :: "string \<Rightarrow> encoded"
  encode_opaque :: "string \<Rightarrow> encoded"
  encode_int :: "int \<Rightarrow> encoded"
  encode_bool :: "bool \<Rightarrow> encoded"
  encode_float :: "u32 \<Rightarrow> encoded"     \<comment> \<open>the bits of a C \<open>float\<close>\<close>
  decode_int :: "lwm2m_data \<Rightarrow> int option"
  decode_bool :: "lwm2m_data \<Rightarrow> bool option"

definition put_value :: "encoded \<Rightarrow> lwm2m_data \<Rightarrow> lwm2m_data" where
  "put_value e d = LData (fst e) (d_id d) (snd e)"

definition data_new :: "u16 list \<Rightarrow> lwm2m_data list" where
  \<comment> \<open>\<open>lwm2m_data_new\<close> gives zeroed entries; the caller then stores the identifiers\<close>
  "data_new ids = map (\<lambda>i. LData LWM2M_TYPE_UNDEFINED i V_none) ids"

lemma put_value_simps [simp]:
  "d_id (put_value e d) = d_id d" "d_type (put_value e d) = fst e" "d_value (put_value e d) = snd e"
  by (simp_all add: put_value_def)

lemma data_new_ids [simp]: "map d_id (data_new ids) = ids"
  by (simp add: data_new_def o_def)

lemma data_new_Nil [simp]: "data_new ids = [] \<longleftrightarrow> ids = []"
  by (simp add: data_new_def)

text \<open>A concrete encoder for evaluation: the value goes into the union as it is.\<close>

definition plain_api :: lwm2m_api where
  "plain_api =
     \<lparr>encode_string = (\<lambda>s. (LWM2M_TYPE_STRING, V_buffer s)),
      encode_opaque = (\<lambda>s. (LWM2M_TYPE_OPAQUE, V_buffer s)),
      encode_int = (\<lambda>v. (LWM2M_TYPE_INTEGER, V_bits (word_of_int v))),
      encode_bool = (\<lambda>b. (LWM2M_TYPE_BOOLEAN, V_bool b)),
      encode_float = (\<lambda>f. (LWM2M_TYPE_FLOAT, V_bits (ucast f))),
      decode_int = (\<lambda>d. case d_value d of V_bits b \<Rightarrow> Some (sint b) | _ \<Rightarrow> None),
      decode_bool = (\<lambda>d. case d_value d of V_bool b \<Rightarrow> Some b | _ \<Rightarrow> None)\<rparr>"

section \<open>The loops over a request\<close>

text \<open>
  The \<open>do \<dots> while (i < numData && result == COAP_205_CONTENT)\<close> loop of the security, server and
  device objects; \<open>f\<close> is the object's \<open>prv_get_value\<close>. The loop is entered with at least one
  entry, so the result for the empty array is never used.
\<close>

fun read_each ::
  "(lwm2m_data \<Rightarrow> byte \<times> lwm2m_data) \<Rightarrow> lwm2m_data list \<Rightarrow> byte \<times> lwm2m_data list" where
  "read_each f [] = (COAP_404_NOT_FOUND, [])"
| "read_each f (d # ds) =
     (let (r, d') = (if d_type d = LWM2M_TYPE_MULTIPLE_RESOURCE then (COAP_404_NOT_FOUND, d)
                     else f d) in
      if ds \<noteq> [] \<and> r = COAP_205_CONTENT
      then (let (r', ds') = read_each f ds in (r', d' # ds'))
      else (r, d' # ds))"

text \<open>
  The \<open>for\<close> loop of the accelerometer and temperature objects, which breaks at the first status
  that is not \<open>COAP_205_CONTENT\<close> and starts from \<open>COAP_NO_ERROR\<close>.
\<close>

fun read_for ::
  "(lwm2m_data \<Rightarrow> byte \<times> lwm2m_data) \<Rightarrow> byte \<Rightarrow> lwm2m_data list \<Rightarrow> byte \<times> lwm2m_data list" where
  "read_for f r [] = (r, [])"
| "read_for f r (d # ds) =
     (let (r1, d') = f d in
      if r1 \<noteq> COAP_205_CONTENT then (r1, d' # ds)
      else (let (r', ds') = read_for f r1 ds in (r', d' # ds')))"

text \<open>
  A \<open>prv_get_value\<close> that answers from a table of values: the entry of a known resource is filled,
  any other entry is left as it was and the status says why.
\<close>

definition answers :: "(u16 \<Rightarrow> encoded option) \<Rightarrow> (lwm2m_data \<Rightarrow> byte \<times> lwm2m_data) \<Rightarrow> bool" where
  "answers val f \<longleftrightarrow>
     (\<forall>d. case val (d_id d) of
            Some e \<Rightarrow> f d = (COAP_205_CONTENT, put_value e d)
          | None \<Rightarrow> fst (f d) \<noteq> COAP_205_CONTENT \<and> snd (f d) = d)"

lemma answers_Some: "answers val f \<Longrightarrow> val (d_id d) = Some e \<Longrightarrow> f d = (COAP_205_CONTENT, put_value e d)"
  unfolding answers_def by (drule spec [of _ d]) simp

lemma answers_None:
  "answers val f \<Longrightarrow> val (d_id d) = None \<Longrightarrow> \<exists>r. f d = (r, d) \<and> r \<noteq> COAP_205_CONTENT"
  unfolding answers_def by (drule spec [of _ d]) (cases "f d", simp)

definition filled :: "(u16 \<Rightarrow> encoded option) \<Rightarrow> lwm2m_data list \<Rightarrow> lwm2m_data list" where
  "filled val ds = map (\<lambda>d. put_value (the (val (d_id d))) d) ds"

definition single_valued :: "lwm2m_data list \<Rightarrow> bool" where
  "single_valued ds \<longleftrightarrow> (\<forall>d \<in> set ds. d_type d \<noteq> LWM2M_TYPE_MULTIPLE_RESOURCE)"

lemma data_new_single [simp]: "single_valued (data_new ids)"
  by (auto simp: single_valued_def data_new_def)

lemma filled_ids [simp]: "map d_id (filled val ds) = map d_id ds"
  by (simp add: filled_def o_def)

lemma read_each_all:
  "answers val f \<Longrightarrow> ds \<noteq> [] \<Longrightarrow> single_valued ds \<Longrightarrow> \<forall>d \<in> set ds. val (d_id d) \<noteq> None \<Longrightarrow>
   read_each f ds = (COAP_205_CONTENT, filled val ds)"
proof (induction ds)
  case Nil
  then show ?case by simp
next
  case (Cons d ds)
  then obtain e where "val (d_id d) = Some e" by auto
  with Cons show ?case
    by (cases "ds = []") (simp_all add: answers_Some filled_def single_valued_def)
qed

lemma read_each_ids:
  "answers val f \<Longrightarrow> map d_id (snd (read_each f ds)) = map d_id ds"
proof (induction ds)
  case Nil
  then show ?case by simp
next
  case (Cons d ds)
  have "d_id (snd (f d)) = d_id d"
  proof (cases "val (d_id d)")
    case None
    then show ?thesis using answers_None [OF Cons.prems None] by auto
  next
    case (Some e)
    then show ?thesis using answers_Some [OF Cons.prems Some] by simp
  qed
  with Cons show ?case by (auto simp: Let_def split: prod.splits)
qed

lemma read_each_fails:
  "answers val f \<Longrightarrow> \<exists>d \<in> set ds. val (d_id d) = None \<or> d_type d = LWM2M_TYPE_MULTIPLE_RESOURCE \<Longrightarrow>
   fst (read_each f ds) \<noteq> COAP_205_CONTENT"
proof (induction ds)
  case Nil
  then show ?case by simp
next
  case (Cons d ds)
  show ?case
  proof (cases "d_type d = LWM2M_TYPE_MULTIPLE_RESOURCE \<or> val (d_id d) = None")
    case True
    then show ?thesis using answers_None [OF Cons.prems(1), of d] by (auto simp: Let_def)
  next
    case False
    then obtain e where "val (d_id d) = Some e" by auto
    moreover have "\<exists>d \<in> set ds. val (d_id d) = None \<or> d_type d = LWM2M_TYPE_MULTIPLE_RESOURCE"
      using False Cons.prems(2) by auto
    ultimately show ?thesis using Cons False
      by (auto simp: Let_def answers_Some split: prod.splits)
  qed
qed

lemma read_each_fails_at:
  "answers val f \<Longrightarrow> d \<in> set ds \<Longrightarrow> val (d_id d) = None \<Longrightarrow> fst (read_each f ds) \<noteq> COAP_205_CONTENT"
  using read_each_fails by blast

lemma read_for_all:
  "answers val f \<Longrightarrow> \<forall>d \<in> set ds. val (d_id d) \<noteq> None \<Longrightarrow> ds \<noteq> [] \<or> r = COAP_205_CONTENT \<Longrightarrow>
   read_for f r ds = (COAP_205_CONTENT, filled val ds)"
proof (induction ds arbitrary: r)
  case Nil
  then show ?case by (simp add: filled_def)
next
  case (Cons d ds)
  then obtain e where "val (d_id d) = Some e" by auto
  with Cons show ?case by (simp add: answers_Some filled_def)
qed

lemma read_for_Some:
  "answers val f \<Longrightarrow> val (d_id d) = Some e \<Longrightarrow>
   read_for f r (d # ds) =
     (fst (read_for f COAP_205_CONTENT ds), put_value e d # snd (read_for f COAP_205_CONTENT ds))"
  by (simp add: answers_Some split: prod.splits)

lemma read_for_None:
  "answers val f \<Longrightarrow> val (d_id d) = None \<Longrightarrow>
   \<exists>r'. read_for f r (d # ds) = (r', d # ds) \<and> r' \<noteq> COAP_205_CONTENT"
  using answers_None [of val f d] by auto

lemma read_for_ids: "answers val f \<Longrightarrow> map d_id (snd (read_for f r ds)) = map d_id ds"
proof (induction ds arbitrary: r)
  case Nil
  then show ?case by simp
next
  case (Cons d ds)
  show ?case
  proof (cases "val (d_id d)")
    case None
    then show ?thesis using read_for_None [OF Cons.prems None, of r ds] by auto
  next
    case (Some e)
    then show ?thesis using Cons by (simp add: read_for_Some del: read_for.simps)
  qed
qed

lemma read_for_fails:
  "answers val f \<Longrightarrow> \<exists>d \<in> set ds. val (d_id d) = None \<Longrightarrow> fst (read_for f r ds) \<noteq> COAP_205_CONTENT"
proof (induction ds arbitrary: r)
  case Nil
  then show ?case by simp
next
  case (Cons d ds)
  show ?case
  proof (cases "val (d_id d)")
    case None
    then show ?thesis using read_for_None [OF Cons.prems(1) None, of r ds] by auto
  next
    case (Some e)
    with Cons show ?thesis by (auto simp add: read_for_Some simp del: read_for.simps)
  qed
qed

lemma read_for_fails_at:
  "answers val f \<Longrightarrow> d \<in> set ds \<Longrightarrow> val (d_id d) = None \<Longrightarrow> fst (read_for f r ds) \<noteq> COAP_205_CONTENT"
  using read_for_fails by blast

section \<open>The contract of a readable object\<close>

text \<open>
  \<open>rd mem s i ds\<close> is an object's read handler: \<open>mem\<close> says whether \<open>lwm2m_data_new\<close> succeeds, \<open>s\<close> is
  the object's state, \<open>i\<close> the instance and \<open>ds\<close> the request, empty for the full instance.
  \<open>val s i r\<close> is the value of resource \<open>r\<close> that can be read.
\<close>

locale readable_object =
  fixes rd :: "bool \<Rightarrow> 's \<Rightarrow> u16 \<Rightarrow> lwm2m_data list \<Rightarrow> byte \<times> lwm2m_data list"
    and present :: "'s \<Rightarrow> u16 \<Rightarrow> bool"
    and val :: "'s \<Rightarrow> u16 \<Rightarrow> u16 \<Rightarrow> encoded option"
    and resources :: "u16 list"
  assumes absent: "\<not> present s i \<Longrightarrow> rd mem s i ds = (COAP_404_NOT_FOUND, ds)"
    and no_memory: "present s i \<Longrightarrow> rd False s i [] = (COAP_500_INTERNAL_SERVER_ERROR, [])"
    and full_instance: "present s i \<Longrightarrow> rd True s i [] = rd True s i (data_new resources)"
    and readable_all: "present s i \<Longrightarrow> ds \<noteq> [] \<Longrightarrow> single_valued ds \<Longrightarrow>
          \<forall>d \<in> set ds. val s i (d_id d) \<noteq> None \<Longrightarrow>
          rd mem s i ds = (COAP_205_CONTENT, filled (val s i) ds)"
    and unreadable: "present s i \<Longrightarrow> \<exists>d \<in> set ds. val s i (d_id d) = None \<Longrightarrow>
          fst (rd mem s i ds) \<noteq> COAP_205_CONTENT"
    and same_ids: "ds \<noteq> [] \<Longrightarrow> map d_id (snd (rd mem s i ds)) = map d_id ds"
    and resources_nonempty: "resources \<noteq> []"
begin

text \<open>A full read answers with the object's whole resource list, each entry with its value.\<close>

lemma read_full:
  assumes "present s i" and "\<forall>r \<in> set resources. val s i r \<noteq> None"
  shows "rd True s i [] = (COAP_205_CONTENT, filled (val s i) (data_new resources))"
proof -
  have "\<forall>d \<in> set (data_new resources). val s i (d_id d) \<noteq> None"
    using assms(2) by (auto simp: data_new_def)
  with assms(1) show ?thesis
    by (simp add: full_instance readable_all resources_nonempty)
qed

text \<open>
  Status 205 is exact: for a request whose entries are not declared multiple, it is the answer iff
  the instance exists and every requested resource can be read.
\<close>

lemma content_iff:
  assumes "ds \<noteq> []" and "single_valued ds"
  shows "fst (rd mem s i ds) = COAP_205_CONTENT \<longleftrightarrow>
           present s i \<and> (\<forall>d \<in> set ds. val s i (d_id d) \<noteq> None)"
proof (cases "present s i \<and> (\<forall>d \<in> set ds. val s i (d_id d) \<noteq> None)")
  case True
  with assms show ?thesis by (simp add: readable_all)
next
  case False
  then have "\<not> present s i \<or> present s i \<and> (\<exists>d \<in> set ds. val s i (d_id d) = None)" by metis
  then have "fst (rd mem s i ds) \<noteq> COAP_205_CONTENT"
    by (elim disjE conjE) (simp_all add: absent unreadable)
  with False show ?thesis by blast
qed

text \<open>The answer to a successful read, sent back as a request, is answered by itself.\<close>

lemma read_stable:
  assumes "ds \<noteq> []" and "single_valued ds" and "rd mem s i ds = (COAP_205_CONTENT, ds')"
    and "single_valued ds'"
  shows "rd mem s i ds' = (COAP_205_CONTENT, ds')"
proof -
  have p: "present s i" "\<forall>d \<in> set ds. val s i (d_id d) \<noteq> None"
    using content_iff [OF assms(1,2), of mem s i] assms(3) by simp_all
  then have ds': "ds' = filled (val s i) ds" using assms by (simp add: readable_all)
  then have "ds' \<noteq> []" "\<forall>d \<in> set ds'. val s i (d_id d) \<noteq> None"
    using assms(1) p(2) by (auto simp: filled_def)
  moreover have "filled (val s i) ds' = ds'"
    by (simp add: ds' filled_def put_value_def)
  ultimately show ?thesis using p(1) assms(4) by (simp add: readable_all)
qed

end

section \<open>Instance lists\<close>

text \<open>
  The list operations of liblwm2m over an object's instances, as the objects use them:
  \<open>find\<close> gives the node (its position) with an identifier, \<open>add\<close> links a node in, \<open>remove\<close>
  unlinks the node with an identifier and returns it. These are the documented behaviours of
  \<open>lwm2m_list_find\<close>, \<open>lwm2m_list_add\<close> and \<open>lwm2m_list_remove\<close>.
\<close>

definition inst_view :: "('i list \<Rightarrow> u16 \<Rightarrow> nat option) \<Rightarrow> 'i list \<Rightarrow> u16 \<Rightarrow> 'i option" where
  \<comment> \<open>the abstract view of an instance list: a map from identifiers to instances\<close>
  "inst_view fnd l k = (case fnd l k of None \<Rightarrow> None | Some p \<Rightarrow> Some (l ! p))"

locale instance_list =
  fixes key :: "'i \<Rightarrow> u16"
    and find :: "'i list \<Rightarrow> u16 \<Rightarrow> nat option"
    and add :: "'i list \<Rightarrow> 'i \<Rightarrow> 'i list"
    and remove :: "'i list \<Rightarrow> u16 \<Rightarrow> 'i list \<times> 'i option"
  assumes find_Some: "find l k = Some p \<Longrightarrow> p < length l \<and> key (l ! p) = k"
    and find_None: "find l k = None \<longleftrightarrow> k \<notin> key ` set l"
    and add_set: "k \<notin> key ` set l \<Longrightarrow> key x = k \<Longrightarrow> set (add l x) = insert x (set l)"
    and add_distinct: "distinct (map key l) \<Longrightarrow> key x \<notin> key ` set l \<Longrightarrow>
          distinct (map key (add l x))"
    and remove_absent: "k \<notin> key ` set l \<Longrightarrow> remove l k = (l, None)"
    and remove_present: "distinct (map key l) \<Longrightarrow> x \<in> set l \<Longrightarrow> key x = k \<Longrightarrow>
          snd (remove l k) = Some x \<and> set (fst (remove l k)) = set l - {x} \<and>
          distinct (map key (fst (remove l k)))"
begin

abbreviation view :: "'i list \<Rightarrow> u16 \<Rightarrow> 'i option" where
  "view \<equiv> inst_view find"

lemma view_Some_iff:
  assumes "distinct (map key l)"
  shows "view l k = Some x \<longleftrightarrow> x \<in> set l \<and> key x = k"
proof
  assume "view l k = Some x"
  then show "x \<in> set l \<and> key x = k"
    by (auto simp: inst_view_def split: option.splits dest: find_Some)
next
  assume x: "x \<in> set l \<and> key x = k"
  then have "find l k \<noteq> None" by (simp add: find_None) blast
  then obtain p where p: "find l k = Some p" by blast
  with find_Some have "p < length l" "key (l ! p) = k" by blast+
  with x assms have "l ! p = x"
    by (metis distinct_map inj_on_def nth_mem)
  with p show "view l k = Some x" by (simp add: inst_view_def)
qed

lemma view_None_iff: "view l k = None \<longleftrightarrow> k \<notin> key ` set l"
  by (simp add: inst_view_def find_None [symmetric] split: option.splits)

lemma view_ext:
  assumes "distinct (map key l)" "distinct (map key l')" "set l = set l'"
  shows "view l = view l'"
proof (rule ext)
  fix k
  show "view l k = view l' k"
  proof (cases "view l k")
    case None
    with assms(3) show ?thesis by (metis view_None_iff)
  next
    case (Some x)
    with assms show ?thesis by (metis view_Some_iff)
  qed
qed

text \<open>The three operations on the abstract view.\<close>

lemma view_update:
  assumes "distinct (map key l)" and "find l k = Some p" and "key y = k"
  shows "view (l[p := y]) = (view l)(k \<mapsto> y)" and "distinct (map key (l[p := y]))"
proof -
  have p: "p < length l" "key (l ! p) = k" using find_Some [OF assms(2)] by simp_all
  have keys: "map key (l[p := y]) = map key l"
    using p assms(3) by (metis list_update_id map_update nth_map)
  then show d: "distinct (map key (l[p := y]))" using assms(1) by simp
  show "view (l[p := y]) = (view l)(k \<mapsto> y)"
  proof (rule ext)
    fix j
    show "view (l[p := y]) j = ((view l)(k \<mapsto> y)) j"
    proof (cases "j = k")
      case True
      then show ?thesis using view_Some_iff [OF d] p(1) assms(3) by (simp add: set_update_memI)
    next
      case False
      have "x \<in> set (l[p := y]) \<longleftrightarrow> x \<in> set l" if "key x = j" for x
      proof -
        have "x \<noteq> y" "x \<noteq> l ! p" using that False p(2) assms(3) by auto
        then show ?thesis
          by (metis in_set_conv_nth length_list_update nth_list_update_eq nth_list_update_neq)
      qed
      then have "view (l[p := y]) j = Some x \<longleftrightarrow> view l j = Some x" for x
        using view_Some_iff [OF d] view_Some_iff [OF assms(1)] by metis
      then have "view (l[p := y]) j = view l j" by (metis option.exhaust)
      with False show ?thesis by simp
    qed
  qed
qed

lemma view_add:
  assumes "distinct (map key l)" and "key x \<notin> key ` set l"
  shows "view (add l x) = (view l)(key x \<mapsto> x)" and "distinct (map key (add l x))"
proof -
  show d: "distinct (map key (add l x))" using assms by (rule add_distinct)
  have s: "set (add l x) = insert x (set l)" using assms(2) by (rule add_set) simp
  have new: "key z \<noteq> key x" if "z \<in> set l" for z
    using that assms(2) by (metis imageI)
  have "view (add l x) j = Some z \<longleftrightarrow> ((view l)(key x \<mapsto> x)) j = Some z" for j z
    using view_Some_iff [OF d] view_Some_iff [OF assms(1)] s new
    by (cases "j = key x") auto
  then show "view (add l x) = (view l)(key x \<mapsto> x)"
    by (intro ext) (metis option.exhaust)
qed

lemma view_remove:
  assumes "distinct (map key l)" and "view l k = Some x"
  shows "snd (remove l k) = Some x" and "view (fst (remove l k)) = (view l)(k := None)"
    and "distinct (map key (fst (remove l k)))"
proof -
  have x: "x \<in> set l" "key x = k" using assms view_Some_iff by auto
  note r = remove_present [OF assms(1) x]
  then show "snd (remove l k) = Some x" and d: "distinct (map key (fst (remove l k)))" by simp_all
  have inj: "y = x" if "y \<in> set l" "key y = k" for y
    using that x assms(1) by (auto simp: distinct_map inj_on_def)
  have "view (fst (remove l k)) j = Some z \<longleftrightarrow> ((view l)(k := None)) j = Some z" for j z
    using view_Some_iff [OF d] view_Some_iff [OF assms(1)] r inj x(2) by auto
  then show "view (fst (remove l k)) = (view l)(k := None)"
    by (intro ext) (metis option.exhaust)
qed

text \<open>The number of nodes, hence of heap blocks.\<close>

lemma length_keys:
  assumes "distinct (map key l)"
  shows "length l = card (set l)"
  using assms distinct_card [of l] by (simp add: distinct_map)

lemma length_add:
  assumes "distinct (map key l)" and "key x \<notin> key ` set l"
  shows "length (add l x) = Suc (length l)"
proof -
  have "x \<notin> set l" using assms(2) by blast
  then show ?thesis
    using length_keys [OF add_distinct [OF assms]] length_keys [OF assms(1)]
      add_set [OF assms(2) refl] by simp
qed

lemma length_remove:
  assumes "distinct (map key l)" and "view l k = Some x"
  shows "Suc (length (fst (remove l k))) = length l"
proof -
  have x: "x \<in> set l" "key x = k" using assms view_Some_iff by auto
  note r = remove_present [OF assms(1) x]
  have "length (fst (remove l k)) = card (set l - {x})" using r by (simp add: length_keys)
  moreover have "card (set l) > 0" using x(1) by (auto simp: card_gt_0_iff)
  ultimately show ?thesis using x(1) by (simp add: length_keys [OF assms(1)] card_Diff_singleton)
qed

end

record 'i list_api =
  list_find :: "'i list \<Rightarrow> u16 \<Rightarrow> nat option"
  list_add :: "'i list \<Rightarrow> 'i \<Rightarrow> 'i list"
  list_remove :: "'i list \<Rightarrow> u16 \<Rightarrow> 'i list \<times> 'i option"

abbreviation list_api_ok :: "('i \<Rightarrow> u16) \<Rightarrow> 'i list_api \<Rightarrow> bool" where
  "list_api_ok key la \<equiv> instance_list key (list_find la) (list_add la) (list_remove la)"

text \<open>
  A concrete list library that has the laws: search from the front, insertion in front, removal of
  the first node with the identifier.
\<close>

fun node_find :: "('i \<Rightarrow> u16) \<Rightarrow> 'i list \<Rightarrow> u16 \<Rightarrow> nat option" where
  "node_find key [] k = None"
| "node_find key (x # xs) k = (if key x = k then Some 0 else map_option Suc (node_find key xs k))"

fun node_remove :: "('i \<Rightarrow> u16) \<Rightarrow> 'i list \<Rightarrow> u16 \<Rightarrow> 'i list \<times> 'i option" where
  "node_remove key [] k = ([], None)"
| "node_remove key (x # xs) k =
     (if key x = k then (xs, Some x)
      else (let (l, r) = node_remove key xs k in (x # l, r)))"

definition node_api :: "('i \<Rightarrow> u16) \<Rightarrow> 'i list_api" where
  "node_api key = \<lparr>list_find = node_find key, list_add = (\<lambda>l x. x # l), list_remove = node_remove key\<rparr>"

lemma node_find_Some: "node_find key l k = Some p \<Longrightarrow> p < length l \<and> key (l ! p) = k"
  by (induction l arbitrary: p) (auto split: if_splits)

lemma node_find_None: "node_find key l k = None \<longleftrightarrow> k \<notin> key ` set l"
  by (induction l) auto

lemma node_remove_absent: "k \<notin> key ` set l \<Longrightarrow> node_remove key l k = (l, None)"
  by (induction l) auto

lemma node_remove_present:
  "distinct (map key l) \<Longrightarrow> x \<in> set l \<Longrightarrow> key x = k \<Longrightarrow>
   snd (node_remove key l k) = Some x \<and> set (fst (node_remove key l k)) = set l - {x} \<and>
   distinct (map key (fst (node_remove key l k)))"
proof (induction l)
  case Nil
  then show ?case by simp
next
  case (Cons y l)
  show ?case
  proof (cases "key y = k")
    case True
    with Cons.prems have "y = x" by (metis distinct.simps(2) image_eqI list.set_map list.simps(9) set_ConsD)
    with Cons.prems show ?thesis by auto
  next
    case False
    with Cons.prems have x: "x \<in> set l" by auto
    with Cons have IH: "snd (node_remove key l k) = Some x"
      "set (fst (node_remove key l k)) = set l - {x}"
      "distinct (map key (fst (node_remove key l k)))" by simp_all
    obtain l' r where lr: "node_remove key l k = (l', r)" by (cases "node_remove key l k")
    from IH lr False Cons.prems show ?thesis by auto
  qed
qed

interpretation node: instance_list key "list_find (node_api key)" "list_add (node_api key)"
    "list_remove (node_api key)" for key :: "'i \<Rightarrow> u16"
  by unfold_locales
    (auto simp: node_api_def node_find_Some node_find_None node_remove_absent node_remove_present)

section \<open>Objects on the heap\<close>

record lwm2m_object =
  objID :: u16
  versionMajor :: byte
  versionMinor :: byte
  hasInstances :: bool      \<comment> \<open>\<open>instanceList\<close> is not null\<close>
  hasUserData :: bool       \<comment> \<open>\<open>userData\<close> is not null\<close>

text \<open>
  \<^verbatim>\<open>platform.c\<close>: \<open>lwm2m_malloc\<close> and \<open>lwm2m_free\<close> are those of FreeRTOS;
  \<open>lwm2m_strdup\<close> copies up to the terminator.
\<close>

definition lwm2m_malloc :: "heap \<Rightarrow> bool \<times> heap" where
  "lwm2m_malloc h = heap_malloc h"

definition lwm2m_free :: "heap \<Rightarrow> heap" where
  "lwm2m_free h = heap_free h"

definition lwm2m_strdup :: "string option \<Rightarrow> heap \<Rightarrow> (string option \<times> heap) option" where
  \<comment> \<open>the argument is a pointer; the outer \<open>None\<close> is a text without terminator\<close>
  "lwm2m_strdup str h =
    (case str of
       None \<Rightarrow> Some (None, h)
     | Some s \<Rightarrow>
         do { n \<leftarrow> c_strlen s;
              let len = n + 1;
              case lwm2m_malloc h of
                (False, h1) \<Rightarrow> Some (None, h1)
              | (True, h1) \<Rightarrow> Some (Some (take (len - 1) s @ replicate 1 nul), h1) })"

lemma lwm2m_strdup_text:
  assumes "nul \<in> set s" and "lwm2m_malloc h = (True, h1)"
  shows "lwm2m_strdup (Some s) h = Some (Some (cstr s @ [nul]), h1)"
proof -
  have "take (length (cstr s)) s = cstr s" by (simp add: cstr_def takeWhile_eq_take [symmetric])
  then show ?thesis using assms by (simp add: lwm2m_strdup_def c_strlen_def)
qed

end
