(* ===== verification/Server.thy ===== *)
theory Server
  imports Lwm2m
begin

text \<open>
  \<^verbatim>\<open>object_server.c\<close>: the LwM2M server object (object 1). An instance is the record
  \<open>server_instance\<close>; the object's state is its instance list together with the heap the list's
  nodes are taken from. \<open>None\<close> is an access outside the request's data array or outside
  \<open>binding\<close>. \<^verbatim>\<open>LWM2M_VERSION_1_0\<close> is not defined by the build, so the list of the
  allowed bindings is not part of the code.
\<close>

section \<open>Instances\<close>

abbreviation LWM2M_SERVER_SHORT_ID_ID :: u16 where "LWM2M_SERVER_SHORT_ID_ID \<equiv> 0"
abbreviation LWM2M_SERVER_LIFETIME_ID :: u16 where "LWM2M_SERVER_LIFETIME_ID \<equiv> 1"
abbreviation LWM2M_SERVER_MIN_PERIOD_ID :: u16 where "LWM2M_SERVER_MIN_PERIOD_ID \<equiv> 2"
abbreviation LWM2M_SERVER_MAX_PERIOD_ID :: u16 where "LWM2M_SERVER_MAX_PERIOD_ID \<equiv> 3"
abbreviation LWM2M_SERVER_DISABLE_ID :: u16 where "LWM2M_SERVER_DISABLE_ID \<equiv> 4"
abbreviation LWM2M_SERVER_TIMEOUT_ID :: u16 where "LWM2M_SERVER_TIMEOUT_ID \<equiv> 5"
abbreviation LWM2M_SERVER_STORING_ID :: u16 where "LWM2M_SERVER_STORING_ID \<equiv> 6"
abbreviation LWM2M_SERVER_BINDING_ID :: u16 where "LWM2M_SERVER_BINDING_ID \<equiv> 7"
abbreviation LWM2M_SERVER_UPDATE_ID :: u16 where "LWM2M_SERVER_UPDATE_ID \<equiv> 8"

record server_instance =
  si_instanceId :: u16
  si_shortServerId :: u16
  si_lifetime :: u32
  si_storing :: bool
  si_binding :: string

type_synonym server_state = "server_instance list \<times> heap"

definition server_zero :: "u16 \<Rightarrow> server_instance" where
  \<comment> \<open>\<open>memset\<close> to zero, then the instance identifier\<close>
  "server_zero i =
     \<lparr>si_instanceId = i, si_shortServerId = 0, si_lifetime = 0, si_storing = False,
      si_binding = replicate 4 nul\<rparr>"

section \<open>Reading\<close>

definition server_prv_get_value ::
  "lwm2m_api \<Rightarrow> server_instance \<Rightarrow> lwm2m_data \<Rightarrow> byte \<times> lwm2m_data" where
  "server_prv_get_value api t d =
    (if d_id d = LWM2M_SERVER_SHORT_ID_ID
     then (COAP_205_CONTENT, put_value (encode_int api (uint (si_shortServerId t))) d)
     else if d_id d = LWM2M_SERVER_LIFETIME_ID
     then (COAP_205_CONTENT, put_value (encode_int api (uint (si_lifetime t))) d)
     else if d_id d = LWM2M_SERVER_DISABLE_ID then (COAP_405_METHOD_NOT_ALLOWED, d)
     else if d_id d = LWM2M_SERVER_STORING_ID
     then (COAP_205_CONTENT, put_value (encode_bool api (si_storing t)) d)
     else if d_id d = LWM2M_SERVER_BINDING_ID
     then (COAP_205_CONTENT, put_value (encode_string api (cstr (si_binding t))) d)
     else if d_id d = LWM2M_SERVER_UPDATE_ID then (COAP_405_METHOD_NOT_ALLOWED, d)
     else (COAP_404_NOT_FOUND, d))"

definition server_resList :: "u16 list" where
  "server_resList =
     [LWM2M_SERVER_SHORT_ID_ID, LWM2M_SERVER_LIFETIME_ID, LWM2M_SERVER_STORING_ID,
      LWM2M_SERVER_BINDING_ID]"

definition prv_server_read ::
  "lwm2m_api \<Rightarrow> server_instance list_api \<Rightarrow> bool \<Rightarrow> server_instance list \<Rightarrow> u16 \<Rightarrow> lwm2m_data list
   \<Rightarrow> byte \<times> lwm2m_data list" where
  "prv_server_read api la mem l i ds =
    (case list_find la l i of
       None \<Rightarrow> (COAP_404_NOT_FOUND, ds)
     | Some p \<Rightarrow>
         if ds = [] then
           (if \<not> mem then (COAP_500_INTERNAL_SERVER_ERROR, [])
            else read_each (server_prv_get_value api (l ! p)) (data_new server_resList))
         else read_each (server_prv_get_value api (l ! p)) ds)"

definition server_discList :: "u16 list" where
  "server_discList =
     [LWM2M_SERVER_SHORT_ID_ID, LWM2M_SERVER_LIFETIME_ID, LWM2M_SERVER_MIN_PERIOD_ID,
      LWM2M_SERVER_MAX_PERIOD_ID, LWM2M_SERVER_DISABLE_ID, LWM2M_SERVER_TIMEOUT_ID,
      LWM2M_SERVER_STORING_ID, LWM2M_SERVER_BINDING_ID, LWM2M_SERVER_UPDATE_ID]"

fun server_discover_for :: "byte \<Rightarrow> lwm2m_data list \<Rightarrow> byte" where
  "server_discover_for r [] = r"
| "server_discover_for r (d # ds) =
     (if r = COAP_205_CONTENT
      then server_discover_for (if d_id d \<in> set server_discList then r else COAP_404_NOT_FOUND) ds
      else r)"

definition prv_server_discover :: "bool \<Rightarrow> lwm2m_data list \<Rightarrow> byte \<times> lwm2m_data list" where
  "prv_server_discover mem ds =
    (if ds = [] then
       (if \<not> mem then (COAP_500_INTERNAL_SERVER_ERROR, [])
        else (COAP_205_CONTENT, data_new server_discList))
     else (server_discover_for COAP_205_CONTENT ds, ds))"

section \<open>Writing\<close>

datatype lwm2m_write_type =
  LWM2M_WRITE_PARTIAL_UPDATE | LWM2M_WRITE_REPLACE_RESOURCES | LWM2M_WRITE_REPLACE_INSTANCE

definition prv_set_int_value :: "lwm2m_api \<Rightarrow> lwm2m_data \<Rightarrow> byte \<times> u32 option" where
  \<comment> \<open>the status, and the value stored through \<open>data\<close> if there is one\<close>
  "prv_set_int_value api d =
    (case decode_int api d of
       Some v \<Rightarrow> if v \<ge> 0 \<and> v \<le> 0xFFFFFFFF then (COAP_204_CHANGED, Some (word_of_int v))
                 else (COAP_406_NOT_ACCEPTABLE, None)
     | None \<Rightarrow> (COAP_400_BAD_REQUEST, None))"

definition server_write_binding ::
  "server_instance \<Rightarrow> lwm2m_data \<Rightarrow> (byte \<times> server_instance) option" where
  "server_write_binding t d =
    (case d_value d of
       V_buffer b \<Rightarrow>
         if (d_type d = LWM2M_TYPE_STRING \<or> d_type d = LWM2M_TYPE_OPAQUE) \<and> length b > 0 \<and>
            length b \<le> 3
         then do { s \<leftarrow> strncpy (si_binding t) b (length b);
                   Some (COAP_204_CHANGED, t\<lparr>si_binding := s\<rparr>) }
         else Some (COAP_400_BAD_REQUEST, t)
     | _ \<Rightarrow> Some (COAP_400_BAD_REQUEST, t))"

definition server_write_one ::
  "lwm2m_api \<Rightarrow> server_instance \<Rightarrow> lwm2m_data \<Rightarrow> (byte \<times> server_instance) option" where
  \<comment> \<open>the \<open>switch\<close> on the resource of one entry\<close>
  "server_write_one api t d =
    (if d_id d = LWM2M_SERVER_SHORT_ID_ID then
       (case prv_set_int_value api d of
          (r, Some v) \<Rightarrow> if 0 < v \<and> v \<le> 0xFFFF then Some (r, t\<lparr>si_shortServerId := ucast v\<rparr>)
                         else Some (COAP_406_NOT_ACCEPTABLE, t)
        | (r, None) \<Rightarrow> Some (r, t))
     else if d_id d = LWM2M_SERVER_LIFETIME_ID then
       (case prv_set_int_value api d of
          (r, Some v) \<Rightarrow> Some (r, t\<lparr>si_lifetime := v\<rparr>)
        | (r, None) \<Rightarrow> Some (r, t))
     else if d_id d = LWM2M_SERVER_DISABLE_ID then Some (COAP_405_METHOD_NOT_ALLOWED, t)
     else if d_id d = LWM2M_SERVER_STORING_ID then
       (case decode_bool api d of
          Some v \<Rightarrow> Some (COAP_204_CHANGED, t\<lparr>si_storing := v\<rparr>)
        | None \<Rightarrow> Some (COAP_400_BAD_REQUEST, t))
     else if d_id d = LWM2M_SERVER_BINDING_ID then server_write_binding t d
     else if d_id d = LWM2M_SERVER_UPDATE_ID then Some (COAP_405_METHOD_NOT_ALLOWED, t)
     else Some (COAP_404_NOT_FOUND, t))"

fun server_write_loop ::
  "lwm2m_api \<Rightarrow> server_instance \<Rightarrow> lwm2m_data list \<Rightarrow> (byte \<times> server_instance) option" where
  \<comment> \<open>the \<open>do \<dots> while\<close> loop: it reads \<open>dataArray[0]\<close> before it looks at \<open>numData\<close>\<close>
  "server_write_loop api t [] = None"
| "server_write_loop api t (d # ds) =
     do { (r, t') \<leftarrow> (if d_type d = LWM2M_TYPE_MULTIPLE_RESOURCE then Some (COAP_404_NOT_FOUND, t)
                      else server_write_one api t d);
          if ds \<noteq> [] \<and> r = COAP_204_CHANGED then server_write_loop api t' ds
          else Some (r, t') }"

definition server_write_part ::
  "lwm2m_api \<Rightarrow> server_instance list_api \<Rightarrow> u16 \<Rightarrow> lwm2m_data list \<Rightarrow> server_state
   \<Rightarrow> (byte \<times> server_state) option" where
  \<comment> \<open>\<open>prv_server_write\<close> for every write type but \<open>LWM2M_WRITE_REPLACE_INSTANCE\<close>\<close>
  "server_write_part api la i ds s =
    (case s of (l, h) \<Rightarrow>
      (case list_find la l i of
         None \<Rightarrow> Some (COAP_404_NOT_FOUND, s)
       | Some p \<Rightarrow> do { (r, t) \<leftarrow> server_write_loop api (l ! p) ds; Some (r, (l[p := t], h)) }))"

definition prv_server_delete ::
  "server_instance list_api \<Rightarrow> u16 \<Rightarrow> server_state \<Rightarrow> byte \<times> server_state" where
  "prv_server_delete la i s =
    (case s of (l, h) \<Rightarrow>
      (case list_remove la l i of
         (l', None) \<Rightarrow> (COAP_404_NOT_FOUND, (l', h))
       | (l', Some x) \<Rightarrow> (COAP_202_DELETED, (l', heap_free h))))"

definition prv_server_create ::
  "lwm2m_api \<Rightarrow> server_instance list_api \<Rightarrow> u16 \<Rightarrow> lwm2m_data list \<Rightarrow> server_state
   \<Rightarrow> (byte \<times> server_state) option" where
  "prv_server_create api la i ds s =
    (case s of (l, h) \<Rightarrow>
      (case heap_malloc h of
         (False, h1) \<Rightarrow> Some (COAP_500_INTERNAL_SERVER_ERROR, (l, h1))
       | (True, h1) \<Rightarrow>
           do { (r, s2) \<leftarrow> server_write_part api la i ds (list_add la l (server_zero i), h1);
                if r \<noteq> COAP_204_CHANGED then Some (r, snd (prv_server_delete la i s2))
                else Some (COAP_201_CREATED, s2) }))"

definition prv_server_write ::
  "lwm2m_api \<Rightarrow> server_instance list_api \<Rightarrow> u16 \<Rightarrow> lwm2m_data list \<Rightarrow> lwm2m_write_type
   \<Rightarrow> server_state \<Rightarrow> (byte \<times> server_state) option" where
  "prv_server_write api la i ds wt s =
    (if list_find la (fst s) i = None then Some (COAP_404_NOT_FOUND, s)
     else if wt = LWM2M_WRITE_REPLACE_INSTANCE then
       (case prv_server_delete la i s of
          (r, s1) \<Rightarrow>
            if r = COAP_202_DELETED then
              do { (r2, s2) \<leftarrow> prv_server_create api la i ds s1;
                   Some (if r2 = COAP_201_CREATED then COAP_204_CHANGED else r2, s2) }
            else Some (r, s1))
     else server_write_part api la i ds s)"

definition prv_server_execute ::
  "server_instance list_api \<Rightarrow> server_instance list \<Rightarrow> u16 \<Rightarrow> u16 \<Rightarrow> byte" where
  "prv_server_execute la l i rid =
    (if list_find la l i = None then COAP_404_NOT_FOUND
     else if rid = LWM2M_SERVER_DISABLE_ID then COAP_204_CHANGED
     else if rid = LWM2M_SERVER_UPDATE_ID then COAP_204_CHANGED
     else COAP_405_METHOD_NOT_ALLOWED)"

section \<open>The object\<close>

definition get_server_object ::
  "server_instance list_api \<Rightarrow> heap \<Rightarrow> server_instance list option \<times> heap" where
  "get_server_object la h =
    (case heap_malloc h of
       (False, h1) \<Rightarrow> (None, h1)
     | (True, h1) \<Rightarrow>
         (case heap_malloc h1 of
            (False, h2) \<Rightarrow> (None, heap_free h2)
          | (True, h2) \<Rightarrow>
              (Some (list_add la []
                 \<lparr>si_instanceId = 0, si_shortServerId = 123, si_lifetime = 15 * 60,
                  si_storing = False, si_binding = ''U'' @ replicate 3 nul\<rparr>), h2)))"

fun free_server_object :: "server_state \<Rightarrow> heap" where
  "free_server_object ([], h) = heap_free h"
| "free_server_object (x # l, h) = free_server_object (l, heap_free h)"

section \<open>The object's invariant\<close>

text \<open>
  A binding is four characters, the last of which is never written. The identifiers of the
  instances are distinct, and the heap holds, above what it held before, one block for the object
  and one for each instance.
\<close>

definition server_inst_ok :: "server_instance \<Rightarrow> bool" where
  "server_inst_ok t \<longleftrightarrow> length (si_binding t) = 4 \<and> si_binding t ! 3 = nul"

definition server_inv :: "nat \<Rightarrow> server_state \<Rightarrow> bool" where
  "server_inv base s \<longleftrightarrow>
     distinct (map si_instanceId (fst s)) \<and> (\<forall>t \<in> set (fst s). server_inst_ok t) \<and>
     live (snd s) = base + 1 + length (fst s)"

abbreviation server_lists :: "server_instance list_api \<Rightarrow> bool" where
  "server_lists la \<equiv> list_api_ok si_instanceId la"

abbreviation server_view :: "server_instance list_api \<Rightarrow> server_state \<Rightarrow> u16 \<Rightarrow> server_instance option" where
  "server_view la s \<equiv> inst_view (list_find la) (fst s)"

lemma server_zero_ok [simp]: "server_inst_ok (server_zero i)" "si_instanceId (server_zero i) = i"
  by (simp_all add: server_inst_ok_def server_zero_def)

lemma server_write_binding_ok:
  assumes "server_inst_ok t"
  shows "\<exists>r t'. server_write_binding t d = Some (r, t') \<and> server_inst_ok t' \<and>
           si_instanceId t' = si_instanceId t"
proof (cases "d_value d")
  case (V_buffer b)
  show ?thesis
  proof (cases "(d_type d = LWM2M_TYPE_STRING \<or> d_type d = LWM2M_TYPE_OPAQUE) \<and> length b > 0 \<and>
            length b \<le> 3")
    case True
    then have "strncpy (si_binding t) b (length b)
        = Some (strncpy_image (length b) b @ drop (length b) (si_binding t))"
      using assms by (intro strncpy_SomeI) (auto simp: server_inst_ok_def readable_def)
    with True V_buffer assms show ?thesis
      by (simp add: server_write_binding_def server_inst_ok_def nth_append)
  qed (use V_buffer assms in \<open>auto simp: server_write_binding_def\<close>)
qed (use assms in \<open>simp_all add: server_write_binding_def\<close>)

lemma server_write_one_ok:
  assumes "server_inst_ok t"
  shows "\<exists>r t'. server_write_one api t d = Some (r, t') \<and> server_inst_ok t' \<and>
           si_instanceId t' = si_instanceId t"
  using assms server_write_binding_ok [OF assms, of d]
  by (auto simp: server_write_one_def server_inst_ok_def split: prod.splits option.splits)

lemma server_write_loop_ok:
  "ds \<noteq> [] \<Longrightarrow> server_inst_ok t \<Longrightarrow>
   \<exists>r t'. server_write_loop api t ds = Some (r, t') \<and> server_inst_ok t' \<and>
     si_instanceId t' = si_instanceId t"
proof (induction ds arbitrary: t)
  case Nil
  then show ?case by simp
next
  case (Cons d ds)
  obtain r t' where 1: "(if d_type d = LWM2M_TYPE_MULTIPLE_RESOURCE then Some (COAP_404_NOT_FOUND, t)
      else server_write_one api t d) = Some (r, t')" "server_inst_ok t'"
      "si_instanceId t' = si_instanceId t"
    using server_write_one_ok [OF Cons.prems(2), of api d] Cons.prems(2)
    by (cases "d_type d = LWM2M_TYPE_MULTIPLE_RESOURCE") auto
  show ?case
  proof (cases "ds \<noteq> [] \<and> r = COAP_204_CHANGED")
    case True
    with 1 Cons.IH [OF _ 1(2)] show ?thesis by auto
  next
    case False
    with 1 show ?thesis by (subst server_write_loop.simps) auto
  qed
qed

lemma server_write_one_status:
  "server_write_one api t d = Some (r, t') \<Longrightarrow>
   r \<in> {COAP_204_CHANGED, COAP_400_BAD_REQUEST, COAP_404_NOT_FOUND, COAP_405_METHOD_NOT_ALLOWED,
     COAP_406_NOT_ACCEPTABLE}"
  by (auto simp: server_write_one_def server_write_binding_def prv_set_int_value_def
      split: if_splits option.splits lwm2m_value.splits Option.bind_splits)

lemma server_write_loop_status:
  "server_write_loop api t ds = Some (r, t') \<Longrightarrow>
   r \<in> {COAP_204_CHANGED, COAP_400_BAD_REQUEST, COAP_404_NOT_FOUND, COAP_405_METHOD_NOT_ALLOWED,
     COAP_406_NOT_ACCEPTABLE}"
proof (induction ds arbitrary: t)
  case Nil
  then show ?case by simp
next
  case (Cons d ds)
  obtain r1 t1 where 1: "(if d_type d = LWM2M_TYPE_MULTIPLE_RESOURCE then Some (COAP_404_NOT_FOUND, t)
      else server_write_one api t d) = Some (r1, t1)"
    and 2: "(if ds \<noteq> [] \<and> r1 = COAP_204_CHANGED then server_write_loop api t1 ds
      else Some (r1, t1)) = Some (r, t')"
    using Cons.prems by (subst (asm) server_write_loop.simps) (auto simp: bind_eq_Some_conv)
  show ?case
  proof (cases "ds \<noteq> [] \<and> r1 = COAP_204_CHANGED")
    case True
    with 2 have "server_write_loop api t1 ds = Some (r, t')" by simp
    then show ?thesis by (rule Cons.IH)
  next
    case False
    with 2 have "r1 = r" by (simp split: if_splits)
    with 1 show ?thesis
      using server_write_one_status [of api t d r t1] by (auto split: if_splits)
  qed
qed

lemma server_write_part_ok:
  assumes la: "server_lists la" and inv: "server_inv base (l, h)" and ds: "ds \<noteq> []"
  shows "\<exists>r s'. server_write_part api la i ds (l, h) = Some (r, s') \<and> server_inv base s' \<and>
           (list_find la l i = None \<and> r = COAP_404_NOT_FOUND \<and> s' = (l, h) \<or>
            (\<exists>t t'. server_view la (l, h) i = Some t \<and> server_write_loop api t ds = Some (r, t') \<and>
               server_view la s' = (server_view la (l, h))(i \<mapsto> t')))"
proof (cases "list_find la l i")
  case None
  with inv show ?thesis by (auto simp: server_write_part_def)
next
  case (Some p)
  have p: "p < length l" "si_instanceId (l ! p) = i"
    using instance_list.find_Some [OF la Some] by simp_all
  then have "server_inst_ok (l ! p)" using inv by (simp add: server_inv_def)
  then obtain r t' where t': "server_write_loop api (l ! p) ds = Some (r, t')" "server_inst_ok t'"
      "si_instanceId t' = i"
    using server_write_loop_ok [OF ds, of "l ! p" api] p by auto
  have d: "distinct (map si_instanceId l)" using inv by (simp add: server_inv_def)
  note u = instance_list.view_update [OF la d Some t'(3)]
  have "\<forall>t \<in> set (l[p := t']). server_inst_ok t"
    using inv t'(2) by (auto simp: server_inv_def dest!: set_update_subset_insert [THEN subsetD])
  then have "server_inv base (l[p := t'], h)" using inv u(2) by (simp add: server_inv_def)
  with Some t' u(1) show ?thesis
    by (auto simp: server_write_part_def inst_view_def)
qed

lemma server_delete_ok:
  assumes la: "server_lists la" and inv: "server_inv base (l, h)"
    and x: "server_view la (l, h) i = Some x"
  shows "\<exists>l'. prv_server_delete la i (l, h) = (COAP_202_DELETED, (l', heap_free h)) \<and>
           server_inv base (l', heap_free h) \<and>
           inst_view (list_find la) l' = (server_view la (l, h))(i := None)"
proof -
  have d: "distinct (map si_instanceId l)" and ok: "\<forall>t \<in> set l. server_inst_ok t"
    and live: "live h = base + 1 + length l" using inv by (simp_all add: server_inv_def)
  have x': "inst_view (list_find la) l i = Some x" using x by simp
  note r = instance_list.view_remove [OF la d x']
  have mem: "x \<in> set l" "si_instanceId x = i"
    using x' instance_list.view_Some_iff [OF la d] by simp_all
  have len: "Suc (length (fst (list_remove la l i))) = length l"
    by (rule instance_list.length_remove [OF la d x'])
  have set: "set (fst (list_remove la l i)) = set l - {x}"
    using instance_list.remove_present [OF la d mem] by simp
  obtain l' where l': "list_remove la l i = (l', Some x)"
    using r(1) by (cases "list_remove la l i") simp
  show ?thesis
    using r l' len set ok live
    by (intro exI [of _ l']) (simp add: prv_server_delete_def server_inv_def)
qed

lemma server_create_ok:
  assumes la: "server_lists la" and inv: "server_inv base (l, h)" and ds: "ds \<noteq> []"
    and new: "server_view la (l, h) i = None"
  shows "\<exists>r s'. prv_server_create api la i ds (l, h) = Some (r, s') \<and> server_inv base s' \<and>
           (r \<noteq> COAP_201_CREATED \<and> server_view la s' = server_view la (l, h) \<or>
            r = COAP_201_CREATED \<and>
              (\<exists>t. server_write_loop api (server_zero i) ds = Some (COAP_204_CHANGED, t) \<and>
                 server_view la s' = (server_view la (l, h))(i \<mapsto> t)))"
proof (cases "heap_malloc h")
  case (Pair ok h1)
  show ?thesis
  proof (cases ok)
    case False
    with Pair inv show ?thesis
      by (simp add: prv_server_create_def server_inv_def heap_malloc_live)
  next
    case True
    have live: "live h1 = live h + 1" using Pair True by (simp add: heap_malloc_live)
    have d: "distinct (map si_instanceId l)" using inv by (simp add: server_inv_def)
    let ?l = "list_add la l (server_zero i)"
    have i: "i \<notin> si_instanceId ` set l" "si_instanceId (server_zero i) \<notin> si_instanceId ` set l"
      using new instance_list.view_None_iff [OF la, of l i] by simp_all
    note a = instance_list.view_add [OF la d i(2)]
    have "set ?l = insert (server_zero i) (set l)"
      by (rule instance_list.add_set [OF la i(1)]) simp
    then have inv1: "server_inv base (?l, h1)"
      using inv a(2) live instance_list.length_add [OF la d i(2)] by (simp add: server_inv_def)
    have v1: "inst_view (list_find la) ?l = (inst_view (list_find la) l)(i \<mapsto> server_zero i)"
      using a(1) by simp
    have z: "inst_view (list_find la) ?l i = Some (server_zero i)" using v1 by simp
    then have "list_find la ?l i \<noteq> None" by (auto simp: inst_view_def split: option.splits)
    with server_write_part_ok [OF la inv1 ds, of api i] z
    obtain r s' t where w: "server_write_part api la i ds (?l, h1) = Some (r, s')"
        "server_inv base s'" "server_write_loop api (server_zero i) ds = Some (r, t)"
        "server_view la s' = (inst_view (list_find la) ?l)(i \<mapsto> t)" by auto
    show ?thesis
    proof (cases "r = COAP_204_CHANGED")
      case True
      with w v1 Pair \<open>ok\<close> show ?thesis by (simp add: prv_server_create_def)
    next
      case False
      obtain l2 h2 where s': "s' = (l2, h2)" by (cases s')
      have "server_view la (l2, h2) i = Some t" using w(4) s' by simp
      from server_delete_ok [OF la w(2) [unfolded s'] this]
      obtain l3 where l3: "prv_server_delete la i (l2, h2) = (COAP_202_DELETED, (l3, heap_free h2))"
          "server_inv base (l3, heap_free h2)"
          "inst_view (list_find la) l3 = (inst_view (list_find la) l2)(i := None)" by auto
      have undo: "inst_view (list_find la) l3 = inst_view (list_find la) l"
        using l3(3) w(4) s' v1 new by (auto simp: fun_eq_iff)
      have "r \<noteq> COAP_201_CREATED" using server_write_loop_status [OF w(3)] by auto
      with l3 undo w s' Pair \<open>ok\<close> False show ?thesis by (simp add: prv_server_create_def)
    qed
  qed
qed

lemma server_write_ok:
  assumes la: "server_lists la" and inv: "server_inv base s" and ds: "ds \<noteq> []"
  shows "\<exists>r s'. prv_server_write api la i ds wt s = Some (r, s') \<and> server_inv base s'"
proof -
  obtain l h where s: "s = (l, h)" by (cases s)
  show ?thesis
  proof (cases "list_find la l i = None \<or> wt \<noteq> LWM2M_WRITE_REPLACE_INSTANCE")
    case True
    with s inv server_write_part_ok [OF la inv [unfolded s] ds, of api i] show ?thesis
      by (auto simp: prv_server_write_def)
  next
    case False
    then obtain x where x: "server_view la (l, h) i = Some x" by (auto simp: inst_view_def)
    from server_delete_ok [OF la inv [unfolded s] x]
    obtain l' where del: "prv_server_delete la i (l, h) = (COAP_202_DELETED, (l', heap_free h))"
        "server_inv base (l', heap_free h)"
        "inst_view (list_find la) l' = (server_view la (l, h))(i := None)" by auto
    have "server_view la (l', heap_free h) i = None" using del(3) by simp
    from server_create_ok [OF la del(2) ds this, of api] del s False show ?thesis
      by (auto simp: prv_server_write_def)
  qed
qed

text \<open>
  A request without entries has an outcome only when the data array is not reached, because the
  instance does not exist or the heap has no block left.
\<close>

lemma server_create_empty:
  assumes la: "server_lists la" and inv: "server_inv base s" and new: "server_view la s i = None"
    and run: "prv_server_create api la i [] s = Some (r, s')"
  shows "server_inv base s'"
proof -
  obtain l h where s: "s = (l, h)" by (cases s)
  obtain ok h1 where m: "heap_malloc h = (ok, h1)" by (cases "heap_malloc h")
  have d: "distinct (map si_instanceId l)" using inv s by (simp add: server_inv_def)
  have i: "si_instanceId (server_zero i) \<notin> si_instanceId ` set l"
    using new s instance_list.view_None_iff [OF la, of l i] by simp
  have "inst_view (list_find la) (list_add la l (server_zero i)) i = Some (server_zero i)"
    using instance_list.view_add(1) [OF la d i] by simp
  then have "server_write_part api la i [] (list_add la l (server_zero i), h1) = None"
    by (auto simp: inst_view_def server_write_part_def split: option.splits)
  with run s m have "\<not> ok" "s' = (l, h1)" by (auto simp: prv_server_create_def split: bool.splits)
  with m inv s show ?thesis by (simp add: server_inv_def heap_malloc_live)
qed

lemma server_write_empty:
  assumes la: "server_lists la" and inv: "server_inv base s"
    and run: "prv_server_write api la i [] wt s = Some (r, s')"
  shows "server_inv base s'"
proof -
  obtain l h where s: "s = (l, h)" by (cases s)
  show ?thesis
  proof (cases "list_find la l i = None")
    case True
    with run s inv show ?thesis by (simp add: prv_server_write_def)
  next
    case False
    then obtain x where x: "server_view la (l, h) i = Some x" by (auto simp: inst_view_def)
    from server_delete_ok [OF la inv [unfolded s] x]
    obtain l' where del: "prv_server_delete la i (l, h) = (COAP_202_DELETED, (l', heap_free h))"
        "server_inv base (l', heap_free h)"
        "inst_view (list_find la) l' = (server_view la (l, h))(i := None)" by auto
    have new: "server_view la (l', heap_free h) i = None" using del(3) by simp
    from run s False del(1) obtain r2
      where "prv_server_create api la i [] (l', heap_free h) = Some (r2, s')"
      by (auto simp: prv_server_write_def server_write_part_def bind_eq_Some_conv split: if_splits)
    then show ?thesis by (rule server_create_empty [OF la del(2) new])
  qed
qed

text \<open>
  What can happen to the object between its creation and its release: any write, any deletion, and
  the creation of an instance whose identifier is not in use (the core of liblwm2m refuses the
  others before it calls the object), each with any entries, as long as the request has an outcome.
\<close>

inductive server_run ::
  "lwm2m_api \<Rightarrow> server_instance list_api \<Rightarrow> heap \<Rightarrow> server_state \<Rightarrow> bool" for api la h0 where
  run_get: "get_server_object la h0 = (Some l, h) \<Longrightarrow> server_run api la h0 (l, h)"
| run_write: "server_run api la h0 s \<Longrightarrow>
    prv_server_write api la i ds wt s = Some (r, s') \<Longrightarrow> server_run api la h0 s'"
| run_create: "server_run api la h0 s \<Longrightarrow> list_find la (fst s) i = None \<Longrightarrow>
    prv_server_create api la i ds s = Some (r, s') \<Longrightarrow> server_run api la h0 s'"
| run_delete: "server_run api la h0 s \<Longrightarrow> prv_server_delete la i s = (r, s') \<Longrightarrow>
    server_run api la h0 s'"

lemma server_get_inv:
  assumes la: "server_lists la" and get: "get_server_object la h0 = (Some l, h)"
  shows "server_inv (live h0) (l, h)"
proof -
  obtain h1 h2 where m: "heap_malloc h0 = (True, h1)" "heap_malloc h1 = (True, h2)" "h = h2"
    using get by (auto simp: get_server_object_def split: prod.splits bool.splits)
  let ?x = "\<lparr>si_instanceId = 0, si_shortServerId = 123, si_lifetime = 15 * 60, si_storing = False,
      si_binding = ''U'' @ replicate 3 nul\<rparr> :: server_instance"
  have l: "l = list_add la [] ?x" using get m by (simp add: get_server_object_def)
  have "set l = {?x}" unfolding l
    by (subst instance_list.add_set [OF la, of "si_instanceId ?x"]) simp_all
  moreover have "length l = 1" unfolding l
    by (subst instance_list.length_add [OF la]) simp_all
  moreover from this have "distinct (map si_instanceId l)" by (cases l) auto
  moreover have "server_inst_ok ?x" by (simp add: server_inst_ok_def eval_nat_numeral)
  ultimately show ?thesis
    using m by (simp add: server_inv_def heap_malloc_live)
qed

lemma server_run_inv:
  assumes la: "server_lists la" and run: "server_run api la h0 s"
  shows "server_inv (live h0) s"
  using run
proof (induction rule: server_run.induct)
  case (run_get l h)
  then show ?case by (rule server_get_inv [OF la])
next
  case (run_write s i ds wt r s')
  show ?case
  proof (cases "ds = []")
    case True
    with server_write_empty [OF la run_write.IH] run_write.hyps(2) show ?thesis by simp
  next
    case False
    with server_write_ok [OF la run_write.IH False, of api i wt] run_write.hyps(2) show ?thesis by auto
  qed
next
  case (run_create s i ds r s')
  have new: "server_view la (fst s, snd s) i = None"
    using run_create.hyps(2) by (simp add: inst_view_def)
  have inv: "server_inv (live h0) (fst s, snd s)" using run_create.IH by simp
  show ?case
  proof (cases "ds = []")
    case True
    with server_create_empty [OF la inv new, of api] run_create.hyps(3) show ?thesis by simp
  next
    case False
    from server_create_ok [OF la inv False new, of api] run_create.hyps(3) show ?thesis by auto
  qed
next
  case (run_delete s i r s')
  show ?case
  proof (cases "server_view la s i")
    case None
    then have "list_remove la (fst s) i = (fst s, None)"
      using instance_list.view_None_iff [OF la] instance_list.remove_absent [OF la] by blast
    with run_delete show ?thesis by (cases s) (simp add: prv_server_delete_def)
  next
    case (Some x)
    then have x: "server_view la (fst s, snd s) i = Some x" by simp
    have inv: "server_inv (live h0) (fst s, snd s)" using run_delete.IH by simp
    from server_delete_ok [OF la inv x] run_delete.hyps(2) show ?thesis by auto
  qed
qed

lemma free_server_object_live:
  "length l < live h \<Longrightarrow> live (free_server_object (l, h)) = live h - 1 - length l"
  by (induction l arbitrary: h) auto

section \<open>The server object as a readable object\<close>

definition server_val :: "lwm2m_api \<Rightarrow> server_instance \<Rightarrow> u16 \<Rightarrow> encoded option" where
  \<comment> \<open>the value of each readable resource, as the table at the head of the file lists them\<close>
  "server_val api t r =
    (if r = LWM2M_SERVER_SHORT_ID_ID then Some (encode_int api (uint (si_shortServerId t)))
     else if r = LWM2M_SERVER_LIFETIME_ID then Some (encode_int api (uint (si_lifetime t)))
     else if r = LWM2M_SERVER_STORING_ID then Some (encode_bool api (si_storing t))
     else if r = LWM2M_SERVER_BINDING_ID then Some (encode_string api (cstr (si_binding t)))
     else None)"

lemma server_get_answers: "answers (server_val api t) (server_prv_get_value api t)"
  by (simp add: answers_def server_val_def server_prv_get_value_def)

interpretation server: readable_object "prv_server_read api la"
    "\<lambda>l i. list_find la l i \<noteq> None" "\<lambda>l i. server_val api (l ! the (list_find la l i))" server_resList
  for api :: lwm2m_api and la :: "server_instance list_api"
  by unfold_locales
    (auto simp: prv_server_read_def server_resList_def read_each_ids [OF server_get_answers]
      read_each_all [OF server_get_answers] simp del: read_each.simps split: option.splits
      dest: read_each_fails_at [OF server_get_answers])

text \<open>The two integer resources: their range and their value in an instance.\<close>

definition server_int_valid :: "u16 \<Rightarrow> int \<Rightarrow> bool" where
  "server_int_valid rid v \<longleftrightarrow>
     (if rid = LWM2M_SERVER_SHORT_ID_ID then 1 \<le> v \<and> v \<le> 65535 else 0 \<le> v \<and> v < 2 ^ 32)"

definition server_int_value :: "server_instance \<Rightarrow> u16 \<Rightarrow> int" where
  "server_int_value t rid =
     (if rid = LWM2M_SERVER_SHORT_ID_ID then uint (si_shortServerId t) else uint (si_lifetime t))"

text \<open>The object as \<open>get_server_object\<close> leaves it, for evaluation.\<close>

definition server_sample :: server_state where
  "server_sample =
     ([\<lparr>si_instanceId = 0, si_shortServerId = 123, si_lifetime = 15 * 60, si_storing = False,
        si_binding = ''U'' @ replicate 3 nul\<rparr>], \<lparr>outcomes = [True], live = 9\<rparr>)"

lemma server_sample_run:
  "server_run plain_api (node_api si_instanceId) \<lparr>outcomes = [True, True, True], live = 7\<rparr>
     server_sample"
  unfolding server_sample_def
  by (rule run_get) (simp add: get_server_object_def heap_malloc_def node_api_def)

lemma server_sample_inv: "server_inv 7 server_sample"
  using server_run_inv [OF node.instance_list_axioms server_sample_run] by simp

section \<open>Properties\<close>



text \<open>C33: a write to a server object with at least one entry stays inside the data array and the
  binding and always returns a status: the object is left well formed, whatever the data.\<close>

theorem server_write_total:
  assumes "server_lists la" and "server_run api la h0 s" and "ds \<noteq> []"
  shows "\<exists>r s'. prv_server_write api la i ds wt s = Some (r, s') \<and> server_inv (live h0) s'"
  by (rule server_write_ok [OF assms(1) server_run_inv [OF assms(1,2)] assms(3)])

theorem server_write_total_witness:
  "\<exists>r s'. prv_server_write plain_api (node_api si_instanceId) 0
     [LData LWM2M_TYPE_STRING LWM2M_SERVER_BINDING_ID (V_buffer ''UQS'')]
     LWM2M_WRITE_PARTIAL_UPDATE server_sample = Some (r, s') \<and> server_inv 7 s'"
  using server_write_total [OF node.instance_list_axioms server_sample_run,
      of "[LData LWM2M_TYPE_STRING LWM2M_SERVER_BINDING_ID (V_buffer ''UQS'')]" 0
        LWM2M_WRITE_PARTIAL_UPDATE] by simp

text \<open>C24: creating an instance is atomic: when the write of its resources fails, the object's
  instances are those before the request; when it succeeds, exactly the new instance is added.\<close>

theorem server_create_atomic:
  assumes "server_lists la" and "server_inv base s" and "ds \<noteq> []"
    and "list_find la (fst s) i = None" and "prv_server_create api la i ds s = Some (r, s')"
  shows "server_view la s' =
    (if r = COAP_201_CREATED
     then (server_view la s)(i := map_option snd (server_write_loop api (server_zero i) ds))
     else server_view la s)"
proof -
  have "server_inv base (fst s, snd s)" "server_view la (fst s, snd s) i = None"
    using assms(2,4) by (simp_all add: inst_view_def)
  from server_create_ok [OF assms(1) this(1) assms(3) this(2), of api] assms(5)
  show ?thesis by auto
qed

theorem server_create_atomic_witness:
  "\<exists>s'. prv_server_create plain_api (node_api si_instanceId) 5
     [LData LWM2M_TYPE_STRING LWM2M_SERVER_DISABLE_ID (V_buffer ''1'')] server_sample
       = Some (COAP_405_METHOD_NOT_ALLOWED, s') \<and>
     server_view (node_api si_instanceId) s' = server_view (node_api si_instanceId) server_sample"
proof -
  let ?ds = "[LData LWM2M_TYPE_STRING LWM2M_SERVER_DISABLE_ID (V_buffer ''1'')]"
  have "list_find (node_api si_instanceId) (fst server_sample) 5 = None"
    by (simp add: server_sample_def node_api_def)
  moreover obtain s' where s': "prv_server_create plain_api (node_api si_instanceId) 5 ?ds server_sample
      = Some (COAP_405_METHOD_NOT_ALLOWED, s')"
    by (simp add: prv_server_create_def server_sample_def heap_malloc_def server_write_part_def
        node_api_def server_write_one_def)
  ultimately show ?thesis
    using server_create_atomic [OF node.instance_list_axioms server_sample_inv, of ?ds 5 plain_api]
    by auto
qed

text \<open>A write that replaces an instance deletes it first: when the new resources are refused,
  the instance the server had is gone.\<close>

lemma server_replace_loses_instance:
  assumes "server_lists la" and "server_inv base s" and "ds \<noteq> []"
    and "list_find la (fst s) i \<noteq> None"
    and "prv_server_write api la i ds LWM2M_WRITE_REPLACE_INSTANCE s = Some (r, s')"
    and "r \<noteq> COAP_204_CHANGED"
  shows "server_view la s' = (server_view la s)(i := None)"
proof -
  obtain l h where s: "s = (l, h)" by (cases s)
  obtain x where x: "server_view la (l, h) i = Some x" using assms(4) s by (auto simp: inst_view_def)
  from server_delete_ok [OF assms(1) assms(2) [unfolded s] x]
  obtain l' where del: "prv_server_delete la i (l, h) = (COAP_202_DELETED, (l', heap_free h))"
      "server_inv base (l', heap_free h)"
      "inst_view (list_find la) l' = (server_view la (l, h))(i := None)" by auto
  have "server_view la (l', heap_free h) i = None" using del(3) by simp
  from server_create_ok [OF assms(1) del(2) assms(3) this, of api] del s assms(4,5,6)
  show ?thesis by (auto simp: prv_server_write_def split: if_splits)
qed

lemma server_replace_loses_instance_example:
  "\<exists>s'. prv_server_write plain_api (node_api si_instanceId) 0
     [LData LWM2M_TYPE_STRING LWM2M_SERVER_UPDATE_ID (V_buffer ''1'')]
     LWM2M_WRITE_REPLACE_INSTANCE server_sample = Some (COAP_405_METHOD_NOT_ALLOWED, s') \<and>
     server_view (node_api si_instanceId) s'
       = (server_view (node_api si_instanceId) server_sample)(0 := None)"
proof -
  let ?ds = "[LData LWM2M_TYPE_STRING LWM2M_SERVER_UPDATE_ID (V_buffer ''1'')]"
  have "list_find (node_api si_instanceId) (fst server_sample) 0 \<noteq> None"
    by (simp add: server_sample_def node_api_def)
  moreover obtain s' where s': "prv_server_write plain_api (node_api si_instanceId) 0 ?ds
      LWM2M_WRITE_REPLACE_INSTANCE server_sample = Some (COAP_405_METHOD_NOT_ALLOWED, s')"
    by (simp add: prv_server_write_def prv_server_create_def prv_server_delete_def server_sample_def
        heap_malloc_def heap_free_def server_write_part_def node_api_def server_write_one_def
        server_zero_def)
  ultimately show ?thesis
    using server_replace_loses_instance [OF node.instance_list_axioms server_sample_inv,
        of ?ds 0 plain_api] by auto
qed

text \<open>The new binding overwrites as many characters as it has: the tail of a longer binding
  stays behind, so the value read afterwards is not the value written.\<close>

lemma server_binding_keeps_tail:
  assumes "server_inst_ok t" and "d_id d = LWM2M_SERVER_BINDING_ID" and "d_type d = LWM2M_TYPE_STRING"
    and "d_value d = V_buffer b" and "0 < length b" and "length b \<le> 3" and "nul \<notin> set b"
  shows "server_write_one api t d =
    Some (COAP_204_CHANGED, t\<lparr>si_binding := b @ drop (length b) (si_binding t)\<rparr>)"
proof -
  have "strncpy (si_binding t) b (length b) = Some (b @ drop (length b) (si_binding t))"
    using assms(1,6,7)
    by (simp add: strncpy_def readable_def strncpy_image_def cstr_no_nul server_inst_ok_def)
  with assms show ?thesis by (simp add: server_write_one_def server_write_binding_def)
qed

lemma server_binding_keeps_tail_example:
  "server_write_one plain_api ((server_zero 0)\<lparr>si_binding := ''UQS'' @ [nul]\<rparr>)
     (LData LWM2M_TYPE_STRING LWM2M_SERVER_BINDING_ID (V_buffer ''U''))
   = Some (COAP_204_CHANGED, (server_zero 0)\<lparr>si_binding := ''UQS'' @ [nul]\<rparr>)"
  by (subst server_binding_keeps_tail [where b = "''U''"])
    (simp_all add: server_inst_ok_def eval_nat_numeral)

text \<open>An integer resource of the server object is changed exactly when the value decodes and is
  in range, 1 to 65535 for the short identifier and 32 unsigned bits for the lifetime, and then the
  stored value is the one sent.\<close>

lemma server_int_range:
  assumes "server_write_one api t d = Some (r, t')"
    and "d_id d \<in> {LWM2M_SERVER_SHORT_ID_ID, LWM2M_SERVER_LIFETIME_ID}"
  shows "if \<exists>v. decode_int api d = Some v \<and> server_int_valid (d_id d) v
    then r = COAP_204_CHANGED \<and> decode_int api d = Some (server_int_value t' (d_id d))
    else r \<noteq> COAP_204_CHANGED \<and> t' = t"
proof (cases "decode_int api d")
  case None
  with assms show ?thesis by (auto simp: server_write_one_def prv_set_int_value_def)
next
  case (Some v)
  show ?thesis
  proof (cases "0 \<le> v \<and> v \<le> 0xFFFFFFFF")
    case True
    let ?w = "word_of_int v :: u32"
    have w: "uint ?w = v" using True by (simp add: u32_of_int)
    have "0 < ?w \<longleftrightarrow> 0 < v" "?w \<le> 0xFFFF \<longleftrightarrow> v \<le> 0xFFFF"
      by (simp_all add: word_less_def word_le_def w)
    moreover have "v \<le> 0xFFFF \<Longrightarrow> uint (ucast ?w :: u16) = v" using w u16_of_u32 [of ?w]
      by (simp add: word_le_def)
    ultimately show ?thesis using assms Some True w
      by (auto simp: server_write_one_def prv_set_int_value_def server_int_valid_def
          server_int_value_def split: if_splits)
  next
    case False
    with assms Some show ?thesis
      by (auto simp: server_write_one_def prv_set_int_value_def server_int_valid_def
          split: if_splits)
  qed
qed

lemma server_int_range_example:
  "server_int_value (snd (the (server_write_one plain_api (server_zero 0)
     (LData LWM2M_TYPE_INTEGER LWM2M_SERVER_LIFETIME_ID (V_bits 3600))))) LWM2M_SERVER_LIFETIME_ID
   = 3600"
proof -
  let ?d = "LData LWM2M_TYPE_INTEGER LWM2M_SERVER_LIFETIME_ID (V_bits 3600)"
  obtain r t where rt: "server_write_one plain_api (server_zero 0) ?d = Some (r, t)"
    by (simp add: server_write_one_def prv_set_int_value_def plain_api_def)
  have "decode_int plain_api ?d = Some 3600" by (simp add: plain_api_def)
  with server_int_range [OF rt] rt show ?thesis by (simp add: server_int_valid_def)
qed

text \<open>A read of the server object answers 205 exactly when the instance exists and every requested
  resource can be read.\<close>

lemma server_read_content_iff:
  assumes "ds \<noteq> []" and "single_valued ds"
  shows "fst (prv_server_read api la mem l i ds) = COAP_205_CONTENT \<longleftrightarrow>
    list_find la l i \<noteq> None \<and>
    (\<forall>d \<in> set ds. d_id d \<in> {LWM2M_SERVER_SHORT_ID_ID, LWM2M_SERVER_LIFETIME_ID,
       LWM2M_SERVER_STORING_ID, LWM2M_SERVER_BINDING_ID})"
  unfolding server.content_iff [OF assms] by (auto simp: server_val_def)

lemma server_read_content_iff_example:
  "fst (prv_server_read plain_api (node_api si_instanceId) True (fst server_sample) 0
     (data_new [LWM2M_SERVER_LIFETIME_ID, LWM2M_SERVER_UPDATE_ID])) \<noteq> COAP_205_CONTENT"
  by (subst server_read_content_iff) (simp_all add: data_new_def single_valued_def)

end
