(* ===== verification/Security.thy ===== *)
theory Security
  imports Lwm2m Config
begin

text \<open>
  \<^verbatim>\<open>object_security.c\<close>: the LwM2M security object (object 0). Its one instance is filled from
  the device configuration when the object is made and never written afterwards
  (\<^verbatim>\<open>LWM2M_BOOTSTRAP\<close> is not defined). The Base64 decoder of mbedTLS is an argument: from
  the size of the destination and the text it gives the bytes it stores and the length it reports.
  A length field and the array it measures are both kept; \<open>security_inst_ok\<close> is the invariant that
  the lengths do not exceed the arrays, so that \<open>take\<close> below is the whole access.
\<close>

section \<open>Instances\<close>

abbreviation LWM2M_SECURITY_URI_ID :: u16 where "LWM2M_SECURITY_URI_ID \<equiv> 0"
abbreviation LWM2M_SECURITY_BOOTSTRAP_ID :: u16 where "LWM2M_SECURITY_BOOTSTRAP_ID \<equiv> 1"
abbreviation LWM2M_SECURITY_SECURITY_ID :: u16 where "LWM2M_SECURITY_SECURITY_ID \<equiv> 2"
abbreviation LWM2M_SECURITY_PUBLIC_KEY_ID :: u16 where "LWM2M_SECURITY_PUBLIC_KEY_ID \<equiv> 3"
abbreviation LWM2M_SECURITY_SERVER_PUBLIC_KEY_ID :: u16 where
  "LWM2M_SECURITY_SERVER_PUBLIC_KEY_ID \<equiv> 4"
abbreviation LWM2M_SECURITY_SECRET_KEY_ID :: u16 where "LWM2M_SECURITY_SECRET_KEY_ID \<equiv> 5"
abbreviation LWM2M_SECURITY_SMS_SECURITY_ID :: u16 where "LWM2M_SECURITY_SMS_SECURITY_ID \<equiv> 6"
abbreviation LWM2M_SECURITY_SMS_KEY_PARAM_ID :: u16 where "LWM2M_SECURITY_SMS_KEY_PARAM_ID \<equiv> 7"
abbreviation LWM2M_SECURITY_SMS_SECRET_KEY_ID :: u16 where "LWM2M_SECURITY_SMS_SECRET_KEY_ID \<equiv> 8"
abbreviation LWM2M_SECURITY_SMS_SERVER_NUMBER_ID :: u16 where
  "LWM2M_SECURITY_SMS_SERVER_NUMBER_ID \<equiv> 9"
abbreviation LWM2M_SECURITY_SHORT_SERVER_ID :: u16 where "LWM2M_SECURITY_SHORT_SERVER_ID \<equiv> 10"
abbreviation LWM2M_SECURITY_HOLD_OFF_ID :: u16 where "LWM2M_SECURITY_HOLD_OFF_ID \<equiv> 11"

datatype lwm2m_security_mode_e =
    security_mode_psk | security_mode_rpk | security_mode_certificate | security_mode_no_sec
  | security_mode_est

primrec security_mode_code :: "lwm2m_security_mode_e \<Rightarrow> int" where
  "security_mode_code security_mode_psk = 0"
| "security_mode_code security_mode_rpk = 1"
| "security_mode_code security_mode_certificate = 2"
| "security_mode_code security_mode_no_sec = 3"
| "security_mode_code security_mode_est = 4"

record security_instance =
  sec_instanceId :: u16
  sec_uri :: string
  sec_isBootstrap :: bool
  sec_security_mode :: lwm2m_security_mode_e
  sec_public_identity :: string
  sec_public_identity_len :: nat
  sec_server_identity :: string
  sec_server_identity_len :: nat
  sec_secret_key :: string
  sec_secret_key_len :: nat
  sec_shortID :: u16
  sec_clientHoldOffTime :: u32

definition security_inst_ok :: "security_instance \<Rightarrow> bool" where
  "security_inst_ok t \<longleftrightarrow>
     length (sec_uri t) = 256 \<and> nul \<in> set (sec_uri t) \<and>
     length (sec_public_identity t) = 128 \<and> sec_public_identity_len t \<le> 128 \<and>
     length (sec_secret_key t) = 64 \<and> sec_secret_key_len t \<le> 64 \<and>
     sec_server_identity_len t \<le> length (sec_server_identity t)"

section \<open>Reading\<close>

definition opaque_or_zero :: "string \<Rightarrow> nat \<Rightarrow> string" where
  \<comment> \<open>the buffer, or one zero byte when its length is zero\<close>
  "opaque_or_zero buf len = (if len > 0 then take len buf else [nul])"

definition security_prv_get_value ::
  "lwm2m_api \<Rightarrow> security_instance \<Rightarrow> lwm2m_data \<Rightarrow> byte \<times> lwm2m_data" where
  "security_prv_get_value api t d =
    (let rid = d_id d; ok = (\<lambda>e. (COAP_205_CONTENT, put_value e d)) in
     if rid = LWM2M_SECURITY_URI_ID then ok (encode_string api (cstr (sec_uri t)))
     else if rid = LWM2M_SECURITY_BOOTSTRAP_ID then ok (encode_bool api (sec_isBootstrap t))
     else if rid = LWM2M_SECURITY_SECURITY_ID
     then ok (encode_int api (security_mode_code (sec_security_mode t)))
     else if rid = LWM2M_SECURITY_PUBLIC_KEY_ID
     then ok (encode_opaque api (opaque_or_zero (sec_public_identity t) (sec_public_identity_len t)))
     else if rid = LWM2M_SECURITY_SERVER_PUBLIC_KEY_ID
     then ok (encode_opaque api (opaque_or_zero (sec_server_identity t) (sec_server_identity_len t)))
     else if rid = LWM2M_SECURITY_SECRET_KEY_ID
     then ok (encode_opaque api (opaque_or_zero (sec_secret_key t) (sec_secret_key_len t)))
     else if rid = LWM2M_SECURITY_SMS_SECURITY_ID
     then ok (encode_int api (security_mode_code security_mode_no_sec))
     else if rid = LWM2M_SECURITY_SMS_KEY_PARAM_ID then ok (encode_opaque api (''12345'' @ [nul]))
     else if rid = LWM2M_SECURITY_SMS_SECRET_KEY_ID
     then ok (encode_opaque api (''1234567890abcdefghijklmnopqrstu'' @ [nul]))
     else if rid = LWM2M_SECURITY_SMS_SERVER_NUMBER_ID then ok (encode_int api 0)
     else if rid = LWM2M_SECURITY_SHORT_SERVER_ID then ok (encode_int api (uint (sec_shortID t)))
     else if rid = LWM2M_SECURITY_HOLD_OFF_ID
     then ok (encode_int api (uint (sec_clientHoldOffTime t)))
     else (COAP_404_NOT_FOUND, d))"

definition security_resList :: "u16 list" where
  "security_resList =
     [LWM2M_SECURITY_URI_ID, LWM2M_SECURITY_BOOTSTRAP_ID, LWM2M_SECURITY_SECURITY_ID,
      LWM2M_SECURITY_PUBLIC_KEY_ID, LWM2M_SECURITY_SERVER_PUBLIC_KEY_ID,
      LWM2M_SECURITY_SECRET_KEY_ID, LWM2M_SECURITY_SMS_SECURITY_ID,
      LWM2M_SECURITY_SMS_KEY_PARAM_ID, LWM2M_SECURITY_SMS_SECRET_KEY_ID,
      LWM2M_SECURITY_SMS_SERVER_NUMBER_ID, LWM2M_SECURITY_SHORT_SERVER_ID,
      LWM2M_SECURITY_HOLD_OFF_ID]"

definition prv_security_read ::
  "lwm2m_api \<Rightarrow> security_instance list_api \<Rightarrow> bool \<Rightarrow> security_instance list \<Rightarrow> u16
   \<Rightarrow> lwm2m_data list \<Rightarrow> byte \<times> lwm2m_data list" where
  "prv_security_read api la mem l i ds =
    (case list_find la l i of
       None \<Rightarrow> (COAP_404_NOT_FOUND, ds)
     | Some p \<Rightarrow>
         if ds = [] then
           (if \<not> mem then (COAP_500_INTERNAL_SERVER_ERROR, [])
            else read_each (security_prv_get_value api (l ! p)) (data_new security_resList))
         else read_each (security_prv_get_value api (l ! p)) ds)"

section \<open>The object\<close>

type_synonym base64_api = "nat \<Rightarrow> string \<Rightarrow> string \<times> nat"

definition security_strcpy :: "string \<Rightarrow> string \<Rightarrow> string option" where
  \<comment> \<open>\<open>strncpy(dest, src, strlen(src))\<close>\<close>
  "security_strcpy dest src = do { n \<leftarrow> c_strlen src; strncpy dest src n }"

definition security_instance_new :: "base64_api \<Rightarrow> config \<Rightarrow> security_instance option" where
  \<comment> \<open>the instance \<open>get_security_object\<close> fills from the configuration\<close>
  "security_instance_new b64 c =
    do { u \<leftarrow> security_strcpy (replicate 256 nul) (config_get_lwm2m_uri c);
         ident \<leftarrow> security_strcpy (replicate 128 nul) (config_get_lwm2m_psk_id c);
         ident_len \<leftarrow> c_strlen ident;
         n \<leftarrow> c_strlen (config_get_lwm2m_psk_key c);
         let (key, key_len) = b64 64 (take n (config_get_lwm2m_psk_key c));
         if length key \<le> 64
         then Some \<lparr>sec_instanceId = 0, sec_uri = u, sec_isBootstrap = False,
                    sec_security_mode = security_mode_psk,
                    sec_public_identity = ident, sec_public_identity_len = ident_len + 1,
                    sec_server_identity = [], sec_server_identity_len = 0,
                    sec_secret_key = key @ replicate (64 - length key) nul,
                    sec_secret_key_len = key_len, sec_shortID = 123, sec_clientHoldOffTime = 10\<rparr>
         else None }"

definition get_security_object ::
  "security_instance list_api \<Rightarrow> base64_api \<Rightarrow> config \<Rightarrow> heap
   \<Rightarrow> (security_instance list option \<times> heap) option" where
  "get_security_object la b64 c h =
    (case lwm2m_malloc h of
       (False, h1) \<Rightarrow> Some (None, h1)
     | (True, h1) \<Rightarrow>
         (case lwm2m_malloc h1 of
            (False, h2) \<Rightarrow> Some (None, lwm2m_free h2)
          | (True, h2) \<Rightarrow>
              do { t \<leftarrow> security_instance_new b64 c; Some (Some (list_add la [] t), h2) }))"

fun free_security_object :: "security_instance list \<times> heap \<Rightarrow> heap" where
  "free_security_object ([], h) = lwm2m_free h"
| "free_security_object (x # l, h) = free_security_object (l, lwm2m_free h)"

definition get_server_uri ::
  "security_instance list_api \<Rightarrow> security_instance list \<Rightarrow> u16 \<Rightarrow> heap
   \<Rightarrow> (string option \<times> heap) option" where
  "get_server_uri la l i h =
    (case list_find la l i of
       Some p \<Rightarrow> lwm2m_strdup (Some (sec_uri (l ! p))) h
     | None \<Rightarrow> Some (None, h))"

definition get_connection_psk ::
  "security_instance list_api \<Rightarrow> security_instance list \<Rightarrow> u16 \<Rightarrow> (string \<times> nat) option" where
  \<comment> \<open>the pointer, as its array, and the length written through \<open>psk_len\<close>; \<open>None\<close> is \<open>NULL\<close>\<close>
  "get_connection_psk la l i =
    map_option (\<lambda>p. (sec_secret_key (l ! p), sec_secret_key_len (l ! p))) (list_find la l i)"

definition get_public_identiy ::
  "security_instance list_api \<Rightarrow> security_instance list \<Rightarrow> u16 \<Rightarrow> (string \<times> nat) option" where
  "get_public_identiy la l i =
    map_option (\<lambda>p. (sec_public_identity (l ! p), sec_public_identity_len (l ! p))) (list_find la l i)"

definition get_security_mode ::
  "security_instance list_api \<Rightarrow> security_instance list \<Rightarrow> u16 \<Rightarrow> lwm2m_security_mode_e" where
  "get_security_mode la l i =
    (case list_find la l i of
       Some p \<Rightarrow> sec_security_mode (l ! p)
     | None \<Rightarrow> security_mode_no_sec)"

section \<open>The security object as a readable object\<close>

definition security_val :: "lwm2m_api \<Rightarrow> security_instance \<Rightarrow> u16 \<Rightarrow> encoded option" where
  "security_val api t r =
    (let (s, d) = security_prv_get_value api t (LData LWM2M_TYPE_UNDEFINED r V_none) in
     if s = COAP_205_CONTENT then Some (d_type d, d_value d) else None)"

lemma security_get_answers: "answers (security_val api t) (security_prv_get_value api t)"
  unfolding answers_def
proof
  fix d
  show "case security_val api t (d_id d) of
      Some e \<Rightarrow> security_prv_get_value api t d = (COAP_205_CONTENT, put_value e d)
    | None \<Rightarrow> fst (security_prv_get_value api t d) \<noteq> COAP_205_CONTENT \<and>
        snd (security_prv_get_value api t d) = d"
    by (simp add: security_val_def security_prv_get_value_def Let_def)
qed

interpretation security: readable_object "prv_security_read api la"
    "\<lambda>l i. list_find la l i \<noteq> None" "\<lambda>l i. security_val api (l ! the (list_find la l i))"
    security_resList
  for api :: lwm2m_api and la :: "security_instance list_api"
  by unfold_locales
    (auto simp: prv_security_read_def security_resList_def read_each_ids [OF security_get_answers]
      read_each_all [OF security_get_answers] simp del: read_each.simps split: option.splits
      dest: read_each_fails_at [OF security_get_answers])

section \<open>From the configuration to the object\<close>

definition base64_ok :: "base64_api \<Rightarrow> bool" where
  \<comment> \<open>documented: at most \<open>n\<close> bytes are stored, and four characters give at most three bytes\<close>
  "base64_ok b64 \<longleftrightarrow>
     (\<forall>n t. length (fst (b64 n t)) \<le> n \<and> snd (b64 n t) \<le> 3 * ((length t + 3) div 4))"

definition security_config_ok :: "config \<Rightarrow> bool" where
  \<comment> \<open>the three texts the object reads are terminated within their arrays\<close>
  "security_config_ok c \<longleftrightarrow>
     config_wf c \<and> nul \<in> set (lwm2m_uri c) \<and> nul \<in> set (lwm2m_psk_id c) \<and>
     nul \<in> set (lwm2m_psk_key c)"

lemma security_strcpy_text:
  assumes "nul \<in> set s" and "length (cstr s) \<le> m"
  shows "security_strcpy (replicate m nul) s
      = Some (cstr s @ replicate (m - length (cstr s)) nul)"
proof -
  have "strncpy_image (length (cstr s)) s = cstr s" by (simp add: strncpy_image_def)
  then show ?thesis using assms
    by (simp add: security_strcpy_def c_strlen_def strncpy_def readable_def)
qed

lemma cstr_padded:
  assumes "nul \<notin> set s" and "0 < n"
  shows "cstr (s @ replicate n nul) = s" and "nul \<in> set (s @ replicate n nul)"
proof -
  obtain m where "n = Suc m" using assms(2) by (cases n) auto
  then show "cstr (s @ replicate n nul) = s" "nul \<in> set (s @ replicate n nul)"
    using assms(1) by (simp_all add: cstr_append_nul)
qed

definition key_field :: "string \<Rightarrow> string" where
  \<comment> \<open>the key array, zero before the decoder stored the bytes \<open>d\<close> in it\<close>
  "key_field d = d @ replicate (64 - length d) nul"

lemma key_field_take [simp]: "take (length d) (key_field d) = d"
  by (simp add: key_field_def)

lemma security_instance_new_ok:
  assumes c: "security_config_ok c" and b: "base64_ok b64"
  shows "\<exists>t. security_instance_new b64 c = Some t \<and> security_inst_ok t \<and> sec_instanceId t = 0 \<and>
    cstr (sec_uri t) = cstr (lwm2m_uri c) \<and>
    take (sec_public_identity_len t) (sec_public_identity t) = cstr (lwm2m_psk_id c) @ [nul] \<and>
    sec_secret_key t = key_field (fst (b64 64 (cstr (lwm2m_psk_key c)))) \<and>
    sec_secret_key_len t = snd (b64 64 (cstr (lwm2m_psk_key c))) \<and>
    sec_security_mode t = security_mode_psk"
proof -
  have len: "length (cstr (lwm2m_uri c)) < 128" "length (cstr (lwm2m_psk_id c)) < 128"
      "length (cstr (lwm2m_psk_key c)) < 64"
    using c cstr_shorter [of "lwm2m_uri c"] cstr_shorter [of "lwm2m_psk_id c"]
      cstr_shorter [of "lwm2m_psk_key c"]
    by (simp_all add: security_config_ok_def config_wf_def)
  let ?u = "cstr (lwm2m_uri c)" and ?p = "cstr (lwm2m_psk_id c)" and ?k = "cstr (lwm2m_psk_key c)"
  have u: "security_strcpy (replicate 256 nul) (lwm2m_uri c)
      = Some (?u @ replicate (256 - length ?u) nul)"
    and p: "security_strcpy (replicate 128 nul) (lwm2m_psk_id c)
      = Some (?p @ replicate (128 - length ?p) nul)"
    using c len by (simp_all add: security_strcpy_text security_config_ok_def)
  have u': "cstr (?u @ replicate (256 - length ?u) nul) = ?u"
      "nul \<in> set (?u @ replicate (256 - length ?u) nul)"
    and p': "cstr (?p @ replicate (128 - length ?p) nul) = ?p"
      "nul \<in> set (?p @ replicate (128 - length ?p) nul)"
    using len by (simp_all add: cstr_padded del: set_append)
  obtain m where m: "128 - length ?p = Suc m" using len(2) by (metis Suc_diff_Suc)
  have k: "take (length ?k) (lwm2m_psk_key c) = ?k"
    by (simp add: cstr_def takeWhile_eq_take [symmetric])
  obtain key n where b64: "b64 64 ?k = (key, n)" by (cases "b64 64 ?k")
  have key: "length key \<le> 64" "n \<le> 3 * ((length ?k + 3) div 4)"
    using b b64 unfolding base64_ok_def by (metis fst_conv, metis snd_conv)
  have "length ?k + 3 \<le> 66" using len(3) by simp
  then have "(length ?k + 3) div 4 \<le> 16" using div_le_mono [of "length ?k + 3" 66 4] by simp
  with key(2) have n: "n \<le> 64" by linarith
  have "nul \<in> set (lwm2m_psk_key c)" using c by (simp add: security_config_ok_def)
  then show ?thesis
    using u p u' p' k b64 key n len m
    by (simp add: security_instance_new_def config_getter_defs c_strlen_def security_inst_ok_def
        key_field_def del: set_append)
qed

lemma security_object_one:
  assumes "list_api_ok sec_instanceId la" and "sec_instanceId t = 0"
  shows "\<exists>p. list_find la (list_add la [] t) 0 = Some p \<and> list_add la [] t ! p = t"
proof -
  have "inst_view (list_find la) (list_add la [] t) 0 = Some t"
    using instance_list.view_add(1) [OF assms(1), of "[]" t] assms(2) by simp
  then show ?thesis by (auto simp: inst_view_def split: option.splits)
qed

lemma free_security_object_live:
  "length l < live h \<Longrightarrow> live (free_security_object (l, h)) = live h - 1 - length l"
  by (induction l arbitrary: h) (auto simp: lwm2m_free_def)

text \<open>A decoder with the documented bounds and a provisioned configuration, for evaluation.\<close>

definition base64_sample :: base64_api where
  "base64_sample n t = (take n (take (3 * (length t div 4)) t), min n (3 * (length t div 4)))"

lemma base64_sample_ok: "base64_ok base64_sample"
proof -
  have "3 * (k div 4) \<le> 3 * ((k + 3) div 4)" for k :: nat
    by (simp add: div_le_mono)
  then show ?thesis by (auto simp: base64_ok_def base64_sample_def intro: min.coboundedI2)
qed

definition security_sample :: config where
  "security_sample = config_init\<lparr>lwm2m_uri := ''coap://h'' @ replicate 120 nul\<rparr>"

lemma security_sample_ok: "security_config_ok security_sample"
  by (simp add: security_config_ok_def security_sample_def config_wf_def config_init_def)

text \<open>What is made from a configuration whose three texts are terminated.\<close>

lemma security_object_made:
  assumes "security_config_ok c" and "base64_ok b64" and "list_api_ok sec_instanceId la"
    and "lwm2m_malloc h = (True, h1)" and "lwm2m_malloc h1 = (True, h2)"
  shows "\<exists>l. get_security_object la b64 c h = Some (Some l, h2) \<and>
    prv_security_read api la mem l 0 (data_new [LWM2M_SECURITY_URI_ID])
      = (COAP_205_CONTENT, [put_value (encode_string api (cstr (config_get_lwm2m_uri c)))
           (LData LWM2M_TYPE_UNDEFINED LWM2M_SECURITY_URI_ID V_none)]) \<and>
    (\<exists>ident n. get_public_identiy la l 0 = Some (ident, n) \<and> n \<le> length ident \<and>
       take n ident = cstr (config_get_lwm2m_psk_id c) @ [nul]) \<and>
    get_connection_psk la l 0 = Some (key_field (fst (b64 64 (cstr (config_get_lwm2m_psk_key c)))),
      snd (b64 64 (cstr (config_get_lwm2m_psk_key c)))) \<and>
    snd (b64 64 (cstr (config_get_lwm2m_psk_key c))) \<le> 64 \<and>
    get_security_mode la l 0 = security_mode_psk"
proof -
  obtain t where t: "security_instance_new b64 c = Some t" "security_inst_ok t"
      "sec_instanceId t = 0" "cstr (sec_uri t) = cstr (lwm2m_uri c)"
      "take (sec_public_identity_len t) (sec_public_identity t) = cstr (lwm2m_psk_id c) @ [nul]"
      "sec_secret_key t = key_field (fst (b64 64 (cstr (lwm2m_psk_key c))))"
      "sec_secret_key_len t = snd (b64 64 (cstr (lwm2m_psk_key c)))"
      "sec_security_mode t = security_mode_psk"
    using security_instance_new_ok [OF assms(1,2)] by blast
  obtain p where p: "list_find la (list_add la [] t) 0 = Some p" "list_add la [] t ! p = t"
    using security_object_one [OF assms(3) t(3)] by blast
  have "get_security_object la b64 c h = Some (Some (list_add la [] t), h2)"
    using assms(4,5) t(1) by (simp add: get_security_object_def)
  then show ?thesis
    using t p
    by (auto simp: prv_security_read_def data_new_def security_prv_get_value_def
        get_public_identiy_def get_connection_psk_def get_security_mode_def config_getter_defs
        security_inst_ok_def)
qed

section \<open>Unterminated texts\<close>

text \<open>A configured URI as long as its array has no terminator, and making the security object
  from it reads past the array.\<close>

lemma security_unterminated_uri:
  assumes "nul \<notin> set (config_get_lwm2m_uri c)"
  shows "security_instance_new b64 c = None"
  using assms by (simp add: security_instance_new_def security_strcpy_def c_strlen_def)

lemma security_unterminated_uri_sample:
  "security_instance_new base64_sample (config_init\<lparr>lwm2m_uri := replicate 128 CHR ''u''\<rparr>) = None"
  by (rule security_unterminated_uri) (simp add: config_get_lwm2m_uri_def)

end
