(* ===== verification/Device.thy ===== *)
theory Device
  imports Lwm2m
begin

text \<open>
  \<^verbatim>\<open>object_device.c\<close>: the LwM2M device object (object 3), a single instance whose values are
  constants, the free heap and the time. The heap size and the clock are the record
  \<open>device_env\<close>.
\<close>

section \<open>Resources\<close>

abbreviation RES_O_MANUFACTURER :: u16 where "RES_O_MANUFACTURER \<equiv> 0"
abbreviation RES_O_MODEL_NUMBER :: u16 where "RES_O_MODEL_NUMBER \<equiv> 1"
abbreviation RES_O_SERIAL_NUMBER :: u16 where "RES_O_SERIAL_NUMBER \<equiv> 2"
abbreviation RES_O_FIRMWARE_VERSION :: u16 where "RES_O_FIRMWARE_VERSION \<equiv> 3"
abbreviation RES_M_REBOOT :: u16 where "RES_M_REBOOT \<equiv> 4"
abbreviation RES_O_AVL_POWER_SOURCES :: u16 where "RES_O_AVL_POWER_SOURCES \<equiv> 6"
abbreviation RES_O_BATTERY_LEVEL :: u16 where "RES_O_BATTERY_LEVEL \<equiv> 9"
abbreviation RES_O_MEMORY_FREE :: u16 where "RES_O_MEMORY_FREE \<equiv> 10"
abbreviation RES_O_CURRENT_TIME :: u16 where "RES_O_CURRENT_TIME \<equiv> 13"
abbreviation RES_M_BINDING_MODES :: u16 where "RES_M_BINDING_MODES \<equiv> 16"
abbreviation RES_O_HARDWARE_VERSION :: u16 where "RES_O_HARDWARE_VERSION \<equiv> 18"
abbreviation RES_O_SOFTWARE_VERSION :: u16 where "RES_O_SOFTWARE_VERSION \<equiv> 19"

abbreviation LWM2M_DEVICE_OBJECT_ID :: u16 where "LWM2M_DEVICE_OBJECT_ID \<equiv> 3"

record device_env =
  free_heap :: nat      \<comment> \<open>\<open>xPortGetFreeHeapSize()\<close>\<close>
  device_time :: int    \<comment> \<open>\<open>lwm2m_gettime()\<close>\<close>

section \<open>Operations\<close>

definition device_prv_set_value ::
  "lwm2m_api \<Rightarrow> device_env \<Rightarrow> lwm2m_data \<Rightarrow> byte \<times> lwm2m_data" where
  "device_prv_set_value api e d =
    (let rid = d_id d; ok = (\<lambda>v. (COAP_205_CONTENT, put_value v d)) in
     if rid = RES_O_MANUFACTURER
     then ok (encode_string api ''https://github.com/FranciscoLlobet/efm32-freertos-zig'')
     else if rid = RES_O_MODEL_NUMBER then ok (encode_string api ''miso powered by Zig'')
     else if rid = RES_O_SERIAL_NUMBER then ok (encode_string api ''15-01021'')
     else if rid = RES_O_FIRMWARE_VERSION then ok (encode_string api ''v0.0.0'')
     else if rid = RES_O_HARDWARE_VERSION then ok (encode_string api ''Bosch XDK110'')
     else if rid = RES_O_SOFTWARE_VERSION then ok (encode_string api ''v0.0.0'')
     else if rid = RES_O_BATTERY_LEVEL then ok (encode_int api 100)
     else if rid = RES_O_MEMORY_FREE then ok (encode_int api (int (free_heap e)))
     else if rid = RES_O_CURRENT_TIME then ok (encode_int api (device_time e))
     else if rid = RES_M_REBOOT then (COAP_405_METHOD_NOT_ALLOWED, d)
     else if rid = RES_M_BINDING_MODES then ok (encode_string api ''U'')
     else if rid = RES_O_AVL_POWER_SOURCES then ok (encode_int api 1)
     else (COAP_404_NOT_FOUND, d))"

definition device_resList :: "u16 list" where
  "device_resList =
     [RES_O_MANUFACTURER, RES_O_MODEL_NUMBER, RES_O_SERIAL_NUMBER, RES_O_FIRMWARE_VERSION,
      RES_O_HARDWARE_VERSION, RES_O_SOFTWARE_VERSION, RES_O_BATTERY_LEVEL, RES_O_CURRENT_TIME,
      RES_M_BINDING_MODES, RES_O_MEMORY_FREE]"

definition prv_device_read ::
  "lwm2m_api \<Rightarrow> bool \<Rightarrow> device_env \<Rightarrow> u16 \<Rightarrow> lwm2m_data list \<Rightarrow> byte \<times> lwm2m_data list" where
  "prv_device_read api mem e i ds =
    (if i \<noteq> 0 then (COAP_404_NOT_FOUND, ds)
     else if ds = [] then
       (if \<not> mem then (COAP_500_INTERNAL_SERVER_ERROR, [])
        else read_each (device_prv_set_value api e) (data_new device_resList))
     else read_each (device_prv_set_value api e) ds)"

fun device_discover_for :: "byte \<Rightarrow> lwm2m_data list \<Rightarrow> byte" where
  "device_discover_for r [] = r"
| "device_discover_for r (d # ds) =
     (if r = COAP_205_CONTENT
      then device_discover_for
             (if d_id d \<in> set device_resList then COAP_205_CONTENT else COAP_404_NOT_FOUND) ds
      else r)"

definition prv_device_discover ::
  "bool \<Rightarrow> u16 \<Rightarrow> lwm2m_data list \<Rightarrow> byte \<times> lwm2m_data list" where
  "prv_device_discover mem i ds =
    (if i \<noteq> 0 then (COAP_404_NOT_FOUND, ds)
     else if ds = [] then
       (if \<not> mem then (COAP_500_INTERNAL_SERVER_ERROR, [])
        else (COAP_205_CONTENT, data_new device_resList))
     else (device_discover_for COAP_205_CONTENT ds, ds))"

definition prv_device_execute :: "u16 \<Rightarrow> u16 \<Rightarrow> int \<Rightarrow> byte" where
  "prv_device_execute i rid len =
    (if i \<noteq> 0 then COAP_404_NOT_FOUND
     else if len \<noteq> 0 then COAP_400_BAD_REQUEST
     else if rid = RES_M_REBOOT then COAP_204_CHANGED
     else COAP_405_METHOD_NOT_ALLOWED)"

definition get_object_device :: "heap \<Rightarrow> lwm2m_object option \<times> heap" where
  "get_object_device h =
    (case lwm2m_malloc h of
       (False, h1) \<Rightarrow> (None, h1)
     | (True, h1) \<Rightarrow>
         (case lwm2m_malloc h1 of
            (True, h2) \<Rightarrow>
              (Some \<lparr>objID = LWM2M_DEVICE_OBJECT_ID, versionMajor = 1, versionMinor = 1,
                     hasInstances = True, hasUserData = False\<rparr>, h2)
          | (False, h2) \<Rightarrow> (None, lwm2m_free h2)))"

definition free_object_device :: "lwm2m_object \<Rightarrow> heap \<Rightarrow> heap" where
  "free_object_device ob h =
    (let h1 = (if hasUserData ob then lwm2m_free h else h);
         h2 = (if hasInstances ob then lwm2m_free h1 else h1) in
     lwm2m_free h2)"

section \<open>The device object as a readable object\<close>

definition device_val :: "lwm2m_api \<Rightarrow> device_env \<Rightarrow> u16 \<Rightarrow> encoded option" where
  "device_val api e r =
    (let (s, d) = device_prv_set_value api e (LData LWM2M_TYPE_UNDEFINED r V_none) in
     if s = COAP_205_CONTENT then Some (d_type d, d_value d) else None)"

lemma device_get_answers: "answers (device_val api e) (device_prv_set_value api e)"
  unfolding answers_def
proof
  fix d
  show "case device_val api e (d_id d) of
      Some v \<Rightarrow> device_prv_set_value api e d = (COAP_205_CONTENT, put_value v d)
    | None \<Rightarrow> fst (device_prv_set_value api e d) \<noteq> COAP_205_CONTENT \<and>
        snd (device_prv_set_value api e d) = d"
    by (simp add: device_val_def device_prv_set_value_def Let_def)
qed

interpretation device: readable_object "prv_device_read api" "\<lambda>e i. i = 0" "\<lambda>e i. device_val api e"
    device_resList
  for api :: lwm2m_api
  by unfold_locales
    (auto simp: prv_device_read_def device_resList_def read_each_ids [OF device_get_answers]
      read_each_all [OF device_get_answers] simp del: read_each.simps
      dest: read_each_fails_at [OF device_get_answers])

lemma device_val_resList: "r \<in> set device_resList \<Longrightarrow> device_val api e r \<noteq> None"
  by (auto simp: device_resList_def device_val_def device_prv_set_value_def)

lemma device_discover_for_iff:
  "device_discover_for COAP_205_CONTENT ds = COAP_205_CONTENT \<longleftrightarrow>
   (\<forall>d \<in> set ds. d_id d \<in> set device_resList)"
proof (induction ds)
  case Nil
  then show ?case by simp
next
  case (Cons d ds)
  have "device_discover_for COAP_404_NOT_FOUND ds = COAP_404_NOT_FOUND" by (cases ds) simp_all
  with Cons show ?case by simp
qed

section \<open>Properties\<close>

text \<open>A full read of the device object answers every resource that a full discovery lists, in the
  same order and with its value, and a discovery of given resources answers 205 exactly for listed
  ones, all of which can be read.\<close>

lemma device_read_covers_discover:
  assumes "ds \<noteq> []" and "single_valued ds"
  shows "map d_id (snd (prv_device_read api True e 0 [])) = map d_id (snd (prv_device_discover True 0 []))
    \<and> fst (prv_device_read api True e 0 []) = COAP_205_CONTENT
    \<and> (fst (prv_device_discover True 0 ds) = COAP_205_CONTENT \<longrightarrow>
         fst (prv_device_read api True e 0 ds) = COAP_205_CONTENT)"
proof (intro conjI impI)
  have full: "prv_device_read api True e 0 []
      = (COAP_205_CONTENT, filled (device_val api e) (data_new device_resList))"
    using device.read_full [of 0 api e] device_val_resList by simp
  then show "fst (prv_device_read api True e 0 []) = COAP_205_CONTENT" by simp
  show "map d_id (snd (prv_device_read api True e 0 []))
      = map d_id (snd (prv_device_discover True 0 []))"
    unfolding full by (simp add: prv_device_discover_def)
  assume "fst (prv_device_discover True 0 ds) = COAP_205_CONTENT"
  then have "\<forall>d \<in> set ds. d_id d \<in> set device_resList"
    using assms(1) by (simp add: prv_device_discover_def device_discover_for_iff)
  then show "fst (prv_device_read api True e 0 ds) = COAP_205_CONTENT"
    using device.content_iff [OF assms, of api True e 0] device_val_resList by blast
qed

lemma device_read_covers_discover_example:
  "fst (prv_device_read plain_api True \<lparr>free_heap = 100, device_time = 0\<rparr> 0
     (data_new [RES_O_MEMORY_FREE, RES_O_CURRENT_TIME])) = COAP_205_CONTENT"
  using device_read_covers_discover [of "data_new [RES_O_MEMORY_FREE, RES_O_CURRENT_TIME]" plain_api
      "\<lparr>free_heap = 100, device_time = 0\<rparr>"]
  by (simp add: prv_device_discover_def device_resList_def data_new_def single_valued_def)

end
