(* ===== verification/SensorObjects.thy ===== *)
theory SensorObjects
  imports Lwm2m
begin

text \<open>
  The IPSO sensor objects: \<^verbatim>\<open>object_accelerometer.c\<close> (object 3313, one instance, three axes) and
  \<^verbatim>\<open>object_temperature.c\<close> (object 3303, statically allocated). A \<open>float\<close> is kept as its 32
  bits. Both read handlers test the sign of \<open>numData\<close>, so it is an argument of its own, \<open>n\<close>,
  the length of the array when it is positive.
\<close>

section \<open>The accelerometer\<close>

abbreviation lwm2m_accel_x_value :: u16 where "lwm2m_accel_x_value \<equiv> 5702"
abbreviation lwm2m_accel_y_value :: u16 where "lwm2m_accel_y_value \<equiv> 5703"
abbreviation lwm2m_accel_z_value :: u16 where "lwm2m_accel_z_value \<equiv> 5704"
abbreviation lwm2m_accel_sensor_units :: u16 where "lwm2m_accel_sensor_units \<equiv> 5701"
abbreviation lwm2m_accel_application_type :: u16 where "lwm2m_accel_application_type \<equiv> 5750"

definition accel_resource_list :: "u16 list" where
  "accel_resource_list =
     [lwm2m_accel_x_value, lwm2m_accel_y_value, lwm2m_accel_z_value, lwm2m_accel_sensor_units,
      lwm2m_accel_application_type]"

record accelerometer_values_s =
  acc_x :: u32
  acc_y :: u32
  acc_z :: u32
  acc_timestamp :: u32

definition update_accelerometer_values ::
  "u32 \<Rightarrow> u32 \<Rightarrow> u32 \<Rightarrow> accelerometer_values_s \<Rightarrow> accelerometer_values_s" where
  "update_accelerometer_values x y z v = v\<lparr>acc_x := x, acc_y := y, acc_z := z\<rparr>"

definition accel_get_value ::
  "lwm2m_api \<Rightarrow> accelerometer_values_s \<Rightarrow> lwm2m_data \<Rightarrow> byte \<times> lwm2m_data" where
  \<comment> \<open>the \<open>switch\<close> of \<open>accel_read\<close>\<close>
  "accel_get_value api v d =
    (let rid = d_id d; ok = (\<lambda>e. (COAP_205_CONTENT, put_value e d)) in
     if rid = lwm2m_accel_x_value then ok (encode_float api (acc_x v))
     else if rid = lwm2m_accel_y_value then ok (encode_float api (acc_y v))
     else if rid = lwm2m_accel_z_value then ok (encode_float api (acc_z v))
     else if rid = lwm2m_accel_sensor_units then ok (encode_string api ''LSB'')
     else if rid = lwm2m_accel_application_type
     then ok (encode_string api ''Bosch Sensortec BMA280'')
     else (COAP_404_NOT_FOUND, d))"

definition accel_read ::
  "lwm2m_api \<Rightarrow> bool \<Rightarrow> accelerometer_values_s \<Rightarrow> u16 \<Rightarrow> int \<Rightarrow> lwm2m_data list
   \<Rightarrow> byte \<times> lwm2m_data list" where
  "accel_read api mem v i n ds =
    (let ret = (if i > 0 then COAP_404_NOT_FOUND else COAP_NO_ERROR) in
     if ret \<noteq> COAP_NO_ERROR then (ret, ds)
     else if n = 0 then
       (if \<not> mem then (COAP_500_INTERNAL_SERVER_ERROR, [])
        else read_for (accel_get_value api v) ret (data_new accel_resource_list))
     else if n < 0 then (COAP_500_INTERNAL_SERVER_ERROR, ds)
     else read_for (accel_get_value api v) ret ds)"

definition accel_known :: "lwm2m_data \<Rightarrow> byte \<times> lwm2m_data" where
  \<comment> \<open>the \<open>switch\<close> of \<open>accel_discover\<close>\<close>
  "accel_known d =
    (if d_id d \<in> set accel_resource_list then (COAP_205_CONTENT, d) else (COAP_404_NOT_FOUND, d))"

definition accel_discover ::
  "bool \<Rightarrow> u16 \<Rightarrow> int \<Rightarrow> lwm2m_data list \<Rightarrow> byte \<times> lwm2m_data list" where
  "accel_discover mem i n ds =
    (if n = 0 then
       (if \<not> mem then (COAP_500_INTERNAL_SERVER_ERROR, [])
        else (COAP_205_CONTENT, data_new accel_resource_list))
     else (fst (read_for accel_known COAP_NO_ERROR ds), ds))"

definition get_accelerometer_object ::
  "accelerometer_values_s \<Rightarrow> heap \<Rightarrow> lwm2m_object option \<times> accelerometer_values_s \<times> heap" where
  "get_accelerometer_object v h =
    (case lwm2m_malloc h of
       (False, h1) \<Rightarrow> (None, v, h1)
     | (True, h1) \<Rightarrow>
         (case lwm2m_malloc h1 of
            (False, h2) \<Rightarrow> (None, v, lwm2m_free h2)
          | (True, h2) \<Rightarrow>
              (Some \<lparr>objID = 3313, versionMajor = 1, versionMinor = 1, hasInstances = True,
                     hasUserData = True\<rparr>,
               \<lparr>acc_x = 0, acc_y = 0, acc_z = 0, acc_timestamp = 0\<rparr>, h2)))"

definition free_accelerometer_object :: "lwm2m_object option \<Rightarrow> heap \<Rightarrow> heap" where
  "free_accelerometer_object ob h =
    (case ob of
       None \<Rightarrow> h
     | Some b \<Rightarrow> lwm2m_free (if hasInstances b then lwm2m_free h else h))"

section \<open>The temperature\<close>

abbreviation lwm2m_temp_sensor_value :: u16 where "lwm2m_temp_sensor_value \<equiv> 5700"
abbreviation lwm2m_temp_sensor_units :: u16 where "lwm2m_temp_sensor_units \<equiv> 5701"
abbreviation lwm2m_temp_application_type :: u16 where "lwm2m_temp_application_type \<equiv> 5750"

definition temp_resource_list :: "u16 list" where
  "temp_resource_list =
     [lwm2m_temp_sensor_value, lwm2m_temp_sensor_units, lwm2m_temp_application_type]"

record temperature_s =
  temp_value :: u32
  temp_min_value :: u32
  temp_max_value :: u32

definition write_temperature :: "u32 \<Rightarrow> temperature_s \<Rightarrow> temperature_s" where
  "write_temperature v t = t\<lparr>temp_value := v\<rparr>"

definition temp_get_value ::
  "lwm2m_api \<Rightarrow> temperature_s \<Rightarrow> lwm2m_data \<Rightarrow> byte \<times> lwm2m_data" where
  \<comment> \<open>the \<open>switch\<close> of \<open>_read\<close>\<close>
  "temp_get_value api t d =
    (let rid = d_id d; ok = (\<lambda>e. (COAP_205_CONTENT, put_value e d)) in
     if rid = lwm2m_temp_sensor_value then ok (encode_float api (temp_value t))
     else if rid = lwm2m_temp_sensor_units then ok (encode_string api ''degree Celsius'')
     else if rid = lwm2m_temp_application_type
     then ok (encode_string api ''Bosch Sensortec BME280'')
     else (COAP_404_NOT_FOUND, d))"

definition temp_read ::
  "lwm2m_api \<Rightarrow> u16 list_api \<Rightarrow> bool \<Rightarrow> temperature_s \<times> u16 list \<Rightarrow> u16 \<Rightarrow> int \<Rightarrow> lwm2m_data list
   \<Rightarrow> byte \<times> lwm2m_data list" where
  \<comment> \<open>an instance node holds nothing but its identifier\<close>
  "temp_read api la mem s i n ds =
    (let ret = (if list_find la (snd s) i = None then COAP_404_NOT_FOUND else COAP_NO_ERROR) in
     if ret \<noteq> COAP_NO_ERROR then (ret, ds)
     else if n = 0 then
       (if \<not> mem then (COAP_500_INTERNAL_SERVER_ERROR, [])
        else read_for (temp_get_value api (fst s)) ret (data_new temp_resource_list))
     else if n < 0 then (COAP_500_INTERNAL_SERVER_ERROR, ds)
     else read_for (temp_get_value api (fst s)) ret ds)"

definition get_temperature_object :: "lwm2m_object \<times> u16 list" where
  \<comment> \<open>the static object and its static instance list\<close>
  "get_temperature_object =
    (\<lparr>objID = 3303, versionMajor = 1, versionMinor = 1, hasInstances = True, hasUserData = False\<rparr>,
     [0])"

section \<open>As readable objects\<close>

definition accel_val :: "lwm2m_api \<Rightarrow> accelerometer_values_s \<Rightarrow> u16 \<Rightarrow> encoded option" where
  "accel_val api v r =
    (let (s, d) = accel_get_value api v (LData LWM2M_TYPE_UNDEFINED r V_none) in
     if s = COAP_205_CONTENT then Some (d_type d, d_value d) else None)"

definition temp_val :: "lwm2m_api \<Rightarrow> temperature_s \<Rightarrow> u16 \<Rightarrow> encoded option" where
  "temp_val api t r =
    (let (s, d) = temp_get_value api t (LData LWM2M_TYPE_UNDEFINED r V_none) in
     if s = COAP_205_CONTENT then Some (d_type d, d_value d) else None)"

lemma accel_get_answers: "answers (accel_val api v) (accel_get_value api v)"
  unfolding answers_def
proof
  fix d
  show "case accel_val api v (d_id d) of
      Some e \<Rightarrow> accel_get_value api v d = (COAP_205_CONTENT, put_value e d)
    | None \<Rightarrow> fst (accel_get_value api v d) \<noteq> COAP_205_CONTENT \<and> snd (accel_get_value api v d) = d"
    by (simp add: accel_val_def accel_get_value_def Let_def)
qed

lemma temp_get_answers: "answers (temp_val api t) (temp_get_value api t)"
  unfolding answers_def
proof
  fix d
  show "case temp_val api t (d_id d) of
      Some e \<Rightarrow> temp_get_value api t d = (COAP_205_CONTENT, put_value e d)
    | None \<Rightarrow> fst (temp_get_value api t d) \<noteq> COAP_205_CONTENT \<and> snd (temp_get_value api t d) = d"
    by (simp add: temp_val_def temp_get_value_def Let_def)
qed

text \<open>The handlers on a request whose length is its \<open>numData\<close>.\<close>

definition accel_rd ::
  "lwm2m_api \<Rightarrow> bool \<Rightarrow> accelerometer_values_s \<Rightarrow> u16 \<Rightarrow> lwm2m_data list \<Rightarrow> byte \<times> lwm2m_data list"
  where "accel_rd api mem v i ds = accel_read api mem v i (int (length ds)) ds"

definition temp_rd ::
  "lwm2m_api \<Rightarrow> u16 list_api \<Rightarrow> bool \<Rightarrow> temperature_s \<times> u16 list \<Rightarrow> u16 \<Rightarrow> lwm2m_data list
   \<Rightarrow> byte \<times> lwm2m_data list"
  where "temp_rd api la mem s i ds = temp_read api la mem s i (int (length ds)) ds"

lemma u16_gt_0: "(0 < i) = (i \<noteq> (0 :: u16))"
  by (simp add: word_neq_0_conv)

interpretation accel: readable_object "accel_rd api" "\<lambda>v i. i = 0" "\<lambda>v i. accel_val api v"
    accel_resource_list
  for api :: lwm2m_api
  by unfold_locales
    (auto simp: accel_rd_def accel_read_def accel_resource_list_def u16_gt_0
      read_for_ids [OF accel_get_answers] read_for_all [OF accel_get_answers]
      simp del: read_for.simps dest: read_for_fails_at [OF accel_get_answers])

interpretation temp: readable_object "temp_rd api la" "\<lambda>s i. list_find la (snd s) i \<noteq> None"
    "\<lambda>s i. temp_val api (fst s)" temp_resource_list
  for api :: lwm2m_api and la :: "u16 list_api"
  by unfold_locales
    (auto simp: temp_rd_def temp_read_def temp_resource_list_def
      read_for_ids [OF temp_get_answers] read_for_all [OF temp_get_answers]
      simp del: read_for.simps split: option.splits dest: read_for_fails_at [OF temp_get_answers])

section \<open>Properties\<close>

text \<open>After an update of the accelerometer, a full read of its instance answers the three new
  values in the order x, y, z and then the unit and the sensor's name.\<close>

lemma accel_update_then_read:
  "accel_read api True (update_accelerometer_values x y z v) 0 0 [] =
    (COAP_205_CONTENT,
     map2 (\<lambda>r e. put_value e (LData LWM2M_TYPE_UNDEFINED r V_none)) accel_resource_list
       [encode_float api x, encode_float api y, encode_float api z, encode_string api ''LSB'',
        encode_string api ''Bosch Sensortec BMA280''])"
  by (simp add: accel_read_def accel_resource_list_def data_new_def accel_get_value_def
      update_accelerometer_values_def)

text \<open>For the accelerometer and for the temperature, a read answers 205 exactly when the instance
  exists and every requested resource is one of the object's list.\<close>

lemma sensor_read_content_iff:
  assumes "ds \<noteq> []" and "single_valued ds"
  shows "(fst (accel_read api mem v i (int (length ds)) ds) = COAP_205_CONTENT \<longleftrightarrow>
           i = 0 \<and> (\<forall>d \<in> set ds. d_id d \<in> set accel_resource_list)) \<and>
         (fst (temp_read api la mem (t, snd get_temperature_object) i (int (length ds)) ds)
             = COAP_205_CONTENT \<longleftrightarrow>
           list_find la [0] i \<noteq> None \<and> (\<forall>d \<in> set ds. d_id d \<in> set temp_resource_list))"
proof -
  have "accel_val api v r \<noteq> None \<longleftrightarrow> r \<in> set accel_resource_list" for r
    by (auto simp: accel_val_def accel_get_value_def accel_resource_list_def)
  moreover have "temp_val api t r \<noteq> None \<longleftrightarrow> r \<in> set temp_resource_list" for r
    by (auto simp: temp_val_def temp_get_value_def temp_resource_list_def)
  ultimately show ?thesis
    using accel.content_iff [OF assms, of api mem v i]
      temp.content_iff [OF assms, of api la mem "(t, snd get_temperature_object)" i]
    unfolding accel_rd_def temp_rd_def get_temperature_object_def by simp
qed

lemma sensor_read_content_iff_example:
  "fst (temp_read plain_api (node_api id) True (\<lparr>temp_value = 0, temp_min_value = 0, temp_max_value = 0\<rparr>, snd get_temperature_object) 0 2
     (data_new [lwm2m_temp_sensor_value, lwm2m_accel_x_value])) \<noteq> COAP_205_CONTENT"
  using sensor_read_content_iff [of "data_new [lwm2m_temp_sensor_value, lwm2m_accel_x_value]" plain_api
      True "\<lparr>acc_x = 0, acc_y = 0, acc_z = 0, acc_timestamp = 0\<rparr>" 0 "node_api id" "\<lparr>temp_value = 0, temp_min_value = 0, temp_max_value = 0\<rparr>"]
  by (simp add: data_new_def single_valued_def temp_resource_list_def)

end
