(* ===== verification/Commandline.thy ===== *)
theory Commandline
  imports Lwm2m
begin

text \<open>
  \<^verbatim>\<open>commandline.c\<close>: the parser of the debug console's command lines and the functions that
  print requests. A line is the character array from the pointer to the end of its object; \<open>None\<close>
  is a scan that leaves it. A function that prints returns what it prints. Of
  \<open>output_tlv\<close> the branch without \<^verbatim>\<open>LWM2M_SUPPORT_TLV\<close> is modelled.
\<close>

section \<open>Scanning\<close>

fun word_end :: "string \<Rightarrow> nat option" where
  \<comment> \<open>\<open>while (buffer[length] != 0 && !isspace(buffer[length])) length++\<close>\<close>
  "word_end [] = None"
| "word_end (c # cs) = (if c \<noteq> nul \<and> \<not> isspace c then map_option Suc (word_end cs) else Some 0)"

fun space_end :: "string \<Rightarrow> nat option" where
  \<comment> \<open>\<open>while (isspace(buffer[0])) buffer++\<close>, the terminator is not a space\<close>
  "space_end [] = None"
| "space_end (c # cs) = (if isspace c then map_option Suc (space_end cs) else Some 0)"

definition prv_end_of_space :: "string \<Rightarrow> string option" where
  "prv_end_of_space b = map_option (\<lambda>n. drop n b) (space_end b)"

definition get_end_of_arg :: "string \<Rightarrow> string option" where
  "get_end_of_arg b = map_option (\<lambda>n. drop n b) (word_end b)"

definition get_next_arg :: "string \<Rightarrow> (string \<times> string) option" where
  \<comment> \<open>the returned pointer and the one stored through \<open>end\<close>\<close>
  "get_next_arg b =
     do { b1 \<leftarrow> get_end_of_arg b; b2 \<leftarrow> prv_end_of_space b1; e \<leftarrow> get_end_of_arg b2; Some (b2, e) }"

definition check_end_of_args :: "string \<Rightarrow> bool option" where
  "check_end_of_args b =
     do { b1 \<leftarrow> prv_end_of_space b; case b1 of [] \<Rightarrow> None | c # _ \<Rightarrow> Some (c = nul) }"

section \<open>Commands\<close>

record command_desc =
  cmd_name :: string
  cmd_shortDesc :: string
  cmd_longDesc :: "string option"
  cmd_callback :: nat        \<comment> \<open>which handler\<close>

text \<open>The array ends with an entry without a name, which the list leaves out.\<close>

fun strncmp_eq :: "nat \<Rightarrow> string \<Rightarrow> string \<Rightarrow> bool option" where
  \<comment> \<open>\<open>0 == strncmp(p, q, n)\<close>\<close>
  "strncmp_eq 0 p q = Some True"
| "strncmp_eq (Suc n) [] q = None"
| "strncmp_eq (Suc n) p [] = None"
| "strncmp_eq (Suc n) (a # p) (b # q) =
     (if a \<noteq> b then Some False else if a = nul then Some True else strncmp_eq n p q)"

fun find_command_loop :: "command_desc list \<Rightarrow> string \<Rightarrow> nat \<Rightarrow> command_desc option option" where
  "find_command_loop [] b len = Some None"
| "find_command_loop (c # cs) b len =
     (if length (cmd_name c) \<noteq> len then find_command_loop cs b len
      else do { eq \<leftarrow> strncmp_eq len b (cmd_name c @ [nul]);
                if eq then Some (Some c) else find_command_loop cs b len })"

definition prv_find_command :: "command_desc list \<Rightarrow> string \<Rightarrow> nat \<Rightarrow> command_desc option option" where
  "prv_find_command cs b len = (if len = 0 then Some None else find_command_loop cs b len)"

definition HELP_COMMAND :: string where "HELP_COMMAND = ''help''"

definition HELP_DESC :: string where
  "HELP_DESC = ''Type '' @ [CHR 0x27] @ ''help [COMMAND]'' @ [CHR 0x27] @
     '' for more details on a command.''"

definition UNKNOWN_CMD_MSG :: string where
  "UNKNOWN_CMD_MSG = ''Unknown command. Type '' @ [CHR 0x27] @ ''help'' @ [CHR 0x27] @ '' for help.''"

definition prv_displayHelp :: "command_desc list \<Rightarrow> string \<Rightarrow> string option" where
  "prv_displayHelp cs b =
     do { len \<leftarrow> word_end b;
          c \<leftarrow> prv_find_command cs b len;
          Some (case c of
            None \<Rightarrow> HELP_COMMAND @ tab @ HELP_DESC @ crlf @
              concat (map (\<lambda>c. cmd_name c @ tab @ cmd_shortDesc c @ crlf) cs)
          | Some c \<Rightarrow>
              (case cmd_longDesc c of Some s \<Rightarrow> s | None \<Rightarrow> cmd_shortDesc c) @ crlf) }"

datatype cmd_action = Cmd_call nat string | Cmd_print string

definition handle_command :: "command_desc list \<Rightarrow> string \<Rightarrow> cmd_action option" where
  "handle_command cs b =
     do { len \<leftarrow> word_end b;
          c \<leftarrow> prv_find_command cs b len;
          case c of
            Some c \<Rightarrow> do { n \<leftarrow> space_end (drop len b);
                           Some (Cmd_call (cmd_callback c) (drop (len + n) b)) }
          | None \<Rightarrow>
              do { eq \<leftarrow> strncmp_eq len b (HELP_COMMAND @ [nul]);
                   if eq then
                     do { n \<leftarrow> space_end (drop len b);
                          s \<leftarrow> prv_displayHelp cs (drop (len + n) b);
                          Some (Cmd_print s) }
                   else Some (Cmd_print (UNKNOWN_CMD_MSG @ crlf)) } }"

section \<open>Printing\<close>

definition print_indent :: "nat \<Rightarrow> string" where
  "print_indent num = concat (replicate num ''    '')"

definition byte_at :: "string \<Rightarrow> nat \<Rightarrow> nat" where
  "byte_at b i = of_char (b ! i)"

definition hex_cell :: "string \<Rightarrow> nat \<Rightarrow> string" where
  "hex_cell array j = hex2 (byte_at array j) @ '' '' @ (if j mod 4 = 3 then '' '' else [])"

definition pad_cell :: "nat \<Rightarrow> string" where
  "pad_cell j = ''   '' @ (if j mod 4 = 3 then '' '' else [])"

definition ascii_cell :: "string \<Rightarrow> nat \<Rightarrow> string" where
  "ascii_cell array j =
     (if isprint (word_of_nat (byte_at array j)) then [array ! j] else ''.'')"

definition output_row :: "string \<Rightarrow> nat \<Rightarrow> nat \<Rightarrow> nat \<Rightarrow> string option" where
  \<comment> \<open>one pass of the loop: \<open>memcpy(array, buffer + i, 16)\<close>, then the two columns\<close>
  "output_row b len i indent =
     (if i + 16 \<le> length b then
        let array = take 16 (drop i b); m = min 16 (len - i) in
        Some (print_indent indent @ concat (map (hex_cell array) [0..<m]) @
              (if len > 16 then concat (map pad_cell [m..<16]) else []) @ '' '' @
              concat (map (ascii_cell array) [0..<m]) @ newline)
      else None)"

function output_rows :: "string \<Rightarrow> nat \<Rightarrow> nat \<Rightarrow> nat \<Rightarrow> string option" where
  "output_rows b len i indent =
     (if i < len then
        do { row \<leftarrow> output_row b len i indent; rest \<leftarrow> output_rows b len (i + 16) indent;
             Some (row @ rest) }
      else Some [])"
  by auto
termination by (relation "measure (\<lambda>(b, len, i, indent). len - i)") auto

declare output_rows.simps [simp del]

definition output_buffer :: "string option \<Rightarrow> nat \<Rightarrow> nat \<Rightarrow> string option" where
  "output_buffer buf len indent =
     (let start = (if len = 0 then newline else []) in
      case buf of
        None \<Rightarrow> Some start
      | Some b \<Rightarrow> map_option ((@) start) (output_rows b len 0 indent))"

definition output_tlv :: "nat \<Rightarrow> string" where
  "output_tlv indent = print_indent indent @ ''Unsupported.'' @ crlf"

datatype lwm2m_media_type =
    LWM2M_CONTENT_TEXT | LWM2M_CONTENT_LINK | LWM2M_CONTENT_OPAQUE | LWM2M_CONTENT_TLV
  | LWM2M_CONTENT_JSON | LWM2M_CONTENT_SENML_JSON | LWM2M_CONTENT_OTHER int

record block_info =
  block_num :: int
  block_more :: int
  block_size :: int

definition output_raw :: "string \<Rightarrow> nat \<Rightarrow> nat \<Rightarrow> string option" where
  \<comment> \<open>the loop that prints each byte of a text format\<close>
  "output_raw b len indent =
     (if len \<le> length b then Some (print_indent indent @ take len b @ newline) else None)"

definition output_data ::
  "block_info option \<Rightarrow> lwm2m_media_type \<Rightarrow> string \<Rightarrow> nat \<Rightarrow> nat \<Rightarrow> string option" where
  "output_data bi format b len indent =
     (let head = print_indent indent @
        (case bi of
           Some i \<Rightarrow> ''block transfer: size: '' @ dec_int (block_size i) @ '', num: '' @
             dec_int (block_num i) @ '', more: '' @ dec_int (block_more i) @
             [CHR 0x0A, CHR 0x0D]
         | None \<Rightarrow> ''non block transfer'' @ [CHR 0x0A, CHR 0x0D]) @
        print_indent indent @ dec_nat len @ '' bytes received of type '' in
      map_option ((@) head)
       (case format of
          LWM2M_CONTENT_TEXT \<Rightarrow>
            map_option ((@) (''text/plain:'' @ crlf)) (output_buffer (Some b) len indent)
        | LWM2M_CONTENT_OPAQUE \<Rightarrow>
            map_option ((@) (''application/octet-stream:'' @ crlf)) (output_buffer (Some b) len indent)
        | LWM2M_CONTENT_TLV \<Rightarrow>
            Some (''application/vnd.oma.lwm2m+tlv:'' @ crlf @ output_tlv indent)
        | LWM2M_CONTENT_JSON \<Rightarrow>
            map_option ((@) (''application/vnd.oma.lwm2m+json:'' @ crlf)) (output_raw b len indent)
        | LWM2M_CONTENT_SENML_JSON \<Rightarrow>
            map_option ((@) (''application/senml+json:'' @ crlf)) (output_raw b len indent)
        | LWM2M_CONTENT_LINK \<Rightarrow>
            map_option ((@) (''application/link-format:'' @ crlf)) (output_raw b len indent)
        | LWM2M_CONTENT_OTHER n \<Rightarrow>
            map_option ((@) (''Unknown ('' @ dec_int n @ ''):'' @ crlf))
              (output_buffer (Some b) len indent)))"

text \<open>
  The fields of the union as \<open>dump_tlv\<close> reads them; a zeroed union is an empty value, and a value of
  another kind than the type says is undefined.
\<close>

definition as_buffer :: "lwm2m_value \<Rightarrow> (string option \<times> nat) option" where
  "as_buffer v =
     (case v of V_buffer b \<Rightarrow> Some (Some b, length b) | V_none \<Rightarrow> Some (None, 0) | _ \<Rightarrow> None)"

definition as_bits :: "lwm2m_value \<Rightarrow> 64 word option" where
  "as_bits v = (case v of V_bits b \<Rightarrow> Some b | V_none \<Rightarrow> Some 0 | _ \<Rightarrow> None)"

definition as_boolean :: "lwm2m_value \<Rightarrow> bool option" where
  "as_boolean v = (case v of V_bool b \<Rightarrow> Some b | V_none \<Rightarrow> Some False | _ \<Rightarrow> None)"

definition dump_text :: "lwm2m_value \<Rightarrow> string option" where
  \<comment> \<open>\<open>%.*s\<close> in quotes\<close>
  "dump_text v =
     do { (b, n) \<leftarrow> as_buffer v;
          Some ([CHR 0x22] @ (case b of Some s \<Rightarrow> take n (cstr s) | None \<Rightarrow> []) @ [CHR 0x22] @ crlf) }"

definition dump_frame :: "nat \<Rightarrow> u16 \<Rightarrow> string \<Rightarrow> string" where
  \<comment> \<open>what surrounds the \<open>switch\<close> on the type\<close>
  "dump_frame indent i body =
     print_indent indent @ ''{'' @ crlf @
     print_indent (indent + 1) @ ''id: '' @ dec_int (uint i) @ crlf @
     print_indent (indent + 1) @ ''type: '' @ body @
     print_indent indent @ ''}'' @ crlf"

fun dump_tlv :: "nat \<Rightarrow> lwm2m_data list \<Rightarrow> string option"
and dump_value :: "nat \<Rightarrow> lwm2m_data_type \<Rightarrow> lwm2m_value \<Rightarrow> string option"
and dump_children :: "nat \<Rightarrow> lwm2m_value \<Rightarrow> string option" where
  "dump_tlv indent [] = Some []"
| "dump_tlv indent (LData t i v # ds) =
     do { body \<leftarrow> dump_value indent t v; rest \<leftarrow> dump_tlv indent ds;
          Some (dump_frame indent i body @ rest) }"
| "dump_value indent t v =
     (case t of
        LWM2M_TYPE_OBJECT \<Rightarrow>
          map_option ((@) (''LWM2M_TYPE_OBJECT'' @ crlf)) (dump_children indent v)
      | LWM2M_TYPE_OBJECT_INSTANCE \<Rightarrow>
          map_option ((@) (''LWM2M_TYPE_OBJECT_INSTANCE'' @ crlf)) (dump_children indent v)
      | LWM2M_TYPE_MULTIPLE_RESOURCE \<Rightarrow>
          map_option ((@) (''LWM2M_TYPE_MULTIPLE_RESOURCE'' @ crlf)) (dump_children indent v)
      | LWM2M_TYPE_UNDEFINED \<Rightarrow> Some (''LWM2M_TYPE_UNDEFINED'' @ crlf)
      | LWM2M_TYPE_STRING \<Rightarrow>
          map_option ((@) (''LWM2M_TYPE_STRING'' @ crlf @ print_indent (indent + 1))) (dump_text v)
      | LWM2M_TYPE_CORE_LINK \<Rightarrow>
          map_option ((@) (''LWM2M_TYPE_CORE_LINK'' @ crlf @ print_indent (indent + 1))) (dump_text v)
      | LWM2M_TYPE_OPAQUE \<Rightarrow>
          do { (b, n) \<leftarrow> as_buffer v; s \<leftarrow> output_buffer b n (indent + 1);
               Some (''LWM2M_TYPE_OPAQUE'' @ crlf @ s) }
      | LWM2M_TYPE_INTEGER \<Rightarrow>
          do { b \<leftarrow> as_bits v;
               Some (''LWM2M_TYPE_INTEGER: '' @ print_indent (indent + 1) @ dec_int (sint b) @ crlf) }
      | LWM2M_TYPE_UNSIGNED_INTEGER \<Rightarrow>
          do { b \<leftarrow> as_bits v;
               Some (''LWM2M_TYPE_UNSIGNED_INTEGER: '' @ print_indent (indent + 1) @
                 dec_int (uint b) @ crlf) }
      | LWM2M_TYPE_FLOAT \<Rightarrow>
          do { b \<leftarrow> as_bits v;
               Some (''LWM2M_TYPE_FLOAT: '' @ print_indent (indent + 1) @ dec_int (sint b) @ crlf) }
      | LWM2M_TYPE_BOOLEAN \<Rightarrow>
          do { b \<leftarrow> as_boolean v;
               Some (''LWM2M_TYPE_BOOLEAN: '' @ (if b then ''true'' else ''false'') @ crlf) }
      | LWM2M_TYPE_OBJECT_LINK \<Rightarrow> Some (''LWM2M_TYPE_OBJECT_LINK'' @ crlf)
      | LWM2M_TYPE_OTHER n \<Rightarrow> Some (''unknown ('' @ dec_nat n @ '')'' @ crlf))"
| "dump_children indent v =
     (case v of
        V_children l \<Rightarrow> dump_tlv (indent + 1) l
      | V_none \<Rightarrow> Some []
      | _ \<Rightarrow> None)"

definition prv_status_to_string :: "byte \<Rightarrow> string" where
  "prv_status_to_string status =
    (if status = COAP_NO_ERROR then ''COAP_NO_ERROR''
     else if status = COAP_IGNORE then ''COAP_IGNORE''
     else if status = COAP_201_CREATED then ''COAP_201_CREATED''
     else if status = COAP_202_DELETED then ''COAP_202_DELETED''
     else if status = COAP_204_CHANGED then ''COAP_204_CHANGED''
     else if status = COAP_205_CONTENT then ''COAP_205_CONTENT''
     else if status = COAP_400_BAD_REQUEST then ''COAP_400_BAD_REQUEST''
     else if status = COAP_401_UNAUTHORIZED then ''COAP_401_UNAUTHORIZED''
     else if status = COAP_404_NOT_FOUND then ''COAP_404_NOT_FOUND''
     else if status = COAP_405_METHOD_NOT_ALLOWED then ''COAP_405_METHOD_NOT_ALLOWED''
     else if status = COAP_406_NOT_ACCEPTABLE then ''COAP_406_NOT_ACCEPTABLE''
     else if status = COAP_500_INTERNAL_SERVER_ERROR then ''COAP_500_INTERNAL_SERVER_ERROR''
     else if status = COAP_501_NOT_IMPLEMENTED then ''COAP_501_NOT_IMPLEMENTED''
     else if status = COAP_503_SERVICE_UNAVAILABLE then ''COAP_503_SERVICE_UNAVAILABLE''
     else [])"

definition print_status :: "byte \<Rightarrow> string" where
  "print_status status =
     dec_nat (unat (drop_bit 5 (status AND 0xE0))) @ ''.'' @ dec2 (unat (status AND 0x1F)) @ '' ('' @
     prv_status_to_string status @ '')''"

section \<open>What the scanner finds\<close>

abbreviation in_word :: "char \<Rightarrow> bool" where
  "in_word c \<equiv> c \<noteq> nul \<and> \<not> isspace c"

lemma word_end_eq: "nul \<in> set b \<Longrightarrow> word_end b = Some (length (takeWhile in_word b))"
  by (induction b) auto

lemma space_end_eq: "nul \<in> set b \<Longrightarrow> space_end b = Some (length (takeWhile isspace b))"
  by (induction b) auto

lemma strncmp_eq_take:
  "n \<le> length lit \<Longrightarrow> n \<le> length b \<Longrightarrow> nul \<notin> set lit \<Longrightarrow>
   strncmp_eq n b (lit @ [nul]) = Some (take n b = take n lit)"
proof (induction n b "lit @ [nul]" arbitrary: lit rule: strncmp_eq.induct)
  case (4 n a p c q)
  then obtain lit' where "lit = c # lit'" by (cases lit) auto
  with 4 show ?case by auto
qed auto

lemma find_command_loop_eq:
  assumes "len \<le> length b" and "\<forall>c \<in> set cs. nul \<notin> set (cmd_name c)"
  shows "find_command_loop cs b len = Some (find (\<lambda>c. cmd_name c = take len b) cs)"
  using assms(2)
proof (induction cs)
  case Nil
  then show ?case by simp
next
  case (Cons c cs)
  show ?case
  proof (cases "length (cmd_name c) = len")
    case True
    with Cons assms(1) have "strncmp_eq len b (cmd_name c @ [nul]) = Some (take len b = cmd_name c)"
      by (simp add: strncmp_eq_take)
    with True Cons show ?thesis by auto
  next
    case False
    with assms(1) have "cmd_name c \<noteq> take len b" by auto
    with False Cons show ?thesis by simp
  qed
qed

lemma drop_takeWhile: "drop (length (takeWhile P xs)) xs = dropWhile P xs"
  by (simp add: dropWhile_eq_drop)

lemma nul_dropWhile: "nul \<in> set b \<Longrightarrow> \<not> P nul \<Longrightarrow> nul \<in> set (dropWhile P b)"
  by (induction b) auto

text \<open>The first word of a line, and what follows the blanks after it.\<close>

definition first_word :: "string \<Rightarrow> string" where
  "first_word b = takeWhile in_word b"

definition after_word :: "string \<Rightarrow> string" where
  "after_word b = dropWhile isspace (dropWhile in_word b)"

lemma take_first_word: "take (length (first_word b)) b = first_word b"
  by (simp add: first_word_def takeWhile_eq_take [symmetric])

definition find_word :: "command_desc list \<Rightarrow> string \<Rightarrow> command_desc option" where
  "find_word cs w = (if w = [] then None else find (\<lambda>c. cmd_name c = w) cs)"

lemma prv_find_command_eq:
  assumes "\<forall>c \<in> set cs. nul \<notin> set (cmd_name c)"
  shows "prv_find_command cs b (length (first_word b)) = Some (find_word cs (first_word b))"
proof -
  have "length (first_word b) \<le> length b" by (simp add: first_word_def length_takeWhile_le)
  then show ?thesis using assms
    by (simp add: prv_find_command_def find_command_loop_eq take_first_word find_word_def)
qed

definition help_text :: "command_desc list \<Rightarrow> string \<Rightarrow> string" where
  "help_text cs w =
     (case find_word cs w of
        None \<Rightarrow> HELP_COMMAND @ tab @ HELP_DESC @ crlf @
          concat (map (\<lambda>c. cmd_name c @ tab @ cmd_shortDesc c @ crlf) cs)
      | Some c \<Rightarrow> (case cmd_longDesc c of Some s \<Rightarrow> s | None \<Rightarrow> cmd_shortDesc c) @ crlf)"

lemma prv_displayHelp_eq:
  assumes "\<forall>c \<in> set cs. nul \<notin> set (cmd_name c)" and "nul \<in> set b"
  shows "prv_displayHelp cs b = Some (help_text cs (first_word b))"
  using prv_find_command_eq [OF assms(1), of b] word_end_eq [OF assms(2)]
  by (simp add: prv_displayHelp_def first_word_def help_text_def)

definition help_word :: "string \<Rightarrow> bool" where
  \<comment> \<open>a prefix of the help command\<close>
  "help_word w \<longleftrightarrow> take (length w) HELP_COMMAND = w"

lemma help_prefix:
  assumes "nul \<in> set b"
  shows "strncmp_eq (length (first_word b)) b (HELP_COMMAND @ [nul]) = Some (help_word (first_word b))"
proof -
  let ?w = "first_word b"
  have len: "length ?w \<le> length b" by (simp add: first_word_def length_takeWhile_le)
  show ?thesis
  proof (cases "length ?w \<le> length HELP_COMMAND")
    case True
    have "nul \<notin> set HELP_COMMAND" by (simp add: HELP_COMMAND_def)
    then show ?thesis
      using strncmp_eq_take [OF True len] by (auto simp: take_first_word help_word_def)
  next
    case False
    then have "length (take (length ?w) HELP_COMMAND) \<noteq> length ?w" by simp
    then have no: "\<not> help_word ?w" unfolding help_word_def by metis
    obtain a1 a2 a3 a4 a5 w where w: "?w = a1 # a2 # a3 # a4 # a5 # w"
      using False by (auto simp: HELP_COMMAND_def Suc_le_length_iff not_le Suc_le_eq [symmetric])
    have a5: "a5 \<noteq> nul" using set_takeWhileD [of a5 in_word b] w by (auto simp: first_word_def)
    obtain b' where "b = ?w @ b'" by (metis append_take_drop_id take_first_word)
    then have "strncmp_eq (length ?w) b (HELP_COMMAND @ [nul]) = Some False"
      using w a5 by (auto simp: HELP_COMMAND_def)
    with no show ?thesis by simp
  qed
qed

lemma nul_after_word: "nul \<in> set b \<Longrightarrow> nul \<in> set (after_word b)"
  unfolding after_word_def by (intro nul_dropWhile) auto

lemma after_word_drop:
  "drop (length (first_word b) + length (takeWhile isspace (drop (length (first_word b)) b))) b
     = after_word b"
proof -
  have w: "drop (length (first_word b)) b = dropWhile in_word b"
    by (simp only: first_word_def drop_takeWhile)
  show ?thesis unfolding w
    by (simp only: add.commute [of "length (first_word b)"] drop_drop [symmetric] w drop_takeWhile
        after_word_def)
qed

section \<open>The hex dump\<close>

lemma output_row_None: "output_row b len i indent = None \<longleftrightarrow> length b < i + 16"
  by (auto simp: output_row_def Let_def)


lemma output_rows_safe:
  "output_rows b len i indent \<noteq> None \<longleftrightarrow> (i < len \<longrightarrow> i + 16 * ((len - i + 15) div 16) \<le> length b)"
proof (induction b len i indent rule: output_rows.induct)
  case (1 b len i indent)
  show ?case
  proof (cases "i < len")
    case False
    then show ?thesis by (subst output_rows.simps) simp
  next
    case True
    have split: "output_rows b len i indent \<noteq> None \<longleftrightarrow>
        i + 16 \<le> length b \<and> output_rows b len (i + 16) indent \<noteq> None"
      using True output_row_None [of b len i indent]
      by (subst output_rows.simps) (auto simp: bind_eq_None_conv not_less)
    show ?thesis
    proof (cases "i + 16 < len")
      case True
      then have e: "len - i + 15 = (len - (i + 16) + 15) + 16" by simp
      have "(len - i + 15) div 16 = (len - (i + 16) + 15) div 16 + 1"
        by (subst e, rule div_add_self2) simp
      moreover have "output_row b len i indent \<noteq> None \<or> length b < i + 16"
        using output_row_None [of b len i indent] by simp
      ultimately show ?thesis using split 1 \<open>i < len\<close> True output_row_None [of b len i indent]
        by auto
    next
      case False
      then have "16 \<le> len - i + 15" "len - i + 15 < 2 * 16" using \<open>i < len\<close> by simp_all
      then have "(len - i + 15) div 16 = 1" by (simp add: div_nat_eqI)
      moreover have "output_rows b len (i + 16) indent \<noteq> None"
        using False by (subst output_rows.simps) simp
      ultimately show ?thesis using split \<open>i < len\<close> by simp
    qed
  qed
qed

section \<open>Properties\<close>

text \<open>C26: a terminated command line is parsed without leaving it: the first word selects the first
  command of that name, which is called with the text after the blanks that follow; any other word
  that is a prefix of \<open>help\<close>, the empty one included, prints the help for the next word, and the
  rest print the error.\<close>

theorem handle_command_dispatch:
  assumes "nul \<in> set b" and "\<forall>c \<in> set cs. nul \<notin> set (cmd_name c)"
  shows "handle_command cs b =
    Some (case find_word cs (first_word b) of
            Some c \<Rightarrow> Cmd_call (cmd_callback c) (after_word b)
          | None \<Rightarrow>
              if help_word (first_word b)
              then Cmd_print (help_text cs (first_word (after_word b)))
              else Cmd_print (UNKNOWN_CMD_MSG @ crlf))"
proof -
  have "word_end b = Some (length (first_word b))"
    using word_end_eq [OF assms(1)] by (simp add: first_word_def)
  moreover have "nul \<in> set (drop (length (first_word b)) b)"
    using nul_dropWhile [OF assms(1), of in_word] by (simp add: first_word_def drop_takeWhile)
  ultimately show ?thesis
    using prv_find_command_eq [OF assms(2), of b] help_prefix [OF assms(1)]
      prv_displayHelp_eq [OF assms(2) nul_after_word [OF assms(1)]]
    by (simp add: handle_command_def space_end_eq after_word_drop split: option.splits)
qed


theorem handle_command_dispatch_witness:
  "handle_command [\<lparr>cmd_name = ''list'', cmd_shortDesc = ''List servers.'', cmd_longDesc = None,
      cmd_callback = 7\<rparr>] (''list  all'' @ [nul]) = Some (Cmd_call 7 (''all'' @ [nul]))"
  using handle_command_dispatch [of "''list  all'' @ [nul]"
      "[\<lparr>cmd_name = ''list'', cmd_shortDesc = ''List servers.'', cmd_longDesc = None,
         cmd_callback = 7\<rparr>]"]
  by (simp add: find_word_def first_word_def after_word_def isspace_def)

text \<open>C40: the hex dump copies sixteen bytes for every row it prints, so it stays inside its buffer
  exactly when the buffer reaches to the end of the last row: a length that is not a multiple of
  sixteen is read past its end.\<close>

theorem output_buffer_bounds:
  "output_buffer (Some b) len indent \<noteq> None \<longleftrightarrow> 16 * ((len + 15) div 16) \<le> length b"
  using output_rows_safe [of b len 0 indent] by (cases "len = 0") (auto simp: output_buffer_def)

text \<open>The status printed for a CoAP code agrees with the name printed beside it: class, dot and
  two digits of the name's number.\<close>

lemma print_status_agrees:
  "let table =
     [(COAP_201_CREATED, 201, ''CREATED''), (COAP_202_DELETED, 202, ''DELETED''),
      (COAP_204_CHANGED, 204, ''CHANGED''), (COAP_205_CONTENT, 205, ''CONTENT''),
      (COAP_400_BAD_REQUEST, 400, ''BAD_REQUEST''), (COAP_401_UNAUTHORIZED, 401, ''UNAUTHORIZED''),
      (COAP_404_NOT_FOUND, 404, ''NOT_FOUND''),
      (COAP_405_METHOD_NOT_ALLOWED, 405, ''METHOD_NOT_ALLOWED''),
      (COAP_406_NOT_ACCEPTABLE, 406, ''NOT_ACCEPTABLE''),
      (COAP_500_INTERNAL_SERVER_ERROR, 500, ''INTERNAL_SERVER_ERROR''),
      (COAP_501_NOT_IMPLEMENTED, 501, ''NOT_IMPLEMENTED''),
      (COAP_503_SERVICE_UNAVAILABLE, 503 :: nat, ''SERVICE_UNAVAILABLE'')] in
     map (\<lambda>(status, n, name). print_status status) table =
     map (\<lambda>(status, n, name). dec_nat (n div 100) @ ''.'' @ dec2 (n mod 100) @ '' (COAP_'' @
       dec_nat n @ ''_'' @ name @ '')'') table"
  by code_simp

end
