(* ===== verification/LightClient.thy ===== *)
theory LightClient
  imports Security Server Device SensorObjects
begin

text \<open>
  \<^verbatim>\<open>connection.c\<close> and \<^verbatim>\<open>miso_lightclient.c\<close>: the connections of the LwM2M client and its
  task. A connection node is its address and its \<open>parent\<close>; the list hanging on
  \<open>data.connList\<close> is the list of its nodes. The transport (\<open>lwm2mservice_\<dots>\<close>, written in Zig), the
  liblwm2m core and the FreeRTOS notifications are arguments; what the task asks of them is recorded as
  a list of calls.
\<close>

section \<open>Connections\<close>

record connection =
  c_addr :: nat
  c_parent :: nat

record client_data =
  cd_security :: "security_instance list"
  cd_connList :: "connection list"
  cd_param :: nat
  cd_heap :: heap
  cd_next :: nat       \<comment> \<open>the address the next allocation returns\<close>

definition connection_create ::
  "connection list \<Rightarrow> nat \<Rightarrow> nat \<Rightarrow> heap \<Rightarrow> connection option \<times> connection list \<times> heap" where
  \<comment> \<open>the new node, the list it was appended to, and the heap; an empty list stays empty\<close>
  "connection_create cl ctx addr h =
    (case lwm2m_malloc h of
       (False, h1) \<Rightarrow> (None, cl, h1)
     | (True, h1) \<Rightarrow>
         let c = \<lparr>c_addr = addr, c_parent = ctx\<rparr> in
         (Some c, if cl \<noteq> [] then cl @ [c] else cl, h1))"

fun connection_free :: "connection list \<Rightarrow> nat list" where
  \<comment> \<open>the parents that are closed: the loop tests the node it has moved to, and frees no node\<close>
  "connection_free [] = []"
| "connection_free [c] = [c_parent c]"
| "connection_free (c # d # cs) =
     c_parent c # (if cs \<noteq> [] then connection_free (d # cs) else [])"

definition lwm2m_buffer_send :: "(nat \<Rightarrow> string \<Rightarrow> int) \<Rightarrow> connection option \<Rightarrow> string \<Rightarrow> byte" where
  "lwm2m_buffer_send send_data conn b =
    (case conn of
       None \<Rightarrow> COAP_500_INTERNAL_SERVER_ERROR
     | Some c \<Rightarrow>
         if send_data (c_parent c) b = -1 then COAP_500_INTERNAL_SERVER_ERROR else COAP_NO_ERROR)"

definition lwm2m_session_is_equal :: "nat option \<Rightarrow> nat option \<Rightarrow> bool" where
  "lwm2m_session_is_equal session1 session2 = True"

definition lwm2m_connect_server ::
  "security_instance list_api \<Rightarrow> (nat \<Rightarrow> string option \<Rightarrow> u16 \<Rightarrow> int) \<Rightarrow> u16 \<Rightarrow> client_data
   \<Rightarrow> (connection option \<times> client_data) option" where
  "lwm2m_connect_server la create_connection i d =
    do { (uri, h1) \<leftarrow> get_server_uri la (cd_security d) i (cd_heap d);
         if uri = None then Some (None, d\<lparr>cd_heap := h1\<rparr>)
         else
         do { (uri2, h2) \<leftarrow> get_server_uri la (cd_security d) i h1;
              let ret = create_connection (cd_param d) uri2 i;
                  (conn, cl, h3) =
                    (if ret = 0 then connection_create (cd_connList d) (cd_param d) (cd_next d) h2
                     else (None, cd_connList d, h2));
                  cl' = (case conn of Some c \<Rightarrow> if cl = [] then [c] else cl | None \<Rightarrow> cl);
                  h4 = lwm2m_free h3
              in Some (conn, d\<lparr>cd_connList := cl', cd_heap := h4, cd_next := cd_next d + 1\<rparr>) } }"

fun unlink :: "nat \<Rightarrow> connection list \<Rightarrow> connection list option" where
  \<comment> \<open>the walk with \<open>parentP\<close>; \<open>None\<close>: the node is not in the list\<close>
  "unlink a [] = None"
| "unlink a (c # cs) = (if c_addr c = a then Some cs else map_option ((#) c) (unlink a cs))"

definition lwm2m_close_connection :: "nat option \<Rightarrow> client_data \<Rightarrow> client_data option" where
  \<comment> \<open>a null session equals \<open>connList\<close> or the last node's \<open>next\<close>, and is then dereferenced\<close>
  "lwm2m_close_connection session d =
    (case session of
       None \<Rightarrow> None
     | Some a \<Rightarrow>
         (case unlink a (cd_connList d) of
            Some cl \<Rightarrow> Some (d\<lparr>cd_connList := cl, cd_heap := lwm2m_free (cd_heap d)\<rparr>)
          | None \<Rightarrow> Some d))"

section \<open>The state report\<close>

datatype client_state =
    STATE_INITIAL | STATE_BOOTSTRAP_REQUIRED | STATE_BOOTSTRAPPING | STATE_REGISTER_REQUIRED
  | STATE_REGISTERING | STATE_READY | STATE_OTHER

datatype server_status =
    STATE_DEREGISTERED | STATE_REG_PENDING | STATE_REGISTERED | STATE_REG_FAILED
  | STATE_REG_UPDATE_PENDING | STATE_REG_UPDATE_NEEDED | STATE_DEREG_PENDING | STATE_BS_HOLD_OFF
  | STATE_BS_INITIATED | STATE_BS_PENDING | STATE_BS_FINISHED | STATE_BS_FAILED

record lwm2m_server =
  srv_secObjInstID :: u16
  srv_shortID :: u16
  srv_lifetime :: nat
  srv_status :: server_status
  srv_location :: string

text \<open>The number of a status that is printed as invalid is liblwm2m's, hence the argument \<open>code\<close>.\<close>

definition print_client_state :: "client_state \<Rightarrow> string" where
  "print_client_state st =
    ''State: '' @
    (case st of
       STATE_INITIAL \<Rightarrow> ''STATE_INITIAL''
     | STATE_BOOTSTRAP_REQUIRED \<Rightarrow> ''STATE_BOOTSTRAP_REQUIRED''
     | STATE_BOOTSTRAPPING \<Rightarrow> ''STATE_BOOTSTRAPPING''
     | STATE_REGISTER_REQUIRED \<Rightarrow> ''STATE_REGISTER_REQUIRED''
     | STATE_REGISTERING \<Rightarrow> ''STATE_REGISTERING''
     | STATE_READY \<Rightarrow> ''STATE_READY''
     | STATE_OTHER \<Rightarrow> ''Unknown !'') @ crlf"

definition print_bootstrap_server :: "(server_status \<Rightarrow> int) \<Rightarrow> lwm2m_server \<Rightarrow> string" where
  "print_bootstrap_server code s =
    '' - Security Object ID '' @ dec_int (uint (srv_secObjInstID s)) @
    tab @ ''Hold Off Time: '' @ dec_nat (srv_lifetime s) @ '' s'' @ tab @ ''status: '' @
    (case srv_status s of
       STATE_DEREGISTERED \<Rightarrow> ''DEREGISTERED'' @ crlf
     | STATE_BS_HOLD_OFF \<Rightarrow> ''CLIENT HOLD OFF'' @ crlf
     | STATE_BS_INITIATED \<Rightarrow> ''BOOTSTRAP INITIATED'' @ crlf
     | STATE_BS_PENDING \<Rightarrow> ''BOOTSTRAP PENDING'' @ crlf
     | STATE_BS_FINISHED \<Rightarrow> ''BOOTSTRAP FINISHED'' @ crlf
     | STATE_BS_FAILED \<Rightarrow> ''BOOTSTRAP FAILED'' @ crlf
     | st \<Rightarrow> ''INVALID ('' @ dec_int (code st) @ '')'' @ crlf) @ crlf"

definition print_lwm2m_server :: "(server_status \<Rightarrow> int) \<Rightarrow> lwm2m_server \<Rightarrow> string" where
  "print_lwm2m_server code s =
    '' - Server ID '' @ dec_int (uint (srv_shortID s)) @ tab @ ''status: '' @
    (case srv_status s of
       STATE_DEREGISTERED \<Rightarrow> ''DEREGISTERED'' @ crlf
     | STATE_REG_PENDING \<Rightarrow> ''REGISTRATION PENDING'' @ crlf
     | STATE_REGISTERED \<Rightarrow>
         ''REGISTERED'' @ tab @ ''location: '' @ [CHR 0x22] @ cstr (srv_location s) @ [CHR 0x22] @ tab @
         ''Lifetime: '' @ dec_nat (srv_lifetime s) @ ''s'' @ crlf
     | STATE_REG_UPDATE_PENDING \<Rightarrow> ''REGISTRATION UPDATE PENDING'' @ crlf
     | STATE_REG_UPDATE_NEEDED \<Rightarrow> ''REGISTRATION UPDATE REQUIRED'' @ crlf
     | STATE_DEREG_PENDING \<Rightarrow> ''DEREGISTRATION PENDING'' @ crlf
     | STATE_REG_FAILED \<Rightarrow> ''REGISTRATION FAILED'' @ crlf
     | st \<Rightarrow> ''INVALID ('' @ dec_int (code st) @ '')'' @ crlf) @ crlf"

definition print_lwm2m_state ::
  "(server_status \<Rightarrow> int) \<Rightarrow> client_state \<Rightarrow> lwm2m_server list \<Rightarrow> lwm2m_server list \<Rightarrow> string" where
  "print_lwm2m_state code st bs servers =
    print_client_state st @
    (if bs = [] then ''No Bootstrap Server.'' @ crlf
     else ''Bootstrap Servers:'' @ crlf @ concat (map (print_bootstrap_server code) bs)) @
    (if servers = [] then ''No LWM2M Server.'' @ crlf
     else ''LWM2M Servers:'' @ crlf @ concat (map (print_lwm2m_server code) servers))"

section \<open>The client task\<close>

subsection \<open>Creating and releasing the objects\<close>

record client_env =
  ce_security_lists :: "security_instance list_api"
  ce_server_lists :: "server_instance list_api"
  ce_base64 :: base64_api
  ce_config :: config
  ce_init :: bool          \<comment> \<open>\<open>lwm2m_init\<close> returns a context\<close>
  ce_configure :: int      \<comment> \<open>the result of \<open>lwm2m_configure\<close>\<close>

record client_objects =
  co_security :: "security_instance list"
  co_server :: "server_instance list"
  co_device :: lwm2m_object
  co_temperature :: "lwm2m_object \<times> u16 list"
  co_accelerometer :: "lwm2m_object option"

definition client_setup ::
  "client_env \<Rightarrow> accelerometer_values_s \<Rightarrow> heap \<Rightarrow> ((int + client_objects) \<times> heap) option" where
  \<comment> \<open>the part of the task before its loop; \<open>Inl (-1)\<close> is an early return\<close>
  "client_setup e acc h =
    do { (sec, h1) \<leftarrow> get_security_object (ce_security_lists e) (ce_base64 e) (ce_config e) h;
         case sec of
           None \<Rightarrow> Some (Inl (-1), h1)
         | Some sec \<Rightarrow>
          (case get_server_object (ce_server_lists e) h1 of
             (None, h2) \<Rightarrow> Some (Inl (-1), h2)
           | (Some srv, h2) \<Rightarrow>
            (case get_object_device h2 of
               (None, h3) \<Rightarrow> Some (Inl (-1), h3)
             | (Some dev, h3) \<Rightarrow>
                 let temp = get_temperature_object;
                     (accel, acc', h4) = get_accelerometer_object acc h3 in
                 if \<not> ce_init e then Some (Inl (-1), h4)
                 else if ce_configure e \<noteq> 0 then Some (Inl (-1), h4)
                 else Some (Inr \<lparr>co_security = sec, co_server = srv, co_device = dev,
                                 co_temperature = temp, co_accelerometer = accel\<rparr>, h4))) }"

definition client_release :: "client_objects \<Rightarrow> heap \<Rightarrow> heap" where
  "client_release ob h =
    (let h1 = free_security_object (co_security ob, h);
         h2 = free_server_object (co_server ob, h1);
         h3 = free_object_device (co_device ob) h2 in
     free_accelerometer_object (co_accelerometer ob) h3)"

subsection \<open>The loop\<close>

abbreviation lwm2m_notify_registration :: u32 where "lwm2m_notify_registration \<equiv> 0x01"
abbreviation lwm2m_notify_timestamp :: u32 where "lwm2m_notify_timestamp \<equiv> 0x02"
abbreviation lwm2m_notify_temperature :: u32 where "lwm2m_notify_temperature \<equiv> 0x04"
abbreviation lwm2m_notify_accelerometer :: u32 where "lwm2m_notify_accelerometer \<equiv> 0x08"
abbreviation lwm2m_notify_message_reception :: u32 where "lwm2m_notify_message_reception \<equiv> 0x10"
abbreviation lwm2m_notify_suspend :: u32 where "lwm2m_notify_suspend \<equiv> 0x20"

datatype client_call =
    Update_registration
  | Value_changed u16 u16 u16
  | Read_data nat
  | Handle_packet nat "connection list"   \<comment> \<open>the bytes received and the list the session heads\<close>
  | Print_state
  | Lwm2m_step
  | Wait_rx int
  | Lwm2m_close
  | Close_connection nat
  | Release_objects

record client_turn =
  ct_notify :: "u32 option"     \<comment> \<open>the value of \<open>xTaskNotifyWait\<close>, if it returned one\<close>
  ct_numBytes :: int            \<comment> \<open>the result of \<open>lwm2mservice_read_data\<close>\<close>
  ct_conns :: "connection list" \<comment> \<open>\<open>data.connList\<close> at that time\<close>
  ct_step :: int                \<comment> \<open>the result of \<open>lwm2m_step\<close>\<close>
  ct_timeout :: int             \<comment> \<open>the timeout it stores\<close>

definition client_notified :: "client_turn \<Rightarrow> u32 \<Rightarrow> client_call list" where
  "client_notified t n =
    (if n AND lwm2m_notify_registration \<noteq> 0 then [Update_registration] else []) @
    (if n AND lwm2m_notify_timestamp \<noteq> 0 then [Value_changed 3 0 13] else []) @
    (if n AND lwm2m_notify_temperature \<noteq> 0 then [Value_changed 3303 0 5700] else []) @
    (if n AND lwm2m_notify_accelerometer \<noteq> 0
     then [Value_changed 3313 0 5702, Value_changed 3313 0 5703, Value_changed 3313 0 5704] else []) @
    (if n AND lwm2m_notify_message_reception \<noteq> 0
     then Read_data 2048 #
       (if ct_numBytes t \<noteq> -1 then [Handle_packet (nat (ct_numBytes t)) (ct_conns t)] else [])
     else [])"

definition wait_for_rx :: "int \<Rightarrow> u32 \<Rightarrow> u32" where
  \<comment> \<open>the notification bits after the wait, whose result is the first argument\<close>
  "wait_for_rx ret bits = (if ret = 1 then bits OR lwm2m_notify_message_reception else bits)"

datatype client_exit = Exit_suspend | Exit_step int

fun client_loop :: "client_turn list \<Rightarrow> client_call list \<times> client_exit option" where
  \<comment> \<open>the calls made in these turns of the \<open>while (1)\<close> loop, and how it was left, if it was\<close>
  "client_loop [] = ([], None)"
| "client_loop (t # ts) =
     (let calls = (case ct_notify t of Some n \<Rightarrow> client_notified t n | None \<Rightarrow> []);
          suspend = (case ct_notify t of Some n \<Rightarrow> n AND lwm2m_notify_suspend \<noteq> 0 | None \<Rightarrow> False) in
      if suspend then (calls, Some Exit_suspend)
      else if ct_step t \<noteq> 0 then (calls @ [Print_state, Lwm2m_step], Some (Exit_step (ct_step t)))
      else (case client_loop ts of (rest, ex) \<Rightarrow>
        (calls @ [Print_state, Lwm2m_step, Wait_rx (if ct_timeout t > 1 then 1 else ct_timeout t)] @
           rest, ex)))"

definition lwm2m_client_task_runner ::
  "client_env \<Rightarrow> accelerometer_values_s \<Rightarrow> heap \<Rightarrow> client_turn list \<Rightarrow> connection list
   \<Rightarrow> (int option \<times> client_call list) option" where
  \<comment> \<open>the return value, if the task has returned, and the calls; \<open>conns\<close> is \<open>data.connList\<close> at the end\<close>
  "lwm2m_client_task_runner e acc h ts conns =
    do { (r, h1) \<leftarrow> client_setup e acc h;
         case r of
           Inl v \<Rightarrow> Some (Some v, [])
         | Inr ob \<Rightarrow>
             (case client_loop ts of
                (calls, None) \<Rightarrow> Some (None, calls)
              | (calls, Some ex) \<Rightarrow>
                  Some (Some (if ex = Exit_suspend then 1 else 0),
                        calls @ Lwm2m_close # map Close_connection (connection_free conns) @
                        [Release_objects])) }"

definition lwm2m_client_update_accel ::
  "u32 \<Rightarrow> u32 \<Rightarrow> u32 \<Rightarrow> accelerometer_values_s \<Rightarrow> accelerometer_values_s" where
  "lwm2m_client_update_accel x y z v = update_accelerometer_values x y z v"

section \<open>Lemmas\<close>

lemma unlink_append:
  "a \<notin> c_addr ` set cl \<Longrightarrow> unlink a (cl @ [\<lparr>c_addr = a, c_parent = p\<rparr>]) = Some cl"
  by (induction cl) auto

lemma get_security_object_live:
  assumes la: "list_api_ok sec_instanceId la"
    and get: "get_security_object la b64 c h = Some (Some l, h')"
  shows "live h' = live h + 2 \<and> length l = 1"
proof -
  obtain h1 h2 t where m: "lwm2m_malloc h = (True, h1)" "lwm2m_malloc h1 = (True, h2)" "h' = h2"
      "l = list_add la [] t"
    using get by (auto simp: get_security_object_def bind_eq_Some_conv split: prod.splits bool.splits)
  have "length l = 1" unfolding m(4) by (subst instance_list.length_add [OF la]) simp_all
  with m show ?thesis by (simp add: lwm2m_malloc_def heap_malloc_live)
qed

lemma get_object_device_live:
  "get_object_device h = (Some ob, h') \<Longrightarrow>
   live h' = live h + 2 \<and> hasInstances ob \<and> \<not> hasUserData ob"
  by (auto simp: get_object_device_def lwm2m_malloc_def lwm2m_free_def heap_malloc_live
      split: prod.splits bool.splits)

lemma get_accelerometer_object_live:
  "get_accelerometer_object v h = (ob, v', h') \<Longrightarrow>
   (case ob of None \<Rightarrow> live h' = live h | Some b \<Rightarrow> live h' = live h + 2 \<and> hasInstances b)"
  by (auto simp: get_accelerometer_object_def lwm2m_malloc_def lwm2m_free_def heap_malloc_live
      split: prod.splits bool.splits)

lemma client_setup_Inr:
  assumes "client_setup e acc h = Some (Inr ob, h')"
  obtains h1 h2 h3 acc' where
    "get_security_object (ce_security_lists e) (ce_base64 e) (ce_config e) h
       = Some (Some (co_security ob), h1)"
    "get_server_object (ce_server_lists e) h1 = (Some (co_server ob), h2)"
    "get_object_device h2 = (Some (co_device ob), h3)"
    "get_accelerometer_object acc h3 = (co_accelerometer ob, acc', h')"
proof -
  obtain sec h1 where 1: "get_security_object (ce_security_lists e) (ce_base64 e) (ce_config e) h
      = Some (sec, h1)"
    using assms by (auto simp: client_setup_def bind_eq_Some_conv)
  obtain srv h2 where 2: "get_server_object (ce_server_lists e) h1 = (srv, h2)"
    by (cases "get_server_object (ce_server_lists e) h1")
  obtain dev h3 where 3: "get_object_device h2 = (dev, h3)" by (cases "get_object_device h2")
  obtain accel acc' h4 where 4: "get_accelerometer_object acc h3 = (accel, acc', h4)"
    by (cases "get_accelerometer_object acc h3")
  show thesis
    using assms 1 2 3 4 that
    by (auto simp: client_setup_def split: option.splits if_splits)
qed

text \<open>An environment in which everything succeeds, for evaluation.\<close>

definition acc_sample :: accelerometer_values_s where
  "acc_sample = \<lparr>acc_x = 0, acc_y = 0, acc_z = 0, acc_timestamp = 0\<rparr>"

definition client_sample :: client_env where
  "client_sample =
    \<lparr>ce_security_lists = node_api sec_instanceId, ce_server_lists = node_api si_instanceId,
     ce_base64 = base64_sample, ce_config = security_sample, ce_init = True, ce_configure = 0\<rparr>"

lemma client_sample_lists:
  "list_api_ok sec_instanceId (ce_security_lists client_sample)"
  "list_api_ok si_instanceId (ce_server_lists client_sample)"
  unfolding client_sample_def client_env.simps by (rule node.instance_list_axioms)+

lemma client_sample_security:
  "\<exists>t. get_security_object (ce_security_lists client_sample) (ce_base64 client_sample)
      (ce_config client_sample) \<lparr>outcomes = True # True # os, live = n\<rparr>
     = Some (Some [t], \<lparr>outcomes = os, live = n + 2\<rparr>)"
  using security_instance_new_ok [OF security_sample_ok base64_sample_ok]
  by (auto simp: client_sample_def get_security_object_def lwm2m_malloc_def heap_malloc_def
      node_api_def)

lemma client_sample_setup:
  "\<exists>ob h'. client_setup client_sample acc_sample \<lparr>outcomes = replicate 8 True, live = 3\<rparr>
     = Some (Inr ob, h') \<and> live h' = 11"
proof -
  obtain t where t: "get_security_object (ce_security_lists client_sample) (ce_base64 client_sample)
      (ce_config client_sample) \<lparr>outcomes = replicate 8 True, live = 3\<rparr>
     = Some (Some [t], \<lparr>outcomes = replicate 6 True, live = 5\<rparr>)"
    using client_sample_security [of "replicate 6 True" 3] by (auto simp: eval_nat_numeral)
  then show ?thesis
    by (auto simp: client_setup_def get_server_object_def get_object_device_def
        get_accelerometer_object_def lwm2m_malloc_def heap_malloc_def client_sample_def
        numeral_eq_Suc Let_def)
qed

section \<open>Properties\<close>

text \<open>C29: what the client task allocates before its loop it releases after it: every block of the
  security, server, device and accelerometer objects, also when there was no memory for the
  accelerometer.\<close>

theorem client_objects_balanced:
  assumes "list_api_ok sec_instanceId (ce_security_lists e)"
    and "list_api_ok si_instanceId (ce_server_lists e)"
    and "client_setup e acc h = Some (Inr ob, h')"
  shows "live (client_release ob h') = live h"
proof -
  obtain h1 h2 h3 acc' where s:
    "get_security_object (ce_security_lists e) (ce_base64 e) (ce_config e) h
       = Some (Some (co_security ob), h1)"
    "get_server_object (ce_server_lists e) h1 = (Some (co_server ob), h2)"
    "get_object_device h2 = (Some (co_device ob), h3)"
    "get_accelerometer_object acc h3 = (co_accelerometer ob, acc', h')"
    using client_setup_Inr [OF assms(3)] by blast
  have sec: "live h1 = live h + 2" "length (co_security ob) = 1"
    using get_security_object_live [OF assms(1) s(1)] by simp_all
  have srv: "live h2 = live h1 + 1 + length (co_server ob)"
    using server_get_inv [OF assms(2) s(2)] by (simp add: server_inv_def)
  have dev: "live h3 = live h2 + 2" "hasInstances (co_device ob)" "\<not> hasUserData (co_device ob)"
    using get_object_device_live [OF s(3)] by simp_all
  note acc = get_accelerometer_object_live [OF s(4)]
  let ?h1 = "free_security_object (co_security ob, h')"
  let ?h2 = "free_server_object (co_server ob, ?h1)"
  have "live ?h1 = live h' - 2"
    using sec srv dev acc by (subst free_security_object_live) (auto split: option.splits)
  moreover have "live ?h2 = live ?h1 - 1 - length (co_server ob)"
    using calculation sec srv dev acc by (subst free_server_object_live) (auto split: option.splits)
  ultimately show ?thesis
    using sec srv dev acc
    by (auto simp: client_release_def free_object_device_def free_accelerometer_object_def
        lwm2m_free_def Let_def split: option.splits)
qed

theorem client_objects_balanced_witness:
  "\<exists>ob h'. client_setup client_sample acc_sample \<lparr>outcomes = replicate 8 True, live = 3\<rparr>
       = Some (Inr ob, h') \<and> live h' = 11 \<and> live (client_release ob h') = 3"
proof -
  obtain ob h' where ob: "client_setup client_sample acc_sample \<lparr>outcomes = replicate 8 True, live = 3\<rparr>
      = Some (Inr ob, h')" "live h' = 11"
    using client_sample_setup by blast
  from client_objects_balanced [OF client_sample_lists ob(1)] ob show ?thesis by auto
qed

text \<open>An early return of the client task frees nothing: when the server object cannot be made, the
  security object and its instance stay allocated.\<close>

lemma client_setup_leaks:
  assumes "list_api_ok sec_instanceId (ce_security_lists e)"
    and "get_security_object (ce_security_lists e) (ce_base64 e) (ce_config e) h = Some (Some l, h1)"
    and "outcomes h1 = False # rest"
  shows "\<exists>h'. client_setup e acc h = Some (Inl (-1), h') \<and> live h' = live h + 2"
proof -
  have "get_server_object (ce_server_lists e) h1 = (None, h1\<lparr>outcomes := rest\<rparr>)"
    using assms(3) by (simp add: get_server_object_def heap_malloc_def)
  then show ?thesis
    using assms(2) get_security_object_live [OF assms(1,2)] by (simp add: client_setup_def)
qed

lemma client_setup_leaks_example:
  "\<exists>h'. client_setup client_sample acc_sample \<lparr>outcomes = [True, True, False], live = 0\<rparr>
     = Some (Inl (-1), h') \<and> live h' = 2"
proof -
  obtain t where t: "get_security_object (ce_security_lists client_sample) (ce_base64 client_sample)
      (ce_config client_sample) \<lparr>outcomes = [True, True, False], live = 0\<rparr>
     = Some (Some [t], \<lparr>outcomes = [False], live = 2\<rparr>)"
    using client_sample_security [of "[False]" 0] by auto
  from client_setup_leaks [OF client_sample_lists(1) t, of "[]" acc_sample] show ?thesis
    by (simp add: eval_nat_numeral)
qed

text \<open>Connecting to a server and closing the session gives back the list of connections, with the
  other sessions in their order, but leaves one block: the second copy of the server's URI.\<close>

lemma connect_then_close_leaks:
  assumes "list_find la (cd_security d) i = Some p" and "nul \<in> set (sec_uri (cd_security d ! p))"
    and "outcomes (cd_heap d) = True # True # True # rest"
    and "\<forall>c \<in> set (cd_connList d). c_addr c < cd_next d"
    and "create_connection (cd_param d) (Some (cstr (sec_uri (cd_security d ! p)) @ [nul])) i = 0"
  shows "\<exists>c d1 d2. lwm2m_connect_server la create_connection i d = Some (Some c, d1) \<and>
    c \<in> set (cd_connList d1) \<and> c_parent c = cd_param d \<and>
    lwm2m_close_connection (Some (c_addr c)) d1 = Some d2 \<and>
    cd_connList d2 = cd_connList d \<and> live (cd_heap d2) = live (cd_heap d) + 1"
proof -
  let ?u = "cstr (sec_uri (cd_security d ! p)) @ [nul]"
  let ?c = "\<lparr>c_addr = cd_next d, c_parent = cd_param d\<rparr>"
  have dup: "lwm2m_strdup (Some (sec_uri (cd_security d ! p))) h
      = Some (Some ?u, h\<lparr>outcomes := os, live := live h + 1\<rparr>)" if "outcomes h = True # os" for h os
    using lwm2m_strdup_text [OF assms(2)] that by (simp add: lwm2m_malloc_def heap_malloc_def)
  have "cd_next d \<notin> c_addr ` set (cd_connList d)" using assms(4) by auto
  note un = unlink_append [OF this, of "cd_param d"]
  show ?thesis
    using assms(1,3,5) dup un
    by (cases "cd_connList d = []")
      (simp_all add: lwm2m_connect_server_def get_server_uri_def connection_create_def
        lwm2m_malloc_def lwm2m_free_def heap_malloc_def heap_free_def lwm2m_close_connection_def Let_def)
qed

lemma connect_then_close_leaks_example:
  "\<exists>c d1 d2. lwm2m_connect_server (node_api sec_instanceId) (\<lambda>p u i. 0) 0
      \<lparr>cd_security = [\<lparr>sec_instanceId = 0, sec_uri = ''coap://h'' @ [nul], sec_isBootstrap = False,
          sec_security_mode = security_mode_psk, sec_public_identity = [],
          sec_public_identity_len = 0, sec_server_identity = [], sec_server_identity_len = 0,
          sec_secret_key = [], sec_secret_key_len = 0, sec_shortID = 123,
          sec_clientHoldOffTime = 10\<rparr>],
       cd_connList = [], cd_param = 1, cd_heap = \<lparr>outcomes = [True, True, True], live = 5\<rparr>,
       cd_next = 100\<rparr> = Some (Some c, d1) \<and>
     lwm2m_close_connection (Some (c_addr c)) d1 = Some d2 \<and> cd_connList d2 = [] \<and>
     live (cd_heap d2) = 6"
proof -
  let ?d = "\<lparr>cd_security = [\<lparr>sec_instanceId = 0, sec_uri = ''coap://h'' @ [nul], sec_isBootstrap = False,
          sec_security_mode = security_mode_psk, sec_public_identity = [],
          sec_public_identity_len = 0, sec_server_identity = [], sec_server_identity_len = 0,
          sec_secret_key = [], sec_secret_key_len = 0, sec_shortID = 123,
          sec_clientHoldOffTime = 10\<rparr>],
       cd_connList = [], cd_param = 1, cd_heap = \<lparr>outcomes = [True, True, True], live = 5\<rparr>,
       cd_next = 100\<rparr> :: client_data"
  have "list_find (node_api sec_instanceId) (cd_security ?d) 0 = Some 0"
    by (simp add: node_api_def)
  from connect_then_close_leaks [OF this, of "[]" "\<lambda>p u i. 0"] show ?thesis by auto
qed

text \<open>Releasing the connections closes every transport but the last one of a list of two or
  more.\<close>

lemma connection_free_closes:
  "connection_free cs = map c_parent (if length cs \<le> 1 then cs else butlast cs)"
  by (induction cs rule: connection_free.induct) auto

text \<open>The loop is left at the first suspend notification, after the other bits that came with it are
  served, whatever would have followed.\<close>

lemma client_loop_to_suspend:
  assumes "\<forall>u \<in> set us. ct_step u = 0 \<and>
      (case ct_notify u of Some n \<Rightarrow> n AND lwm2m_notify_suspend = 0 | None \<Rightarrow> True)"
    and "ct_notify t = Some n" and "n AND lwm2m_notify_suspend \<noteq> 0"
  shows "\<exists>calls. client_loop (us @ t # ts) = (calls @ client_notified t n, Some Exit_suspend) \<and>
    count_list calls Lwm2m_step = length us"
  using assms(1)
proof (induction us)
  case Nil
  then show ?case using assms(2,3) by simp
next
  case (Cons u us)
  have none: "count_list (client_notified u m) Lwm2m_step = 0" for m
    by (simp add: client_notified_def count_list_append)
  from Cons obtain calls where
    "client_loop (us @ t # ts) = (calls @ client_notified t n, Some Exit_suspend)"
    "count_list calls Lwm2m_step = length us" by auto
  with Cons.prems none show ?case
    by (auto simp: Let_def count_list_append split: option.splits)
qed



end
