(* ===== verification/Osal.thy ===== *)
theory Osal
  imports Prelude
begin

text \<open>
  The adapters between the libraries and FreeRTOS: the mutexes of mbedTLS
  (\<^verbatim>\<open>mbedtls_adapter/treading.c\<close>) and of FatFs (\<^verbatim>\<open>board/ffsystem.c\<close>), the DTLS
  timers (\<^verbatim>\<open>mbedtls_adapter/timing.c\<close>) and the entropy source
  (\<^verbatim>\<open>mbedtls_adapter/entropy.c\<close>). The kernel's semaphores and timers are arguments; the
  locales \<open>kernel_mutex\<close> and \<open>kernel_timer\<close> hold the documented laws, and \<open>mutex_provider\<close> is the
  contract the two libraries rely on, which both adapters meet.
\<close>

section \<open>Kernel mutexes\<close>

record 'k sem_api =
  sem_create :: "'k \<Rightarrow> nat option \<times> 'k"        \<comment> \<open>\<open>xSemaphoreCreateMutex\<close>\<close>
  sem_delete :: "nat \<Rightarrow> 'k \<Rightarrow> 'k"              \<comment> \<open>\<open>vSemaphoreDelete\<close>\<close>
  sem_take :: "nat \<Rightarrow> 'k \<Rightarrow> bool \<times> 'k"         \<comment> \<open>\<open>xSemaphoreTake\<close> with some timeout\<close>
  sem_give :: "nat \<Rightarrow> 'k \<Rightarrow> bool \<times> 'k"         \<comment> \<open>\<open>xSemaphoreGive\<close>\<close>

section \<open>The mutexes of mbedTLS\<close>

abbreviation MBEDTLS_ERR_THREADING_BAD_INPUT_DATA :: int where
  "MBEDTLS_ERR_THREADING_BAD_INPUT_DATA \<equiv> - 0x1C"
abbreviation MBEDTLS_ERR_THREADING_MUTEX_ERROR :: int where
  "MBEDTLS_ERR_THREADING_MUTEX_ERROR \<equiv> - 0x1E"

record threading_mutex =
  tm_mutex :: "nat option"
  tm_is_valid :: bool

text \<open>The argument is a pointer: \<open>None\<close> is \<open>NULL\<close>.\<close>

definition miso_mbedtls_mutex_init ::
  "'k sem_api \<Rightarrow> threading_mutex option \<Rightarrow> 'k \<Rightarrow> threading_mutex option \<times> 'k" where
  "miso_mbedtls_mutex_init api m k =
    (case m of
       None \<Rightarrow> (None, k)
     | Some x \<Rightarrow>
         (case sem_create api k of
            (hnd, k') \<Rightarrow> (Some (x\<lparr>tm_mutex := hnd, tm_is_valid := (hnd \<noteq> None)\<rparr>), k')))"

definition miso_mbedtls_mutex_free ::
  "'k sem_api \<Rightarrow> threading_mutex option \<Rightarrow> 'k \<Rightarrow> threading_mutex option \<times> 'k" where
  "miso_mbedtls_mutex_free api m k =
    (case m of
       None \<Rightarrow> (None, k)
     | Some x \<Rightarrow>
         if tm_is_valid x
         then (Some (x\<lparr>tm_is_valid := False\<rparr>), sem_delete api (the (tm_mutex x)) k)
         else (Some x, k))"

definition miso_mbedtls_mutex_lock ::
  "'k sem_api \<Rightarrow> threading_mutex option \<Rightarrow> 'k \<Rightarrow> int \<times> 'k" where
  "miso_mbedtls_mutex_lock api m k =
    (case m of
       None \<Rightarrow> (MBEDTLS_ERR_THREADING_BAD_INPUT_DATA, k)
     | Some x \<Rightarrow>
         if tm_is_valid x then
           (case sem_take api (the (tm_mutex x)) k of
              (True, k') \<Rightarrow> (0, k')
            | (False, k') \<Rightarrow> (MBEDTLS_ERR_THREADING_MUTEX_ERROR, k'))
         else (MBEDTLS_ERR_THREADING_BAD_INPUT_DATA, k))"

definition miso_mbedtls_mutex_unlock ::
  "'k sem_api \<Rightarrow> threading_mutex option \<Rightarrow> 'k \<Rightarrow> int \<times> 'k" where
  "miso_mbedtls_mutex_unlock api m k =
    (case m of
       None \<Rightarrow> (MBEDTLS_ERR_THREADING_BAD_INPUT_DATA, k)
     | Some x \<Rightarrow>
         if tm_is_valid x then
           (case sem_give api (the (tm_mutex x)) k of
              (True, k') \<Rightarrow> (0, k')
            | (False, k') \<Rightarrow> (MBEDTLS_ERR_THREADING_MUTEX_ERROR, k'))
         else (MBEDTLS_ERR_THREADING_BAD_INPUT_DATA, k))"

section \<open>The mutexes of FatFs\<close>

text \<open>
  The table \<open>Mutex[FF_VOLUMES + 1]\<close> and the kernel state. \<^verbatim>\<open>FF_VOLUMES\<close> is 1, so there are two
  handles; \<open>None\<close> as a result is an index outside the table.
\<close>

type_synonym 'k ff_state = "nat option list \<times> 'k"

definition ff_mutex_create :: "'k sem_api \<Rightarrow> nat \<Rightarrow> 'k ff_state \<Rightarrow> (int \<times> 'k ff_state) option" where
  "ff_mutex_create api vol s =
    (case s of (t, k) \<Rightarrow>
      if vol < length t then
        (case sem_create api k of (hnd, k') \<Rightarrow> Some (if hnd \<noteq> None then 1 else 0, (t[vol := hnd], k')))
      else None)"

definition ff_mutex_delete :: "'k sem_api \<Rightarrow> nat \<Rightarrow> 'k ff_state \<Rightarrow> 'k ff_state option" where
  "ff_mutex_delete api vol s =
    (case s of (t, k) \<Rightarrow>
      if vol < length t then map_option (\<lambda>hnd. (t, sem_delete api hnd k)) (t ! vol) else None)"

definition ff_mutex_take :: "'k sem_api \<Rightarrow> nat \<Rightarrow> 'k ff_state \<Rightarrow> (int \<times> 'k ff_state) option" where
  "ff_mutex_take api vol s =
    (case s of (t, k) \<Rightarrow>
      if vol < length t then
        (case t ! vol of
           Some hnd \<Rightarrow>
             (case sem_take api hnd k of (ok, k') \<Rightarrow> Some (if ok then 1 else 0, (t, k')))
         | None \<Rightarrow> None)
      else None)"

definition ff_mutex_give :: "'k sem_api \<Rightarrow> nat \<Rightarrow> 'k ff_state \<Rightarrow> 'k ff_state option" where
  "ff_mutex_give api vol s =
    (case s of (t, k) \<Rightarrow>
      if vol < length t then
        (case t ! vol of Some hnd \<Rightarrow> Some (t, snd (sem_give api hnd k)) | None \<Rightarrow> None)
      else None)"

section \<open>The mutex contract\<close>

text \<open>
  What a client relies on for one mutex: a lock succeeds only when the mutex is free and then holds
  it, a failed lock changes nothing, an unlock by the holder frees it.
\<close>

fun lock_attempts :: "('s \<Rightarrow> bool \<times> 's) \<Rightarrow> nat \<Rightarrow> 's \<Rightarrow> bool list \<times> 's" where
  "lock_attempts lock 0 s = ([], s)"
| "lock_attempts lock (Suc n) s =
     (case lock s of (r, s1) \<Rightarrow> (case lock_attempts lock n s1 of (rs, s2) \<Rightarrow> (r # rs, s2)))"

locale mutex_provider =
  fixes lock :: "'s \<Rightarrow> bool \<times> 's"
    and unlock :: "'s \<Rightarrow> 's"
    and ready :: "'s \<Rightarrow> bool"
    and locked :: "'s \<Rightarrow> bool"
  assumes lock_ok: "ready s \<Longrightarrow> lock s = (True, s') \<Longrightarrow> \<not> locked s \<and> locked s' \<and> ready s'"
    and lock_fail: "ready s \<Longrightarrow> lock s = (False, s') \<Longrightarrow> locked s' = locked s \<and> ready s'"
    and unlock_ok: "ready s \<Longrightarrow> locked s \<Longrightarrow> \<not> locked (unlock s) \<and> ready (unlock s)"
begin

text \<open>Any number of attempts while the mutex is held fails.\<close>

lemma mutual_exclusion:
  "ready s \<Longrightarrow> locked s \<Longrightarrow> lock_attempts lock n s = (rs, s') \<Longrightarrow> True \<notin> set rs \<and> locked s' \<and> ready s'"
proof (induction n arbitrary: s rs)
  case 0
  then show ?case by simp
next
  case (Suc n)
  obtain r s1 where r: "lock s = (r, s1)" by (cases "lock s")
  with Suc.prems lock_ok have "r = False" by (cases r) auto
  with r Suc.prems lock_fail have s1: "locked s1" "ready s1" by auto
  obtain rs' where "lock_attempts lock n s1 = (rs', s')" "rs = r # rs'"
    using Suc.prems(3) r by (auto split: prod.splits)
  with Suc.IH [OF s1(2) s1(1)] \<open>r = False\<close> show ?case by auto
qed

end

locale kernel_mutex =
  fixes api :: "'k sem_api"
    and alive :: "'k \<Rightarrow> nat set"
    and held :: "'k \<Rightarrow> nat set"
  assumes create_Some: "sem_create api k = (Some h, k') \<Longrightarrow>
      h \<notin> alive k \<and> alive k' = insert h (alive k) \<and> held k' = held k - {h}"
    and create_None: "sem_create api k = (None, k') \<Longrightarrow> alive k' = alive k \<and> held k' = held k"
    and take_True: "h \<in> alive k \<Longrightarrow> sem_take api h k = (True, k') \<Longrightarrow>
      h \<notin> held k \<and> alive k' = alive k \<and> held k' = insert h (held k)"
    and take_False: "h \<in> alive k \<Longrightarrow> sem_take api h k = (False, k') \<Longrightarrow>
      alive k' = alive k \<and> held k' = held k"
    and give_held: "h \<in> alive k \<Longrightarrow> h \<in> held k \<Longrightarrow>
      fst (sem_give api h k) \<and> alive (snd (sem_give api h k)) = alive k \<and>
      held (snd (sem_give api h k)) = held k - {h}"
    and delete: "alive (sem_delete api h k) = alive k - {h} \<and> held (sem_delete api h k) = held k - {h}"
begin

text \<open>A created handle that is taken at once was free.\<close>

lemma create_then_free: "sem_create api k = (Some h, k') \<Longrightarrow> h \<in> alive k' \<and> h \<notin> held k'"
  using create_Some by auto

end

text \<open>The handle of a valid mbedTLS mutex, and its state in the kernel.\<close>

definition tm_ready :: "('k \<Rightarrow> nat set) \<Rightarrow> threading_mutex \<Rightarrow> 'k \<Rightarrow> bool" where
  "tm_ready alive x k \<longleftrightarrow> tm_is_valid x \<and> (\<exists>h. tm_mutex x = Some h \<and> h \<in> alive k)"

definition tm_locked :: "('k \<Rightarrow> nat set) \<Rightarrow> threading_mutex \<Rightarrow> 'k \<Rightarrow> bool" where
  "tm_locked held x k \<longleftrightarrow> the (tm_mutex x) \<in> held k"

definition tm_lock :: "'k sem_api \<Rightarrow> threading_mutex \<Rightarrow> 'k \<Rightarrow> bool \<times> 'k" where
  "tm_lock api x k = (case miso_mbedtls_mutex_lock api (Some x) k of (r, k') \<Rightarrow> (r = 0, k'))"

definition tm_unlock :: "'k sem_api \<Rightarrow> threading_mutex \<Rightarrow> 'k \<Rightarrow> 'k" where
  "tm_unlock api x k = snd (miso_mbedtls_mutex_unlock api (Some x) k)"

definition ff_ready :: "('k \<Rightarrow> nat set) \<Rightarrow> nat \<Rightarrow> 'k ff_state \<Rightarrow> bool" where
  "ff_ready alive vol s \<longleftrightarrow> vol < length (fst s) \<and> (\<exists>h. fst s ! vol = Some h \<and> h \<in> alive (snd s))"

definition ff_locked :: "('k \<Rightarrow> nat set) \<Rightarrow> nat \<Rightarrow> 'k ff_state \<Rightarrow> bool" where
  "ff_locked held vol s \<longleftrightarrow> the (fst s ! vol) \<in> held (snd s)"

definition ff_lock :: "'k sem_api \<Rightarrow> nat \<Rightarrow> 'k ff_state \<Rightarrow> bool \<times> 'k ff_state" where
  "ff_lock api vol s = (case ff_mutex_take api vol s of Some (r, s') \<Rightarrow> (r = 1, s') | None \<Rightarrow> (False, s))"

definition ff_unlock :: "'k sem_api \<Rightarrow> nat \<Rightarrow> 'k ff_state \<Rightarrow> 'k ff_state" where
  "ff_unlock api vol s = the (ff_mutex_give api vol s)"

sublocale kernel_mutex \<subseteq> tm: mutex_provider "tm_lock api x" "tm_unlock api x" "tm_ready alive x"
    "tm_locked held x" for x
proof unfold_locales
  fix s s'
  assume "tm_ready alive x s"
  then obtain h where h: "tm_is_valid x" "tm_mutex x = Some h" "h \<in> alive s"
    by (auto simp: tm_ready_def)
  show "\<not> tm_locked held x s \<and> tm_locked held x s' \<and> tm_ready alive x s'"
    if "tm_lock api x s = (True, s')"
    using that h take_True [OF h(3), of s']
    by (auto simp: tm_lock_def miso_mbedtls_mutex_lock_def tm_locked_def tm_ready_def
        split: prod.splits bool.splits)
  show "tm_locked held x s' = tm_locked held x s \<and> tm_ready alive x s'"
    if "tm_lock api x s = (False, s')"
    using that h take_False [OF h(3), of s']
    by (auto simp: tm_lock_def miso_mbedtls_mutex_lock_def tm_locked_def tm_ready_def
        split: prod.splits bool.splits)
  show "\<not> tm_locked held x (tm_unlock api x s) \<and> tm_ready alive x (tm_unlock api x s)"
    if "tm_locked held x s"
    using that h give_held [OF h(3)]
    by (auto simp: tm_unlock_def miso_mbedtls_mutex_unlock_def tm_locked_def tm_ready_def
        split: prod.splits bool.splits)
qed

sublocale kernel_mutex \<subseteq> ff: mutex_provider "ff_lock api vol" "ff_unlock api vol"
    "ff_ready alive vol" "ff_locked held vol" for vol
proof unfold_locales
  fix s s'
  assume "ff_ready alive vol s"
  then obtain h where h: "vol < length (fst s)" "fst s ! vol = Some h" "h \<in> alive (snd s)"
    by (auto simp: ff_ready_def)
  show "\<not> ff_locked held vol s \<and> ff_locked held vol s' \<and> ff_ready alive vol s'"
    if "ff_lock api vol s = (True, s')"
    using that h take_True [OF h(3), of "snd s'"]
    by (cases s) (auto simp: ff_lock_def ff_mutex_take_def ff_locked_def ff_ready_def
        split: prod.splits if_splits)
  show "ff_locked held vol s' = ff_locked held vol s \<and> ff_ready alive vol s'"
    if "ff_lock api vol s = (False, s')"
    using that h take_False [OF h(3), of "snd s'"]
    by (cases s) (auto simp: ff_lock_def ff_mutex_take_def ff_locked_def ff_ready_def
        split: prod.splits if_splits)
  show "\<not> ff_locked held vol (ff_unlock api vol s) \<and> ff_ready alive vol (ff_unlock api vol s)"
    if "ff_locked held vol s"
    using that h give_held [OF h(3)]
    by (cases s) (auto simp: ff_unlock_def ff_mutex_give_def ff_locked_def ff_ready_def)
qed

context kernel_mutex begin

text \<open>Both adapters, for any kernel with the laws.\<close>

lemma mbedtls_provider:
  "mutex_provider (tm_lock api x) (tm_unlock api x) (tm_ready alive x) (tm_locked held x)"
  by (rule tm.mutex_provider_axioms)

lemma fatfs_provider:
  "mutex_provider (ff_lock api vol) (ff_unlock api vol) (ff_ready alive vol) (ff_locked held vol)"
  by (rule ff.mutex_provider_axioms)

end

text \<open>
  The laws speak of a mutex as held or free and not of the task that holds it: a task that locks a
  mutex it already holds is one that tries to lock a held mutex. The timeout of \<open>xSemaphoreTake\<close> is
  not an argument; that it ran out is the result \<open>False\<close>, which the laws allow at any time.

  A kernel that has the laws: the live handles, the held ones, and the next handle.\<close>

record kernel =
  k_alive :: "nat list"
  k_held :: "nat list"
  k_next :: nat

definition kernel_api :: "kernel sem_api" where
  "kernel_api =
    \<lparr>sem_create = (\<lambda>k. if k_next k \<in> set (k_alive k) then (None, k)
       else (Some (k_next k), k\<lparr>k_alive := k_next k # k_alive k,
               k_held := filter (\<lambda>x. x \<noteq> k_next k) (k_held k), k_next := k_next k + 1\<rparr>)),
     sem_delete = (\<lambda>h k. k\<lparr>k_alive := filter (\<lambda>x. x \<noteq> h) (k_alive k),
               k_held := filter (\<lambda>x. x \<noteq> h) (k_held k)\<rparr>),
     sem_take = (\<lambda>h k. if h \<in> set (k_held k) then (False, k) else (True, k\<lparr>k_held := h # k_held k\<rparr>)),
     sem_give = (\<lambda>h k. if h \<in> set (k_held k) then (True, k\<lparr>k_held := filter (\<lambda>x. x \<noteq> h) (k_held k)\<rparr>)
               else (False, k))\<rparr>"

abbreviation kernel_alive :: "kernel \<Rightarrow> nat set" where "kernel_alive k \<equiv> set (k_alive k)"
abbreviation kernel_held :: "kernel \<Rightarrow> nat set" where "kernel_held k \<equiv> set (k_held k)"

interpretation kernel: kernel_mutex kernel_api kernel_alive kernel_held
  by unfold_locales (auto simp: kernel_api_def split: if_splits)

section \<open>The DTLS timers\<close>

text \<open>
  \<^verbatim>\<open>timing.c\<close>. The two FreeRTOS software timers are abstract; the state of the delay is a
  field of the context.
\<close>

record 't timer_api =
  t_create :: "nat \<Rightarrow> 't"              \<comment> \<open>\<open>xTimerCreate\<close> with a period\<close>
  t_is_active :: "'t \<Rightarrow> bool"          \<comment> \<open>\<open>xTimerIsTimerActive\<close>\<close>
  t_stop :: "'t \<Rightarrow> 't"                 \<comment> \<open>\<open>xTimerStop\<close>\<close>
  t_change_period :: "nat \<Rightarrow> 't \<Rightarrow> 't" \<comment> \<open>\<open>xTimerChangePeriod\<close>, which also starts the timer\<close>

abbreviation timer_cancelled :: int where "timer_cancelled \<equiv> -1"
abbreviation timer_normal :: int where "timer_normal \<equiv> 0"
abbreviation timer_intermediate_passed :: int where "timer_intermediate_passed \<equiv> 1"
abbreviation timer_final_delay_passed :: int where "timer_final_delay_passed \<equiv> 2"

record 't timing_delay =
  td_int_timer :: 't
  td_fin_timer :: 't
  td_state :: int

datatype expired = Int_timer | Fin_timer | Other_timer

definition timer_callback :: "expired \<Rightarrow> 't timing_delay \<Rightarrow> 't timing_delay" where
  "timer_callback x d =
    (case x of
       Int_timer \<Rightarrow> d\<lparr>td_state := timer_intermediate_passed\<rparr>
     | Fin_timer \<Rightarrow> d\<lparr>td_state := timer_final_delay_passed\<rparr>
     | Other_timer \<Rightarrow> d\<lparr>td_state := timer_cancelled\<rparr>)"

definition miso_mbedtls_init_timer :: "'t timer_api \<Rightarrow> 't timing_delay \<Rightarrow> 't timing_delay" where
  "miso_mbedtls_init_timer api d =
    d\<lparr>td_int_timer := t_create api 1000, td_fin_timer := t_create api 1000\<rparr>"

definition miso_mbedtls_timing_set_delay ::
  "'t timer_api \<Rightarrow> u32 \<Rightarrow> u32 \<Rightarrow> 't timing_delay \<Rightarrow> 't timing_delay" where
  "miso_mbedtls_timing_set_delay api int_ms fin_ms d =
    (let i0 = td_int_timer d; f0 = td_fin_timer d;
         i1 = (if t_is_active api i0 then t_stop api i0 else i0);
         f1 = (if t_is_active api f0 then t_stop api f0 else f0);
         i2 = (if int_ms > 0 then t_change_period api (unat int_ms) i1 else i1);
         f2 = (if fin_ms > 0 then t_change_period api (unat int_ms) f1 else f1)
     in d\<lparr>td_int_timer := i2, td_fin_timer := f2,
           td_state := (if fin_ms = 0 then timer_cancelled else timer_normal)\<rparr>)"

definition miso_mbedtls_timing_get_delay :: "'t timing_delay \<Rightarrow> int" where
  "miso_mbedtls_timing_get_delay d = td_state d"

locale kernel_timer =
  fixes api :: "'t timer_api"
    and period :: "'t \<Rightarrow> nat"
  assumes change_active: "0 < n \<Longrightarrow> t_is_active api (t_change_period api n t)"
    and change_period: "0 < n \<Longrightarrow> period (t_change_period api n t) = n"
    and stop_inactive: "\<not> t_is_active api (t_stop api t)"
begin

lemma stopped: "\<not> t_is_active api (if t_is_active api t then t_stop api t else t)"
  using stop_inactive by simp

end

definition soft_timer_api :: "(nat \<times> bool) timer_api" where
  \<comment> \<open>a timer as its period and whether it runs\<close>
  "soft_timer_api =
    \<lparr>t_create = (\<lambda>n. (n, False)), t_is_active = snd, t_stop = (\<lambda>t. (fst t, False)),
     t_change_period = (\<lambda>n t. (n, True))\<rparr>"

interpretation soft: kernel_timer soft_timer_api fst
  by unfold_locales (simp_all add: soft_timer_api_def)

section \<open>The entropy source\<close>

definition miso_mbedtls_entropy_callback :: "bool \<Rightarrow> bool \<Rightarrow> int" where
  \<comment> \<open>the arguments say whether the two pointers are null; the result is
     \<open>MBEDTLS_ERR_ENTROPY_SOURCE_FAILED\<close> on every path\<close>
  "miso_mbedtls_entropy_callback null_context null_buffer =
    (let ret = - 0x3C in
     if null_context then - 0x3C else if null_buffer then - 0x3C else ret)"

section \<open>Properties\<close>

text \<open>C31: while one task holds a mutex of mbedTLS or of a FatFs volume, no further lock of it
  succeeds, however often it is tried; after the holder's unlock it is free.\<close>

theorem mutex_exclusion:
  assumes "kernel_mutex api alive held"
    and "tm_ready alive x k" and "tm_lock api x k = (True, k1)"
    and "ff_ready alive vol s" and "ff_lock api vol s = (True, s1)"
    and "lock_attempts (tm_lock api x) n k1 = (rs, k2)"
    and "lock_attempts (ff_lock api vol) n s1 = (rs', s2)"
  shows "True \<notin> set rs \<and> \<not> tm_locked held x (tm_unlock api x k2) \<and>
    True \<notin> set rs' \<and> \<not> ff_locked held vol (ff_unlock api vol s2)"
proof -
  note tm = kernel_mutex.mbedtls_provider [OF assms(1), of x]
    and ff = kernel_mutex.fatfs_provider [OF assms(1), of vol]
  have k1: "tm_locked held x k1" "tm_ready alive x k1"
    using mutex_provider.lock_ok [OF tm assms(2,3)] by simp_all
  have s1: "ff_locked held vol s1" "ff_ready alive vol s1"
    using mutex_provider.lock_ok [OF ff assms(4,5)] by simp_all
  have "True \<notin> set rs" "tm_locked held x k2" "tm_ready alive x k2"
    using mutex_provider.mutual_exclusion [OF tm k1(2,1) assms(6)] by simp_all
  moreover have "True \<notin> set rs'" "ff_locked held vol s2" "ff_ready alive vol s2"
    using mutex_provider.mutual_exclusion [OF ff s1(2,1) assms(7)] by simp_all
  ultimately show ?thesis
    using mutex_provider.unlock_ok [OF tm] mutex_provider.unlock_ok [OF ff] by simp
qed

theorem mutex_exclusion_witness:
  "True \<notin> set (fst (lock_attempts (ff_lock kernel_api 1) 2
     ([None, Some 0], \<lparr>k_alive = [0], k_held = [0], k_next = 1\<rparr>)))"
proof -
  let ?k = "\<lparr>k_alive = [0], k_held = [], k_next = 1\<rparr>"
  let ?k1 = "\<lparr>k_alive = [0], k_held = [0], k_next = 1\<rparr>"
  let ?x = "\<lparr>tm_mutex = Some 0, tm_is_valid = True\<rparr>"
  have r: "tm_ready kernel_alive ?x ?k" "tm_lock kernel_api ?x ?k = (True, ?k1)"
      "ff_ready kernel_alive 1 ([None, Some 0], ?k)"
      "ff_lock kernel_api 1 ([None, Some 0], ?k) = (True, ([None, Some 0], ?k1))"
    by (simp_all add: tm_ready_def tm_lock_def miso_mbedtls_mutex_lock_def kernel_api_def
        ff_ready_def ff_lock_def ff_mutex_take_def)
  obtain rs k2 where 1: "lock_attempts (tm_lock kernel_api ?x) 2 ?k1 = (rs, k2)" by fastforce
  obtain rs' s2 where 2: "lock_attempts (ff_lock kernel_api 1) 2 ([None, Some 0], ?k1) = (rs', s2)"
    by (metis surj_pair)
  from mutex_exclusion [OF kernel.kernel_mutex_axioms r 1 2] 2 show ?thesis by simp
qed

text \<open>Setting a DTLS delay whose intermediate time is not zero. With a final time it reports a
  running timer and leaves both timers active with the intermediate time as period: the final timer
  expires after the intermediate time, not the final one. A final time of zero cancels the delay and
  leaves the final timer stopped and the intermediate timer active.\<close>

lemma timing_set_delay_periods:
  assumes "kernel_timer api period" and "0 < int_ms"
  shows "let d' = miso_mbedtls_timing_set_delay api int_ms fin_ms d in
    (if fin_ms = 0
     then miso_mbedtls_timing_get_delay d' = -1 \<and> \<not> t_is_active api (td_fin_timer d')
     else miso_mbedtls_timing_get_delay d' = 0 \<and> period (td_fin_timer d') = unat int_ms \<and>
       t_is_active api (td_fin_timer d')) \<and>
    period (td_int_timer d') = unat int_ms \<and> t_is_active api (td_int_timer d')"
proof -
  have "0 < unat int_ms" using assms(2) by (simp add: unat_gt_0 word_neq_0_conv)
  then show ?thesis
    using assms kernel_timer.change_active [OF assms(1)] kernel_timer.change_period [OF assms(1)]
      kernel_timer.stop_inactive [OF assms(1)]
    by (auto simp: miso_mbedtls_timing_set_delay_def miso_mbedtls_timing_get_delay_def Let_def
        word_neq_0_conv)
qed

lemma timing_set_delay_periods_example:
  "fst (td_fin_timer (miso_mbedtls_timing_set_delay soft_timer_api 1000 4000
     \<lparr>td_int_timer = (1000, False), td_fin_timer = (1000, False), td_state = 0\<rparr>)) = 1000"
  using timing_set_delay_periods [OF soft.kernel_timer_axioms, of 1000 4000
      "\<lparr>td_int_timer = (1000, False), td_fin_timer = (1000, False), td_state = 0\<rparr>"]
  by (simp add: Let_def)

end
