(* ===== verification/Wifi.thy ===== *)
theory Wifi
  imports Config
begin

text \<open>
  \<^verbatim>\<open>wifi_service.c\<close>: the Wi-Fi task and the event handlers of the CC3100. The handlers run in the
  driver's context, update \<open>wifi_status\<close> and post notification bits; the task waits for them. The
  SimpleLink calls and notifications the code makes are recorded as a list of \<open>wifi_call\<close>, and what
  they return is an argument; the messages of the task on the debug stream are left out.
\<close>

section \<open>States and masks\<close>

abbreviation WIFI_PENDING_STATE :: u32 where "WIFI_PENDING_STATE \<equiv> 0x01"
abbreviation wifi_disconnected :: u32 where "wifi_disconnected \<equiv> 0x02"
abbreviation wifi_connecting :: u32 where "wifi_connecting \<equiv> 0x04"
abbreviation wifi_connected :: u32 where "wifi_connected \<equiv> 0x08"
abbreviation WIFI_IP_ACQUIRED :: u32 where "WIFI_IP_ACQUIRED \<equiv> 0x10"
abbreviation WIFI_IPV4_ACQUIRED :: u32 where "WIFI_IPV4_ACQUIRED \<equiv> 0x20"
abbreviation WIFI_IPV6_ACQUIRED :: u32 where "WIFI_IPV6_ACQUIRED \<equiv> 0x40"
abbreviation WIFI_IP_RELEASED :: u32 where "WIFI_IP_RELEASED \<equiv> 0x80"

definition WIFI_IP_MASK :: u32 where
  "WIFI_IP_MASK = (WIFI_IP_ACQUIRED OR WIFI_IPV4_ACQUIRED OR WIFI_IPV6_ACQUIRED OR WIFI_IP_RELEASED)"

definition wifi_ip_v4_acquired :: u32 where
  "wifi_ip_v4_acquired = (WIFI_IP_ACQUIRED OR WIFI_IPV4_ACQUIRED) AND WIFI_IP_MASK"

definition wifi_ip_v6_acquired :: u32 where
  "wifi_ip_v6_acquired = (WIFI_IP_ACQUIRED OR WIFI_IPV6_ACQUIRED) AND WIFI_IP_MASK"

definition wifi_ip_released :: u32 where
  "wifi_ip_released = WIFI_IP_RELEASED AND WIFI_IP_MASK"

record wifi_status_s =
  ws_connection :: u32
  ws_ip :: u32

definition network_is_connected :: "wifi_status_s \<Rightarrow> bool" where
  "network_is_connected st \<longleftrightarrow> ws_connection st = wifi_connected"

section \<open>What the task calls\<close>

datatype wifi_call =
    Sl_Start
  | Sl_DevGet
  | Sl_WlanPolicySet_connection "nat list"   \<comment> \<open>the arguments of \<open>SL_CONNECTION_POLICY\<close>\<close>
  | Sl_WlanDisconnect
  | Sl_NetCfgSet_dhcp byte
  | Sl_WlanPolicySet_scan byte
  | Sl_WlanSet_tx_power byte
  | Sl_WlanPolicySet_pm
  | Sl_NetAppMDNSUnRegisterService
  | Sl_WlanRxFilterSet "byte list"
  | Sl_WlanSetMode_sta
  | Sl_Stop byte
  | Sl_NetAppStop_http
  | Sl_NetAppStop_mdns
  | Sl_WlanConnect string string             \<comment> \<open>the name and the key\<close>
  | Notify u32                               \<comment> \<open>\<open>xTaskNotify(wifi_task_handle, \<dots>, eSetBits)\<close>\<close>
  | Connectivity bool                        \<comment> \<open>\<open>miso_notify_event\<close> on or off\<close>
  | Suspend_network_mediator
  | Resume_network_mediator

definition wifi_start :: "bool \<Rightarrow> wifi_status_s \<Rightarrow> wifi_call list \<times> wifi_status_s" where
  \<comment> \<open>from \<open>restart\<close> to the loop; the argument says whether the second start gives the station role\<close>
  "wifi_start sta st =
    (let st1 = st\<lparr>ws_connection := wifi_disconnected\<rparr>;
         st2 = st1\<lparr>ws_connection := wifi_connecting\<rparr> in
     ([Sl_Start, Sl_DevGet, Sl_WlanPolicySet_connection [1, 0, 0, 0, 1], Sl_WlanDisconnect,
       Sl_NetCfgSet_dhcp 1, Sl_WlanPolicySet_scan 0, Sl_WlanSet_tx_power 0, Sl_WlanPolicySet_pm,
       Sl_NetAppMDNSUnRegisterService, Sl_WlanRxFilterSet (replicate 8 0xFF), Sl_WlanSetMode_sta,
       Sl_Stop 0, Sl_Start] @
      (if sta then [Sl_NetAppStop_http, Sl_NetAppStop_mdns] else []) @
      [Sl_WlanPolicySet_connection [1, 1, 0, 0, 1], Notify (wifi_connecting OR WIFI_PENDING_STATE)],
      st2))"

definition wifi_disconnect_step :: "u32 \<Rightarrow> wifi_status_s \<Rightarrow> wifi_call list \<times> wifi_status_s" where
  "wifi_disconnect_step n st =
    (if n AND wifi_disconnected \<noteq> 0
     then ([Connectivity False, Suspend_network_mediator,
            Notify (wifi_connecting OR WIFI_PENDING_STATE)],
           st\<lparr>ws_connection := wifi_connecting\<rparr>)
     else ([], st))"

definition wifi_connect_step :: "config \<Rightarrow> u32 \<Rightarrow> wifi_call list option" where
  \<comment> \<open>the call of \<open>sl_WlanConnect\<close>, which needs the length of the name and of the key\<close>
  "wifi_connect_step c n =
    (if n AND wifi_connecting \<noteq> 0 then
       do { k \<leftarrow> c_strlen (config_get_wifi_key c);
            s \<leftarrow> c_strlen (config_get_wifi_ssid c);
            Some [Sl_WlanConnect (take s (config_get_wifi_ssid c)) (take k (config_get_wifi_key c))] }
     else Some [])"

definition wifi_ip_step :: "u32 \<Rightarrow> wifi_call list" where
  "wifi_ip_step n =
    (if n AND (wifi_ip_v4_acquired OR wifi_ip_v6_acquired) \<noteq> 0
     then [Resume_network_mediator, Connectivity True] else [])"

definition wifi_turn ::
  "config \<Rightarrow> wifi_status_s \<Rightarrow> u32 option \<Rightarrow> int \<Rightarrow> (wifi_call list \<times> wifi_status_s \<times> bool) option" where
  \<comment> \<open>one pass of the loop: the notified value, if one came before the timeout, and the result of
     \<open>sl_WlanConnect\<close>; the last component says that the loop is left\<close>
  "wifi_turn c st v ret =
    (case v of
       None \<Rightarrow> Some ([], st, False)
     | Some n \<Rightarrow>
         (case wifi_disconnect_step n st of
            (c1, st1) \<Rightarrow>
              do { c2 \<leftarrow> wifi_connect_step c n;
                   if c2 \<noteq> [] \<and> ret \<noteq> 0 then Some (c1 @ c2, st1, True)
                   else Some (c1 @ c2 @ wifi_ip_step n, st1, False) }))"

fun wifi_loop ::
  "config \<Rightarrow> bool \<Rightarrow> wifi_status_s \<Rightarrow> (u32 option \<times> int) list \<Rightarrow> (wifi_call list \<times> wifi_status_s) option"
where
  \<comment> \<open>these passes of the loop; leaving it stops the chip and restarts the task\<close>
  "wifi_loop c sta st [] = Some ([], st)"
| "wifi_loop c sta st ((v, ret) # vs) =
     do { (calls, st1, left) \<leftarrow> wifi_turn c st v ret;
          let (calls2, st2) =
            (if left then (let (a, b) = wifi_start sta st1 in (Sl_Stop 0xFF # a, b)) else ([], st1));
          (rest, st3) \<leftarrow> wifi_loop c sta st2 vs;
          Some (calls @ calls2 @ rest, st3) }"

definition wifi_task ::
  "config \<Rightarrow> bool \<Rightarrow> wifi_status_s \<Rightarrow> (u32 option \<times> int) list \<Rightarrow> (wifi_call list \<times> wifi_status_s) option"
where
  "wifi_task c sta st vs =
    (case wifi_start sta st of
       (calls, st1) \<Rightarrow> do { (rest, st2) \<leftarrow> wifi_loop c sta st1 vs; Some (calls @ rest, st2) })"

section \<open>Event handlers\<close>

datatype wlan_event =
    SL_WLAN_CONNECT_EVENT | SL_WLAN_DISCONNECT_EVENT byte | SL_WLAN_SMART_CONFIG_COMPLETE_EVENT
  | SL_WLAN_SMART_CONFIG_STOP_EVENT | SL_WLAN_STA_CONNECTED_EVENT | SL_WLAN_STA_DISCONNECTED_EVENT
  | SL_WLAN_P2P_DEV_FOUND_EVENT | SL_WLAN_P2P_NEG_REQ_RECEIVED_EVENT
  | SL_WLAN_CONNECTION_FAILED_EVENT | SL_WLAN_OTHER_EVENT

datatype netapp_event =
    SL_NETAPP_IPV4_IPACQUIRED_EVENT | SL_NETAPP_IPV6_IPACQUIRED_EVENT | SL_NETAPP_IP_LEASED_EVENT
  | SL_NETAPP_IP_RELEASED_EVENT | SL_NETAPP_OTHER_EVENT

definition CC3100_WlanEvtHdlr :: "wlan_event option \<Rightarrow> wifi_status_s \<Rightarrow> wifi_call list \<times> wifi_status_s" where
  "CC3100_WlanEvtHdlr ev st =
    (case ev of
       None \<Rightarrow> ([], st)
     | Some e \<Rightarrow>
         let st' = (case e of
             SL_WLAN_CONNECT_EVENT \<Rightarrow> st\<lparr>ws_connection := wifi_connected\<rparr>
           | SL_WLAN_DISCONNECT_EVENT reason \<Rightarrow> st\<lparr>ws_connection := wifi_disconnected\<rparr>
           | SL_WLAN_CONNECTION_FAILED_EVENT \<Rightarrow> st\<lparr>ws_connection := wifi_disconnected\<rparr>
           | _ \<Rightarrow> st) in
         ([Notify (ws_connection st' OR WIFI_PENDING_STATE)], st'))"

definition CC3100_NetAppEvtHdlr :: "netapp_event \<Rightarrow> wifi_status_s \<Rightarrow> wifi_call list \<times> wifi_status_s" where
  "CC3100_NetAppEvtHdlr e st =
    (let st' = (case e of
         SL_NETAPP_IPV4_IPACQUIRED_EVENT \<Rightarrow> st\<lparr>ws_ip := wifi_ip_v4_acquired\<rparr>
       | SL_NETAPP_IPV6_IPACQUIRED_EVENT \<Rightarrow> st\<lparr>ws_ip := wifi_ip_v6_acquired\<rparr>
       | SL_NETAPP_IP_RELEASED_EVENT \<Rightarrow> st\<lparr>ws_ip := wifi_ip_released\<rparr>
       | _ \<Rightarrow> st) in
     ([Notify (ws_ip st' OR WIFI_PENDING_STATE)], st'))"

lemmas wifi_masks = wifi_ip_v4_acquired_def wifi_ip_v6_acquired_def wifi_ip_released_def WIFI_IP_MASK_def

lemmas wifi_steps =
  wifi_turn_def wifi_disconnect_step_def wifi_connect_step_def wifi_ip_step_def

section \<open>Properties\<close>

text \<open>C27: a lost or failed connection is retried: the handler posts bits on which the task reports the
  loss, suspends the network and posts to itself, and on that second notification it connects with
  the configured name and key.\<close>

theorem wifi_reconnects:
  assumes "e = SL_WLAN_DISCONNECT_EVENT reason \<or> e = SL_WLAN_CONNECTION_FAILED_EVENT"
    and "CC3100_WlanEvtHdlr (Some e) st = (calls, st1)"
    and "nul \<in> set (config_get_wifi_ssid c)" and "nul \<in> set (config_get_wifi_key c)"
  shows "let n1 = wifi_disconnected OR WIFI_PENDING_STATE;
             n2 = wifi_connecting OR WIFI_PENDING_STATE;
             st2 = st1\<lparr>ws_connection := wifi_connecting\<rparr> in
    calls = [Notify n1] \<and> \<not> network_is_connected st1 \<and>
    wifi_turn c st1 (Some n1) ret =
      Some ([Connectivity False, Suspend_network_mediator, Notify n2], st2, False) \<and>
    wifi_turn c st2 (Some n2) 0 =
      Some ([Sl_WlanConnect (cstr (config_get_wifi_ssid c)) (cstr (config_get_wifi_key c))], st2, False)"
proof -
  have t: "take (length (cstr s)) s = cstr s" for s
    by (simp add: cstr_def takeWhile_eq_take [symmetric])
  show ?thesis
    using assms
    by (auto simp: CC3100_WlanEvtHdlr_def network_is_connected_def wifi_steps wifi_masks c_strlen_def t)
qed

theorem wifi_reconnects_witness:
  "wifi_turn config_init \<lparr>ws_connection = wifi_connecting, ws_ip = 0\<rparr> (Some 0x05) 0
     = Some ([Sl_WlanConnect [] []], \<lparr>ws_connection = wifi_connecting, ws_ip = 0\<rparr>, False)"
proof -
  have e: "cstr (replicate 32 nul) = []" by (simp add: cstr_def)
  have g: "config_get_wifi_ssid config_init = replicate 32 nul"
    "config_get_wifi_key config_init = replicate 32 nul"
    by (simp_all add: config_get_wifi_ssid_def config_get_wifi_key_def config_init_def)
  show ?thesis
    using wifi_reconnects [of SL_WLAN_CONNECTION_FAILED_EVENT 0
      "\<lparr>ws_connection = wifi_connected, ws_ip = 0\<rparr>" "[Notify 3]"
      "\<lparr>ws_connection = wifi_disconnected, ws_ip = 0\<rparr>" config_init 0]
    by (simp add: CC3100_WlanEvtHdlr_def g e Let_def)
qed

text \<open>When an address is acquired the handler posts bits on which the task resumes the network and
  reports connectivity, and makes no connection attempt; the connection state is not changed.\<close>

lemma wifi_address_acquired:
  assumes "e = SL_NETAPP_IPV4_IPACQUIRED_EVENT \<or> e = SL_NETAPP_IPV6_IPACQUIRED_EVENT"
    and "CC3100_NetAppEvtHdlr e st = (calls, st1)"
  shows "let n = ws_ip st1 OR WIFI_PENDING_STATE in
    calls = [Notify n] \<and> ws_connection st1 = ws_connection st \<and>
    wifi_turn c st1 (Some n) ret = Some ([Resume_network_mediator, Connectivity True], st1, False)"
  using assms by (auto simp: CC3100_NetAppEvtHdlr_def wifi_steps wifi_masks)

lemma wifi_address_acquired_example:
  "wifi_turn config_init \<lparr>ws_connection = wifi_connected, ws_ip = 0x30\<rparr> (Some 0x31) 0
     = Some ([Resume_network_mediator, Connectivity True],
             \<lparr>ws_connection = wifi_connected, ws_ip = 0x30\<rparr>, False)"
  using wifi_address_acquired [of SL_NETAPP_IPV4_IPACQUIRED_EVENT
      "\<lparr>ws_connection = wifi_connected, ws_ip = 0\<rparr>" "[Notify 0x31]"
      "\<lparr>ws_connection = wifi_connected, ws_ip = 0x30\<rparr>" config_init 0]
  by (simp add: CC3100_NetAppEvtHdlr_def wifi_masks Let_def)

text \<open>A configured Wi-Fi key as long as its array makes the connection attempt read past it.\<close>

lemma wifi_unterminated_key:
  assumes "nul \<notin> set (config_get_wifi_key c)" and "n AND wifi_connecting \<noteq> 0"
  shows "wifi_turn c st (Some n) ret = None"
  using assms by (simp add: wifi_turn_def wifi_connect_step_def c_strlen_def split: prod.splits)

lemma wifi_unterminated_key_sample:
  "wifi_turn (config_init\<lparr>wifi_key := replicate 32 CHR ''k''\<rparr>) \<lparr>ws_connection = 0, ws_ip = 0\<rparr> (Some 0x05) 0 = None"
  by (rule wifi_unterminated_key) (simp_all add: config_get_wifi_key_def)

end
