(* ===== verification/Sdmm.thy ===== *)
theory Sdmm
  imports Prelude
begin

text \<open>
  \<^verbatim>\<open>board/sdmm.c\<close>: the block driver of the SD card in SPI mode, the functions
  \<open>disk_initialize\<close>, \<open>disk_status\<close>, \<open>disk_read\<close>, \<open>disk_write\<close> and \<open>disk_ioctl\<close> that FatFs
  calls. The card and the bus are the argument \<open>card_api\<close>: clocking one byte in, sending bytes,
  driving the chip select and the card switch. Bus transfers are taken to succeed (the code ignores
  their result) and delays are left out. Every wait of the code counts down a number of attempts;
  the recursion is on that number.
\<close>

section \<open>The card and the driver's state\<close>

record 'c card_api =
  card_recv :: "'c \<Rightarrow> byte \<times> 'c"          \<comment> \<open>\<open>rcvr_mmc(&d, 1)\<close>\<close>
  card_xmit :: "byte list \<Rightarrow> 'c \<Rightarrow> 'c"     \<comment> \<open>\<open>xmit_mmc\<close>\<close>
  card_cs :: "bool \<Rightarrow> 'c \<Rightarrow> 'c"            \<comment> \<open>the level of chip select\<close>
  card_inserted :: "'c \<Rightarrow> bool"

datatype spi_mode = Spi_off | Spi_slow | Spi_fast

record 'c disk =
  dk_card :: 'c
  dk_Stat :: byte
  dk_CardType :: byte
  dk_spi :: spi_mode

abbreviation STA_NOINIT :: byte where "STA_NOINIT \<equiv> 0x01"
abbreviation STA_NODISK :: byte where "STA_NODISK \<equiv> 0x02"

datatype dresult = RES_OK | RES_ERROR | RES_WRPRT | RES_NOTRDY | RES_PARERR

abbreviation CMD0 :: byte where "CMD0 \<equiv> 0"
abbreviation CMD1 :: byte where "CMD1 \<equiv> 1"
abbreviation ACMD41 :: byte where "ACMD41 \<equiv> 0xA9"
abbreviation CMD8 :: byte where "CMD8 \<equiv> 8"
abbreviation CMD9 :: byte where "CMD9 \<equiv> 9"
abbreviation CMD12 :: byte where "CMD12 \<equiv> 12"
abbreviation CMD16 :: byte where "CMD16 \<equiv> 16"
abbreviation CMD17 :: byte where "CMD17 \<equiv> 17"
abbreviation CMD18 :: byte where "CMD18 \<equiv> 18"
abbreviation ACMD23 :: byte where "ACMD23 \<equiv> 0x97"
abbreviation CMD24 :: byte where "CMD24 \<equiv> 24"
abbreviation CMD25 :: byte where "CMD25 \<equiv> 25"
abbreviation CMD55 :: byte where "CMD55 \<equiv> 55"
abbreviation CMD58 :: byte where "CMD58 \<equiv> 58"

abbreviation CT_MMC3 :: byte where "CT_MMC3 \<equiv> 0x01"
abbreviation CT_SDC2 :: byte where "CT_SDC2 \<equiv> 0x08"
abbreviation CT_SDC :: byte where "CT_SDC \<equiv> 0x0C"
abbreviation CT_BLOCK :: byte where "CT_BLOCK \<equiv> 0x10"

section \<open>Bus functions\<close>

fun rcvr_mmc :: "'c card_api \<Rightarrow> nat \<Rightarrow> 'c \<Rightarrow> byte list \<times> 'c" where
  "rcvr_mmc api 0 c = ([], c)"
| "rcvr_mmc api (Suc n) c =
     (case card_recv api c of (d, c1) \<Rightarrow> (case rcvr_mmc api n c1 of (ds, c2) \<Rightarrow> (d # ds, c2)))"

fun wait_ready_for :: "'c card_api \<Rightarrow> nat \<Rightarrow> 'c \<Rightarrow> bool \<times> 'c" where
  "wait_ready_for api 0 c = (False, c)"
| "wait_ready_for api (Suc tmr) c =
     (case card_recv api c of
        (d, c1) \<Rightarrow> if d = 0xFF then (True, c1) else wait_ready_for api tmr c1)"

definition wait_ready :: "'c card_api \<Rightarrow> 'c \<Rightarrow> bool \<times> 'c" where
  "wait_ready api c = wait_ready_for api 5000 c"

definition deselect :: "'c card_api \<Rightarrow> 'c \<Rightarrow> 'c" where
  "deselect api c = snd (card_recv api (card_cs api True c))"

definition select :: "'c card_api \<Rightarrow> 'c \<Rightarrow> bool \<times> 'c" where
  "select api c =
    (let c1 = snd (card_recv api (card_cs api False c)) in
     case wait_ready api c1 of
       (True, c2) \<Rightarrow> (True, c2)
     | (False, c2) \<Rightarrow> (False, deselect api c2))"

fun wait_token :: "'c card_api \<Rightarrow> nat \<Rightarrow> 'c \<Rightarrow> byte \<times> 'c" where
  \<comment> \<open>the byte that ended the wait, 0xFF when the time is over\<close>
  "wait_token api 0 c = (0xFF, c)"
| "wait_token api (Suc tmr) c =
     (case card_recv api c of (d, c1) \<Rightarrow> if d \<noteq> 0xFF then (d, c1) else wait_token api tmr c1)"

definition rcvr_datablock :: "'c card_api \<Rightarrow> nat \<Rightarrow> 'c \<Rightarrow> byte list option \<times> 'c" where
  \<comment> \<open>the bytes stored in the buffer, if the data token came\<close>
  "rcvr_datablock api btr c =
    (case wait_token api 1000 c of
       (d, c1) \<Rightarrow>
         if d \<noteq> 0xFE then (None, c1)
         else
           (case rcvr_mmc api btr c1 of
              (buff, c2) \<Rightarrow> (Some buff, snd (rcvr_mmc api 2 c2))))"

definition xmit_datablock :: "'c card_api \<Rightarrow> byte list \<Rightarrow> byte \<Rightarrow> 'c \<Rightarrow> bool \<times> 'c" where
  \<comment> \<open>the first argument is the 512-byte block\<close>
  "xmit_datablock api buff token c =
    (case wait_ready api c of
       (False, c1) \<Rightarrow> (False, c1)
     | (True, c1) \<Rightarrow>
         let c2 = card_xmit api [token] c1 in
         if token \<noteq> 0xFD then
           (let c3 = card_xmit api buff c2;
                c4 = snd (rcvr_mmc api 2 c3) in
            case card_recv api c4 of (d, c5) \<Rightarrow> (d AND 0x1F = 0x05, c5))
         else (True, c2))"

definition cmd_packet :: "byte \<Rightarrow> u32 \<Rightarrow> byte list" where
  "cmd_packet cmd arg =
    [0x40 OR cmd, ucast (drop_bit 24 arg), ucast (drop_bit 16 arg), ucast (drop_bit 8 arg), ucast arg,
     if cmd = CMD8 then 0x87 else if cmd = CMD0 then 0x95 else 0x01]"

fun wait_response :: "'c card_api \<Rightarrow> nat \<Rightarrow> 'c \<Rightarrow> byte \<times> 'c" where
  \<comment> \<open>\<open>do rcvr_mmc(&d, 1); while ((d & 0x80) && --n)\<close>, with \<open>n\<close> the reads after the first\<close>
  "wait_response api 0 c = card_recv api c"
| "wait_response api (Suc n) c =
     (case card_recv api c of
        (d, c1) \<Rightarrow> if d AND 0x80 \<noteq> 0 then wait_response api n c1 else (d, c1))"

definition send_cmd_packet :: "'c card_api \<Rightarrow> byte \<Rightarrow> u32 \<Rightarrow> 'c \<Rightarrow> byte \<times> 'c" where
  \<comment> \<open>\<open>send_cmd\<close> for a command without bit 7\<close>
  "send_cmd_packet api cmd arg c =
    (case (if cmd \<noteq> CMD12 then select api (deselect api c) else (True, c)) of
       (False, c1) \<Rightarrow> (0xFF, c1)
     | (True, c1) \<Rightarrow>
         let c2 = card_xmit api (cmd_packet cmd arg) c1;
             c3 = (if cmd = CMD12 then snd (card_recv api c2) else c2) in
         wait_response api 9 c3)"

definition send_cmd :: "'c card_api \<Rightarrow> byte \<Rightarrow> u32 \<Rightarrow> 'c \<Rightarrow> byte \<times> 'c" where
  "send_cmd api cmd arg c =
    (if cmd AND 0x80 \<noteq> 0 then
       (case send_cmd_packet api CMD55 0 c of
          (n, c1) \<Rightarrow> if n > 1 then (n, c1) else send_cmd_packet api (cmd AND 0x7F) arg c1)
     else send_cmd_packet api cmd arg c)"

section \<open>Status and initialisation\<close>

definition disk_status :: "'c card_api \<Rightarrow> byte \<Rightarrow> 'c disk \<Rightarrow> byte \<times> 'c disk" where
  "disk_status api drv s =
    (let st1 = (if drv \<noteq> 0 then dk_Stat s OR STA_NOINIT else dk_Stat s);
         st2 = (if \<not> card_inserted api (dk_card s) then st1 OR STA_NODISK
                else st1 AND NOT STA_NODISK) in
     (st2, s\<lparr>dk_Stat := st2\<rparr>))"

definition disk_disable :: "'c card_api \<Rightarrow> 'c disk \<Rightarrow> byte \<times> 'c disk" where
  \<comment> \<open>\<open>BOARD_SD_Card_Disable\<close>, a delay and \<open>BOARD_SD_Card_Init\<close>\<close>
  "disk_disable api s = disk_status api 0 (s\<lparr>dk_spi := Spi_off\<rparr>)"

fun leave_idle :: "'c card_api \<Rightarrow> byte \<Rightarrow> u32 \<Rightarrow> nat \<Rightarrow> 'c \<Rightarrow> bool \<times> 'c" where
  \<comment> \<open>\<open>for (tmr = 1000; tmr; tmr--) if (send_cmd(cmd, arg) == 0) break\<close>\<close>
  "leave_idle api cmd arg 0 c = (False, c)"
| "leave_idle api cmd arg (Suc tmr) c =
     (case send_cmd api cmd arg c of
        (r, c1) \<Rightarrow> if r = 0 then (True, c1) else leave_idle api cmd arg tmr c1)"

definition init_sdv2 :: "'c card_api \<Rightarrow> 'c \<Rightarrow> byte \<times> 'c" where
  \<comment> \<open>after CMD8 was answered: the card type\<close>
  "init_sdv2 api c =
    (case rcvr_mmc api 4 c of
       (buf, c1) \<Rightarrow>
         if buf ! 2 = 0x01 \<and> buf ! 3 = 0xAA then
           (case leave_idle api ACMD41 (push_bit 30 1) 1000 c1 of
              (False, c2) \<Rightarrow> (0, c2)
            | (True, c2) \<Rightarrow>
                (case send_cmd api CMD58 0 c2 of
                   (r, c3) \<Rightarrow>
                     if r = 0 then
                       (case rcvr_mmc api 4 c3 of
                          (ocr, c4) \<Rightarrow>
                            (if ocr ! 0 AND 0x40 \<noteq> 0 then CT_SDC2 OR CT_BLOCK else CT_SDC2, c4))
                     else (0, c3)))
         else (0, c1))"

definition init_sdv1 :: "'c card_api \<Rightarrow> 'c \<Rightarrow> byte \<times> 'c" where
  \<comment> \<open>the branch for SDv1 and MMCv3\<close>
  "init_sdv1 api c =
    (case send_cmd api ACMD41 0 c of
       (r, c1) \<Rightarrow>
         let (ty, cmd) = (if r \<le> 1 then (CT_SDC2, ACMD41) else (CT_MMC3, CMD1)) in
         (case leave_idle api cmd 0 1000 c1 of
            (False, c2) \<Rightarrow> (0, c2)
          | (True, c2) \<Rightarrow>
              (case send_cmd api CMD16 512 c2 of
                 (r2, c3) \<Rightarrow> (if r2 \<noteq> 0 then 0 else ty, c3))))"

definition disk_initialize :: "'c card_api \<Rightarrow> byte \<Rightarrow> 'c disk \<Rightarrow> byte \<times> 'c disk" where
  "disk_initialize api drv s =
    (if drv \<noteq> 0 then (0x03, s)   \<comment> \<open>\<open>RES_NOTRDY\<close>\<close>
     else
       (case disk_status api drv s of
          (st, s1) \<Rightarrow>
            if st = 0 then (0, s1)
            else
              (let c0 = card_cs api True (card_cs api False (dk_card s1));
                   c1 = snd (rcvr_mmc api 10 c0);
                   (ty, c2) =
                     (case send_cmd api CMD0 0 c1 of
                        (r, c) \<Rightarrow>
                          if r = 1 then
                            (case send_cmd api CMD8 0x1AA c of
                               (r8, c') \<Rightarrow> if r8 = 1 then init_sdv2 api c' else init_sdv1 api c')
                          else (0, c));
                   st' = (if ty \<noteq> 0 then 0 else STA_NOINIT);
                   s2 = s1\<lparr>dk_card := deselect api c2, dk_CardType := ty, dk_Stat := st',
                           dk_spi := Spi_slow\<rparr>
               in if ty \<noteq> 0 then (st', s2\<lparr>dk_spi := Spi_fast\<rparr>) else disk_disable api s2)))"

section \<open>Reading and writing\<close>

definition block_arg :: "byte \<Rightarrow> u32 \<Rightarrow> u32" where
  \<comment> \<open>\<open>if (!(CardType & CT_BLOCK)) sect *= 512\<close>\<close>
  "block_arg ty sector = (if ty AND CT_BLOCK = 0 then sector * 512 else sector)"

function read_blocks :: "'c card_api \<Rightarrow> u32 \<Rightarrow> 'c \<Rightarrow> byte list \<times> u32 \<times> 'c" where
  \<comment> \<open>\<open>do { if (!rcvr_datablock(buff, 512)) break; buff += 512; } while (--count)\<close>: the bytes
     stored from \<open>buff\<close> on, and the final \<open>count\<close>\<close>
  "read_blocks api count c =
     (case rcvr_datablock api 512 c of
        (None, c1) \<Rightarrow> ([], count, c1)
      | (Some b, c1) \<Rightarrow>
          if count - 1 = 0 then (b, 0, c1)
          else (case read_blocks api (count - 1) c1 of (bs, n, c2) \<Rightarrow> (b @ bs, n, c2)))"
  by auto
termination
  by (relation "measure (\<lambda>(api, count, c). unat (count - 1))")
    (simp_all only: in_measure prod.case wf_measure, rule u32_count_down)

declare read_blocks.simps [simp del]

definition disk_read ::
  "'c card_api \<Rightarrow> byte \<Rightarrow> u32 \<Rightarrow> u32 \<Rightarrow> 'c disk \<Rightarrow> dresult \<times> byte list \<times> 'c disk" where
  \<comment> \<open>the status and the bytes stored from \<open>buff\<close> on\<close>
  "disk_read api drv sector count s =
    (case disk_status api drv s of
       (st, s1) \<Rightarrow>
         if st AND STA_NOINIT \<noteq> 0 then (RES_NOTRDY, [], s1)
         else
           (let sect = block_arg (dk_CardType s1) sector;
                cmd = (if count > 1 then CMD18 else CMD17);
                (r, c1) = send_cmd api cmd sect (dk_card s1);
                (bs, n, c2) =
                  (if r = 0 then
                     (case read_blocks api count c1 of
                        (bs, n, c) \<Rightarrow>
                          (bs, n, if cmd = CMD18 then snd (send_cmd api CMD12 0 c) else c))
                   else ([], count, c1))
            in (if n \<noteq> 0 then RES_ERROR else RES_OK, bs, s1\<lparr>dk_card := deselect api c2\<rparr>)))"

function write_blocks :: "'c card_api \<Rightarrow> byte list \<Rightarrow> u32 \<Rightarrow> 'c \<Rightarrow> u32 \<times> 'c" where
  \<comment> \<open>\<open>do { if (!xmit_datablock(buff, 0xFC)) break; buff += 512; } while (--count)\<close>\<close>
  "write_blocks api buff count c =
     (case xmit_datablock api (take 512 buff) 0xFC c of
        (False, c1) \<Rightarrow> (count, c1)
      | (True, c1) \<Rightarrow>
          if count - 1 = 0 then (0, c1) else write_blocks api (drop 512 buff) (count - 1) c1)"
  by auto
termination
  by (relation "measure (\<lambda>(api, buff, count, c). unat (count - 1))")
    (simp_all only: in_measure prod.case wf_measure, rule u32_count_down)

declare write_blocks.simps [simp del]

definition disk_write ::
  "'c card_api \<Rightarrow> byte \<Rightarrow> byte list \<Rightarrow> u32 \<Rightarrow> u32 \<Rightarrow> 'c disk \<Rightarrow> dresult \<times> 'c disk" where
  "disk_write api drv buff sector count s =
    (case disk_status api drv s of
       (st, s1) \<Rightarrow>
         if st AND STA_NOINIT \<noteq> 0 then (RES_NOTRDY, s1)
         else
           (let sect = block_arg (dk_CardType s1) sector;
                (n, c2) =
                  (if count = 1 then
                     (case send_cmd api CMD24 sect (dk_card s1) of
                        (r, c1) \<Rightarrow>
                          if r = 0 then
                            (case xmit_datablock api (take 512 buff) 0xFE c1 of
                               (ok, c) \<Rightarrow> (if ok then 0 else count, c))
                          else (count, c1))
                   else
                     (let c0 = (if dk_CardType s1 AND CT_SDC \<noteq> 0
                                then snd (send_cmd api ACMD23 count (dk_card s1)) else dk_card s1) in
                      case send_cmd api CMD25 sect c0 of
                        (r, c1) \<Rightarrow>
                          if r = 0 then
                            (case write_blocks api buff count c1 of
                               (m, c) \<Rightarrow>
                                 (case xmit_datablock api [] 0xFD c of
                                    (ok, c') \<Rightarrow> (if ok then m else 1, c')))
                          else (count, c1)))
            in (if n \<noteq> 0 then RES_ERROR else RES_OK, s1\<lparr>dk_card := deselect api c2\<rparr>)))"

section \<open>Control\<close>

datatype ioctl_cmd = CTRL_SYNC | GET_SECTOR_COUNT | GET_BLOCK_SIZE | CTRL_OTHER

definition csd_sectors :: "byte list \<Rightarrow> u32 option" where
  \<comment> \<open>the number of sectors from the CSD register; a negative shift is undefined\<close>
  "csd_sectors csd =
    (if drop_bit 6 (csd ! 0) = 1 then
       Some (push_bit 10 (ucast (csd ! 9) + push_bit 8 (ucast (csd ! 8)) +
               push_bit 16 (ucast (csd ! 7 AND 63)) + 1))
     else
       (let n = unat ((csd ! 5 AND 15) + drop_bit 7 (csd ! 10 AND 128) + push_bit 1 (csd ! 9 AND 3) + 2);
            cs = ucast (drop_bit 6 (csd ! 8)) + push_bit 2 (ucast (csd ! 7)) +
                 push_bit 10 (ucast (csd ! 6 AND 3)) + 1 :: u32
        in if 9 \<le> n then Some (push_bit (n - 9) cs) else None))"

definition disk_ioctl ::
  "'c card_api \<Rightarrow> byte \<Rightarrow> ioctl_cmd \<Rightarrow> 'c disk \<Rightarrow> (dresult \<times> u32 option \<times> 'c disk) option" where
  \<comment> \<open>the status and the number stored through \<open>buff\<close>\<close>
  "disk_ioctl api drv ctrl s =
    (case disk_status api drv s of
       (st, s1) \<Rightarrow>
         if st AND STA_NOINIT \<noteq> 0 then Some (RES_NOTRDY, None, s1)
         else
           do { (res, v, c1) \<leftarrow>
                  (case ctrl of
                     CTRL_SYNC \<Rightarrow>
                       (case select api (dk_card s1) of
                          (ok, c) \<Rightarrow> Some (if ok then RES_OK else RES_ERROR, None, c))
                   | GET_SECTOR_COUNT \<Rightarrow>
                       (case send_cmd api CMD9 0 (dk_card s1) of
                          (r, c) \<Rightarrow>
                            if r = 0 then
                              (case rcvr_datablock api 16 c of
                                 (None, c') \<Rightarrow> Some (RES_ERROR, None, c')
                               | (Some csd, c') \<Rightarrow>
                                   do { k \<leftarrow> csd_sectors csd; Some (RES_OK, Some k, c') })
                            else Some (RES_ERROR, None, c))
                   | GET_BLOCK_SIZE \<Rightarrow> Some (RES_OK, Some 128, dk_card s1)
                   | CTRL_OTHER \<Rightarrow> Some (RES_PARERR, None, dk_card s1));
                Some (res, v, s1\<lparr>dk_card := deselect api c1\<rparr>) })"

section \<open>Bus lemmas\<close>

lemma rcvr_mmc_length [simp]: "length (fst (rcvr_mmc api n c)) = n"
proof (induction n arbitrary: c)
  case 0
  then show ?case by simp
next
  case (Suc n)
  obtain d c1 where "card_recv api c = (d, c1)" by (cases "card_recv api c")
  with Suc [of c1] show ?case by (cases "rcvr_mmc api n c1") simp
qed

lemma rcvr_mmc_append:
  "rcvr_mmc api (m + n) c =
    (case rcvr_mmc api m c of (a, c1) \<Rightarrow> (case rcvr_mmc api n c1 of (b, c2) \<Rightarrow> (a @ b, c2)))"
  by (induction m arbitrary: c) (auto split: prod.splits)

lemma rcvr_datablock_length:
  "rcvr_datablock api n c = (Some b, c') \<Longrightarrow> length b = n"
  by (auto simp: rcvr_datablock_def split: prod.splits if_splits)
    (metis fst_conv rcvr_mmc_length)

text \<open>
  What a list of bytes that the card serves does to the waiting loops: \<open>serves api c bs c'\<close> says that
  clocking in as many bytes gives \<open>bs\<close> and leaves the card in \<open>c'\<close>.
\<close>

definition serves :: "'c card_api \<Rightarrow> 'c \<Rightarrow> byte list \<Rightarrow> 'c \<Rightarrow> bool" where
  "serves api c bs c' \<longleftrightarrow> rcvr_mmc api (length bs) c = (bs, c')"

lemma serves_Nil [simp]: "serves api c [] c' \<longleftrightarrow> c' = c"
  by (auto simp: serves_def)

lemma serves_Cons:
  "serves api c (b # bs) c' \<longleftrightarrow> (\<exists>c1. card_recv api c = (b, c1) \<and> serves api c1 bs c')"
  by (auto simp: serves_def split: prod.splits)

lemma serves_append:
  "serves api c (as @ bs) c' \<longleftrightarrow> (\<exists>c1. serves api c as c1 \<and> serves api c1 bs c')"
  by (induction as arbitrary: c) (auto simp: serves_Cons)

lemma wait_response_serves:
  "j \<le> n \<Longrightarrow> r AND 0x80 = 0 \<Longrightarrow> serves api c (replicate j 0xFF @ [r]) c' \<Longrightarrow>
   wait_response api n c = (r, c')"
proof (induction j arbitrary: n c)
  case 0
  then show ?case by (cases n) (auto simp: serves_Cons)
next
  case (Suc j)
  then obtain m where "n = Suc m" by (cases n) auto
  with Suc show ?case by (auto simp: serves_Cons)
qed

lemma wait_token_serves:
  "k < n \<Longrightarrow> t \<noteq> 0xFF \<Longrightarrow> serves api c (replicate k 0xFF @ [t]) c' \<Longrightarrow>
   wait_token api n c = (t, c')"
proof (induction k arbitrary: n c)
  case 0
  then show ?case by (cases n) (auto simp: serves_Cons)
next
  case (Suc k)
  then obtain m where "n = Suc m" by (cases n) auto
  with Suc show ?case by (auto simp: serves_Cons)
qed

lemma rcvr_datablock_serves:
  assumes "k < 1000" and "length b = n" and "length crc = 2"
    and "serves api c (replicate k 0xFF @ 0xFE # b @ crc) c'"
  shows "rcvr_datablock api n c = (Some b, c')"
proof -
  have "serves api c ((replicate k 0xFF @ [0xFE]) @ (b @ crc)) c'" using assms(4) by simp
  from iffD1 [OF serves_append this] obtain c1 where
    c1: "serves api c (replicate k 0xFF @ [0xFE]) c1" "serves api c1 (b @ crc) c'" by blast
  from iffD1 [OF serves_append c1(2)] obtain c2 where
    c2: "serves api c1 b c2" "serves api c2 crc c'" by blast
  have "wait_token api 1000 c = (0xFE, c1)"
    by (rule wait_token_serves [OF assms(1) _ c1(1)]) simp
  moreover have "rcvr_mmc api n c1 = (b, c2)" "rcvr_mmc api 2 c2 = (crc, c')"
    using c2 assms(2,3) by (simp_all only: serves_def)
  ultimately show ?thesis by (simp only: rcvr_datablock_def prod.case snd_conv) simp
qed

section \<open>The command packet\<close>

definition packet_arg :: "byte list \<Rightarrow> u32" where
  \<comment> \<open>the argument of a packet, as the card reads it\<close>
  "packet_arg p =
     (push_bit 24 (ucast (p ! 1)) OR push_bit 16 (ucast (p ! 2)) OR push_bit 8 (ucast (p ! 3)) OR
      ucast (p ! 4))"

lemma packet_arg_cmd: "packet_arg (cmd_packet cmd arg) = arg"
proof (rule bit_word_eqI)
  fix n
  assume "n < LENGTH(32)"
  then consider "n < 8" | "8 \<le> n \<and> n < 16" | "16 \<le> n \<and> n < 24" | "24 \<le> n \<and> n < 32"
    by force
  then show "bit (packet_arg (cmd_packet cmd arg)) n \<longleftrightarrow> bit arg n"
    by cases (auto simp: packet_arg_def cmd_packet_def bit_simps)
qed

section \<open>The block device contract\<close>

text \<open>
  What FatFs relies on: in a working state a read gives the contents of the sector and a write
  replaces them, and no other sector of the device changes.
\<close>

fun write_all ::
  "(byte list \<Rightarrow> u32 \<Rightarrow> 's \<Rightarrow> dresult \<times> 's) \<Rightarrow> (u32 \<times> byte list) list \<Rightarrow> 's \<Rightarrow> bool \<times> 's" where
  "write_all wr [] s = (True, s)"
| "write_all wr ((k, b) # ws) s =
     (case wr b k s of (r, s1) \<Rightarrow> (case write_all wr ws s1 of (t, s2) \<Rightarrow> (r = RES_OK \<and> t, s2)))"

locale block_device =
  fixes rd :: "u32 \<Rightarrow> 's \<Rightarrow> dresult \<times> byte list \<times> 's"
    and wr :: "byte list \<Rightarrow> u32 \<Rightarrow> 's \<Rightarrow> dresult \<times> 's"
    and ok :: "'s \<Rightarrow> bool"
    and contents :: "'s \<Rightarrow> u32 \<Rightarrow> byte list"
    and valid :: "u32 \<Rightarrow> bool"
  assumes rd_ok: "ok s \<Longrightarrow>
          \<exists>s'. rd k s = (RES_OK, contents s k, s') \<and> ok s' \<and> contents s' = contents s"
    and wr_ok: "ok s \<Longrightarrow> valid k \<Longrightarrow> length b = 512 \<Longrightarrow>
          \<exists>s'. wr b k s = (RES_OK, s') \<and> ok s' \<and>
            (\<forall>j. valid j \<longrightarrow> contents s' j = (if j = k then b else contents s j))"
begin

text \<open>After any sequence of writes, a sector holds the last block written to it.\<close>

lemma write_all_ok:
  "ok s \<Longrightarrow> \<forall>(k, b) \<in> set ws. valid k \<and> length b = 512 \<Longrightarrow>
   \<exists>s'. write_all wr ws s = (True, s') \<and> ok s' \<and>
     (\<forall>j. valid j \<longrightarrow> contents s' j =
        (case map_of (rev ws) j of Some b \<Rightarrow> b | None \<Rightarrow> contents s j))"
proof (induction ws arbitrary: s)
  case Nil
  then show ?case by simp
next
  case (Cons w ws)
  obtain k b where w: "w = (k, b)" by (cases w)
  have "valid k" "length b = 512" using Cons.prems(2) w by auto
  from wr_ok [OF Cons.prems(1) this] obtain s1 where s1: "wr b k s = (RES_OK, s1)" "ok s1"
      "\<forall>j. valid j \<longrightarrow> contents s1 j = (if j = k then b else contents s j)" by blast
  have "\<forall>(k, b) \<in> set ws. valid k \<and> length b = 512" using Cons.prems(2) by simp
  from Cons.IH [OF s1(2) this] obtain s' where s': "write_all wr ws s1 = (True, s')" "ok s'"
      "\<forall>j. valid j \<longrightarrow> contents s' j =
         (case map_of (rev ws) j of Some b \<Rightarrow> b | None \<Rightarrow> contents s1 j)" by blast
  with s1 w show ?case by (auto simp: map_add_def split: option.splits)
qed

lemma write_then_read:
  assumes "ok s" and "valid k" and "length b = 512"
  shows "\<exists>s1 s2. wr b k s = (RES_OK, s1) \<and> rd k s1 = (RES_OK, b, s2) \<and> ok s2"
  using wr_ok [OF assms] rd_ok assms(2) by metis

end

section \<open>A conforming card\<close>

text \<open>
  The part of the SD specification that reading and writing one block relies on. \<open>busy n c\<close>: the
  card in state \<open>c\<close> holds the line low for \<open>n\<close> more bytes, and is idle then; \<open>waits a c\<close>: it has
  accepted a write to the address \<open>a\<close> and waits for the data; \<open>mem c a\<close> is the block stored at the
  address \<open>a\<close>. A response comes after at most nine bytes, a data token in fewer than a thousand, and
  a write keeps the card busy for at most \<open>busy_max\<close> bytes, fewer than \<open>select\<close> waits for.
\<close>

locale sd_card =
  fixes api :: "'c card_api"
    and mem :: "'c \<Rightarrow> u32 \<Rightarrow> byte list"
    and busy :: "nat \<Rightarrow> 'c \<Rightarrow> bool"
    and waits :: "u32 \<Rightarrow> 'c \<Rightarrow> bool"
    and busy_max :: nat
  assumes present: "card_inserted api c"
    and recv_idle: "busy 0 c \<Longrightarrow> \<exists>c'. card_recv api c = (0xFF, c') \<and> busy 0 c' \<and> mem c' = mem c"
    and recv_busy: "busy (Suc n) c \<Longrightarrow>
          \<exists>d c'. card_recv api c = (d, c') \<and> d \<noteq> 0xFF \<and> busy n c' \<and> mem c' = mem c"
    and cs_busy: "busy n c \<Longrightarrow> busy n (card_cs api lv c) \<and> mem (card_cs api lv c) = mem c"
    and block_length: "busy n c \<Longrightarrow> length (mem c a) = 512"
    and read_cmd: "busy 0 c \<Longrightarrow>
          \<exists>j k crc c'. j \<le> 9 \<and> k < 1000 \<and> length crc = 2 \<and>
            serves api (card_xmit api (cmd_packet CMD17 a) c)
              (replicate j 0xFF @ 0x00 # replicate k 0xFF @ 0xFE # mem c a @ crc) c' \<and>
            busy 0 c' \<and> mem c' = mem c"
    and write_cmd: "busy 0 c \<Longrightarrow>
          \<exists>j c'. j \<le> 9 \<and>
            serves api (card_xmit api (cmd_packet CMD24 a) c) (replicate j 0xFF @ [0x00]) c' \<and>
            waits a c' \<and> mem c' = mem c"
    and recv_waits: "waits a c \<Longrightarrow>
          \<exists>c'. card_recv api c = (0xFF, c') \<and> waits a c' \<and> mem c' = mem c"
    and write_data: "waits a c \<Longrightarrow> length b = 512 \<Longrightarrow>
          \<exists>x y r n c'. serves api (card_xmit api b (card_xmit api [0xFE] c)) [x, y, r] c' \<and>
            r AND 0x1F = 0x05 \<and> n \<le> busy_max \<and> busy n c' \<and> mem c' = (mem c)(a := b)"
    and busy_bound: "busy_max < 5000"
begin

lemma recv_any:
  "busy n c \<Longrightarrow> \<exists>d c'. card_recv api c = (d, c') \<and> busy (n - 1) c' \<and> mem c' = mem c"
  using recv_idle recv_busy by (cases n) fastforce+

lemma wait_ready_busy:
  "busy n c \<Longrightarrow> n < tmr \<Longrightarrow>
   \<exists>c'. wait_ready_for api tmr c = (True, c') \<and> busy 0 c' \<and> mem c' = mem c"
proof (induction n arbitrary: c tmr)
  case 0
  then obtain t where "tmr = Suc t" by (cases tmr) auto
  with recv_idle [OF 0(1)] show ?case by auto
next
  case (Suc n)
  then obtain t where t: "tmr = Suc t" by (cases tmr) auto
  obtain d c1 where c1: "card_recv api c = (d, c1)" "d \<noteq> 0xFF" "busy n c1" "mem c1 = mem c"
    using recv_busy [OF Suc.prems(1)] by blast
  with Suc.IH [OF c1(3), of t] Suc.prems(2) t show ?case by auto
qed

lemma deselect_busy: "busy n c \<Longrightarrow> busy (n - 1) (deselect api c) \<and> mem (deselect api c) = mem c"
  using recv_any [of n "card_cs api True c"] cs_busy [of n c True] by (auto simp: deselect_def)

lemma select_busy:
  assumes "busy n c" and "n \<le> 5000"
  shows "\<exists>c'. select api c = (True, c') \<and> busy 0 c' \<and> mem c' = mem c"
proof -
  obtain d c1 where c1: "card_recv api (card_cs api False c) = (d, c1)" "busy (n - 1) c1"
      "mem c1 = mem c"
    using recv_any [of n "card_cs api False c"] cs_busy [OF assms(1), of False] by auto
  have "n - 1 < 5000" using assms(2) by simp
  from wait_ready_busy [OF c1(2) this] c1 show ?thesis
    by (auto simp: select_def wait_ready_def)
qed

lemma send_cmd_ready:
  assumes "busy n c" and "n \<le> 5000" and "cmd AND 0x80 = 0" and "cmd \<noteq> CMD12"
  shows "\<exists>c'. busy 0 c' \<and> mem c' = mem c \<and>
    send_cmd api cmd arg c = wait_response api 9 (card_xmit api (cmd_packet cmd arg) c')"
proof -
  have d: "busy (n - 1) (deselect api c)" "mem (deselect api c) = mem c"
    using deselect_busy [OF assms(1)] by simp_all
  have "n - 1 \<le> 5000" using assms(2) by simp
  with select_busy [OF d(1)] d(2)
  obtain c' where c': "select api (deselect api c) = (True, c')" "busy 0 c'" "mem c' = mem c"
    by metis
  then show ?thesis
    using assms(3,4) by (intro exI [of _ c']) (simp add: send_cmd_def send_cmd_packet_def)
qed

text \<open>Reading one block.\<close>

lemma disk_read_one:
  assumes "busy n (dk_card s)" and "n \<le> busy_max" and "dk_Stat s = 0"
  shows "\<exists>s'. disk_read api 0 sector 1 s =
      (RES_OK, mem (dk_card s) (block_arg (dk_CardType s) sector), s') \<and>
    busy 0 (dk_card s') \<and> mem (dk_card s') = mem (dk_card s) \<and> dk_Stat s' = 0 \<and>
    dk_CardType s' = dk_CardType s"
proof -
  let ?a = "block_arg (dk_CardType s) sector"
  have n: "n \<le> 5000" using assms(2) busy_bound by simp
  obtain c1 where c1: "busy 0 c1" "mem c1 = mem (dk_card s)"
      "send_cmd api CMD17 ?a (dk_card s)
        = wait_response api 9 (card_xmit api (cmd_packet CMD17 ?a) c1)"
    using send_cmd_ready [OF assms(1) n, of CMD17 ?a] by auto
  obtain j k crc c' where r: "j \<le> 9" "k < 1000" "length crc = 2"
      "serves api (card_xmit api (cmd_packet CMD17 ?a) c1)
         (replicate j 0xFF @ 0x00 # replicate k 0xFF @ 0xFE # mem c1 ?a @ crc) c'"
      "busy 0 c'" "mem c' = mem c1"
    using read_cmd [OF c1(1)] by blast
  have "serves api (card_xmit api (cmd_packet CMD17 ?a) c1)
      ((replicate j 0xFF @ [0x00]) @ (replicate k 0xFF @ 0xFE # mem c1 ?a @ crc)) c'"
    using r(4) by simp
  from iffD1 [OF serves_append this] obtain c2 where c2:
      "serves api (card_xmit api (cmd_packet CMD17 ?a) c1) (replicate j 0xFF @ [0x00]) c2"
      "serves api c2 (replicate k 0xFF @ 0xFE # mem c1 ?a @ crc) c'" by blast
  have "wait_response api 9 (card_xmit api (cmd_packet CMD17 ?a) c1) = (0, c2)"
    by (rule wait_response_serves [OF r(1) _ c2(1)]) simp
  then have cmd: "send_cmd api CMD17 ?a (dk_card s) = (0, c2)" using c1(3) by simp
  have data: "rcvr_datablock api 512 c2 = (Some (mem c1 ?a), c')"
    by (rule rcvr_datablock_serves [OF r(2) _ r(3) c2(2)]) (rule block_length [OF c1(1)])
  have "read_blocks api 1 c2 = (mem c1 ?a, 0, c')"
    by (subst read_blocks.simps) (simp add: data)
  with cmd show ?thesis
    using assms(3) present deselect_busy [OF r(5)] r(6) c1(2)
    by (simp add: disk_read_def disk_status_def)
qed

text \<open>Writing one block.\<close>

lemma disk_write_one:
  assumes "busy n (dk_card s)" and "n \<le> busy_max" and "dk_Stat s = 0" and "length buff = 512"
  shows "\<exists>s' m. disk_write api 0 buff sector 1 s = (RES_OK, s') \<and> m \<le> busy_max \<and>
    busy m (dk_card s') \<and>
    mem (dk_card s') = (mem (dk_card s))(block_arg (dk_CardType s) sector := buff) \<and>
    dk_Stat s' = 0 \<and> dk_CardType s' = dk_CardType s"
proof -
  let ?a = "block_arg (dk_CardType s) sector"
  have n: "n \<le> 5000" using assms(2) busy_bound by simp
  obtain c1 where c1: "busy 0 c1" "mem c1 = mem (dk_card s)"
      "send_cmd api CMD24 ?a (dk_card s)
        = wait_response api 9 (card_xmit api (cmd_packet CMD24 ?a) c1)"
    using send_cmd_ready [OF assms(1) n, of CMD24 ?a] by auto
  obtain j c2 where c2: "j \<le> 9"
      "serves api (card_xmit api (cmd_packet CMD24 ?a) c1) (replicate j 0xFF @ [0x00]) c2"
      "waits ?a c2" "mem c2 = mem c1"
    using write_cmd [OF c1(1)] by blast
  have cmd: "send_cmd api CMD24 ?a (dk_card s) = (0, c2)"
    unfolding c1(3) by (rule wait_response_serves [OF c2(1) _ c2(2)]) simp
  obtain c3 where c3: "card_recv api c2 = (0xFF, c3)" "waits ?a c3" "mem c3 = mem c2"
    using recv_waits [OF c2(3)] by blast
  have ready: "wait_ready api c2 = (True, c3)"
    using c3(1) by (simp add: wait_ready_def numeral_eq_Suc)
  obtain x y r m c4 where c4:
      "serves api (card_xmit api buff (card_xmit api [0xFE] c3)) [x, y, r] c4"
      "r AND 0x1F = 0x05" "m \<le> busy_max" "busy m c4" "mem c4 = (mem c3)(?a := buff)"
    using write_data [OF c3(2) assms(4)] by blast
  have "xmit_datablock api buff 0xFE c2 = (True, c4)"
    using c4(1,2) ready by (auto simp: xmit_datablock_def serves_Cons numeral_2_eq_2)
  with cmd show ?thesis
    using assms(3,4) present deselect_busy [OF c4(4)] c4(3,5) c3(3) c2(4) c1(2)
    by (intro exI [of _ "s\<lparr>dk_Stat := 0, dk_card := deselect api c4\<rparr>"] exI [of _ "m - 1"])
      (auto simp: disk_write_def disk_status_def)
qed

end

text \<open>A sector number fits a byte address on the cards that are addressed by bytes.\<close>

definition sector_valid :: "byte \<Rightarrow> u32 \<Rightarrow> bool" where
  "sector_valid ty k \<longleftrightarrow> ty AND CT_BLOCK \<noteq> 0 \<or> k < 2 ^ 23"

lemma block_arg_inj:
  assumes "sector_valid ty j" and "sector_valid ty k" and "block_arg ty j = block_arg ty k"
  shows "j = k"
proof (cases "ty AND CT_BLOCK = 0")
  case True
  have "unat (j * 512) = unat j * 512" "unat (k * 512) = unat k * 512"
    using assms(1,2) True
    by (simp_all add: sector_valid_def unat_mult_lem [THEN iffD1] word_less_nat_alt)
  then show ?thesis using assms(3) True by (simp add: block_arg_def word_unat_eq_iff)
next
  case False
  with assms(3) show ?thesis by (simp add: block_arg_def)
qed

definition disk_ok :: "(nat \<Rightarrow> 'c \<Rightarrow> bool) \<Rightarrow> nat \<Rightarrow> byte \<Rightarrow> 'c disk \<Rightarrow> bool" where
  "disk_ok busy busy_max ty s \<longleftrightarrow>
     dk_Stat s = 0 \<and> dk_CardType s = ty \<and> (\<exists>n \<le> busy_max. busy n (dk_card s))"

definition disk_contents :: "('c \<Rightarrow> u32 \<Rightarrow> byte list) \<Rightarrow> 'c disk \<Rightarrow> u32 \<Rightarrow> byte list" where
  "disk_contents mem s k = mem (dk_card s) (block_arg (dk_CardType s) k)"

sublocale sd_card \<subseteq> blk: block_device "\<lambda>k. disk_read api 0 k 1" "\<lambda>b k. disk_write api 0 b k 1"
    "disk_ok busy busy_max ty" "disk_contents mem" "sector_valid ty" for ty
proof unfold_locales
  fix s k
  assume "disk_ok busy busy_max ty s"
  then obtain n where n: "busy n (dk_card s)" "n \<le> busy_max" "dk_Stat s = 0" "dk_CardType s = ty"
    by (auto simp: disk_ok_def)
  from disk_read_one [OF n(1-3), of k]
  show "\<exists>s'. disk_read api 0 k 1 s = (RES_OK, disk_contents mem s k, s') \<and>
      disk_ok busy busy_max ty s' \<and> disk_contents mem s' = disk_contents mem s"
    using n(4) by (fastforce simp: disk_ok_def disk_contents_def fun_eq_iff)
next
  fix s k and b :: "byte list"
  assume ok: "disk_ok busy busy_max ty s" and k: "sector_valid ty k" and b: "length b = 512"
  from ok obtain n where n: "busy n (dk_card s)" "n \<le> busy_max" "dk_Stat s = 0" "dk_CardType s = ty"
    by (auto simp: disk_ok_def)
  from disk_write_one [OF n(1-3) b, of k] obtain s' m where
    s': "disk_write api 0 b k 1 s = (RES_OK, s')" "m \<le> busy_max" "busy m (dk_card s')"
      "mem (dk_card s') = (mem (dk_card s))(block_arg (dk_CardType s) k := b)"
      "dk_Stat s' = 0" "dk_CardType s' = dk_CardType s" by blast
  then show "\<exists>s'. disk_write api 0 b k 1 s = (RES_OK, s') \<and> disk_ok busy busy_max ty s' \<and>
      (\<forall>j. sector_valid ty j \<longrightarrow>
         disk_contents mem s' j = (if j = k then b else disk_contents mem s j))"
    using n(4) k block_arg_inj by (intro exI [of _ s']) (auto simp: disk_ok_def disk_contents_def)
qed

context sd_card begin

lemma device: "block_device (\<lambda>k. disk_read api 0 k 1) (\<lambda>b k. disk_write api 0 b k 1)
    (disk_ok busy busy_max ty) (disk_contents mem) (sector_valid ty)"
  by (rule blk.block_device_axioms)

end

section \<open>A simulated card\<close>

text \<open>A block-addressed card that answers at once and is busy for two bytes after a write.\<close>

datatype sim_phase = Sim_idle | Sim_wait u32 | Sim_data u32
  | Sim_stream u32   \<comment> \<open>reading many blocks\<close>
  | Sim_waits u32    \<comment> \<open>writing many blocks\<close>
  | Sim_block u32

record sim_card =
  sim_out :: "byte list"
  sim_phase :: sim_phase
  sim_mem :: "u32 \<Rightarrow> byte list"

definition sim_recv :: "sim_card \<Rightarrow> byte \<times> sim_card" where
  "sim_recv c =
    (case sim_out c of
       [] \<Rightarrow>
         (0xFF,
          case sim_phase c of
            Sim_stream a \<Rightarrow> c\<lparr>sim_phase := Sim_stream (a + 1), sim_out := 0xFE # sim_mem c a @ [0, 0]\<rparr>
          | _ \<Rightarrow> c)
     | x # xs \<Rightarrow> (x, c\<lparr>sim_out := xs\<rparr>))"

definition sim_command :: "byte list \<Rightarrow> sim_card \<Rightarrow> sim_card" where
  "sim_command p c =
    (let a = packet_arg p in
     if p ! 0 = 0x40 then c\<lparr>sim_out := [0x01]\<rparr>
     else if p ! 0 = 0x48 then c\<lparr>sim_out := [0x01, 0, 0, 0x01, 0xAA]\<rparr>
     else if p ! 0 = 0x77 then c\<lparr>sim_out := [0x01]\<rparr>
     else if p ! 0 = 0x69 then c\<lparr>sim_out := [0x00]\<rparr>
     else if p ! 0 = 0x7A then c\<lparr>sim_out := [0x00, 0x40, 0, 0, 0]\<rparr>
     else if p ! 0 = 0x51 then c\<lparr>sim_out := [0x00, 0xFE] @ sim_mem c a @ [0, 0]\<rparr>
     else if p ! 0 = 0x58 then c\<lparr>sim_out := [0x00], sim_phase := Sim_wait a\<rparr>
     else if p ! 0 = 0x57 then c\<lparr>sim_out := [0x00]\<rparr>
     else if p ! 0 = 0x52 then c\<lparr>sim_out := [0x00], sim_phase := Sim_stream a\<rparr>
     else if p ! 0 = 0x59 then c\<lparr>sim_out := [0x00], sim_phase := Sim_waits a\<rparr>
     else c\<lparr>sim_out := [0x04]\<rparr>)"

definition sim_xmit :: "byte list \<Rightarrow> sim_card \<Rightarrow> sim_card" where
  "sim_xmit bs c =
    (case sim_phase c of
       Sim_idle \<Rightarrow> sim_command bs c
     | Sim_wait a \<Rightarrow> if bs = [0xFE] then c\<lparr>sim_phase := Sim_data a\<rparr> else c
     | Sim_data a \<Rightarrow> c\<lparr>sim_phase := Sim_idle, sim_mem := (sim_mem c)(a := bs),
                        sim_out := [0xFF, 0xFF, 0xE5, 0, 0]\<rparr>
     | Sim_stream a \<Rightarrow> if bs ! 0 = 0x4C then c\<lparr>sim_phase := Sim_idle, sim_out := [0xFF, 0x00]\<rparr> else c
     | Sim_waits a \<Rightarrow>
         if bs = [0xFC] then c\<lparr>sim_phase := Sim_block a\<rparr>
         else if bs = [0xFD] then c\<lparr>sim_phase := Sim_idle, sim_out := [0, 0]\<rparr> else c
     | Sim_block a \<Rightarrow> c\<lparr>sim_phase := Sim_waits (a + 1), sim_mem := (sim_mem c)(a := bs),
                         sim_out := [0xFF, 0xFF, 0xE5, 0, 0]\<rparr>)"

definition sim_api :: "sim_card card_api" where
  "sim_api = \<lparr>card_recv = sim_recv, card_xmit = sim_xmit, card_cs = (\<lambda>b c. c),
              card_inserted = (\<lambda>c. True)\<rparr>"

definition sim_busy :: "nat \<Rightarrow> sim_card \<Rightarrow> bool" where
  "sim_busy n c \<longleftrightarrow> sim_phase c = Sim_idle \<and> sim_out c = replicate n 0 \<and> (\<forall>a. length (sim_mem c a) = 512)"

definition sim_waits :: "u32 \<Rightarrow> sim_card \<Rightarrow> bool" where
  "sim_waits a c \<longleftrightarrow> sim_phase c = Sim_wait a \<and> sim_out c = [] \<and> (\<forall>a. length (sim_mem c a) = 512)"

lemma sim_serves: "sim_out c = bs \<Longrightarrow> serves sim_api c bs (c\<lparr>sim_out := []\<rparr>)"
proof (induction bs arbitrary: c)
  case Nil
  then show ?case by simp
next
  case (Cons b bs)
  have "serves sim_api (c\<lparr>sim_out := bs\<rparr>) bs (c\<lparr>sim_out := bs\<rparr>\<lparr>sim_out := []\<rparr>)"
    by (rule Cons.IH) simp
  with Cons.prems show ?case by (simp add: serves_Cons sim_api_def sim_recv_def)
qed

lemma sim_cmd17:
  "sim_phase c = Sim_idle \<Longrightarrow> card_xmit sim_api (cmd_packet CMD17 a) c
     = c\<lparr>sim_out := [0x00, 0xFE] @ sim_mem c a @ [0, 0]\<rparr>"
  using packet_arg_cmd [of CMD17 a]
  by (simp add: sim_api_def sim_xmit_def sim_command_def Let_def) (simp add: cmd_packet_def)

lemma sim_cmd24:
  "sim_phase c = Sim_idle \<Longrightarrow> card_xmit sim_api (cmd_packet CMD24 a) c
     = c\<lparr>sim_out := [0x00], sim_phase := Sim_wait a\<rparr>"
  using packet_arg_cmd [of CMD24 a]
  by (simp add: sim_api_def sim_xmit_def sim_command_def Let_def) (simp add: cmd_packet_def)

interpretation sim: sd_card sim_api sim_mem sim_busy sim_waits 2
proof unfold_locales
  fix c a assume c: "sim_busy 0 c"
  let ?c = "card_xmit sim_api (cmd_packet CMD17 a) c"
  have "serves sim_api ?c ([0x00, 0xFE] @ sim_mem c a @ [0, 0]) (?c\<lparr>sim_out := []\<rparr>)"
    using c by (intro sim_serves) (simp add: sim_cmd17 sim_busy_def)
  then show "\<exists>j k crc c'. j \<le> 9 \<and> k < 1000 \<and> length crc = 2 \<and>
      serves sim_api ?c (replicate j 0xFF @ 0x00 # replicate k 0xFF @ 0xFE # sim_mem c a @ crc) c' \<and>
      sim_busy 0 c' \<and> sim_mem c' = sim_mem c"
    using c
    by (intro exI [of _ 0] exI [of _ "[0, 0]"] exI [of _ "?c\<lparr>sim_out := []\<rparr>"])
      (simp add: sim_cmd17 sim_busy_def)
next
  fix c a assume c: "sim_busy 0 c"
  let ?c = "card_xmit sim_api (cmd_packet CMD24 a) c"
  have "serves sim_api ?c [0x00] (?c\<lparr>sim_out := []\<rparr>)"
    using c by (intro sim_serves) (simp add: sim_cmd24 sim_busy_def)
  then show "\<exists>j c'. j \<le> 9 \<and> serves sim_api ?c (replicate j 0xFF @ [0x00]) c' \<and>
      sim_waits a c' \<and> sim_mem c' = sim_mem c"
    using c
    by (intro exI [of _ 0] exI [of _ "?c\<lparr>sim_out := []\<rparr>"])
      (simp add: sim_cmd24 sim_busy_def sim_waits_def)
next
  fix c a and b :: "byte list"
  assume c: "sim_waits a c" and b: "length b = 512"
  let ?d = "c\<lparr>sim_phase := Sim_idle, sim_mem := (sim_mem c)(a := b), sim_out := [0, 0]\<rparr>"
  have d: "serves sim_api (card_xmit sim_api b (card_xmit sim_api [0xFE] c)) [0xFF, 0xFF, 0xE5] ?d"
      "sim_busy 2 ?d" "sim_mem ?d = (sim_mem c)(a := b)"
    using c b
    by (simp_all add: sim_waits_def sim_busy_def sim_api_def sim_xmit_def serves_Cons sim_recv_def
        numeral_2_eq_2)
  show "\<exists>x y r n c'. serves sim_api (card_xmit sim_api b (card_xmit sim_api [0xFE] c)) [x, y, r] c' \<and>
      r AND 0x1F = 0x05 \<and> n \<le> 2 \<and> sim_busy n c' \<and> sim_mem c' = (sim_mem c)(a := b)"
    by (rule exI [of _ "0xFF"], rule exI [of _ "0xFF"], rule exI [of _ "0xE5"], rule exI [of _ 2],
        rule exI [of _ ?d]) (use d in simp)
qed (auto simp: sim_api_def sim_recv_def sim_busy_def sim_waits_def)

lemma read_blocks_length:
  "read_blocks api count c = (bs, n, c') \<Longrightarrow> count \<noteq> 0 \<Longrightarrow>
   length bs + 512 * unat n = 512 * unat count"
proof (induction api count c arbitrary: bs n c' rule: read_blocks.induct)
  case (1 api count c)
  obtain b c1 where b: "rcvr_datablock api 512 c = (b, c1)" by (cases "rcvr_datablock api 512 c")
  show ?case
  proof (cases b)
    case None
    with 1 b show ?thesis by (subst (asm) (2) read_blocks.simps) simp
  next
    case (Some d)
    have len: "length d = 512" using b Some by (simp add: rcvr_datablock_length)
    show ?thesis
    proof (cases "count - 1 = 0")
      case True
      then have "count = 1" by simp
      with 1(2) b Some len show ?thesis by (subst (asm) read_blocks.simps) simp
    next
      case False
      obtain bs' c2 where rec: "read_blocks api (count - 1) c1 = (bs', n, c2)" and bs: "bs = d @ bs'"
        using 1(2) b Some False by (subst (asm) read_blocks.simps) (auto split: prod.splits)
      have "length bs' + 512 * unat n = 512 * unat (count - 1)"
        using 1(1) [OF b [symmetric] Some False rec False] .
      moreover have "unat (count - 1) = unat count - 1" "0 < unat count"
        using 1(3) by (simp_all add: unat_minus_one unat_gt_0)
      ultimately show ?thesis using bs len by simp
    qed
  qed
qed

lemma init_types:
  "fst (init_sdv2 api c) \<in> {0, CT_SDC2, CT_SDC2 OR CT_BLOCK}"
  "fst (init_sdv1 api c) \<in> {0, CT_SDC2, CT_MMC3}"
  by (auto simp: init_sdv2_def init_sdv1_def Let_def split: prod.splits bool.splits if_splits)

section \<open>Properties\<close>

text \<open>C1: on a card that conforms to the SD specification, every sequence of single-block writes
  succeeds, and afterwards each sector reads back the last block written to it, or what it held
  before; the timeouts of the driver suffice for the card's documented delays.\<close>

theorem sd_writes_then_read:
  assumes "sd_card api mem busy waits busy_max" and "disk_ok busy busy_max ty s"
    and "\<forall>(k, b) \<in> set ws. sector_valid ty k \<and> length b = 512" and "sector_valid ty j"
  shows "\<exists>s1 s2. write_all (\<lambda>b k. disk_write api 0 b k 1) ws s = (True, s1) \<and>
    disk_read api 0 j 1 s1 =
      (RES_OK, case map_of (rev ws) j of Some b \<Rightarrow> b | None \<Rightarrow> disk_contents mem s j, s2) \<and>
    disk_ok busy busy_max ty s2"
proof -
  note dev = sd_card.device [OF assms(1), of ty]
  obtain s1 where s1: "write_all (\<lambda>b k. disk_write api 0 b k 1) ws s = (True, s1)"
      "disk_ok busy busy_max ty s1"
      "\<forall>j. sector_valid ty j \<longrightarrow> disk_contents mem s1 j =
         (case map_of (rev ws) j of Some b \<Rightarrow> b | None \<Rightarrow> disk_contents mem s j)"
    using block_device.write_all_ok [OF dev assms(2,3)] by blast
  with block_device.rd_ok [OF dev s1(2), of j] assms(4) show ?thesis by auto
qed

theorem sd_writes_then_read_witness:
  "\<exists>s1 s2. write_all (\<lambda>b k. disk_write sim_api 0 b k 1)
      [(3, replicate 512 1), (5, replicate 512 2), (3, replicate 512 7)]
      \<lparr>dk_card = \<lparr>sim_out = [], sim_phase = Sim_idle, sim_mem = (\<lambda>a. replicate 512 0)\<rparr>, dk_Stat = 0,
       dk_CardType = 0x18, dk_spi = Spi_fast\<rparr> = (True, s1) \<and>
    disk_read sim_api 0 3 1 s1 = (RES_OK, replicate 512 7, s2)"
  using sd_writes_then_read [OF sim.sd_card_axioms, of "0x18"
      "\<lparr>dk_card = \<lparr>sim_out = [], sim_phase = Sim_idle, sim_mem = (\<lambda>a. replicate 512 0)\<rparr>, dk_Stat = 0,
       dk_CardType = 0x18, dk_spi = Spi_fast\<rparr>"
      "[(3, replicate 512 1), (5, replicate 512 2), (3, replicate 512 7)]" 3]
  by (fastforce simp: disk_ok_def sim_busy_def sector_valid_def)

text \<open>C35: a read never stores more than the blocks asked for: 512 bytes for each block received, all of
  them exactly when it answers \<open>RES_OK\<close>; unless the disk was not initialised, the last thing it does to
  the card is to deselect it.\<close>

theorem disk_read_bounds:
  assumes "disk_read api drv sector count s = (r, bs, s')" and "count \<noteq> 0"
  shows "length bs \<le> 512 * unat count \<and> (r = RES_OK \<longleftrightarrow> length bs = 512 * unat count) \<and>
    r \<in> {RES_OK, RES_ERROR, RES_NOTRDY} \<and> (r = RES_NOTRDY \<or> (\<exists>c. dk_card s' = deselect api c))"
proof -
  have c: "0 < unat count" using assms(2) by (simp add: unat_gt_0)
  obtain st s1 where st: "disk_status api drv s = (st, s1)" by (cases "disk_status api drv s")
  show ?thesis
  proof (cases "st AND STA_NOINIT \<noteq> 0")
    case True
    with assms(1) st c show ?thesis by (auto simp: disk_read_def)
  next
    case False
    obtain q c1 where q: "send_cmd api (if count > 1 then CMD18 else CMD17)
        (block_arg (dk_CardType s1) sector) (dk_card s1) = (q, c1)" by fastforce
    show ?thesis
    proof (cases "q = 0")
      case False
      with assms st q \<open>\<not> st AND STA_NOINIT \<noteq> 0\<close> c show ?thesis
        by (auto simp: disk_read_def Let_def)
    next
      case True
      obtain bs' n c2 where rd: "read_blocks api count c1 = (bs', n, c2)"
        by (cases "read_blocks api count c1")
      note len = read_blocks_length [OF rd assms(2)]
      have r: "bs = bs'" "r = (if n \<noteq> 0 then RES_ERROR else RES_OK)" "\<exists>c. dk_card s' = deselect api c"
        using assms(1) st q True rd False by (auto simp: disk_read_def Let_def split: if_splits)
      have "n = 0 \<longleftrightarrow> unat n = 0" by (simp add: unat_eq_0)
      with r len show ?thesis by auto
    qed
  qed
qed

theorem disk_read_bounds_witness:
  "\<exists>r bs s'. disk_read sim_api 0 9 2
      \<lparr>dk_card = \<lparr>sim_out = [], sim_phase = Sim_idle, sim_mem = (\<lambda>a. [])\<rparr>, dk_Stat = 0,
       dk_CardType = 0x18, dk_spi = Spi_fast\<rparr> = (r, bs, s') \<and> length bs \<le> 1024"
proof -
  obtain r bs s' where "disk_read sim_api 0 9 2
      \<lparr>dk_card = \<lparr>sim_out = [], sim_phase = Sim_idle, sim_mem = (\<lambda>a. [])\<rparr>, dk_Stat = 0,
       dk_CardType = 0x18, dk_spi = Spi_fast\<rparr> = (r, bs, s')" by (metis surj_pair)
  with disk_read_bounds [OF this] show ?thesis by simp
qed

text \<open>The six bytes of a command carry the command number, and its argument most significant byte
  first, so that the card reads back the argument sent.\<close>

lemma cmd_packet_arg:
  "length (cmd_packet cmd arg) = 6 \<and> packet_arg (cmd_packet cmd arg) = arg \<and>
   cmd_packet cmd arg ! 0 AND 0x3F = cmd AND 0x3F"
  using packet_arg_cmd [of cmd arg] by (simp add: cmd_packet_def bit.conj_disj_distrib2)

text \<open>The number of sectors computed from a version 2 CSD is (C_SIZE + 1) times 1024, for every
  C_SIZE but the largest, where it wraps to zero.\<close>

lemma csd_v2_sectors:
  assumes "drop_bit 6 (csd ! 0) = 1"
  shows "csd_sectors csd = Some (word_of_nat ((unat (csd ! 9) + 256 * unat (csd ! 8) +
      65536 * (unat (csd ! 7) mod 64) + 1) * 1024))"
proof -
  have t: "csd ! 7 AND 63 = take_bit 6 (csd ! 7)" by (simp add: take_bit_eq_mask mask_eq_exp_minus_1)
  have m: "unat (csd ! 7 AND 63) = unat (csd ! 7) mod 64"
    unfolding t unsigned_take_bit_eq by (simp add: take_bit_eq_mod)
  have u: "ucast w = (word_of_nat (unat w) :: u32)" for w :: byte by (simp add: unsigned_of_nat)
  have c: "ucast (csd ! 7 AND 63) = (word_of_nat (unat (csd ! 7) mod 64) :: u32)" by (simp only: u m)
  have "word_of_nat ((unat (csd ! 9) + 256 * unat (csd ! 8) + 65536 * (unat (csd ! 7) mod 64) + 1) * 1024)
      = (ucast (csd ! 9) + 256 * ucast (csd ! 8) + 65536 * ucast (csd ! 7 AND 63) + 1) * (1024 :: u32)"
    unfolding c by (simp only: u of_nat_mult of_nat_add of_nat_numeral of_nat_1)
  moreover have "push_bit 10 (x + push_bit 8 y + push_bit 16 z + 1)
      = (x + 256 * y + 65536 * z + 1) * 1024" for x y z :: u32
    by (simp add: push_bit_eq_mult algebra_simps)
  ultimately show ?thesis
    using assms by (simp only: csd_sectors_def simp_thms if_True)
qed

lemma csd_v2_sectors_example:
  "csd_sectors [0x40, 0, 0, 0, 0, 0, 0, 0, 0x3B, 0x37, 0, 0, 0, 0, 0, 0] = Some 15523840"
  by (subst csd_v2_sectors) simp_all

text \<open>C34: an initialisation that is carried out leaves the drive usable exactly when a card type was
  found; otherwise the drive reports that it is not initialised and the bus is off. The type of an
  SD version 1 card is never recorded.\<close>

theorem disk_initialize_result:
  assumes "disk_initialize api 0 s = (r, s')" and "fst (disk_status api 0 s) \<noteq> 0"
  shows "(if dk_CardType s' \<noteq> 0 then r = 0 \<and> dk_Stat s' = 0 \<and> dk_spi s' = Spi_fast
          else r AND STA_NOINIT \<noteq> 0 \<and> dk_Stat s' = r \<and> dk_spi s' = Spi_off) \<and>
    dk_CardType s' \<in> {0, CT_MMC3, CT_SDC2, CT_SDC2 OR CT_BLOCK}"
proof -
  obtain st s1 where st: "disk_status api 0 s = (st, s1)" by (cases "disk_status api 0 s")
  let ?c1 = "snd (rcvr_mmc api 10 (card_cs api True (card_cs api False (dk_card s1))))"
  let ?X = "case send_cmd api CMD0 0 ?c1 of
      (r, c) \<Rightarrow> if r = 1 then
          (case send_cmd api CMD8 0x1AA c of
             (r8, c') \<Rightarrow> if r8 = 1 then init_sdv2 api c' else init_sdv1 api c')
        else (0, c)"
  obtain ty c2 where ty: "?X = (ty, c2)" by (cases ?X)
  have types: "ty \<in> {0, CT_MMC3, CT_SDC2, CT_SDC2 OR CT_BLOCK}"
  proof (cases "send_cmd api CMD0 0 ?c1")
    case (Pair q c)
    obtain q8 c' where q8: "send_cmd api CMD8 0x1AA c = (q8, c')" by (metis surj_pair)
    show ?thesis
    proof (cases "q = 1")
      case True
      with ty Pair q8 have "(if q8 = 1 then init_sdv2 api c' else init_sdv1 api c') = (ty, c2)" by simp
      then show ?thesis using init_types [of api c'] by (cases "q8 = 1") auto
    next
      case False
      with ty Pair show ?thesis by simp
    qed
  qed
  show ?thesis
    using assms st ty types
    by (auto simp: disk_initialize_def disk_disable_def disk_status_def Let_def split: if_splits)
qed

theorem disk_initialize_result_witness:
  "dk_CardType (snd (disk_initialize sim_api 0
     \<lparr>dk_card = \<lparr>sim_out = [], sim_phase = Sim_idle, sim_mem = (\<lambda>a. [])\<rparr>, dk_Stat = STA_NOINIT,
      dk_CardType = 0, dk_spi = Spi_off\<rparr>)) \<in> {0, CT_MMC3, CT_SDC2, CT_SDC2 OR CT_BLOCK}"
proof -
  let ?s = "\<lparr>dk_card = \<lparr>sim_out = [], sim_phase = Sim_idle, sim_mem = (\<lambda>a. [])\<rparr>,
      dk_Stat = STA_NOINIT, dk_CardType = 0, dk_spi = Spi_off\<rparr>"
  obtain r s' where rs: "disk_initialize sim_api 0 ?s = (r, s')" by (metis surj_pair)
  have "fst (disk_status sim_api 0 ?s) \<noteq> 0" by (simp add: disk_status_def sim_api_def)
  from disk_initialize_result [OF rs this] rs show ?thesis by simp
qed

end
