(* ===== verification/Memtrace.thy ===== *)
theory Memtrace
  imports Prelude
begin

text \<open>
  The tracing allocator of \<^verbatim>\<open>c/legacy/src/lwm2m/memtrace.c\<close>, compiled with
  \<^verbatim>\<open>LWM2M_MEMORY_TRACE\<close>: it keeps a list of the live blocks and a list of the last blocks that
  were freed, and reports leaks, wrong frees and double frees.

  libc's allocator is an argument: the outcome of the \<open>malloc\<close> of a call, \<open>None\<close> for \<open>NULL\<close>,
  otherwise the address of the block's data. A freed block stays allocated in libc until it leaves
  the second list; the blocks given back are logged in \<open>mt_returned\<close>. A list entry is the record of
  \<open>memory_entry_t\<close> without its link; the two list heads are the fields of the state. The functions
  return what they print as a list of lines, with the stream each goes to.
\<close>

section \<open>State\<close>

record memory_entry =
  me_file :: string
  me_function :: string
  me_lineno :: int
  me_size :: u32
  me_count :: int
  me_data :: nat        \<comment> \<open>the address of \<open>data\<close>, which identifies the block\<close>

record memtrace =
  mt_malloc :: "memory_entry list"     \<comment> \<open>\<open>prv_memory_malloc_list\<close>, newest first\<close>
  mt_malloc_count :: int
  mt_malloc_size :: u32
  mt_malloc_lineno :: int              \<comment> \<open>set when the list changed since the last report\<close>
  mt_free :: "memory_entry list"       \<comment> \<open>\<open>prv_memory_free_list\<close>\<close>
  mt_free_count :: int
  mt_counter :: int                    \<comment> \<open>\<open>static int counter\<close> of \<open>lwm2m_trace_malloc\<close>\<close>
  mt_prints :: int                     \<comment> \<open>\<open>static int counter\<close> of \<open>trace_print\<close>\<close>
  mt_returned :: "nat list"            \<comment> \<open>the blocks given back to libc\<close>

datatype stream = Stdout | Stderr

type_synonym printed = "(stream \<times> string) list"

definition memtrace_init :: memtrace where
  "memtrace_init =
    \<lparr>mt_malloc = [], mt_malloc_count = 0, mt_malloc_size = 0, mt_malloc_lineno = 0,
     mt_free = [], mt_free_count = 0, mt_counter = 0, mt_prints = 0, mt_returned = []\<rparr>"

section \<open>Operations\<close>

text \<open>The position of the entry in front of the wanted one, counting the list head as 0.\<close>

fun prv_memory_find_previous :: "memory_entry list \<Rightarrow> nat \<Rightarrow> nat option" where
  "prv_memory_find_previous [] memory = None"
| "prv_memory_find_previous (e # es) memory =
     (if me_data e = memory then Some 0 else map_option Suc (prv_memory_find_previous es memory))"

definition prv_trace_add_free_list ::
  "memory_entry \<Rightarrow> string \<Rightarrow> string \<Rightarrow> int \<Rightarrow> memtrace \<Rightarrow> memtrace" where
  "prv_trace_add_free_list remove file function lineno t =
    (let remove' = remove\<lparr>me_file := file, me_function := function, me_lineno := lineno\<rparr>;
         freed = remove' # mt_free t in
     if mt_free_count t < 200 then t\<lparr>mt_free := freed, mt_free_count := mt_free_count t + 1\<rparr>
     else if mt_free t \<noteq> [] then
       t\<lparr>mt_free := butlast freed, mt_returned := me_data (last freed) # mt_returned t\<rparr>
     else t\<lparr>mt_free := freed\<rparr>)"

text \<open>The entry has five words, a counter and one word of data in front of the block.\<close>

definition memory_entry_size :: u32 where
  "memory_entry_size = 28"

text \<open>
  \<open>None\<close> is the write through the null pointer of a failed allocation: the result of \<open>malloc\<close> is
  used unchecked. The argument gives the outcome for the number of bytes asked for.
\<close>

definition lwm2m_trace_malloc ::
  "(u32 \<Rightarrow> nat option) \<Rightarrow> u32 \<Rightarrow> string \<Rightarrow> string \<Rightarrow> int \<Rightarrow> memtrace \<Rightarrow> (nat \<times> memtrace) option" where
  "lwm2m_trace_malloc malloc nbytes file function lineno t =
    (case malloc (nbytes + memory_entry_size) of
       None \<Rightarrow> None
     | Some a \<Rightarrow>
         (let entry = \<lparr>me_file = file, me_function = function, me_lineno = lineno, me_size = nbytes,
                me_count = mt_counter t + 1, me_data = a\<rparr> in
          Some (a, t\<lparr>mt_malloc := entry # mt_malloc t, mt_malloc_count := mt_malloc_count t + 1,
             mt_malloc_size := mt_malloc_size t + nbytes, mt_malloc_lineno := 1,
             mt_counter := mt_counter t + 1\<rparr>)))"

text \<open>The copy is returned with the address of its block.\<close>

definition lwm2m_trace_strdup ::
  "(u32 \<Rightarrow> nat option) \<Rightarrow> string \<Rightarrow> string \<Rightarrow> string \<Rightarrow> int \<Rightarrow> memtrace \<Rightarrow>
    (nat \<times> string \<times> memtrace) option" where
  "lwm2m_trace_strdup malloc str file function lineno t =
    do { n \<leftarrow> c_strlen str;
         (a, t') \<leftarrow> lwm2m_trace_malloc malloc (of_nat n + 1) file function lineno t;
         Some (a, take n str @ [nul], t') }"

definition location :: "string \<Rightarrow> int \<Rightarrow> string \<Rightarrow> string" where
  \<comment> \<open>\<^verbatim>\<open>%s, %d, %s\<close>\<close>
  "location file lineno function = file @ '', '' @ dec_int lineno @ '', '' @ function"

text \<open>A null pointer is \<open>None\<close>.\<close>

definition lwm2m_trace_free ::
  "nat option \<Rightarrow> string \<Rightarrow> string \<Rightarrow> int \<Rightarrow> memtrace \<Rightarrow> printed \<times> memtrace" where
  "lwm2m_trace_free mem file function lineno t =
    (case mem of
       None \<Rightarrow> ([], t)
     | Some a \<Rightarrow>
         (case prv_memory_find_previous (mt_malloc t) a of
            Some i \<Rightarrow>
              (let remove = mt_malloc t ! i in
               ([], prv_trace_add_free_list remove file function lineno
                  (t\<lparr>mt_malloc := take i (mt_malloc t) @ drop (Suc i) (mt_malloc t),
                     mt_malloc_count := mt_malloc_count t - 1,
                     mt_malloc_size := mt_malloc_size t - me_size remove, mt_malloc_lineno := 1\<rparr>)))
          | None \<Rightarrow>
              ((Stderr, ''memory: free error (no malloc) '' @ location file lineno function) #
               (case prv_memory_find_previous (mt_free t) a of
                  None \<Rightarrow> []
                | Some i \<Rightarrow>
                    (let entry = mt_free t ! i in
                     [(Stderr, ''memory: already frees at '' @
                         location (me_file entry) (me_lineno entry) (me_function entry))])), t)))"

definition entry_line :: "memory_entry \<Rightarrow> string" where
  "entry_line e = ''memory: #'' @ dec_int (me_count e) @ '', '' @ dec_nat (unat (me_size e)) @ '' bytes, '' @
     location (me_file e) (me_lineno e) (me_function e)"

text \<open>The loop of the detailed report: the lines, the bytes and the entries.\<close>

fun print_entries :: "memory_entry list \<Rightarrow> u32 \<Rightarrow> int \<Rightarrow> printed \<times> u32 \<times> int" where
  "print_entries [] tot entries = ([], tot, entries)"
| "print_entries (e # es) tot entries =
     (case print_entries es (tot + me_size e) (entries + 1) of
        (out, r) \<Rightarrow> ((Stdout, entry_line e) # out, r))"

definition print_details :: "memtrace \<Rightarrow> printed" where
  "print_details t =
    (case print_entries (mt_malloc t) 0 0 of
       (out, tot, entries) \<Rightarrow>
         out @
         (if entries \<noteq> mt_malloc_count t
          then [(Stderr, ''memory: error '' @ dec_int (mt_malloc_count t) @ '' entries != '' @ dec_int entries)]
          else []) @
         (if tot \<noteq> mt_malloc_size t
          then [(Stdout, ''memory: error '' @ dec_nat (unat (mt_malloc_size t)) @ '' total bytes != '' @
                  dec_nat (unat tot))]
          else []))"

definition trace_print :: "int \<Rightarrow> int \<Rightarrow> memtrace \<Rightarrow> printed \<times> memtrace" where
  "trace_print loops level t =
    (let t1 = t\<lparr>mt_prints := (if loops = 0 then 0 else mt_prints t + 1)\<rparr> in
     if loops = 0 \<or> (mt_prints t1 mod loops = 0 \<and> mt_malloc_lineno t1 \<noteq> 0)
     then ((if level = 1 then print_details t1 else []) @
             [(Stdout, ''memory: '' @ dec_int (mt_malloc_count t1) @ '' entries, '' @
                dec_nat (unat (mt_malloc_size t1)) @ '' total bytes'')],
           t1\<lparr>mt_malloc_lineno := 0\<rparr>)
     else ([], t1))"

text \<open>The two output pointers may be null; the values are given when they are not.\<close>

definition trace_status :: "bool \<Rightarrow> bool \<Rightarrow> memtrace \<Rightarrow> int option \<times> u32 option" where
  "trace_status blocks nbytes t =
    (if blocks then Some (mt_malloc_count t) else None,
     if nbytes then Some (mt_malloc_size t) else None)"

section \<open>The blocks the tracer holds\<close>

definition live_blocks :: "memtrace \<Rightarrow> nat list" where
  "live_blocks t = map me_data (mt_malloc t)"

definition held_blocks :: "memtrace \<Rightarrow> nat list" where
  "held_blocks t = live_blocks t @ map me_data (mt_free t)"

definition memtrace_inv :: "memtrace \<Rightarrow> bool" where
  "memtrace_inv t \<longleftrightarrow>
     mt_malloc_count t = int (length (mt_malloc t)) \<and>
     mt_malloc_size t = sum_list (map me_size (mt_malloc t)) \<and>
     mt_free_count t = int (length (mt_free t)) \<and> length (mt_free t) \<le> 200 \<and>
     distinct (held_blocks t)"

lemma find_previous_Some:
  "prv_memory_find_previous es a = Some i \<Longrightarrow> i < length es \<and> me_data (es ! i) = a"
  by (induction es arbitrary: i) (auto split: if_splits)

lemma find_previous_None: "prv_memory_find_previous es a = None \<longleftrightarrow> a \<notin> set (map me_data es)"
  by (induction es) auto

lemma print_entries_sums:
  "snd (print_entries es tot entries) = (tot + sum_list (map me_size es), entries + int (length es))"
  by (induction es arbitrary: tot entries) (simp_all add: case_prod_beta algebra_simps)

lemma split_at: "i < length xs \<Longrightarrow> xs = take i xs @ xs ! i # drop (Suc i) xs"
  by (rule id_take_nth_drop)

lemma memtrace_init_inv: "memtrace_inv memtrace_init"
  by (simp add: memtrace_inv_def memtrace_init_def held_blocks_def live_blocks_def)

lemma trace_malloc_inv:
  assumes "memtrace_inv t" and "malloc (nbytes + memory_entry_size) = Some a" and "a \<notin> set (held_blocks t)"
  shows "\<exists>t'. lwm2m_trace_malloc malloc nbytes file function lineno t = Some (a, t') \<and> memtrace_inv t' \<and>
    live_blocks t' = a # live_blocks t \<and> mt_free t' = mt_free t"
  using assms
  by (auto simp: lwm2m_trace_malloc_def memtrace_inv_def held_blocks_def live_blocks_def Let_def
      algebra_simps)

lemma add_free_list_inv:
  assumes "mt_free_count t = int (length (mt_free t))" and "length (mt_free t) \<le> 200"
  shows "\<exists>r fs. mt_free t = fs @ r \<and> fs = take 199 (mt_free t) \<and>
    prv_trace_add_free_list e file function lineno t =
      t\<lparr>mt_free := e\<lparr>me_file := file, me_function := function, me_lineno := lineno\<rparr> # fs,
        mt_free_count := int (Suc (length fs)), mt_returned := map me_data r @ mt_returned t\<rparr> \<and>
    length fs < 200"
proof (cases "length (mt_free t) < 200")
  case True
  then show ?thesis using assms(1)
    by (intro exI [of _ "[]"] exI [of _ "mt_free t"]) (simp add: prv_trace_add_free_list_def Let_def)
next
  case False
  with assms(2) have len: "length (mt_free t) = 200" by simp
  then have ne: "mt_free t \<noteq> []" by auto
  with len have "butlast (mt_free t) @ [last (mt_free t)] = mt_free t" by simp
  with ne show ?thesis using assms(1) len
    by - (rule exI [of _ "[last (mt_free t)]"], rule exI [of _ "butlast (mt_free t)"],
      simp add: prv_trace_add_free_list_def Let_def, simp add: butlast_conv_take)
qed

lemma trace_free_live:
  assumes "memtrace_inv t" and "a \<in> set (live_blocks t)"
  shows "\<exists>t'. lwm2m_trace_free (Some a) file function lineno t = ([], t') \<and> memtrace_inv t' \<and>
    live_blocks t' = remove1 a (live_blocks t) \<and>
    mt_malloc t' = filter (\<lambda>e. me_data e \<noteq> a) (mt_malloc t) \<and>
    (\<exists>e. mt_free t' = e # take 199 (mt_free t) \<and> me_data e = a \<and> me_file e = file \<and> me_function e = function \<and> me_lineno e = lineno)"
proof -
  obtain i where i: "prv_memory_find_previous (mt_malloc t) a = Some i"
    using assms(2) find_previous_None by (force simp: live_blocks_def)
  let ?e = "mt_malloc t ! i"
  let ?m = "take i (mt_malloc t) @ drop (Suc i) (mt_malloc t)"
  from find_previous_Some [OF i] have e: "i < length (mt_malloc t)" "me_data ?e = a" by auto
  have m: "mt_malloc t = take i (mt_malloc t) @ ?e # drop (Suc i) (mt_malloc t)"
    by (rule split_at [OF e(1)])
  have sz: "sum_list (map me_size (mt_malloc t)) = me_size ?e + sum_list (map me_size ?m)"
    by (subst m) simp
  have len: "length (mt_malloc t) = Suc (length ?m)" using e by simp
  have lv: "live_blocks t = map me_data (take i (mt_malloc t)) @ a # map me_data (drop (Suc i) (mt_malloc t))"
    unfolding live_blocks_def by (subst m) (simp add: e)
  have dis: "distinct (live_blocks t)" using assms(1) by (simp add: memtrace_inv_def held_blocks_def)
  let ?t = "t\<lparr>mt_malloc := ?m, mt_malloc_count := mt_malloc_count t - 1,
                     mt_malloc_size := mt_malloc_size t - me_size ?e, mt_malloc_lineno := 1\<rparr>"
  obtain r fs where r: "mt_free t = fs @ r" "length fs < 200"
    "fs = take 199 (mt_free t)"
    "prv_trace_add_free_list ?e file function lineno ?t =
      ?t\<lparr>mt_free := ?e\<lparr>me_file := file, me_function := function, me_lineno := lineno\<rparr> # fs,
        mt_free_count := int (Suc (length fs)), mt_returned := map me_data r @ mt_returned t\<rparr>"
    using add_free_list_inv [of ?t ?e "file" "function" "lineno"] assms(1) by (auto simp: memtrace_inv_def)
  have rem: "map me_data ?m = remove1 a (live_blocks t)"
    using lv dis by (simp add: remove1_append)
  let ?f = "?t\<lparr>mt_free := ?e\<lparr>me_file := file, me_function := function, me_lineno := lineno\<rparr> # fs,
        mt_free_count := int (Suc (length fs)), mt_returned := map me_data r @ mt_returned t\<rparr>"
  have run: "lwm2m_trace_free (Some a) file function lineno t = ([], ?f)"
    by (simp only: lwm2m_trace_free_def option.case i Let_def r(4))
  have live: "live_blocks ?f = remove1 a (live_blocks t)"
    using rem by (simp add: live_blocks_def)
  have dist: "distinct (remove1 a (live_blocks t) @ a # map me_data fs)"
  proof -
    have "distinct (live_blocks t @ map me_data fs)"
      using assms(1) r(1) by (simp add: memtrace_inv_def held_blocks_def Int_Un_distrib)
    then show ?thesis
      using assms(2) set_remove1_eq [OF dis, of a] distinct_remove1 [OF dis, of a]
      by (simp only: distinct_append distinct.simps list.set set_append) blast
  qed
  have inv: "memtrace_inv ?f"
  proof -
    have "mt_malloc_count t = int (length (mt_malloc t))"
      and "mt_malloc_size t = sum_list (map me_size (mt_malloc t))"
      using assms(1) by (simp_all add: memtrace_inv_def)
    with len sz have n: "mt_malloc_count t - 1 = int (length ?m)"
      and b: "mt_malloc_size t - me_size ?e = sum_list (map me_size ?m)"
      by (simp_all only: of_nat_Suc add_diff_cancel_left')
    have "held_blocks ?f = remove1 a (live_blocks t) @ a # map me_data fs"
      unfolding held_blocks_def live using e(2) by simp
    with n b r(2) dist show ?thesis unfolding memtrace_inv_def by simp
  qed
  have flt: "?m = filter (\<lambda>x. me_data x \<noteq> a) (mt_malloc t)"
  proof -
    have keep: "filter (\<lambda>x. me_data x \<noteq> a) xs = xs" if "a \<notin> set (map me_data xs)" for xs
      using that by (auto simp: filter_id_conv)
    have "a \<notin> set (map me_data (take i (mt_malloc t)))" "a \<notin> set (map me_data (drop (Suc i) (mt_malloc t)))"
      using dis unfolding lv by auto
    from keep [OF this(1)] keep [OF this(2)] e(2) show ?thesis by (subst (3) m) simp
  qed
  show ?thesis
    by (rule exI [of _ ?f]) (use run inv live e r(3) flt in simp)
qed

lemma trace_free_dead:
  assumes "a \<notin> set (live_blocks t)"
  shows "snd (lwm2m_trace_free (Some a) file function lineno t) = t"
  using assms find_previous_None [of "mt_malloc t" a] by (simp add: lwm2m_trace_free_def live_blocks_def)

section \<open>Runs\<close>

text \<open>
  A sequence of calls. For an allocation the call carries the address libc answers, which is a block
  the tracer does not hold: a block it holds is still allocated in libc.
\<close>

datatype trace_call =
    Call_malloc u32 nat string string int
  | Call_free "nat option" string string int
  | Call_print int int

fun trace_step :: "trace_call \<Rightarrow> memtrace \<Rightarrow> (printed \<times> memtrace) option" where
  "trace_step (Call_malloc nbytes a fil func lno) t =
     map_option (\<lambda>(_, t'). ([], t')) (lwm2m_trace_malloc (\<lambda>_. Some a) nbytes fil func lno t)"
| "trace_step (Call_free mem fil func lno) t = Some (lwm2m_trace_free mem fil func lno t)"
| "trace_step (Call_print loops level) t = Some (trace_print loops level t)"

fun call_ok :: "trace_call \<Rightarrow> memtrace \<Rightarrow> bool" where
  "call_ok (Call_malloc nbytes a fil func lno) t \<longleftrightarrow> a \<notin> set (held_blocks t)"
| "call_ok c t \<longleftrightarrow> True"

fun trace_run :: "trace_call list \<Rightarrow> memtrace \<Rightarrow> (printed \<times> memtrace) option" where
  "trace_run [] t = Some ([], t)"
| "trace_run (c # cs) t =
     do { (o1, t1) \<leftarrow> trace_step c t; (o2, t2) \<leftarrow> trace_run cs t1; Some (o1 @ o2, t2) }"

fun calls_ok :: "trace_call list \<Rightarrow> memtrace \<Rightarrow> bool" where
  "calls_ok [] t \<longleftrightarrow> True"
| "calls_ok (c # cs) t \<longleftrightarrow>
     call_ok c t \<and> (case trace_step c t of None \<Rightarrow> False | Some (_, t1) \<Rightarrow> calls_ok cs t1)"

text \<open>What the calls mean: the live blocks with their sizes, newest first.\<close>

fun live_step :: "trace_call \<Rightarrow> (nat \<times> u32) list \<Rightarrow> (nat \<times> u32) list" where
  "live_step (Call_malloc nbytes a fil func lno) bs = (a, nbytes) # bs"
| "live_step (Call_free (Some a) fil func lno) bs = filter (\<lambda>b. fst b \<noteq> a) bs"
| "live_step c bs = bs"

definition live_after :: "trace_call list \<Rightarrow> (nat \<times> u32) list" where
  "live_after cs = fold live_step cs []"

definition view :: "memtrace \<Rightarrow> (nat \<times> u32) list" where
  "view t = map (\<lambda>e. (me_data e, me_size e)) (mt_malloc t)"

lemma print_keeps: "snd (trace_print loops level t) =
    t\<lparr>mt_prints := mt_prints (snd (trace_print loops level t)),
      mt_malloc_lineno := mt_malloc_lineno (snd (trace_print loops level t))\<rparr>"
  by (simp add: trace_print_def Let_def)

lemma free_None_view:
  "a \<notin> set (live_blocks t) \<Longrightarrow> filter (\<lambda>b. fst b \<noteq> a) (view t) = view t"
  by (auto simp: view_def live_blocks_def filter_id_conv)

lemma trace_step_inv:
  assumes "memtrace_inv t" and "call_ok c t"
  shows "\<exists>out t'. trace_step c t = Some (out, t') \<and> memtrace_inv t' \<and> view t' = live_step c (view t)"
proof (cases c)
  case (Call_malloc n a f g l)
  with trace_malloc_inv [OF assms(1), of "\<lambda>_. Some a" n a f g l] assms(2) show ?thesis
    by (auto simp: lwm2m_trace_malloc_def view_def Let_def)
next
  case (Call_free mem f g l)
  show ?thesis
  proof (cases mem)
    case None
    with Call_free assms show ?thesis by (simp add: lwm2m_trace_free_def)
  next
    case (Some a)
    show ?thesis
    proof (cases "a \<in> set (live_blocks t)")
      case True
      from trace_free_live [OF assms(1) True, of f g l] show ?thesis
        unfolding Call_free Some by (auto simp: view_def filter_map o_def)
    next
      case False
      from trace_free_dead [OF False, of f g l] free_None_view [OF False] assms(1) show ?thesis
        unfolding Call_free Some by (cases "lwm2m_trace_free (Some a) f g l t") simp
    qed
  qed
next
  case (Call_print loops level)
  have "memtrace_inv (snd (trace_print loops level t))" "view (snd (trace_print loops level t)) = view t"
    using assms(1) by (subst print_keeps, simp add: memtrace_inv_def held_blocks_def live_blocks_def view_def)+
  with Call_print show ?thesis by (cases "trace_print loops level t") simp
qed

lemma trace_run_inv:
  "memtrace_inv t \<Longrightarrow> calls_ok cs t \<Longrightarrow>
   \<exists>out t'. trace_run cs t = Some (out, t') \<and> memtrace_inv t' \<and> view t' = fold live_step cs (view t)"
proof (induction cs arbitrary: t)
  case (Cons c cs)
  then obtain o1 t1 where "trace_step c t = Some (o1, t1)" "memtrace_inv t1"
      "view t1 = live_step c (view t)" "calls_ok cs t1"
    using trace_step_inv [of t c] by auto
  with Cons.IH [of t1] show ?case by auto
qed simp

lemma print_details_inv:
  "memtrace_inv t \<Longrightarrow> print_details t = map (\<lambda>e. (Stdout, entry_line e)) (mt_malloc t)"
proof -
  have lines: "fst (print_entries es tot n) = map (\<lambda>e. (Stdout, entry_line e)) es" for es tot n
    by (induction es arbitrary: tot n) (simp_all add: case_prod_beta)
  assume "memtrace_inv t"
  with lines [of "mt_malloc t" 0 0] print_entries_sums [of "mt_malloc t" 0 0] show ?thesis
    by (simp add: print_details_def case_prod_beta memtrace_inv_def)
qed

section \<open>Properties\<close>

text \<open>C22: after any sequence of allocations, frees (wrong and double ones included) and reports, the
  tracer's list is exactly the blocks that are still allocated, with their sizes and newest first;
  \<open>trace_status\<close> gives their number and their bytes, and a full report prints them and the totals
  without an inconsistency line.\<close>

theorem memtrace_refines:
  assumes "calls_ok cs memtrace_init"
  shows "\<exists>out t. trace_run cs memtrace_init = Some (out, t) \<and> view t = live_after cs \<and>
    trace_status True True t =
      (Some (int (length (live_after cs))), Some (sum_list (map snd (live_after cs)))) \<and>
    fst (trace_print 0 1 t) =
      map (\<lambda>e. (Stdout, entry_line e)) (mt_malloc t) @
      [(Stdout, ''memory: '' @ dec_int (int (length (live_after cs))) @ '' entries, '' @
          dec_nat (unat (sum_list (map snd (live_after cs)))) @ '' total bytes'')]"
proof -
  obtain out t where t: "trace_run cs memtrace_init = Some (out, t)" "memtrace_inv t"
      "view t = live_after cs"
    using trace_run_inv [OF memtrace_init_inv assms]
    by (auto simp: live_after_def view_def memtrace_init_def)
  have v: "length (live_after cs) = length (mt_malloc t)"
      "map snd (live_after cs) = map me_size (mt_malloc t)"
    unfolding t(3) [symmetric] by (simp_all add: view_def o_def)
  have "memtrace_inv (t\<lparr>mt_prints := 0\<rparr>)"
    using t(2) by (simp add: memtrace_inv_def held_blocks_def live_blocks_def)
  from print_details_inv [OF this] t v show ?thesis
    by (simp add: trace_status_def trace_print_def Let_def memtrace_inv_def)
qed

theorem memtrace_refines_witness:
  "\<exists>out t. trace_run [Call_malloc 10 100 ''a.c'' ''f'' 1, Call_malloc 20 200 ''a.c'' ''f'' 2,
      Call_free (Some 100) ''a.c'' ''g'' 3, Call_free (Some 300) ''a.c'' ''g'' 4] memtrace_init = Some (out, t) \<and>
    trace_status True True t = (Some 1, Some 20)"
  using memtrace_refines [of "[Call_malloc 10 100 ''a.c'' ''f'' 1, Call_malloc 20 200 ''a.c'' ''f'' 2,
      Call_free (Some 100) ''a.c'' ''g'' 3, Call_free (Some 300) ''a.c'' ''g'' 4]"]
  by (auto simp: live_after_def memtrace_init_def held_blocks_def live_blocks_def
      lwm2m_trace_malloc_def lwm2m_trace_free_def prv_trace_add_free_list_def Let_def)

text \<open>An entry of the list of freed blocks moves back by one position with each free.\<close>

definition freed_at :: "memtrace \<Rightarrow> nat \<Rightarrow> memory_entry \<Rightarrow> bool" where
  "freed_at t i e \<longleftrightarrow> i < length (mt_free t) \<and> mt_free t ! i = e"

fun frees :: "trace_call list \<Rightarrow> nat" where
  "frees [] = 0"
| "frees (Call_free m f g l # cs) = Suc (frees cs)"
| "frees (c # cs) = frees cs"

lemma freed_at_not_live: "memtrace_inv t \<Longrightarrow> freed_at t i e \<Longrightarrow> me_data e \<notin> set (live_blocks t)"
  by (auto simp: memtrace_inv_def held_blocks_def freed_at_def dest!: nth_mem)

lemma freed_at_step:
  assumes "memtrace_inv t" and "freed_at t i e" and "trace_step c t = Some (out, t')" and "i + frees [c] < 200"
  shows "\<exists>j \<le> i + frees [c]. freed_at t' j e"
proof (cases c)
  case (Call_malloc n a f g l)
  with assms show ?thesis
    by (intro exI [of _ i]) (auto simp: lwm2m_trace_malloc_def freed_at_def Let_def)
next
  case (Call_free mem f g l)
  show ?thesis
  proof (cases "\<exists>a. mem = Some a \<and> a \<in> set (live_blocks t)")
    case True
    then obtain a where a: "mem = Some a" "a \<in> set (live_blocks t)" by blast
    obtain x where "mt_free t' = x # take 199 (mt_free t)"
      using trace_free_live [OF assms(1) a(2), of f g l] assms(3) Call_free a by auto
    with assms(2,4) Call_free show ?thesis
      by (intro exI [of _ "Suc i"]) (simp add: freed_at_def)
  next
    case False
    then have "t' = t"
      using assms(3) Call_free trace_free_dead [of _ t f g l]
      by (cases mem) (auto simp: lwm2m_trace_free_def dest: arg_cong [of _ _ snd])
    with assms(2) show ?thesis by (intro exI [of _ i]) simp
  qed
next
  case (Call_print loops level)
  then have "mt_free t' = mt_free t"
    using assms(3) print_keeps [of loops level t] by (auto dest: arg_cong [of _ _ mt_free])
  with assms(2) show ?thesis by (intro exI [of _ i]) (simp add: freed_at_def)
qed

lemma freed_at_run:
  "memtrace_inv t \<Longrightarrow> freed_at t i e \<Longrightarrow> calls_ok cs t \<Longrightarrow> trace_run cs t = Some (out, t') \<Longrightarrow>
   i + frees cs < 200 \<Longrightarrow> \<exists>j \<le> i + frees cs. freed_at t' j e"
proof (induction cs arbitrary: t i out)
  case (Cons c cs)
  have f: "frees (c # cs) = frees [c] + frees cs" by (cases c) auto
  obtain o1 t1 where s: "trace_step c t = Some (o1, t1)" "memtrace_inv t1" "calls_ok cs t1"
    using trace_step_inv [of t c] Cons.prems by auto
  obtain j where j: "j \<le> i + frees [c]" "freed_at t1 j e"
    using freed_at_step [OF Cons.prems(1,2) s(1)] Cons.prems(5) f by auto
  obtain o2 where "trace_run cs t1 = Some (o2, t')"
    using Cons.prems(4) s(1) by (auto split: bind_splits)
  then obtain k where "k \<le> j + frees cs" "freed_at t' k e"
    using Cons.IH [OF s(2) j(2) s(3)] Cons.prems(5) f j(1) by auto
  then show ?case using f j(1) by (intro exI [of _ k]) simp
qed auto

lemma trace_run_append:
  "trace_run (cs @ ds) t =
     do { (o1, t1) \<leftarrow> trace_run cs t; (o2, t2) \<leftarrow> trace_run ds t1; Some (o1 @ o2, t2) }"
  by (induction cs arbitrary: t) (auto simp: bind_eq_None_conv split: bind_splits)

lemma calls_ok_append:
  "calls_ok (cs @ ds) t \<longleftrightarrow>
     calls_ok cs t \<and> (case trace_run cs t of None \<Rightarrow> False | Some (_, t1) \<Rightarrow> calls_ok ds t1)"
  by (induction cs arbitrary: t) (auto split: option.splits bind_splits)

text \<open>A block that is freed twice is reported with the place of its first free, and nothing
  changes, as long as fewer than 200 frees happened in between; whatever the other calls were.\<close>

lemma double_free_reported:
  assumes "calls_ok (cs1 @ Call_free (Some a) f g l # cs2) memtrace_init"
    and "a \<in> fst ` set (live_after cs1)" and "frees cs2 < 200"
  shows "\<exists>out t. trace_run (cs1 @ Call_free (Some a) f g l # cs2) memtrace_init = Some (out, t) \<and>
    lwm2m_trace_free (Some a) f' g' l' t =
      ([(Stderr, ''memory: free error (no malloc) '' @ location f' l' g'),
        (Stderr, ''memory: already frees at '' @ location f l g)], t)"
proof -
  obtain o1 t1 where t1: "trace_run cs1 memtrace_init = Some (o1, t1)" "memtrace_inv t1"
      "view t1 = live_after cs1" and ok: "calls_ok (Call_free (Some a) f g l # cs2) t1"
    using trace_run_inv [OF memtrace_init_inv, of cs1] assms(1)
    by (auto simp: calls_ok_append live_after_def view_def memtrace_init_def)
  have "a \<in> set (live_blocks t1)"
    using assms(2) unfolding t1(3) [symmetric] by (auto simp: view_def live_blocks_def)
  from trace_free_live [OF t1(2) this, of f g l] obtain t2 e where t2:
    "lwm2m_trace_free (Some a) f g l t1 = ([], t2)" "memtrace_inv t2" "mt_free t2 = e # take 199 (mt_free t1)"
    "me_data e = a" "me_file e = f" "me_function e = g" "me_lineno e = l" by blast
  have ok2: "calls_ok cs2 t2" using ok t2(1) by simp
  obtain o3 t3 where t3: "trace_run cs2 t2 = Some (o3, t3)" "memtrace_inv t3"
    using trace_run_inv [OF t2(2) ok2] by blast
  have "freed_at t2 0 e" using t2(3) by (simp add: freed_at_def)
  from freed_at_run [OF t2(2) this ok2 t3(1)] assms(3) obtain j where j: "freed_at t3 j e" by auto
  have none: "prv_memory_find_previous (mt_malloc t3) a = None"
    using freed_at_not_live [OF t3(2) j] t2(4) by (simp add: find_previous_None live_blocks_def)
  have "a \<in> set (map me_data (mt_free t3))" using j t2(4) by (auto simp: freed_at_def)
  then obtain i where i: "prv_memory_find_previous (mt_free t3) a = Some i"
    using find_previous_None [of "mt_free t3" a] by auto
  have "i = j"
    using find_previous_Some [OF i] j t2(4) t3(2)
    by (auto simp: freed_at_def memtrace_inv_def held_blocks_def distinct_map
        dest: inj_onD nth_eq_iff_index_eq [THEN iffD1, rotated 3])
  with i j have "mt_free t3 ! i = e" by (simp add: freed_at_def)
  with none i t2 t1(1) t3(1) show ?thesis
    by (simp add: trace_run_append lwm2m_trace_free_def)
qed

lemma double_free_reported_example:
  "\<exists>out t. trace_run [Call_malloc 10 100 ''a.c'' ''f'' 1, Call_free (Some 100) ''a.c'' ''g'' 3,
      Call_print 0 1] memtrace_init = Some (out, t) \<and>
    snd (lwm2m_trace_free (Some 100) ''b.c'' ''h'' 9 t) = t \<and>
    length (fst (lwm2m_trace_free (Some 100) ''b.c'' ''h'' 9 t)) = 2"
proof -
  have "calls_ok ([Call_malloc 10 100 ''a.c'' ''f'' 1] @ Call_free (Some 100) ''a.c'' ''g'' 3 # [Call_print 0 1])
      memtrace_init"
    by (simp add: memtrace_init_def held_blocks_def live_blocks_def lwm2m_trace_malloc_def Let_def
        lwm2m_trace_free_def prv_trace_add_free_list_def split: prod.splits)
  from double_free_reported [OF this, of "''b.c''" "''h''" 9] show ?thesis
    by (force simp: live_after_def simp del: trace_step.simps)
qed

end
