(* ===== verification/BoardIo.thy ===== *)
theory BoardIo
  imports Prelude
begin

text \<open>
  What the drivers of \<^verbatim>\<open>c/board\<close> share: the pins of the board and the calls to the vendor's GPIO,
  clock and delay functions, which are logged as values; and the one-place FreeRTOS queues through
  which an interrupt tells a waiting task that its transfer has ended.

  The queues and the SPI and I2C drivers are not part of the repository. The queue operations are
  the record \<open>queue_api\<close>, with their documented laws in the locale \<open>mailbox\<close>. The interrupts that
  arrive while a task waits are an explicit list.
\<close>

section \<open>Pins and calls\<close>

text \<open>A pin is a port and a number, with the values of \<^verbatim>\<open>board.h\<close>.\<close>

datatype port = gpioPortA | gpioPortB | gpioPortC | gpioPortD | gpioPortE | gpioPortF

type_synonym pin = "port \<times> nat"

datatype pin_mode =
    gpioModeDisabled | gpioModeInput | gpioModeInputPullFilter | gpioModePushPull
  | gpioModePushPullDrive | gpioModeWiredAnd

datatype board_call =
    GPIO_PinModeSet pin pin_mode nat
  | GPIO_PinOutSet pin
  | GPIO_PinOutClear pin
  | GPIO_ExtIntConfig pin nat bool bool bool   \<comment> \<open>pin, interrupt number, rising, falling, enable\<close>
  | GPIOINT_CallbackRegister nat
  | SPIDRV_SetBitrate u32
  | NVIC_SetPriority string nat
  | NVIC_EnableIRQ string
  | NVIC_DisableIRQ string
  | NVIC_ClearPendingIRQ string
  | I2CSPM_Init
  | BOARD_usDelay u32
  | BOARD_msDelay u32
  | Interrupt_handler nat nat                  \<comment> \<open>a registered handler runs with its argument\<close>
  | System_reset
  | Printf string
  | XSemaphoreTake nat bool                    \<comment> \<open>and whether it was granted in time\<close>
  | XSemaphoreGive nat
  | XQueueReceive nat
  | I2C_begin                                  \<comment> \<open>\<open>I2C_TransferInit\<close>\<close>
  | I2C_step                                   \<comment> \<open>\<open>I2C_Transfer\<close>\<close>

text \<open>The level a pin is driven to by a log, oldest call first: the last call on it decides.\<close>

fun pin_level :: "pin \<Rightarrow> board_call list \<Rightarrow> bool option" where
  "pin_level p [] = None"
| "pin_level p (c # cs) =
     (case pin_level p cs of
        Some b \<Rightarrow> Some b
      | None \<Rightarrow>
          (case c of
             GPIO_PinOutSet q \<Rightarrow> if q = p then Some True else None
           | GPIO_PinOutClear q \<Rightarrow> if q = p then Some False else None
           | GPIO_PinModeSet q _ n \<Rightarrow> if q = p then Some (n \<noteq> 0) else None
           | _ \<Rightarrow> None))"

lemma pin_level_append [simp]:
  "pin_level p (cs @ ds) = (case pin_level p ds of Some b \<Rightarrow> Some b | None \<Rightarrow> pin_level p cs)"
  by (induction cs) (auto split: option.splits)

section \<open>Queues\<close>

abbreviation first_of :: "'a list \<Rightarrow> 'a option" where
  "first_of xs \<equiv> (case xs of [] \<Rightarrow> None | x # _ \<Rightarrow> Some x)"

record ('m, 'k) queue_api =
  q_create :: "'k \<Rightarrow> nat option \<times> 'k"        \<comment> \<open>\<open>xQueueCreate(1, ...)\<close>\<close>
  q_delete :: "nat \<Rightarrow> 'k \<Rightarrow> 'k"              \<comment> \<open>\<open>vQueueDelete\<close>\<close>
  q_reset :: "nat \<Rightarrow> 'k \<Rightarrow> 'k"               \<comment> \<open>\<open>xQueueReset\<close>\<close>
  q_send :: "nat \<Rightarrow> 'm \<Rightarrow> 'k \<Rightarrow> 'k"          \<comment> \<open>\<open>xQueueSendFromISR\<close>, whose result no caller uses\<close>
  q_receive :: "nat \<Rightarrow> 'k \<Rightarrow> 'm option \<times> 'k" \<comment> \<open>\<open>xQueueReceive\<close> when the wait is over\<close>

locale mailbox =
  fixes api :: "('m, 'k) queue_api"
    and alive :: "'k \<Rightarrow> nat set"
    and slot :: "'k \<Rightarrow> nat \<Rightarrow> 'm option"
  assumes create: "q_create api k = (Some q, k') \<Longrightarrow>
      q \<notin> alive k \<and> alive k' = insert q (alive k) \<and> slot k' = (slot k)(q := None)"
    and create_fails: "q_create api k = (None, k') \<Longrightarrow> alive k' = alive k \<and> slot k' = slot k"
    and delete: "q \<in> alive k \<Longrightarrow> alive (q_delete api q k) = alive k - {q}"
    and reset: "q \<in> alive k \<Longrightarrow>
      alive (q_reset api q k) = alive k \<and> slot (q_reset api q k) = (slot k)(q := None)"
    and send: "q \<in> alive k \<Longrightarrow> alive (q_send api q m k) = alive k \<and>
      slot (q_send api q m k) = (if slot k q = None then (slot k)(q := Some m) else slot k)"
    and receive: "q \<in> alive k \<Longrightarrow> fst (q_receive api q k) = slot k q \<and>
      alive (snd (q_receive api q k)) = alive k \<and> slot (snd (q_receive api q k)) = (slot k)(q := None)"
begin

text \<open>Messages to a full queue are lost: of several the first counts.\<close>

lemma send_each:
  "q \<in> alive k \<Longrightarrow> alive (fold (q_send api q) ms k) = alive k \<and>
   slot (fold (q_send api q) ms k) q = (case slot k q of Some m \<Rightarrow> Some m | None \<Rightarrow> (case ms of [] \<Rightarrow> None | m # _ \<Rightarrow> Some m))"
proof (induction ms arbitrary: k)
  case (Cons m ms)
  from send [OF Cons.prems, of m] have k1: "q \<in> alive (q_send api q m k)" using Cons.prems by simp
  from Cons.IH [OF k1] send [OF Cons.prems, of m] show ?case by (auto split: option.splits list.splits)
qed (auto split: option.splits)

text \<open>What was in the queue before the reset does not reach the receiver.\<close>

lemma reset_send_receive:
  assumes "q \<in> alive k"
  shows "fst (q_receive api q (fold (q_send api q) ms (q_reset api q k))) =
    (case ms of [] \<Rightarrow> None | m # _ \<Rightarrow> Some m)"
proof -
  from reset [OF assms] have k1: "q \<in> alive (q_reset api q k)" "slot (q_reset api q k) q = None"
    using assms by simp_all
  from send_each [OF k1(1), of ms] k1(2) have "q \<in> alive (fold (q_send api q) ms (q_reset api q k))"
    "slot (fold (q_send api q) ms (q_reset api q k)) q = (case ms of [] \<Rightarrow> None | m # _ \<Rightarrow> Some m)"
    using k1(1) by simp_all
  with receive [OF this(1)] show ?thesis by simp
qed

end

text \<open>A kernel with the laws: the live queues, their contents and the next handle.\<close>

record 'm queues =
  qs_alive :: "nat list"
  qs_slot :: "nat \<Rightarrow> 'm option"
  qs_next :: nat

definition queues_init :: "'m queues" where
  "queues_init = \<lparr>qs_alive = [], qs_slot = (\<lambda>_. None), qs_next = 1\<rparr>"

definition queues_api :: "('m, 'm queues) queue_api" where
  "queues_api =
    \<lparr>q_create = (\<lambda>k. if qs_next k \<in> set (qs_alive k) then (None, k)
       else (Some (qs_next k), k\<lparr>qs_alive := qs_next k # qs_alive k,
               qs_slot := (qs_slot k)(qs_next k := None), qs_next := qs_next k + 1\<rparr>)),
     q_delete = (\<lambda>q k. k\<lparr>qs_alive := filter (\<lambda>x. x \<noteq> q) (qs_alive k)\<rparr>),
     q_reset = (\<lambda>q k. k\<lparr>qs_slot := (qs_slot k)(q := None)\<rparr>),
     q_send = (\<lambda>q m k. if qs_slot k q = None then k\<lparr>qs_slot := (qs_slot k)(q := Some m)\<rparr> else k),
     q_receive = (\<lambda>q k. (qs_slot k q, k\<lparr>qs_slot := (qs_slot k)(q := None)\<rparr>))\<rparr>"

abbreviation queues_alive :: "'m queues \<Rightarrow> nat set" where "queues_alive k \<equiv> set (qs_alive k)"

interpretation queues: mailbox queues_api queues_alive qs_slot
  by unfold_locales (auto simp: queues_api_def split: if_splits)

section \<open>The SPI driver\<close>

text \<open>
  The vendor's SPI driver: its results, which may depend on the kernel state, for the initialisation,
  the release, and the start of a transfer of some number of bytes. It does not touch the queues. The
  bytes move by DMA between the driver and the caller's buffer; the code here only passes the
  buffer on. \<open>0\<close> is both \<^verbatim>\<open>ECODE_OK\<close> and \<^verbatim>\<open>ECODE_EMDRV_SPIDRV_OK\<close>.
\<close>

abbreviation ECODE_OK :: u32 where "ECODE_OK \<equiv> 0"
abbreviation ECODE_EMDRV_SPIDRV_PARAM_ERROR :: u32 where "ECODE_EMDRV_SPIDRV_PARAM_ERROR \<equiv> 0xF0002002"
abbreviation ECODE_EMDRV_SPIDRV_TIMEOUT :: u32 where "ECODE_EMDRV_SPIDRV_TIMEOUT \<equiv> 0xF0002005"

record 'k spidrv =
  SPIDRV_Init :: "'k \<Rightarrow> u32"
  SPIDRV_DeInit :: "'k \<Rightarrow> u32"
  SPIDRV_MReceive :: "int \<Rightarrow> 'k \<Rightarrow> u32"
  SPIDRV_MTransmit :: "int \<Rightarrow> 'k \<Rightarrow> u32"

text \<open>A driver that accepts everything, for evaluation.\<close>

definition spidrv_ok :: "'k spidrv" where
  "spidrv_ok = \<lparr>SPIDRV_Init = (\<lambda>_. ECODE_OK), SPIDRV_DeInit = (\<lambda>_. ECODE_OK),
     SPIDRV_MReceive = (\<lambda>_ _. ECODE_OK), SPIDRV_MTransmit = (\<lambda>_ _. ECODE_OK)\<rparr>"

end
