(* ===== verification/CC3100.thy ===== *)
theory CC3100
  imports BoardIo
begin

text \<open>
  The board's side of the CC3100 network processor, \<^verbatim>\<open>c/board/board_CC3100.c\<close>: power and reset, the
  interrupt line, and the four interface functions through which the SimpleLink driver talks to the
  chip over SPI. A transfer is started, the completion interrupt puts the status and the number of
  bytes into a one-place queue, and the calling task waits for it with a timeout.

  The state has the two queue handles, the registered interrupt handler, the number of calls pended
  to the timer task, the log of board calls (oldest first) and the kernel. What happens while a task
  waits in \<open>xQueueReceive\<close> is the list of events \<open>evs\<close>.
\<close>

section \<open>State\<close>

record 'k cc3100 =
  cc_tx_queue :: "nat option"
  cc_rx_queue :: "nat option"
  cc_handler :: "nat option"       \<comment> \<open>\<open>interrupt_handler_callback\<close>, a function by its number\<close>
  cc_pValue :: nat                 \<comment> \<open>\<open>interrupt_handler_pValue\<close>\<close>
  cc_pended :: nat
  cc_log :: "board_call list"
  cc_os :: 'k

type_synonym transfer_status = "u32 \<times> int"   \<comment> \<open>\<open>transferStatus\<close>, \<open>itemsTransferred\<close>\<close>

abbreviation BOARD_CC3100_FD :: int where "BOARD_CC3100_FD \<equiv> 1"
abbreviation VDD_WIFI_EN :: pin where "VDD_WIFI_EN \<equiv> (gpioPortA, 8)"
abbreviation WIFI_CSN :: pin where "WIFI_CSN \<equiv> (gpioPortC, 5)"
abbreviation WIFI_INT_PIN :: nat where "WIFI_INT_PIN \<equiv> 10"
abbreviation WIFI_INT :: pin where "WIFI_INT \<equiv> (gpioPortA, WIFI_INT_PIN)"
abbreviation WIFI_NHIB :: pin where "WIFI_NHIB \<equiv> (gpioPortA, 11)"
abbreviation WIFI_NRESET :: pin where "WIFI_NRESET \<equiv> (gpioPortA, 15)"

definition board_log :: "board_call list \<Rightarrow> 'k cc3100 \<Rightarrow> 'k cc3100" where
  "board_log cs st = st\<lparr>cc_log := cc_log st @ cs\<rparr>"

section \<open>Interrupts\<close>

definition timerContextCallback :: "'k cc3100 \<Rightarrow> 'k cc3100" where
  "timerContextCallback st =
    (case cc_handler st of
       Some h \<Rightarrow> board_log [Interrupt_handler h (cc_pValue st)] st
     | None \<Rightarrow> st)"

text \<open>The pending request may be refused by a full timer queue, which the code ignores.\<close>

definition cc3100_interrupt_callback :: "byte \<Rightarrow> bool \<Rightarrow> 'k cc3100 \<Rightarrow> 'k cc3100" where
  "cc3100_interrupt_callback intNo accepted st =
    (if unat intNo = WIFI_INT_PIN \<and> cc_handler st \<noteq> None \<and> accepted
     then st\<lparr>cc_pended := cc_pended st + 1\<rparr> else st)"

text \<open>\<open>own\<close>: the handle of the callback is \<open>cc3100_usart\<close>.\<close>

definition cc3100_recieve_callback ::
  "(transfer_status, 'k) queue_api \<Rightarrow> bool \<Rightarrow> u32 \<Rightarrow> int \<Rightarrow> 'k cc3100 \<Rightarrow> 'k cc3100" where
  "cc3100_recieve_callback api own transferStatus itemsTransferred st =
    (if own then
       (case cc_rx_queue st of
          Some q \<Rightarrow> st\<lparr>cc_os := q_send api q (transferStatus, itemsTransferred) (cc_os st)\<rparr>
        | None \<Rightarrow> st)
     else st)"

definition cc3100_send_callback ::
  "(transfer_status, 'k) queue_api \<Rightarrow> bool \<Rightarrow> u32 \<Rightarrow> int \<Rightarrow> 'k cc3100 \<Rightarrow> 'k cc3100" where
  "cc3100_send_callback api own transferStatus itemsTransferred st =
    (if own then
       (case cc_tx_queue st of
          Some q \<Rightarrow> st\<lparr>cc_os := q_send api q (transferStatus, itemsTransferred) (cc_os st)\<rparr>
        | None \<Rightarrow> st)
     else st)"

text \<open>What can happen while a task waits: a completion, an edge on a pin, a turn of the timer task.\<close>

datatype cc_event =
    Rx_done bool u32 int
  | Tx_done bool u32 int
  | Pin_interrupt byte bool
  | Timer_turn

fun cc_event_step :: "(transfer_status, 'k) queue_api \<Rightarrow> cc_event \<Rightarrow> 'k cc3100 \<Rightarrow> 'k cc3100" where
  "cc_event_step api (Rx_done own s n) st = cc3100_recieve_callback api own s n st"
| "cc_event_step api (Tx_done own s n) st = cc3100_send_callback api own s n st"
| "cc_event_step api (Pin_interrupt i a) st = cc3100_interrupt_callback i a st"
| "cc_event_step api Timer_turn st =
     (if 0 < cc_pended st then timerContextCallback (st\<lparr>cc_pended := cc_pended st - 1\<rparr>) else st)"

definition cc_events :: "(transfer_status, 'k) queue_api \<Rightarrow> cc_event list \<Rightarrow> 'k cc3100 \<Rightarrow> 'k cc3100" where
  "cc_events api evs st = fold (cc_event_step api) evs st"

section \<open>Power and reset\<close>

definition cc3100_spi_select :: "'k cc3100 \<Rightarrow> 'k cc3100" where
  "cc3100_spi_select st = board_log [GPIO_PinOutClear WIFI_CSN, BOARD_usDelay 1] st"

definition cc3100_spi_deselect :: "'k cc3100 \<Rightarrow> 'k cc3100" where
  "cc3100_spi_deselect st = board_log [BOARD_usDelay 1, GPIO_PinOutSet WIFI_CSN] st"

definition Board_CC3100_Init :: "'k cc3100 \<Rightarrow> 'k cc3100" where
  "Board_CC3100_Init st = board_log
    [GPIO_PinModeSet VDD_WIFI_EN gpioModePushPull 1,
     GPIO_PinModeSet WIFI_NRESET gpioModeWiredAnd 1,
     GPIO_PinModeSet WIFI_CSN gpioModePushPull 1,
     GPIO_PinModeSet WIFI_INT gpioModeInput 0,
     GPIO_PinModeSet WIFI_NHIB gpioModePushPull 1,
     GPIO_PinModeSet (gpioPortE, 11) gpioModeInput 0,
     GPIO_PinModeSet (gpioPortE, 10) gpioModePushPull 0,
     GPIO_PinModeSet (gpioPortE, 12) gpioModePushPull 0,
     GPIOINT_CallbackRegister WIFI_INT_PIN,
     GPIO_ExtIntConfig WIFI_INT WIFI_INT_PIN True False False] st"

definition CC3100_DeviceEnablePreamble :: "'k cc3100 \<Rightarrow> 'k cc3100" where
  "CC3100_DeviceEnablePreamble st = board_log
    [GPIO_PinOutClear VDD_WIFI_EN, GPIO_PinOutSet WIFI_NHIB, BOARD_msDelay 4,
     GPIO_PinOutClear WIFI_NRESET, BOARD_msDelay 5,
     GPIO_PinOutSet WIFI_NRESET, BOARD_msDelay (25 + 1350)] st"

definition CC3100_DeviceEnable :: "'k cc3100 \<Rightarrow> 'k cc3100" where
  "CC3100_DeviceEnable st = board_log [GPIO_PinOutSet WIFI_NHIB, BOARD_msDelay 50] st"

definition CC3100_DeviceDisable :: "'k cc3100 \<Rightarrow> 'k cc3100" where
  "CC3100_DeviceDisable st = board_log
    [GPIO_ExtIntConfig WIFI_INT WIFI_INT_PIN True False False,
     GPIO_PinModeSet WIFI_INT gpioModeDisabled 0,
     GPIO_PinOutClear WIFI_NHIB, BOARD_msDelay 10] st"

section \<open>The interface functions\<close>

text \<open>\<open>None\<close>: the interface name is compared past the end of its object.\<close>

definition create_if_null ::
  "(transfer_status, 'k) queue_api \<Rightarrow> nat option \<Rightarrow> 'k \<Rightarrow> nat option \<times> 'k" where
  "create_if_null api q k = (if q = None then q_create api k else (q, k))"

definition CC3100_IfOpen ::
  "(transfer_status, 'k) queue_api \<Rightarrow> 'k spidrv \<Rightarrow> string \<Rightarrow> u32 \<Rightarrow> 'k cc3100 \<Rightarrow> (int \<times> 'k cc3100) option" where
  "CC3100_IfOpen api drv pIfName flags st =
    do { same \<leftarrow> strncmp_lit pIfName ''CC3100'';
         Some (if same \<and> flags = 0 then
            (case create_if_null api (cc_tx_queue st) (cc_os st) of
               (tx, k1) \<Rightarrow>
                 (case create_if_null api (cc_rx_queue st) k1 of
                    (rx, k2) \<Rightarrow>
                      (let st1 = st\<lparr>cc_tx_queue := tx, cc_rx_queue := rx, cc_os := k2\<rparr> in
                       if SPIDRV_Init drv k2 = ECODE_OK
                       then (BOARD_CC3100_FD,
                             cc3100_spi_deselect (board_log
                               [NVIC_SetPriority ''USART0_RX'' 5, NVIC_SetPriority ''USART0_TX'' 6,
                                GPIO_PinOutSet WIFI_NHIB, BOARD_msDelay 50] st1))
                       else (-1, st1))))
          else (-1, st)) }"

definition delete_if_set ::
  "(transfer_status, 'k) queue_api \<Rightarrow> nat option \<Rightarrow> 'k \<Rightarrow> 'k" where
  "delete_if_set api q k = (case q of Some h \<Rightarrow> q_delete api h k | None \<Rightarrow> k)"

definition CC3100_IfClose ::
  "(transfer_status, 'k) queue_api \<Rightarrow> 'k spidrv \<Rightarrow> int \<Rightarrow> 'k cc3100 \<Rightarrow> int \<times> 'k cc3100" where
  "CC3100_IfClose api drv Fd st =
    (if Fd = BOARD_CC3100_FD then
       (let st1 = cc3100_spi_deselect st;
            ret = (if SPIDRV_DeInit drv (cc_os st1) = ECODE_OK then 0 else -1);
            k1 = delete_if_set api (cc_tx_queue st1) (cc_os st1);
            k2 = delete_if_set api (cc_rx_queue st1) k1 in
        (ret, st1\<lparr>cc_tx_queue := None, cc_rx_queue := None, cc_os := k2\<rparr>))
     else (-1, st))"

text \<open>
  \<open>pBuff\<close> tells whether the buffer is not null. \<open>evs\<close> are the events between the start of the
  transfer and the end of the wait; the wait times out when they leave the queue empty.
\<close>

definition CC3100_IfRead ::
  "(transfer_status, 'k) queue_api \<Rightarrow> 'k spidrv \<Rightarrow> cc_event list \<Rightarrow> int \<Rightarrow> bool \<Rightarrow> int \<Rightarrow> 'k cc3100 \<Rightarrow>
    int \<times> 'k cc3100" where
  "CC3100_IfRead api drv evs Fd pBuff Len st =
    (if \<not> pBuff \<or> Len \<le> 0 \<or> Fd \<noteq> BOARD_CC3100_FD then (-1, st)
     else
       (let st1 = cc3100_spi_select st;
            (retVal, st2) =
              (case cc_rx_queue st1 of
                 None \<Rightarrow> (-1, st1)
               | Some q \<Rightarrow>
                   (let k1 = q_reset api q (cc_os st1) in
                    if SPIDRV_MReceive drv Len k1 = ECODE_OK then
                      (let st2 = cc_events api evs (st1\<lparr>cc_os := k1\<rparr>);
                           (msg, k2) = q_receive api q (cc_os st2);
                           (ecode, itemsTransferred) =
                             (case msg of Some (s, n) \<Rightarrow> (s, n) | None \<Rightarrow> (ECODE_EMDRV_SPIDRV_TIMEOUT, -1)) in
                       (if ecode = ECODE_OK then itemsTransferred else -1, st2\<lparr>cc_os := k2\<rparr>))
                    else (-1, st1\<lparr>cc_os := k1\<rparr>))) in
        (retVal, cc3100_spi_deselect st2)))"

definition CC3100_IfWrite ::
  "(transfer_status, 'k) queue_api \<Rightarrow> 'k spidrv \<Rightarrow> cc_event list \<Rightarrow> int \<Rightarrow> bool \<Rightarrow> int \<Rightarrow> 'k cc3100 \<Rightarrow>
    int \<times> 'k cc3100" where
  "CC3100_IfWrite api drv evs Fd pBuff Len st =
    (if \<not> pBuff \<or> Len \<le> 0 \<or> Fd \<noteq> BOARD_CC3100_FD then (-1, st)
     else
       (let st1 = cc3100_spi_select st;
            (retVal, st2) =
              (case cc_tx_queue st1 of
                 None \<Rightarrow> (-1, st1)
               | Some q \<Rightarrow>
                   (let k1 = q_reset api q (cc_os st1) in
                    if SPIDRV_MTransmit drv Len k1 = ECODE_OK then
                      (let st2 = cc_events api evs (st1\<lparr>cc_os := k1\<rparr>);
                           (msg, k2) = q_receive api q (cc_os st2);
                           (ecode, itemsTransferred) =
                             (case msg of Some (s, n) \<Rightarrow> (s, n) | None \<Rightarrow> (ECODE_EMDRV_SPIDRV_TIMEOUT, -1)) in
                       (if ecode = ECODE_OK then itemsTransferred else -1, st2\<lparr>cc_os := k2\<rparr>))
                    else (-1, st1\<lparr>cc_os := k1\<rparr>))) in
        (retVal, cc3100_spi_deselect st2)))"

definition CC3100_IfRegIntHdlr :: "nat option \<Rightarrow> nat \<Rightarrow> 'k cc3100 \<Rightarrow> 'k cc3100" where
  "CC3100_IfRegIntHdlr interruptHdl pValue st =
    (let st1 = st\<lparr>cc_handler := interruptHdl, cc_pValue := pValue\<rparr> in
     case interruptHdl of
       None \<Rightarrow> board_log [GPIO_ExtIntConfig WIFI_INT WIFI_INT_PIN True False False,
                          GPIO_PinModeSet WIFI_INT gpioModeDisabled 0] st1
     | Some _ \<Rightarrow> board_log [GPIO_PinModeSet WIFI_INT gpioModeInput 0,
                            GPIO_ExtIntConfig WIFI_INT WIFI_INT_PIN True False True] st1)"

section \<open>Event handlers\<close>

datatype device_event =
    SL_DEVICE_GENERAL_ERROR_EVENT int int
  | SL_DEVICE_ABORT_ERROR_EVENT
  | SL_DEVICE_DRIVER_ASSERT_ERROR_EVENT
  | SL_DEVICE_DRIVER_TIMEOUT_CMD_COMPLETE
  | SL_DEVICE_DRIVER_TIMEOUT_SYNC_PATTERN
  | SL_DEVICE_DRIVER_TIMEOUT_ASYNC_EVENT
  | Other_device_event

text \<open>
  The format of the abort message has no conversion for its two arguments (\<^verbatim>\<open>%l\<close> is a length
  modifier only); the text up to it is given.
\<close>

definition CC3100_GeneralEvtHdlr :: "device_event option \<Rightarrow> board_call list" where
  "CC3100_GeneralEvtHdlr ev =
    (case ev of
       None \<Rightarrow> []
     | Some (SL_DEVICE_GENERAL_ERROR_EVENT st se) \<Rightarrow>
         [Printf (''General Error: Status='' @ dec_int st @ '', Sender='' @ dec_int se), System_reset]
     | Some SL_DEVICE_ABORT_ERROR_EVENT \<Rightarrow> [Printf ''Abort Error: AbortType='', System_reset]
     | Some SL_DEVICE_DRIVER_ASSERT_ERROR_EVENT \<Rightarrow> [Printf ''Driver Assert Error Occurred.'']
     | Some SL_DEVICE_DRIVER_TIMEOUT_CMD_COMPLETE \<Rightarrow> [Printf ''Driver Timeout: Command did not complete.'']
     | Some SL_DEVICE_DRIVER_TIMEOUT_SYNC_PATTERN \<Rightarrow> [Printf ''Driver Timeout: Sync Pattern not received.'']
     | Some SL_DEVICE_DRIVER_TIMEOUT_ASYNC_EVENT \<Rightarrow>
         [Printf ''Driver Timeout: Async event not received.'', System_reset]
     | Some Other_device_event \<Rightarrow> [])"

datatype sock_event = SL_SOCKET_TX_FAILED_EVENT | SL_SOCKET_ASYNC_EVENT | Other_sock_event

definition CC3100_SockEvtHdlr :: "sock_event option \<Rightarrow> board_call list" where
  "CC3100_SockEvtHdlr ev =
    (case ev of
       Some SL_SOCKET_TX_FAILED_EVENT \<Rightarrow> [Printf ''tx failed'']
     | Some SL_SOCKET_ASYNC_EVENT \<Rightarrow> [Printf ''socket async event'']
     | _ \<Rightarrow> [])"

section \<open>Transfers\<close>

text \<open>The completions of the driver's own handle, in the order in which they arrive.\<close>

fun rx_completions :: "cc_event list \<Rightarrow> transfer_status list" where
  "rx_completions [] = []"
| "rx_completions (Rx_done True s n # evs) = (s, n) # rx_completions evs"
| "rx_completions (e # evs) = rx_completions evs"

fun tx_completions :: "cc_event list \<Rightarrow> transfer_status list" where
  "tx_completions [] = []"
| "tx_completions (Tx_done True s n # evs) = (s, n) # tx_completions evs"
| "tx_completions (e # evs) = tx_completions evs"

definition transferred :: "transfer_status list \<Rightarrow> int" where
  "transferred ms = (case ms of (s, n) # _ \<Rightarrow> if s = ECODE_OK then n else -1 | [] \<Rightarrow> -1)"

definition cc_ok :: "('k \<Rightarrow> nat set) \<Rightarrow> 'k cc3100 \<Rightarrow> bool" where
  "cc_ok alive st \<longleftrightarrow> set_option (cc_tx_queue st) \<union> set_option (cc_rx_queue st) \<subseteq> alive (cc_os st) \<and>
     (cc_rx_queue st \<noteq> None \<longrightarrow> cc_rx_queue st \<noteq> cc_tx_queue st)"

lemma cc_log_simps [simp]:
  "cc_tx_queue (board_log cs st) = cc_tx_queue st" "cc_rx_queue (board_log cs st) = cc_rx_queue st"
  "cc_os (board_log cs st) = cc_os st" "cc_handler (board_log cs st) = cc_handler st"
  "cc_pValue (board_log cs st) = cc_pValue st" "cc_log (board_log cs st) = cc_log st @ cs"
  "cc_pended (board_log cs st) = cc_pended st"
  by (simp_all add: board_log_def)

lemma cc_event_same:
  "cc_tx_queue (cc_event_step api e st) = cc_tx_queue st \<and> cc_rx_queue (cc_event_step api e st) = cc_rx_queue st \<and>
   cc_handler (cc_event_step api e st) = cc_handler st"
  by (cases "(api, e, st)" rule: cc_event_step.cases)
    (auto simp: cc3100_recieve_callback_def cc3100_send_callback_def cc3100_interrupt_callback_def
      timerContextCallback_def split: option.splits)

lemma cc_event_level: "pin_level p (cc_log (cc_event_step api e st)) = pin_level p (cc_log st)"
  by (cases "(api, e, st)" rule: cc_event_step.cases)
    (auto simp: cc3100_recieve_callback_def cc3100_send_callback_def cc3100_interrupt_callback_def
      timerContextCallback_def split: option.splits)

lemma cc_events_same [simp]:
  "cc_tx_queue (cc_events api evs st) = cc_tx_queue st"
  "cc_rx_queue (cc_events api evs st) = cc_rx_queue st"
  "cc_handler (cc_events api evs st) = cc_handler st"
  by (induction evs arbitrary: st; simp add: cc_events_def cc_event_same)+

lemma cc_events_level [simp]:
  "pin_level p (cc_log (cc_events api evs st)) = pin_level p (cc_log st)"
  by (induction evs arbitrary: st) (simp_all add: cc_events_def cc_event_level)

text \<open>The contract of the queues for this driver's messages.\<close>

locale cc_mailbox = mailbox api alive slot
  for api :: "(transfer_status, 'k) queue_api" and alive and slot
begin

lemma cc_event_alive:
  "cc_ok alive st \<Longrightarrow> alive (cc_os (cc_event_step api e st)) = alive (cc_os st)"
  using send
  by (cases "(api, e, st)" rule: cc_event_step.cases)
    (auto simp: cc_ok_def cc3100_recieve_callback_def cc3100_send_callback_def
      cc3100_interrupt_callback_def timerContextCallback_def split: option.splits)

lemma cc_event_ok: "cc_ok alive st \<Longrightarrow> cc_ok alive (cc_event_step api e st)"
  using cc_event_alive [of st e] cc_event_same [of api e st] by (simp add: cc_ok_def)

lemma cc_events_ok:
  "cc_ok alive st \<Longrightarrow> cc_ok alive (cc_events api evs st) \<and> alive (cc_os (cc_events api evs st)) = alive (cc_os st)"
  by (induction evs arbitrary: st) (simp_all add: cc_events_def cc_event_ok cc_event_alive)

text \<open>What the events leave in the receiver's queue: its contents, or else the first completion.\<close>

lemma rx_events:
  assumes "cc_ok alive st" and "cc_rx_queue st = Some q"
  shows "slot (cc_os (cc_events api evs st)) q =
    (case slot (cc_os st) q of Some m \<Rightarrow> Some m | None \<Rightarrow> (case rx_completions evs of [] \<Rightarrow> None | m # _ \<Rightarrow> Some m))"
  using assms
proof (induction evs arbitrary: st)
  case (Cons e evs)
  let ?st = "cc_event_step api e st"
  have "slot (cc_os ?st) q = (case slot (cc_os st) q of Some m \<Rightarrow> Some m
      | None \<Rightarrow> (case rx_completions [e] of [] \<Rightarrow> None | m # _ \<Rightarrow> Some m))"
    using Cons.prems send
    by (cases "(api, e, st)" rule: cc_event_step.cases)
      (auto simp: cc_ok_def cc3100_recieve_callback_def cc3100_send_callback_def
        cc3100_interrupt_callback_def timerContextCallback_def split: option.splits list.splits)
  moreover have "cc_ok alive ?st" "cc_rx_queue ?st = Some q"
    using Cons.prems cc_event_ok cc_event_same [of api e st] by simp_all
  moreover have "rx_completions (e # evs) = rx_completions [e] @ rx_completions evs"
    by (cases "e # evs" rule: rx_completions.cases) auto
  ultimately show ?case
    using Cons.IH [of ?st] by (simp add: cc_events_def split: option.splits list.splits)
qed (simp add: cc_events_def split: option.splits)

lemma tx_events:
  assumes "cc_ok alive st" and "cc_tx_queue st = Some q"
  shows "slot (cc_os (cc_events api evs st)) q =
    (case slot (cc_os st) q of Some m \<Rightarrow> Some m | None \<Rightarrow> (case tx_completions evs of [] \<Rightarrow> None | m # _ \<Rightarrow> Some m))"
  using assms
proof (induction evs arbitrary: st)
  case (Cons e evs)
  let ?st = "cc_event_step api e st"
  have "slot (cc_os ?st) q = (case slot (cc_os st) q of Some m \<Rightarrow> Some m
      | None \<Rightarrow> (case tx_completions [e] of [] \<Rightarrow> None | m # _ \<Rightarrow> Some m))"
    using Cons.prems send
    by (cases "(api, e, st)" rule: cc_event_step.cases)
      (auto simp: cc_ok_def cc3100_recieve_callback_def cc3100_send_callback_def
        cc3100_interrupt_callback_def timerContextCallback_def split: option.splits list.splits)
  moreover have "cc_ok alive ?st" "cc_tx_queue ?st = Some q"
    using Cons.prems cc_event_ok cc_event_same [of api e st] by simp_all
  moreover have "tx_completions (e # evs) = tx_completions [e] @ tx_completions evs"
    by (cases "e # evs" rule: tx_completions.cases) auto
  ultimately show ?case
    using Cons.IH [of ?st] by (simp add: cc_events_def split: option.splits list.splits)
qed (simp add: cc_events_def split: option.splits)

text \<open>A read and a write answer with the first completion of their own transfer.\<close>

lemma if_read_result:
  assumes "cc_ok alive st"
  shows "fst (CC3100_IfRead api drv evs Fd pBuff Len st) =
      (if \<not> pBuff \<or> Len \<le> 0 \<or> Fd \<noteq> BOARD_CC3100_FD then -1
       else (case cc_rx_queue st of None \<Rightarrow> -1
             | Some q \<Rightarrow> if SPIDRV_MReceive drv Len (q_reset api q (cc_os st)) = ECODE_OK
                         then transferred (rx_completions evs) else -1))
    \<and> cc_ok alive (snd (CC3100_IfRead api drv evs Fd pBuff Len st))"
proof (cases "cc_rx_queue st")
  case None
  then show ?thesis using assms
    by (auto simp: CC3100_IfRead_def cc3100_spi_select_def cc3100_spi_deselect_def cc_ok_def)
next
  case (Some q)
  let ?st = "board_log [GPIO_PinOutClear WIFI_CSN, BOARD_usDelay 1] st\<lparr>cc_os := q_reset api q (cc_os st)\<rparr>"
  have q: "q \<in> alive (cc_os st)" using assms Some by (simp add: cc_ok_def)
  have st: "cc_ok alive ?st" "cc_rx_queue ?st = Some q" "slot (cc_os ?st) q = None"
    using assms Some reset [OF q] by (simp_all add: cc_ok_def)
  note ev = cc_events_ok [OF st(1), of evs] rx_events [OF st(1,2), of evs]
  have q2: "q \<in> alive (cc_os (cc_events api evs ?st))" using ev(1) q reset [OF q] by simp
  from receive [OF q2] ev(2) st(3)
  have msg: "fst (q_receive api q (cc_os (cc_events api evs ?st))) =
      (case rx_completions evs of [] \<Rightarrow> None | m # _ \<Rightarrow> Some m)"
    "alive (snd (q_receive api q (cc_os (cc_events api evs ?st)))) = alive (cc_os (cc_events api evs ?st))"
    by simp_all
  show ?thesis
    using assms Some st msg ev(1) reset [OF q]
    by (simp add: CC3100_IfRead_def cc3100_spi_select_def cc3100_spi_deselect_def case_prod_beta
        transferred_def Let_def split: list.splits) (auto simp: cc_ok_def)
qed

lemma if_write_result:
  assumes "cc_ok alive st"
  shows "fst (CC3100_IfWrite api drv evs Fd pBuff Len st) =
      (if \<not> pBuff \<or> Len \<le> 0 \<or> Fd \<noteq> BOARD_CC3100_FD then -1
       else (case cc_tx_queue st of None \<Rightarrow> -1
             | Some q \<Rightarrow> if SPIDRV_MTransmit drv Len (q_reset api q (cc_os st)) = ECODE_OK
                         then transferred (tx_completions evs) else -1))
    \<and> cc_ok alive (snd (CC3100_IfWrite api drv evs Fd pBuff Len st))"
proof (cases "cc_tx_queue st")
  case None
  then show ?thesis using assms
    by (auto simp: CC3100_IfWrite_def cc3100_spi_select_def cc3100_spi_deselect_def cc_ok_def)
next
  case (Some q)
  let ?st = "board_log [GPIO_PinOutClear WIFI_CSN, BOARD_usDelay 1] st\<lparr>cc_os := q_reset api q (cc_os st)\<rparr>"
  have q: "q \<in> alive (cc_os st)" using assms Some by (simp add: cc_ok_def)
  have st: "cc_ok alive ?st" "cc_tx_queue ?st = Some q" "slot (cc_os ?st) q = None"
    using assms Some reset [OF q] by (simp_all add: cc_ok_def)
  note ev = cc_events_ok [OF st(1), of evs] tx_events [OF st(1,2), of evs]
  have q2: "q \<in> alive (cc_os (cc_events api evs ?st))" using ev(1) q reset [OF q] by simp
  from receive [OF q2] ev(2) st(3)
  have msg: "fst (q_receive api q (cc_os (cc_events api evs ?st))) =
      (case tx_completions evs of [] \<Rightarrow> None | m # _ \<Rightarrow> Some m)"
    "alive (snd (q_receive api q (cc_os (cc_events api evs ?st)))) = alive (cc_os (cc_events api evs ?st))"
    by simp_all
  show ?thesis
    using assms Some st msg ev(1) reset [OF q]
    by (simp add: CC3100_IfWrite_def cc3100_spi_select_def cc3100_spi_deselect_def case_prod_beta
        transferred_def Let_def split: list.splits) (auto simp: cc_ok_def)
qed

text \<open>Opening creates at most the two queues, and closing gives them back.\<close>

lemma if_open_then_close:
  assumes "cc_tx_queue st = None" and "cc_rx_queue st = None"
    and "CC3100_IfOpen api drv pIfName flags st = Some (r, st1)"
  shows "cc_ok alive st1 \<and>
    cc_tx_queue (snd (CC3100_IfClose api drv BOARD_CC3100_FD st1)) = None \<and>
    cc_rx_queue (snd (CC3100_IfClose api drv BOARD_CC3100_FD st1)) = None \<and>
    alive (cc_os (snd (CC3100_IfClose api drv BOARD_CC3100_FD st1))) = alive (cc_os st)"
proof -
  obtain tx k1 where tx: "q_create api (cc_os st) = (tx, k1)" by (cases "q_create api (cc_os st)")
  obtain rx k2 where rx: "q_create api k1 = (rx, k2)" by (cases "q_create api k1")
  have a1: "alive k1 = alive (cc_os st) \<union> set_option tx" "set_option tx \<inter> alive (cc_os st) = {}"
    using tx create create_fails by (cases tx; fastforce)+
  have a2: "alive k2 = alive k1 \<union> set_option rx" "set_option rx \<inter> alive k1 = {}"
    using rx create create_fails by (cases rx; fastforce)+
  have opened: "(cc_tx_queue st1 = tx \<and> cc_rx_queue st1 = rx \<and> cc_os st1 = k2) \<or> st1 = st"
    using assms tx rx
    by (auto simp: CC3100_IfOpen_def create_if_null_def cc3100_spi_deselect_def Let_def
        split: bind_splits if_splits)
  then show ?thesis
  proof
    assume o: "cc_tx_queue st1 = tx \<and> cc_rx_queue st1 = rx \<and> cc_os st1 = k2"
    have "alive (delete_if_set api rx (delete_if_set api tx k2)) = alive k2 - set_option tx - set_option rx"
    proof (cases tx)
      case None
      then show ?thesis using a2 delete by (cases rx) (auto simp: delete_if_set_def)
    next
      case (Some t)
      have t: "alive (q_delete api t k2) = alive k2 - {t}" using delete a1 a2 Some by auto
      show ?thesis
      proof (cases rx)
        case None
        with Some t show ?thesis by (simp add: delete_if_set_def)
      next
        case (Some r)
        with t a1 a2 \<open>tx = Some t\<close> have "r \<in> alive (q_delete api t k2)" by auto
        from delete [OF this] t Some \<open>tx = Some t\<close> show ?thesis by (simp add: delete_if_set_def)
      qed
    qed
    with o a1 a2 show ?thesis
      by (auto simp: CC3100_IfClose_def Let_def cc3100_spi_deselect_def cc_ok_def)
  next
    assume "st1 = st"
    with assms show ?thesis
      by (simp add: CC3100_IfClose_def Let_def cc3100_spi_deselect_def delete_if_set_def cc_ok_def)
  qed
qed

end

interpretation cc_queues: cc_mailbox queues_api queues_alive qs_slot
  by (simp add: cc_mailbox_def queues.mailbox_axioms)

section \<open>Properties\<close>

text \<open>C25: \<open>CC3100_IfRead\<close> and \<open>CC3100_IfWrite\<close> answer with the number of bytes of the first
  completion of their own transfer, and with -1 when the arguments are bad, when the interface is not
  open, when the driver refuses the transfer, when it fails or when no completion arrives in time. A
  completion left in the queue by an earlier transfer, a completion of another handle, of the other
  direction, and any interrupt in between have no influence; and the chip is deselected at the end.\<close>

theorem cc3100_transfers:
  assumes "cc_mailbox api alive slot" and "cc_ok alive st"
  shows "fst (CC3100_IfRead api drv evs Fd pBuff Len st) =
      (if \<not> pBuff \<or> Len \<le> 0 \<or> Fd \<noteq> BOARD_CC3100_FD then -1
       else (case cc_rx_queue st of None \<Rightarrow> -1
             | Some q \<Rightarrow> if SPIDRV_MReceive drv Len (q_reset api q (cc_os st)) = ECODE_OK
                         then transferred (rx_completions evs) else -1)) \<and>
    fst (CC3100_IfWrite api drv evs Fd pBuff Len st) =
      (if \<not> pBuff \<or> Len \<le> 0 \<or> Fd \<noteq> BOARD_CC3100_FD then -1
       else (case cc_tx_queue st of None \<Rightarrow> -1
             | Some q \<Rightarrow> if SPIDRV_MTransmit drv Len (q_reset api q (cc_os st)) = ECODE_OK
                         then transferred (tx_completions evs) else -1)) \<and>
    pin_level WIFI_CSN (cc_log (snd (CC3100_IfRead api drv evs Fd pBuff Len st))) =
      (if \<not> pBuff \<or> Len \<le> 0 \<or> Fd \<noteq> BOARD_CC3100_FD then pin_level WIFI_CSN (cc_log st) else Some True) \<and>
    pin_level WIFI_CSN (cc_log (snd (CC3100_IfWrite api drv evs Fd pBuff Len st))) =
      (if \<not> pBuff \<or> Len \<le> 0 \<or> Fd \<noteq> BOARD_CC3100_FD then pin_level WIFI_CSN (cc_log st) else Some True)"
  using cc_mailbox.if_read_result [OF assms] cc_mailbox.if_write_result [OF assms]
  by (simp add: CC3100_IfRead_def CC3100_IfWrite_def cc3100_spi_deselect_def case_prod_beta Let_def)

definition cc_sample :: "transfer_status queues cc3100" where
  "cc_sample = \<lparr>cc_tx_queue = Some 1, cc_rx_queue = Some 2, cc_handler = None, cc_pValue = 0,
     cc_pended = 0, cc_log = [],
     cc_os = \<lparr>qs_alive = [1, 2], qs_slot = (\<lambda>_. Some (0, 99)), qs_next = 3\<rparr>\<rparr>"

theorem cc3100_transfers_witness:
  "fst (CC3100_IfRead queues_api spidrv_ok
     [Rx_done False 0 7, Tx_done True 0 3, Rx_done True 0 5, Rx_done True 0 9] 1 True 8 cc_sample) = 5"
  using cc3100_transfers [OF cc_queues.cc_mailbox_axioms, of cc_sample spidrv_ok
      "[Rx_done False 0 7, Tx_done True 0 3, Rx_done True 0 5, Rx_done True 0 9]" 1 True 8]
  by (simp add: cc_ok_def cc_sample_def transferred_def spidrv_ok_def)

text \<open>C37: opening the interface from the closed state creates at most the two queues, and closing it
  leaves the kernel with exactly the queues it had before, whatever failed: the interface name, the
  flags, the creation of a queue, or the SPI driver.\<close>

theorem cc3100_open_close:
  assumes "cc_mailbox api alive slot" and "cc_tx_queue st = None" and "cc_rx_queue st = None"
    and "CC3100_IfOpen api drv pIfName flags st = Some (r, st1)"
  shows "cc_ok alive st1 \<and>
    cc_tx_queue (snd (CC3100_IfClose api drv BOARD_CC3100_FD st1)) = None \<and>
    cc_rx_queue (snd (CC3100_IfClose api drv BOARD_CC3100_FD st1)) = None \<and>
    alive (cc_os (snd (CC3100_IfClose api drv BOARD_CC3100_FD st1))) = alive (cc_os st)"
  by (rule cc_mailbox.if_open_then_close [OF assms])

definition cc_closed :: "transfer_status queues cc3100" where
  "cc_closed = \<lparr>cc_tx_queue = None, cc_rx_queue = None, cc_handler = None, cc_pValue = 0,
     cc_pended = 0, cc_log = [], cc_os = queues_init\<rparr>"

theorem cc3100_open_close_witness:
  "\<exists>st1. CC3100_IfOpen queues_api spidrv_ok ''CC3100'' 0 cc_closed = Some (1, st1) \<and>
    cc_rx_queue st1 = Some 2 \<and>
    qs_alive (cc_os (snd (CC3100_IfClose queues_api spidrv_ok 1 st1))) = []"
proof -
  obtain st1 where st1: "CC3100_IfOpen queues_api spidrv_ok ''CC3100'' 0 cc_closed = Some (1, st1)"
      "cc_rx_queue st1 = Some 2"
    by (simp add: CC3100_IfOpen_def create_if_null_def cc_closed_def queues_api_def queues_init_def
        spidrv_ok_def Let_def cc3100_spi_deselect_def)
  with cc3100_open_close [OF cc_queues.cc_mailbox_axioms _ _ st1(1)] show ?thesis
    by (simp add: cc_closed_def queues_init_def)
qed

definition handler_calls :: "'k cc3100 \<Rightarrow> board_call list" where
  "handler_calls st = filter (\<lambda>c. case c of Interrupt_handler h v \<Rightarrow> True | _ \<Rightarrow> False) (cc_log st)"

lemma no_handler_event:
  "cc_handler st = None \<Longrightarrow> handler_calls (cc_event_step api e st) = handler_calls st"
  by (cases "(api, e, st)" rule: cc_event_step.cases)
    (auto simp: handler_calls_def cc3100_recieve_callback_def cc3100_send_callback_def
      cc3100_interrupt_callback_def timerContextCallback_def split: option.splits)

lemma no_handler_events:
  "cc_handler st = None \<Longrightarrow> handler_calls (cc_events api evs st) = handler_calls st"
  by (induction evs arbitrary: st) (simp_all add: cc_events_def no_handler_event cc_event_same)

text \<open>Once the interrupt handler is deregistered no handler runs any more, even for the calls that
  were pended to the timer task before, whatever interrupts and completions arrive.\<close>

lemma cc3100_deregistered:
  "handler_calls (cc_events api evs (CC3100_IfRegIntHdlr None pValue st)) = handler_calls st"
  by (subst no_handler_events)
    (simp_all add: CC3100_IfRegIntHdlr_def handler_calls_def Let_def)

end
