(* ===== verification/SdCard.thy ===== *)
theory SdCard
  imports BoardIo
begin

text \<open>
  The board's side of the SD card slot, \<^verbatim>\<open>c/board/board_sd_card.c\<close>: card detection, pins, SPI
  transfers with a completion queue per direction, and the time stamp for FatFs. The disk driver of
  \<^verbatim>\<open>sdmm.c\<close> (theory \<open>Sdmm\<close>) reaches the card through these functions.

  A transfer blocks without a timeout on its queue. \<open>None\<close> is a call that does not return: no
  completion ever arrives, or the queue was never created, which FreeRTOS stops with an assertion.
\<close>

section \<open>State\<close>

record 'k sd_slot =
  sd_tx_semaphore :: "nat option"
  sd_rx_semaphore :: "nat option"
  sd_detect :: bool                \<comment> \<open>the level of the detect pin\<close>
  sd_log :: "board_call list"
  sd_os :: 'k

abbreviation SD_CARD_CS_PORT :: port where "SD_CARD_CS_PORT \<equiv> gpioPortB"
abbreviation SD_CARD_CS_PIN :: nat where "SD_CARD_CS_PIN \<equiv> 15"
abbreviation SD_CARD_LS_PORT :: port where "SD_CARD_LS_PORT \<equiv> gpioPortC"
abbreviation SD_CARD_LS_PIN :: nat where "SD_CARD_LS_PIN \<equiv> 7"
abbreviation SD_DETECT_PIN :: nat where "SD_DETECT_PIN \<equiv> 12"
abbreviation SD_DETECT :: pin where "SD_DETECT \<equiv> (gpioPortF, SD_DETECT_PIN)"
abbreviation SD_CARD_SPI1_MISO :: pin where "SD_CARD_SPI1_MISO \<equiv> (gpioPortD, 1)"
abbreviation SD_CARD_SPI1_MOSI :: pin where "SD_CARD_SPI1_MOSI \<equiv> (gpioPortD, 0)"
abbreviation SD_CARD_SPI1_SCK :: pin where "SD_CARD_SPI1_SCK \<equiv> (gpioPortD, 2)"
abbreviation BOARD_SD_CARD_BITRATE :: u32 where "BOARD_SD_CARD_BITRATE \<equiv> 10000000"
abbreviation BOARD_SD_CARD_WAKEUP_BITRATE :: u32 where "BOARD_SD_CARD_WAKEUP_BITRATE \<equiv> 100000"

definition sd_logged :: "board_call list \<Rightarrow> 'k sd_slot \<Rightarrow> 'k sd_slot" where
  "sd_logged cs st = st\<lparr>sd_log := sd_log st @ cs\<rparr>"

section \<open>Operations\<close>

definition BOARD_SD_CARD_IsInserted :: "'k sd_slot \<Rightarrow> u32" where
  "BOARD_SD_CARD_IsInserted st = (if \<not> sd_detect st then 1 else 0)"

definition BOARD_SD_Card_Init :: "'k sd_slot \<Rightarrow> 'k sd_slot" where
  "BOARD_SD_Card_Init st = sd_logged
    [GPIO_PinModeSet (SD_CARD_CS_PORT, SD_CARD_CS_PIN) gpioModeWiredAnd 1,
     GPIO_PinModeSet (SD_CARD_LS_PORT, SD_CARD_LS_PIN) gpioModeWiredAnd 1,
     GPIO_PinModeSet SD_DETECT gpioModeInputPullFilter 1,
     GPIO_PinModeSet SD_CARD_SPI1_MISO gpioModeInput 0,
     GPIO_PinModeSet SD_CARD_SPI1_MOSI gpioModePushPull 0,
     GPIO_PinModeSet SD_CARD_SPI1_SCK gpioModePushPull 0,
     GPIOINT_CallbackRegister SD_DETECT_PIN,
     GPIO_ExtIntConfig SD_DETECT SD_DETECT_PIN True True False] st"

definition semaphore_if_null :: "(u32, 'k) queue_api \<Rightarrow> nat option \<Rightarrow> 'k \<Rightarrow> nat option \<times> 'k" where
  "semaphore_if_null api q k = (if q = None then q_create api k else (q, k))"

text \<open>The result of \<open>SPIDRV_Init\<close> is not looked at.\<close>

definition BOARD_SD_Card_Enable :: "(u32, 'k) queue_api \<Rightarrow> 'k sd_slot \<Rightarrow> 'k sd_slot" where
  "BOARD_SD_Card_Enable api st =
    (case semaphore_if_null api (sd_tx_semaphore st) (sd_os st) of
       (tx, k1) \<Rightarrow>
         (case semaphore_if_null api (sd_rx_semaphore st) k1 of
            (rx, k2) \<Rightarrow>
              sd_logged
                [SPIDRV_SetBitrate BOARD_SD_CARD_WAKEUP_BITRATE,
                 GPIOINT_CallbackRegister SD_DETECT_PIN,
                 GPIO_ExtIntConfig SD_DETECT SD_DETECT_PIN True True True]
                (st\<lparr>sd_tx_semaphore := tx, sd_rx_semaphore := rx, sd_os := k2\<rparr>)))"

text \<open>The second line gives the port of the level shifter with the pin of the chip select.\<close>

definition BOARD_SD_Card_Disable :: "'k sd_slot \<Rightarrow> 'k sd_slot" where
  "BOARD_SD_Card_Disable st = sd_logged
    [GPIO_PinModeSet (SD_CARD_CS_PORT, SD_CARD_CS_PIN) gpioModeDisabled 1,
     GPIO_PinModeSet (SD_CARD_LS_PORT, SD_CARD_CS_PIN) gpioModeDisabled 1,
     GPIO_PinModeSet SD_DETECT gpioModeInputPullFilter 1,
     GPIO_PinModeSet SD_CARD_SPI1_MISO gpioModeDisabled 0,
     GPIO_PinModeSet SD_CARD_SPI1_MOSI gpioModeDisabled 0,
     GPIO_PinModeSet SD_CARD_SPI1_SCK gpioModeDisabled 0,
     GPIO_ExtIntConfig SD_DETECT SD_DETECT_PIN False False False] st"

definition BOARD_SD_CARD_Deselect :: "'k sd_slot \<Rightarrow> 'k sd_slot" where
  "BOARD_SD_CARD_Deselect st = sd_logged [GPIO_PinOutSet (SD_CARD_CS_PORT, SD_CARD_CS_PIN)] st"

definition BOARD_SD_CARD_Select :: "'k sd_slot \<Rightarrow> 'k sd_slot" where
  "BOARD_SD_CARD_Select st = sd_logged [GPIO_PinOutClear (SD_CARD_CS_PORT, SD_CARD_CS_PIN)] st"

definition BOARD_SD_CARD_SetFastBaudrate :: "'k sd_slot \<Rightarrow> 'k sd_slot" where
  "BOARD_SD_CARD_SetFastBaudrate st = sd_logged [SPIDRV_SetBitrate BOARD_SD_CARD_BITRATE] st"

definition BOARD_SD_CARD_SetSlowBaudrate :: "'k sd_slot \<Rightarrow> 'k sd_slot" where
  "BOARD_SD_CARD_SetSlowBaudrate st = sd_logged [SPIDRV_SetBitrate BOARD_SD_CARD_WAKEUP_BITRATE] st"

section \<open>Transfers\<close>

definition sd_recieve_callback ::
  "(u32, 'k) queue_api \<Rightarrow> bool \<Rightarrow> u32 \<Rightarrow> 'k sd_slot \<Rightarrow> 'k sd_slot" where
  "sd_recieve_callback api own transferStatus st =
    (if own then
       (case sd_rx_semaphore st of
          Some q \<Rightarrow> st\<lparr>sd_os := q_send api q transferStatus (sd_os st)\<rparr>
        | None \<Rightarrow> st)
     else st)"

definition sd_send_callback ::
  "(u32, 'k) queue_api \<Rightarrow> bool \<Rightarrow> u32 \<Rightarrow> 'k sd_slot \<Rightarrow> 'k sd_slot" where
  "sd_send_callback api own transferStatus st =
    (if own then
       (case sd_tx_semaphore st of
          Some q \<Rightarrow> st\<lparr>sd_os := q_send api q transferStatus (sd_os st)\<rparr>
        | None \<Rightarrow> st)
     else st)"

datatype sd_event = Sd_rx bool u32 | Sd_tx bool u32

fun sd_event_step :: "(u32, 'k) queue_api \<Rightarrow> sd_event \<Rightarrow> 'k sd_slot \<Rightarrow> 'k sd_slot" where
  "sd_event_step api (Sd_rx own s) st = sd_recieve_callback api own s st"
| "sd_event_step api (Sd_tx own s) st = sd_send_callback api own s st"

definition sd_events :: "(u32, 'k) queue_api \<Rightarrow> sd_event list \<Rightarrow> 'k sd_slot \<Rightarrow> 'k sd_slot" where
  "sd_events api evs st = fold (sd_event_step api) evs st"

definition BOARD_SD_CARD_Recieve ::
  "(u32, 'k) queue_api \<Rightarrow> 'k spidrv \<Rightarrow> sd_event list \<Rightarrow> int \<Rightarrow> 'k sd_slot \<Rightarrow> (u32 \<times> 'k sd_slot) option" where
  "BOARD_SD_CARD_Recieve api drv evs count st =
    do { q \<leftarrow> sd_rx_semaphore st;
         let k1 = q_reset api q (sd_os st);
         let ecode = SPIDRV_MReceive drv count k1;
         (if ecode = ECODE_OK then
            (let st1 = sd_events api evs (st\<lparr>sd_os := k1\<rparr>) in
             case q_receive api q (sd_os st1) of
               (Some e, k2) \<Rightarrow> Some (e, st1\<lparr>sd_os := k2\<rparr>)
             | (None, k2) \<Rightarrow> None)
          else Some (ecode, st\<lparr>sd_os := k1\<rparr>)) }"

definition BOARD_SD_CARD_Send ::
  "(u32, 'k) queue_api \<Rightarrow> 'k spidrv \<Rightarrow> sd_event list \<Rightarrow> int \<Rightarrow> 'k sd_slot \<Rightarrow> (u32 \<times> 'k sd_slot) option" where
  "BOARD_SD_CARD_Send api drv evs count st =
    do { q \<leftarrow> sd_tx_semaphore st;
         let k1 = q_reset api q (sd_os st);
         let ecode = SPIDRV_MTransmit drv count k1;
         (if ecode = ECODE_OK then
            (let st1 = sd_events api evs (st\<lparr>sd_os := k1\<rparr>) in
             case q_receive api q (sd_os st1) of
               (Some e, k2) \<Rightarrow> Some (e, st1\<lparr>sd_os := k2\<rparr>)
             | (None, k2) \<Rightarrow> None)
          else Some (ecode, st\<lparr>sd_os := k1\<rparr>)) }"

section \<open>The time stamp of FatFs\<close>

text \<open>
  \<^verbatim>\<open>sl_sleeptimer_date_t\<close>: the year counts from 1900 and the month from 0. The sum and the
  difference are of type \<open>int\<close> and are then converted to 32 bits.
\<close>

record date =
  dt_sec :: byte
  dt_min :: byte
  dt_hour :: byte
  dt_month_day :: byte
  dt_month :: nat
  dt_year :: u16

definition get_fattime :: "date \<Rightarrow> u32" where
  "get_fattime d =
    push_bit 25 (word_of_int (uint (dt_year d) - 80)) OR
    push_bit 21 (word_of_int (int (dt_month d) + 1)) OR
    push_bit 16 (ucast (dt_month_day d)) OR
    push_bit 11 (ucast (dt_hour d)) OR
    push_bit 5 (ucast (dt_min d)) OR
    drop_bit 1 (ucast (dt_sec d))"

text \<open>The fields of a FAT time stamp, as FatFs documents them.\<close>

definition fat_year :: "u32 \<Rightarrow> nat" where "fat_year t = 1980 + unat (drop_bit 25 t)"
definition fat_month :: "u32 \<Rightarrow> nat" where "fat_month t = unat (take_bit 4 (drop_bit 21 t))"
definition fat_day :: "u32 \<Rightarrow> nat" where "fat_day t = unat (take_bit 5 (drop_bit 16 t))"
definition fat_hour :: "u32 \<Rightarrow> nat" where "fat_hour t = unat (take_bit 5 (drop_bit 11 t))"
definition fat_min :: "u32 \<Rightarrow> nat" where "fat_min t = unat (take_bit 6 (drop_bit 5 t))"
definition fat_sec :: "u32 \<Rightarrow> nat" where "fat_sec t = 2 * unat (take_bit 5 t)"

lemma fat_pack:
  fixes y m d h mi s :: u32
  defines "t \<equiv> push_bit 25 (take_bit 7 y) OR push_bit 21 (take_bit 4 m) OR push_bit 16 (take_bit 5 d) OR
    push_bit 11 (take_bit 5 h) OR push_bit 5 (take_bit 6 mi) OR take_bit 5 s"
  shows "drop_bit 25 t = take_bit 7 y" "take_bit 4 (drop_bit 21 t) = take_bit 4 m"
    "take_bit 5 (drop_bit 16 t) = take_bit 5 d" "take_bit 5 (drop_bit 11 t) = take_bit 5 h"
    "take_bit 6 (drop_bit 5 t) = take_bit 6 mi" "take_bit 5 t = take_bit 5 s"
  unfolding t_def by (rule bit_word_eqI; auto simp: bit_simps)+

lemma take_bit_small: "unat (w :: u32) < 2 ^ n \<Longrightarrow> take_bit n w = w"
  by (simp add: word_unat_eq_iff take_bit_nat_eq_self unsigned_take_bit_eq)

text \<open>C38: the time stamp that FatFs stores decodes to the date and time of the clock, for every date of
  the years 1980 to 2107, with the seconds rounded down to an even number.\<close>

theorem fattime_fields:
  assumes "80 \<le> unat (dt_year d)" and "unat (dt_year d) < 208" and "dt_month d < 12"
    and "unat (dt_month_day d) < 32" and "unat (dt_hour d) < 24" and "unat (dt_min d) < 60"
    and "unat (dt_sec d) < 60"
  shows "fat_year (get_fattime d) = 1900 + unat (dt_year d) \<and>
    fat_month (get_fattime d) = dt_month d + 1 \<and> fat_day (get_fattime d) = unat (dt_month_day d) \<and>
    fat_hour (get_fattime d) = unat (dt_hour d) \<and> fat_min (get_fattime d) = unat (dt_min d) \<and>
    fat_sec (get_fattime d) = 2 * (unat (dt_sec d) div 2)"
proof -
  let ?y = "word_of_int (uint (dt_year d) - 80) :: u32" and ?m = "word_of_int (int (dt_month d) + 1) :: u32"
    and ?d = "ucast (dt_month_day d) :: u32" and ?h = "ucast (dt_hour d) :: u32"
    and ?mi = "ucast (dt_min d) :: u32" and ?s = "drop_bit 1 (ucast (dt_sec d)) :: u32"
  have n: "int (unat x) = uint x" for x :: "'b::len word" by simp
  have "uint ?y = uint (dt_year d) - 80"
    using assms(1,2) n [of "dt_year d"] by (intro u32_of_int; linarith)
  then have y: "unat ?y = unat (dt_year d) - 80"
    using assms(1) n [of ?y] n [of "dt_year d"] by linarith
  have "uint ?m = int (dt_month d) + 1" using assms(3) by (intro u32_of_int; linarith)
  then have m: "unat ?m = dt_month d + 1" using n [of ?m] by linarith
  have w: "unat (ucast (b :: byte) :: u32) = unat b" for b 
  proof -
    have "uint b < 256" using uint_lt2p [of b] by simp
    then have "unat b < 4294967296" using n [of b] by linarith
    then show ?thesis by (simp add: unsigned_ucast_eq take_bit_nat_eq_self)
  qed
  have sc: "unat ?s = unat (dt_sec d) div 2"
    by (simp only: unat_drop_bit_eq w) (simp add: drop_bit_eq_div)
  have t: "take_bit 7 ?y = ?y" "take_bit 4 ?m = ?m" "take_bit 5 ?d = ?d" "take_bit 5 ?h = ?h"
      "take_bit 6 ?mi = ?mi" "take_bit 5 ?s = ?s"
    by (rule take_bit_small, use assms y m w sc in simp)+
  show ?thesis
    using fat_pack [of ?y ?m ?d ?h ?mi ?s] assms(1) y m w sc
    unfolding t get_fattime_def [symmetric]
    by (simp add: fat_year_def fat_month_def fat_day_def fat_hour_def fat_min_def fat_sec_def)
qed

theorem fattime_fields_witness:
  "fat_year (get_fattime \<lparr>dt_sec = 31, dt_min = 45, dt_hour = 10, dt_month_day = 11, dt_month = 10, dt_year = 122\<rparr>) = 2022"
  using fattime_fields [of "\<lparr>dt_sec = 31, dt_min = 45, dt_hour = 10, dt_month_day = 11, dt_month = 10, dt_year = 122\<rparr>"]
  by simp

section \<open>Waiting for a transfer\<close>

fun sd_rx_completions :: "sd_event list \<Rightarrow> u32 list" where
  "sd_rx_completions [] = []"
| "sd_rx_completions (Sd_rx True s # evs) = s # sd_rx_completions evs"
| "sd_rx_completions (e # evs) = sd_rx_completions evs"

fun sd_tx_completions :: "sd_event list \<Rightarrow> u32 list" where
  "sd_tx_completions [] = []"
| "sd_tx_completions (Sd_tx True s # evs) = s # sd_tx_completions evs"
| "sd_tx_completions (e # evs) = sd_tx_completions evs"

definition sd_ready :: "('k \<Rightarrow> nat set) \<Rightarrow> nat \<Rightarrow> nat \<Rightarrow> 'k sd_slot \<Rightarrow> bool" where
  "sd_ready alive tx rx st \<longleftrightarrow> sd_tx_semaphore st = Some tx \<and> sd_rx_semaphore st = Some rx \<and> tx \<noteq> rx \<and>
     tx \<in> alive (sd_os st) \<and> rx \<in> alive (sd_os st)"

locale sd_mailbox = mailbox api alive slot
  for api :: "(u32, 'k) queue_api" and alive and slot
begin

text \<open>A completion goes to the queue of its direction.\<close>

lemma sd_event:
  assumes "sd_ready alive tx rx st"
  shows "sd_ready alive tx rx (sd_event_step api e st) \<and>
    slot (sd_os (sd_event_step api e st)) rx =
      (case slot (sd_os st) rx of Some m \<Rightarrow> Some m | None \<Rightarrow> first_of (sd_rx_completions [e])) \<and>
    slot (sd_os (sd_event_step api e st)) tx =
      (case slot (sd_os st) tx of Some m \<Rightarrow> Some m | None \<Rightarrow> first_of (sd_tx_completions [e]))"
  using assms send
  by (cases "(api, e, st)" rule: sd_event_step.cases)
    (auto simp: sd_ready_def sd_recieve_callback_def sd_send_callback_def split: option.splits)

lemma sd_events_slots:
  "sd_ready alive tx rx st \<Longrightarrow> sd_ready alive tx rx (sd_events api evs st) \<and>
    slot (sd_os (sd_events api evs st)) rx =
      (case slot (sd_os st) rx of Some m \<Rightarrow> Some m | None \<Rightarrow> first_of (sd_rx_completions evs)) \<and>
    slot (sd_os (sd_events api evs st)) tx =
      (case slot (sd_os st) tx of Some m \<Rightarrow> Some m | None \<Rightarrow> first_of (sd_tx_completions evs))"
proof (induction evs arbitrary: st)
  case (Cons e evs)
  have "sd_rx_completions (e # evs) = sd_rx_completions [e] @ sd_rx_completions evs"
    by (cases "e # evs" rule: sd_rx_completions.cases) auto
  moreover have "sd_tx_completions (e # evs) = sd_tx_completions [e] @ sd_tx_completions evs"
    by (cases "e # evs" rule: sd_tx_completions.cases) auto
  ultimately show ?case
    using sd_event [OF Cons.prems, of e] Cons.IH [of "sd_event_step api e st"]
    by (simp add: sd_events_def split: option.splits list.splits)
qed (simp add: sd_events_def split: option.splits)

lemma recieve_result:
  assumes "sd_ready alive tx rx st"
  shows "map_option fst (BOARD_SD_CARD_Recieve api drv evs n st) =
    (let e = SPIDRV_MReceive drv n (q_reset api rx (sd_os st)) in
     if e = ECODE_OK then first_of (sd_rx_completions evs) else Some e)"
proof -
  let ?st = "st\<lparr>sd_os := q_reset api rx (sd_os st)\<rparr>"
  have q: "rx \<in> alive (sd_os st)" using assms by (simp add: sd_ready_def)
  have st: "sd_ready alive tx rx ?st" "slot (sd_os ?st) rx = None"
    using assms reset [OF q] by (simp_all add: sd_ready_def)
  from sd_events_slots [OF st(1), of evs] st(2)
  have ev: "rx \<in> alive (sd_os (sd_events api evs ?st))"
      "slot (sd_os (sd_events api evs ?st)) rx = first_of (sd_rx_completions evs)"
    by (simp_all add: sd_ready_def)
  from receive [OF ev(1)] ev(2) assms show ?thesis
    by (cases "q_receive api rx (sd_os (sd_events api evs ?st))")
      (auto simp: BOARD_SD_CARD_Recieve_def Let_def sd_ready_def split: option.splits)
qed

lemma send_result:
  assumes "sd_ready alive tx rx st"
  shows "map_option fst (BOARD_SD_CARD_Send api drv evs n st) =
    (let e = SPIDRV_MTransmit drv n (q_reset api tx (sd_os st)) in
     if e = ECODE_OK then first_of (sd_tx_completions evs) else Some e)"
proof -
  let ?st = "st\<lparr>sd_os := q_reset api tx (sd_os st)\<rparr>"
  have q: "tx \<in> alive (sd_os st)" using assms by (simp add: sd_ready_def)
  have st: "sd_ready alive tx rx ?st" "slot (sd_os ?st) tx = None"
    using assms reset [OF q] by (simp_all add: sd_ready_def)
  from sd_events_slots [OF st(1), of evs] st(2)
  have ev: "tx \<in> alive (sd_os (sd_events api evs ?st))"
      "slot (sd_os (sd_events api evs ?st)) tx = first_of (sd_tx_completions evs)"
    by (simp_all add: sd_ready_def)
  from receive [OF ev(1)] ev(2) assms show ?thesis
    by (cases "q_receive api tx (sd_os (sd_events api evs ?st))")
      (auto simp: BOARD_SD_CARD_Send_def Let_def sd_ready_def split: option.splits)
qed

text \<open>A transfer leaves the slot ready for the next one.\<close>

lemma recieve_ready:
  assumes "sd_ready alive tx rx st" and "BOARD_SD_CARD_Recieve api drv evs n st = Some (r, st')"
  shows "sd_ready alive tx rx st'"
proof -
  let ?st = "st\<lparr>sd_os := q_reset api rx (sd_os st)\<rparr>"
  have st: "sd_ready alive tx rx ?st" using assms(1) reset by (simp add: sd_ready_def)
  then have ev: "sd_ready alive tx rx (sd_events api evs ?st)" using sd_events_slots by blast
  then have "sd_ready alive tx rx
      ((sd_events api evs ?st)\<lparr>sd_os := snd (q_receive api rx (sd_os (sd_events api evs ?st)))\<rparr>)"
    using receive [of rx] by (simp add: sd_ready_def)
  then show ?thesis using assms st
    by (auto simp: BOARD_SD_CARD_Recieve_def Let_def sd_ready_def split: if_splits option.splits prod.splits)
qed

lemma send_ready:
  assumes "sd_ready alive tx rx st" and "BOARD_SD_CARD_Send api drv evs n st = Some (r, st')"
  shows "sd_ready alive tx rx st'"
proof -
  let ?st = "st\<lparr>sd_os := q_reset api tx (sd_os st)\<rparr>"
  have st: "sd_ready alive tx rx ?st" using assms(1) reset by (simp add: sd_ready_def)
  then have ev: "sd_ready alive tx rx (sd_events api evs ?st)" using sd_events_slots by blast
  then have "sd_ready alive tx rx
      ((sd_events api evs ?st)\<lparr>sd_os := snd (q_receive api tx (sd_os (sd_events api evs ?st)))\<rparr>)"
    using receive [of tx] by (simp add: sd_ready_def)
  then show ?thesis using assms st
    by (auto simp: BOARD_SD_CARD_Send_def Let_def sd_ready_def split: if_splits option.splits prod.splits)
qed

text \<open>Enabling the slot creates both queues when the kernel has room for them.\<close>

lemma enable_ready:
  assumes "sd_tx_semaphore st = None" and "sd_rx_semaphore st = None"
    and "q_create api (sd_os st) = (Some tx, k1)" and "q_create api k1 = (Some rx, k2)"
  shows "sd_ready alive tx rx (BOARD_SD_Card_Enable api st)"
  using assms create [OF assms(3)] create [OF assms(4)]
  by (auto simp: BOARD_SD_Card_Enable_def semaphore_if_null_def sd_ready_def sd_logged_def)

end

interpretation sd_queues: sd_mailbox queues_api queues_alive qs_slot
  by (simp add: sd_mailbox_def queues.mailbox_axioms)

text \<open>
  A slot in use: enabled from the state after a reset, then any transfers, with any results of the
  driver, and any interrupts between them, so that completions may lie in the queues.
\<close>

inductive sd_used ::
  "(u32, 'k) queue_api \<Rightarrow> nat \<Rightarrow> nat \<Rightarrow> 'k sd_slot \<Rightarrow> bool" for api tx rx where
  used_enable: "sd_tx_semaphore st = None \<Longrightarrow> sd_rx_semaphore st = None \<Longrightarrow>
    q_create api (sd_os st) = (Some tx, k1) \<Longrightarrow> q_create api k1 = (Some rx, k2) \<Longrightarrow>
    sd_used api tx rx (BOARD_SD_Card_Enable api st)"
| used_events: "sd_used api tx rx st \<Longrightarrow> sd_used api tx rx (sd_events api evs st)"
| used_recieve: "sd_used api tx rx st \<Longrightarrow> BOARD_SD_CARD_Recieve api drv evs n st = Some (r, st') \<Longrightarrow>
    sd_used api tx rx st'"
| used_send: "sd_used api tx rx st \<Longrightarrow> BOARD_SD_CARD_Send api drv evs n st = Some (r, st') \<Longrightarrow>
    sd_used api tx rx st'"

lemma sd_used_ready:
  assumes "sd_mailbox api alive slot" and "sd_used api tx rx st"
  shows "sd_ready alive tx rx st"
  using assms(2)
proof (induction rule: sd_used.induct)
  case (used_enable st k1 k2)
  then show ?case by (rule sd_mailbox.enable_ready [OF assms(1)])
next
  case (used_events st evs)
  then show ?case using sd_mailbox.sd_events_slots [OF assms(1)] by blast
next
  case (used_recieve st drv evs n r st')
  then show ?case using sd_mailbox.recieve_ready [OF assms(1)] by blast
next
  case (used_send st drv evs n r st')
  then show ?case using sd_mailbox.send_ready [OF assms(1)] by blast
qed

text \<open>C30: waiting for a transfer of the SD card. At any time after the slot was enabled, whatever
  transfers and interrupts came before, and so with any completions left in the two queues, a
  reception and a transmission return exactly when the driver refuses the transfer or a completion of
  that direction arrives while they wait, and then with the status of the first; an old completion and
  completions of the other direction or of another device are not taken for it. Without a completion
  the call waits forever.\<close>

theorem sd_card_transfers:
  assumes "sd_mailbox api alive slot" and "sd_used api tx rx st"
  shows "map_option fst (BOARD_SD_CARD_Recieve api drv evs n st) =
      (let e = SPIDRV_MReceive drv n (q_reset api rx (sd_os st)) in
       if e = ECODE_OK then first_of (sd_rx_completions evs) else Some e) \<and>
    map_option fst (BOARD_SD_CARD_Send api drv evs n st) =
      (let e = SPIDRV_MTransmit drv n (q_reset api tx (sd_os st)) in
       if e = ECODE_OK then first_of (sd_tx_completions evs) else Some e)"
  using sd_used_ready [OF assms] sd_mailbox.recieve_result [OF assms(1)]
    sd_mailbox.send_result [OF assms(1)] by blast

definition sd_card_sample :: "u32 queues sd_slot" where
  \<comment> \<open>the slot after it was enabled and an interrupt came late, for evaluation\<close>
  "sd_card_sample = sd_events queues_api [Sd_rx True 99] (BOARD_SD_Card_Enable queues_api
     \<lparr>sd_tx_semaphore = None, sd_rx_semaphore = None, sd_detect = False, sd_log = [], sd_os = queues_init\<rparr>)"

theorem sd_card_transfers_witness:
  "map_option fst (BOARD_SD_CARD_Recieve queues_api spidrv_ok
      [Sd_tx True 4, Sd_rx False 5, Sd_rx True 0, Sd_rx True 9] 6 sd_card_sample) = Some 0 \<and>
   fst (q_receive queues_api 2 (sd_os sd_card_sample)) = Some 99"
proof -
  have "sd_used queues_api 1 2 sd_card_sample"
    unfolding sd_card_sample_def
    by (rule used_events, rule used_enable
        [where ?k1.0 = "\<lparr>qs_alive = [1], qs_slot = (\<lambda>_. None), qs_next = 2\<rparr>"
          and ?k2.0 = "\<lparr>qs_alive = [2, 1], qs_slot = (\<lambda>_. None), qs_next = 3\<rparr>"])
      (auto simp: queues_api_def queues_init_def)
  moreover have "fst (q_receive queues_api 2 (sd_os sd_card_sample)) = Some 99"
    by (simp add: sd_card_sample_def sd_events_def sd_recieve_callback_def BOARD_SD_Card_Enable_def
        semaphore_if_null_def sd_logged_def queues_api_def queues_init_def)
  ultimately show ?thesis
    using sd_card_transfers [OF sd_queues.sd_mailbox_axioms, of 1 2 sd_card_sample spidrv_ok
        "[Sd_tx True 4, Sd_rx False 5, Sd_rx True 0, Sd_rx True 9]" 6]
    by (simp add: spidrv_ok_def)
qed

end
