(* ===== verification/Sensors.thy ===== *)
theory Sensors
  imports Osal BoardIo
begin

text \<open>
  The sensor bus: the I2C transfer of \<^verbatim>\<open>c/board/board_i2c_sensors.c\<close>, guarded by a mutex and
  finished by an interrupt, and the register access functions of the five sensors that the Bosch
  drivers call (\<^verbatim>\<open>board_bma280.c\<close>, \<^verbatim>\<open>board_bme280.c\<close>, \<^verbatim>\<open>board_bmg160.c\<close>, \<^verbatim>\<open>board_bmm150.c\<close>,
  \<^verbatim>\<open>board_bmi160.c\<close>).

  The kernel's mutexes and queues, the vendor's I2C driver and the constants of the Bosch drivers are
  arguments. \<open>None\<close> is a call that does not return: the bus was never initialised, which stops in the
  kernel, or no completion arrives for a wait without a timeout. The calls that take part in the
  exclusion on the bus are logged in their order, with the mutex and the queue they are made on.
\<close>

section \<open>The bus\<close>

datatype i2c_flags = I2C_FLAG_WRITE_READ | I2C_FLAG_WRITE_WRITE

text \<open>
  A transfer: the address, the register byte, and the second buffer with its length. The data of a
  write are the buffer's contents; a read fills the buffer, and its data are empty here. The length
  field of the driver has 16 bits.
\<close>

record i2c_seq =
  sq_addr :: u16
  sq_reg :: byte
  sq_data :: "byte list"
  sq_len :: u16
  sq_flags :: i2c_flags

abbreviation i2cTransferInProgress :: int where "i2cTransferInProgress \<equiv> 1"
abbreviation i2cTransferDone :: int where "i2cTransferDone \<equiv> 0"
abbreviation i2cTransferSwFault :: int where "i2cTransferSwFault \<equiv> -5"

record 'k i2c_driver =
  I2C_TransferInit :: "i2c_seq \<Rightarrow> 'k \<Rightarrow> int"
  I2C_Transfer :: "i2c_seq \<Rightarrow> 'k \<Rightarrow> int"

datatype sensor = BMA280 | BME280 | BMG160 | BMM150 | BMI160

record 'k i2c_bus =
  i2c0_semaphore :: "nat option"
  i2c0_mutex :: "nat option"
  i2c_installed :: "sensor list"   \<comment> \<open>the devices whose access functions are installed\<close>
  i2c_log :: "board_call list"
  i2c_os :: 'k

definition i2c_logged :: "board_call list \<Rightarrow> 'k i2c_bus \<Rightarrow> 'k i2c_bus" where
  "i2c_logged cs st = st\<lparr>i2c_log := i2c_log st @ cs\<rparr>"

text \<open>Sensor supplies off, interrupt and bus pins configured.\<close>

definition i2c_pins :: "board_call list" where
  "i2c_pins =
    [GPIO_PinModeSet (gpioPortE, 7) gpioModePushPull 0,
     GPIO_PinModeSet (gpioPortE, 8) gpioModePushPullDrive 0,
     GPIO_PinModeSet (gpioPortD, 13) gpioModePushPullDrive 0,
     GPIO_PinModeSet (gpioPortE, 3) gpioModePushPullDrive 0,
     GPIO_PinModeSet (gpioPortE, 5) gpioModePushPull 0,
     GPIO_PinModeSet (gpioPortE, 6) gpioModePushPullDrive 0,
     GPIO_PinModeSet (gpioPortF, 8) gpioModeInputPullFilter 0,
     GPIO_PinModeSet (gpioPortF, 9) gpioModeInputPullFilter 0,
     GPIO_PinModeSet (gpioPortC, 6) gpioModeInputPullFilter 0,
     GPIO_PinModeSet (gpioPortA, 7) gpioModeInputPullFilter 0,
     GPIO_PinModeSet (gpioPortA, 13) gpioModeInputPullFilter 0,
     GPIO_PinModeSet (gpioPortA, 14) gpioModeInputPullFilter 0,
     GPIO_PinModeSet (gpioPortE, 15) gpioModeInputPullFilter 0,
     GPIO_PinModeSet (gpioPortD, 12) gpioModeInputPullFilter 0,
     GPIO_PinModeSet (gpioPortE, 4) gpioModeInputPullFilter 0,
     GPIO_PinModeSet (gpioPortD, 15) gpioModeWiredAnd 1,
     GPIO_PinModeSet (gpioPortD, 14) gpioModeWiredAnd 1,
     NVIC_ClearPendingIRQ ''I2C0'', NVIC_SetPriority ''I2C0'' 5]"

text \<open>The application build (\<^verbatim>\<open>MISO_APPLICATION\<close>): each kernel object is created once.\<close>

definition board_i2c_init ::
  "'k sem_api \<Rightarrow> (int, 'k) queue_api \<Rightarrow> 'k i2c_bus \<Rightarrow> 'k i2c_bus" where
  "board_i2c_init sapi qapi st =
    (let st1 =
       (if i2c0_semaphore st = None
        then (case q_create qapi (i2c_os st) of (q, k) \<Rightarrow> (i2c_logged i2c_pins st)\<lparr>i2c0_semaphore := q, i2c_os := k\<rparr>)
        else i2c_logged i2c_pins st) in
     i2c_logged [I2CSPM_Init]
      (if i2c0_mutex st1 = None
       then (case sem_create sapi (i2c_os st1) of
               (m, k) \<Rightarrow>
                 st1\<lparr>i2c0_mutex := m,
                     i2c_os := (case m of Some h \<Rightarrow> snd (sem_give sapi h k) | None \<Rightarrow> k)\<rparr>)
       else st1))"

text \<open>The interrupt posts every result but \<open>i2cTransferInProgress\<close>.\<close>

definition I2C0_IRQHandler :: "(int, 'k) queue_api \<Rightarrow> int \<Rightarrow> 'k i2c_bus \<Rightarrow> 'k i2c_bus" where
  "I2C0_IRQHandler qapi ret st =
    (if ret \<noteq> i2cTransferInProgress then
       (case i2c0_semaphore st of
          Some q \<Rightarrow> st\<lparr>i2c_os := q_send qapi q ret (i2c_os st)\<rparr>
        | None \<Rightarrow> st)
     else st)"

text \<open>
  \<open>irqs\<close>: the results of the interrupts that arrive until the task has its message. \<open>late\<close>: those that
  arrive after that, before the interrupt is disabled.
\<close>

definition i2c_interrupts :: "(int, 'k) queue_api \<Rightarrow> int list \<Rightarrow> 'k i2c_bus \<Rightarrow> 'k i2c_bus" where
  "i2c_interrupts qapi irqs st =
    fold (\<lambda>ret st. I2C0_IRQHandler qapi ret (i2c_logged [I2C_step] st)) irqs st"

definition board_i2c0_transfer ::
  "'k sem_api \<Rightarrow> (int, 'k) queue_api \<Rightarrow> 'k i2c_driver \<Rightarrow> int list \<Rightarrow> int list \<Rightarrow> i2c_seq \<Rightarrow> 'k i2c_bus \<Rightarrow>
    (int \<times> 'k i2c_bus) option" where
  "board_i2c0_transfer sapi qapi drv irqs late seq st =
    do { m \<leftarrow> i2c0_mutex st;
         (case sem_take sapi m (i2c_os st) of
            (False, k0) \<Rightarrow> Some (i2cTransferSwFault, i2c_logged [XSemaphoreTake m False] (st\<lparr>i2c_os := k0\<rparr>))
          | (True, k0) \<Rightarrow>
              do { let st1 = i2c_logged [XSemaphoreTake m True, NVIC_EnableIRQ ''I2C0'', I2C_begin] (st\<lparr>i2c_os := k0\<rparr>);
                   let ret = I2C_TransferInit drv seq (i2c_os st1);
                   (ret2, st2) \<leftarrow>
                     (if ret > 0 then
                        do { q \<leftarrow> i2c0_semaphore st1;
                             let st2 = i2c_interrupts qapi irqs (i2c_logged [XQueueReceive q] st1);
                             (case q_receive qapi q (i2c_os st2) of
                                (Some r, k1) \<Rightarrow> Some (r, st2\<lparr>i2c_os := k1\<rparr>)
                              | (None, k1) \<Rightarrow> None) }
                      else if ret = 0
                      then Some (I2C_Transfer drv seq (i2c_os st1), i2c_logged [I2C_step] st1)
                      else Some (ret, st1));
                   let st3 = i2c_logged [NVIC_ClearPendingIRQ ''I2C0'', NVIC_DisableIRQ ''I2C0'']
                     (i2c_interrupts qapi late st2);
                   Some (ret2, i2c_logged [XSemaphoreGive m] (st3\<lparr>i2c_os := snd (sem_give sapi m (i2c_os st3))\<rparr>)) }) }"

section \<open>The sensors\<close>

text \<open>Addresses and return codes of the Bosch drivers.\<close>

record bosch =
  BMA2_I2C_ADDR1 :: byte
  BME280_I2C_ADDR_PRIM :: byte
  BMM150_DEFAULT_I2C_ADDRESS :: byte
  BMI160_I2C_ADDR :: byte
  BMG160_I2C_ADDR1 :: byte
  BMA2_OK :: int
  BMA2_E_COM_FAIL :: int
  BME280_INTF_RET_SUCCESS :: int
  BME280_E_COMM_FAIL :: int
  BMM150_INTF_RET_SUCCESS :: int
  BMM150_E_COM_FAIL :: int
  C_BMG160_SUCCESS :: int

text \<open>
  The body that the access functions share: they fill the transfer and turn its result into a code
  of the sensor's driver. \<open>len\<close> has 8, 16 or 32 bits and is cut to the driver's 16.
\<close>

type_synonym 'k i2c_env = "'k sem_api \<times> (int, 'k) queue_api \<times> 'k i2c_driver \<times> int list \<times> int list"

definition i2c_read_seq :: "byte \<Rightarrow> byte \<Rightarrow> u32 \<Rightarrow> i2c_seq" where
  "i2c_read_seq dev reg len =
    \<lparr>sq_addr = push_bit 1 (ucast dev), sq_reg = reg, sq_data = [], sq_len = ucast len,
     sq_flags = I2C_FLAG_WRITE_READ\<rparr>"

definition i2c_write_seq :: "byte \<Rightarrow> byte \<Rightarrow> byte list \<Rightarrow> u32 \<Rightarrow> i2c_seq" where
  "i2c_write_seq dev reg data len =
    \<lparr>sq_addr = push_bit 1 (ucast dev), sq_reg = reg, sq_data = data, sq_len = ucast len,
     sq_flags = I2C_FLAG_WRITE_WRITE\<rparr>"

definition i2c_access ::
  "'k i2c_env \<Rightarrow> i2c_seq \<Rightarrow> int \<Rightarrow> int \<Rightarrow> 'k i2c_bus \<Rightarrow> (int \<times> 'k i2c_bus) option" where
  "i2c_access env seq ok fail st =
    (case env of (sapi, qapi, drv, irqs, late) \<Rightarrow>
      map_option (\<lambda>(r, st'). (if r = i2cTransferDone then ok else fail, st'))
        (board_i2c0_transfer sapi qapi drv irqs late seq st))"

text \<open>\<open>own\<close>: the interface pointer is the one that was installed.\<close>

definition bma280_read where
  "bma280_read env c reg_addr len own st =
    (if own then i2c_access env (i2c_read_seq (BMA2_I2C_ADDR1 c) reg_addr len) (BMA2_OK c) (BMA2_E_COM_FAIL c) st
     else Some (BMA2_E_COM_FAIL c, st))"

definition bma280_write where
  "bma280_write env c reg_addr reg_data len own st =
    (if own then i2c_access env (i2c_write_seq (BMA2_I2C_ADDR1 c) reg_addr reg_data len) (BMA2_OK c) (BMA2_E_COM_FAIL c) st
     else Some (BMA2_E_COM_FAIL c, st))"

definition bme280_read where
  "bme280_read env c reg_addr len own st =
    (if own then i2c_access env (i2c_read_seq (BME280_I2C_ADDR_PRIM c) reg_addr len)
       (BME280_INTF_RET_SUCCESS c) (BME280_E_COMM_FAIL c) st
     else Some (BME280_E_COMM_FAIL c, st))"

definition bme280_write where
  "bme280_write env c reg_addr reg_data len own st =
    (if own then i2c_access env (i2c_write_seq (BME280_I2C_ADDR_PRIM c) reg_addr reg_data len)
       (BME280_INTF_RET_SUCCESS c) (BME280_E_COMM_FAIL c) st
     else Some (BME280_E_COMM_FAIL c, st))"

definition bmm150_read where
  "bmm150_read env c reg_addr len own st =
    (if own then i2c_access env (i2c_read_seq (BMM150_DEFAULT_I2C_ADDRESS c) reg_addr len)
       (BMM150_INTF_RET_SUCCESS c) (BMM150_E_COM_FAIL c) st
     else Some (BMM150_E_COM_FAIL c, st))"

definition bmm150_write where
  "bmm150_write env c reg_addr reg_data len own st =
    (if own then i2c_access env (i2c_write_seq (BMM150_DEFAULT_I2C_ADDRESS c) reg_addr reg_data len)
       (BMM150_INTF_RET_SUCCESS c) (BMM150_E_COM_FAIL c) st
     else Some (BMM150_E_COM_FAIL c, st))"

text \<open>The gyroscope's functions take the device address, with lengths of 8 or 16 bits.\<close>

definition bmg160_bus_write where
  "bmg160_bus_write env c device_addr register_addr register_data (wr_len :: byte) st =
    i2c_access env (i2c_write_seq device_addr register_addr register_data (ucast wr_len)) (C_BMG160_SUCCESS c) (-1) st"

definition bmg160_burst_read where
  "bmg160_burst_read env c device_addr register_addr (rd_len :: u16) st =
    i2c_access env (i2c_read_seq device_addr register_addr (ucast rd_len)) (C_BMG160_SUCCESS c) (-1) st"

definition bmg160_bus_read where
  "bmg160_bus_read env c device_addr register_addr (rd_len :: byte) st =
    i2c_access env (i2c_read_seq device_addr register_addr (ucast rd_len)) (C_BMG160_SUCCESS c) (-1) st"

text \<open>The inertial unit ignores the address it is given, and answers with the codes of the BMA280.\<close>

definition bmi160_read where
  "bmi160_read env c (dev_addr :: byte) reg_addr (len :: u16) st =
    i2c_access env (i2c_read_seq (BMI160_I2C_ADDR c) reg_addr (ucast len)) (BMA2_OK c) (BMA2_E_COM_FAIL c) st"

definition bmi160_write where
  "bmi160_write env c (dev_addr :: byte) reg_addr write_data (len :: u16) st =
    i2c_access env (i2c_write_seq (BMI160_I2C_ADDR c) reg_addr write_data (ucast len)) (BMA2_OK c) (BMA2_E_COM_FAIL c) st"

text \<open>Switching the sensors on: access functions, supply, delay, interrupt lines, and the bus initialised again.\<close>

definition board_bma280_enable :: "'k i2c_bus \<Rightarrow> 'k i2c_bus" where
  "board_bma280_enable st = i2c_logged
    [GPIO_PinModeSet (gpioPortE, 7) gpioModePushPull 1, BOARD_msDelay 3,
     GPIO_PinOutSet (gpioPortF, 8), GPIO_PinOutSet (gpioPortF, 9),
     GPIO_ExtIntConfig (gpioPortF, 8) 8 True True False, I2CSPM_Init, NVIC_ClearPendingIRQ ''I2C0'']
    (st\<lparr>i2c_installed := BMA280 # i2c_installed st\<rparr>)"

definition board_bme280_enable :: "'k i2c_bus \<Rightarrow> 'k i2c_bus" where
  "board_bme280_enable st = i2c_logged
    [GPIO_PinModeSet (gpioPortE, 8) gpioModePushPullDrive 1, BOARD_msDelay 10,
     I2CSPM_Init, NVIC_ClearPendingIRQ ''I2C0'']
    (st\<lparr>i2c_installed := BME280 # i2c_installed st\<rparr>)"

definition board_bmg160_enable :: "'k i2c_bus \<Rightarrow> 'k i2c_bus" where
  "board_bmg160_enable st = i2c_logged
    [GPIO_PinModeSet (gpioPortD, 13) gpioModePushPullDrive 1, BOARD_msDelay 30,
     I2CSPM_Init, NVIC_ClearPendingIRQ ''I2C0'']
    (st\<lparr>i2c_installed := BMG160 # i2c_installed st\<rparr>)"

definition board_bmm150_enable :: "'k i2c_bus \<Rightarrow> 'k i2c_bus" where
  "board_bmm150_enable st = i2c_logged
    [GPIO_PinModeSet (gpioPortE, 5) gpioModePushPull 1, BOARD_msDelay 10,
     I2CSPM_Init, NVIC_ClearPendingIRQ ''I2C0'']
    (st\<lparr>i2c_installed := BMM150 # i2c_installed st\<rparr>)"

definition board_bmi160_enable :: "'k i2c_bus \<Rightarrow> 'k i2c_bus" where
  "board_bmi160_enable st = i2c_logged
    [GPIO_PinModeSet (gpioPortE, 3) gpioModePushPullDrive 1, BOARD_msDelay 10,
     GPIO_PinOutSet (gpioPortA, 13), GPIO_PinOutSet (gpioPortA, 14),
     GPIO_ExtIntConfig (gpioPortA, 13) 13 True True False, I2CSPM_Init, NVIC_ClearPendingIRQ ''I2C0'']
    (st\<lparr>i2c_installed := BMI160 # i2c_installed st\<rparr>)"

section \<open>The transfer under the kernel's laws\<close>

text \<open>The results that the interrupts post.\<close>

definition posted :: "int list \<Rightarrow> int list" where
  "posted irqs = filter (\<lambda>r. r \<noteq> i2cTransferInProgress) irqs"

text \<open>
  What a granted transfer answers, when \<open>old\<close> is what the completion queue held before, what it leaves
  in the queue, and the calls it makes. A completion that an earlier transfer left behind is taken for
  the result.
\<close>

definition i2c_answer :: "'k i2c_driver \<Rightarrow> i2c_seq \<Rightarrow> int option \<Rightarrow> int list \<Rightarrow> 'k \<Rightarrow> int option" where
  "i2c_answer drv seq old irqs k =
    (if I2C_TransferInit drv seq k > 0
     then (case old of Some r \<Rightarrow> Some r | None \<Rightarrow> first_of (posted irqs))
     else if I2C_TransferInit drv seq k = 0 then Some (I2C_Transfer drv seq k)
     else Some (I2C_TransferInit drv seq k))"

definition i2c_left :: "'k i2c_driver \<Rightarrow> i2c_seq \<Rightarrow> int option \<Rightarrow> int list \<Rightarrow> 'k \<Rightarrow> int option" where
  "i2c_left drv seq old late k =
    (case (if I2C_TransferInit drv seq k > 0 then None else old) of
       Some r \<Rightarrow> Some r
     | None \<Rightarrow> first_of (posted late))"

definition i2c_calls ::
  "nat \<Rightarrow> nat \<Rightarrow> 'k i2c_driver \<Rightarrow> i2c_seq \<Rightarrow> int list \<Rightarrow> int list \<Rightarrow> 'k \<Rightarrow> board_call list" where
  "i2c_calls m q drv seq irqs late k =
    [XSemaphoreTake m True, NVIC_EnableIRQ ''I2C0'', I2C_begin] @
    (if I2C_TransferInit drv seq k > 0 then XQueueReceive q # replicate (length irqs) I2C_step
     else if I2C_TransferInit drv seq k = 0 then [I2C_step] else []) @
    replicate (length late) I2C_step @
    [NVIC_ClearPendingIRQ ''I2C0'', NVIC_DisableIRQ ''I2C0'', XSemaphoreGive m]"

text \<open>One kernel with mutexes and queues, which do not disturb each other.\<close>

locale i2c_kernel =
  mu: kernel_mutex sapi alive held + qu: mailbox qapi qalive slot
  for sapi :: "'k sem_api" and alive and held and qapi :: "(int, 'k) queue_api" and qalive and slot +
  assumes take_frame: "qalive (snd (sem_take sapi h k)) = qalive k \<and> slot (snd (sem_take sapi h k)) = slot k"
    and give_frame: "qalive (snd (sem_give sapi h k)) = qalive k \<and> slot (snd (sem_give sapi h k)) = slot k"
    and send_frame: "alive (q_send qapi q m k) = alive k \<and> held (q_send qapi q m k) = held k"
    and receive_frame: "alive (snd (q_receive qapi q k)) = alive k \<and> held (snd (q_receive qapi q k)) = held k"
begin

lemma irqs_post:
  "i2c0_semaphore st = Some q \<Longrightarrow> q \<in> qalive (i2c_os st) \<Longrightarrow>
   i2c0_semaphore (i2c_interrupts qapi irqs st) = Some q \<and>
   i2c_log (i2c_interrupts qapi irqs st) = i2c_log st @ replicate (length irqs) I2C_step \<and>
   i2c_os (i2c_interrupts qapi irqs st) = fold (q_send qapi q) (posted irqs) (i2c_os st)"
proof (induction irqs arbitrary: st)
  case (Cons r irqs)
  let ?st = "I2C0_IRQHandler qapi r (i2c_logged [I2C_step] st)"
  have "i2c0_semaphore ?st = Some q" "q \<in> qalive (i2c_os ?st)" "i2c_log ?st = i2c_log st @ [I2C_step]"
      "i2c_os ?st = (if r = i2cTransferInProgress then i2c_os st else q_send qapi q r (i2c_os st))"
    using Cons.prems qu.send by (simp_all add: I2C0_IRQHandler_def i2c_logged_def)
  with Cons.IH [of ?st] show ?case by (simp add: i2c_interrupts_def posted_def)
qed (simp add: i2c_interrupts_def posted_def)

lemma sends_frame: "alive (fold (q_send qapi q) ms k) = alive k \<and> held (fold (q_send qapi q) ms k) = held k"
  by (induction ms arbitrary: k) (simp_all add: send_frame)

text \<open>The end of a transfer: late interrupts, then the mutex is given back.\<close>

lemma transfer_end:
  assumes "i2c0_semaphore st = Some q" and "q \<in> qalive (i2c_os st)"
    and "m \<in> alive (i2c_os st)" and "m \<in> held (i2c_os st)"
    and "st3 = i2c_logged [NVIC_ClearPendingIRQ ''I2C0'', NVIC_DisableIRQ ''I2C0''] (i2c_interrupts qapi late st)"
    and "st4 = i2c_logged [XSemaphoreGive m] (st3\<lparr>i2c_os := snd (sem_give sapi m (i2c_os st3))\<rparr>)"
  shows "m \<notin> held (i2c_os st4)"
    and "slot (i2c_os st4) q = (case slot (i2c_os st) q of Some r \<Rightarrow> Some r | None \<Rightarrow> first_of (posted late))"
    and "i2c_log st4 = i2c_log st @ replicate (length late) I2C_step @
      [NVIC_ClearPendingIRQ ''I2C0'', NVIC_DisableIRQ ''I2C0'', XSemaphoreGive m]"
proof -
  note p = irqs_post [OF assms(1,2), of late]
  note h = sends_frame [of q "posted late" "i2c_os st"]
  have k3: "i2c_os st3 = fold (q_send qapi q) (posted late) (i2c_os st)"
    using p by (simp add: assms(5) i2c_logged_def)
  have "m \<in> alive (i2c_os st3)" "m \<in> held (i2c_os st3)" using h assms(3,4) by (simp_all add: k3)
  then show "m \<notin> held (i2c_os st4)" using mu.give_held [of m "i2c_os st3"] by (simp add: assms(6) i2c_logged_def)
  show "slot (i2c_os st4) q = (case slot (i2c_os st) q of Some r \<Rightarrow> Some r | None \<Rightarrow> first_of (posted late))"
    using qu.send_each [OF assms(2), of "posted late"] give_frame [of m "i2c_os st3"] k3
    by (simp add: assms(6) i2c_logged_def)
  show "i2c_log st4 = i2c_log st @ replicate (length late) I2C_step @
      [NVIC_ClearPendingIRQ ''I2C0'', NVIC_DisableIRQ ''I2C0'', XSemaphoreGive m]"
    using p by (simp add: assms(5,6) i2c_logged_def)
qed

lemma transfer_granted:
  assumes "i2c0_mutex st = Some m" and "i2c0_semaphore st = Some q"
    and "m \<in> alive (i2c_os st)" and "q \<in> qalive (i2c_os st)"
    and "sem_take sapi m (i2c_os st) = (True, k0)"
  shows "case i2c_answer drv seq (slot (i2c_os st) q) irqs k0 of
      None \<Rightarrow> board_i2c0_transfer sapi qapi drv irqs late seq st = None
    | Some r \<Rightarrow> \<exists>st'. board_i2c0_transfer sapi qapi drv irqs late seq st = Some (r, st') \<and>
        m \<notin> held (i2c_os st') \<and> slot (i2c_os st') q = i2c_left drv seq (slot (i2c_os st) q) late k0 \<and>
        i2c_log st' = i2c_log st @ i2c_calls m q drv seq irqs late k0"
proof -
  let ?old = "slot (i2c_os st) q"
  from mu.take_True [OF assms(3,5)] take_frame [of m "i2c_os st"] assms
  have k0: "m \<in> alive k0" "m \<in> held k0" "q \<in> qalive k0" "slot k0 q = ?old" by simp_all
  define st1 where "st1 = i2c_logged [XSemaphoreTake m True, NVIC_EnableIRQ ''I2C0'', I2C_begin] (st\<lparr>i2c_os := k0\<rparr>)"
  have st1: "i2c0_semaphore st1 = Some q" "i2c_os st1 = k0"
      "i2c_log st1 = i2c_log st @ [XSemaphoreTake m True, NVIC_EnableIRQ ''I2C0'', I2C_begin]"
    using assms(2) by (simp_all add: st1_def i2c_logged_def)
  show ?thesis
  proof (cases "I2C_TransferInit drv seq k0 > 0")
    case True
    define st2 where "st2 = i2c_interrupts qapi irqs (i2c_logged [XQueueReceive q] st1)"
    have st2: "i2c0_semaphore st2 = Some q" "i2c_os st2 = fold (q_send qapi q) (posted irqs) k0"
        "i2c_log st2 = i2c_log st1 @ XQueueReceive q # replicate (length irqs) I2C_step"
      using irqs_post [of "i2c_logged [XQueueReceive q] st1" q irqs] st1 k0(3)
      by (simp_all add: st2_def i2c_logged_def)
    have al: "q \<in> qalive (i2c_os st2)" "m \<in> alive (i2c_os st2)" "m \<in> held (i2c_os st2)"
      and sl: "slot (i2c_os st2) q = i2c_answer drv seq ?old irqs k0"
      using qu.send_each [OF k0(3), of "posted irqs"] sends_frame [of q "posted irqs" k0] k0 True
      by (simp_all add: st2(2) i2c_answer_def)
    obtain x k1 where rc: "q_receive qapi q (i2c_os st2) = (x, k1)" by fastforce
    have x: "x = i2c_answer drv seq ?old irqs k0" "q \<in> qalive k1" "slot k1 q = None"
        "m \<in> alive k1" "m \<in> held k1"
      using qu.receive [OF al(1)] receive_frame [of q "i2c_os st2"] al sl by (simp_all add: rc)
    show ?thesis
    proof (cases x)
      case None
      then show ?thesis using x(1) rc assms(1,5) True st1(1,2)
        by (simp add: board_i2c0_transfer_def Let_def st1_def [symmetric] st2_def [symmetric])
    next
      case (Some r)
      define st3 where "st3 = i2c_logged [NVIC_ClearPendingIRQ ''I2C0'', NVIC_DisableIRQ ''I2C0'']
        (i2c_interrupts qapi late (st2\<lparr>i2c_os := k1\<rparr>))"
      define st4 where "st4 = i2c_logged [XSemaphoreGive m] (st3\<lparr>i2c_os := snd (sem_give sapi m (i2c_os st3))\<rparr>)"
      have e: "m \<notin> held (i2c_os st4)" "slot (i2c_os st4) q = first_of (posted late)"
          "i2c_log st4 = i2c_log st2 @ replicate (length late) I2C_step @
            [NVIC_ClearPendingIRQ ''I2C0'', NVIC_DisableIRQ ''I2C0'', XSemaphoreGive m]"
        using transfer_end [of "st2\<lparr>i2c_os := k1\<rparr>" q m, OF _ _ _ _ st3_def st4_def] st2(1) x(2-5) by simp_all
      have "board_i2c0_transfer sapi qapi drv irqs late seq st = Some (r, st4)"
        using rc assms(1,5) True st1(1,2) Some unfolding st4_def st3_def
        by (simp add: board_i2c0_transfer_def Let_def st1_def [symmetric] st2_def [symmetric])
      moreover have "i2c_answer drv seq ?old irqs k0 = Some r" using x(1) Some by simp
      ultimately show ?thesis using True e st1(3) st2(3) by (simp add: i2c_left_def i2c_calls_def)
    qed
  next
    case False
    define st2 where "st2 = (if I2C_TransferInit drv seq k0 = 0 then i2c_logged [I2C_step] st1 else st1)"
    define st3 where "st3 = i2c_logged [NVIC_ClearPendingIRQ ''I2C0'', NVIC_DisableIRQ ''I2C0'']
      (i2c_interrupts qapi late st2)"
    define st4 where "st4 = i2c_logged [XSemaphoreGive m] (st3\<lparr>i2c_os := snd (sem_give sapi m (i2c_os st3))\<rparr>)"
    have st2: "i2c0_semaphore st2 = Some q" "i2c_os st2 = k0"
        "i2c_log st2 = i2c_log st1 @ (if I2C_TransferInit drv seq k0 = 0 then [I2C_step] else [])"
      using st1 by (simp_all add: st2_def i2c_logged_def)
    have e: "m \<notin> held (i2c_os st4)"
        "slot (i2c_os st4) q = (case ?old of Some r \<Rightarrow> Some r | None \<Rightarrow> first_of (posted late))"
        "i2c_log st4 = i2c_log st2 @ replicate (length late) I2C_step @
          [NVIC_ClearPendingIRQ ''I2C0'', NVIC_DisableIRQ ''I2C0'', XSemaphoreGive m]"
      using transfer_end [of st2 q m, OF _ _ _ _ st3_def st4_def] st2(1,2) k0 by simp_all
    define r where "r = (if I2C_TransferInit drv seq k0 = 0 then I2C_Transfer drv seq k0 else I2C_TransferInit drv seq k0)"
    have "board_i2c0_transfer sapi qapi drv irqs late seq st = Some (r, st4)"
      using assms(1,5) False st1(2) unfolding st4_def st3_def r_def
      by (simp add: board_i2c0_transfer_def Let_def st1_def [symmetric] st2_def)
    moreover have "i2c_answer drv seq ?old irqs k0 = Some r" using False by (simp add: i2c_answer_def r_def)
    ultimately show ?thesis using False e st1(3) st2(3) by (simp add: i2c_left_def i2c_calls_def)
  qed
qed

lemma transfer_refused:
  assumes "i2c0_mutex st = Some m" and "sem_take sapi m (i2c_os st) = (False, k0)"
  shows "board_i2c0_transfer sapi qapi drv irqs late seq st =
    Some (i2cTransferSwFault, i2c_logged [XSemaphoreTake m False] (st\<lparr>i2c_os := k0\<rparr>))"
  using assms by (simp add: board_i2c0_transfer_def)

end

section \<open>A kernel with the laws\<close>

definition both_sem :: "(kernel \<times> 'q) sem_api" where
  "both_sem =
    \<lparr>sem_create = (\<lambda>(k, q). map_prod id (\<lambda>k'. (k', q)) (sem_create kernel_api k)),
     sem_delete = (\<lambda>h (k, q). (sem_delete kernel_api h k, q)),
     sem_take = (\<lambda>h (k, q). map_prod id (\<lambda>k'. (k', q)) (sem_take kernel_api h k)),
     sem_give = (\<lambda>h (k, q). map_prod id (\<lambda>k'. (k', q)) (sem_give kernel_api h k))\<rparr>"

definition both_queue :: "('m, 'k \<times> 'm queues) queue_api" where
  "both_queue =
    \<lparr>q_create = (\<lambda>(k, q). map_prod id (Pair k) (q_create queues_api q)),
     q_delete = (\<lambda>h (k, q). (k, q_delete queues_api h q)),
     q_reset = (\<lambda>h (k, q). (k, q_reset queues_api h q)),
     q_send = (\<lambda>h m (k, q). (k, q_send queues_api h m q)),
     q_receive = (\<lambda>h (k, q). map_prod id (Pair k) (q_receive queues_api h q))\<rparr>"

interpretation bus: i2c_kernel both_sem "kernel_alive \<circ> fst" "kernel_held \<circ> fst"
    both_queue "queues_alive \<circ> snd" "qs_slot \<circ> snd"
  by unfold_locales
    (auto simp: both_sem_def both_queue_def kernel_api_def queues_api_def split: if_splits)

section \<open>Properties\<close>

text \<open>C28: exclusion on the sensor bus. When the bus mutex is not granted in time, the transfer touches
  neither the driver nor the queue and answers a software fault. When it is granted, the calls are made
  in this order: the mutex is taken, the interrupt enabled, the driver started, the message waited for
  while the interrupts step the driver, the interrupt disabled, and only then the mutex given back. The
  answer is the driver's own when it ends at once or refuses; otherwise it is the completion that an
  earlier transfer left in the queue, if there is one, and else the first final result that the
  interrupts post; when there is neither, the call does not return. A transfer that waited empties the
  queue; what interrupts post after that, until the interrupt is disabled, stays for the next one.\<close>

theorem i2c_transfer:
  assumes "i2c_kernel sapi alive held qapi qalive slot"
    and "i2c0_mutex st = Some m" and "i2c0_semaphore st = Some q"
    and "m \<in> alive (i2c_os st)" and "q \<in> qalive (i2c_os st)"
  shows "case sem_take sapi m (i2c_os st) of
      (False, k0) \<Rightarrow> board_i2c0_transfer sapi qapi drv irqs late seq st =
        Some (i2cTransferSwFault, i2c_logged [XSemaphoreTake m False] (st\<lparr>i2c_os := k0\<rparr>))
    | (True, k0) \<Rightarrow>
        (case i2c_answer drv seq (slot (i2c_os st) q) irqs k0 of
           None \<Rightarrow> board_i2c0_transfer sapi qapi drv irqs late seq st = None
         | Some r \<Rightarrow> \<exists>st'. board_i2c0_transfer sapi qapi drv irqs late seq st = Some (r, st') \<and>
             m \<notin> held (i2c_os st') \<and> slot (i2c_os st') q = i2c_left drv seq (slot (i2c_os st) q) late k0 \<and>
             i2c_log st' = i2c_log st @ i2c_calls m q drv seq irqs late k0)"
  using i2c_kernel.transfer_granted [OF assms, where drv = drv and seq = seq and irqs = irqs and late = late]
    i2c_kernel.transfer_refused [OF assms(1,2), where drv = drv and seq = seq and irqs = irqs and late = late]
  by (cases "sem_take sapi m (i2c_os st)") (auto split: bool.split)

definition bus_sample :: "(kernel \<times> int queues) i2c_bus" where
  "bus_sample = \<lparr>i2c0_semaphore = Some 1, i2c0_mutex = Some 0, i2c_installed = [], i2c_log = [],
     i2c_os = (\<lparr>k_alive = [0], k_held = [], k_next = 1\<rparr>,
               \<lparr>qs_alive = [1], qs_slot = (\<lambda>_. None), qs_next = 2\<rparr>)\<rparr>"

definition driver_sample :: "'k i2c_driver" where
  "driver_sample = \<lparr>I2C_TransferInit = (\<lambda>_ _. 1), I2C_Transfer = (\<lambda>_ _. 0)\<rparr>"

theorem i2c_transfer_witness:
  "\<exists>st'. board_i2c0_transfer both_sem both_queue driver_sample [1, 1, -1, 0] [] (i2c_read_seq 0x18 0 1) bus_sample
     = Some (-1, st') \<and> i2c_log st' =
     [XSemaphoreTake 0 True, NVIC_EnableIRQ ''I2C0'', I2C_begin, XQueueReceive 1, I2C_step, I2C_step,
      I2C_step, I2C_step, NVIC_ClearPendingIRQ ''I2C0'', NVIC_DisableIRQ ''I2C0'', XSemaphoreGive 0]"
  using i2c_transfer [OF bus.i2c_kernel_axioms, of bus_sample 0 1, where drv = driver_sample and irqs = "[1, 1, -1, 0]" and late = "[]" and seq = "i2c_read_seq 0x18 0 1"]
  by (auto simp: bus_sample_def driver_sample_def i2c_answer_def i2c_calls_def posted_def both_sem_def kernel_api_def)

end
