(* ===== verification/FatBytes.thy ===== *)
theory FatBytes
  imports Prelude
begin

text \<open>
  The vocabulary of FatFs (\<^verbatim>\<open>c/FatFs/ff15/source/ff.c\<close>, configured by
  \<^verbatim>\<open>c/config/ffconf.h\<close>): the result codes and the access to little-endian numbers inside
  a sector. A sector is a list of 512 bytes; a pointer into it is the sector with an offset.
\<close>

lemma u32_unat_less: "unat (x :: u32) < 2 ^ 32"
  by (rule order_less_le_trans [OF unsigned_less]) simp

lemma u32_of_nat: "n < 2 ^ 32 \<Longrightarrow> unat (of_nat n :: u32) = n"
  by (simp add: unsigned_of_nat take_bit_nat_eq_self)

lemma u32_div: "(of_nat (unat (x :: u32) div unat y) :: u32) = x div y"
  by (metis unat_div_distrib word_unat_eq_iff u32_of_nat u32_unat_less)

lemma u32_add: "unat x + unat y < 2 ^ 32 \<Longrightarrow> unat (x + y :: u32) = unat x + unat y"
  by (rule unat_add_lem [THEN iffD1]) simp

lemma u32_add1: "unat x + 1 < 2 ^ 32 \<Longrightarrow> unat (x + 1 :: u32) = unat x + 1"
  using u32_add [of x 1] by simp

lemma u32_and_mask: "unat (c :: u32) < 2 ^ n \<Longrightarrow> c AND mask n = c"
  by (simp add: take_bit_eq_mask [symmetric] word_unat_eq_iff unsigned_take_bit_eq take_bit_nat_eq_self)

lemma u32_pos: "(1 :: u32) \<le> x \<longleftrightarrow> x \<noteq> 0"
  by (simp add: word_le_nat_alt Suc_le_eq unat_gt_0)

section \<open>Result codes\<close>

datatype fresult = FR_OK | FR_DISK_ERR | FR_INT_ERR | FR_NOT_READY | FR_NO_FILE | FR_NO_PATH
  | FR_INVALID_NAME | FR_DENIED | FR_EXIST | FR_INVALID_OBJECT | FR_WRITE_PROTECTED
  | FR_INVALID_DRIVE | FR_NOT_ENABLED | FR_NO_FILESYSTEM | FR_MKFS_ABORTED | FR_TIMEOUT
  | FR_LOCKED | FR_NOT_ENOUGH_CORE | FR_TOO_MANY_OPEN_FILES | FR_INVALID_PARAMETER

abbreviation SS :: nat where "SS \<equiv> 512"
abbreviation FS_FAT12 :: byte where "FS_FAT12 \<equiv> 1"
abbreviation FS_FAT16 :: byte where "FS_FAT16 \<equiv> 2"
abbreviation FS_FAT32 :: byte where "FS_FAT32 \<equiv> 3"

section \<open>Storing into an array\<close>

named_theorems store_simps \<open>arrays of bytes\<close>

definition store_at :: "nat \<Rightarrow> 'a list \<Rightarrow> 'a list \<Rightarrow> 'a list" where
  \<comment> \<open>the array \<open>xs\<close> with \<open>bs\<close> stored from the offset \<open>i\<close> on\<close>
  "store_at i bs xs = take i xs @ bs @ drop (i + length bs) xs"

lemma length_store_at [store_simps, simp]:
  "i + length bs \<le> length xs \<Longrightarrow> length (store_at i bs xs) = length xs"
  by (simp add: store_at_def)

lemma nth_store_at [store_simps]:
  assumes "i + length bs \<le> length xs"
  shows "store_at i bs xs ! j = (if i \<le> j \<and> j < i + length bs then bs ! (j - i) else xs ! j)"
proof -
  have "length (take i xs) = i" using assms by simp
  then show ?thesis
    using assms by (auto simp: store_at_def nth_append nth_drop not_less less_diff_conv2)
qed

lemma store_at_Nil [store_simps, simp]: "store_at i [] xs = xs"
  by (simp add: store_at_def)

section \<open>Little-endian numbers\<close>

definition ld_word :: "byte list \<Rightarrow> nat \<Rightarrow> u16" where
  "ld_word p i = push_bit 8 (ucast (p ! (i + 1))) OR ucast (p ! i)"

definition ld_dword :: "byte list \<Rightarrow> nat \<Rightarrow> u32" where
  "ld_dword p i =
    (let rv = ucast (p ! (i + 3));
         rv = push_bit 8 rv OR ucast (p ! (i + 2));
         rv = push_bit 8 rv OR ucast (p ! (i + 1))
     in push_bit 8 rv OR ucast (p ! i))"

definition st_word :: "byte list \<Rightarrow> nat \<Rightarrow> u16 \<Rightarrow> byte list" where
  "st_word p i v = store_at i [ucast v, ucast (drop_bit 8 v)] p"

definition st_dword :: "byte list \<Rightarrow> nat \<Rightarrow> u32 \<Rightarrow> byte list" where
  "st_dword p i v =
    store_at i [ucast v, ucast (drop_bit 8 v), ucast (drop_bit 16 v), ucast (drop_bit 24 v)] p"

text \<open>The numbers as functions of their bytes.\<close>

definition word_of :: "byte \<Rightarrow> byte \<Rightarrow> u16" where
  "word_of b0 b1 = push_bit 8 (ucast b1) OR ucast b0"

definition dword_of :: "byte \<Rightarrow> byte \<Rightarrow> byte \<Rightarrow> byte \<Rightarrow> u32" where
  "dword_of b0 b1 b2 b3 =
    push_bit 24 (ucast b3) OR push_bit 16 (ucast b2) OR push_bit 8 (ucast b1) OR ucast b0"

lemma ld_word_of: "ld_word p i = word_of (p ! i) (p ! Suc i)"
  by (simp add: ld_word_def word_of_def)

lemma ld_dword_of: "ld_dword p i = dword_of (p ! i) (p ! (i + 1)) (p ! (i + 2)) (p ! (i + 3))"
  by (rule bit_word_eqI) (auto simp: ld_dword_def dword_of_def Let_def bit_simps)

lemma word_of_bytes: "word_of (ucast v) (ucast (drop_bit 8 v)) = v"
proof (rule bit_word_eqI)
  fix n
  assume "n < LENGTH(16)"
  then show "bit (word_of (ucast v) (ucast (drop_bit 8 v))) n \<longleftrightarrow> bit v n"
    by (cases "n < 8") (auto simp: word_of_def bit_simps)
qed

lemma dword_of_bytes:
  "dword_of (ucast v) (ucast (drop_bit 8 v)) (ucast (drop_bit 16 v)) (ucast (drop_bit 24 v)) = v"
proof (rule bit_word_eqI)
  fix n
  assume "n < LENGTH(32)"
  then consider "n < 8" | "8 \<le> n \<and> n < 16" | "16 \<le> n \<and> n < 24" | "24 \<le> n \<and> n < 32" by force
  then show "bit (dword_of (ucast v) (ucast (drop_bit 8 v)) (ucast (drop_bit 16 v))
      (ucast (drop_bit 24 v))) n \<longleftrightarrow> bit v n"
    by cases (auto simp: dword_of_def bit_simps)
qed

lemma length_st [store_simps, simp]:
  "i + 2 \<le> length p \<Longrightarrow> length (st_word p i v) = length p"
  "i + 4 \<le> length p \<Longrightarrow> length (st_dword p i w) = length p"
  by (simp_all add: st_word_def st_dword_def)

lemma nth_st_word [store_simps]:
  assumes "i + 2 \<le> length p"
  shows "st_word p i v ! j =
    (if j = i then ucast v else if j = i + 1 then ucast (drop_bit 8 v) else p ! j)"
proof -
  consider "j < i" | "j = i" | "j = i + 1" | "i + 2 \<le> j" by linarith
  then show ?thesis using assms by cases (simp_all add: st_word_def nth_store_at)
qed

lemma nth_st_dword [store_simps]:
  assumes "i + 4 \<le> length p"
  shows "st_dword p i v ! j =
    (if j = i then ucast v else if j = i + 1 then ucast (drop_bit 8 v)
     else if j = i + 2 then ucast (drop_bit 16 v) else if j = i + 3 then ucast (drop_bit 24 v)
     else p ! j)"
proof -
  consider "j < i" | "j = i" | "j = i + 1" | "j = i + 2" | "j = i + 3" | "i + 4 \<le> j" by linarith
  then show ?thesis using assms by cases (simp_all add: st_dword_def nth_store_at)
qed

lemma ld_st_word [store_simps]: "i + 2 \<le> length p \<Longrightarrow> ld_word (st_word p i v) i = v"
  by (simp add: ld_word_of nth_st_word word_of_bytes)

lemma ld_st_dword [store_simps]: "i + 4 \<le> length p \<Longrightarrow> ld_dword (st_dword p i v) i = v"
  by (simp add: ld_dword_of nth_st_dword dword_of_bytes)

lemma ld_dword_other [store_simps]:
  "i + 4 \<le> length p \<Longrightarrow> j + 4 \<le> i \<or> i + 4 \<le> j \<Longrightarrow> ld_dword (st_dword p i v) j = ld_dword p j"
  by (auto simp: ld_dword_of nth_st_dword)

lemma ld_word_other [store_simps]:
  "i + 2 \<le> length p \<Longrightarrow> j + 2 \<le> i \<or> i + 2 \<le> j \<Longrightarrow> ld_word (st_word p i v) j = ld_word p j"
  by (auto simp: ld_word_of nth_st_word)

end
