(* ===== verification/FatWindow.thy ===== *)
theory FatWindow
  imports FatBytes Sdmm
begin

text \<open>
  The disk access window of FatFs (\<^verbatim>\<open>ff.c\<close>: \<open>sync_window\<close>, \<open>move_window\<close>, \<open>sync_fs\<close>,
  \<open>clst2sect\<close>). The filesystem object \<open>FATFS\<close> is the record \<open>fatfs\<close>; its last field is not a
  field of the C structure but the state of the drive the object is mounted on. The functions of
  \<^verbatim>\<open>diskio.h\<close> are the record \<open>disk_io\<close>; \<open>sd_io\<close> is its instance on the driver of
  \<^verbatim>\<open>sdmm.c\<close> (theory \<open>Sdmm\<close>).

  The locale \<open>fat_disk\<close> is the contract of the drive, failures included. Under it a sector has one
  logical value, \<open>view\<close>, whether it is on the drive or in the window, and the lemmas say what the
  window functions do to that view.
\<close>

section \<open>The drive and the filesystem object\<close>

record 'd disk_io =
  io_read :: "byte \<Rightarrow> u32 \<Rightarrow> u32 \<Rightarrow> 'd \<Rightarrow> dresult \<times> byte list \<times> 'd"   \<comment> \<open>\<open>disk_read\<close>\<close>
  io_write :: "byte \<Rightarrow> byte list \<Rightarrow> u32 \<Rightarrow> u32 \<Rightarrow> 'd \<Rightarrow> dresult \<times> 'd"  \<comment> \<open>\<open>disk_write\<close>\<close>
  io_sync :: "byte \<Rightarrow> 'd \<Rightarrow> dresult \<times> 'd"               \<comment> \<open>\<open>disk_ioctl\<close> with \<open>CTRL_SYNC\<close>\<close>
  io_status :: "byte \<Rightarrow> 'd \<Rightarrow> byte \<times> 'd"                \<comment> \<open>\<open>disk_status\<close>\<close>
  io_initialize :: "byte \<Rightarrow> 'd \<Rightarrow> byte \<times> 'd"            \<comment> \<open>\<open>disk_initialize\<close>\<close>

record 'd fatfs =
  fs_type :: byte      \<comment> \<open>0: not mounted\<close>
  pdrv :: byte
  ldrv :: byte
  n_fats :: byte
  wflag :: byte        \<comment> \<open>b0: the window is dirty\<close>
  fsi_flag :: byte     \<comment> \<open>b7: FSINFO disabled, b0: dirty\<close>
  fs_id :: u16
  n_rootdir :: u16
  csize :: u16
  last_clst :: u32
  free_clst :: u32
  cdir :: u32
  n_fatent :: u32
  fsize :: u32
  volbase :: u32
  fatbase :: u32
  dirbase :: u32
  database :: u32
  winsect :: u32
  win :: "byte list"
  medium :: 'd

section \<open>Window functions\<close>

definition sync_window :: "'d disk_io \<Rightarrow> 'd fatfs \<Rightarrow> fresult \<times> 'd fatfs" where
  "sync_window io fs =
    (if wflag fs \<noteq> 0 then
       (case io_write io (pdrv fs) (win fs) (winsect fs) 1 (medium fs) of
          (r, d) \<Rightarrow>
            if r = RES_OK then
              (let fs1 = fs\<lparr>medium := d, wflag := 0\<rparr> in
               if winsect fs1 - fatbase fs1 < fsize fs1 \<and> n_fats fs1 = 2 then
                 (FR_OK, fs1\<lparr>medium := snd (io_write io (pdrv fs1) (win fs1)
                                             (winsect fs1 + fsize fs1) 1 (medium fs1))\<rparr>)
               else (FR_OK, fs1))
            else (FR_DISK_ERR, fs\<lparr>medium := d\<rparr>))
     else (FR_OK, fs))"

definition move_window :: "'d disk_io \<Rightarrow> u32 \<Rightarrow> 'd fatfs \<Rightarrow> fresult \<times> 'd fatfs" where
  "move_window io sect fs =
    (if sect \<noteq> winsect fs then
       (case sync_window io fs of
          (res, fs1) \<Rightarrow>
            if res = FR_OK then
              (case io_read io (pdrv fs1) sect 1 (medium fs1) of
                 (r, bs, d) \<Rightarrow>
                   let fs2 = fs1\<lparr>medium := d, win := store_at 0 bs (win fs1)\<rparr> in
                   if r \<noteq> RES_OK then (FR_DISK_ERR, fs2\<lparr>winsect := 0 - 1\<rparr>)
                   else (FR_OK, fs2\<lparr>winsect := sect\<rparr>))
            else (res, fs1))
     else (FR_OK, fs))"

abbreviation BS_55AA :: nat where "BS_55AA \<equiv> 510"
abbreviation FSI_LeadSig :: nat where "FSI_LeadSig \<equiv> 0"
abbreviation FSI_StrucSig :: nat where "FSI_StrucSig \<equiv> 484"
abbreviation FSI_Free_Count :: nat where "FSI_Free_Count \<equiv> 488"
abbreviation FSI_Nxt_Free :: nat where "FSI_Nxt_Free \<equiv> 492"

definition fsinfo_sector :: "u32 \<Rightarrow> u32 \<Rightarrow> byte list" where
  \<comment> \<open>the window after the FSInfo structure was made in it\<close>
  "fsinfo_sector free lastc =
    (let w0 = replicate SS 0;
         w1 = st_word w0 BS_55AA 0xAA55;
         w2 = st_dword w1 FSI_LeadSig 0x41615252;
         w3 = st_dword w2 FSI_StrucSig 0x61417272;
         w4 = st_dword w3 FSI_Free_Count free
     in st_dword w4 FSI_Nxt_Free lastc)"

definition sync_fs :: "'d disk_io \<Rightarrow> 'd fatfs \<Rightarrow> fresult \<times> 'd fatfs" where
  "sync_fs io fs =
    (case sync_window io fs of
       (res, fs1) \<Rightarrow>
         if res = FR_OK then
           (let fs2 =
              (if fs_type fs1 = FS_FAT32 \<and> fsi_flag fs1 = 1 then
                 (let w = fsinfo_sector (free_clst fs1) (last_clst fs1);
                      ws = volbase fs1 + 1
                  in fs1\<lparr>win := w, winsect := ws,
                         medium := snd (io_write io (pdrv fs1) w ws 1 (medium fs1)), fsi_flag := 0\<rparr>)
               else fs1)
            in case io_sync io (pdrv fs2) (medium fs2) of
                 (r, d) \<Rightarrow> (if r \<noteq> RES_OK then FR_DISK_ERR else FR_OK, fs2\<lparr>medium := d\<rparr>))
         else (res, fs1))"

definition clst2sect :: "u32 \<Rightarrow> 'd fatfs \<Rightarrow> u32" where
  \<comment> \<open>0 for an invalid cluster\<close>
  "clst2sect clst fs =
    (let c = clst - 2 in
     if c \<ge> n_fatent fs - 2 then 0 else database fs + ucast (csize fs) * c)"

section \<open>The logical contents of a volume\<close>

definition view :: "('d \<Rightarrow> u32 \<Rightarrow> byte list) \<Rightarrow> 'd fatfs \<Rightarrow> u32 \<Rightarrow> byte list" where
  \<comment> \<open>a sector as FatFs sees it: the window hides the drive\<close>
  "view contents fs k = (if k = winsect fs then win fs else contents (medium fs) k)"

definition steady :: "'d fatfs \<Rightarrow> 'd fatfs" where
  \<comment> \<open>the part of the object that the window functions leave alone\<close>
  "steady fs = fs\<lparr>wflag := 0, winsect := 0, win := [], medium := undefined\<rparr>"

definition geometry :: "'d fatfs \<Rightarrow> 'd fatfs" where
  \<comment> \<open>the part of the object that is fixed by the mount\<close>
  "geometry fs = (steady fs)\<lparr>last_clst := 0, free_clst := 0, fsi_flag := 0, cdir := 0\<rparr>"

definition fat_end :: "'d fatfs \<Rightarrow> nat" where
  \<comment> \<open>the first sector after the last FAT\<close>
  "fat_end fs = unat (fatbase fs) + unat (n_fats fs) * unat (fsize fs)"

definition shadow :: "'d fatfs \<Rightarrow> u32 \<Rightarrow> bool" where
  \<comment> \<open>the sectors that are written behind the window's back: FSInfo and the second FAT\<close>
  "shadow fs k \<longleftrightarrow> (fs_type fs = FS_FAT32 \<and> k = volbase fs + 1) \<or>
     (unat (fatbase fs) + unat (fsize fs) \<le> unat k \<and> unat k < fat_end fs)"

definition layout :: "u32 \<Rightarrow> 'd fatfs \<Rightarrow> bool" where
  \<comment> \<open>the reserved sectors and the FATs lie on the drive of \<open>nsect\<close> sectors, in this order\<close>
  "layout nsect fs \<longleftrightarrow> pdrv fs = 0 \<and> n_fats fs \<in> {1, 2} \<and> fat_end fs \<le> unat nsect \<and>
     unat (volbase fs) + (if fs_type fs = FS_FAT32 then 1 else 0) < unat (fatbase fs)"

definition window_ok :: "('d \<Rightarrow> bool) \<Rightarrow> ('d \<Rightarrow> u32 \<Rightarrow> byte list) \<Rightarrow> u32 \<Rightarrow> 'd fatfs \<Rightarrow> bool" where
  "window_ok ok contents nsect fs \<longleftrightarrow> ok (medium fs) \<and> length (win fs) = SS \<and>
     (wflag fs \<noteq> 0 \<longrightarrow> winsect fs < nsect) \<and>
     (wflag fs = 0 \<longrightarrow> winsect fs < nsect \<longrightarrow> \<not> shadow fs (winsect fs) \<longrightarrow>
        win fs = contents (medium fs) (winsect fs))"

lemma steady_simps [simp]:
  "steady (fs\<lparr>wflag := a\<rparr>) = steady fs" "steady (fs\<lparr>winsect := b\<rparr>) = steady fs"
  "steady (fs\<lparr>win := c\<rparr>) = steady fs" "steady (fs\<lparr>medium := d\<rparr>) = steady fs"
  by (simp_all add: steady_def)

lemma geometry_simps [simp]:
  "geometry (fs\<lparr>wflag := a\<rparr>) = geometry fs" "geometry (fs\<lparr>winsect := b\<rparr>) = geometry fs"
  "geometry (fs\<lparr>win := c\<rparr>) = geometry fs" "geometry (fs\<lparr>medium := d\<rparr>) = geometry fs"
  "geometry (fs\<lparr>last_clst := e\<rparr>) = geometry fs" "geometry (fs\<lparr>free_clst := e\<rparr>) = geometry fs"
  "geometry (fs\<lparr>fsi_flag := g\<rparr>) = geometry fs" "geometry (fs\<lparr>cdir := e\<rparr>) = geometry fs"
  by (simp_all add: geometry_def steady_def)

lemma view_simps [simp]:
  "view contents (fs\<lparr>last_clst := e\<rparr>) = view contents fs"
  "view contents (fs\<lparr>free_clst := e\<rparr>) = view contents fs"
  "view contents (fs\<lparr>fsi_flag := g\<rparr>) = view contents fs"
  "view contents (fs\<lparr>cdir := e\<rparr>) = view contents fs"
  by (rule ext, simp add: view_def)+

lemma steady_geometry: "steady fs = steady fs' \<Longrightarrow> geometry fs = geometry fs'"
  by (simp add: geometry_def)

lemma steady_fields:
  assumes "steady fs = steady fs'"
  shows "last_clst fs = last_clst fs'" "free_clst fs = free_clst fs'" "fsi_flag fs = fsi_flag fs'"
    "cdir fs = cdir fs'"
  using arg_cong [OF assms, of last_clst] arg_cong [OF assms, of free_clst]
    arg_cong [OF assms, of fsi_flag] arg_cong [OF assms, of cdir]
  by (simp_all add: steady_def)

lemma geometry_fields:
  assumes "geometry fs = geometry fs'"
  shows "fs_type fs = fs_type fs'" "pdrv fs = pdrv fs'" "n_fats fs = n_fats fs'"
    "csize fs = csize fs'" "n_fatent fs = n_fatent fs'" "fsize fs = fsize fs'"
    "volbase fs = volbase fs'" "fatbase fs = fatbase fs'" "dirbase fs = dirbase fs'"
    "database fs = database fs'" "n_rootdir fs = n_rootdir fs'" "fs_id fs = fs_id fs'"
    "ldrv fs = ldrv fs'"
  using arg_cong [OF assms, of fs_type] arg_cong [OF assms, of pdrv] arg_cong [OF assms, of n_fats]
    arg_cong [OF assms, of csize] arg_cong [OF assms, of n_fatent] arg_cong [OF assms, of fsize]
    arg_cong [OF assms, of volbase] arg_cong [OF assms, of fatbase] arg_cong [OF assms, of dirbase]
    arg_cong [OF assms, of database] arg_cong [OF assms, of n_rootdir] arg_cong [OF assms, of fs_id]
    arg_cong [OF assms, of ldrv]
  by (simp_all add: geometry_def steady_def)

lemma geometry_cong:
  assumes "geometry fs = geometry fs'"
  shows "fat_end fs = fat_end fs'" "shadow fs k = shadow fs' k" "layout nsect fs = layout nsect fs'"
    "clst2sect c fs = clst2sect c fs'"
  unfolding fat_end_def shadow_def layout_def clst2sect_def geometry_fields [OF assms] by simp_all

section \<open>The contract of the drive\<close>

text \<open>
  Reading and writing one sector and flushing the drive. A call may fail; a failed write leaves the
  sector with unknown contents, and nothing ever changes another sector.
\<close>

locale fat_disk =
  fixes io :: "'d disk_io"
    and ok :: "'d \<Rightarrow> bool"
    and contents :: "'d \<Rightarrow> u32 \<Rightarrow> byte list"
    and nsect :: u32
  assumes contents_length: "ok d \<Longrightarrow> k < nsect \<Longrightarrow> length (contents d k) = 512"
    and read_law: "ok d \<Longrightarrow> io_read io 0 k 1 d = (r, bs, d') \<Longrightarrow>
          ok d' \<and> (\<forall>j < nsect. contents d' j = contents d j) \<and> length bs \<le> 512 \<and>
          (r = RES_OK \<longrightarrow> k < nsect \<longrightarrow> bs = contents d k)"
    and write_law: "ok d \<Longrightarrow> k < nsect \<Longrightarrow> length b = 512 \<Longrightarrow> io_write io 0 b k 1 d = (r, d') \<Longrightarrow>
          ok d' \<and> (\<forall>j < nsect. j \<noteq> k \<longrightarrow> contents d' j = contents d j) \<and>
          (r = RES_OK \<longrightarrow> contents d' k = b)"
    and sync_law: "ok d \<Longrightarrow> io_sync io 0 d = (r, d') \<Longrightarrow>
          ok d' \<and> (\<forall>j < nsect. contents d' j = contents d j)"
begin

definition good :: "'d fatfs \<Rightarrow> bool" where
  "good fs \<longleftrightarrow> layout nsect fs \<and> window_ok ok contents nsect fs"

definition same_view :: "'d fatfs \<Rightarrow> 'd fatfs \<Rightarrow> bool" where
  \<comment> \<open>the same contents of every sector but the shadowed ones\<close>
  "same_view fs fs' \<longleftrightarrow> (\<forall>k < nsect. \<not> shadow fs k \<longrightarrow> view contents fs' k = view contents fs k)"

lemma same_view_refl [simp]: "same_view fs fs"
  by (simp add: same_view_def)

lemma same_view_trans:
  "same_view a b \<Longrightarrow> same_view b c \<Longrightarrow> geometry a = geometry b \<Longrightarrow> same_view a c"
  by (simp add: same_view_def geometry_cong(2) [of a b])

lemma view_length: "good fs \<Longrightarrow> k < nsect \<Longrightarrow> length (view contents fs k) = 512"
  by (simp add: good_def window_ok_def view_def contents_length)

lemma mirror_sector:
  assumes "layout nsect fs" and "w < nsect" and "w - fatbase fs < fsize fs" and "n_fats fs = 2"
  shows "w + fsize fs < nsect" and "shadow fs (w + fsize fs)" and "w + fsize fs \<noteq> w"
proof -
  have l: "unat (fatbase fs) + 2 * unat (fsize fs) \<le> unat nsect"
    using assms(1,4) by (simp add: layout_def fat_end_def)
  have w: "unat w = unat (fatbase fs) + unat (w - fatbase fs)"
  proof (cases "fatbase fs \<le> w")
    case True
    then show ?thesis by (simp add: unat_sub word_le_nat_alt)
  next
    case False
    have "unat (w - fatbase fs) = 2 ^ 32 + unat w - unat (fatbase fs)"
      using False by (simp add: unat_sub_if' word_le_nat_alt)
    moreover have "unat (fatbase fs) + unat (fsize fs) < 2 ^ 32"
      using l u32_unat_less [of nsect] by simp
    ultimately show ?thesis using assms(3) by (simp add: word_less_nat_alt)
  qed
  have d: "unat (w - fatbase fs) < unat (fsize fs)" using assms(3) by (simp add: word_less_nat_alt)
  have u: "unat (w + fsize fs) = unat w + unat (fsize fs)"
    using l w d u32_unat_less [of nsect] by (intro unat_add_lem [THEN iffD1]) simp
  show "w + fsize fs < nsect" using u l w d by (simp add: word_less_nat_alt)
  show "shadow fs (w + fsize fs)" using u l w d assms(4) by (simp add: shadow_def fat_end_def)
  show "w + fsize fs \<noteq> w" using d by auto
qed

lemma sync_window_spec:
  assumes "good fs" and "sync_window io fs = (r, fs')"
  shows "good fs' \<and> steady fs' = steady fs \<and> same_view fs fs' \<and> winsect fs' = winsect fs \<and>
    win fs' = win fs \<and> r \<in> {FR_OK, FR_DISK_ERR} \<and> (r = FR_OK \<longrightarrow> wflag fs' = 0)"
proof (cases "wflag fs = 0")
  case True
  with assms show ?thesis by (auto simp: sync_window_def)
next
  case False
  have g: "layout nsect fs" "pdrv fs = 0" "ok (medium fs)" "length (win fs) = 512" "winsect fs < nsect"
    using assms(1) False by (auto simp: good_def layout_def window_ok_def)
  obtain q d where q: "io_write io 0 (win fs) (winsect fs) 1 (medium fs) = (q, d)" by fastforce
  from write_law [OF g(3,5) g(4) q]
  have d: "ok d" "\<forall>j < nsect. j \<noteq> winsect fs \<longrightarrow> contents d j = contents (medium fs) j"
    "q = RES_OK \<longrightarrow> contents d (winsect fs) = win fs" by auto
  show ?thesis
  proof (cases "q = RES_OK")
    case False
    with assms(2) q g \<open>wflag fs \<noteq> 0\<close> have r: "r = FR_DISK_ERR" "fs' = fs\<lparr>medium := d\<rparr>"
      by (auto simp: sync_window_def)
    have "layout nsect fs'" using g(1) by (simp add: r layout_def fat_end_def)
    with r d g \<open>wflag fs \<noteq> 0\<close> show ?thesis
      by (auto simp: good_def window_ok_def same_view_def view_def)
  next
    case ok: True
    let ?m = "winsect fs - fatbase fs < fsize fs \<and> n_fats fs = 2"
    define e where "e = (if ?m then snd (io_write io 0 (win fs) (winsect fs + fsize fs) 1 d) else d)"
    have r: "r = FR_OK" "fs' = fs\<lparr>medium := e, wflag := 0\<rparr>"
      using assms(2) q g \<open>wflag fs \<noteq> 0\<close> ok
      by (auto simp: sync_window_def Let_def e_def split: if_splits)
    have d': "ok e \<and> (\<forall>j < nsect. \<not> shadow fs j \<or> j = winsect fs \<longrightarrow> contents e j = contents d j)"
    proof (cases ?m)
      case True
      note ms = mirror_sector [OF g(1,5) conjunct1 [OF True] conjunct2 [OF True]]
      obtain q2 d2 where q2: "io_write io 0 (win fs) (winsect fs + fsize fs) 1 d = (q2, d2)" by fastforce
      from write_law [OF d(1) ms(1) g(4) q2] True q2 ms(2,3) show ?thesis by (auto simp: e_def)
    next
      case False
      then have "e = d" by (simp only: e_def if_False)
      with d show ?thesis by simp
    qed
    have l: "layout nsect fs'" "\<And>k. shadow fs' k = shadow fs k"
      using g(1) by (simp_all add: r layout_def fat_end_def shadow_def)
    have "contents e (winsect fs) = win fs" using d' d(3) ok g(5) by simp
    moreover have "same_view fs fs'"
      using d' d(2) by (simp add: same_view_def view_def r)
    ultimately show ?thesis
      using r d' l g(4) by (simp add: good_def window_ok_def)
  qed
qed

lemma move_window_spec:
  assumes "good fs" and "sect < nsect" and "move_window io sect fs = (r, fs')"
  shows "good fs' \<and> steady fs' = steady fs \<and> same_view fs fs' \<and> r \<in> {FR_OK, FR_DISK_ERR} \<and>
    (r = FR_OK \<longrightarrow> winsect fs' = sect \<and> (\<not> shadow fs sect \<longrightarrow> win fs' = view contents fs sect))"
proof (cases "sect = winsect fs")
  case True
  with assms show ?thesis by (auto simp: move_window_def view_def)
next
  case moved: False
  obtain q fs1 where q: "sync_window io fs = (q, fs1)" by fastforce
  note s = sync_window_spec [OF assms(1) q]
  have geo: "geometry fs1 = geometry fs" using s by (blast intro: steady_geometry)
  show ?thesis
  proof (cases "q = FR_OK")
    case False
    then have "r = q" "fs' = fs1" using assms(3) q moved by (simp_all add: move_window_def)
    then show ?thesis using s False by blast
  next
    case True
    have g: "layout nsect fs1" "pdrv fs1 = 0" "ok (medium fs1)" "length (win fs1) = 512" "wflag fs1 = 0"
      using s True by (auto simp: good_def layout_def window_ok_def)
    obtain t bs d where t: "io_read io 0 sect 1 (medium fs1) = (t, bs, d)" by (metis surj_pair)
    from read_law [OF g(3) t] assms(2)
    have d: "ok d" "\<forall>j < nsect. contents d j = contents (medium fs1) j" "length bs \<le> 512"
      "t = RES_OK \<longrightarrow> bs = contents (medium fs1) sect" by auto
    let ?fs2 = "fs1\<lparr>medium := d, win := store_at 0 bs (win fs1),
      winsect := (if t = RES_OK then sect else - 1)\<rparr>"
    have r: "r = (if t = RES_OK then FR_OK else FR_DISK_ERR)" "fs' = ?fs2"
      using assms(3) q moved True g(2) t by (auto simp: move_window_def Let_def split: if_splits)
    have big: "\<not> (- 1 :: u32) < nsect" using word_n1_ge [of nsect] by (simp add: not_less)
    have full: "t = RES_OK \<longrightarrow> store_at 0 bs (win fs1) = contents (medium fs1) sect"
      using d(4) g(4) contents_length [OF g(3) assms(2)] by (simp add: store_at_def)
    have l: "layout nsect fs'" "\<And>k. shadow fs' k = shadow fs k" "\<And>k. shadow fs1 k = shadow fs k"
      using g(1) geo by (simp_all add: r layout_def fat_end_def shadow_def geometry_fields [OF geo])
    have len: "length (store_at 0 bs (win fs1)) = 512" using g(4) d(3) by simp
    have good: "good fs'"
    proof (cases "t = RES_OK")
      case True
      then have "win fs' = contents d sect" "winsect fs' = sect" "wflag fs' = 0" "ok (medium fs')"
          "medium fs' = d" "length (win fs') = 512"
        using r full d(1) d(2) [rule_format, OF assms(2)] g(5) len by simp_all
      with l(1) show ?thesis by (simp add: good_def window_ok_def)
    next
      case False
      then have "winsect fs' = - 1" "wflag fs' = 0" "ok (medium fs')" "length (win fs') = 512"
        using r d(1) g(5) len by simp_all
      with l(1) big show ?thesis by (simp add: good_def window_ok_def)
    qed
    have clean: "\<forall>k < nsect. \<not> shadow fs k \<longrightarrow> view contents fs1 k = contents (medium fs1) k"
      using conjunct1 [OF s] g(5) l(3) by (auto simp: good_def window_ok_def view_def)
    have v: "\<forall>k < nsect. \<not> shadow fs k \<longrightarrow> view contents fs' k = contents (medium fs1) k"
      using r d full big by (auto simp: view_def)
    have "same_view fs fs'"
      using clean v s by (simp add: same_view_def)
    moreover have "view contents fs sect = contents (medium fs1) sect" if "\<not> shadow fs sect"
      using that clean s assms(2) by (simp add: same_view_def)
    ultimately show ?thesis using good r s full by auto
  qed
qed

text \<open>Changing bytes of the window changes the view of its sector only.\<close>

lemma poke_spec:
  assumes "good fs" and "winsect fs < nsect" and "length w = 512"
  shows "good (fs\<lparr>win := w, wflag := 1\<rparr>)"
    and "view contents (fs\<lparr>win := w, wflag := 1\<rparr>) k =
      (if k = winsect fs then w else view contents fs k)"
  using assms by (auto simp: good_def window_ok_def layout_def fat_end_def view_def)

end

text \<open>A drive that never fails: what a conforming SD card is to FatFs.\<close>

locale reliable_disk = fat_disk io ok contents nsect
  for io :: "'d disk_io" and ok and contents and nsect +
  assumes read_ok: "ok d \<Longrightarrow> k < nsect \<Longrightarrow> fst (io_read io 0 k 1 d) = RES_OK"
    and write_ok: "ok d \<Longrightarrow> k < nsect \<Longrightarrow> length b = 512 \<Longrightarrow> fst (io_write io 0 b k 1 d) = RES_OK"
    and sync_ok: "ok d \<Longrightarrow> fst (io_sync io 0 d) = RES_OK"
begin

lemma sync_window_ok:
  assumes "good fs" shows "fst (sync_window io fs) = FR_OK"
proof (cases "wflag fs = 0")
  case True
  then show ?thesis by (simp add: sync_window_def)
next
  case False
  then have "fst (io_write io 0 (win fs) (winsect fs) 1 (medium fs)) = RES_OK"
    using assms by (intro write_ok) (auto simp: good_def window_ok_def)
  then show ?thesis
    using assms by (auto simp: sync_window_def Let_def good_def layout_def split: prod.splits)
qed

lemma move_window_ok:
  assumes "good fs" and "sect < nsect" shows "fst (move_window io sect fs) = FR_OK"
proof -
  obtain r fs1 where s: "sync_window io fs = (r, fs1)" by fastforce
  from sync_window_spec [OF assms(1) this] sync_window_ok [OF assms(1)] s
  have r: "r = FR_OK" "good fs1" by auto
  then have "fst (io_read io 0 sect 1 (medium fs1)) = RES_OK"
    using assms(2) by (intro read_ok) (auto simp: good_def window_ok_def)
  then show ?thesis
    using s r by (auto simp: move_window_def Let_def good_def layout_def split: prod.splits)
qed

end

text \<open>The driver of \<^verbatim>\<open>sdmm.c\<close> as the drive of FatFs.\<close>

definition sd_io :: "'c card_api \<Rightarrow> 'c disk disk_io" where
  "sd_io api =
    \<lparr>io_read = disk_read api, io_write = disk_write api,
     io_sync = (\<lambda>drv s. case disk_ioctl api drv CTRL_SYNC s of
                          Some (r, v, s') \<Rightarrow> (r, s') | None \<Rightarrow> (RES_ERROR, s)),
     io_status = disk_status api, io_initialize = disk_initialize api\<rparr>"

lemma disk_ioctl_sync_some: "disk_ioctl api drv CTRL_SYNC s \<noteq> None"
  by (simp add: disk_ioctl_def split: prod.splits)

definition nsect_ok :: "byte \<Rightarrow> u32 \<Rightarrow> bool" where
  \<comment> \<open>every sector below \<open>nsect\<close> has an address on a card of the type\<close>
  "nsect_ok ty nsect \<longleftrightarrow> ty AND CT_BLOCK \<noteq> 0 \<or> nsect \<le> 2 ^ 23"

lemma nsect_ok_valid: "nsect_ok ty nsect \<Longrightarrow> k < nsect \<Longrightarrow> sector_valid ty k"
  by (auto simp: nsect_ok_def sector_valid_def)

context sd_card begin

lemma sync_device:
  assumes "disk_ok busy busy_max ty s" and "io_sync (sd_io api) 0 s = (r, s')"
  shows "r = RES_OK \<and> disk_ok busy busy_max ty s' \<and> disk_contents mem s' = disk_contents mem s"
proof -
  obtain n where n: "busy n (dk_card s)" "n \<le> busy_max" "dk_Stat s = 0" "dk_CardType s = ty"
    using assms(1) by (auto simp: disk_ok_def)
  obtain c where c: "select api (dk_card s) = (True, c)" "busy 0 c" "mem c = mem (dk_card s)"
    using select_busy [OF n(1)] n(2) busy_bound by auto
  have "s' = s\<lparr>dk_Stat := 0, dk_card := deselect api c\<rparr>" "r = RES_OK"
    using assms(2) n(3) c(1) present
    by (simp_all add: sd_io_def disk_ioctl_def disk_status_def)
  with deselect_busy [OF c(2)] c(3) n show ?thesis
    by (auto simp: disk_ok_def disk_contents_def fun_eq_iff)
qed

lemma contents_device:
  "disk_ok busy busy_max ty s \<Longrightarrow> length (disk_contents mem s k) = 512"
  using block_length by (auto simp: disk_ok_def disk_contents_def)

lemma fat_device:
  assumes "nsect_ok ty nsect"
  shows "fat_disk (sd_io api) (disk_ok busy busy_max ty) (disk_contents mem) nsect"
proof unfold_locales
  fix d k r bs d'
  assume h: "disk_ok busy busy_max ty d" "io_read (sd_io api) 0 k 1 d = (r, bs, d')"
  from block_device.rd_ok [OF device h(1), of k] h(2)
  show "disk_ok busy busy_max ty d' \<and> (\<forall>j < nsect. disk_contents mem d' j = disk_contents mem d j) \<and>
      length bs \<le> 512 \<and> (r = RES_OK \<longrightarrow> k < nsect \<longrightarrow> bs = disk_contents mem d k)"
    using contents_device [OF h(1)] by (auto simp: sd_io_def)
next
  fix d k r d' and b :: "byte list"
  assume h: "disk_ok busy busy_max ty d" "k < nsect" "length b = 512"
    "io_write (sd_io api) 0 b k 1 d = (r, d')"
  from block_device.wr_ok [OF device h(1) nsect_ok_valid [OF assms h(2)] h(3)] h(4)
  show "disk_ok busy busy_max ty d' \<and>
      (\<forall>j < nsect. j \<noteq> k \<longrightarrow> disk_contents mem d' j = disk_contents mem d j) \<and>
      (r = RES_OK \<longrightarrow> disk_contents mem d' k = b)"
    using nsect_ok_valid [OF assms] h(2) by (auto simp: sd_io_def)
qed (auto simp: contents_device dest: sync_device)

lemma reliable_device:
  assumes "nsect_ok ty nsect"
  shows "reliable_disk (sd_io api) (disk_ok busy busy_max ty) (disk_contents mem) nsect"
proof (rule reliable_disk.intro [OF fat_device [OF assms]], unfold_locales)
  fix d k assume "disk_ok busy busy_max ty d" "k < nsect"
  from block_device.rd_ok [OF device this(1), of k]
  show "fst (io_read (sd_io api) 0 k 1 d) = RES_OK" by (auto simp: sd_io_def)
next
  fix d k and b :: "byte list" assume "disk_ok busy busy_max ty d" "k < nsect" "length b = 512"
  from block_device.wr_ok [OF device this(1) nsect_ok_valid [OF assms this(2)] this(3)]
  show "fst (io_write (sd_io api) 0 b k 1 d) = RES_OK" by (auto simp: sd_io_def)
next
  fix d assume "disk_ok busy busy_max ty d"
  then show "fst (io_sync (sd_io api) 0 d) = RES_OK" using sync_device by (metis prod.collapse)
qed

end

interpretation sim_fat: reliable_disk "sd_io sim_api" "disk_ok sim_busy 2 0x18" "disk_contents sim_mem" nsect
  for nsect
  by (rule sim.reliable_device) (simp add: nsect_ok_def)

end
