(* ===== verification/FatTable.thy ===== *)
theory FatTable
  imports FatWindow
begin

text \<open>
  The file allocation table (\<^verbatim>\<open>ff.c\<close>: \<open>get_fat\<close>, \<open>put_fat\<close>) in its three formats. The table is
  seen as an array of bytes, \<open>fat_byte\<close>, spread over the sectors from \<open>fatbase\<close> on; \<open>fat_entry\<close> and
  \<open>fat_set\<close> are the formats over such an array, and \<open>get_fat\<close> and \<open>put_fat\<close> are shown to implement
  them through the window.
\<close>

section \<open>Access through the window\<close>

definition get_fat :: "'d disk_io \<Rightarrow> u32 \<Rightarrow> 'd fatfs \<Rightarrow> u32 \<times> 'd fatfs" where
  \<comment> \<open>0xFFFFFFFF: disk error, 1: internal error\<close>
  "get_fat io clst fs =
    (if clst < 2 \<or> clst \<ge> n_fatent fs then (1, fs)
     else if fs_type fs = FS_FAT12 then
       (let bc = clst + clst div 2 in
        case move_window io (fatbase fs + bc div 512) fs of
          (res, fs1) \<Rightarrow>
            if res \<noteq> FR_OK then (0xFFFFFFFF, fs1)
            else
              (let wc = ucast (win fs1 ! (unat bc mod SS)) :: u32; bc = bc + 1 in
               case move_window io (fatbase fs1 + bc div 512) fs1 of
                 (res, fs2) \<Rightarrow>
                   if res \<noteq> FR_OK then (0xFFFFFFFF, fs2)
                   else
                     (let wc = wc OR push_bit 8 (ucast (win fs2 ! (unat bc mod SS)))
                      in (if clst AND 1 \<noteq> 0 then drop_bit 4 wc else wc AND 0xFFF, fs2))))
     else if fs_type fs = FS_FAT16 then
       (case move_window io (fatbase fs + clst div 256) fs of
          (res, fs1) \<Rightarrow>
            if res \<noteq> FR_OK then (0xFFFFFFFF, fs1)
            else (ucast (ld_word (win fs1) (unat (clst * 2) mod SS)), fs1))
     else if fs_type fs = FS_FAT32 then
       (case move_window io (fatbase fs + clst div 128) fs of
          (res, fs1) \<Rightarrow>
            if res \<noteq> FR_OK then (0xFFFFFFFF, fs1)
            else (ld_dword (win fs1) (unat (clst * 4) mod SS) AND 0x0FFFFFFF, fs1))
     else (1, fs))"

definition put_fat :: "'d disk_io \<Rightarrow> u32 \<Rightarrow> u32 \<Rightarrow> 'd fatfs \<Rightarrow> fresult \<times> 'd fatfs" where
  "put_fat io clst val fs =
    (if clst \<ge> 2 \<and> clst < n_fatent fs then
       (if fs_type fs = FS_FAT12 then
          (let bc = clst + clst div 2 in
           case move_window io (fatbase fs + bc div 512) fs of
             (res, fs1) \<Rightarrow>
               if res \<noteq> FR_OK then (res, fs1)
               else
                 (let i = unat bc mod SS;
                      p = win fs1 ! i;
                      b1 = (if clst AND 1 \<noteq> 0 then (p AND 0x0F) OR push_bit 4 (ucast val)
                            else ucast val);
                      fs1 = fs1\<lparr>win := (win fs1)[i := b1], wflag := 1\<rparr>;
                      bc = bc + 1
                  in case move_window io (fatbase fs1 + bc div 512) fs1 of
                       (res, fs2) \<Rightarrow>
                         if res \<noteq> FR_OK then (res, fs2)
                         else
                           (let i = unat bc mod SS;
                                p = win fs2 ! i;
                                b2 = (if clst AND 1 \<noteq> 0 then ucast (drop_bit 4 val)
                                      else (p AND 0xF0) OR (ucast (drop_bit 8 val) AND 0x0F))
                            in (FR_OK, fs2\<lparr>win := (win fs2)[i := b2], wflag := 1\<rparr>))))
        else if fs_type fs = FS_FAT16 then
          (case move_window io (fatbase fs + clst div 256) fs of
             (res, fs1) \<Rightarrow>
               if res \<noteq> FR_OK then (res, fs1)
               else (FR_OK, fs1\<lparr>win := st_word (win fs1) (unat (clst * 2) mod SS) (ucast val),
                                wflag := 1\<rparr>))
        else if fs_type fs = FS_FAT32 then
          (case move_window io (fatbase fs + clst div 128) fs of
             (res, fs1) \<Rightarrow>
               if res \<noteq> FR_OK then (res, fs1)
               else
                 (let i = unat (clst * 4) mod SS;
                      v = (val AND 0x0FFFFFFF) OR (ld_dword (win fs1) i AND 0xF0000000)
                  in (FR_OK, fs1\<lparr>win := st_dword (win fs1) i v, wflag := 1\<rparr>)))
        else (FR_INT_ERR, fs))
     else (FR_INT_ERR, fs))"

section \<open>The three formats\<close>

definition fat_entry :: "byte \<Rightarrow> (nat \<Rightarrow> byte) \<Rightarrow> nat \<Rightarrow> u32" where
  "fat_entry ty B c =
    (if ty = FS_FAT12 then
       (let b = c + c div 2; wc = ucast (B b) OR push_bit 8 (ucast (B (b + 1))) :: u32
        in if odd c then drop_bit 4 wc else wc AND 0xFFF)
     else if ty = FS_FAT16 then ucast (word_of (B (2 * c)) (B (2 * c + 1)))
     else dword_of (B (4 * c)) (B (4 * c + 1)) (B (4 * c + 2)) (B (4 * c + 3)) AND 0x0FFFFFFF)"

definition fat_mask :: "byte \<Rightarrow> u32" where
  "fat_mask ty = (if ty = FS_FAT12 then 0xFFF else if ty = FS_FAT16 then 0xFFFF else 0x0FFFFFFF)"

definition fat12_first :: "nat \<Rightarrow> u32 \<Rightarrow> byte \<Rightarrow> byte" where
  "fat12_first c v p = (if odd c then (p AND 0x0F) OR push_bit 4 (ucast v) else ucast v)"

definition fat12_second :: "nat \<Rightarrow> u32 \<Rightarrow> byte \<Rightarrow> byte" where
  "fat12_second c v p =
    (if odd c then ucast (drop_bit 4 v) else (p AND 0xF0) OR (ucast (drop_bit 8 v) AND 0x0F))"

definition fat32_merge :: "u32 \<Rightarrow> u32 \<Rightarrow> u32" where
  "fat32_merge v old = (v AND 0x0FFFFFFF) OR (old AND 0xF0000000)"

definition fat_set :: "byte \<Rightarrow> (nat \<Rightarrow> byte) \<Rightarrow> nat \<Rightarrow> u32 \<Rightarrow> nat \<Rightarrow> byte" where
  "fat_set ty B c v =
    (if ty = FS_FAT12 then
       (let b = c + c div 2
        in B(b := fat12_first c v (B b), b + 1 := fat12_second c v (B (b + 1))))
     else if ty = FS_FAT16 then B(2 * c := ucast v, 2 * c + 1 := ucast (drop_bit 8 v))
     else
       (let w = fat32_merge v (dword_of (B (4 * c)) (B (4 * c + 1)) (B (4 * c + 2)) (B (4 * c + 3)))
        in B(4 * c := ucast w, 4 * c + 1 := ucast (drop_bit 8 w),
             4 * c + 2 := ucast (drop_bit 16 w), 4 * c + 3 := ucast (drop_bit 24 w))))"

text \<open>The nibbles of FAT12: where two entries share a byte.\<close>

lemma nibble_masks:
  "(0x0F :: byte) = mask 4" "(0xF0 :: byte) = push_bit 4 (mask 4)" "(0xFFF :: u32) = mask 12"
  by (simp_all add: mask_eq_exp_minus_1 push_bit_eq_mult)

lemma fat12_same:
  "drop_bit 4 (ucast (fat12_first c v p) OR push_bit 8 (ucast (fat12_second c v q))) = v AND (0xFFF :: u32)"
  if "odd c"
  using that unfolding fat12_first_def fat12_second_def nibble_masks
  by (intro bit_word_eqI) (auto simp: bit_simps)

lemma fat12_same_even:
  "(ucast (fat12_first c v p) OR push_bit 8 (ucast (fat12_second c v q))) AND 0xFFF = v AND (0xFFF :: u32)"
  if "even c"
  using that unfolding fat12_first_def fat12_second_def nibble_masks
  by (intro bit_word_eqI) (auto simp: bit_simps)

lemma fat12_next:
  "drop_bit 4 (ucast (fat12_second c v q) OR push_bit 8 (ucast r)) =
    drop_bit 4 (ucast q OR push_bit 8 (ucast r) :: u32)"
  if "even c"
  using that unfolding fat12_second_def nibble_masks
  by (intro bit_word_eqI) (auto simp: bit_simps dest: bit_imp_le_length)

lemma fat12_prev:
  "(ucast r OR push_bit 8 (ucast (fat12_first c v p))) AND 0xFFF =
    (ucast r OR push_bit 8 (ucast p)) AND (0xFFF :: u32)"
  if "odd c"
  using that unfolding fat12_first_def nibble_masks
  by (intro bit_word_eqI) (auto simp: bit_simps)

lemma fat12_positions:
  fixes c c' :: nat
  assumes "c \<noteq> c'"
  shows "(even c \<and> c' = c + 1 \<and> c' + c' div 2 = c + c div 2 + 1) \<or>
    (odd c \<and> c = c' + 1 \<and> c + c div 2 = c' + c' div 2 + 1) \<or>
    (c' + c' div 2 + 1 < c + c div 2 \<or> c + c div 2 + 1 < c' + c' div 2)"
proof -
  have e: "n = 2 * (n div 2) + n mod 2" "n mod 2 < 2" "odd n \<longleftrightarrow> n mod 2 = 1" for n :: nat
    by (simp_all add: odd_iff_mod_2_eq_one)
  show ?thesis
    using assms e [of c] e [of c'] by linarith
qed

lemma fat12_entry_set:
  "fat_entry FS_FAT12 (fat_set FS_FAT12 B c v) c' =
    (if c' = c then v AND 0xFFF else fat_entry FS_FAT12 B c')"
proof (cases "c' = c")
  case True
  then show ?thesis
    using fat12_same [of c v] fat12_same_even [of c v]
    by (simp add: fat_entry_def fat_set_def Let_def)
next
  case False
  let ?b = "c + c div 2" and ?b' = "c' + c' div 2"
  from fat12_positions [OF False [symmetric]]
  consider "even c" "c' = c + 1" "?b' = ?b + 1" | "odd c" "c = c' + 1" "?b = ?b' + 1"
    | "?b' \<noteq> ?b" "?b' \<noteq> ?b + 1" "?b' + 1 \<noteq> ?b" "?b' + 1 \<noteq> ?b + 1"
    by linarith
  then show ?thesis
  proof cases
    case 1
    then have "odd c'" by simp
    with 1(1) False fat12_next [OF 1(1)] show ?thesis
      unfolding fat_entry_def fat_set_def Let_def 1(3) by simp
  next
    case 2
    then have "even c'" by simp
    with 2(1) False fat12_prev [OF 2(1)] show ?thesis
      unfolding fat_entry_def fat_set_def Let_def 2(3) by simp
  next
    case 3
    with False show ?thesis unfolding fat_entry_def fat_set_def Let_def by simp
  qed
qed

lemma fat16_entry_set:
  "fat_entry FS_FAT16 (fat_set FS_FAT16 B c v) c' =
    (if c' = c then v AND 0xFFFF else fat_entry FS_FAT16 B c')"
proof -
  have "word_of (ucast v) (ucast (drop_bit 8 v)) = (ucast v :: u16)"
    by (rule bit_word_eqI) (auto simp: word_of_def bit_simps)
  moreover have "(ucast (ucast v :: u16) :: u32) = v AND 0xFFFF"
  proof -
    have m: "(0xFFFF :: u32) = mask 16" by (simp add: mask_eq_exp_minus_1)
    show ?thesis unfolding m by (rule bit_word_eqI) (auto simp: bit_simps)
  qed
  moreover have "2 * c \<noteq> 2 * c' + 1" "2 * c' \<noteq> 2 * c + 1" by presburger+
  ultimately show ?thesis by (simp add: fat_entry_def fat_set_def)
qed

lemma fat32_entry_set:
  "fat_entry FS_FAT32 (fat_set FS_FAT32 B c v) c' =
    (if c' = c then v AND 0x0FFFFFFF else fat_entry FS_FAT32 B c')"
proof (cases "c' = c")
  case True
  have "fat32_merge v old AND 0x0FFFFFFF = v AND 0x0FFFFFFF" for old
  proof -
    have m: "(0x0FFFFFFF :: u32) = mask 28" "(0xF0000000 :: u32) = push_bit 28 (mask 4)"
      by (simp_all add: mask_eq_exp_minus_1 push_bit_eq_mult)
    show ?thesis unfolding fat32_merge_def m by (rule bit_word_eqI) (auto simp: bit_simps)
  qed
  with True show ?thesis by (simp add: fat_entry_def fat_set_def Let_def dword_of_bytes)
next
  case False
  then have "4 * c' + i \<noteq> 4 * c + j" if "i < 4" "j < 4" for i j :: nat using that by presburger
  from this [of 0 0] this [of 0 1] this [of 0 2] this [of 0 3] this [of 1 0] this [of 1 1]
    this [of 1 2] this [of 1 3] this [of 2 0] this [of 2 1] this [of 2 2] this [of 2 3]
    this [of 3 0] this [of 3 1] this [of 3 2] this [of 3 3] False
  show ?thesis by (simp add: fat_entry_def fat_set_def Let_def)
qed

lemma fat_entry_set:
  "ty \<in> {FS_FAT12, FS_FAT16, FS_FAT32} \<Longrightarrow>
   fat_entry ty (fat_set ty B c v) c' = (if c' = c then v AND fat_mask ty else fat_entry ty B c')"
  by (auto simp: fat_mask_def fat12_entry_set fat16_entry_set fat32_entry_set)

section \<open>The table on the volume\<close>

definition fat_byte :: "('d \<Rightarrow> u32 \<Rightarrow> byte list) \<Rightarrow> 'd fatfs \<Rightarrow> nat \<Rightarrow> byte" where
  "fat_byte contents fs n = view contents fs (fatbase fs + of_nat (n div SS)) ! (n mod SS)"

definition fat_of :: "('d \<Rightarrow> u32 \<Rightarrow> byte list) \<Rightarrow> 'd fatfs \<Rightarrow> u32 \<Rightarrow> u32" where
  \<comment> \<open>the table as a function from clusters to entries\<close>
  "fat_of contents fs c = fat_entry (fs_type fs) (fat_byte contents fs) (unat c)"

definition table_bytes :: "byte \<Rightarrow> nat \<Rightarrow> nat" where
  "table_bytes ty n =
    (if ty = FS_FAT12 then n + n div 2 + n mod 2 else if ty = FS_FAT16 then 2 * n else 4 * n)"

definition fat_limit :: "byte \<Rightarrow> u32" where
  \<comment> \<open>\<open>MAX_FAT12\<close>, \<open>MAX_FAT16\<close>, \<open>MAX_FAT32\<close>, plus the two reserved entries\<close>
  "fat_limit ty = (if ty = FS_FAT12 then 0xFF7 else if ty = FS_FAT16 then 0xFFF7 else 0x0FFFFFF7)"

definition fat_ok :: "'d fatfs \<Rightarrow> bool" where
  \<comment> \<open>what a mount has checked of the table\<close>
  "fat_ok fs \<longleftrightarrow> fs_type fs \<in> {FS_FAT12, FS_FAT16, FS_FAT32} \<and>
     2 \<le> n_fatent fs \<and> n_fatent fs \<le> fat_limit (fs_type fs) \<and>
     table_bytes (fs_type fs) (unat (n_fatent fs)) \<le> SS * unat (fsize fs)"

definition in_fat :: "'d fatfs \<Rightarrow> u32 \<Rightarrow> bool" where
  \<comment> \<open>the sectors of the first table\<close>
  "in_fat fs k \<longleftrightarrow> unat (fatbase fs) \<le> unat k \<and> unat k < unat (fatbase fs) + unat (fsize fs)"

lemma fat_ok_cong: "geometry fs = geometry fs' \<Longrightarrow> fat_ok fs = fat_ok fs'"
  unfolding fat_ok_def by (simp only: geometry_fields [of fs fs'])

lemma in_fat_cong: "geometry fs = geometry fs' \<Longrightarrow> in_fat fs = in_fat fs'"
  by (rule ext, unfold in_fat_def) (simp only: geometry_fields [of fs fs'])

lemma entry_bytes:
  assumes "c < n"
  shows "c + c div 2 + 1 < table_bytes FS_FAT12 n" "2 * c + 1 < table_bytes FS_FAT16 n"
    "4 * c + 3 < table_bytes FS_FAT32 n"
proof -
  show "c + c div 2 + 1 < table_bytes FS_FAT12 n"
  proof -
    have e: "m = 2 * (m div 2) + m mod 2" "m mod 2 = 0 \<or> m mod 2 = 1" for m :: nat by auto
    from e [of c] e [of n] assms have "c + c div 2 + 1 < n + n div 2 + n mod 2" by linarith
    then show ?thesis by (simp add: table_bytes_def)
  qed
qed (use assms in \<open>simp_all add: table_bytes_def\<close>)

lemma fat_entry_cong:
  assumes "ty \<in> {FS_FAT12, FS_FAT16, FS_FAT32}" and "c < n"
    and "\<And>m. m < table_bytes ty n \<Longrightarrow> B' m = B m"
  shows "fat_entry ty B' c = fat_entry ty B c"
  using assms(1,3) entry_bytes [OF assms(2)]
  by (auto simp: fat_entry_def Let_def)

lemma fat_entry_small: "ty \<in> {FS_FAT12, FS_FAT16, FS_FAT32} \<Longrightarrow> fat_entry ty B c \<le> 0x0FFFFFFF"
proof -
  have m: "(0x0FFFFFFF :: u32) = mask 28" "(0xFFF :: u32) = mask 12"
    by (simp_all add: mask_eq_exp_minus_1)
  have le: "x \<le> mask 28" if "\<And>i. 28 \<le> i \<Longrightarrow> \<not> bit x i" for x :: u32
  proof -
    have "take_bit 28 x = x" using that by (intro bit_word_eqI) (metis bit_take_bit_iff not_le)
    then show ?thesis by (metis take_bit_word_beyond_length_eq take_bit_eq_mask word_and_le1)
  qed
  show "fat_entry ty B c \<le> 0x0FFFFFFF"
    unfolding fat_entry_def m Let_def
    by (rule le) (auto simp: bit_simps word_of_def dword_of_def dest: bit_imp_le_length)
qed

context fat_disk begin

lemma fat_sector:
  assumes "layout nsect fs" and "n < SS * unat (fsize fs)"
  shows "unat (fatbase fs + of_nat (n div SS)) = unat (fatbase fs) + n div SS"
    and "fatbase fs + of_nat (n div SS) < nsect" and "\<not> shadow fs (fatbase fs + of_nat (n div SS))"
    and "in_fat fs (fatbase fs + of_nat (n div SS))"
proof -
  have d: "n div SS < unat (fsize fs)" using assms(2) by (simp add: div_less_iff_less_mult mult.commute)
  have l: "unat (fatbase fs) + unat (fsize fs) \<le> unat nsect"
    using assms(1) by (auto simp: layout_def fat_end_def)
  have "unat (of_nat (n div SS) :: u32) = n div SS"
    using d u32_unat_less [of "fsize fs"] by (intro u32_of_nat) simp
  then show u: "unat (fatbase fs + of_nat (n div SS)) = unat (fatbase fs) + n div SS"
    using d l u32_unat_less [of nsect] by (simp add: u32_add)
  show "fatbase fs + of_nat (n div SS) < nsect" using u d l by (simp add: word_less_nat_alt)
  have "fatbase fs + of_nat (n div SS) \<noteq> volbase fs + 1" if "fs_type fs = FS_FAT32"
  proof -
    have "unat (volbase fs) + 1 < unat (fatbase fs)" using assms(1) that by (simp add: layout_def)
    then have "unat (volbase fs + 1) < unat (fatbase fs)"
      using u32_unat_less [of "fatbase fs"] by (simp add: u32_add1)
    then show ?thesis using u by auto
  qed
  then show "\<not> shadow fs (fatbase fs + of_nat (n div SS))"
    using u d by (simp add: shadow_def)
  show "in_fat fs (fatbase fs + of_nat (n div SS))"
    using u d by (simp add: in_fat_def)
qed

lemma same_view_fat:
  assumes "same_view fs fs'" and "geometry fs' = geometry fs" and "layout nsect fs"
    and "n < SS * unat (fsize fs)"
  shows "fat_byte contents fs' n = fat_byte contents fs n"
  using assms(1) fat_sector [OF assms(3,4)] geometry_fields [OF assms(2)]
  by (simp add: fat_byte_def same_view_def)

lemma window_byte:
  assumes "good fs" and "n < SS * unat (fsize fs)"
    and "move_window io (fatbase fs + of_nat (n div SS)) fs = (FR_OK, fs1)"
    and "m div SS = n div SS"
  shows "win fs1 ! (m mod SS) = fat_byte contents fs m"
  using move_window_spec [OF assms(1) _ assms(3)] fat_sector [OF _ assms(2)] assms(1,4)
  by (simp add: good_def fat_byte_def)

lemma poke_byte:
  assumes "good fs" and "n < SS * unat (fsize fs)" and "m < SS * unat (fsize fs)"
    and "winsect fs = fatbase fs + of_nat (n div SS)" and "length w = 512"
  shows "fat_byte contents (fs\<lparr>win := w, wflag := 1\<rparr>) m =
    (if m div SS = n div SS then w ! (m mod SS) else fat_byte contents fs m)"
proof -
  have l: "layout nsect fs" using assms(1) by (simp add: good_def)
  have "fatbase fs + of_nat (m div SS) = fatbase fs + of_nat (n div SS) \<longleftrightarrow> m div SS = n div SS"
    using fat_sector(1) [OF l assms(2)] fat_sector(1) [OF l assms(3)]
    by (metis add_left_cancel)
  then show ?thesis
    using poke_spec(2) [OF assms(1) _ assms(5), of "fatbase fs + of_nat (m div SS)"] assms(4)
      fat_sector(2) [OF l assms(2)]
    by (simp add: fat_byte_def)
qed

lemma move_fat:
  assumes "good fs" and "n < SS * unat (fsize fs)"
    and "move_window io (fatbase fs + of_nat (n div SS)) fs = (r, fs1)"
  shows "good fs1 \<and> steady fs1 = steady fs \<and> same_view fs fs1 \<and> r \<in> {FR_OK, FR_DISK_ERR} \<and>
    (r = FR_OK \<longrightarrow> winsect fs1 = fatbase fs + of_nat (n div SS) \<and>
      (\<forall>m. m div SS = n div SS \<longrightarrow> win fs1 ! (m mod SS) = fat_byte contents fs m))"
proof -
  have "layout nsect fs" using assms(1) by (simp add: good_def)
  note m = move_window_spec [OF assms(1) fat_sector(2) [OF this assms(2)] assms(3)]
  moreover have "win fs1 ! (m mod SS) = fat_byte contents fs m"
    if "r = FR_OK" "m div SS = n div SS" for m
    using window_byte [OF assms(1,2) _ that(2)] assms(3) that(1) by simp
  ultimately show ?thesis by blast
qed

end

text \<open>The sectors of the three formats, computed in 32 bits.\<close>

lemma fat12_offset:
  assumes "c < (0x0FFFFFF7 :: u32)"
  shows "unat (c + c div 2) = unat c + unat c div 2" "unat (c + c div 2 + 1) = unat c + unat c div 2 + 1"
proof -
  have c: "unat c < 0x0FFFFFF7" using assms by (simp add: word_less_nat_alt)
  have d: "unat (c div 2) = unat c div 2" by (simp add: unat_div_distrib)
  show u: "unat (c + c div 2) = unat c + unat c div 2" using c d by (simp add: u32_add)
  show "unat (c + c div 2 + 1) = unat c + unat c div 2 + 1" using c by (simp add: u32_add1 u)
qed

lemma fat16_offset:
  assumes "c < (0x0FFFFFF7 :: u32)"
  shows "unat (c * 2) = 2 * unat c" "unat (c * 4) = 4 * unat c"
proof -
  have c: "unat c < 0x0FFFFFF7" using assms by (simp add: word_less_nat_alt)
  show "unat (c * 2) = 2 * unat c" "unat (c * 4) = 4 * unat c"
    using c by (simp_all add: unat_mult_lem [THEN iffD1])
qed

lemma sector_div:
  "x div 512 = (of_nat (unat (x :: u32) div SS) :: u32)"
  "x div 256 = (of_nat (2 * unat x div SS) :: u32)"
  "x div 128 = (of_nat (4 * unat x div SS) :: u32)"
proof -
  have "2 * n div SS = n div 256" "4 * n div SS = n div 128" for n :: nat
    using div_mult_mult1 [of 2 n 256] div_mult_mult1 [of 4 n 128] by simp_all
  then show "x div 512 = (of_nat (unat (x :: u32) div SS) :: u32)"
    "x div 256 = (of_nat (2 * unat x div SS) :: u32)" "x div 128 = (of_nat (4 * unat x div SS) :: u32)"
    using u32_div [of x 512] u32_div [of x 256] u32_div [of x 128] by simp_all
qed

lemma entry_sector:
  fixes n i :: nat
  shows "i < 2 \<Longrightarrow> (2 * n + i) div SS = 2 * n div SS" "i < 2 \<Longrightarrow> (2 * n + i) mod SS = 2 * n mod SS + i"
    "i < 4 \<Longrightarrow> (4 * n + i) div SS = 4 * n div SS" "i < 4 \<Longrightarrow> (4 * n + i) mod SS = 4 * n mod SS + i"
proof -
  have d: "i < 2 \<Longrightarrow> (2 * n + i) div SS = n div 256" "i < 4 \<Longrightarrow> (4 * n + i) div SS = n div 128"
    "2 * n div SS = n div 256" "4 * n div SS = n div 128"
    using div_mult2_eq [of "2 * n + i" 2 256] div_mult2_eq [of "4 * n + i" 4 128]
      div_mult2_eq [of "2 * n" 2 256] div_mult2_eq [of "4 * n" 4 128] by simp_all
  then show "i < 2 \<Longrightarrow> (2 * n + i) div SS = 2 * n div SS" "i < 4 \<Longrightarrow> (4 * n + i) div SS = 4 * n div SS"
    by simp_all
  have m: "x mod SS = x - SS * (x div SS)" "SS * (x div SS) \<le> x" for x :: nat
    by (simp_all add: minus_mult_div_eq_mod)
  show "i < 2 \<Longrightarrow> (2 * n + i) mod SS = 2 * n mod SS + i" "i < 4 \<Longrightarrow> (4 * n + i) mod SS = 4 * n mod SS + i"
    using m [of "2 * n"] m [of "4 * n"] m [of "2 * n + i"] m [of "4 * n + i"] d by simp_all
qed

lemma entry_room:
  fixes n :: nat
  shows "2 * n mod SS + 2 \<le> SS" "4 * n mod SS + 4 \<le> SS"
proof -
  have "n mod 256 < 256" "n mod 128 < 128" by simp_all
  then show "2 * n mod SS + 2 \<le> SS" "4 * n mod SS + 4 \<le> SS"
    using mult_mod_right [of 2 n 256] mult_mod_right [of 4 n 128] by simp_all
qed

lemma odd_and_one: "(c :: u32) AND 1 \<noteq> 0 \<longleftrightarrow> odd (unat c)"
  by (simp add: and_one_eq odd_iff_mod_2_eq_one word_unat_eq_iff unat_mod_distrib)

context fat_disk begin

lemma fat_range:
  assumes "fat_ok fs" and "c < n_fatent fs"
  shows "c < 0x0FFFFFF7"
    and "fs_type fs = FS_FAT12 \<Longrightarrow> unat c + unat c div 2 + 1 < SS * unat (fsize fs)"
    and "fs_type fs = FS_FAT16 \<Longrightarrow> 2 * unat c + 1 < SS * unat (fsize fs)"
    and "fs_type fs = FS_FAT32 \<Longrightarrow> 4 * unat c + 3 < SS * unat (fsize fs)"
proof -
  have "fat_limit (fs_type fs) \<le> 0x0FFFFFF7" by (simp add: fat_limit_def)
  with assms show "c < 0x0FFFFFF7" by (auto simp: fat_ok_def)
qed (use assms entry_bytes [of "unat c" "unat (n_fatent fs)"] in
    \<open>auto simp: fat_ok_def word_less_nat_alt\<close>)

lemma same_view_fat_of:
  assumes "same_view fs fs'" and "geometry fs' = geometry fs" and "layout nsect fs" and "fat_ok fs"
    and "c < n_fatent fs"
  shows "fat_of contents fs' c = fat_of contents fs c"
  unfolding fat_of_def geometry_fields [OF assms(2)]
  using assms(4,5) same_view_fat [OF assms(1-3)]
  by (intro fat_entry_cong [of _ _ "unat (n_fatent fs)"]) (auto simp: fat_ok_def word_less_nat_alt)

lemma get_fat12:
  assumes "good fs" and "fat_ok fs" and "2 \<le> c" and "c < n_fatent fs" and "fs_type fs = FS_FAT12"
    and "get_fat io c fs = (v, fs')"
  shows "good fs' \<and> steady fs' = steady fs \<and> same_view fs fs' \<and>
    (v = fat_of contents fs c \<or> v = 0xFFFFFFFF)"
proof -
  let ?b = "unat c + unat c div 2"
  have nc: "\<not> (c < 2 \<or> c \<ge> n_fatent fs)" using assms(3,4) by (simp add: not_le not_less)
  note r = fat_range [OF assms(2,4)]
  note o = fat12_offset [OF r(1)]
  have b: "?b < SS * unat (fsize fs)" "?b + 1 < SS * unat (fsize fs)" using r(2) assms(5) by auto
  obtain q1 fs1 where m1: "move_window io (fatbase fs + of_nat (?b div SS)) fs = (q1, fs1)" by fastforce
  note s1 = move_fat [OF assms(1) b(1) m1]
  show ?thesis
  proof (cases "q1 = FR_OK")
    case False
    with nc assms(5,6) m1 s1 o show ?thesis
      by (auto simp: get_fat_def Let_def sector_div)
  next
    case True
    have g1: "geometry fs1 = geometry fs" using s1 by (blast intro: steady_geometry)
    have b2: "?b + 1 < SS * unat (fsize fs1)" using b(2) geometry_fields [OF g1] by simp
    obtain q2 fs2 where m2: "move_window io (fatbase fs1 + of_nat ((?b + 1) div SS)) fs1 = (q2, fs2)"
      by fastforce
    have good1: "good fs1" "layout nsect fs" using s1 assms(1) by (auto simp: good_def)
    note s2 = move_fat [OF good1(1) b2 m2]
    have sv: "same_view fs fs2" using s1 s2 same_view_trans g1 by metis
    show ?thesis
    proof (cases "q2 = FR_OK")
      case False
      with nc assms(5,6) m1 m2 s1 s2 o True sv show ?thesis
        by (auto simp: get_fat_def Let_def sector_div)
    next
      case True': True
      have e1: "win fs1 ! (?b mod SS) = fat_byte contents fs ?b" using s1 True by blast
      have "win fs2 ! ((?b + 1) mod SS) = fat_byte contents fs1 (?b + 1)" using s2 True' by blast
      then have e2: "win fs2 ! ((?b + 1) mod SS) = fat_byte contents fs (?b + 1)"
        using same_view_fat [OF _ g1 good1(2) b(2)] s1 by simp
      have "get_fat io c fs = (fat_entry FS_FAT12 (fat_byte contents fs) (unat c), fs2)"
        using nc assms(5) m1 m2 o True True' e1 e2
        by (simp add: get_fat_def Let_def sector_div fat_entry_def odd_and_one)
      with assms(6) have "v = fat_entry FS_FAT12 (fat_byte contents fs) (unat c)" "fs' = fs2"
        by simp_all
      with s1 s2 sv assms(5) show ?thesis by (simp add: fat_of_def)
    qed
  qed
qed

lemma get_fat_spec:
  assumes "good fs" and "fat_ok fs" and "get_fat io c fs = (v, fs')"
  shows "good fs' \<and> steady fs' = steady fs \<and> same_view fs fs' \<and>
    (if 2 \<le> c \<and> c < n_fatent fs then v = fat_of contents fs c \<or> v = 0xFFFFFFFF else v = 1)"
proof (cases "2 \<le> c \<and> c < n_fatent fs")
  case False
  with assms show ?thesis by (auto simp: get_fat_def not_le not_less)
next
  case c: True
  have nc: "\<not> (c < 2 \<or> c \<ge> n_fatent fs)" using c by (simp add: not_le not_less)
  note r = fat_range [OF assms(2) conjunct2 [OF c]]
  note o = fat16_offset [OF r(1)]
  from assms(2) consider "fs_type fs = FS_FAT12" | "fs_type fs = FS_FAT16" | "fs_type fs = FS_FAT32"
    by (auto simp: fat_ok_def)
  then show ?thesis
  proof cases
    case 1
    from get_fat12 [OF assms(1,2) conjunct1 [OF c] conjunct2 [OF c] 1 assms(3)] c show ?thesis by simp
  next
    case 2
    have b: "2 * unat c < SS * unat (fsize fs)" using r(3) 2 by simp
    obtain q fs1 where m: "move_window io (fatbase fs + of_nat (2 * unat c div SS)) fs = (q, fs1)"
      by fastforce
    note s = move_fat [OF assms(1) b m]
    have "ld_word (win fs1) (2 * unat c mod SS) =
        word_of (fat_byte contents fs (2 * unat c)) (fat_byte contents fs (2 * unat c + 1))"
      if "q = FR_OK"
      using s that entry_sector(1,2) [of 1 "unat c"] by (simp only: ld_word_of) (metis Suc_eq_plus1 one_less_numeral_iff semiring_norm(76))
    with c nc 2 assms(3) m s o show ?thesis
      by (auto simp: get_fat_def sector_div fat_of_def fat_entry_def)
  next
    case 3
    have b: "4 * unat c < SS * unat (fsize fs)" using r(4) 3 by simp
    obtain q fs1 where m: "move_window io (fatbase fs + of_nat (4 * unat c div SS)) fs = (q, fs1)"
      by fastforce
    note s = move_fat [OF assms(1) b m]
    have w: "win fs1 ! (4 * unat c mod SS + i) = fat_byte contents fs (4 * unat c + i)"
      if "q = FR_OK" "i < 4" for i
      using s that entry_sector(3,4) [of i "unat c"] by metis
    have "ld_dword (win fs1) (4 * unat c mod SS) =
        dword_of (fat_byte contents fs (4 * unat c)) (fat_byte contents fs (4 * unat c + 1))
          (fat_byte contents fs (4 * unat c + 2)) (fat_byte contents fs (4 * unat c + 3))"
      if "q = FR_OK"
      using w [of 0] w [of 1] w [of 2] w [of 3] that by (simp add: ld_dword_of)
    with c nc 3 assms(3) m s o show ?thesis
      by (auto simp: get_fat_def sector_div fat_of_def fat_entry_def)
  qed
qed

text \<open>What an operation leaves alone: the sectors that are neither shadowed nor in \<open>A\<close>.\<close>

definition keeps_but :: "(u32 \<Rightarrow> bool) \<Rightarrow> 'd fatfs \<Rightarrow> 'd fatfs \<Rightarrow> bool" where
  "keeps_but A fs fs' \<longleftrightarrow>
     (\<forall>k < nsect. \<not> shadow fs k \<longrightarrow> \<not> A k \<longrightarrow> view contents fs' k = view contents fs k)"

lemma keeps_but_trans:
  "keeps_but A a b \<Longrightarrow> keeps_but A b c \<Longrightarrow> geometry b = geometry a \<Longrightarrow> keeps_but A a c"
  by (simp add: keeps_but_def geometry_cong(2) [of b a])

lemma same_view_keeps: "same_view a b \<Longrightarrow> keeps_but A a b"
  by (simp add: same_view_def keeps_but_def)

lemma poke_keeps:
  assumes "good fs" and "winsect fs < nsect" and "length w = 512" and "A (winsect fs)"
  shows "keeps_but A fs (fs\<lparr>win := w, wflag := 1\<rparr>)"
  using poke_spec(2) [OF assms(1-3)] assms(4) by (auto simp: keeps_but_def)

definition at_byte :: "'d fatfs \<Rightarrow> nat \<Rightarrow> bool" where
  \<comment> \<open>the window is on the sector of byte \<open>n\<close> of the table\<close>
  "at_byte fs n \<longleftrightarrow> good fs \<and> n < SS * unat (fsize fs) \<and> winsect fs = fatbase fs + of_nat (n div SS)"

lemma poke_fat:
  assumes "at_byte fs n" and "length w = 512"
  shows "good (fs\<lparr>win := w, wflag := 1\<rparr>)" and "keeps_but (in_fat fs) fs (fs\<lparr>win := w, wflag := 1\<rparr>)"
    and "m < SS * unat (fsize fs) \<Longrightarrow> fat_byte contents (fs\<lparr>win := w, wflag := 1\<rparr>) m =
      (if m div SS = n div SS then w ! (m mod SS) else fat_byte contents fs m)"
    and "m div SS = n div SS \<Longrightarrow> fat_byte contents fs m = win fs ! (m mod SS)"
proof -
  have g: "good fs" "n < SS * unat (fsize fs)" "winsect fs = fatbase fs + of_nat (n div SS)"
    "layout nsect fs"
    using assms(1) by (auto simp: at_byte_def good_def)
  note f = fat_sector [OF g(4,2)]
  have ws: "winsect fs < nsect" "in_fat fs (winsect fs)" using f g(3) by simp_all
  show "good (fs\<lparr>win := w, wflag := 1\<rparr>)" by (rule poke_spec(1) [OF g(1) ws(1) assms(2)])
  show "keeps_but (in_fat fs) fs (fs\<lparr>win := w, wflag := 1\<rparr>)"
    by (rule poke_keeps [where A = "in_fat fs", OF g(1) ws(1) assms(2) ws(2)])
  show "m < SS * unat (fsize fs) \<Longrightarrow> fat_byte contents (fs\<lparr>win := w, wflag := 1\<rparr>) m =
      (if m div SS = n div SS then w ! (m mod SS) else fat_byte contents fs m)"
    by (rule poke_byte [OF g(1,2) _ g(3) assms(2)])
  show "m div SS = n div SS \<Longrightarrow> fat_byte contents fs m = win fs ! (m mod SS)"
    using g(3) by (simp add: fat_byte_def view_def)
qed

lemma poke_one:
  assumes "at_byte fs n" and "m < SS * unat (fsize fs)"
  shows "fat_byte contents (fs\<lparr>win := (win fs)[n mod SS := x], wflag := 1\<rparr>) m =
    (if m = n then x else fat_byte contents fs m)"
proof -
  have len: "length (win fs) = 512" using assms(1) by (simp add: at_byte_def good_def window_ok_def)
  note p = poke_fat(3) [OF assms(1) _ assms(2), where w = "(win fs)[n mod SS := x]"]
    poke_fat(4) [OF assms(1), where m = m, OF len]
  have "m = n \<longleftrightarrow> m div SS = n div SS \<and> m mod SS = n mod SS" by (metis mod_mult_div_eq)
  then show ?thesis using p len by (auto simp: nth_list_update)
qed

lemma move_at_byte:
  assumes "good fs" and "n < SS * unat (fsize fs)"
    and "move_window io (fatbase fs + of_nat (n div SS)) fs = (r, fs1)"
  shows "good fs1 \<and> geometry fs1 = geometry fs \<and> steady fs1 = steady fs \<and> same_view fs fs1 \<and>
    r \<in> {FR_OK, FR_DISK_ERR} \<and>
    (r = FR_OK \<longrightarrow> at_byte fs1 n) \<and>
    (\<forall>m < SS * unat (fsize fs). fat_byte contents fs1 m = fat_byte contents fs m)"
proof -
  note m = move_fat [OF assms]
  have g: "geometry fs1 = geometry fs" "layout nsect fs"
    using m assms(1) by (auto simp: good_def intro: steady_geometry)
  have "fat_byte contents fs1 m = fat_byte contents fs m" if "m < SS * unat (fsize fs)" for m
    using same_view_fat [OF _ g that] m by blast
  moreover have "r = FR_OK \<longrightarrow> at_byte fs1 n"
    using m assms(2) geometry_fields [OF g(1)] by (simp add: at_byte_def)
  ultimately show ?thesis using m g(1) by blast
qed

lemma fat12_half:
  "c' \<noteq> c \<Longrightarrow> fat_entry FS_FAT12 (B(c + c div 2 := fat12_first c v (B (c + c div 2)))) c' =
    fat_entry FS_FAT12 B c'"
proof -
  assume ne: "c' \<noteq> c"
  let ?b = "c + c div 2" and ?b' = "c' + c' div 2"
  from fat12_positions [OF ne [symmetric]]
  consider "odd c" "c = c' + 1" "?b = ?b' + 1" | "?b' \<noteq> ?b" "?b' + 1 \<noteq> ?b"
    by linarith
  then show ?thesis
  proof cases
    case 1
    then have "even c'" by simp
    with 1(1) fat12_prev [OF 1(1)] show ?thesis
      unfolding fat_entry_def Let_def 1(3) by simp
  next
    case 2
    then show ?thesis unfolding fat_entry_def Let_def by simp
  qed
qed

definition puts :: "u32 \<Rightarrow> u32 \<Rightarrow> 'd fatfs \<Rightarrow> fresult \<Rightarrow> 'd fatfs \<Rightarrow> bool" where
  \<comment> \<open>what storing \<open>v\<close> into the entry \<open>c\<close> does\<close>
  "puts c v fs r fs' \<longleftrightarrow> good fs' \<and> steady fs' = steady fs \<and> keeps_but (in_fat fs) fs fs' \<and>
     r \<in> {FR_OK, FR_DISK_ERR} \<and>
     (\<forall>c' < n_fatent fs. c' \<noteq> c \<longrightarrow> fat_of contents fs' c' = fat_of contents fs c') \<and>
     (r = FR_OK \<longrightarrow> fat_of contents fs' c = v AND fat_mask (fs_type fs))"

lemma putsI:
  assumes "fat_ok fs" and "good fs'" and "steady fs' = steady fs" and "keeps_but (in_fat fs) fs fs'"
    and "c < n_fatent fs"
    and "\<And>m. m < SS * unat (fsize fs) \<Longrightarrow>
      fat_byte contents fs' m = fat_set (fs_type fs) (fat_byte contents fs) (unat c) v m"
  shows "puts c v fs FR_OK fs'"
proof -
  have ty: "fs_type fs \<in> {FS_FAT12, FS_FAT16, FS_FAT32}" using assms(1) by (simp add: fat_ok_def)
  have "fat_of contents fs' c' =
      fat_entry (fs_type fs) (fat_set (fs_type fs) (fat_byte contents fs) (unat c) v) (unat c')"
    if "c' < n_fatent fs" for c'
    unfolding fat_of_def geometry_fields [OF steady_geometry [OF assms(3)]]
    using assms(1,6) that
    by (intro fat_entry_cong [OF ty, of _ "unat (n_fatent fs)"]) (auto simp: fat_ok_def word_less_nat_alt)
  then show ?thesis
    using assms(2-5) fat_entry_set [OF ty] by (simp add: puts_def fat_of_def word_unat_eq_iff)
qed

lemma putsE:
  assumes "fat_ok fs" and "good fs'" and "steady fs' = steady fs" and "keeps_but (in_fat fs) fs fs'"
    and "\<And>m. m < SS * unat (fsize fs) \<Longrightarrow> fat_byte contents fs' m = B m"
    and "\<And>c'. c' \<noteq> unat c \<Longrightarrow> fat_entry (fs_type fs) B c' = fat_entry (fs_type fs) (fat_byte contents fs) c'"
  shows "puts c v fs FR_DISK_ERR fs'"
proof -
  have ty: "fs_type fs \<in> {FS_FAT12, FS_FAT16, FS_FAT32}" using assms(1) by (simp add: fat_ok_def)
  have "fat_of contents fs' c' = fat_entry (fs_type fs) B (unat c')" if "c' < n_fatent fs" for c'
    unfolding fat_of_def geometry_fields [OF steady_geometry [OF assms(3)]]
    using assms(1,5) that
    by (intro fat_entry_cong [OF ty, of _ "unat (n_fatent fs)"]) (auto simp: fat_ok_def word_less_nat_alt)
  then show ?thesis
    using assms(2-4,6) by (simp add: puts_def fat_of_def word_unat_eq_iff)
qed

lemma fat32_set_byte:
  assumes "x = fat32_merge v (dword_of (B (4 * c)) (B (4 * c + 1)) (B (4 * c + 2)) (B (4 * c + 3)))"
  shows "fat_set FS_FAT32 B c v k =
    (if k = 4 * c + 0 then ucast x else if k = 4 * c + 1 then ucast (drop_bit 8 x)
     else if k = 4 * c + 2 then ucast (drop_bit 16 x) else if k = 4 * c + 3 then ucast (drop_bit 24 x)
     else B k)"
  unfolding fat_set_def Let_def assms [symmetric] by simp

lemma puts_poke:
  assumes "fat_ok fs" and "c < n_fatent fs" and "steady fs1 = steady fs"
    and "keeps_but (in_fat fs) fs fs1" and "at_byte fs1 n" and "length w = 512"
    and "\<And>k. k < SS * unat (fsize fs) \<Longrightarrow> (if k div SS = n div SS then w ! (k mod SS)
        else fat_byte contents fs1 k) = fat_set (fs_type fs) (fat_byte contents fs) (unat c) v k"
  shows "puts c v fs FR_OK (fs1\<lparr>win := w, wflag := 1\<rparr>)"
proof -
  note p = poke_fat [OF assms(5,6)]
  have geo: "geometry fs1 = geometry fs" by (rule steady_geometry [OF assms(3)])
  have "keeps_but (in_fat fs) fs (fs1\<lparr>win := w, wflag := 1\<rparr>)"
    by (rule keeps_but_trans [OF assms(4) p(2) [unfolded in_fat_cong [OF geo]] geo])
  with p(1) assms(3) show ?thesis
    by (intro putsI [OF assms(1) _ _ _ assms(2)])
      (simp_all add: p(3) geometry_fields [OF geo] assms(7))
qed

lemma put_fat16:
  assumes "good fs" and "fat_ok fs" and "2 \<le> c" and "c < n_fatent fs" and "fs_type fs = FS_FAT16"
    and "put_fat io c v fs = (r, fs')"
  shows "puts c v fs r fs'"
proof -
  let ?n = "2 * unat c"
  note rg = fat_range [OF assms(2,4)]
  note o = fat16_offset [OF rg(1)]
  have b: "?n < SS * unat (fsize fs)" using rg(3) assms(5) by simp
  obtain q fs1 where m: "move_window io (fatbase fs + of_nat (?n div SS)) fs = (q, fs1)" by fastforce
  note s = move_at_byte [OF assms(1) b m]
  show ?thesis
  proof (cases "q = FR_OK")
    case False
    then have "put_fat io c v fs = (FR_DISK_ERR, fs1)"
      using assms(3-5) m s o by (auto simp: put_fat_def sector_div)
    with assms(6) have "r = FR_DISK_ERR" "fs' = fs1" by simp_all
    with s assms(2) show ?thesis
      by (auto intro!: putsE [where B = "fat_byte contents fs"] simp: same_view_keeps)
  next
    case True
    let ?w = "st_word (win fs1) (?n mod SS) (ucast v)"
    have put: "put_fat io c v fs = (FR_OK, fs1\<lparr>win := ?w, wflag := 1\<rparr>)"
      using assms(3-5) m True o by (simp add: put_fat_def sector_div)
    have at: "at_byte fs1 ?n" using s True by blast
    have len: "length (win fs1) = 512" using s by (simp add: good_def window_ok_def)
    note room = entry_room(1) [of "unat c"]
    then have lw: "length ?w = 512" using len by simp
    have byte: "(if k div SS = ?n div SS then ?w ! (k mod SS) else fat_byte contents fs1 k) =
        fat_set (fs_type fs) (fat_byte contents fs) (unat c) v k" if k: "k < SS * unat (fsize fs)" for k
    proof (cases "k div SS = ?n div SS")
      case True
      have e: "k mod SS = ?n mod SS + i \<longleftrightarrow> k = ?n + i" if "i < 2" for i
        using True entry_sector(1,2) [OF that, of "unat c"] by (metis mod_mult_div_eq)
      have x: "ucast (ucast v :: u16) = (ucast v :: byte)"
        "ucast (drop_bit 8 (ucast v :: u16)) = (ucast (drop_bit 8 v) :: byte)"
        by (rule bit_word_eqI, auto simp: bit_simps)+
      have "win fs1 ! (k mod SS) = fat_byte contents fs k"
        using poke_fat(4) [OF at lw True] s k by simp
      moreover have "?w ! (k mod SS) = (if k mod SS = ?n mod SS + 0 then ucast v
          else if k mod SS = ?n mod SS + 1 then ucast (drop_bit 8 v) else win fs1 ! (k mod SS))"
        using nth_st_word [of "?n mod SS" "win fs1" "ucast v" "k mod SS"] room len
        by (simp only: add_0_right x)
      moreover have "fat_set FS_FAT16 (fat_byte contents fs) (unat c) v k =
          (if k = ?n + 0 then ucast v else if k = ?n + 1 then ucast (drop_bit 8 v)
           else fat_byte contents fs k)"
        by (simp add: fat_set_def)
      ultimately show ?thesis
        using e [of 0] e [of 1] True unfolding assms(5) by simp
    next
      case False
      then have "k \<noteq> ?n" "k \<noteq> ?n + 1" using entry_sector(1) [of 1 "unat c"] by auto
      with False s k assms(5) show ?thesis by (simp add: fat_set_def)
    qed
    have "puts c v fs FR_OK (fs1\<lparr>win := ?w, wflag := 1\<rparr>)"
      by (rule puts_poke [OF assms(2,4) _ _ at lw byte]) (use s same_view_keeps in blast)+
    with put assms(6) show ?thesis by simp
  qed
qed

lemma put_fat32:
  assumes "good fs" and "fat_ok fs" and "2 \<le> c" and "c < n_fatent fs" and "fs_type fs = FS_FAT32"
    and "put_fat io c v fs = (r, fs')"
  shows "puts c v fs r fs'"
proof -
  let ?n = "4 * unat c"
  note rg = fat_range [OF assms(2,4)]
  note o = fat16_offset [OF rg(1)]
  have b: "?n + 3 < SS * unat (fsize fs)" using rg(4) assms(5) by simp
  then have b0: "?n < SS * unat (fsize fs)" by simp
  obtain q fs1 where m: "move_window io (fatbase fs + of_nat (?n div SS)) fs = (q, fs1)" by fastforce
  note s = move_at_byte [OF assms(1) b0 m]
  show ?thesis
  proof (cases "q = FR_OK")
    case False
    then have "put_fat io c v fs = (FR_DISK_ERR, fs1)"
      using assms(3-5) m s o by (auto simp: put_fat_def sector_div)
    with assms(6) have "r = FR_DISK_ERR" "fs' = fs1" by simp_all
    with s assms(2) show ?thesis
      by (auto intro!: putsE [where B = "fat_byte contents fs"] simp: same_view_keeps)
  next
    case True
    let ?v = "fat32_merge v (ld_dword (win fs1) (?n mod SS))"
    let ?w = "st_dword (win fs1) (?n mod SS) ?v"
    have put: "put_fat io c v fs = (FR_OK, fs1\<lparr>win := ?w, wflag := 1\<rparr>)"
      using assms(3-5) m True o by (simp add: put_fat_def sector_div Let_def fat32_merge_def)
    have at: "at_byte fs1 ?n" using s True by blast
    have len: "length (win fs1) = 512" using s by (simp add: good_def window_ok_def)
    note room = entry_room(2) [of "unat c"]
    then have lw: "length ?w = 512" using len by simp
    have old: "win fs1 ! (?n mod SS + i) = fat_byte contents fs (?n + i)" if i: "i < 4" for i
    proof -
      have "?n + i < SS * unat (fsize fs)" using b i by simp
      then show ?thesis
        using poke_fat(4) [OF at lw, of "?n + i"] s entry_sector(3,4) [OF i, of "unat c"] by simp
    qed
    have v: "?v = fat32_merge v (dword_of (fat_byte contents fs ?n) (fat_byte contents fs (?n + 1))
        (fat_byte contents fs (?n + 2)) (fat_byte contents fs (?n + 3)))"
      using old [of 0] old [of 1] old [of 2] old [of 3] by (simp add: ld_dword_of)
    have byte: "(if k div SS = ?n div SS then ?w ! (k mod SS) else fat_byte contents fs1 k) =
        fat_set (fs_type fs) (fat_byte contents fs) (unat c) v k" if k: "k < SS * unat (fsize fs)" for k
    proof (cases "k div SS = ?n div SS")
      case True
      have e: "k mod SS = ?n mod SS + i \<longleftrightarrow> k = ?n + i" if "i < 4" for i
        using True entry_sector(3,4) [OF that, of "unat c"] by (metis mod_mult_div_eq)
      have "win fs1 ! (k mod SS) = fat_byte contents fs k"
        using poke_fat(4) [OF at lw True] s k by simp
      moreover have "?w ! (k mod SS) =
          (if k mod SS = ?n mod SS + 0 then ucast ?v
           else if k mod SS = ?n mod SS + 1 then ucast (drop_bit 8 ?v)
           else if k mod SS = ?n mod SS + 2 then ucast (drop_bit 16 ?v)
           else if k mod SS = ?n mod SS + 3 then ucast (drop_bit 24 ?v) else win fs1 ! (k mod SS))"
        using nth_st_dword [of "?n mod SS" "win fs1" ?v "k mod SS"] room len by (simp only: add_0_right)
      ultimately show ?thesis
        using e [of 0] e [of 1] e [of 2] e [of 3] True
        unfolding assms(5) fat32_set_byte [OF v] by (simp only: if_True zero_less_numeral
            one_less_numeral_iff semiring_norm numeral_less_iff simp_thms)
    next
      case False
      then have "k \<noteq> ?n + i" if "i < 4" for i using entry_sector(3) [OF that, of "unat c"] by auto
      from this [of 0] this [of 1] this [of 2] this [of 3] False s k
      show ?thesis unfolding assms(5) fat32_set_byte [OF v] by simp
    qed
    have "puts c v fs FR_OK (fs1\<lparr>win := ?w, wflag := 1\<rparr>)"
      by (rule puts_poke [OF assms(2,4) _ _ at lw byte]) (use s same_view_keeps in blast)+
    with put assms(6) show ?thesis by simp
  qed
qed

lemma put_fat12_eq:
  assumes "2 \<le> c" and "c < n_fatent fs" and "fs_type fs = FS_FAT12"
  shows "put_fat io c v fs =
    (case move_window io (fatbase fs + (c + c div 2) div 512) fs of
       (res, fs1) \<Rightarrow>
         if res \<noteq> FR_OK then (res, fs1)
         else
           (let i = unat (c + c div 2) mod SS;
                fs1 = fs1\<lparr>win := (win fs1)[i := fat12_first (unat c) v (win fs1 ! i)], wflag := 1\<rparr>
            in case move_window io (fatbase fs1 + (c + c div 2 + 1) div 512) fs1 of
                 (res, fs2) \<Rightarrow>
                   if res \<noteq> FR_OK then (res, fs2)
                   else
                     (let i = unat (c + c div 2 + 1) mod SS
                      in (FR_OK, fs2\<lparr>win := (win fs2)[i := fat12_second (unat c) v (win fs2 ! i)],
                                     wflag := 1\<rparr>))))"
  using assms unfolding put_fat_def fat12_first_def fat12_second_def odd_and_one Let_def by simp

lemma put_fat12:
  assumes "good fs" and "fat_ok fs" and "2 \<le> c" and "c < n_fatent fs" and "fs_type fs = FS_FAT12"
    and "put_fat io c v fs = (r, fs')"
  shows "puts c v fs r fs'"
proof -
  let ?b = "unat c + unat c div 2" and ?B = "fat_byte contents fs"
  note rg = fat_range [OF assms(2,4)]
  note o = fat12_offset [OF rg(1)]
  have b: "?b < SS * unat (fsize fs)" "?b + 1 < SS * unat (fsize fs)" using rg(2) assms(5) by auto
  obtain q1 fs1 where m1: "move_window io (fatbase fs + of_nat (?b div SS)) fs = (q1, fs1)" by fastforce
  note s1 = move_at_byte [OF assms(1) b(1) m1]
  show ?thesis
  proof (cases "q1 = FR_OK")
    case False
    then have "put_fat io c v fs = (FR_DISK_ERR, fs1)"
      using assms(3-5) m1 s1 o by (auto simp: put_fat_def sector_div Let_def)
    with assms(6) have "r = FR_DISK_ERR" "fs' = fs1" by simp_all
    with s1 assms(2) show ?thesis
      by (auto intro!: putsE [where B = "fat_byte contents fs"] simp: same_view_keeps)
  next
    case True
    have at1: "at_byte fs1 ?b" using s1 True by blast
    have len1: "length (win fs1) = 512" using s1 by (simp add: good_def window_ok_def)
    have old1: "win fs1 ! (?b mod SS) = ?B ?b"
      using poke_fat(4) [OF at1 len1, of ?b] s1 b by simp
    let ?fs1 = "fs1\<lparr>win := (win fs1)[?b mod SS := fat12_first (unat c) v (?B ?b)], wflag := 1\<rparr>"
    have len: "length ((win fs1)[?b mod SS := fat12_first (unat c) v (?B ?b)]) = 512" using len1 by simp
    have geo1: "geometry ?fs1 = geometry fs" using s1 by simp
    have st1: "steady ?fs1 = steady fs" using s1 by simp
    note p1 = poke_fat [OF at1 len]
    have k1: "keeps_but (in_fat fs) fs ?fs1"
      using keeps_but_trans [OF same_view_keeps p1(2)] s1 in_fat_cong [of fs1 fs] by metis
    have B1: "fat_byte contents ?fs1 m = (?B(?b := fat12_first (unat c) v (?B ?b))) m"
      if "m < SS * unat (fsize fs)" for m
      using poke_one [OF at1, of m] that s1 geometry_fields [of fs1 fs] by (simp add: fun_upd_def)
    have b2: "?b + 1 < SS * unat (fsize ?fs1)" using b(2) geometry_fields [OF geo1] by simp
    obtain q2 fs2 where
      m2: "move_window io (fatbase ?fs1 + of_nat ((?b + 1) div SS)) ?fs1 = (q2, fs2)" by fastforce
    note s2 = move_at_byte [OF p1(1) b2 m2]
    have st2: "steady fs2 = steady fs" using s2 st1 by simp
    have k2: "keeps_but (in_fat fs) fs fs2"
      using keeps_but_trans [OF k1 same_view_keeps] s2 geo1 by blast
    have sz: "fsize ?fs1 = fsize fs" using geometry_fields [OF geo1] by simp
    have B2: "fat_byte contents fs2 m = (?B(?b := fat12_first (unat c) v (?B ?b))) m"
      if "m < SS * unat (fsize fs)" for m
      using s2 B1 [OF that] that unfolding sz by simp
    show ?thesis
    proof (cases "q2 = FR_OK")
      case False
      then have "put_fat io c v fs = (FR_DISK_ERR, fs2)"
        using m1 m2 s2 o True old1
        by (auto simp: put_fat12_eq [OF assms(3-5)] sector_div Let_def)
      with assms(6) have r: "r = FR_DISK_ERR" "fs' = fs2" by simp_all
      have "puts c v fs FR_DISK_ERR fs2"
        by (rule putsE [OF assms(2) _ st2 k2 B2])
          (use s2 fat12_half [of _ "unat c"] assms(5) in \<open>simp_all only:\<close>)
      with r show ?thesis by simp
    next
      case True': True
      have at2: "at_byte fs2 (?b + 1)" using s2 True' by blast
      have len2: "length (win fs2) = 512" using s2 by (simp add: good_def window_ok_def)
      have old2: "win fs2 ! ((?b + 1) mod SS) = ?B (?b + 1)"
        using poke_fat(4) [OF at2 len2, of "?b + 1"] B2 [OF b(2)] by simp
      let ?x = "fat12_second (unat c) v (?B (?b + 1))"
      let ?w2 = "(win fs2)[(?b + 1) mod SS := ?x]"
      have put: "put_fat io c v fs = (FR_OK, fs2\<lparr>win := ?w2, wflag := 1\<rparr>)"
        using m1 m2 o True True' old1 old2
        by (simp add: put_fat12_eq [OF assms(3-5)] sector_div Let_def)
      have byte: "(if k div SS = (?b + 1) div SS then ?w2 ! (k mod SS) else fat_byte contents fs2 k) =
          fat_set (fs_type fs) ?B (unat c) v k" if k: "k < SS * unat (fsize fs)" for k
      proof -
        have "k < SS * unat (fsize fs2)" using k s2 sz geometry_fields [of fs2 ?fs1] by simp
        from poke_one [OF at2 this, of ?x] poke_fat(3) [OF at2 _ this, of ?w2] len2
        have "(if k div SS = (?b + 1) div SS then ?w2 ! (k mod SS) else fat_byte contents fs2 k) =
            (if k = ?b + 1 then ?x else fat_byte contents fs2 k)" by simp
        also have "\<dots> = fat_set FS_FAT12 ?B (unat c) v k"
          using B2 [OF k] by (simp add: fat_set_def Let_def)
        finally show ?thesis using assms(5) by simp
      qed
      have "puts c v fs FR_OK (fs2\<lparr>win := ?w2, wflag := 1\<rparr>)"
        by (rule puts_poke [OF assms(2,4) st2 k2 at2 _ byte]) (use len2 in simp)
      with put assms(6) show ?thesis by simp
    qed
  qed
qed

lemma put_fat_spec:
  assumes "good fs" and "fat_ok fs" and "put_fat io c v fs = (r, fs')"
  shows "if 2 \<le> c \<and> c < n_fatent fs then puts c v fs r fs' else r = FR_INT_ERR \<and> fs' = fs"
proof (cases "2 \<le> c \<and> c < n_fatent fs")
  case False
  with assms(3) show ?thesis by (auto simp: put_fat_def)
next
  case True
  with put_fat12 [OF assms(1,2) _ _ _ assms(3)] put_fat16 [OF assms(1,2) _ _ _ assms(3)]
    put_fat32 [OF assms(1,2) _ _ _ assms(3)] assms(2)
  show ?thesis by (auto simp: fat_ok_def)
qed

lemma puts_fields:
  assumes "puts c v fs r fs'"
  shows "good fs'" "steady fs' = steady fs" "geometry fs' = geometry fs" "keeps_but (in_fat fs) fs fs'"
    "fat_ok fs' = fat_ok fs" "n_fatent fs' = n_fatent fs" "fs_type fs' = fs_type fs"
proof -
  show s: "good fs'" "steady fs' = steady fs" "keeps_but (in_fat fs) fs fs'"
    using assms by (auto simp: puts_def)
  then show g: "geometry fs' = geometry fs" by (blast intro: steady_geometry)
  show "fat_ok fs' = fat_ok fs" by (rule fat_ok_cong [OF g])
  show "n_fatent fs' = n_fatent fs" "fs_type fs' = fs_type fs" by (simp_all add: geometry_fields [OF g])
qed

end

context reliable_disk begin

lemma get_fat_ok:
  assumes "good fs" and "fat_ok fs" and "2 \<le> c" and "c < n_fatent fs"
  shows "\<exists>fs'. get_fat io c fs = (fat_of contents fs c, fs') \<and> good fs' \<and> steady fs' = steady fs \<and>
    same_view fs fs'"
proof -
  obtain v fs' where g: "get_fat io c fs = (v, fs')" by fastforce
  note s = get_fat_spec [OF assms(1,2) g]
  have nc: "\<not> (c < 2 \<or> c \<ge> n_fatent fs)" using assms(3,4) by (simp add: not_le not_less)
  note r = fat_range [OF assms(2,4)]
  note o = fat12_offset [OF r(1)] fat16_offset [OF r(1)]
  have lay: "layout nsect fs" using assms(1) by (simp add: good_def)
  have mv: "fst (move_window io (fatbase fs + of_nat (n div SS)) fs) = FR_OK"
    if "n < SS * unat (fsize fs)" for n
    by (rule move_window_ok [OF assms(1) fat_sector(2) [OF lay that]])
  have small: "x \<noteq> 0xFFFFFFFF" if "x \<le> 0x0FFFFFFF" for x :: u32 using that by auto
  have ty: "fs_type fs \<in> {FS_FAT12, FS_FAT16, FS_FAT32}" using assms(2) by (simp add: fat_ok_def)
  then consider "fs_type fs = FS_FAT12" | "fs_type fs = FS_FAT16" | "fs_type fs = FS_FAT32" by auto
  then have "v \<noteq> 0xFFFFFFFF"
  proof cases
    case 1
    let ?b = "unat c + unat c div 2"
    have b: "?b < SS * unat (fsize fs)" "?b + 1 < SS * unat (fsize fs)" using r(2) 1 by auto
    obtain q1 fs1 where m1: "move_window io (fatbase fs + of_nat (?b div SS)) fs = (q1, fs1)" by fastforce
    note s1 = move_at_byte [OF assms(1) b(1) m1]
    have "fst (move_window io (fatbase fs1 + of_nat ((?b + 1) div SS)) fs1) = FR_OK"
      using s1 geometry_fields [of fs1 fs] b(2)
      by (intro move_window_ok fat_sector(2)) (auto simp: good_def)
    then obtain fs2 where m2: "move_window io (fatbase fs1 + of_nat ((?b + 1) div SS)) fs1 = (FR_OK, fs2)"
      by (metis prod.collapse)
    have q: "q1 = FR_OK" using mv [OF b(1)] m1 by simp
    have "fst (get_fat io c fs) = (let wc = ucast (win fs1 ! (?b mod SS)) OR push_bit 8 (ucast (win fs2 ! ((?b + 1) mod SS)))
        in if odd (unat c) then drop_bit 4 wc else wc AND 0xFFF)"
      using 1 nc m1 m2 q o by (simp add: get_fat_def Let_def sector_div odd_and_one)
    also have "\<dots> = fat_entry FS_FAT12 (\<lambda>i. if i = ?b then win fs1 ! (?b mod SS)
        else win fs2 ! ((?b + 1) mod SS)) (unat c)"
      by (simp add: fat_entry_def Let_def)
    also have "\<dots> \<noteq> 0xFFFFFFFF" by (rule small) (rule fat_entry_small, simp)
    finally show ?thesis using g by simp
  next
    case 2
    then have "2 * unat c < SS * unat (fsize fs)" using r(3) by simp
    from mv [OF this] obtain fs1 where
      "move_window io (fatbase fs + of_nat (2 * unat c div SS)) fs = (FR_OK, fs1)" by (metis prod.collapse)
    then have "fst (get_fat io c fs) = ucast (ld_word (win fs1) (2 * unat c mod SS))"
      using 2 nc o by (simp add: get_fat_def sector_div)
    then have "v = ucast (ld_word (win fs1) (2 * unat c mod SS))" using g by simp
    then show ?thesis
      using fat_entry_small [of FS_FAT16 "\<lambda>i. if i = 0 then win fs1 ! (2 * unat c mod SS)
        else win fs1 ! Suc (2 * unat c mod SS)" 0]
      by (intro small) (simp add: fat_entry_def ld_word_of)
  next
    case 3
    then have "4 * unat c < SS * unat (fsize fs)" using r(4) by simp
    from mv [OF this] obtain fs1 where
      "move_window io (fatbase fs + of_nat (4 * unat c div SS)) fs = (FR_OK, fs1)" by (metis prod.collapse)
    then have "fst (get_fat io c fs) = ld_dword (win fs1) (4 * unat c mod SS) AND 0x0FFFFFFF"
      using 3 nc o by (simp add: get_fat_def sector_div)
    then have "v = ld_dword (win fs1) (4 * unat c mod SS) AND 0x0FFFFFFF" using g by simp
    then show ?thesis by (intro small) (simp add: word_and_le1)
  qed
  with s g assms(3,4) show ?thesis by auto
qed

lemma put_fat_ok:
  assumes "good fs" and "fat_ok fs" and "2 \<le> c" and "c < n_fatent fs"
  shows "\<exists>fs'. put_fat io c v fs = (FR_OK, fs') \<and> puts c v fs FR_OK fs'"
proof -
  obtain q fs' where p: "put_fat io c v fs = (q, fs')" by fastforce
  note s = put_fat_spec [OF assms(1,2) p]
  note r = fat_range [OF assms(2,4)]
  note o = fat12_offset [OF r(1)] fat16_offset [OF r(1)]
  have lay: "layout nsect fs" using assms(1) by (simp add: good_def)
  have mv: "\<exists>fs1. move_window io (fatbase fs + of_nat (n div SS)) fs = (FR_OK, fs1)"
    if "n < SS * unat (fsize fs)" for n
    using move_window_ok [OF assms(1) fat_sector(2) [OF lay that]] by (metis prod.collapse)
  from assms(2) consider "fs_type fs = FS_FAT12" | "fs_type fs = FS_FAT16" | "fs_type fs = FS_FAT32"
    by (auto simp: fat_ok_def)
  then have "q = FR_OK"
  proof cases
    case 1
    let ?b = "unat c + unat c div 2"
    have b: "?b < SS * unat (fsize fs)" "?b + 1 < SS * unat (fsize fs)" using r(2) 1 by auto
    obtain fs1 where m1: "move_window io (fatbase fs + of_nat (?b div SS)) fs = (FR_OK, fs1)"
      using mv [OF b(1)] by blast
    note s1 = move_at_byte [OF assms(1) b(1) m1]
    have at1: "at_byte fs1 ?b" and len1: "length (win fs1) = 512"
      using s1 by (auto simp: good_def window_ok_def)
    let ?fs1 = "fs1\<lparr>win := (win fs1)[?b mod SS := fat12_first (unat c) v (win fs1 ! (?b mod SS))], wflag := 1\<rparr>"
    have "good ?fs1" by (rule poke_fat(1) [OF at1]) (simp add: len1)
    moreover have geo: "geometry ?fs1 = geometry fs" using s1 by simp
    ultimately have "fst (move_window io (fatbase ?fs1 + of_nat ((?b + 1) div SS)) ?fs1) = FR_OK"
      using b(2) geometry_fields [OF geo] by (intro move_window_ok fat_sector(2)) (simp_all add: good_def)
    then obtain fs2 where "move_window io (fatbase ?fs1 + of_nat ((?b + 1) div SS)) ?fs1 = (FR_OK, fs2)"
      by (metis prod.collapse)
    with p m1 o show ?thesis
      by (simp add: put_fat12_eq [OF assms(3,4) 1] sector_div Let_def)
  next
    case 2
    then have "2 * unat c < SS * unat (fsize fs)" using r(3) by simp
    from mv [OF this] p assms(3,4) 2 o show ?thesis by (auto simp: put_fat_def sector_div)
  next
    case 3
    then have "4 * unat c < SS * unat (fsize fs)" using r(4) by simp
    from mv [OF this] p assms(3,4) 3 o show ?thesis by (auto simp: put_fat_def sector_div Let_def)
  qed
  with s p assms(3,4) show ?thesis by auto
qed

end

fun put_all :: "'d disk_io \<Rightarrow> (u32 \<times> u32) list \<Rightarrow> 'd fatfs \<Rightarrow> bool \<times> 'd fatfs" where
  "put_all io [] fs = (True, fs)"
| "put_all io ((c, v) # ps) fs =
     (case put_fat io c v fs of
        (r, fs1) \<Rightarrow> (case put_all io ps fs1 of (t, fs2) \<Rightarrow> (r = FR_OK \<and> t, fs2)))"

context reliable_disk begin

lemma put_all_ok:
  "good fs \<Longrightarrow> fat_ok fs \<Longrightarrow> \<forall>(c, v) \<in> set ps. 2 \<le> c \<and> c < n_fatent fs \<Longrightarrow>
   \<exists>fs'. put_all io ps fs = (True, fs') \<and> good fs' \<and> steady fs' = steady fs \<and>
     keeps_but (in_fat fs) fs fs' \<and>
     (\<forall>j < n_fatent fs. fat_of contents fs' j =
        (case map_of (rev ps) j of Some v \<Rightarrow> v AND fat_mask (fs_type fs) | None \<Rightarrow> fat_of contents fs j))"
proof (induction ps arbitrary: fs)
  case Nil
  then show ?case by (simp add: keeps_but_def)
next
  case (Cons p ps)
  obtain c v where p: "p = (c, v)" by (cases p)
  obtain fs1 where f1: "put_fat io c v fs = (FR_OK, fs1)" "puts c v fs FR_OK fs1"
    using put_fat_ok [OF Cons.prems(1,2), of c v] Cons.prems(3) p by auto
  note pf = puts_fields [OF f1(2)]
  obtain fs' where f2: "put_all io ps fs1 = (True, fs')" "good fs'" "steady fs' = steady fs1"
      "keeps_but (in_fat fs1) fs1 fs'"
      "\<forall>j < n_fatent fs1. fat_of contents fs' j =
        (case map_of (rev ps) j of Some v \<Rightarrow> v AND fat_mask (fs_type fs1) | None \<Rightarrow> fat_of contents fs1 j)"
    using Cons.IH [OF pf(1)] Cons.prems(2,3) pf(5,6) by auto
  have "keeps_but (in_fat fs) fs fs'"
    by (rule keeps_but_trans [OF pf(4) f2(4) [unfolded in_fat_cong [OF pf(3)]] pf(3)])
  moreover have "fat_of contents fs' j = (case map_of (rev (p # ps)) j of
      Some v \<Rightarrow> v AND fat_mask (fs_type fs) | None \<Rightarrow> fat_of contents fs j)" if "j < n_fatent fs" for j
    using f2(5) f1(2) that p pf(6,7) by (auto simp: puts_def map_add_def split: option.splits)
  ultimately show ?case using p f1(1) f2(1-3) pf(2) by auto
qed

end

section \<open>Property\<close>

text \<open>C12: on a conforming SD card, the allocation table behaves as an array of entries in each of the
  formats FAT12, FAT16 and FAT32: after any sequence of stores every entry reads back the last value
  stored to it, cut to the width of the format, or what it held before; in particular two FAT12
  entries that share a byte do not disturb each other. No sector outside the table and its copy
  changes.\<close>

theorem fat_put_then_get:
  assumes "sd_card api mem busy waits busy_max" and "nsect_ok ty nsect" and "layout nsect fs"
    and "window_ok (disk_ok busy busy_max ty) (disk_contents mem) nsect fs" and "fat_ok fs"
    and "\<forall>(c, v) \<in> set ps. 2 \<le> c \<and> c < n_fatent fs" and "2 \<le> j" and "j < n_fatent fs"
  shows "\<exists>fs1 fs2. put_all (sd_io api) ps fs = (True, fs1) \<and>
    get_fat (sd_io api) j fs1 =
      (case map_of (rev ps) j of
         Some v \<Rightarrow> v AND fat_mask (fs_type fs) | None \<Rightarrow> fat_of (disk_contents mem) fs j, fs2) \<and>
    (\<forall>k < nsect. \<not> shadow fs k \<longrightarrow> \<not> in_fat fs k \<longrightarrow>
       view (disk_contents mem) fs2 k = view (disk_contents mem) fs k)"
proof -
  note dev = sd_card.reliable_device [OF assms(1,2)]
  note fdev = reliable_disk.axioms(1) [OF dev]
  have good: "fat_disk.good (disk_ok busy busy_max ty) (disk_contents mem) nsect fs"
    using assms(3,4) by (simp add: fat_disk.good_def [OF fdev])
  obtain fs1 where f1: "put_all (sd_io api) ps fs = (True, fs1)"
      "fat_disk.good (disk_ok busy busy_max ty) (disk_contents mem) nsect fs1" "steady fs1 = steady fs"
      "fat_disk.keeps_but (disk_contents mem) nsect (in_fat fs) fs fs1"
      "\<forall>j < n_fatent fs. fat_of (disk_contents mem) fs1 j = (case map_of (rev ps) j of
         Some v \<Rightarrow> v AND fat_mask (fs_type fs) | None \<Rightarrow> fat_of (disk_contents mem) fs j)"
    using reliable_disk.put_all_ok [OF dev good assms(5,6)] by blast
  have geo: "geometry fs1 = geometry fs" by (rule steady_geometry [OF f1(3)])
  have "fat_ok fs1" "j < n_fatent fs1"
    using assms(5,8) fat_ok_cong [OF geo] geometry_fields [OF geo] by simp_all
  from reliable_disk.get_fat_ok [OF dev f1(2) this(1) assms(7) this(2)] obtain fs2 where
    f2: "get_fat (sd_io api) j fs1 = (fat_of (disk_contents mem) fs1 j, fs2)"
      "fat_disk.same_view (disk_contents mem) nsect fs1 fs2" by blast
  have "\<forall>k < nsect. \<not> shadow fs k \<longrightarrow> \<not> in_fat fs k \<longrightarrow>
       view (disk_contents mem) fs2 k = view (disk_contents mem) fs k"
    using f1(4) f2(2) geometry_cong(2) [OF geo]
    by (simp add: fat_disk.keeps_but_def [OF fdev] fat_disk.same_view_def [OF fdev])
  with f1(1,5) f2(1) assms(8) show ?thesis by auto
qed

definition sample_volume :: "byte \<Rightarrow> sim_card disk fatfs" where
  \<comment> \<open>a small volume on the simulated card, for examples\<close>
  "sample_volume ty =
    \<lparr>fs_type = ty, pdrv = 0, ldrv = 0, n_fats = 2, wflag = 0, fsi_flag = 0x80, fs_id = 1,
     n_rootdir = 16, csize = 1, last_clst = 0xFFFFFFFF, free_clst = 0xFFFFFFFF, cdir = 0,
     n_fatent = 100, fsize = 1, volbase = 0, fatbase = 2, dirbase = 4, database = 5,
     winsect = 0xFFFFFFFF, win = replicate 512 0,
     medium = \<lparr>dk_card = \<lparr>sim_out = [], sim_phase = Sim_idle, sim_mem = (\<lambda>a. replicate 512 0)\<rparr>,
               dk_Stat = 0, dk_CardType = 0x18, dk_spi = Spi_fast\<rparr>\<rparr>"

lemma sample_volume_ok:
  "layout 1000 (sample_volume ty)"
  "window_ok (disk_ok sim_busy 2 0x18) (disk_contents sim_mem) 1000 (sample_volume ty)"
  "ty \<in> {FS_FAT12, FS_FAT16, FS_FAT32} \<Longrightarrow> fat_ok (sample_volume ty)"
  by (auto simp: sample_volume_def layout_def fat_end_def window_ok_def disk_ok_def sim_busy_def fat_ok_def
      table_bytes_def fat_limit_def)

theorem fat_put_then_get_witness:
  "\<exists>fs1 fs2. put_all (sd_io sim_api) [(2, 0x123), (3, 0xFFFFFFFF)] (sample_volume FS_FAT12) = (True, fs1) \<and>
    get_fat (sd_io sim_api) 2 fs1 = (0x123, fs2)"
proof -
  let ?v = "sample_volume FS_FAT12" and ?ps = "[(2, 0x123), (3, 0xFFFFFFFF)] :: (u32 \<times> u32) list"
  have ok: "nsect_ok 0x18 1000" "fat_ok ?v" "\<forall>(c, v) \<in> set ?ps. 2 \<le> c \<and> c < n_fatent ?v"
    "(2 :: u32) \<le> 2" "2 < n_fatent ?v" "fs_type ?v = FS_FAT12"
    by (simp_all add: nsect_ok_def sample_volume_ok(3)) (simp_all add: sample_volume_def)
  from fat_put_then_get [OF sim.sd_card_axioms ok(1) sample_volume_ok(1,2) ok(2-5)]
  obtain fs1 fs2 where r: "put_all (sd_io sim_api) ?ps ?v = (True, fs1)"
    "get_fat (sd_io sim_api) 2 fs1 = (case map_of (rev ?ps) 2 of
       Some v \<Rightarrow> v AND fat_mask (fs_type ?v) | None \<Rightarrow> fat_of (disk_contents sim_mem) ?v 2, fs2)" by blast
  have "map_of (rev ?ps) 2 = Some 0x123" by simp
  with r(2) have "get_fat (sd_io sim_api) 2 fs1 = (0x123 AND fat_mask FS_FAT12, fs2)"
    by (simp only: ok(6) option.case)
  with r(1) show ?thesis by (simp add: fat_mask_def)
qed

end
