(* ===== verification/FatChain.thy ===== *)
theory FatChain
  imports FatTable
begin

text \<open>
  Cluster chains (\<^verbatim>\<open>ff.c\<close>: \<open>remove_chain\<close>, \<open>create_chain\<close>). Both contain loops that follow the
  table on the drive, so they are partial functions, \<open>None\<close> being a loop that never ends; the first
  result about each is that it always returns, whatever the table holds and whichever disk operation
  fails. A chain is abstracted to the list of its clusters.
\<close>

section \<open>Removing a chain\<close>

partial_function (option) remove_loop ::
  "'d disk_io \<Rightarrow> u32 \<Rightarrow> 'd fatfs \<Rightarrow> (fresult \<times> 'd fatfs) option" where
  "remove_loop io clst fs =
    (case get_fat io clst fs of
       (nxt, fs1) \<Rightarrow>
         if nxt = 0 then Some (FR_OK, fs1)
         else if nxt = 1 then Some (FR_INT_ERR, fs1)
         else if nxt = 0xFFFFFFFF then Some (FR_DISK_ERR, fs1)
         else
           (case put_fat io clst 0 fs1 of
              (res, fs2) \<Rightarrow>
                if res \<noteq> FR_OK then Some (res, fs2)
                else
                  (let fs3 = (if free_clst fs2 < n_fatent fs2 - 2
                              then fs2\<lparr>free_clst := free_clst fs2 + 1, fsi_flag := fsi_flag fs2 OR 1\<rparr>
                              else fs2)
                   in if nxt < n_fatent fs3 then remove_loop io nxt fs3 else Some (FR_OK, fs3))))"

definition remove_chain ::
  "'d disk_io \<Rightarrow> u32 \<Rightarrow> u32 \<Rightarrow> 'd fatfs \<Rightarrow> (fresult \<times> 'd fatfs) option" where
  "remove_chain io clst pclst fs =
    (if clst < 2 \<or> clst \<ge> n_fatent fs then Some (FR_INT_ERR, fs)
     else
       (case (if pclst \<noteq> 0 then put_fat io pclst 0xFFFFFFFF fs else (FR_OK, fs)) of
          (res, fs1) \<Rightarrow> if res \<noteq> FR_OK then Some (res, fs1) else remove_loop io clst fs1))"

section \<open>Creating and stretching a chain\<close>

partial_function (option) find_free ::
  "'d disk_io \<Rightarrow> u32 \<Rightarrow> u32 \<Rightarrow> 'd fatfs \<Rightarrow> ((u32 + u32) \<times> 'd fatfs) option" where
  \<comment> \<open>the search loop: \<open>Inr\<close> a free cluster, \<open>Inl\<close> the value returned at once\<close>
  "find_free io scl ncl fs =
    (let ncl = ncl + 1;
         wrap = (ncl \<ge> n_fatent fs);
         ncl = (if wrap then 2 else ncl)
     in if wrap \<and> ncl > scl then Some (Inl 0, fs)
        else
          (case get_fat io ncl fs of
             (cs, fs1) \<Rightarrow>
               if cs = 0 then Some (Inr ncl, fs1)
               else if cs = 1 \<or> cs = 0xFFFFFFFF then Some (Inl cs, fs1)
               else if ncl = scl then Some (Inl 0, fs1)
               else find_free io scl ncl fs1))"

definition chain_start :: "'d disk_io \<Rightarrow> u32 \<Rightarrow> 'd fatfs \<Rightarrow> (u32 + u32) \<times> 'd fatfs" where
  \<comment> \<open>where to look for a free cluster (\<open>Inr\<close>), or the value returned at once\<close>
  "chain_start io clst fs =
    (if clst = 0 then
       (let scl = last_clst fs in (Inr (if scl = 0 \<or> scl \<ge> n_fatent fs then 1 else scl), fs))
     else
       (case get_fat io clst fs of
          (cs, fs1) \<Rightarrow>
            (if cs < 2 then Inl 1 else if cs = 0xFFFFFFFF then Inl cs
             else if cs < n_fatent fs1 then Inl cs else Inr clst, fs1)))"

definition next_free :: "'d disk_io \<Rightarrow> u32 \<Rightarrow> u32 \<Rightarrow> 'd fatfs \<Rightarrow> ((u32 + u32) \<times> 'd fatfs) option" where
  \<comment> \<open>a free cluster: the one behind a stretched chain, or the result of the search\<close>
  "next_free io clst scl fs =
    (if scl = clst then
       (let ncl = (if scl + 1 \<ge> n_fatent fs then 2 else scl + 1) in
        case get_fat io ncl fs of
          (cs, fs1) \<Rightarrow>
            if cs = 1 \<or> cs = 0xFFFFFFFF then Some (Inl cs, fs1)
            else if cs \<noteq> 0 then
              (let cs = last_clst fs1;
                   scl = (if cs \<ge> 2 \<and> cs < n_fatent fs1 then cs else scl)
               in find_free io scl scl fs1)
            else Some (Inr ncl, fs1))
     else find_free io scl scl fs)"

definition create_chain :: "'d disk_io \<Rightarrow> u32 \<Rightarrow> 'd fatfs \<Rightarrow> (u32 \<times> 'd fatfs) option" where
  \<comment> \<open>0: no free cluster, 1: internal error, 0xFFFFFFFF: disk error\<close>
  "create_chain io clst fs =
    (case chain_start io clst fs of
       (Inl v, fs1) \<Rightarrow> Some (v, fs1)
     | (Inr scl, fs1) \<Rightarrow>
         if free_clst fs1 = 0 then Some (0, fs1)
         else
           do { (x, fs2) \<leftarrow> next_free io clst scl fs1;
                case x of
                  Inl v \<Rightarrow> Some (v, fs2)
                | Inr ncl \<Rightarrow>
                    (let (res, fs3) = put_fat io ncl 0xFFFFFFFF fs2;
                         (res, fs4) = (if res = FR_OK \<and> clst \<noteq> 0 then put_fat io clst ncl fs3
                                       else (res, fs3))
                     in if res = FR_OK then
                          (let fs5 = fs4\<lparr>last_clst := ncl\<rparr>;
                               fs6 = (if free_clst fs5 \<le> n_fatent fs5 - 2
                                      then fs5\<lparr>free_clst := free_clst fs5 - 1\<rparr> else fs5)
                           in Some (ncl, fs6\<lparr>fsi_flag := fsi_flag fs6 OR 1\<rparr>))
                        else Some (if res = FR_DISK_ERR then 0xFFFFFFFF else 1, fs4)) })"

section \<open>The table as a function\<close>

context fat_disk begin

definition has_fat :: "'d fatfs \<Rightarrow> (u32 \<Rightarrow> u32) \<Rightarrow> bool" where
  "has_fat fs F \<longleftrightarrow> good fs \<and> fat_ok fs \<and> (\<forall>c < n_fatent fs. fat_of contents fs c = F c)"

lemma get_fat_has:
  assumes "has_fat fs F" and "get_fat io c fs = (v, fs')"
  shows "has_fat fs' F \<and> steady fs' = steady fs \<and> geometry fs' = geometry fs \<and> same_view fs fs' \<and>
    (if 2 \<le> c \<and> c < n_fatent fs then v = F c \<or> v = 0xFFFFFFFF else v = 1)"
proof -
  have f: "good fs" "fat_ok fs" "layout nsect fs" "\<forall>c < n_fatent fs. fat_of contents fs c = F c"
    using assms(1) by (auto simp: has_fat_def good_def)
  note s = get_fat_spec [OF f(1,2) assms(2)]
  have geo: "geometry fs' = geometry fs" using s by (blast intro: steady_geometry)
  have "has_fat fs' F"
    using s f same_view_fat_of [OF _ geo f(3,2)] fat_ok_cong [OF geo] geometry_fields [OF geo]
    by (simp add: has_fat_def)
  with s f geo show ?thesis by (auto split: if_splits)
qed

lemma put_fat_has:
  assumes "has_fat fs F" and "put_fat io c v fs = (r, fs')" and "2 \<le> c" and "c < n_fatent fs"
  shows "good fs' \<and> steady fs' = steady fs \<and> geometry fs' = geometry fs \<and>
    keeps_but (in_fat fs) fs fs' \<and> r \<in> {FR_OK, FR_DISK_ERR} \<and>
    (r = FR_OK \<longrightarrow> has_fat fs' (F(c := v AND fat_mask (fs_type fs)))) \<and>
    (r = FR_DISK_ERR \<longrightarrow> has_fat fs' (F(c := fat_of contents fs' c)))"
proof -
  have f: "good fs" "fat_ok fs" "\<forall>c < n_fatent fs. fat_of contents fs c = F c"
    using assms(1) by (auto simp: has_fat_def)
  from put_fat_spec [OF f(1,2) assms(2)] assms(3,4) have p: "puts c v fs r fs'" by simp
  note pf = puts_fields [OF p]
  from p pf f show ?thesis by (auto simp: has_fat_def puts_def)
qed

lemma good_update [simp]:
  "good (fs\<lparr>last_clst := a\<rparr>) = good fs" "good (fs\<lparr>free_clst := a\<rparr>) = good fs"
  "good (fs\<lparr>fsi_flag := b\<rparr>) = good fs" "good (fs\<lparr>cdir := a\<rparr>) = good fs"
  by (simp_all add: good_def window_ok_def layout_def fat_end_def shadow_def)

lemma has_fat_update [simp]:
  "has_fat (fs\<lparr>last_clst := a\<rparr>) F = has_fat fs F" "has_fat (fs\<lparr>free_clst := a\<rparr>) F = has_fat fs F"
  "has_fat (fs\<lparr>fsi_flag := b\<rparr>) F = has_fat fs F"
  by (simp_all add: has_fat_def fat_ok_def fat_of_def fat_byte_def [abs_def])

end

section \<open>Chains\<close>

fun fat_chain :: "(u32 \<Rightarrow> u32) \<Rightarrow> u32 \<Rightarrow> u32 list \<Rightarrow> bool" where
  \<comment> \<open>the clusters from a first one to the one whose entry is not a cluster\<close>
  "fat_chain F n [] \<longleftrightarrow> False"
| "fat_chain F n [x] \<longleftrightarrow> 2 \<le> x \<and> x < n \<and> F x \<ge> n"
| "fat_chain F n (x # y # xs) \<longleftrightarrow> 2 \<le> x \<and> x < n \<and> F x = y \<and> fat_chain F n (y # xs)"

lemma fat_chain_hd: "fat_chain F n (x # xs) \<Longrightarrow> 2 \<le> x \<and> x < n"
  by (cases xs) auto

lemma fat_chain_range: "fat_chain F n xs \<Longrightarrow> x \<in> set xs \<Longrightarrow> 2 \<le> x \<and> x < n"
  by (induction F n xs rule: fat_chain.induct) auto

lemma fat_chain_unique: "fat_chain F n (x # xs) \<Longrightarrow> fat_chain F n (x # ys) \<Longrightarrow> xs = ys"
proof (induction xs arbitrary: x ys)
  case Nil
  then show ?case by (cases ys) (auto dest: fat_chain_hd)
next
  case (Cons a xs)
  then obtain b zs where "ys = b # zs" by (cases ys) (auto dest: fat_chain_hd)
  with Cons show ?case by auto
qed

lemma fat_chain_suffix: "fat_chain F n (us @ x # vs) \<Longrightarrow> fat_chain F n (x # vs)"
proof (induction us)
  case Nil
  then show ?case by simp
next
  case (Cons u us)
  then show ?case by (cases us) auto
qed

lemma fat_chain_distinct: "fat_chain F n xs \<Longrightarrow> distinct xs"
proof (induction F n xs rule: fat_chain.induct)
  case (3 F n x y xs)
  have "x \<notin> set (y # xs)"
  proof
    assume "x \<in> set (y # xs)"
    then obtain us vs where s: "y # xs = us @ x # vs" by (meson split_list)
    from 3(2) have c: "fat_chain F n ((x # us) @ x # vs)" unfolding s by simp
    have "us @ x # vs = vs"
      by (rule fat_chain_unique [OF _ fat_chain_suffix [OF c]]) (use c in simp)
    then have "length (us @ x # vs) = length vs" by (rule arg_cong)
    then show False by simp
  qed
  with 3 show ?case by simp
qed auto

lemma fat_chain_cong:
  "(\<And>x. x \<in> set xs \<Longrightarrow> G x = F x) \<Longrightarrow> fat_chain G n xs = fat_chain F n xs"
  by (induction F n xs rule: fat_chain.induct) auto

section \<open>The loops end\<close>

context fat_disk begin

lemma remove_loop_total:
  "has_fat fs F \<Longrightarrow> 2 \<le> c \<Longrightarrow> c < n_fatent fs \<Longrightarrow>
   \<exists>r fs' F'. remove_loop io c fs = Some (r, fs') \<and> has_fat fs' F' \<and> geometry fs' = geometry fs \<and>
     keeps_but (in_fat fs) fs fs'"
proof (induction "card {x. 2 \<le> x \<and> x < n_fatent fs \<and> F x \<noteq> 0}" arbitrary: c fs F rule: less_induct)
  case less
  obtain nxt fs1 where g: "get_fat io c fs = (nxt, fs1)" by fastforce
  note s1 = get_fat_has [OF less.prems(1) g]
  have k1: "keeps_but (in_fat fs) fs fs1" using s1 same_view_keeps by blast
  show ?case
  proof (cases "nxt = 0 \<or> nxt = 1 \<or> nxt = 0xFFFFFFFF")
    case True
    then show ?thesis using g s1 k1 by (subst remove_loop.simps) auto
  next
    case go: False
    have n1: "n_fatent fs1 = n_fatent fs" using s1 geometry_fields by blast
    obtain r fs2 where p: "put_fat io c 0 fs1 = (r, fs2)" by fastforce
    have c: "c < n_fatent fs1" using less.prems(3) n1 by simp
    note s2 = put_fat_has [OF conjunct1 [OF s1] p less.prems(2) c]
    have geo2: "geometry fs2 = geometry fs" using s1 s2 by simp
    have k2: "keeps_but (in_fat fs) fs fs2"
      using keeps_but_trans [OF k1] s1 s2 in_fat_cong [of fs1 fs] by metis
    show ?thesis
    proof (cases "r = FR_OK")
      case False
      then have "has_fat fs2 (F(c := fat_of contents fs2 c))" using s2 by blast
      then show ?thesis
        using False go g p geo2 k2 by (subst remove_loop.simps) auto
    next
      case True
      let ?fs3 = "if free_clst fs2 < n_fatent fs2 - 2
        then fs2\<lparr>free_clst := free_clst fs2 + 1, fsi_flag := fsi_flag fs2 OR 1\<rparr> else fs2"
      have h3: "has_fat ?fs3 (F(c := 0))" using s2 True by simp
      have geo3: "geometry ?fs3 = geometry fs" using geo2 by simp
      have k3: "keeps_but (in_fat fs) fs ?fs3" using k2 by (simp add: keeps_but_def)
      have n3: "n_fatent ?fs3 = n_fatent fs" using geometry_fields [OF geo3] by simp
      have step: "remove_loop io c fs =
          (if nxt < n_fatent ?fs3 then remove_loop io nxt ?fs3 else Some (FR_OK, ?fs3))"
        using go g p True by (subst remove_loop.simps) (simp add: Let_def)
      show ?thesis
      proof (cases "nxt < n_fatent ?fs3")
        case False
        then show ?thesis using step h3 geo3 k3 by auto
      next
        case nx: True
        have fc: "F c = nxt" using s1 less.prems(2,3) go by auto
        have "{x. 2 \<le> x \<and> x < n_fatent ?fs3 \<and> (F(c := 0)) x \<noteq> 0} \<subset> {x. 2 \<le> x \<and> x < n_fatent fs \<and> F x \<noteq> 0}"
          using less.prems(2,3) n3 fc go by auto
        then have lt: "card {x. 2 \<le> x \<and> x < n_fatent ?fs3 \<and> (F(c := 0)) x \<noteq> 0} <
            card {x. 2 \<le> x \<and> x < n_fatent fs \<and> F x \<noteq> 0}"
          by (rule psubset_card_mono [rotated]) simp
        have "2 \<le> nxt"
        proof (rule ccontr)
          assume "\<not> 2 \<le> nxt"
          then have "unat nxt < 2" by (simp add: word_le_nat_alt)
          then have "unat nxt = 0 \<or> unat nxt = 1" by linarith
          with go show False by (simp add: word_unat_eq_iff)
        qed
        from less.hyps [OF lt h3 this nx] obtain r' fs' F' where
          "remove_loop io nxt ?fs3 = Some (r', fs')" "has_fat fs' F'" "geometry fs' = geometry ?fs3"
          "keeps_but (in_fat ?fs3) ?fs3 fs'" by blast
        moreover have "in_fat ?fs3 = in_fat fs" by (rule in_fat_cong [OF geo3])
        ultimately show ?thesis
          using step nx geo3 keeps_but_trans [OF k3 _ geo3] by auto
      qed
    qed
  qed
qed

definition no_free :: "(u32 \<Rightarrow> u32) \<Rightarrow> u32 \<Rightarrow> bool" where
  "no_free F n \<longleftrightarrow> (\<forall>k. 2 \<le> k \<longrightarrow> k < n \<longrightarrow> F k \<noteq> 0)"

definition search_result :: "(u32 \<Rightarrow> u32) \<Rightarrow> u32 \<Rightarrow> u32 + u32 \<Rightarrow> bool" where
  "search_result F n x \<longleftrightarrow>
     (case x of
        Inr k \<Rightarrow> 2 \<le> k \<and> k < n \<and> F k = 0
      | Inl v \<Rightarrow> (v = 0 \<and> no_free F n) \<or> (v = 1 \<and> (\<exists>k. 2 \<le> k \<and> k < n \<and> F k = 1)) \<or> v = 0xFFFFFFFF)"

text \<open>The clusters looked at when the search is at \<open>ncl\<close>, having started behind \<open>scl\<close>.\<close>

definition seen :: "u32 \<Rightarrow> u32 \<Rightarrow> u32 \<Rightarrow> u32 set" where
  "seen scl ncl n = {x. 2 \<le> x \<and> x < n \<and>
     (if scl \<le> ncl then scl < x \<and> x \<le> ncl else scl < x \<or> x \<le> ncl)}"

lemma find_free_total:
  "has_fat fs F \<Longrightarrow> 1 \<le> scl \<Longrightarrow> 1 \<le> ncl \<Longrightarrow> scl < n_fatent fs \<Longrightarrow> ncl < n_fatent fs \<Longrightarrow>
   (\<And>x. x \<in> seen scl ncl (n_fatent fs) \<Longrightarrow> F x \<noteq> 0) \<Longrightarrow>
   \<exists>x fs'. find_free io scl ncl fs = Some (x, fs') \<and> has_fat fs' F \<and> steady fs' = steady fs \<and>
     same_view fs fs' \<and> search_result F (n_fatent fs) x"
proof (induction "if ncl < scl then unat scl - unat ncl else unat (n_fatent fs) - unat ncl + unat scl"
    arbitrary: ncl fs rule: less_induct)
  case less
  let ?n = "n_fatent fs"
  have lim: "unat ?n \<le> 0x0FFFFFF7"
  proof -
    have "fat_limit (fs_type fs) \<le> 0x0FFFFFF7" by (simp add: fat_limit_def)
    moreover have "?n \<le> fat_limit (fs_type fs)" using less.prems(1) by (simp add: has_fat_def fat_ok_def)
    ultimately have "?n \<le> 0x0FFFFFF7" by (rule order_trans [rotated])
    then show ?thesis by (simp add: word_le_nat_alt)
  qed
  have nat: "1 \<le> unat scl" "1 \<le> unat ncl" "unat scl < unat ?n" "unat ncl < unat ?n"
    using less.prems(2-5) by (simp_all add: word_le_nat_alt word_less_nat_alt)
  have suc: "unat (ncl + 1) = unat ncl + 1" using nat lim by (intro u32_add1) simp
  let ?wrap = "ncl + 1 \<ge> ?n"
  define m where "m = (if ?wrap then 2 else ncl + 1)"
  have wrap: "?wrap \<longleftrightarrow> unat ncl + 1 = unat ?n" using nat suc by (auto simp: word_le_nat_alt)
  show ?case
  proof (cases "?wrap \<and> m > scl")
    case True
    then have "m = 2" by (simp add: m_def)
    with True have w: "?n \<le> ncl + 1" "scl < 2" by simp_all
    then have s1: "unat scl = 1" using nat by (simp add: word_less_nat_alt)
    have "no_free F ?n"
      unfolding no_free_def
    proof (intro allI impI)
      fix k assume "2 \<le> k" "k < ?n"
      then have "k \<in> seen scl ncl ?n"
        using True s1 wrap nat by (auto simp: seen_def word_le_nat_alt word_less_nat_alt)
      then show "F k \<noteq> 0" by (rule less.prems(6))
    qed
    moreover have "find_free io scl ncl fs = Some (Inl 0, fs)"
      using w by (subst find_free.simps) (simp add: Let_def)
    ultimately show ?thesis using less.prems(1) by (simp add: search_result_def)
  next
    case False
    have mr: "2 \<le> m" "m < ?n"
      using nat wrap suc False by (auto simp: m_def word_le_nat_alt word_less_nat_alt)
    obtain cs fs1 where g: "get_fat io m fs = (cs, fs1)" by fastforce
    note s1 = get_fat_has [OF less.prems(1) g]
    have cs: "cs = F m \<or> cs = 0xFFFFFFFF" using s1 mr by simp
    have step: "find_free io scl ncl fs =
        (if cs = 0 then Some (Inr m, fs1) else if cs = 1 \<or> cs = 0xFFFFFFFF then Some (Inl cs, fs1)
         else if m = scl then Some (Inl 0, fs1) else find_free io scl m fs1)"
      using False g by (subst find_free.simps) (simp add: Let_def m_def)
    have n1: "n_fatent fs1 = ?n" using s1 geometry_fields by blast
    show ?thesis
    proof (cases "cs = 0 \<or> cs = 1 \<or> cs = 0xFFFFFFFF")
      case True
      then show ?thesis using step s1 mr cs by (auto simp: search_result_def)
    next
      case go: False
      have Fm: "F m \<noteq> 0" using cs go by auto
      have seen': "F x \<noteq> 0" if "x \<in> seen scl m ?n" for x
      proof (cases "x = m")
        case False
        then have "x \<in> seen scl ncl ?n"
          using that nat suc wrap lim \<open>\<not> (?wrap \<and> m > scl)\<close>
          by (auto simp: seen_def m_def word_le_nat_alt word_less_nat_alt word_unat_eq_iff split: if_splits)
        then show ?thesis by (rule less.prems(6))
      qed (use Fm in simp)
      show ?thesis
      proof (cases "m = scl")
        case True
        have "no_free F ?n"
          unfolding no_free_def
        proof (intro allI impI)
          fix k assume k: "2 \<le> k" "k < ?n"
          show "F k \<noteq> 0"
          proof (cases "k = m")
            case False
            with k True nat suc wrap have "k \<in> seen scl ncl ?n"
              by (auto simp: seen_def m_def word_le_nat_alt word_less_nat_alt word_unat_eq_iff split: if_splits)
            then show ?thesis by (rule less.prems(6))
          qed (use Fm in simp)
        qed
        then show ?thesis using step go s1 True by (auto simp: search_result_def)
      next
        case ne: False
        have "(if m < scl then unat scl - unat m else unat (n_fatent fs1) - unat m + unat scl) <
            (if ncl < scl then unat scl - unat ncl else unat ?n - unat ncl + unat scl)"
          using nat suc wrap lim ne n1 \<open>\<not> (?wrap \<and> m > scl)\<close>
          by (auto simp: m_def word_le_nat_alt word_less_nat_alt word_unat_eq_iff)
        moreover have "1 \<le> m" using mr(1) by (simp add: word_le_nat_alt)
        moreover have "scl < n_fatent fs1" "m < n_fatent fs1" using less.prems(4) mr(2) n1 by simp_all
        moreover have "F y \<noteq> 0" if "y \<in> seen scl m (n_fatent fs1)" for y using seen' that n1 by simp
        ultimately obtain x fs' where
          "find_free io scl m fs1 = Some (x, fs')" "has_fat fs' F" "steady fs' = steady fs1"
          "same_view fs1 fs'" "search_result F (n_fatent fs1) x"
          using less.hyps [OF _ conjunct1 [OF s1] less.prems(2)] by blast
        then show ?thesis
          using step go ne s1 n1 same_view_trans [of fs fs1 fs'] by auto
      qed
    qed
  qed
qed

lemma next_free_total:
  assumes "has_fat fs F" and "1 \<le> scl" and "scl < n_fatent fs" and "scl = clst \<Longrightarrow> 2 \<le> clst"
  shows "\<exists>x fs'. next_free io clst scl fs = Some (x, fs') \<and> has_fat fs' F \<and> steady fs' = steady fs \<and>
    same_view fs fs' \<and> search_result F (n_fatent fs) x"
proof -
  have start: "\<exists>x fs'. find_free io s s fs1 = Some (x, fs') \<and> has_fat fs' F \<and> steady fs' = steady fs1 \<and>
      same_view fs1 fs' \<and> search_result F (n_fatent fs1) x"
    if "has_fat fs1 F" "1 \<le> s" "s < n_fatent fs1" for s fs1
    by (rule find_free_total [OF that(1) that(2) that(2) that(3) that(3)]) (auto simp: seen_def)
  show ?thesis
  proof (cases "scl = clst")
    case False
    with start [OF assms(1-3)] show ?thesis by (simp add: next_free_def)
  next
    case True
    have n: "2 \<le> unat scl" "unat scl < unat (n_fatent fs)"
      using assms(3) assms(4) [OF True] True by (simp_all add: word_le_nat_alt word_less_nat_alt)
    have suc: "unat (scl + 1) = unat scl + 1"
      using n u32_unat_less [of "n_fatent fs"] by (intro u32_add1) simp
    define m where "m = (if scl + 1 \<ge> n_fatent fs then 2 else scl + 1)"
    have m: "2 \<le> m" "m < n_fatent fs"
      using n suc by (auto simp: m_def word_le_nat_alt word_less_nat_alt)
    obtain cs fs1 where g: "get_fat io m fs = (cs, fs1)" by fastforce
    note s1 = get_fat_has [OF assms(1) g]
    have n1: "n_fatent fs1 = n_fatent fs" using s1 geometry_fields by blast
    have cs: "cs = F m \<or> cs = 0xFFFFFFFF" using s1 m by simp
    let ?s = "if last_clst fs1 \<ge> 2 \<and> last_clst fs1 < n_fatent fs1 then last_clst fs1 else scl"
    have nf: "next_free io clst scl fs =
        (if cs = 1 \<or> cs = 0xFFFFFFFF then Some (Inl cs, fs1)
         else if cs \<noteq> 0 then find_free io ?s ?s fs1 else Some (Inr m, fs1))"
      unfolding next_free_def Let_def True [symmetric] m_def [symmetric] g by simp
    show ?thesis
    proof (cases "cs = 0 \<or> cs = 1 \<or> cs = 0xFFFFFFFF")
      case True': True
      then have "next_free io clst scl fs = Some (if cs = 0 then Inr m else Inl cs, fs1)"
        using nf by auto
      with True' s1 cs m show ?thesis by (auto simp: search_result_def)
    next
      case False
      with nf have nf: "next_free io clst scl fs = find_free io ?s ?s fs1" by simp
      have "1 \<le> ?s" "?s < n_fatent fs1"
        using assms(2,3) n1 by (auto simp: word_le_nat_alt)
      from start [OF conjunct1 [OF s1] this] obtain x fs' where
        "find_free io ?s ?s fs1 = Some (x, fs')" "has_fat fs' F" "steady fs' = steady fs1"
        "same_view fs1 fs'" "search_result F (n_fatent fs1) x" by blast
      then show ?thesis using nf s1 n1 same_view_trans [of fs fs1 fs'] by auto
    qed
  qed
qed

lemma eoc_end:
  assumes "fat_ok fs" shows "n_fatent fs \<le> 0xFFFFFFFF AND fat_mask (fs_type fs)"
proof -
  have "fat_limit (fs_type fs) \<le> 0xFFFFFFFF AND fat_mask (fs_type fs)"
    by (simp add: fat_limit_def fat_mask_def)
  then show ?thesis using assms unfolding fat_ok_def by (meson order_trans)
qed

lemma mask_small:
  assumes "fat_ok fs" and "c < n_fatent fs" shows "c AND fat_mask (fs_type fs) = c"
proof -
  have m: "(0xFFF :: u32) = mask 12" "(0xFFFF :: u32) = mask 16" "(0x0FFFFFFF :: u32) = mask 28"
    by (simp_all add: mask_eq_exp_minus_1)
  have "c < fat_limit (fs_type fs)" using assms by (auto simp: fat_ok_def)
  then have "unat c < 2 ^ (if fs_type fs = FS_FAT12 then 12 else if fs_type fs = FS_FAT16 then 16 else 28)"
    by (auto simp: fat_limit_def word_less_nat_alt split: if_splits)
  then show ?thesis
    using u32_and_mask [of c 12] u32_and_mask [of c 16] u32_and_mask [of c 28]
    by (simp add: fat_mask_def m split: if_splits)
qed

text \<open>The result \<open>v\<close> of creating (\<open>clst = 0\<close>) or stretching a chain in the table \<open>F\<close>.\<close>

definition created ::
  "u32 \<Rightarrow> (u32 \<Rightarrow> u32) \<Rightarrow> u32 \<Rightarrow> 'd fatfs \<Rightarrow> 'd fatfs \<Rightarrow> (u32 \<Rightarrow> u32) \<Rightarrow> bool" where
  "created clst F v fs fs' F' \<longleftrightarrow>
     (let n = n_fatent fs; EOC = 0xFFFFFFFF AND fat_mask (fs_type fs) in
      if v = 0 then F' = F \<and> (free_clst fs = 0 \<or> no_free F n)
      else if v = 1 then F' = F \<and> ((clst \<noteq> 0 \<and> (clst < 2 \<or> clst \<ge> n \<or> F clst < 2)) \<or>
                                  (\<exists>k. 2 \<le> k \<and> k < n \<and> F k = 1))
      else if v = 0xFFFFFFFF then True
      else 2 \<le> v \<and> v < n \<and>
        ((clst \<noteq> 0 \<and> F clst = v \<and> F' = F) \<or>
         (F v = 0 \<and> (clst \<noteq> 0 \<longrightarrow> 2 \<le> clst \<and> clst < n \<and> F clst \<ge> n) \<and>
          F' = (if clst = 0 then F(v := EOC) else F(v := EOC, clst := v)) \<and> last_clst fs' = v \<and>
          free_clst fs' = (if free_clst fs \<le> n - 2 then free_clst fs - 1 else free_clst fs))))"

lemma chain_start_spec:
  assumes "has_fat fs F" and "chain_start io clst fs = (x, fs1)"
  shows "has_fat fs1 F \<and> steady fs1 = steady fs \<and> same_view fs fs1 \<and>
    (case x of
       Inl v \<Rightarrow> created clst F v fs fs1 F
     | Inr scl \<Rightarrow> 1 \<le> scl \<and> scl < n_fatent fs \<and> (scl = clst \<longrightarrow> 2 \<le> clst) \<and>
         (clst \<noteq> 0 \<longrightarrow> scl = clst \<and> 2 \<le> clst \<and> F clst \<ge> n_fatent fs))"
proof (cases "clst = 0")
  case True
  let ?s = "if last_clst fs = 0 \<or> last_clst fs \<ge> n_fatent fs then 1 else last_clst fs"
  have x: "x = Inr ?s" "fs1 = fs" using assms(2) True by (auto simp: chain_start_def Let_def)
  have "2 \<le> n_fatent fs" using assms(1) by (simp add: has_fat_def fat_ok_def)
  then have "1 < n_fatent fs" "1 \<le> ?s" by (auto simp: u32_pos intro: order_less_le_trans [of 1 2])
  moreover from this have "?s < n_fatent fs" by auto
  moreover have "?s \<noteq> clst" using True by auto
  ultimately show ?thesis using x assms(1) True by auto
next
  case False
  obtain cs fs2 where g: "get_fat io clst fs = (cs, fs2)" by fastforce
  note s = get_fat_has [OF assms(1) g]
  have n: "n_fatent fs2 = n_fatent fs" using s geometry_fields by blast
  have x: "x = (if cs < 2 then Inl 1 else if cs = 0xFFFFFFFF then Inl cs
      else if cs < n_fatent fs then Inl cs else Inr clst)" "fs1 = fs2"
    using assms(2) False g n by (auto simp: chain_start_def)
  consider "cs < 2" | "cs = 0xFFFFFFFF" | "2 \<le> cs" "cs \<noteq> 0xFFFFFFFF" by fastforce
  then show ?thesis
  proof cases
    case 1
    then have "\<not> (2 \<le> clst \<and> clst < n_fatent fs) \<or> F clst < 2" using s by (auto split: if_splits)
    with x s False 1 show ?thesis by (auto simp: created_def Let_def not_le not_less)
  next
    case 2
    with x s show ?thesis by (simp add: created_def Let_def)
  next
    case 3
    have "cs \<noteq> 1" using 3(1) by (auto simp: word_le_nat_alt)
    have v: "2 \<le> clst \<and> clst < n_fatent fs \<and> F clst = cs"
      using s 3 \<open>cs \<noteq> 1\<close> by (auto split: if_splits)
    have "cs \<noteq> 0" "cs \<noteq> 1" "1 \<le> clst" using 3(1) v by (auto simp: word_le_nat_alt)
    with x s 3 v False show ?thesis by (auto simp: created_def Let_def not_le not_less)
  qed
qed

lemma link_spec:
  assumes "has_fat fs F" and "2 \<le> ncl" and "ncl < n_fatent fs" and "clst \<noteq> 0 \<Longrightarrow> 2 \<le> clst \<and> clst < n_fatent fs"
    and "put_fat io ncl 0xFFFFFFFF fs = (r3, fs3)"
    and "(if r3 = FR_OK \<and> clst \<noteq> 0 then put_fat io clst ncl fs3 else (r3, fs3)) = (r, fs4)"
  shows "steady fs4 = steady fs \<and> keeps_but (in_fat fs) fs fs4 \<and> r \<in> {FR_OK, FR_DISK_ERR} \<and>
    (r = FR_OK \<longrightarrow> has_fat fs4 (if clst = 0 then F(ncl := 0xFFFFFFFF AND fat_mask (fs_type fs))
        else F(ncl := 0xFFFFFFFF AND fat_mask (fs_type fs), clst := ncl))) \<and>
    (r = FR_DISK_ERR \<longrightarrow> (\<exists>G. has_fat fs4 G))"
proof -
  note s3 = put_fat_has [OF assms(1,5,2,3)]
  have geo: "geometry fs3 = geometry fs" using s3 by blast
  note gf = geometry_fields [OF geo]
  show ?thesis
  proof (cases "r3 = FR_OK \<and> clst \<noteq> 0")
    case False
    then have "r = r3" "fs4 = fs3" "r = FR_OK \<longrightarrow> clst = 0" using assms(6) by auto
    with s3 show ?thesis by auto
  next
    case True
    then have h3: "has_fat fs3 (F(ncl := 0xFFFFFFFF AND fat_mask (fs_type fs)))" using s3 by blast
    have p: "put_fat io clst ncl fs3 = (r, fs4)" using assms(6) True by simp
    have c: "2 \<le> clst" "clst < n_fatent fs3" using assms(4) True gf by simp_all
    note s4 = put_fat_has [OF h3 p c]
    have "ncl AND fat_mask (fs_type fs3) = ncl"
      using mask_small [of fs ncl] assms(1,3) gf by (simp add: has_fat_def)
    moreover have "keeps_but (in_fat fs) fs fs4"
      using keeps_but_trans [of "in_fat fs" fs fs3 fs4] s3 s4 in_fat_cong [OF geo] geo by metis
    ultimately show ?thesis using s3 s4 True by auto
  qed
qed

lemma create_chain_total:
  assumes "has_fat fs F"
  shows "\<exists>v fs' F'. create_chain io clst fs = Some (v, fs') \<and> has_fat fs' F' \<and>
    geometry fs' = geometry fs \<and> keeps_but (in_fat fs) fs fs' \<and> created clst F v fs fs' F'"
proof -
  obtain x fs1 where c: "chain_start io clst fs = (x, fs1)" by fastforce
  note s1 = chain_start_spec [OF assms c]
  have geo1: "geometry fs1 = geometry fs" using s1 by (blast intro: steady_geometry)
  have k1: "keeps_but (in_fat fs) fs fs1" using s1 same_view_keeps by blast
  note gf1 = geometry_fields [OF geo1]
  note st1 = steady_fields [OF conjunct1 [OF conjunct2 [OF s1]]]
  show ?thesis
  proof (cases x)
    case (Inl v)
    then have "create_chain io clst fs = Some (v, fs1)" by (simp add: create_chain_def c)
    with s1 geo1 k1 Inl show ?thesis by auto
  next
    case (Inr scl)
    show ?thesis
    proof (cases "free_clst fs1 = 0")
      case True
      then have "create_chain io clst fs = Some (0, fs1)" using Inr by (simp add: create_chain_def c)
      with s1 geo1 k1 True st1 show ?thesis by (auto simp: created_def Let_def)
    next
      case fr: False
      have scl: "1 \<le> scl" "scl < n_fatent fs1" "scl = clst \<Longrightarrow> 2 \<le> clst"
        "clst \<noteq> 0 \<Longrightarrow> scl = clst \<and> 2 \<le> clst \<and> F clst \<ge> n_fatent fs"
        using s1 Inr gf1 by auto
      from next_free_total [OF conjunct1 [OF s1] scl(1-3)] obtain y fs2 where
        y: "next_free io clst scl fs1 = Some (y, fs2)" "has_fat fs2 F" "steady fs2 = steady fs1"
          "same_view fs1 fs2" "search_result F (n_fatent fs1) y" by blast
      have geo2: "geometry fs2 = geometry fs" using y(3) geo1 by (simp add: steady_geometry [of fs2 fs1])
      have k2: "keeps_but (in_fat fs) fs fs2"
        by (rule keeps_but_trans [OF k1 same_view_keeps [OF y(4)] geo1])
      note gf2 = geometry_fields [OF geo2]
      have st2: "free_clst fs2 = free_clst fs" using steady_fields [OF y(3)] st1 by simp
      show ?thesis
      proof (cases y)
        case (Inl v)
        then have "create_chain io clst fs = Some (v, fs2)" using Inr fr y(1) by (simp add: create_chain_def c)
        moreover have "created clst F v fs fs2 F"
          using y(5) Inl gf1 by (auto simp: search_result_def created_def Let_def)
        ultimately show ?thesis using y(2) geo2 k2 by blast
      next
        case (Inr ncl)
        have ncl: "2 \<le> ncl" "ncl < n_fatent fs2" "F ncl = 0" using y(5) Inr gf1 gf2 by (auto simp: search_result_def)
        let ?E = "0xFFFFFFFF AND fat_mask (fs_type fs)"
        let ?G = "if clst = 0 then F(ncl := ?E) else F(ncl := ?E, clst := ncl)"
        obtain r3 fs3 where p3: "put_fat io ncl 0xFFFFFFFF fs2 = (r3, fs3)" by fastforce
        obtain r fs4 where p4: "(if r3 = FR_OK \<and> clst \<noteq> 0 then put_fat io clst ncl fs3 else (r3, fs3)) = (r, fs4)"
          by fastforce
        have cl: "clst \<noteq> 0 \<Longrightarrow> 2 \<le> clst \<and> clst < n_fatent fs2" using scl gf1 gf2 by auto
        note l = link_spec [OF y(2) ncl(1,2) cl p3 p4]
        have geo4: "geometry fs4 = geometry fs" using l geo2 by (metis steady_geometry)
        note gf4 = geometry_fields [OF geo4]
        have k4: "keeps_but (in_fat fs) fs fs4"
          using keeps_but_trans [OF k2 _ geo2] l in_fat_cong [OF geo2] by metis
        have st4: "free_clst fs4 = free_clst fs"
          using steady_fields [OF conjunct1 [OF l]] st2 by simp
        have run: "create_chain io clst fs =
            (if r = FR_OK then
               (let fs5 = fs4\<lparr>last_clst := ncl\<rparr>;
                    fs6 = (if free_clst fs5 \<le> n_fatent fs5 - 2 then fs5\<lparr>free_clst := free_clst fs5 - 1\<rparr> else fs5)
                in Some (ncl, fs6\<lparr>fsi_flag := fsi_flag fs6 OR 1\<rparr>))
             else Some (if r = FR_DISK_ERR then 0xFFFFFFFF else 1, fs4))"
          unfolding create_chain_def c using \<open>x = Inr scl\<close> fr y(1) Inr p3 p4 by simp
        show ?thesis
        proof (cases "r = FR_OK")
          case False
          then have "r = FR_DISK_ERR" using l by blast
          with run l geo4 k4 show ?thesis by (auto simp: created_def Let_def)
        next
          case True
          let ?fs6 = "if free_clst (fs4\<lparr>last_clst := ncl\<rparr>) \<le> n_fatent (fs4\<lparr>last_clst := ncl\<rparr>) - 2
            then fs4\<lparr>last_clst := ncl, free_clst := free_clst (fs4\<lparr>last_clst := ncl\<rparr>) - 1\<rparr>
            else fs4\<lparr>last_clst := ncl\<rparr>"
          let ?fs7 = "?fs6\<lparr>fsi_flag := fsi_flag ?fs6 OR 1\<rparr>"
          have run': "create_chain io clst fs = Some (ncl, ?fs7)" using run True by (simp add: Let_def)
          define G where "G = ?G"
          have "has_fat fs4 G" using l True unfolding gf2 G_def by blast
          then have h: "has_fat ?fs7 G" by simp
          have g7: "geometry ?fs7 = geometry fs" using geo4 by simp
          have k7: "keeps_but (in_fat fs) fs ?fs7" using k4 by (simp add: keeps_but_def)
          have n: "ncl \<noteq> 0" "ncl \<noteq> 1" "ncl \<noteq> 0xFFFFFFFF" "ncl < n_fatent fs"
          proof -
            show "ncl < n_fatent fs" using ncl(2) gf2 by simp
            have "n_fatent fs \<le> fat_limit (fs_type fs)" "fat_limit (fs_type fs) \<le> 0x0FFFFFF7"
              using assms by (auto simp: has_fat_def fat_ok_def fat_limit_def)
            then have "ncl < 0x0FFFFFF7" using \<open>ncl < n_fatent fs\<close> by (meson order_less_le_trans)
            then show "ncl \<noteq> 0xFFFFFFFF" by auto
          qed (use ncl(1) in \<open>auto simp: word_le_nat_alt\<close>)
          have "last_clst ?fs7 = ncl" by simp
          moreover have "free_clst ?fs7 = (if free_clst fs \<le> n_fatent fs - 2 then free_clst fs - 1 else free_clst fs)"
            using st4 gf4 by simp
          moreover have "clst \<noteq> 0 \<longrightarrow> 2 \<le> clst \<and> clst < n_fatent fs \<and> F clst \<ge> n_fatent fs"
            using scl gf1 by auto
          ultimately have "created clst F ncl fs ?fs7 G"
            using n ncl unfolding created_def Let_def G_def by simp
          with run' h g7 k7 show ?thesis by blast
        qed
      qed
    qed
  qed
qed

end

section \<open>What happens to chains\<close>

lemma fat_chain_append:
  "fat_chain G n (cs @ [l]) \<Longrightarrow> (\<And>x. x \<in> set cs \<Longrightarrow> H x = G x) \<Longrightarrow> H l = v \<Longrightarrow> fat_chain H n [v] \<Longrightarrow>
   fat_chain H n (cs @ [l, v])"
proof (induction cs)
  case Nil
  then show ?case by simp
next
  case (Cons c cs)
  then show ?case by (cases cs) auto
qed

lemma fat_chain_prefix:
  "fat_chain F n ((hs @ [p]) @ c # cs) \<Longrightarrow> (\<And>x. x \<in> set hs \<Longrightarrow> G x = F x) \<Longrightarrow> fat_chain G n [p] \<Longrightarrow>
   fat_chain G n (hs @ [p])"
proof (induction hs)
  case Nil
  then show ?case by simp
next
  case (Cons h hs)
  then show ?case by (cases hs) auto
qed

lemma fat_chain_nonzero: "fat_chain F n xs \<Longrightarrow> x \<in> set xs \<Longrightarrow> F x \<noteq> 0"
proof (induction F n xs rule: fat_chain.induct)
  case (2 F n y)
  then show ?case by (auto simp: word_le_nat_alt word_less_nat_alt)
next
  case (3 F n y z xs)
  have "2 \<le> z" using 3(2) fat_chain_hd by auto
  with 3 show ?case by (auto simp: word_le_nat_alt)
qed simp

lemma fat_chain_extend:
  assumes "fat_chain F n (cs @ [l])" and "F v = 0" and "2 \<le> v" and "v < n" and "n \<le> e"
  shows "v \<notin> set (cs @ [l])" and "fat_chain (F(v := e, l := v)) n (cs @ [l, v])"
proof -
  show v: "v \<notin> set (cs @ [l])" using fat_chain_nonzero [OF assms(1), of v] assms(2) by blast
  have d: "distinct (cs @ [l])" by (rule fat_chain_distinct [OF assms(1)])
  show "fat_chain (F(v := e, l := v)) n (cs @ [l, v])"
    by (rule fat_chain_append [OF assms(1)]) (use v d assms(3-5) in auto)
qed

context fat_disk begin

lemma create_chain_stretch:
  assumes "has_fat fs F" and "fat_chain F (n_fatent fs) (cs @ [l])" and "create_chain io l fs = Some (v, fs')"
    and "v \<noteq> 0xFFFFFFFF" and "\<And>k. 2 \<le> k \<Longrightarrow> k < n_fatent fs \<Longrightarrow> F k \<noteq> 1"
  shows "keeps_but (in_fat fs) fs fs' \<and> good fs' \<and> geometry fs' = geometry fs \<and>
    (if v = 0 then has_fat fs' F \<and> (free_clst fs = 0 \<or> no_free F (n_fatent fs))
     else v \<notin> set (cs @ [l]) \<and> F v = 0 \<and>
       (\<exists>F'. has_fat fs' F' \<and> fat_chain F' (n_fatent fs) (cs @ [l, v]) \<and>
          (\<forall>ds. fat_chain F (n_fatent fs) ds \<longrightarrow> l \<notin> set ds \<longrightarrow> fat_chain F' (n_fatent fs) ds)))"
proof -
  obtain F' where c: "has_fat fs' F'" "geometry fs' = geometry fs" "keeps_but (in_fat fs) fs fs'"
      "created l F v fs fs' F'"
    using create_chain_total [OF assms(1), of l] assms(3) by auto
  have l: "2 \<le> l" "l < n_fatent fs" "F l \<ge> n_fatent fs"
    using fat_chain_range [OF assms(2), of l] fat_chain_suffix [of F _ cs l "[]"] assms(2) by auto
  then have l0: "l \<noteq> 0" by auto
  have ok: "fat_ok fs" using assms(1) by (simp add: has_fat_def)
  have good: "good fs'" using c(1) by (simp add: has_fat_def)
  have v1: "v \<noteq> 1" using c(4) assms(5) l l0 by (auto simp: created_def Let_def not_less not_le)
  show ?thesis
  proof (cases "v = 0")
    case True
    with c good show ?thesis by (simp add: created_def Let_def)
  next
    case False
    then have v: "2 \<le> v" "v < n_fatent fs" "F v = 0"
        "F' = F(v := 0xFFFFFFFF AND fat_mask (fs_type fs), l := v)"
      using c(4) v1 assms(4) l l0 by (auto simp: created_def Let_def)
    note x = fat_chain_extend [OF assms(2) v(3,1,2) eoc_end [OF ok]]
    have "fat_chain F' (n_fatent fs) ds" if ds: "fat_chain F (n_fatent fs) ds" "l \<notin> set ds" for ds
    proof -
      have "v \<notin> set ds"
      proof
        assume "v \<in> set ds"
        then obtain us vs where "ds = us @ v # vs" by (meson split_list)
        then have "fat_chain F (n_fatent fs) (v # vs)" using ds(1) fat_chain_suffix by blast
        then show False using v(3) v(2) by (cases vs) (auto dest: fat_chain_hd)
      qed
      then show ?thesis using ds v(4) by (subst fat_chain_cong [of ds F' F]) auto
    qed
    with False c good x v show ?thesis by auto
  qed
qed

end

definition freed_count :: "nat \<Rightarrow> u32 \<Rightarrow> u32 \<Rightarrow> nat" where
  \<comment> \<open>the free cluster count after \<open>k\<close> clusters were freed; unknown stays unknown\<close>
  "freed_count k n free =
     (if unat free \<le> unat n - 2 then min (unat free + k) (unat n - 2) else unat free)"

context reliable_disk begin

lemma get_fat_has_ok:
  assumes "has_fat fs F" and "2 \<le> c" and "c < n_fatent fs"
  shows "\<exists>fs'. get_fat io c fs = (F c, fs')"
proof -
  have "good fs" "fat_ok fs" "fat_of contents fs c = F c" using assms by (auto simp: has_fat_def)
  with get_fat_ok [OF this(1,2) assms(2,3)] show ?thesis by auto
qed

lemma put_fat_has_ok:
  assumes "has_fat fs F" and "2 \<le> c" and "c < n_fatent fs"
  shows "\<exists>fs'. put_fat io c v fs = (FR_OK, fs')"
  using put_fat_ok [of fs c v] assms by (auto simp: has_fat_def)

lemma remove_loop_chain:
  "has_fat fs F \<Longrightarrow> fat_chain F (n_fatent fs) (c # cs) \<Longrightarrow>
   \<exists>fs'. remove_loop io c fs = Some (FR_OK, fs') \<and>
     has_fat fs' (\<lambda>x. if x \<in> set (c # cs) then 0 else F x) \<and> geometry fs' = geometry fs \<and>
     keeps_but (in_fat fs) fs fs' \<and>
     unat (free_clst fs') = freed_count (length (c # cs)) (n_fatent fs) (free_clst fs)"
proof (induction cs arbitrary: c fs F)
  \<comment> \<open>one turn of the loop\<close>
  have turn: "\<exists>fs3. remove_loop io c fs =
        (if F c < n_fatent fs then remove_loop io (F c) fs3 else Some (FR_OK, fs3)) \<and>
      has_fat fs3 (F(c := 0)) \<and> geometry fs3 = geometry fs \<and> keeps_but (in_fat fs) fs fs3 \<and>
      unat (free_clst fs3) = freed_count 1 (n_fatent fs) (free_clst fs)"
    if h: "has_fat fs F" and ch: "fat_chain F (n_fatent fs) (c # cs)" for c cs fs F
  proof -
    have c: "2 \<le> c" "c < n_fatent fs" using fat_chain_hd [OF ch] by auto
    obtain fs1 where g: "get_fat io c fs = (F c, fs1)" using get_fat_has_ok [OF h c] by blast
    note s1 = get_fat_has [OF h g]
    have n1: "n_fatent fs1 = n_fatent fs" using s1 geometry_fields by blast
    obtain fs2 where p: "put_fat io c 0 fs1 = (FR_OK, fs2)"
      using put_fat_has_ok [OF conjunct1 [OF s1] c(1)] c(2) n1 by auto
    have c1: "c < n_fatent fs1" using c(2) n1 by simp
    note s2 = put_fat_has [OF conjunct1 [OF s1] p c(1) c1]
    have geo2: "geometry fs2 = geometry fs" using s1 s2 by simp
    note gf2 = geometry_fields [OF geo2]
    have k1: "keeps_but (in_fat fs) fs fs1" using s1 same_view_keeps by blast
    have k2: "keeps_but (in_fat fs) fs fs2"
      using keeps_but_trans [OF k1] s1 s2 in_fat_cong [of fs1 fs] by metis
    have free: "free_clst fs2 = free_clst fs"
      using steady_fields(2) [of fs2 fs1] steady_fields(2) [of fs1 fs] s1 s2 by simp
    let ?fs3 = "if free_clst fs2 < n_fatent fs2 - 2
        then fs2\<lparr>free_clst := free_clst fs2 + 1, fsi_flag := fsi_flag fs2 OR 1\<rparr> else fs2"
    have h2: "has_fat fs2 (F(c := 0))" using s2 by simp
    then have h3: "has_fat ?fs3 (F(c := 0))" by simp
    have geo3: "geometry ?fs3 = geometry fs" using geo2 by simp
    have k3: "keeps_but (in_fat fs) fs ?fs3" using k2 by (simp add: keeps_but_def)
    have "F c \<noteq> 0" using fat_chain_nonzero [OF ch] by simp
    moreover have "F c \<noteq> 1"
    proof (cases cs)
      case Nil
      with ch c show ?thesis by (auto simp: word_le_nat_alt word_less_nat_alt)
    next
      case (Cons d ds)
      with ch have "2 \<le> F c" using fat_chain_hd by auto
      then show ?thesis by (auto simp: word_le_nat_alt)
    qed
    moreover have "F c \<noteq> 0xFFFFFFFF"
    proof -
      have "F c = fat_of contents fs c" "fs_type fs \<in> {FS_FAT12, FS_FAT16, FS_FAT32}"
        using h c(2) by (auto simp: has_fat_def fat_ok_def)
      then have "F c \<le> 0x0FFFFFFF" using fat_entry_small by (simp add: fat_of_def)
      then show ?thesis by auto
    qed
    ultimately have "remove_loop io c fs =
        (if F c < n_fatent fs then remove_loop io (F c) ?fs3 else Some (FR_OK, ?fs3))"
      using g p gf2 by (subst remove_loop.simps) (simp add: Let_def)
    moreover have "unat (free_clst ?fs3) = freed_count 1 (n_fatent fs) (free_clst fs)"
    proof -
      have "2 \<le> unat (n_fatent fs)" using h by (simp add: has_fat_def fat_ok_def word_le_nat_alt)
      then have n: "unat (n_fatent fs - 2) = unat (n_fatent fs) - 2" by (simp add: unat_sub word_le_nat_alt)
      have "unat (free_clst fs + 1) = unat (free_clst fs) + 1" if "unat (free_clst fs) < unat (n_fatent fs) - 2"
        using that u32_unat_less [of "n_fatent fs"] by (intro u32_add1) simp
      then show ?thesis
        using n free gf2 by (auto simp: freed_count_def word_less_nat_alt)
    qed
    ultimately show ?thesis using h3 geo3 k3 by blast
  qed
  {
    case (Nil c fs F)
    from turn [OF Nil] obtain fs3 where t: "remove_loop io c fs =
          (if F c < n_fatent fs then remove_loop io (F c) fs3 else Some (FR_OK, fs3))"
        "has_fat fs3 (F(c := 0))" "geometry fs3 = geometry fs" "keeps_but (in_fat fs) fs fs3"
        "unat (free_clst fs3) = freed_count 1 (n_fatent fs) (free_clst fs)" by blast
    have "(\<lambda>x. if x \<in> set [c] then 0 else F x) = F(c := 0)" by auto
    moreover have "\<not> F c < n_fatent fs" using Nil(2) by (simp add: not_less)
    ultimately show ?case using t by simp
  next
    case (Cons d ds c fs F)
    from turn [OF Cons.prems] obtain fs3 where t: "remove_loop io c fs =
          (if F c < n_fatent fs then remove_loop io (F c) fs3 else Some (FR_OK, fs3))"
        "has_fat fs3 (F(c := 0))" "geometry fs3 = geometry fs" "keeps_but (in_fat fs) fs fs3"
        "unat (free_clst fs3) = freed_count 1 (n_fatent fs) (free_clst fs)" by blast
    note gf = geometry_fields [OF t(3)]
    have Fc: "F c = d" and dn: "fat_chain F (n_fatent fs) (d # ds)" using Cons.prems(2) by auto
    have "c \<notin> set (d # ds)" using fat_chain_distinct [OF Cons.prems(2)] by simp
    then have "fat_chain (F(c := 0)) (n_fatent fs3) (d # ds)"
      using dn gf by (subst fat_chain_cong [of _ _ F]) auto
    from Cons.IH [OF t(2) this] obtain fs' where f: "remove_loop io d fs3 = Some (FR_OK, fs')"
        "has_fat fs' (\<lambda>x. if x \<in> set (d # ds) then 0 else (F(c := 0)) x)" "geometry fs' = geometry fs3"
        "keeps_but (in_fat fs3) fs3 fs'"
        "unat (free_clst fs') = freed_count (length (d # ds)) (n_fatent fs3) (free_clst fs3)" by blast
    have "d < n_fatent fs" using fat_chain_hd [OF dn] by simp
    then have "remove_loop io c fs = Some (FR_OK, fs')" using t(1) Fc f(1) by simp
    moreover have "(\<lambda>x. if x \<in> set (d # ds) then 0 else (F(c := 0)) x) = (\<lambda>x. if x \<in> set (c # d # ds) then 0 else F x)"
      by auto
    moreover have "keeps_but (in_fat fs) fs fs'"
      by (rule keeps_but_trans [OF t(4) f(4) [unfolded in_fat_cong [OF t(3)]] t(3)])
    moreover have "unat (free_clst fs') = freed_count (length (c # d # ds)) (n_fatent fs) (free_clst fs)"
      using f(5) t(5) gf by (auto simp: freed_count_def min_def)
    ultimately show ?case using f(2,3) t(3) by auto
  }
qed

lemma remove_chain_cut:
  assumes "has_fat fs F" and "fat_chain F (n_fatent fs) (ks @ c # cs)"
  shows "\<exists>fs' F'. remove_chain io c (if ks = [] then 0 else last ks) fs = Some (FR_OK, fs') \<and>
    has_fat fs' F' \<and> geometry fs' = geometry fs \<and> keeps_but (in_fat fs) fs fs' \<and>
    F' = (\<lambda>x. if x \<in> set (c # cs) then 0
              else if ks \<noteq> [] \<and> x = last ks then 0xFFFFFFFF AND fat_mask (fs_type fs) else F x) \<and>
    (ks \<noteq> [] \<longrightarrow> fat_chain F' (n_fatent fs) ks) \<and>
    unat (free_clst fs') = freed_count (length (c # cs)) (n_fatent fs) (free_clst fs)"
proof -
  have cc: "fat_chain F (n_fatent fs) (c # cs)" by (rule fat_chain_suffix [OF assms(2)])
  note c = fat_chain_hd [OF cc]
  have nc: "\<not> (c < 2 \<or> c \<ge> n_fatent fs)" using c by (auto simp: not_less not_le)
  have dist: "distinct (ks @ c # cs)" by (rule fat_chain_distinct [OF assms(2)])
  let ?E = "0xFFFFFFFF AND fat_mask (fs_type fs)"
  show ?thesis
  proof (cases "ks = []")
    case True
    from remove_loop_chain [OF assms(1) cc] obtain fs' where f: "remove_loop io c fs = Some (FR_OK, fs')"
      "has_fat fs' (\<lambda>x. if x \<in> set (c # cs) then 0 else F x)" "geometry fs' = geometry fs"
      "keeps_but (in_fat fs) fs fs'"
      "unat (free_clst fs') = freed_count (length (c # cs)) (n_fatent fs) (free_clst fs)" by blast
    moreover have "remove_chain io c (if ks = [] then 0 else last ks) fs = Some (FR_OK, fs')"
      using True nc f(1) by (simp add: remove_chain_def)
    moreover have e: "(\<lambda>x. if x \<in> set (c # cs) then 0 else if ks \<noteq> [] \<and> x = last ks then ?E else F x) =
        (\<lambda>x. if x \<in> set (c # cs) then 0 else F x)" using True by (intro ext) simp
    ultimately show ?thesis
      using True unfolding e by blast
  next
    case False
    then obtain hs p where ks: "ks = hs @ [p]" by (metis rev_exhaust)
    have p: "2 \<le> p" "p < n_fatent fs" "p \<noteq> 0" using fat_chain_range [OF assms(2), of p] ks by auto
    obtain fs1 where p1: "put_fat io p 0xFFFFFFFF fs = (FR_OK, fs1)"
      using put_fat_has_ok [OF assms(1) p(1,2)] by blast
    note s1 = put_fat_has [OF assms(1) p1 p(1,2)]
    have h1: "has_fat fs1 (F(p := ?E))" using s1 by simp
    have geo: "geometry fs1 = geometry fs" using s1 by simp
    note gf = geometry_fields [OF geo]
    have "p \<notin> set (c # cs)" using dist ks by auto
    then have "fat_chain (F(p := ?E)) (n_fatent fs1) (c # cs)"
      using cc gf by (subst fat_chain_cong [of _ _ F]) auto
    from remove_loop_chain [OF h1 this] obtain fs' where f: "remove_loop io c fs1 = Some (FR_OK, fs')"
      "has_fat fs' (\<lambda>x. if x \<in> set (c # cs) then 0 else (F(p := ?E)) x)" "geometry fs' = geometry fs1"
      "keeps_but (in_fat fs1) fs1 fs'"
      "unat (free_clst fs') = freed_count (length (c # cs)) (n_fatent fs1) (free_clst fs1)" by blast
    let ?F = "\<lambda>x. if x \<in> set (c # cs) then 0 else if ks \<noteq> [] \<and> x = last ks then ?E else F x"
    have F: "(\<lambda>x. if x \<in> set (c # cs) then 0 else (F(p := ?E)) x) = ?F" using ks by auto
    have run: "remove_chain io c (if ks = [] then 0 else last ks) fs = Some (FR_OK, fs')"
      using nc p1 f(1) p(3) ks by (simp add: remove_chain_def)
    have k: "keeps_but (in_fat fs) fs fs'"
      using keeps_but_trans [of "in_fat fs" fs fs1 fs'] s1 f(4) in_fat_cong [OF geo] geo by metis
    have "free_clst fs1 = free_clst fs" using s1 steady_fields(2) [of fs1 fs] by simp
    then have free: "unat (free_clst fs') = freed_count (length (c # cs)) (n_fatent fs) (free_clst fs)"
      using f(5) gf by simp
    have "fat_chain ?F (n_fatent fs) ks"
    proof -
      have "fat_ok fs" using assms(1) by (simp add: has_fat_def)
      then have "n_fatent fs \<le> ?E" by (rule eoc_end)
      then have e: "fat_chain ?F (n_fatent fs) [p]" using p ks dist by simp
      have a: "fat_chain F (n_fatent fs) ((hs @ [p]) @ c # cs)" using assms(2) ks by simp
      have g: "\<And>x. x \<in> set hs \<Longrightarrow> ?F x = F x" using dist ks by auto
      have "fat_chain ?F (n_fatent fs) (hs @ [p])" by (rule fat_chain_prefix [OF a g e])
      then show ?thesis by (simp only: ks)
    qed
    then show ?thesis using run f(2) F f(3) geo k free by auto
  qed
qed

text \<open>A chain grows into the cluster behind its last one when that is free.\<close>

lemma create_chain_next:
  assumes "has_fat fs F" and "2 \<le> l" and "l + 1 < n_fatent fs" and "l < l + 1" and "n_fatent fs \<le> F l"
    and "F (l + 1) = 0" and "free_clst fs \<noteq> 0"
  shows "\<exists>fs'. create_chain io l fs = Some (l + 1, fs')"
proof -
  have l: "l < n_fatent fs" "2 \<le> l + 1" "\<not> n_fatent fs \<le> l + 1" "l \<noteq> 0"
    using assms(2-4) by (auto simp: not_le)
  obtain fs1 where g1: "get_fat io l fs = (F l, fs1)" using get_fat_has_ok [OF assms(1,2) l(1)] by blast
  note s1 = get_fat_has [OF assms(1) g1]
  have gf1: "n_fatent fs1 = n_fatent fs" using s1 geometry_fields(5) by blast
  have free1: "free_clst fs1 \<noteq> 0" using s1 steady_fields(2) [of fs1 fs] assms(7) by simp
  have Fl: "\<not> F l < 2" "F l \<noteq> 0xFFFFFFFF" "\<not> F l < n_fatent fs"
  proof -
    show "\<not> F l < n_fatent fs" using assms(5) by simp
    have "2 \<le> n_fatent fs" using assms(1) by (simp add: has_fat_def fat_ok_def)
    then show "\<not> F l < 2" using assms(5) by (meson not_le order_less_le_trans)
    have "F l = fat_of contents fs l" "fs_type fs \<in> {FS_FAT12, FS_FAT16, FS_FAT32}"
      using assms(1) l(1) by (auto simp: has_fat_def fat_ok_def)
    then have "F l \<le> 0x0FFFFFFF" using fat_entry_small by (simp add: fat_of_def)
    then show "F l \<noteq> 0xFFFFFFFF" by auto
  qed
  have st: "chain_start io l fs = (Inr l, fs1)"
    using l(4) g1 Fl gf1 by (simp add: chain_start_def)
  obtain fs2 where g2: "get_fat io (l + 1) fs1 = (0, fs2)"
    using get_fat_has_ok [OF conjunct1 [OF s1] l(2)] assms(3,6) gf1 by auto
  note s2 = get_fat_has [OF conjunct1 [OF s1] g2]
  have gf2: "n_fatent fs2 = n_fatent fs" using s2 gf1 geometry_fields(5) by metis
  have nf: "next_free io l l fs1 = Some (Inr (l + 1), fs2)"
    using l(3) g2 gf1 by (simp add: next_free_def Let_def)
  obtain fs3 where p3: "put_fat io (l + 1) 0xFFFFFFFF fs2 = (FR_OK, fs3)"
    using put_fat_has_ok [OF conjunct1 [OF s2] l(2)] assms(3) gf2 by auto
  have n2: "l + 1 < n_fatent fs2" using assms(3) gf2 by simp
  note s3 = put_fat_has [OF conjunct1 [OF s2] p3 l(2) n2]
  have h3: "has_fat fs3 (F(l + 1 := 0xFFFFFFFF AND fat_mask (fs_type fs2)))" using s3 by simp
  have gf3: "n_fatent fs3 = n_fatent fs" using s3 gf2 geometry_fields(5) by metis
  obtain fs4 where p4: "put_fat io l (l + 1) fs3 = (FR_OK, fs4)"
    using put_fat_has_ok [OF h3 assms(2)] l(1) gf3 by auto
  show ?thesis
    using st free1 nf p3 p4 l(4) by (simp add: create_chain_def Let_def)
qed

end

section \<open>Properties\<close>

lemma has_fat_refl:
  assumes "fat_disk io ok contents nsect" and "layout nsect fs" and "window_ok ok contents nsect fs"
    and "fat_ok fs"
  shows "fat_disk.has_fat ok contents nsect fs (fat_of contents fs)"
  using assms(2-4) by (simp add: fat_disk.has_fat_def [OF assms(1)] fat_disk.good_def [OF assms(1)])

text \<open>C14: the loops of \<open>remove_chain\<close> and \<open>create_chain\<close> always end and never leave the table in a state
  the other operations could not work on, whatever the table holds (chains that run in a circle
  included) and whichever reads and writes fail on the way.\<close>

theorem chain_loops_end:
  assumes "fat_disk io ok contents nsect" and "layout nsect fs" and "window_ok ok contents nsect fs"
    and "fat_ok fs"
  shows "(\<exists>r fs'. remove_chain io c p fs = Some (r, fs') \<and> layout nsect fs' \<and>
      window_ok ok contents nsect fs' \<and> fat_ok fs') \<and>
    (\<exists>v fs'. create_chain io c fs = Some (v, fs') \<and> layout nsect fs' \<and>
      window_ok ok contents nsect fs' \<and> fat_ok fs')"
proof
  note hf = fat_disk.has_fat_def [OF assms(1)] fat_disk.good_def [OF assms(1)]
  note h = has_fat_refl [OF assms]
  show "\<exists>v fs'. create_chain io c fs = Some (v, fs') \<and> layout nsect fs' \<and>
      window_ok ok contents nsect fs' \<and> fat_ok fs'"
    using fat_disk.create_chain_total [OF assms(1) h, of c] by (auto simp: hf)
  show "\<exists>r fs'. remove_chain io c p fs = Some (r, fs') \<and> layout nsect fs' \<and>
      window_ok ok contents nsect fs' \<and> fat_ok fs'"
  proof (cases "c < 2 \<or> c \<ge> n_fatent fs")
    case True
    with assms show ?thesis by (simp add: remove_chain_def)
  next
    case False
    then have c: "2 \<le> c" "c < n_fatent fs" by auto
    obtain r fs1 where p: "(if p \<noteq> 0 then put_fat io p 0xFFFFFFFF fs else (FR_OK, fs)) = (r, fs1)"
      by fastforce
    have "(r = FR_INT_ERR \<and> fs1 = fs) \<or>
        (\<exists>F. fat_disk.has_fat ok contents nsect fs1 F \<and> geometry fs1 = geometry fs)"
    proof (cases "p = 0")
      case False
      then have pp: "put_fat io p 0xFFFFFFFF fs = (r, fs1)" using p by simp
      show ?thesis
      proof (cases "2 \<le> p \<and> p < n_fatent fs")
        case True
        with fat_disk.put_fat_has [OF assms(1) h pp] show ?thesis by blast
      next
        case False
        with pp show ?thesis by (auto simp: put_fat_def)
      qed
    qed (use p h in auto)
    then show ?thesis
    proof
      assume "r = FR_INT_ERR \<and> fs1 = fs"
      with p False assms show ?thesis by (simp add: remove_chain_def)
    next
      assume "\<exists>F. fat_disk.has_fat ok contents nsect fs1 F \<and> geometry fs1 = geometry fs"
      then obtain F where F: "fat_disk.has_fat ok contents nsect fs1 F" "geometry fs1 = geometry fs" by blast
      have "c < n_fatent fs1" using c(2) geometry_fields [OF F(2)] by simp
      from fat_disk.remove_loop_total [OF assms(1) F(1) c(1) this] False p F(1)
      show ?thesis by (auto simp: remove_chain_def hf)
    qed
  qed
qed

theorem chain_loops_end_witness:
  "\<exists>r fs'. remove_chain (sd_io sim_api) 2 0 (sample_volume FS_FAT32) = Some (r, fs')"
proof -
  have "fat_ok (sample_volume FS_FAT32)" by (rule sample_volume_ok(3)) simp
  from chain_loops_end [OF sim_fat.fat_disk_axioms sample_volume_ok(1,2) this, of 2 0]
  show ?thesis by blast
qed

text \<open>C13: stretching a chain at its last cluster appends exactly one cluster that was free, leaves every
  other chain and every sector outside the table as they were, and answers 0 only when FSInfo claims
  that nothing is free or no entry of the table is; this holds on a drive that may fail, whenever no
  error is answered, and on a volume where no entry has the reserved value 1.\<close>

theorem create_chain_extends:
  assumes "fat_disk io ok contents nsect" and "layout nsect fs" and "window_ok ok contents nsect fs"
    and "fat_ok fs" and "fat_chain (fat_of contents fs) (n_fatent fs) (cs @ [l])"
    and "\<forall>k. 2 \<le> k \<longrightarrow> k < n_fatent fs \<longrightarrow> fat_of contents fs k \<noteq> 1"
    and "create_chain io l fs = Some (v, fs')" and "v \<noteq> 0xFFFFFFFF"
  shows "(\<forall>k < nsect. \<not> shadow fs k \<longrightarrow> \<not> in_fat fs k \<longrightarrow> view contents fs' k = view contents fs k) \<and>
    (if v = 0
     then (\<forall>c < n_fatent fs. fat_of contents fs' c = fat_of contents fs c) \<and>
       (free_clst fs = 0 \<or> (\<forall>k. 2 \<le> k \<longrightarrow> k < n_fatent fs \<longrightarrow> fat_of contents fs k \<noteq> 0))
     else v \<notin> set (cs @ [l]) \<and> fat_of contents fs v = 0 \<and>
       fat_chain (fat_of contents fs') (n_fatent fs) (cs @ [l, v]) \<and>
       (\<forall>ds. fat_chain (fat_of contents fs) (n_fatent fs) ds \<longrightarrow> l \<notin> set ds \<longrightarrow>
          fat_chain (fat_of contents fs') (n_fatent fs) ds))"
proof -
  note hf = fat_disk.has_fat_def [OF assms(1)] fat_disk.keeps_but_def [OF assms(1)]
  note s = fat_disk.create_chain_stretch [OF assms(1) has_fat_refl [OF assms(1-4)] assms(5,7,8)]
  have n: "n_fatent fs' = n_fatent fs" using s assms(6) geometry_fields(5) by blast
  have same: "fat_chain (fat_of contents fs') (n_fatent fs) ds"
    if "fat_disk.has_fat ok contents nsect fs' F'" "fat_chain F' (n_fatent fs) ds" for F' ds
    using that n fat_chain_range [OF that(2)] by (subst fat_chain_cong [of ds _ F']) (auto simp: hf)
  show ?thesis
  proof (cases "v = 0")
    case True
    with s assms(6) n show ?thesis by (simp add: hf fat_disk.no_free_def [OF assms(1)])
  next
    case False
    with s assms(6) obtain F' where F: "fat_disk.has_fat ok contents nsect fs' F'"
        "fat_chain F' (n_fatent fs) (cs @ [l, v])"
        "\<forall>ds. fat_chain (fat_of contents fs) (n_fatent fs) ds \<longrightarrow> l \<notin> set ds \<longrightarrow> fat_chain F' (n_fatent fs) ds"
        "v \<notin> set (cs @ [l])" "fat_of contents fs v = 0" "fat_disk.keeps_but contents nsect (in_fat fs) fs fs'"
      by auto
    with False same [OF F(1)] show ?thesis by (simp add: hf(2))
  qed
qed

text \<open>A FAT32 volume with a file of one cluster, its table being in the window.\<close>

definition sample_file_volume :: "sim_card disk fatfs" where
  "sample_file_volume = (sample_volume FS_FAT32)
     \<lparr>winsect := 2, win := st_dword (replicate 512 0) 20 0x0FFFFFFF, wflag := 1\<rparr>"

lemma sample_file_volume_ok:
  "layout 1000 sample_file_volume"
  "window_ok (disk_ok sim_busy 2 0x18) (disk_contents sim_mem) 1000 sample_file_volume"
  "fat_ok sample_file_volume"
  by (auto simp: sample_file_volume_def sample_volume_def layout_def fat_end_def window_ok_def disk_ok_def
      sim_busy_def fat_ok_def table_bytes_def fat_limit_def)

lemma sample_file_volume_fat:
  assumes "c < 100"
  shows "fat_of (disk_contents sim_mem) sample_file_volume c = (if c = 5 then 0x0FFFFFFF else 0)"
proof -
  have c: "unat c < 100" using assms by (simp add: word_less_nat_alt)
  have b: "fat_byte (disk_contents sim_mem) sample_file_volume n = st_dword (replicate 512 0) 20 0x0FFFFFFF ! n"
    if "n < 512" for n
    using that by (simp add: fat_byte_def view_def sample_file_volume_def sample_volume_def)
  have "fat_of (disk_contents sim_mem) sample_file_volume c =
      ld_dword (st_dword (replicate 512 0) 20 0x0FFFFFFF) (4 * unat c) AND 0x0FFFFFFF"
    using c by (simp add: fat_of_def fat_entry_def b ld_dword_of)
      (simp add: sample_file_volume_def sample_volume_def)
  also have "\<dots> = (if c = 5 then 0x0FFFFFFF else 0)"
  proof (cases "c = 5")
    case True
    then show ?thesis by (simp add: ld_st_dword)
  next
    case False
    then have "unat c \<noteq> 5" by (simp add: word_unat_eq_iff)
    then have "4 * unat c + 4 \<le> 20 \<or> 20 + 4 \<le> 4 * unat c" by arith
    then show ?thesis using False c by (simp add: ld_dword_other) (simp add: ld_dword_of dword_of_def)
  qed
  finally show ?thesis .
qed

theorem create_chain_extends_witness:
  "\<exists>fs'. create_chain (sd_io sim_api) 5 sample_file_volume = Some (6, fs') \<and>
    fat_chain (fat_of (disk_contents sim_mem) fs') 100 [5, 6]"
proof -
  let ?F = "fat_of (disk_contents sim_mem) sample_file_volume"
  have n: "n_fatent sample_file_volume = 100" "free_clst sample_file_volume = 0xFFFFFFFF"
    by (simp_all add: sample_file_volume_def sample_volume_def)
  have F: "?F 5 = 0x0FFFFFFF" "?F 6 = 0" using sample_file_volume_fat by simp_all
  have ch: "fat_chain ?F (n_fatent sample_file_volume) ([] @ [5])" using F n by simp
  have one: "\<forall>k. 2 \<le> k \<longrightarrow> k < n_fatent sample_file_volume \<longrightarrow> ?F k \<noteq> 1"
    using sample_file_volume_fat n by simp
  note ok = sample_file_volume_ok
  have "fat_disk.has_fat (disk_ok sim_busy 2 0x18) (disk_contents sim_mem) 1000 sample_file_volume ?F"
    by (rule has_fat_refl [OF sim_fat.fat_disk_axioms ok])
  from sim_fat.create_chain_next [OF this, of 5] F n obtain fs' where
    c: "create_chain (sd_io sim_api) 5 sample_file_volume = Some (6, fs')" by auto
  from create_chain_extends [OF sim_fat.fat_disk_axioms ok ch one c] n
  have "fat_chain (fat_of (disk_contents sim_mem) fs') 100 ([] @ [5, 6])" by simp
  with c show ?thesis by simp
qed

text \<open>C15: on a conforming SD card, removing the tail of a chain frees exactly the clusters of that tail:
  their entries become 0, the rest of the chain ends at its last cluster, every other entry and every
  sector outside the table stay as they were, and the free cluster count, when it is known, grows by
  the number of clusters up to its limit.\<close>

theorem remove_chain_frees:
  assumes "sd_card api mem busy waits busy_max" and "nsect_ok ty nsect" and "layout nsect fs"
    and "window_ok (disk_ok busy busy_max ty) (disk_contents mem) nsect fs" and "fat_ok fs"
    and "fat_chain (fat_of (disk_contents mem) fs) (n_fatent fs) (ks @ c # cs)"
  shows "\<exists>fs'. remove_chain (sd_io api) c (if ks = [] then 0 else last ks) fs = Some (FR_OK, fs') \<and>
    (\<forall>x < n_fatent fs. fat_of (disk_contents mem) fs' x =
       (if x \<in> set (c # cs) then 0
        else if ks \<noteq> [] \<and> x = last ks then 0xFFFFFFFF AND fat_mask (fs_type fs)
        else fat_of (disk_contents mem) fs x)) \<and>
    (ks \<noteq> [] \<longrightarrow> fat_chain (fat_of (disk_contents mem) fs') (n_fatent fs) ks) \<and>
    unat (free_clst fs') = freed_count (length (c # cs)) (n_fatent fs) (free_clst fs) \<and>
    (\<forall>k < nsect. \<not> shadow fs k \<longrightarrow> \<not> in_fat fs k \<longrightarrow>
       view (disk_contents mem) fs' k = view (disk_contents mem) fs k)"
proof -
  note dev = sd_card.reliable_device [OF assms(1,2)]
  note fdev = reliable_disk.axioms(1) [OF dev]
  note hf = fat_disk.has_fat_def [OF fdev] fat_disk.keeps_but_def [OF fdev]
  note h = has_fat_refl [OF fdev assms(3-5)]
  from reliable_disk.remove_chain_cut [OF dev h assms(6)] obtain fs' F' where f:
    "remove_chain (sd_io api) c (if ks = [] then 0 else last ks) fs = Some (FR_OK, fs')"
    "fat_disk.has_fat (disk_ok busy busy_max ty) (disk_contents mem) nsect fs' F'"
    "geometry fs' = geometry fs" "fat_disk.keeps_but (disk_contents mem) nsect (in_fat fs) fs fs'"
    "F' = (\<lambda>x. if x \<in> set (c # cs) then 0
            else if ks \<noteq> [] \<and> x = last ks then 0xFFFFFFFF AND fat_mask (fs_type fs)
            else fat_of (disk_contents mem) fs x)"
    "ks \<noteq> [] \<longrightarrow> fat_chain F' (n_fatent fs) ks"
    "unat (free_clst fs') = freed_count (length (c # cs)) (n_fatent fs) (free_clst fs)" by blast
  have n: "n_fatent fs' = n_fatent fs" by (rule geometry_fields(5) [OF f(3)])
  have fat: "\<forall>x < n_fatent fs. fat_of (disk_contents mem) fs' x = F' x" using f(2) n by (simp add: hf)
  have "ks \<noteq> [] \<longrightarrow> fat_chain (fat_of (disk_contents mem) fs') (n_fatent fs) ks"
    using f(6) fat fat_chain_range fat_chain_cong [of ks "fat_of (disk_contents mem) fs'" F'] by metis
  with f(1,4,7) fat show ?thesis unfolding f(5) hf(2) by blast
qed

theorem remove_chain_frees_witness:
  "\<exists>fs'. remove_chain (sd_io sim_api) 5 0 sample_file_volume = Some (FR_OK, fs') \<and>
    fat_of (disk_contents sim_mem) fs' 5 = 0"
proof -
  let ?F = "fat_of (disk_contents sim_mem) sample_file_volume"
  have n: "n_fatent sample_file_volume = 100" by (simp add: sample_file_volume_def sample_volume_def)
  have ch: "fat_chain ?F (n_fatent sample_file_volume) ([] @ [5])"
    using sample_file_volume_fat [of 5] n by simp
  have ns: "nsect_ok 0x18 1000" by (simp add: nsect_ok_def)
  from remove_chain_frees [OF sim.sd_card_axioms ns sample_file_volume_ok ch] n show ?thesis by fastforce
qed

end
