(* ===== verification/FatDir.thy ===== *)
theory FatDir
  imports FatChain
begin

text \<open>
  Directories (\<^verbatim>\<open>ff.c\<close>: \<open>dir_clear\<close>, \<open>dir_sdi\<close>, \<open>dir_next\<close>, \<open>dir_alloc\<close>, \<open>ld_clust\<close>, \<open>st_clust\<close>,
  \<open>dir_read\<close>, \<open>dir_find\<close>, \<open>dir_register\<close>, \<open>dir_remove\<close>, \<open>get_fileinfo\<close>), in the configuration with
  short names. A directory object is the record \<open>ffdir\<close>; its pointer \<open>dir\<close> into the window is the
  offset \<open>ddir\<close>. The functions return the object and the volume they leave behind; \<open>None\<close> is a loop
  that does not end. The field \<open>fs\<close> of \<open>FFOBJID\<close> is \<open>True\<close> when it points to the volume, and the
  functions that only follow it are given the volume.
\<close>

section \<open>Objects\<close>

record ffobj =
  obj_fs :: bool
  obj_id :: u16
  obj_attr :: byte
  obj_stat :: byte
  sclust :: u32
  objsize :: u32
  lockid :: u32

record ffdir =
  dobj :: ffobj
  dptr :: u32
  dclust :: u32
  dsect :: u32     \<comment> \<open>0: the read operation has terminated\<close>
  ddir :: nat
  fn :: "byte list"
  dpat :: "byte list"

abbreviation MAX_DIR :: u32 where "MAX_DIR \<equiv> 0x200000"
abbreviation SZDIRE :: u32 where "SZDIRE \<equiv> 32"
abbreviation DDEM :: byte where "DDEM \<equiv> 0xE5"
abbreviation RDDEM :: byte where "RDDEM \<equiv> 0x05"
abbreviation DIR_Name :: nat where "DIR_Name \<equiv> 0"
abbreviation DIR_Attr :: nat where "DIR_Attr \<equiv> 11"
abbreviation DIR_CrtTime :: nat where "DIR_CrtTime \<equiv> 14"
abbreviation DIR_LstAccDate :: nat where "DIR_LstAccDate \<equiv> 18"
abbreviation DIR_FstClusHI :: nat where "DIR_FstClusHI \<equiv> 20"
abbreviation DIR_ModTime :: nat where "DIR_ModTime \<equiv> 22"
abbreviation DIR_FstClusLO :: nat where "DIR_FstClusLO \<equiv> 26"
abbreviation DIR_FileSize :: nat where "DIR_FileSize \<equiv> 28"
abbreviation NSFLAG :: nat where "NSFLAG \<equiv> 11"
abbreviation AM_RDO :: byte where "AM_RDO \<equiv> 0x01"
abbreviation AM_VOL :: byte where "AM_VOL \<equiv> 0x08"
abbreviation AM_DIR :: byte where "AM_DIR \<equiv> 0x10"
abbreviation AM_ARC :: byte where "AM_ARC \<equiv> 0x20"
abbreviation AM_LFN :: byte where "AM_LFN \<equiv> 0x0F"
abbreviation AM_MASK :: byte where "AM_MASK \<equiv> 0x3F"

section \<open>Moving in a directory\<close>

fun clear_loop :: "'d disk_io \<Rightarrow> u32 \<Rightarrow> nat \<Rightarrow> nat \<Rightarrow> 'd fatfs \<Rightarrow> nat \<times> 'd fatfs" where
  \<comment> \<open>write the window to the sectors from \<open>sect + n\<close> on; the final \<open>n\<close>\<close>
  "clear_loop io sect n 0 fs = (n, fs)"
| "clear_loop io sect n (Suc k) fs =
     (case io_write io (pdrv fs) (win fs) (sect + of_nat n) 1 (medium fs) of
        (r, d) \<Rightarrow>
          if r = RES_OK then clear_loop io sect (n + 1) k (fs\<lparr>medium := d\<rparr>)
          else (n, fs\<lparr>medium := d\<rparr>))"

definition dir_clear :: "'d disk_io \<Rightarrow> u32 \<Rightarrow> 'd fatfs \<Rightarrow> fresult \<times> 'd fatfs" where
  "dir_clear io clst fs =
    (case sync_window io fs of
       (res, fs1) \<Rightarrow>
         if res \<noteq> FR_OK then (FR_DISK_ERR, fs1)
         else
           (let sect = clst2sect clst fs1;
                fs2 = fs1\<lparr>winsect := sect, win := replicate SS 0\<rparr>
            in case clear_loop io sect 0 (unat (csize fs2)) fs2 of
                 (n, fs3) \<Rightarrow> (if n = unat (csize fs3) then FR_OK else FR_DISK_ERR, fs3)))"

partial_function (option) sdi_follow ::
  "'d disk_io \<Rightarrow> u32 \<Rightarrow> u32 \<Rightarrow> u32 \<Rightarrow> 'd fatfs \<Rightarrow> ((fresult + u32 \<times> u32) \<times> 'd fatfs) option" where
  \<comment> \<open>the cluster of an offset and the offset in it\<close>
  "sdi_follow io csz ofs clst fs =
    (if ofs \<ge> csz then
       (case get_fat io clst fs of
          (clst, fs1) \<Rightarrow>
            if clst = 0xFFFFFFFF then Some (Inl FR_DISK_ERR, fs1)
            else if clst < 2 \<or> clst \<ge> n_fatent fs1 then Some (Inl FR_INT_ERR, fs1)
            else sdi_follow io csz (ofs - csz) clst fs1)
     else Some (Inr (clst, ofs), fs))"

definition sdi_finish :: "u32 \<Rightarrow> u32 \<Rightarrow> u32 \<Rightarrow> ffdir \<Rightarrow> fresult \<times> ffdir" where
  "sdi_finish clst sect ofs dp =
    (let dp = dp\<lparr>dclust := clst, dsect := sect\<rparr> in
     if sect = 0 then (FR_INT_ERR, dp)
     else (FR_OK, dp\<lparr>dsect := sect + ofs div 512, ddir := unat (ofs mod 512)\<rparr>))"

definition dir_sdi ::
  "'d disk_io \<Rightarrow> u32 \<Rightarrow> ffdir \<Rightarrow> 'd fatfs \<Rightarrow> (fresult \<times> ffdir \<times> 'd fatfs) option" where
  "dir_sdi io ofs dp fs =
    (if ofs \<ge> MAX_DIR \<or> ofs mod SZDIRE \<noteq> 0 then Some (FR_INT_ERR, dp, fs)
     else
       (let dp = dp\<lparr>dptr := ofs\<rparr>;
            clst = sclust (dobj dp);
            clst = (if clst = 0 \<and> fs_type fs \<ge> FS_FAT32 then dirbase fs else clst)
        in if clst = 0 then
             (if ofs div SZDIRE \<ge> ucast (n_rootdir fs) then Some (FR_INT_ERR, dp, fs)
              else (case sdi_finish 0 (dirbase fs) ofs dp of (res, dp) \<Rightarrow> Some (res, dp, fs)))
           else
             do { (x, fs1) \<leftarrow> sdi_follow io (ucast (csize fs) * 512) ofs clst fs;
                  case x of
                    Inl res \<Rightarrow> Some (res, dp, fs1)
                  | Inr (clst, ofs) \<Rightarrow>
                      (case sdi_finish clst (clst2sect clst fs1) ofs dp of
                         (res, dp) \<Rightarrow> Some (res, dp, fs1)) }))"

definition dir_next_cluster ::
  "'d disk_io \<Rightarrow> bool \<Rightarrow> ffdir \<Rightarrow> 'd fatfs \<Rightarrow> (fresult \<times> ffdir \<times> 'd fatfs) option" where
  \<comment> \<open>the end of a cluster was reached\<close>
  "dir_next_cluster io stretch dp fs =
    (case get_fat io (dclust dp) fs of
       (clst, fs1) \<Rightarrow>
         if clst \<le> 1 then Some (FR_INT_ERR, dp, fs1)
         else if clst = 0xFFFFFFFF then Some (FR_DISK_ERR, dp, fs1)
         else if clst \<ge> n_fatent fs1 then
           (if \<not> stretch then Some (FR_NO_FILE, dp\<lparr>dsect := 0\<rparr>, fs1)
            else
              do { (clst, fs2) \<leftarrow> create_chain io (dclust dp) fs1;
                   if clst = 0 then Some (FR_DENIED, dp, fs2)
                   else if clst = 1 then Some (FR_INT_ERR, dp, fs2)
                   else if clst = 0xFFFFFFFF then Some (FR_DISK_ERR, dp, fs2)
                   else
                     (case dir_clear io clst fs2 of
                        (res, fs3) \<Rightarrow>
                          if res \<noteq> FR_OK then Some (FR_DISK_ERR, dp, fs3)
                          else Some (FR_OK, dp\<lparr>dclust := clst, dsect := clst2sect clst fs3\<rparr>, fs3)) })
         else Some (FR_OK, dp\<lparr>dclust := clst, dsect := clst2sect clst fs1\<rparr>, fs1))"

definition dir_next ::
  "'d disk_io \<Rightarrow> bool \<Rightarrow> ffdir \<Rightarrow> 'd fatfs \<Rightarrow> (fresult \<times> ffdir \<times> 'd fatfs) option" where
  "dir_next io stretch dp fs =
    (let ofs = dptr dp + SZDIRE;
         dp = (if ofs \<ge> MAX_DIR then dp\<lparr>dsect := 0\<rparr> else dp)
     in if dsect dp = 0 then Some (FR_NO_FILE, dp, fs)
        else
          do { (res, dp, fs1) \<leftarrow>
                 (if ofs mod 512 = 0 then
                    (let dp = dp\<lparr>dsect := dsect dp + 1\<rparr> in
                     if dclust dp = 0 then
                       (if ofs div SZDIRE \<ge> ucast (n_rootdir fs)
                        then Some (FR_NO_FILE, dp\<lparr>dsect := 0\<rparr>, fs) else Some (FR_OK, dp, fs))
                     else if ofs div 512 AND (ucast (csize fs) - 1) = 0
                     then dir_next_cluster io stretch dp fs
                     else Some (FR_OK, dp, fs))
                  else Some (FR_OK, dp, fs));
               Some (if res \<noteq> FR_OK then (res, dp, fs1)
                     else (FR_OK, dp\<lparr>dptr := ofs, ddir := unat (ofs mod 512)\<rparr>, fs1)) })"

section \<open>Entries\<close>

partial_function (option) alloc_loop ::
  "'d disk_io \<Rightarrow> nat \<Rightarrow> nat \<Rightarrow> ffdir \<Rightarrow> 'd fatfs \<Rightarrow> (fresult \<times> ffdir \<times> 'd fatfs) option" where
  "alloc_loop io n_ent n dp fs =
    (case move_window io (dsect dp) fs of
       (res, fs1) \<Rightarrow>
         if res \<noteq> FR_OK then Some (res, dp, fs1)
         else
           (let b = win fs1 ! (ddir dp + DIR_Name);
                n = (if b = DDEM \<or> b = 0 then n + 1 else 0)
            in if n = n_ent then Some (FR_OK, dp, fs1)
               else
                 do { (res, dp, fs2) \<leftarrow> dir_next io True dp fs1;
                      if res = FR_OK then alloc_loop io n_ent n dp fs2 else Some (res, dp, fs2) }))"

definition dir_alloc ::
  "'d disk_io \<Rightarrow> nat \<Rightarrow> ffdir \<Rightarrow> 'd fatfs \<Rightarrow> (fresult \<times> ffdir \<times> 'd fatfs) option" where
  \<comment> \<open>the number of entries is positive\<close>
  "dir_alloc io n_ent dp fs =
    do { (res, dp, fs1) \<leftarrow> dir_sdi io 0 dp fs;
         (res, dp, fs2) \<leftarrow> (if res = FR_OK then alloc_loop io n_ent 0 dp fs1 else Some (res, dp, fs1));
         Some (if res = FR_NO_FILE then FR_DENIED else res, dp, fs2) }"

definition ld_clust :: "'d fatfs \<Rightarrow> byte list \<Rightarrow> nat \<Rightarrow> u32" where
  "ld_clust fs w dir =
    (let cl = ucast (ld_word w (dir + DIR_FstClusLO)) in
     if fs_type fs = FS_FAT32 then cl OR push_bit 16 (ucast (ld_word w (dir + DIR_FstClusHI))) else cl)"

definition st_clust :: "'d fatfs \<Rightarrow> byte list \<Rightarrow> nat \<Rightarrow> u32 \<Rightarrow> byte list" where
  "st_clust fs w dir cl =
    (let w = st_word w (dir + DIR_FstClusLO) (ucast cl) in
     if fs_type fs = FS_FAT32 then st_word w (dir + DIR_FstClusHI) (ucast (drop_bit 16 cl)) else w)"

partial_function (option) read_loop ::
  "'d disk_io \<Rightarrow> bool \<Rightarrow> fresult \<Rightarrow> ffdir \<Rightarrow> 'd fatfs \<Rightarrow> (fresult \<times> ffdir \<times> 'd fatfs) option" where
  \<comment> \<open>\<open>vol\<close>: volume labels instead of files and directories\<close>
  "read_loop io vol res dp fs =
    (if dsect dp = 0 then Some (res, dp, fs)
     else
       (case move_window io (dsect dp) fs of
          (res, fs1) \<Rightarrow>
            if res \<noteq> FR_OK then Some (res, dp, fs1)
            else
              (let b = win fs1 ! (ddir dp + DIR_Name) in
               if b = 0 then Some (FR_NO_FILE, dp, fs1)
               else
                 (let attr = win fs1 ! (ddir dp + DIR_Attr) AND AM_MASK;
                      dp = dp\<lparr>dobj := (dobj dp)\<lparr>obj_attr := attr\<rparr>\<rparr>
                  in if b \<noteq> DDEM \<and> b \<noteq> 0x2E \<and> attr \<noteq> AM_LFN \<and>
                        (attr AND NOT AM_ARC = AM_VOL) = vol then Some (FR_OK, dp, fs1)
                     else
                       do { (res, dp, fs2) \<leftarrow> dir_next io False dp fs1;
                            if res \<noteq> FR_OK then Some (res, dp, fs2)
                            else read_loop io vol res dp fs2 }))))"

definition dir_read ::
  "'d disk_io \<Rightarrow> bool \<Rightarrow> ffdir \<Rightarrow> 'd fatfs \<Rightarrow> (fresult \<times> ffdir \<times> 'd fatfs) option" where
  "dir_read io vol dp fs =
    do { (res, dp, fs1) \<leftarrow> read_loop io vol FR_NO_FILE dp fs;
         Some (res, if res \<noteq> FR_OK then dp\<lparr>dsect := 0\<rparr> else dp, fs1) }"

partial_function (option) find_loop ::
  "'d disk_io \<Rightarrow> ffdir \<Rightarrow> 'd fatfs \<Rightarrow> (fresult \<times> ffdir \<times> 'd fatfs) option" where
  "find_loop io dp fs =
    (case move_window io (dsect dp) fs of
       (res, fs1) \<Rightarrow>
         if res \<noteq> FR_OK then Some (res, dp, fs1)
         else if win fs1 ! (ddir dp + DIR_Name) = 0 then Some (FR_NO_FILE, dp, fs1)
         else
           (let a = win fs1 ! (ddir dp + DIR_Attr);
                dp = dp\<lparr>dobj := (dobj dp)\<lparr>obj_attr := a AND AM_MASK\<rparr>\<rparr>
            in if a AND AM_VOL = 0 \<and> take 11 (drop (ddir dp) (win fs1)) = take 11 (fn dp)
               then Some (FR_OK, dp, fs1)
               else
                 do { (res, dp, fs2) \<leftarrow> dir_next io False dp fs1;
                      if res = FR_OK then find_loop io dp fs2 else Some (res, dp, fs2) }))"

definition dir_find :: "'d disk_io \<Rightarrow> ffdir \<Rightarrow> 'd fatfs \<Rightarrow> (fresult \<times> ffdir \<times> 'd fatfs) option" where
  "dir_find io dp fs =
    do { (res, dp, fs1) \<leftarrow> dir_sdi io 0 dp fs;
         if res \<noteq> FR_OK then Some (res, dp, fs1) else find_loop io dp fs1 }"

definition dir_register :: "'d disk_io \<Rightarrow> ffdir \<Rightarrow> 'd fatfs \<Rightarrow> (fresult \<times> ffdir \<times> 'd fatfs) option" where
  "dir_register io dp fs =
    do { (res, dp, fs1) \<leftarrow> dir_alloc io 1 dp fs;
         if res = FR_OK then
           (case move_window io (dsect dp) fs1 of
              (res, fs2) \<Rightarrow>
                if res = FR_OK then
                  Some (FR_OK, dp, fs2\<lparr>win := store_at (ddir dp) (take 11 (fn dp) @ replicate 21 0) (win fs2),
                                       wflag := 1\<rparr>)
                else Some (res, dp, fs2))
         else Some (res, dp, fs1) }"

definition dir_remove :: "'d disk_io \<Rightarrow> ffdir \<Rightarrow> 'd fatfs \<Rightarrow> fresult \<times> 'd fatfs" where
  "dir_remove io dp fs =
    (case move_window io (dsect dp) fs of
       (res, fs1) \<Rightarrow>
         if res = FR_OK then (FR_OK, fs1\<lparr>win := (win fs1)[ddir dp + DIR_Name := DDEM], wflag := 1\<rparr>)
         else (res, fs1))"

section \<open>File information\<close>

record filinfo =
  fi_fsize :: u32
  fi_fdate :: u16
  fi_ftime :: u16
  fi_fattrib :: byte
  fi_fname :: "byte list"   \<comment> \<open>up to the terminator\<close>

fun sfn_text :: "nat \<Rightarrow> byte list \<Rightarrow> byte list" where
  \<comment> \<open>the loop over the name; the index is \<open>si\<close> before the increment\<close>
  "sfn_text si [] = []"
| "sfn_text si (c # cs) =
     (if c = 0x20 then sfn_text (si + 1) cs
      else (if si + 1 = 9 then [0x2E] else []) @ (if c = RDDEM then DDEM else c) # sfn_text (si + 1) cs)"

definition get_fileinfo :: "ffdir \<Rightarrow> 'd fatfs \<Rightarrow> filinfo \<Rightarrow> filinfo" where
  "get_fileinfo dp fs fno =
    (if dsect dp = 0 then fno\<lparr>fi_fname := []\<rparr>
     else
       fno\<lparr>fi_fname := sfn_text 0 (take 11 (drop (ddir dp) (win fs))),
           fi_fattrib := win fs ! (ddir dp + DIR_Attr) AND AM_MASK,
           fi_fsize := ld_dword (win fs) (ddir dp + DIR_FileSize),
           fi_ftime := ld_word (win fs) (ddir dp + DIR_ModTime),
           fi_fdate := ld_word (win fs) (ddir dp + DIR_ModTime + 2)\<rparr>)"

end
