(* ===== verification/FatName.thy ===== *)
theory FatName
  imports FatDir
begin

text \<open>
  Names and patterns (\<^verbatim>\<open>ff.c\<close>: \<open>get_achar\<close>, \<open>pattern_match\<close>, \<open>create_name\<close>, \<open>get_ldnumber\<close>), with
  code page 850 and short names. A string is the list of bytes from the pointer to the end of its
  object, and \<open>None\<close> is a read behind that end. The loops become recursions over these lists; the
  recursion of \<open>pattern_match\<close> is on its counter \<open>recur\<close>.
\<close>

section \<open>Characters\<close>

definition ExCvt :: "byte list" where
  \<comment> \<open>\<open>TBL_CT850\<close>: the upper-case letters of the characters from 0x80 on\<close>
  "ExCvt =
    [0x43, 0x55, 0x45, 0x41, 0x41, 0x41, 0x41, 0x43, 0x45, 0x45, 0x45, 0x49, 0x49, 0x49, 0x41, 0x41,
     0x45, 0x92, 0x92, 0x4F, 0x4F, 0x4F, 0x55, 0x55, 0x59, 0x4F, 0x55, 0x4F, 0x9C, 0x4F, 0x9E, 0x9F,
     0x41, 0x49, 0x4F, 0x55, 0xA5, 0xA5, 0xA6, 0xA7, 0xA8, 0xA9, 0xAA, 0xAB, 0xAC, 0xAD, 0xAE, 0xAF,
     0xB0, 0xB1, 0xB2, 0xB3, 0xB4, 0x41, 0x41, 0x41, 0xB8, 0xB9, 0xBA, 0xBB, 0xBC, 0xBD, 0xBE, 0xBF,
     0xC0, 0xC1, 0xC2, 0xC3, 0xC4, 0xC5, 0x41, 0x41, 0xC8, 0xC9, 0xCA, 0xCB, 0xCC, 0xCD, 0xCE, 0xCF,
     0xD1, 0xD1, 0x45, 0x45, 0x45, 0x49, 0x49, 0x49, 0x49, 0xD9, 0xDA, 0xDB, 0xDC, 0xDD, 0x49, 0xDF,
     0x4F, 0xE1, 0x4F, 0x4F, 0x4F, 0x4F, 0xE6, 0xE8, 0xE8, 0x55, 0x55, 0x55, 0x59, 0x59, 0xEE, 0xEF,
     0xF0, 0xF1, 0xF2, 0xF3, 0xF4, 0xF5, 0xF6, 0xF7, 0xF8, 0xF9, 0xFA, 0xFB, 0xFC, 0xFD, 0xFE, 0xFF]"

definition IsLower :: "byte \<Rightarrow> bool" where "IsLower c \<longleftrightarrow> 0x61 \<le> c \<and> c \<le> 0x7A"
definition IsDigit :: "byte \<Rightarrow> bool" where "IsDigit c \<longleftrightarrow> 0x30 \<le> c \<and> c \<le> 0x39"
definition IsSeparator :: "byte \<Rightarrow> bool" where "IsSeparator c \<longleftrightarrow> c = 0x2F \<or> c = 0x5C"
definition IsTerminator :: "byte \<Rightarrow> bool" where "IsTerminator c \<longleftrightarrow> c < 0x21"

abbreviation QMARK :: byte where "QMARK \<equiv> 0x3F"
abbreviation STAR :: byte where "STAR \<equiv> 0x2A"
abbreviation DOT :: byte where "DOT \<equiv> 0x2E"

definition oem_upper :: "byte \<Rightarrow> byte" where
  \<comment> \<open>the conversion in \<open>get_achar\<close>\<close>
  "oem_upper c =
    (let chr = (if IsLower c then c - 0x20 else c)
     in if chr \<ge> 0x80 then ExCvt ! unat (chr - 0x80) else chr)"

definition get_achar :: "byte list \<Rightarrow> (byte \<times> byte list) option" where
  "get_achar p = (case p of [] \<Rightarrow> None | c # cs \<Rightarrow> Some (oem_upper c, cs))"

definition c_at :: "byte list \<Rightarrow> byte option" where
  \<comment> \<open>\<open>*p\<close>\<close>
  "c_at p = (case p of [] \<Rightarrow> None | c # cs \<Rightarrow> Some c)"

section \<open>Pattern matching\<close>

fun pm_skip :: "u32 \<Rightarrow> byte list \<Rightarrow> (u32 \<times> byte list) option option" where
  \<comment> \<open>skip name characters; the inner \<open>None\<close> is a name that is too short\<close>
  "pm_skip skip [] = (if skip AND 0xFF \<noteq> 0 then None else Some (Some (skip, [])))"
| "pm_skip skip (c # cs) =
     (if skip AND 0xFF \<noteq> 0
      then (if oem_upper c = 0 then Some None else pm_skip (skip - 1) cs)
      else Some (Some (skip, c # cs)))"

fun wild_term :: "u32 \<Rightarrow> byte list \<Rightarrow> (u32 \<times> byte list) option" where
  \<comment> \<open>analyse a wildcard term: the number of \<open>?\<close>, bit 8 for \<open>*\<close>, and the pattern behind it\<close>
  "wild_term sk [] = None"
| "wild_term sk (p # ps) =
     (if p = QMARK \<or> p = STAR then wild_term (if p = QMARK then sk + 1 else sk OR 0x100) ps
      else Some (sk, p # ps))"

datatype scan_result = Scan_matched | Scan_failed | Scan_mismatch byte

fun pm_scan ::
  "(byte list \<Rightarrow> byte list \<Rightarrow> u32 \<Rightarrow> bool option) option \<Rightarrow> byte list \<Rightarrow> byte list \<Rightarrow> scan_result option" where
  \<comment> \<open>the loop \<open>for (;;)\<close>; the first argument is the recursive call, absent when \<open>recur\<close> is 0\<close>
  "pm_scan branch [] nptr = None"
| "pm_scan branch (p # ps) nptr =
     (if p = QMARK \<or> p = STAR then
        (case branch of
           None \<Rightarrow> Some Scan_failed
         | Some f \<Rightarrow>
             do { (sk, rest) \<leftarrow> wild_term 0 (p # ps);
                  m \<leftarrow> f rest nptr sk;
                  if m then Some Scan_matched
                  else do { nchr \<leftarrow> c_at nptr; Some (Scan_mismatch nchr) } })
      else
        do { (nchr, ns) \<leftarrow> get_achar nptr;
             if oem_upper p \<noteq> nchr then Some (Scan_mismatch nchr)
             else if oem_upper p = 0 then Some Scan_matched
             else pm_scan branch ps ns })"

fun pm_retry ::
  "(byte list \<Rightarrow> byte list \<Rightarrow> u32 \<Rightarrow> bool option) option \<Rightarrow> byte list \<Rightarrow> u32 \<Rightarrow> byte list \<Rightarrow> bool option" where
  \<comment> \<open>\<open>do ... while (skip && nchr)\<close>\<close>
  "pm_retry branch pat skip [] =
     do { r \<leftarrow> pm_scan branch pat [];
          case r of Scan_matched \<Rightarrow> Some True | Scan_failed \<Rightarrow> Some False | Scan_mismatch nchr \<Rightarrow> None }"
| "pm_retry branch pat skip (n # nam) =
     do { r \<leftarrow> pm_scan branch pat (n # nam);
          case r of
            Scan_matched \<Rightarrow> Some True
          | Scan_failed \<Rightarrow> Some False
          | Scan_mismatch nchr \<Rightarrow>
              if skip \<noteq> 0 \<and> nchr \<noteq> 0 then pm_retry branch pat skip nam else Some False }"

definition pm_body ::
  "(byte list \<Rightarrow> byte list \<Rightarrow> u32 \<Rightarrow> bool option) option \<Rightarrow> byte list \<Rightarrow> byte list \<Rightarrow> u32 \<Rightarrow> bool option" where
  "pm_body branch pat nam skip =
    do { s \<leftarrow> pm_skip skip nam;
         case s of
           None \<Rightarrow> Some False
         | Some (skip, nam) \<Rightarrow>
             do { p \<leftarrow> c_at pat;
                  if p = 0 \<and> skip \<noteq> 0 then Some True else pm_retry branch pat skip nam } }"

primrec pattern_match :: "nat \<Rightarrow> byte list \<Rightarrow> byte list \<Rightarrow> u32 \<Rightarrow> bool option" where
  \<comment> \<open>the first argument is \<open>recur\<close>\<close>
  "pattern_match 0 = pm_body None"
| "pattern_match (Suc recur) = pm_body (Some (pattern_match recur))"

abbreviation FIND_RECURS :: nat where "FIND_RECURS \<equiv> 4"

section \<open>Names\<close>

abbreviation NS_LAST :: byte where "NS_LAST \<equiv> 0x04"
abbreviation NS_DOT :: byte where "NS_DOT \<equiv> 0x20"
abbreviation NS_NONAME :: byte where "NS_NONAME \<equiv> 0x80"

definition sfn_illegal :: "byte list" where
  \<comment> \<open>\<open>"*+,:;<=>[]|\"\?\x7F"\<close>\<close>
  "sfn_illegal = [0x2A, 0x2B, 0x2C, 0x3A, 0x3B, 0x3C, 0x3D, 0x3E, 0x5B, 0x5D, 0x7C, 0x22, 0x3F, 0x7F]"

fun skip_sep :: "byte list \<Rightarrow> byte list option" where
  "skip_sep [] = None"
| "skip_sep (c # cs) = (if IsSeparator c then skip_sep cs else Some (c # cs))"

fun dot_loop :: "nat \<Rightarrow> byte list \<Rightarrow> byte list \<Rightarrow> (byte \<times> byte list \<times> byte list) option" where
  \<comment> \<open>the loop of a dot entry (\<open>i = si\<close> in it): the last character read, the rest and \<open>sfn\<close>\<close>
  "dot_loop si sfn [] = None"
| "dot_loop si sfn (c # cs) =
     (if c \<noteq> DOT \<or> si + 1 \<ge> 3 then Some (c, cs, sfn) else dot_loop (si + 1) (sfn[si := c]) cs)"

fun name_loop ::
  "nat \<Rightarrow> nat \<Rightarrow> byte list \<Rightarrow> byte list \<Rightarrow> (fresult \<times> byte \<times> nat \<times> byte list \<times> byte list) option" where
  \<comment> \<open>the result code, the character that ended the segment, \<open>i\<close>, \<open>sfn\<close> and the rest of the path\<close>
  "name_loop i ni sfn [] = None"
| "name_loop i ni sfn (c # cs) =
     (if c \<le> 0x20 then Some (FR_OK, c, i, sfn, cs)
      else if IsSeparator c then do { r \<leftarrow> skip_sep cs; Some (FR_OK, c, i, sfn, r) }
      else if c = DOT \<or> i \<ge> ni then
        (if ni = 11 \<or> c \<noteq> DOT then Some (FR_INVALID_NAME, c, i, sfn, cs)
         else name_loop 8 11 sfn cs)
      else
        (let d = (if c \<ge> 0x80 then ExCvt ! unat (c AND 0x7F) else c) in
         if d \<in> set sfn_illegal then Some (FR_INVALID_NAME, d, i, sfn, cs)
         else name_loop (i + 1) ni (sfn[i := if IsLower d then d - 0x20 else d]) cs))"

definition create_name ::
  "byte list \<Rightarrow> byte list \<Rightarrow> (fresult \<times> byte list \<times> byte list) option" where
  \<comment> \<open>from the path and the old \<open>fn\<close>: the result, the new \<open>fn\<close> and the new path\<close>
  "create_name path fn0 =
    (let sfn = store_at 0 (replicate 11 0x20) fn0 in
     do { c \<leftarrow> c_at path;
          if c = DOT then
            do { (c, rest, sfn) \<leftarrow> dot_loop 0 sfn path;
                 if \<not> IsSeparator c \<and> c > 0x20 then Some (FR_INVALID_NAME, sfn, path)
                 else Some (FR_OK, sfn[NSFLAG := if c \<le> 0x20 then NS_LAST OR NS_DOT else NS_DOT], rest) }
          else
            do { (res, c, i, sfn, rest) \<leftarrow> name_loop 0 8 sfn path;
                 if res \<noteq> FR_OK then Some (res, sfn, path)
                 else if i = 0 then Some (FR_INVALID_NAME, sfn, rest)
                 else
                   (let sfn = (if sfn ! 0 = DDEM then sfn[0 := RDDEM] else sfn) in
                    if c \<le> 0x20 then Some (FR_OK, sfn[NSFLAG := NS_LAST], rest)
                    else do { d \<leftarrow> c_at rest;
                              Some (FR_OK, sfn[NSFLAG := if d \<le> 0x20 then NS_LAST else 0], rest) }) } })"

section \<open>Drive prefixes\<close>

fun find_colon :: "byte list \<Rightarrow> (byte \<times> byte list) option" where
  \<comment> \<open>the colon or terminator and what follows it\<close>
  "find_colon [] = None"
| "find_colon (tc # tt) = (if \<not> IsTerminator tc \<and> tc \<noteq> 0x3A then find_colon tt else Some (tc, tt))"

definition VolumeStr :: "byte list" where
  \<comment> \<open>\<open>"SD"\<close>, the only volume\<close>
  "VolumeStr = [0x53, 0x44, 0]"

definition ascii_upper :: "byte \<Rightarrow> byte" where
  "ascii_upper c = (if IsLower c then c - 0x20 else c)"

fun volume_cmp :: "byte list \<Rightarrow> byte list \<Rightarrow> (byte \<times> byte list) option" where
  \<comment> \<open>compare the volume ID with the path: the ID's last character and the path pointer\<close>
  "volume_cmp (c # sp) (tc # tp) =
     (let c' = ascii_upper c in
      if c' \<noteq> 0 \<and> c' = ascii_upper tc then volume_cmp sp tp else Some (c', tp))"
| "volume_cmp sp tp = None"

definition get_ldnumber :: "int \<Rightarrow> byte list option \<Rightarrow> (int \<times> byte list option) option" where
  \<comment> \<open>from the current drive and the path, \<open>None\<close> a null pointer: the drive (-1 invalid) and the path\<close>
  "get_ldnumber CurrVol path =
    (case path of
       None \<Rightarrow> Some (-1, None)
     | Some tp \<Rightarrow>
         do { (tc, tt) \<leftarrow> find_colon tp;
              if tc = 0x3A then
                do { t0 \<leftarrow> c_at tp;
                     i \<leftarrow> (if IsDigit t0 \<and> length tt + 2 = length tp then Some (uint t0 - 0x30)
                         else
                           do { (c, tp') \<leftarrow> volume_cmp VolumeStr tp;
                                Some (if c \<noteq> 0 \<or> length tp' \<noteq> length tt then 1 else 0) });
                     Some (if i < 1 then (i, Some tt) else (-1, path)) }
              else Some (CurrVol, path) })"

end
