(* ===== verification/FatPattern.thy ===== *)
theory FatPattern
  imports FatName
begin

text \<open>
  What \<open>pattern_match\<close> decides: \<open>glob\<close> is the usual meaning of the wildcards \<open>?\<close> and \<open>*\<close>, up to the
  case of the letters, and the search with its counters, its retries and its early exits is
  equivalent to it, as long as the pattern has no more wildcard terms than \<open>recur\<close>. The early exit
  rests on one fact: a branch that fails at the end of the name fails for every shorter rest too.
\<close>

section \<open>The meaning of a pattern\<close>

fun glob :: "byte list \<Rightarrow> byte list \<Rightarrow> bool" where
  "glob [] ns = (ns = [])"
| "glob (p # ps) [] = (p = STAR \<and> glob ps [])"
| "glob (p # ps) (n # ns) =
     (if p = STAR then glob ps (n # ns) \<or> glob (p # ps) ns
      else (p = QMARK \<or> oem_upper p = oem_upper n) \<and> glob ps ns)"

definition wild :: "byte \<Rightarrow> bool" where
  "wild p \<longleftrightarrow> p = QMARK \<or> p = STAR"

fun wild_terms :: "bool \<Rightarrow> byte list \<Rightarrow> nat" where
  \<comment> \<open>the number of wildcard terms; the flag: the previous character was a wildcard\<close>
  "wild_terms b [] = 0"
| "wild_terms b (p # ps) = (if wild p \<and> \<not> b then 1 else 0) + wild_terms (wild p) ps"

definition wild_run :: "nat \<Rightarrow> bool \<Rightarrow> byte list" where
  "wild_run k s = replicate k QMARK @ (if s then [STAR] else [])"

definition run_code :: "nat \<Rightarrow> bool \<Rightarrow> u32" where
  "run_code k s = of_nat k + (if s then 256 else 0)"

lemma oem_upper_0 [simp]: "oem_upper c = 0 \<longleftrightarrow> c = 0"
proof -
  have l: "length ExCvt = 128" "list_all (\<lambda>x. x \<noteq> 0) ExCvt" by (simp_all add: ExCvt_def)
  have "ExCvt ! n \<noteq> 0" if "n < 128" for n using l that by (simp add: list_all_length)
  moreover have "unat (x - 0x80) < 128" if "0x80 \<le> x" for x :: byte
  proof -
    have "unat (x - 0x80) = unat x - 128" using that by (simp add: unat_sub word_le_nat_alt)
    moreover have "unat x < 256" using unsigned_less [of x] by simp
    ultimately show ?thesis using that by (simp add: word_le_nat_alt)
  qed
  moreover have "c - 0x20 \<noteq> 0" if "IsLower c"
  proof
    assume "c - 0x20 = 0"
    then have "c = 0x20" by simp
    with that show False by (simp add: IsLower_def)
  qed
  ultimately show ?thesis
    by (auto simp: oem_upper_def Let_def IsLower_def)
qed

lemma oem_upper_zero [simp]: "oem_upper 0 = 0"
  by simp

lemma glob_star: "glob (STAR # ps) ns \<longleftrightarrow> (\<exists>j \<le> length ns. glob ps (drop j ns))"
proof (induction ns)
  case (Cons n ns)
  have "(\<exists>j \<le> length (n # ns). glob ps (drop j (n # ns))) \<longleftrightarrow>
      glob ps (n # ns) \<or> (\<exists>j \<le> length ns. glob ps (drop j ns))"
    (is "?L = ?R")
  proof
    assume ?L then obtain j where "j \<le> Suc (length ns)" "glob ps (drop j (n # ns))" by auto
    then show ?R by (cases j) auto
  next
    assume ?R then show ?L
    proof
      assume "\<exists>j \<le> length ns. glob ps (drop j ns)"
      then obtain j where "j \<le> length ns" "glob ps (drop j ns)" by blast
      then show ?L by (intro exI [of _ "Suc j"]) simp
    qed (intro exI [of _ 0], simp)
  qed
  with Cons show ?case by simp
qed simp

lemma glob_qmarks:
  "glob (replicate k QMARK @ ps) ns \<longleftrightarrow> k \<le> length ns \<and> glob ps (drop k ns)"
proof (induction k arbitrary: ns)
  case (Suc k) then show ?case by (cases ns) auto
qed simp

lemma glob_run:
  "glob (wild_run k s @ ps) ns \<longleftrightarrow> k \<le> length ns \<and>
    (if s then \<exists>j \<le> length ns - k. glob ps (drop j (drop k ns)) else glob ps (drop k ns))"
  using glob_star [of ps "drop k ns"] by (cases s) (simp_all add: wild_run_def glob_qmarks)

text \<open>The order inside a wildcard term does not matter.\<close>

lemma glob_run_QMARK: "glob (wild_run k s @ QMARK # ps) ns = glob (wild_run (Suc k) s @ ps) ns"
proof (cases s)
  case True
  have "(\<exists>j \<le> m. glob (QMARK # ps) (drop j xs)) \<longleftrightarrow> 1 \<le> m \<and> (\<exists>j \<le> m - 1. glob ps (drop j (drop 1 xs)))"
    if "m = length xs" for m xs
  proof -
    have q: "glob (QMARK # ps) (drop j xs) \<longleftrightarrow> j < length xs \<and> glob ps (drop j (drop 1 xs))" for j
      using glob_qmarks [of 1 ps "drop j xs"] by (auto simp: add.commute)
    show ?thesis unfolding q that by (cases xs) (auto simp: less_Suc_eq_le intro: le_SucI)
  qed
  from this [of "length ns - k" "drop k ns"] True show ?thesis
    by (auto simp: glob_run)
next
  case False
  then show ?thesis
    using glob_qmarks [of 1 ps "drop k ns"] by (auto simp: glob_run)
qed

lemma glob_run_STAR: "glob (wild_run k s @ STAR # ps) ns = glob (wild_run k True @ ps) ns"
proof (cases s)
  case True
  have "(\<exists>j \<le> length xs. glob (STAR # ps) (drop j xs)) \<longleftrightarrow> glob (STAR # ps) xs" for xs
  proof
    assume "\<exists>j \<le> length xs. glob (STAR # ps) (drop j xs)"
    then obtain j i where "j \<le> length xs" "i \<le> length xs - j" "glob ps (drop i (drop j xs))"
      by (auto simp: glob_star)
    then show "glob (STAR # ps) xs"
      unfolding glob_star by (intro exI [of _ "i + j"]) simp
  qed (intro exI [of _ 0], simp)
  from this [of "drop k ns"] True show ?thesis
    by (auto simp: glob_run glob_star)
qed (simp add: wild_run_def)

section \<open>The parts of the search\<close>

lemma run_code_simps:
  assumes "k < 256"
  shows "run_code k s AND 0xFF \<noteq> 0 \<longleftrightarrow> k \<noteq> 0" and "run_code 0 s \<noteq> 0 \<longleftrightarrow> s"
    and "k \<noteq> 0 \<Longrightarrow> run_code k s - 1 = run_code (k - 1) s"
    and "run_code k s OR 0x100 = run_code k True" and "run_code k s + 1 = run_code (Suc k) s"
proof -
  have m: "(0xFF :: u32) = mask 8" "(0x100 :: u32) = push_bit 8 1"
    by (simp_all add: mask_eq_exp_minus_1 push_bit_eq_mult)
  have k: "(of_nat k :: u32) AND mask 8 = of_nat k"
    using assms by (intro u32_and_mask) (simp add: u32_of_nat)
  have d: "(of_nat k :: u32) AND 0x100 = 0"
  proof (rule bit_word_eqI)
    fix n
    have "bit ((of_nat k :: u32) AND mask 8) n \<Longrightarrow> n < 8" by (simp add: bit_simps)
    moreover have "bit (0x100 :: u32) n \<Longrightarrow> n = 8"
      unfolding m(2) bit_push_bit_iff bit_1_iff by auto
    ultimately show "bit ((of_nat k :: u32) AND 0x100) n \<longleftrightarrow> bit (0 :: u32) n"
      unfolding k by (auto simp: bit_and_iff)
  qed
  have o: "(of_nat k :: u32) + 0x100 = of_nat k OR 0x100"
    using word_plus_and_or [of "of_nat k :: u32" "0x100"] d by simp
  have z: "(of_nat k :: u32) = 0 \<longleftrightarrow> k = 0"
  proof
    assume "(of_nat k :: u32) = 0"
    moreover have "unat (of_nat k :: u32) = k" using assms by (intro u32_of_nat) simp
    ultimately show "k = 0" by simp
  qed simp
  have a: "(of_nat k OR 0x100) AND 0xFF = (of_nat k :: u32)"
    unfolding word_ao_dist using k [folded m(1)] by simp
  show "run_code k s AND 0xFF \<noteq> 0 \<longleftrightarrow> k \<noteq> 0"
    using a k [folded m(1)] z by (cases s) (simp_all add: run_code_def o)
  show "run_code 0 s \<noteq> 0 \<longleftrightarrow> s" by (simp add: run_code_def)
  show "k \<noteq> 0 \<Longrightarrow> run_code k s - 1 = run_code (k - 1) s" by (simp add: run_code_def of_nat_diff)
  show "run_code k s OR 0x100 = run_code k True" by (cases s) (simp_all add: run_code_def o or.assoc)
  show "run_code k s + 1 = run_code (Suc k) s" by (simp add: run_code_def)
qed


lemma pm_skip_run:
  assumes "0 \<notin> set ns"
  shows "k < 256 \<Longrightarrow> pm_skip (run_code k s) (ns @ 0 # y) =
    Some (if k \<le> length ns then Some (run_code 0 s, drop k ns @ 0 # y) else None)"
  using assms
proof (induction k arbitrary: ns)
  case 0
  have "\<not> run_code 0 s AND 0xFF \<noteq> 0" using run_code_simps(1) [of 0 s] by simp
  then show ?case by (cases ns) simp_all
next
  case (Suc k)
  have "run_code (Suc k) s AND 0xFF \<noteq> 0" "run_code (Suc k) s - 1 = run_code k s"
    using run_code_simps(1,3) [of "Suc k" s] Suc.prems(1) by simp_all
  with Suc show ?case by (cases ns) simp_all
qed

definition qmarks :: "byte list \<Rightarrow> nat" where
  "qmarks ps = length (filter (\<lambda>p. p = QMARK) ps)"

definition run_end :: "nat \<Rightarrow> bool \<Rightarrow> byte list \<Rightarrow> nat \<Rightarrow> bool \<Rightarrow> byte list \<Rightarrow> bool" where
  \<comment> \<open>the rest of a wildcard term is \<open>ps\<close>; it ends with the counts and the rest given last\<close>
  "run_end k s ps k' s' rest \<longleftrightarrow> k' < 256 \<and> 0 \<notin> set rest \<and>
     k' + qmarks rest \<le> k + qmarks ps \<and> wild_terms True ps = wild_terms False rest \<and>
     (\<forall>ns. glob (wild_run k s @ ps) ns = glob (wild_run k' s' @ rest) ns)"

lemma wild_term_run:
  assumes "0 \<notin> set ps" and "k + qmarks ps < 256"
  obtains k' s' rest where "wild_term (run_code k s) (ps @ 0 # x) = Some (run_code k' s', rest @ 0 # x)"
    and "run_end k s ps k' s' rest"
  using assms
proof (induction ps arbitrary: k s thesis)
  case Nil
  show ?case by (rule Nil(1) [of k s "[]"]) (use Nil in \<open>simp_all add: run_end_def\<close>)
next
  case (Cons p ps)
  consider "p = QMARK" | "p = STAR" | "\<not> wild p" by (auto simp: wild_def)
  then show ?case
  proof cases
    case 1
    have "Suc k + qmarks ps < 256" "0 \<notin> set ps" using Cons.prems 1 by (simp_all add: qmarks_def)
    from Cons.IH [OF _ this(2,1), of s] obtain k' s' rest
      where r: "wild_term (run_code (Suc k) s) (ps @ 0 # x) = Some (run_code k' s', rest @ 0 # x)"
        "run_end (Suc k) s ps k' s' rest" by metis
    have "wild_term (run_code k s) ((p # ps) @ 0 # x) = Some (run_code k' s', rest @ 0 # x)"
      using r(1) 1 Cons.prems by (simp add: run_code_simps(5))
    moreover have "run_end k s (p # ps) k' s' rest"
      using r(2) 1 by (simp add: run_end_def glob_run_QMARK wild_def qmarks_def)
    ultimately show ?thesis by (rule Cons.prems(1))
  next
    case 2
    have "k + qmarks ps < 256" "0 \<notin> set ps" using Cons.prems 2 by (simp_all add: qmarks_def)
    from Cons.IH [OF _ this(2,1), of True] obtain k' s' rest
      where r: "wild_term (run_code k True) (ps @ 0 # x) = Some (run_code k' s', rest @ 0 # x)"
        "run_end k True ps k' s' rest" by metis
    have "wild_term (run_code k s) ((p # ps) @ 0 # x) = Some (run_code k' s', rest @ 0 # x)"
      using r(1) 2 Cons.prems by (simp add: run_code_simps(4))
    moreover have "run_end k s (p # ps) k' s' rest"
      using r(2) 2 by (simp add: run_end_def glob_run_STAR wild_def qmarks_def)
    ultimately show ?thesis by (rule Cons.prems(1))
  next
    case 3
    show ?thesis
      by (rule Cons.prems(1) [of k s "p # ps"])
        (use 3 Cons.prems in \<open>auto simp: run_end_def wild_def\<close>)
  qed
qed

section \<open>The search\<close>

definition decides ::
  "nat \<Rightarrow> byte list \<Rightarrow> byte list \<Rightarrow> (byte list \<Rightarrow> byte list \<Rightarrow> u32 \<Rightarrow> bool option) \<Rightarrow> bool" where
  \<comment> \<open>\<open>f\<close> decides the patterns with at most \<open>m\<close> terms; \<open>x\<close> and \<open>y\<close> follow the terminators\<close>
  "decides m x y f \<longleftrightarrow> (\<forall>pat nam k s. 0 \<notin> set pat \<longrightarrow> 0 \<notin> set nam \<longrightarrow> k + qmarks pat < 256 \<longrightarrow>
     wild_terms False pat \<le> m \<longrightarrow>
     f (pat @ 0 # x) (nam @ 0 # y) (run_code k s) = Some (glob (wild_run k s @ pat) nam))"

definition branch_ok ::
  "byte list \<Rightarrow> byte list \<Rightarrow> byte list \<Rightarrow> (byte list \<Rightarrow> byte list \<Rightarrow> u32 \<Rightarrow> bool option) option \<Rightarrow> bool" where
  "branch_ok x y pat branch \<longleftrightarrow> wild_terms False pat = 0 \<or>
     (\<exists>f m. branch = Some f \<and> decides m x y f \<and> wild_terms False pat \<le> Suc m)"

definition scan_answer :: "byte list \<Rightarrow> byte list \<Rightarrow> scan_result \<Rightarrow> bool" where
  "scan_answer pat nam r \<longleftrightarrow>
     (if glob pat nam then r = Scan_matched
      else \<exists>c. r = Scan_mismatch c \<and> (nam = [] \<longrightarrow> c = 0) \<and>
             (c = 0 \<longrightarrow> (\<forall>j. 1 \<le> j \<and> j \<le> length nam \<longrightarrow> \<not> glob pat (drop j nam))))"

lemma scan_answer_step:
  assumes "scan_answer ps ns r" and "\<not> wild p" and "oem_upper p = oem_upper n"
  shows "scan_answer (p # ps) (n # ns) r"
proof (cases "glob ps ns")
  case True
  with assms show ?thesis by (simp add: scan_answer_def wild_def)
next
  case False
  with assms(1) obtain c where c: "r = Scan_mismatch c" "ns = [] \<longrightarrow> c = 0"
    "c = 0 \<longrightarrow> (\<forall>j. 1 \<le> j \<and> j \<le> length ns \<longrightarrow> \<not> glob ps (drop j ns))"
    by (auto simp: scan_answer_def)
  have "\<not> glob (p # ps) (drop j (n # ns))" if j: "c = 0" "1 \<le> j" "j \<le> length (n # ns)" for j
  proof (cases "drop j (n # ns)")
    case Nil
    with assms(2) show ?thesis by (simp add: wild_def)
  next
    case (Cons a as)
    then have "as = drop j ns" "j \<le> length ns" using j
      by (cases j, simp, metis drop_Suc_Cons list.sel(3) tl_drop drop_Suc)
        (metis Cons drop_all length_Cons list.distinct(1) not_less_eq_eq)
    with Cons c(3) j assms(2) show ?thesis by (simp add: wild_def)
  qed
  with c assms(2) False show ?thesis by (auto simp: scan_answer_def wild_def)
qed

lemma pm_scan_answer:
  assumes "0 \<notin> set pat" and "0 \<notin> set nam" and "qmarks pat < 256" and "branch_ok x y pat branch"
  shows "\<exists>r. pm_scan branch (pat @ 0 # x) (nam @ 0 # y) = Some r \<and> scan_answer pat nam r"
  using assms
proof (induction pat arbitrary: nam)
  case Nil
  then show ?case by (cases nam) (auto simp: get_achar_def scan_answer_def)
next
  case (Cons p ps)
  show ?case
  proof (cases "wild p")
    case True
    have run: "glob (wild_run 0 False @ p # ps) = glob (p # ps)" by (rule ext) (simp add: wild_run_def)
    from Cons.prems(4) True obtain f m
      where f: "branch = Some f" "decides m x y f" "wild_terms False (p # ps) \<le> Suc m"
      by (auto simp: branch_ok_def)
    obtain k s rest where w: "wild_term (run_code 0 False) ((p # ps) @ 0 # x) = Some (run_code k s, rest @ 0 # x)"
      "run_end 0 False (p # ps) k s rest"
      by (rule wild_term_run [of "p # ps" 0 False x]) (use Cons.prems in auto)
    have t: "wild_terms True (p # ps) \<le> m" using f(3) True by simp
    have "f (rest @ 0 # x) (nam @ 0 # y) (run_code k s) = Some (glob (p # ps) nam)"
      using f(2) w(2) t Cons.prems(2,3)
      unfolding decides_def run_end_def run [symmetric] by auto
    moreover have "run_code 0 False = 0" by (simp add: run_code_def)
    ultimately show ?thesis
      using w(1) f(1) True Cons.prems(2)
      by (cases nam; cases "glob (p # ps) nam") (auto simp: wild_def c_at_def scan_answer_def simp del: glob.simps)
  next
    case False
    have 1: "0 \<notin> set ps" "qmarks ps < 256" "branch_ok x y ps branch"
      using Cons.prems False by (auto simp: qmarks_def branch_ok_def split: if_splits)
    show ?thesis
    proof (cases nam)
      case Nil
      with False Cons.prems show ?thesis
        by (auto simp: wild_def get_achar_def scan_answer_def)
    next
      case (Cons n ns)
      show ?thesis
      proof (cases "oem_upper p = oem_upper n")
        case True
        from Cons.IH [OF 1(1) _ 1(2,3), of ns] Cons.prems(2) \<open>nam = n # ns\<close> obtain r
          where "pm_scan branch (ps @ 0 # x) (ns @ 0 # y) = Some r" "scan_answer ps ns r" by auto
        with scan_answer_step [OF this(2) False True] False True \<open>nam = n # ns\<close> Cons.prems
        show ?thesis by (auto simp: wild_def get_achar_def)
      next
        case False
        with \<open>\<not> wild p\<close> \<open>nam = n # ns\<close> Cons.prems show ?thesis
          by (auto simp: wild_def get_achar_def scan_answer_def)
      qed
    qed
  qed
qed

lemma pm_retry_glob:
  assumes "0 \<notin> set pat" and "0 \<notin> set nam" and "qmarks pat < 256" and "branch_ok x y pat branch"
  shows "pm_retry branch (pat @ 0 # x) (run_code 0 s) (nam @ 0 # y) =
    Some (glob (wild_run 0 s @ pat) nam)"
  using assms(2)
proof (induction nam)
  case Nil
  obtain r where "pm_scan branch (pat @ 0 # x) (0 # y) = Some r" "scan_answer pat [] r"
    using pm_scan_answer [OF assms(1) Nil assms(3,4)] by auto
  then show ?case by (auto simp: glob_run scan_answer_def split: if_splits)
next
  case (Cons n ns)
  obtain r where r: "pm_scan branch (pat @ 0 # x) ((n # ns) @ 0 # y) = Some r"
      "scan_answer pat (n # ns) r"
    using pm_scan_answer [OF assms(1) Cons.prems assms(3,4)] by auto
  show ?case
  proof (cases "glob pat (n # ns)")
    case True
    then show ?thesis using r by (auto simp: glob_run scan_answer_def)
  next
    case False
    then obtain c where c: "r = Scan_mismatch c"
        "c = 0 \<longrightarrow> (\<forall>j. 1 \<le> j \<and> j \<le> length (n # ns) \<longrightarrow> \<not> glob pat (drop j (n # ns)))"
      using r(2) by (auto simp: scan_answer_def)
    have s: "run_code 0 s \<noteq> 0 \<longleftrightarrow> s" by (rule run_code_simps(2) [of 0]) simp
    have star: "glob (wild_run 0 True @ pat) (n # ns) = glob (wild_run 0 True @ pat) ns"
      using False by (simp add: wild_run_def)
    show ?thesis
    proof (cases "s \<and> c \<noteq> 0")
      case True
      with r c s Cons star show ?thesis by auto
    next
      case stop: False
      have "\<not> glob (wild_run 0 s @ pat) (n # ns)"
      proof (cases s)
        case True
        with stop c have no: "\<not> glob pat (drop j (n # ns))" if "1 \<le> j" "j \<le> length (n # ns)" for j
          using that by blast
        show ?thesis
        proof
          assume "glob (wild_run 0 s @ pat) (n # ns)"
          with True obtain j where "j \<le> length (n # ns)" "glob pat (drop j (n # ns))"
            by (auto simp: glob_run)
          with no [of j] False show False by (cases j) auto
        qed
      next
        case False
        with \<open>\<not> glob pat (n # ns)\<close> show ?thesis by (simp add: wild_run_def)
      qed
      with r c s stop show ?thesis by auto
    qed
  qed
qed

lemma pm_body_glob:
  assumes "0 \<notin> set pat" and "0 \<notin> set nam" and "k + qmarks pat < 256" and "branch_ok x y pat branch"
  shows "pm_body branch (pat @ 0 # x) (nam @ 0 # y) (run_code k s) =
    Some (glob (wild_run k s @ pat) nam)"
proof (cases "k \<le> length nam")
  case False
  have "k < 256" using assms(3) by simp
  from pm_skip_run [OF assms(2) this] False show ?thesis
    by (simp add: pm_body_def glob_run)
next
  case True
  have k: "k < 256" using assms(3) by simp
  have n: "0 \<notin> set (drop k nam)" using assms(2) set_drop_subset [of k nam] by blast
  have run: "glob (wild_run k s @ pat) nam = glob (wild_run 0 s @ pat) (drop k nam)"
    using True by (simp add: glob_run)
  show ?thesis
  proof (cases "pat = [] \<and> s")
    case True
    have "glob (wild_run 0 True @ []) (drop k nam)"
      unfolding glob_run by (auto intro!: exI [of _ "length nam - k"])
    with True pm_skip_run [OF assms(2) k, of s y] \<open>k \<le> length nam\<close> run_code_simps(2) [of 0 s] run
    show ?thesis by (simp add: pm_body_def c_at_def)
  next
    case False
    have "c_at (pat @ 0 # x) = Some (case pat of [] \<Rightarrow> 0 | c # cs \<Rightarrow> c)" by (cases pat) (simp_all add: c_at_def)
    moreover have "\<not> ((case pat of [] \<Rightarrow> 0 | c # cs \<Rightarrow> c) = 0 \<and> run_code 0 s \<noteq> 0)"
      using False assms(1) run_code_simps(2) [of 0 s] by (auto split: list.splits)
    ultimately show ?thesis
      using pm_skip_run [OF assms(2) k, of s y] True run
        pm_retry_glob [OF assms(1) n _ assms(4), of s] assms(3)
      by (auto simp: pm_body_def)
  qed
qed

lemma pattern_match_decides: "decides m x y (pattern_match m)"
proof (induction m)
  case 0
  then show ?case unfolding decides_def by (auto intro!: pm_body_glob simp: branch_ok_def)
next
  case (Suc m)
  have "branch_ok x y pat (Some (pattern_match m))" if "wild_terms False pat \<le> Suc m" for pat
    using Suc.IH that unfolding branch_ok_def by blast
  then show ?case unfolding decides_def pattern_match.simps by (blast intro: pm_body_glob)
qed

text \<open>C16: \<open>pattern_match\<close> decides the wildcard language. For a pattern with at most \<open>recur\<close> wildcard
  terms and fewer than 256 question marks, and any name, both terminated, the search returns, reads
  nothing behind the terminators, and answers whether the name is matched by the pattern: \<open>?\<close> stands
  for one character, \<open>*\<close> for any number of them, and letters match in either case.\<close>

theorem pattern_match_glob:
  assumes "0 \<notin> set pat" and "0 \<notin> set nam" and "qmarks pat < 256" and "wild_terms False pat \<le> recur"
  shows "pattern_match recur (pat @ [0]) (nam @ [0]) 0 = Some (glob pat nam)"
  using pattern_match_decides [of recur "[]" "[]", unfolded decides_def, rule_format,
      OF assms(1,2) _ assms(4), of 0 False] assms(3)
  by (simp add: run_code_def wild_run_def)

theorem pattern_match_glob_witness:
  \<comment> \<open>\<open>"r*?.c*"\<close> and \<open>"README.CFG"\<close>\<close>
  "pattern_match FIND_RECURS
     ([0x72, STAR, QMARK, DOT, 0x63, STAR] @ [0])
     ([0x52, 0x45, 0x41, 0x44, 0x4D, 0x45, DOT, 0x43, 0x46, 0x47] @ [0]) 0 = Some True"
  by (subst pattern_match_glob)
    (simp_all add: qmarks_def wild_def glob.simps oem_upper_def IsLower_def)

end
