(* ===== verification/FatSfn.thy ===== *)
theory FatSfn
  imports FatName
begin

text \<open>
  Short names. The lemmas say which arrays \<open>create_name\<close> can leave in the directory object
  (\<open>sfn_ok\<close>: a body of one to eight and an extension of up to three legal characters, upper case,
  each padded with spaces) and that the text \<open>get_fileinfo\<close> makes of such an entry is a path that
  \<open>create_name\<close> turns into the same array.
\<close>

section \<open>Well-formed short names\<close>

definition legal :: "byte \<Rightarrow> bool" where
  \<comment> \<open>a character that may stand in a short name and that the conversion keeps\<close>
  "legal c \<longleftrightarrow> 0x20 < c \<and> \<not> IsSeparator c \<and> c \<noteq> DOT \<and> c \<notin> set sfn_illegal \<and> \<not> IsLower c \<and>
     (0x80 \<le> c \<longrightarrow> ExCvt ! unat (c AND 0x7F) = c)"

definition padded :: "nat \<Rightarrow> nat \<Rightarrow> nat \<Rightarrow> byte list \<Rightarrow> bool" where
  \<comment> \<open>\<open>k\<close> legal characters in the field of \<open>n\<close> bytes from \<open>a\<close> on, then spaces\<close>
  "padded a n k s \<longleftrightarrow> k \<le> n \<and> (\<forall>j < k. legal (s ! (a + j))) \<and> (\<forall>j < n. k \<le> j \<longrightarrow> s ! (a + j) = 0x20)"

definition sfn_ok :: "byte list \<Rightarrow> bool" where
  "sfn_ok s \<longleftrightarrow> length s = 12 \<and> (\<exists>k \<le> 8. 1 \<le> k \<and> padded 0 8 k s) \<and> (\<exists>m \<le> 3. padded 8 3 m s)"

definition name_char :: "byte \<Rightarrow> byte" where
  \<comment> \<open>what \<open>create_name\<close> stores for a character\<close>
  "name_char c =
    (let d = (if c \<ge> 0x80 then ExCvt ! unat (c AND 0x7F) else c) in if IsLower d then d - 0x20 else d)"

text \<open>The conversion reaches its fixed points in one step; the table is checked entry by entry.\<close>

lemma ExCvt_legal: "list_all legal ExCvt"
  unfolding legal_def by (code_simp)

lemma name_char_legal:
  assumes "\<not> c \<le> 0x20" and "\<not> IsSeparator c" and "c \<noteq> DOT"
    and "(if c \<ge> 0x80 then ExCvt ! unat (c AND 0x7F) else c) \<notin> set sfn_illegal"
  shows "legal (name_char c)"
proof (cases "c \<ge> 0x80")
  case True
  have "c AND 0x7F \<le> 0x7F" by (rule word_and_le1)
  then have "unat (c AND 0x7F) < 128" by (simp add: word_le_nat_alt)
  then have "legal (ExCvt ! unat (c AND 0x7F))"
    using ExCvt_legal by (simp add: list_all_length ExCvt_def)
  with True show ?thesis by (simp add: name_char_def Let_def legal_def)
next
  case False
  show ?thesis
  proof (cases "IsLower c")
    case True
    then have "65 \<le> unat (c - 0x20)" "unat (c - 0x20) < 91"
      by (auto simp: IsLower_def unat_sub word_le_nat_alt)
    then have "unat (c - 0x20) \<in> set [65..<91]" by (simp only: set_upt atLeastLessThan_iff)
    then have "word_of_nat (unat (c - 0x20)) \<in> set (map word_of_nat [65..<91] :: byte list)"
      unfolding set_map by (rule imageI)
    moreover have "word_of_nat (unat x) = x" for x :: byte by simp
    ultimately have "c - 0x20 \<in> set (map word_of_nat [65..<91])" by (simp only:)
    moreover have "list_all legal (map word_of_nat [65..<91])" unfolding legal_def by code_simp
    ultimately show ?thesis using True False by (auto simp: name_char_def list_all_iff)
  next
    case f: False
    have "name_char c = c" using f False by (simp add: name_char_def)
    then show ?thesis using f False assms by (simp add: legal_def)
  qed
qed

lemma legal_keeps:
  assumes "legal c"
  shows "\<not> c \<le> 0x20" "\<not> IsSeparator c" "c \<noteq> DOT" "c \<noteq> 0x20" "c \<noteq> 0"
    "(if c \<ge> 0x80 then ExCvt ! unat (c AND 0x7F) else c) = c" "c \<notin> set sfn_illegal" "\<not> IsLower c"
    "c \<noteq> DDEM" "c \<noteq> RDDEM"
proof -
  show "c \<noteq> DDEM" using assms by (auto simp: legal_def ExCvt_def)
qed (use assms in \<open>auto simp: legal_def not_le\<close>)

section \<open>The array that a segment leaves\<close>

definition name_state :: "nat \<Rightarrow> nat \<Rightarrow> byte list \<Rightarrow> bool" where
  \<comment> \<open>the state of \<open>name_loop\<close>: \<open>i\<close>, \<open>ni\<close> and the array\<close>
  "name_state i ni s \<longleftrightarrow> length s = 12 \<and>
     (ni = 8 \<and> padded 0 8 i s \<and> padded 8 3 0 s \<or>
      ni = 11 \<and> 8 \<le> i \<and> (\<exists>k \<le> 8. 1 \<le> k \<and> padded 0 8 k s) \<and> padded 8 3 (i - 8) s)"

lemma padded_update:
  assumes "padded a n k s" and "k < n" and "legal c" and "a + n \<le> length s"
  shows "padded a n (Suc k) (s[a + k := c])"
  using assms by (auto simp: padded_def nth_list_update less_Suc_eq)

lemma padded_elsewhere:
  assumes "padded a n k s" and "i < a \<or> a + n \<le> i"
  shows "padded a n k (s[i := c])"
  using assms by (auto simp: padded_def)

lemma name_state_store:
  assumes "name_state i ni s" and "i < ni" and "legal c"
  shows "name_state (i + 1) ni (s[i := c])"
proof -
  consider (body) "ni = 8" "padded 0 8 i s" "padded 8 3 0 s" "length s = 12"
    | (ext) k where "ni = 11" "8 \<le> i" "k \<le> 8" "1 \<le> k" "padded 0 8 k s" "padded 8 3 (i - 8) s" "length s = 12"
    using assms(1) by (auto simp: name_state_def)
  then show ?thesis
  proof cases
    case body
    then show ?thesis
      using padded_update [of 0 8 i s c] padded_elsewhere [of 8 3 0 s i c] assms(2,3)
      by (simp add: name_state_def)
  next
    case ext
    have "padded 8 3 (Suc (i - 8)) (s[i := c])"
      using padded_update [of 8 3 "i - 8" s c] ext assms(2,3) by simp
    moreover have "padded 0 8 k (s[i := c])" using ext by (intro padded_elsewhere) auto
    moreover have "i + 1 - 8 = Suc (i - 8)" using ext by simp
    ultimately show ?thesis using ext by (auto simp: name_state_def)
  qed
qed

lemma name_loop_state:
  assumes "name_loop i ni s p = Some (FR_OK, c, i', s', r)" and "name_state i ni s"
    and "ni = 8 \<and> i = 0 \<longrightarrow> p \<noteq> [] \<and> hd p \<noteq> DOT"
  shows "\<exists>ni'. name_state i' ni' s' \<and> (c \<le> 0x20 \<or> IsSeparator c)"
  using assms
proof (induction i ni s p rule: name_loop.induct)
  case (2 i ni s c0 cs)
  let ?d = "if c0 \<ge> 0x80 then ExCvt ! unat (c0 AND 0x7F) else c0"
  consider (fin) "c0 \<le> 0x20" | (sep) "\<not> c0 \<le> 0x20" "IsSeparator c0"
    | (dot) "\<not> c0 \<le> 0x20" "\<not> IsSeparator c0" "c0 = DOT \<or> i \<ge> ni"
    | (char) "\<not> c0 \<le> 0x20" "\<not> IsSeparator c0" "\<not> (c0 = DOT \<or> i \<ge> ni)"
    by blast
  then show ?case
  proof cases
    case fin
    with 2(3) have "c = c0" "s' = s" "i' = i" by simp_all
    then show ?thesis using 2(4) fin by auto
  next
    case sep
    with 2(3) have "c = c0" "s' = s" "i' = i" by (auto split: bind_splits)
    then show ?thesis using 2(4) sep by auto
  next
    case dot
    then have d: "ni \<noteq> 11" "c0 = DOT" "name_loop 8 11 s cs = Some (FR_OK, c, i', s', r)"
      using 2(3) by (auto split: if_splits)
    then have "i \<noteq> 0" "name_state 8 11 s"
      using 2(4,5) by (auto simp: name_state_def padded_def)
    then show ?thesis using 2(1) [OF _ _ _ _ d(3)] dot d by auto
  next
    case char
    then have d: "?d \<notin> set sfn_illegal"
      "name_loop (i + 1) ni (s[i := name_char c0]) cs = Some (FR_OK, c, i', s', r)"
      using 2(3) by (auto simp: Let_def name_char_def split: if_splits)
    have "legal (name_char c0)" using name_char_legal [of c0] char d(1) by auto
    with name_state_store [OF 2(4)] char have "name_state (i + 1) ni (s[i := name_char c0])" by auto
    then show ?thesis using 2(2) [OF char refl d(1)] d(2) by (simp add: name_char_def Let_def)
  qed
qed simp

definition blank_name :: "byte list \<Rightarrow> byte list" where
  "blank_name fn0 = store_at 0 (replicate 11 0x20) fn0"

definition dot_name :: "nat \<Rightarrow> byte list" where
  \<comment> \<open>the array of \<open>.\<close> or \<open>..\<close>, without its status byte\<close>
  "dot_name n = replicate n DOT @ replicate (11 - n) 0x20"

lemma blank_name_state:
  assumes "length fn0 = 12"
  shows "name_state 0 8 (blank_name fn0)" and "length (blank_name fn0) = 12"
  using assms by (auto simp: name_state_def padded_def blank_name_def nth_store_at nth_Cons')

lemma blank_name_nth: "length fn0 = 12 \<Longrightarrow> i < 11 \<Longrightarrow> blank_name fn0 ! i = 0x20"
  by (simp add: blank_name_def nth_store_at)

lemma create_name_dot:
  "create_name (DOT # p) fn0 = Some x \<longleftrightarrow>
    (\<exists>c r s. dot_loop 0 (blank_name fn0) (DOT # p) = Some (c, r, s) \<and>
       x = (if \<not> IsSeparator c \<and> c > 0x20 then (FR_INVALID_NAME, s, DOT # p)
            else (FR_OK, s[NSFLAG := if c \<le> 0x20 then NS_LAST OR NS_DOT else NS_DOT], r)))"
  by (auto simp: create_name_def Let_def c_at_def blank_name_def split: prod.splits bind_splits)

lemma create_name_other:
  "p \<noteq> DOT \<Longrightarrow> create_name (p # ps) fn0 =
    do { (res, c, i, s, r) \<leftarrow> name_loop 0 8 (blank_name fn0) (p # ps);
         if res \<noteq> FR_OK then Some (res, s, p # ps)
         else if i = 0 then Some (FR_INVALID_NAME, s, r)
         else
           (let s = (if s ! 0 = DDEM then s[0 := RDDEM] else s) in
            if c \<le> 0x20 then Some (FR_OK, s[NSFLAG := NS_LAST], r)
            else do { d \<leftarrow> c_at r; Some (FR_OK, s[NSFLAG := if d \<le> 0x20 then NS_LAST else 0], r) }) }"
  by (simp add: create_name_def Let_def c_at_def blank_name_def)

lemma dot_loop_cases:
  assumes "dot_loop 0 s (DOT # p) = Some (c, r, s')" and "IsSeparator c \<or> c \<le> 0x20"
  shows "\<exists>n \<in> {1, 2}. s' = (if n = 1 then s[0 := DOT] else s[0 := DOT, 1 := DOT]) \<and>
    DOT # p = replicate n DOT @ c # r"
proof -
  have c: "c \<noteq> DOT" using assms(2) by (auto simp: IsSeparator_def)
  show ?thesis
  proof (cases p)
    case Nil with assms show ?thesis by simp
  next
    case (Cons c1 p1)
    show ?thesis
    proof (cases "c1 = DOT")
      case False
      with assms Cons show ?thesis by simp
    next
      case True
      with assms Cons c show ?thesis by (cases p1) (auto simp: numeral_2_eq_2)
    qed
  qed
qed

lemma sfn_ok_of_state:
  assumes "name_state i ni s" and "i \<noteq> 0"
  shows "sfn_ok s"
  using assms unfolding name_state_def sfn_ok_def
  by (auto simp: padded_def intro: exI [of _ i] exI [of _ 0] exI [of _ "i - 8"])

lemma sfn_ok_flag: "sfn_ok s \<Longrightarrow> sfn_ok (s[NSFLAG := f])"
  by (auto simp: sfn_ok_def padded_def)

lemma sfn_ok_first: "sfn_ok s \<Longrightarrow> legal (s ! 0)"
  by (auto simp: sfn_ok_def padded_def)

lemma suffix_skip_sep: "skip_sep p = Some r \<Longrightarrow> length r \<le> length p"
  by (induction p) (auto split: if_splits)

lemma name_loop_shorter:
  "name_loop i ni s p = Some (FR_OK, c, i', s', r) \<Longrightarrow> length r < length p"
  by (induction i ni s p rule: name_loop.induct)
    (auto simp: Let_def dest!: suffix_skip_sep split: if_splits bind_splits)

section \<open>From the entry to the text and back\<close>

lemma store_at_Cons:
  assumes "i + length b < length s"
  shows "store_at i (c # b) s = store_at (i + 1) b (s[i := c])"
  using assms by (intro nth_equalityI) (auto simp: nth_store_at nth_list_update nth_Cons')

lemma name_loop_legal:
  assumes "list_all legal b" and "i + length b \<le> ni" and "ni \<le> 11" and "length s = 12"
  shows "name_loop i ni s (b @ r) = name_loop (i + length b) ni (store_at i b s) r"
  using assms
proof (induction b arbitrary: i s)
  case (Cons c b)
  note l = legal_keeps [of c]
  have "name_loop i ni s ((c # b) @ r) = name_loop (i + 1) ni (s[i := c]) (b @ r)"
    using l Cons.prems by (simp add: Let_def)
  also have "\<dots> = name_loop (i + 1 + length b) ni (store_at (i + 1) b (s[i := c])) r"
    using Cons.prems by (intro Cons.IH) auto
  finally show ?case using Cons.prems by (simp add: store_at_Cons)
qed simp

lemma sfn_text_legal:
  assumes "list_all legal b" and "i + length b \<le> 8 \<or> 9 \<le> i"
  shows "sfn_text i (b @ r) = b @ sfn_text (i + length b) r"
  using assms
proof (induction b arbitrary: i)
  case (Cons c b)
  with legal_keeps [of c] show ?case by auto
qed simp

lemma sfn_text_ext:
  assumes "list_all legal e" and "e \<noteq> []"
  shows "sfn_text 8 (e @ r) = DOT # e @ sfn_text (8 + length e) r"
  using assms sfn_text_legal [of "tl e" 9 r] legal_keeps [of "hd e"]
  by (cases e) auto

lemma sfn_text_spaces: "sfn_text i (replicate n 0x20 @ r) = sfn_text (i + n) r"
  by (induction n arbitrary: i) simp_all

lemma padded_split:
  assumes "padded a n k s" and "a + n \<le> length s"
  shows "take n (drop a s) = take k (drop a s) @ replicate (n - k) 0x20"
    and "list_all legal (take k (drop a s))" and "length (take k (drop a s)) = k"
  using assms
  by (auto simp: padded_def list_all_length nth_append intro!: nth_equalityI)

lemma sfn_ok_split:
  assumes "sfn_ok s"
  obtains b e where "take 11 s = b @ replicate (8 - length b) 0x20 @ e @ replicate (3 - length e) 0x20"
    and "list_all legal b" and "list_all legal e" and "b \<noteq> []" and "length b \<le> 8" and "length e \<le> 3"
proof -
  obtain k m where k: "length s = 12" "k \<le> 8" "1 \<le> k" "padded 0 8 k s" "m \<le> 3" "padded 8 3 m s"
    using assms by (auto simp: sfn_ok_def)
  note b = padded_split [OF k(4)] and e = padded_split [OF k(6)]
  have "take 11 s = take 8 (drop 0 s) @ take 3 (drop 8 s)"
    using take_add [of 8 3 s] by simp
  also have "\<dots> = take k s @ replicate (8 - k) 0x20 @ take m (drop 8 s) @ replicate (3 - m) 0x20"
    unfolding b(1) e(1) using b(1) e(1) k(1) by simp
  finally show ?thesis
    using that [of "take k s" "take m (drop 8 s)"] b e k by (cases s) auto
qed

lemma sfn_text_ok:
  assumes "list_all legal b" and "list_all legal e" and "length b \<le> 8" and "length e \<le> 3"
  shows "sfn_text 0 (b @ replicate (8 - length b) 0x20 @ e @ replicate (3 - length e) 0x20) =
    b @ (if e = [] then [] else DOT # e)"
  using assms sfn_text_spaces [of _ _ "[]", simplified]
  by (cases "e = []") (simp_all add: sfn_text_legal sfn_text_spaces sfn_text_ext)

lemma create_name_text:
  assumes "sfn_ok s" and "length fn0 = 12"
  shows "create_name (sfn_text 0 (take 11 s) @ [0]) fn0 = Some (FR_OK, take 11 s @ [NS_LAST], [])"
proof -
  obtain b e where s: "take 11 s = b @ replicate (8 - length b) 0x20 @ e @ replicate (3 - length e) 0x20"
    and be: "list_all legal b" "list_all legal e" "b \<noteq> []" "length b \<le> 8" "length e \<le> 3"
    by (rule sfn_ok_split [OF assms(1)])
  let ?s0 = "blank_name fn0" and ?tail = "(if e = [] then [] else DOT # e) @ [0]"
  let ?s1 = "store_at 0 b ?s0"
  let ?s2 = "store_at 8 e ?s1"
  have len: "length ?s0 = 12" using assms(2) by (rule blank_name_state(2))
  then have len2: "length ?s1 = 12" "length ?s2 = 12" using be by simp_all
  obtain c b' where b: "b = c # b'" using be(3) by (cases b) auto
  have "legal c" using be(1) b by simp
  note c = legal_keeps [OF this]
  have loop: "name_loop 0 8 ?s0 (b @ ?tail) =
      Some (FR_OK, 0, if e = [] then length b else 8 + length e, ?s2, [])"
  proof (cases "e = []")
    case True
    then show ?thesis using name_loop_legal [OF be(1) _ _ len, of 0 8 "?tail"] be(4) by simp
  next
    case False
    have "name_loop (length b) 8 ?s1 (DOT # e @ [0]) = name_loop 8 11 ?s1 (e @ [0])"
      by (simp add: IsSeparator_def)
    also have "\<dots> = Some (FR_OK, 0, 8 + length e, ?s2, [])"
      using name_loop_legal [OF be(2) _ _ len2(1), of 8 11 "[0]"] be(5) by simp
    finally show ?thesis
      using name_loop_legal [OF be(1) _ _ len, of 0 8 "?tail"] be(4) False by simp
  qed
  have s2: "take 11 ?s2 = take 11 s"
    unfolding s using be len len2 assms(2)
    by (intro nth_equalityI)
      (auto simp: nth_store_at nth_append blank_name_def nth_Cons')
  have first: "?s2 ! 0 = c" using be b len len2 by (auto simp: nth_store_at)
  have upd: "?s2[NSFLAG := NS_LAST] = take 11 ?s2 @ [NS_LAST]"
    using len2 by (simp add: upd_conv_take_nth_drop)
  have "create_name (c # b' @ ?tail) fn0 = Some (FR_OK, ?s2[NSFLAG := NS_LAST], [])"
    using loop be(3) c(3,9) first unfolding b
    by (subst create_name_other) (auto simp: Let_def)
  then show ?thesis unfolding s sfn_text_ok [OF be(1,2,4,5)] upd s2 using b s by simp
qed

section \<open>Properties of names\<close>

text \<open>C19: the type of \<open>fn\<close>. When \<open>create_name\<close> accepts a segment, the array it leaves is either a
  short name, a body of one to eight and an extension of up to three legal upper-case characters,
  each padded with spaces, with the status byte 0 or \<open>NS_LAST\<close>, or the name of a dot entry with its
  status; and the path has become shorter, so the loop that follows a path ends.\<close>

theorem create_name_type:
  assumes "create_name path fn0 = Some (FR_OK, s, rest)" and "length fn0 = 12"
  shows "(sfn_ok s \<and> s ! NSFLAG \<in> {0, NS_LAST} \<or>
     (\<exists>n \<in> {1, 2}. take 11 s = dot_name n \<and> length s = 12 \<and> s ! NSFLAG \<in> {NS_DOT, NS_LAST OR NS_DOT})) \<and>
     length rest < length path"
proof -
  obtain p ps where path: "path = p # ps"
    using assms(1) by (cases path) (auto simp: create_name_def c_at_def)
  note blank = blank_name_state [OF assms(2)]
  show ?thesis
  proof (cases "p = DOT")
    case True
    obtain c s1 where d: "dot_loop 0 (blank_name fn0) (DOT # ps) = Some (c, rest, s1)"
        "IsSeparator c \<or> c \<le> 0x20" "\<exists>f \<in> {NS_DOT, NS_LAST OR NS_DOT}. s = s1[NSFLAG := f]"
    proof -
      obtain c s1 where d: "dot_loop 0 (blank_name fn0) (DOT # ps) = Some (c, rest, s1)"
        "IsSeparator c \<or> c \<le> 0x20" "s = s1[NSFLAG := if c \<le> 0x20 then NS_LAST OR NS_DOT else NS_DOT]"
        using assms(1) unfolding path True create_name_dot not_le [symmetric]
        by (metis fresult.distinct(11) prod.inject)
      then show thesis by (intro that [OF d(1,2)]) auto
    qed
    obtain n where n: "n \<in> {1, 2}" "DOT # ps = replicate n DOT @ c # rest"
        "s1 = (if n = 1 then (blank_name fn0)[0 := DOT] else (blank_name fn0)[0 := DOT, 1 := DOT])"
      using dot_loop_cases [OF d(1,2)] by blast
    have "take 11 s = dot_name n"
      using n(1,3) blank(2) d(3)
      by (intro nth_equalityI)
        (auto simp: dot_name_def blank_name_nth [OF assms(2)] nth_list_update nth_append nth_Cons'
          split: if_splits)
    moreover have "length s = 12" "s ! NSFLAG \<in> {NS_DOT, NS_LAST OR NS_DOT}"
      using d(3) n(3) blank(2) by auto
    moreover have "length rest < length path"
      using arg_cong [OF n(2), of length] n(1) path True by auto
    ultimately show ?thesis using n(1) by blast
  next
    case False
    obtain c i s1 where l: "name_loop 0 8 (blank_name fn0) (p # ps) = Some (FR_OK, c, i, s1, rest)" "i \<noteq> 0"
        "\<exists>f \<in> {0, NS_LAST}. s = (if s1 ! 0 = DDEM then s1[0 := RDDEM] else s1)[NSFLAG := f]"
      using assms(1) unfolding path create_name_other [OF False]
      by (auto simp: Let_def split: if_splits bind_splits prod.splits)
    from name_loop_state [OF l(1) blank(1)] False obtain ni where "name_state i ni s1" by auto
    then have ok: "sfn_ok s1" using l(2) by (rule sfn_ok_of_state)
    with sfn_ok_first legal_keeps(9) have "s1 ! 0 \<noteq> DDEM" by blast
    with l(3) ok have "sfn_ok s \<and> s ! NSFLAG \<in> {0, NS_LAST}"
      using sfn_ok_flag [OF ok] by (auto simp: sfn_ok_def [of s1])
    moreover have "length rest < length path"
      using name_loop_shorter [OF l(1)] path by simp
    ultimately show ?thesis by blast
  qed
qed

theorem create_name_type_witness:
  \<comment> \<open>\<open>"etc/x"\<close>\<close>
  "let s = [0x45, 0x54, 0x43, 0x20, 0x20, 0x20, 0x20, 0x20, 0x20, 0x20, 0x20, 0] in
   create_name [0x65, 0x74, 0x63, 0x2F, 0x78, 0] (replicate 12 0) = Some (FR_OK, s, [0x78, 0]) \<and>
   (sfn_ok s \<or> (\<exists>n \<in> {1, 2}. take 11 s = dot_name n))"
proof -
  have "create_name [0x65, 0x74, 0x63, 0x2F, 0x78, 0] (replicate 12 0) =
      Some (FR_OK, [0x45, 0x54, 0x43, 0x20, 0x20, 0x20, 0x20, 0x20, 0x20, 0x20, 0x20, 0], [0x78, 0])"
    by code_simp
  from create_name_type [OF this] this show ?thesis by (auto simp: Let_def)
qed

text \<open>C17: names read from a directory open the entry they came from. The text that \<open>get_fileinfo\<close> makes
  of a well-formed short name, used as a path, is turned back into the same eleven bytes, with the
  status \<open>NS_LAST\<close>; nothing of the path is left, and the old contents of \<open>fn\<close> do not matter.\<close>

theorem create_name_round_trip:
  assumes "sfn_ok s" and "length fn0 = 12" and "dsect dp \<noteq> 0"
    and "take 11 (drop (ddir dp) (win fs)) = take 11 s"
  shows "create_name (fi_fname (get_fileinfo dp fs fno) @ [0]) fn0 =
    Some (FR_OK, take 11 s @ [NS_LAST], [])"
  using create_name_text [OF assms(1,2)] assms(3,4) by (simp add: get_fileinfo_def)

theorem create_name_round_trip_witness:
  \<comment> \<open>the entry of \<open>A.BC\<close> at offset 32 of a sector\<close>
  "let s = [0x41, 0x20, 0x20, 0x20, 0x20, 0x20, 0x20, 0x20, 0x42, 0x43, 0x20, 0];
       fs = (undefined :: unit fatfs)\<lparr>win := replicate 32 0 @ s @ replicate 468 0\<rparr>;
       dp = undefined\<lparr>dsect := 7, ddir := 32\<rparr>
   in \<forall>fno. create_name (fi_fname (get_fileinfo dp fs fno) @ [0]) (replicate 12 0) =
        Some (FR_OK, take 11 s @ [NS_LAST], [])"
proof -
  let ?s = "[0x41, 0x20, 0x20, 0x20, 0x20, 0x20, 0x20, 0x20, 0x42, 0x43, 0x20, 0] :: byte list"
  have "sfn_ok ?s" by code_simp
  then show ?thesis
    unfolding Let_def by (intro allI create_name_round_trip) simp_all
qed

end
