(* ===== verification/FatShare.thy ===== *)
theory FatShare
  imports FatDir
begin

text \<open>
  The table of open files (\<^verbatim>\<open>ff.c\<close>: \<open>chk_share\<close>, \<open>enq_share\<close>, \<open>inc_share\<close>, \<open>dec_share\<close>,
  \<open>clear_share\<close>), and the discipline it enforces. The table \<open>Files\<close> is a list, of length \<^verbatim>\<open>FF_FS_LOCK\<close>, which is 1 in this
  configuration; the functions are stated for every length. There is one volume, so the pointer
  \<open>fs\<close> of an entry is a Boolean: the entry is in use.
\<close>

record filesem =
  sem_fs :: bool
  sem_clu :: u32
  sem_ofs :: u32
  sem_ctr :: u32   \<comment> \<open>number of readers, 0x100 for a writer\<close>

definition sem_is :: "ffdir \<Rightarrow> filesem \<Rightarrow> bool" where
  \<comment> \<open>the entry is the object that the directory object points to\<close>
  "sem_is dp e \<longleftrightarrow> sem_fs e = obj_fs (dobj dp) \<and> sem_clu e = sclust (dobj dp) \<and> sem_ofs e = dptr dp"

fun find_from :: "nat \<Rightarrow> (filesem \<Rightarrow> bool) \<Rightarrow> filesem list \<Rightarrow> nat" where
  \<comment> \<open>the index at which \<open>for (i = 0; i < FF_FS_LOCK; i++) if (...) break;\<close> ends\<close>
  "find_from i P [] = i"
| "find_from i P (e # es) = (if P e then i else find_from (i + 1) P es)"

definition chk_share :: "filesem list \<Rightarrow> ffdir \<Rightarrow> nat \<Rightarrow> fresult" where
  \<comment> \<open>\<open>acc\<close>: 0 read, 1 write, 2 delete or rename\<close>
  "chk_share Files dp acc =
    (let i = find_from 0 (\<lambda>e. sem_fs e \<and> sem_is dp e) Files;
         be = list_ex (\<lambda>e. \<not> sem_fs e) Files
     in if i = length Files then (if \<not> be \<and> acc \<noteq> 2 then FR_TOO_MANY_OPEN_FILES else FR_OK)
        else if acc \<noteq> 0 \<or> sem_ctr (Files ! i) = 0x100 then FR_LOCKED else FR_OK)"

definition enq_share :: "filesem list \<Rightarrow> bool" where
  "enq_share Files = (find_from 0 (\<lambda>e. \<not> sem_fs e) Files \<noteq> length Files)"

definition inc_share :: "filesem list \<Rightarrow> ffdir \<Rightarrow> nat \<Rightarrow> u32 \<times> filesem list" where
  \<comment> \<open>the index from 1, or 0 for an internal error\<close>
  "inc_share Files dp acc =
    (let i = find_from 0 (sem_is dp) Files;
         j = (if i = length Files then find_from 0 (\<lambda>e. \<not> sem_fs e) Files else i)
     in if j = length Files then (0, Files)
        else
          (let Files1 = (if i = length Files
                         then Files[j := \<lparr>sem_fs = obj_fs (dobj dp), sem_clu = sclust (dobj dp),
                                          sem_ofs = dptr dp, sem_ctr = 0\<rparr>]
                         else Files)
           in if acc \<ge> 1 \<and> sem_ctr (Files1 ! j) \<noteq> 0 then (0, Files1)
              else (of_nat j + 1,
                    Files1[j := (Files1 ! j)\<lparr>sem_ctr := if acc \<noteq> 0 then 0x100
                                                        else sem_ctr (Files1 ! j) + 1\<rparr>])))"

definition dec_share :: "filesem list \<Rightarrow> u32 \<Rightarrow> fresult \<times> filesem list" where
  "dec_share Files i =
    (let i = i - 1 in
     if unat i < length Files then
       (let e = Files ! unat i;
            n = (if sem_ctr e = 0x100 then 0 else sem_ctr e);
            n = (if n > 0 then n - 1 else n)
        in (FR_OK, Files[unat i := e\<lparr>sem_ctr := n, sem_fs := (if n = 0 then False else sem_fs e)\<rparr>]))
     else (FR_INT_ERR, Files))"

definition clear_share :: "filesem list \<Rightarrow> filesem list" where
  "clear_share Files = map (\<lambda>e. e\<lparr>sem_fs := False\<rparr>) Files"

section \<open>Handles\<close>

text \<open>
  \<open>share_open\<close> is what \<open>f_open\<close> does with the table for an object that exists: \<open>chk_share\<close>, then
  \<open>inc_share\<close>. (\<open>f_opendir\<close> calls \<open>inc_share\<close> alone, for reading, and answers
  \<open>FR_TOO_MANY_OPEN_FILES\<close> to every refusal; it is modelled in \<open>FatApi\<close>.) A handle is an open object; \<open>share_reach\<close> has the tables and handles that any sequence of openings and
  closings reaches. The counter of an entry has room for 255 readers: the next one would turn it
  into the mark of a writer, so a step that adds a reader is taken with fewer readers open.
\<close>

definition share_open :: "filesem list \<Rightarrow> ffdir \<Rightarrow> bool \<Rightarrow> (fresult + u32) \<times> filesem list" where
  "share_open Files dp w =
    (case chk_share Files dp (if w then 1 else 0) of
       FR_OK \<Rightarrow>
         (case inc_share Files dp (if w then 1 else 0) of
            (i, Files') \<Rightarrow> (if i = 0 then Inl FR_INT_ERR else Inr i, Files'))
     | e \<Rightarrow> (Inl e, Files))"

record handle =
  h_id :: u32
  h_clu :: u32
  h_ofs :: u32
  h_write :: bool

inductive share_reach :: "nat \<Rightarrow> filesem list \<Rightarrow> handle list \<Rightarrow> bool" for n where
  mounted: "length F = n \<Longrightarrow> n < 2 ^ 32 \<Longrightarrow> share_reach n (clear_share F) []"
| opened: "share_reach n F hs \<Longrightarrow> obj_fs (dobj dp) \<Longrightarrow> length hs < 255 \<Longrightarrow>
    share_open F dp w = (Inr i, F') \<Longrightarrow>
    share_reach n F' (\<lparr>h_id = i, h_clu = sclust (dobj dp), h_ofs = dptr dp, h_write = w\<rparr> # hs)"
| closed: "share_reach n F (us @ h # vs) \<Longrightarrow> dec_share F (h_id h) = (FR_OK, F') \<Longrightarrow>
    share_reach n F' (us @ vs)"

definition at_entry :: "nat \<Rightarrow> handle list \<Rightarrow> handle list" where
  "at_entry i hs = filter (\<lambda>h. unat (h_id h) = i + 1) hs"

definition entry_inv :: "filesem \<Rightarrow> handle list \<Rightarrow> bool" where
  \<comment> \<open>an entry and the handles on it\<close>
  "entry_inv e m \<longleftrightarrow>
     (if sem_fs e
      then m \<noteq> [] \<and> (\<forall>h \<in> set m. h_clu h = sem_clu e \<and> h_ofs h = sem_ofs e) \<and>
        (if sem_ctr e = 0x100 then length m = 1 \<and> h_write (hd m)
         else unat (sem_ctr e) = length m \<and> (\<forall>h \<in> set m. \<not> h_write h))
      else m = [])"

definition share_inv :: "nat \<Rightarrow> filesem list \<Rightarrow> handle list \<Rightarrow> bool" where
  "share_inv n F hs \<longleftrightarrow> length F = n \<and> n < 2 ^ 32 \<and> length hs < 256 \<and>
     (\<forall>h \<in> set hs. 0 < unat (h_id h) \<and> unat (h_id h) \<le> n) \<and>
     (\<forall>i < n. entry_inv (F ! i) (at_entry i hs)) \<and>
     (\<forall>i < n. \<forall>j < n. sem_fs (F ! i) \<and> sem_fs (F ! j) \<and> sem_clu (F ! i) = sem_clu (F ! j) \<and>
        sem_ofs (F ! i) = sem_ofs (F ! j) \<longrightarrow> i = j)"

lemma find_from_spec:
  "find_from k P xs = (if \<exists>x \<in> set xs. P x then k + length (takeWhile (\<lambda>x. \<not> P x) xs) else k + length xs)"
  by (induction xs arbitrary: k) auto

lemma find_from_cases:
  obtains "find_from 0 P xs = length xs" "\<forall>x \<in> set xs. \<not> P x"
  | "find_from 0 P xs < length xs" "P (xs ! find_from 0 P xs)"
proof (cases "\<exists>x \<in> set xs. P x")
  case True
  then have "length (takeWhile (\<lambda>x. \<not> P x) xs) < length xs" by (induction xs) auto
  with True nth_length_takeWhile [OF this] show ?thesis by (intro that(2)) (auto simp: find_from_spec)
qed (auto intro: that(1) simp: find_from_spec)

definition key_of :: "ffdir \<Rightarrow> u32 \<times> u32" where
  "key_of dp = (sclust (dobj dp), dptr dp)"

definition holders :: "u32 \<times> u32 \<Rightarrow> handle list \<Rightarrow> handle list" where
  "holders k hs = filter (\<lambda>h. (h_clu h, h_ofs h) = k) hs"

lemma share_inv_keys:
  assumes "share_inv n F hs" and "i < n" and "j < n" and "sem_fs (F ! i)" and "sem_fs (F ! j)"
    and "(sem_clu (F ! i), sem_ofs (F ! i)) = (sem_clu (F ! j), sem_ofs (F ! j))"
  shows "i = j"
  using assms unfolding share_inv_def by (metis prod.inject)

lemma holders_entry:
  assumes "share_inv n F hs" and "i < n" and "sem_fs (F ! i)"
  shows "holders (sem_clu (F ! i), sem_ofs (F ! i)) hs = at_entry i hs"
proof -
  have "(h_clu h, h_ofs h) = (sem_clu (F ! i), sem_ofs (F ! i)) \<longleftrightarrow> unat (h_id h) = i + 1"
    if h: "h \<in> set hs" for h
  proof -
    let ?j = "unat (h_id h) - 1"
    have j: "?j < n" "h \<in> set (at_entry ?j hs)" "unat (h_id h) = ?j + 1"
      using assms(1) h by (auto simp: share_inv_def at_entry_def)
    have "entry_inv (F ! ?j) (at_entry ?j hs)" using assms(1) j(1) by (simp add: share_inv_def)
    with j(2) have e: "sem_fs (F ! ?j)" "h_clu h = sem_clu (F ! ?j)" "h_ofs h = sem_ofs (F ! ?j)"
      by (auto simp: entry_inv_def split: if_splits)
    have "sem_clu (F ! ?j) = sem_clu (F ! i) \<and> sem_ofs (F ! ?j) = sem_ofs (F ! i) \<longleftrightarrow> ?j = i"
      using assms j(1) e(1) by (auto simp: share_inv_def)
    with e j(3) show ?thesis by auto
  qed
  then show ?thesis unfolding holders_def at_entry_def by (auto intro: filter_cong)
qed

lemma holders_none:
  assumes "share_inv n F hs" and "\<forall>e \<in> set F. \<not> (sem_fs e \<and> (sem_clu e, sem_ofs e) = k)"
  shows "holders k hs = []"
proof -
  have "(h_clu h, h_ofs h) \<noteq> k" if h: "h \<in> set hs" for h
  proof -
    let ?j = "unat (h_id h) - 1"
    have j: "?j < n" "h \<in> set (at_entry ?j hs)" "length F = n"
      using assms(1) h by (auto simp: share_inv_def at_entry_def)
    have "entry_inv (F ! ?j) (at_entry ?j hs)" using assms(1) j(1) by (simp add: share_inv_def)
    with j(2) have "sem_fs (F ! ?j)" "h_clu h = sem_clu (F ! ?j)" "h_ofs h = sem_ofs (F ! ?j)"
      by (auto simp: entry_inv_def split: if_splits)
    moreover have "F ! ?j \<in> set F" using j by simp
    ultimately show ?thesis using assms(2) by auto
  qed
  then show ?thesis by (auto simp: holders_def filter_empty_conv)
qed

lemma sem_is_key: "obj_fs (dobj dp) \<Longrightarrow> sem_is dp e \<longleftrightarrow> sem_fs e \<and> (sem_clu e, sem_ofs e) = key_of dp"
  by (auto simp: sem_is_def key_of_def)

definition new_handle :: "ffdir \<Rightarrow> u32 \<Rightarrow> bool \<Rightarrow> handle" where
  "new_handle dp i w = \<lparr>h_id = i, h_clu = sclust (dobj dp), h_ofs = dptr dp, h_write = w\<rparr>"

lemma at_entry_Cons:
  "at_entry i (h # hs) = (if unat (h_id h) = i + 1 then h # at_entry i hs else at_entry i hs)"
  by (simp add: at_entry_def)

lemma handle_id: "i + 1 < 2 ^ 32 \<Longrightarrow> unat (of_nat i + 1 :: u32) = i + 1"
  using u32_of_nat [of "i + 1"] by (simp add: add.commute)

lemma share_inv_update:
  assumes "share_inv n F hs" and "i < n" and "length hs < 255"
    and "entry_inv e (new_handle dp (of_nat i + 1) w # at_entry i hs)"
    and "sem_fs e" and "(sem_clu e, sem_ofs e) = key_of dp"
    and "\<forall>j < n. sem_fs (F ! j) \<longrightarrow> (sem_clu (F ! j), sem_ofs (F ! j)) = key_of dp \<longrightarrow> j = i"
  shows "share_inv n (F[i := e]) (new_handle dp (of_nat i + 1) w # hs)"
proof -
  have n: "length F = n" "n < 2 ^ 32" using assms(1) by (auto simp: share_inv_def)
  have id: "unat (of_nat i + 1 :: u32) = i + 1" using assms(2) n(2) by (intro handle_id) simp
  have e: "entry_inv (F[i := e] ! j) (at_entry j (new_handle dp (of_nat i + 1) w # hs))" if "j < n" for j
    using assms(1,2,4) that n(1) id
    by (cases "j = i") (auto simp: at_entry_Cons new_handle_def share_inv_def)
  have d: "j = k"
    if "j < n" "k < n" "sem_fs (F[i := e] ! j)" "sem_fs (F[i := e] ! k)"
      "sem_clu (F[i := e] ! j) = sem_clu (F[i := e] ! k)" "sem_ofs (F[i := e] ! j) = sem_ofs (F[i := e] ! k)" for j k
  proof (cases "j = i \<or> k = i")
    case True
    have other: "l = i" if "l < n" "l \<noteq> i" "sem_fs (F[i := e] ! l)"
        "(sem_clu (F[i := e] ! l), sem_ofs (F[i := e] ! l)) = key_of dp" for l
      using that assms(7) by simp
    have "F[i := e] ! i = e" using assms(2) n(1) by simp
    note ei = this
    show ?thesis
    proof (cases "j = i")
      case True
      then have "(sem_clu (F[i := e] ! k), sem_ofs (F[i := e] ! k)) = key_of dp"
        using that(5,6) assms(6) ei by simp
      then show ?thesis using other [OF that(2) _ that(4)] True by blast
    next
      case False
      then have "k = i" using True by simp
      then have "(sem_clu (F[i := e] ! j), sem_ofs (F[i := e] ! j)) = key_of dp"
        using that(5,6) assms(6) ei by simp
      then show ?thesis using other [OF that(1) _ that(3)] False by blast
    qed
  next
    case False
    then have "F[i := e] ! j = F ! j" "F[i := e] ! k = F ! k" by auto
    moreover have "\<forall>i < n. \<forall>j < n. sem_fs (F ! i) \<and> sem_fs (F ! j) \<and> sem_clu (F ! i) = sem_clu (F ! j) \<and>
        sem_ofs (F ! i) = sem_ofs (F ! j) \<longrightarrow> i = j"
      using assms(1) unfolding share_inv_def by blast
    ultimately show ?thesis using that by metis
  qed
  have h: "0 < unat (h_id h) \<and> unat (h_id h) \<le> n" if "h \<in> set (new_handle dp (of_nat i + 1) w # hs)" for h
    using that assms(1,2) id by (auto simp: share_inv_def new_handle_def)
  have A: "\<forall>h \<in> set (new_handle dp (of_nat i + 1) w # hs). 0 < unat (h_id h) \<and> unat (h_id h) \<le> n"
    using h by blast
  have B: "\<forall>j < n. entry_inv (F[i := e] ! j) (at_entry j (new_handle dp (of_nat i + 1) w # hs))"
    using e by blast
  have C: "\<forall>j < n. \<forall>k < n. sem_fs (F[i := e] ! j) \<and> sem_fs (F[i := e] ! k) \<and>
      sem_clu (F[i := e] ! j) = sem_clu (F[i := e] ! k) \<and>
      sem_ofs (F[i := e] ! j) = sem_ofs (F[i := e] ! k) \<longrightarrow> j = k"
    using d by blast
  show ?thesis unfolding share_inv_def
    by (intro conjI A B C) (use n assms(3) in simp_all)
qed

lemma share_open_spec:
  assumes "share_inv n F hs" and "obj_fs (dobj dp)"
  shows "if holders (key_of dp) hs \<noteq> [] \<and> (w \<or> (\<exists>h \<in> set (holders (key_of dp) hs). h_write h))
      then share_open F dp w = (Inl FR_LOCKED, F)
    else if holders (key_of dp) hs = [] \<and> (\<forall>e \<in> set F. sem_fs e)
      then share_open F dp w = (Inl FR_TOO_MANY_OPEN_FILES, F)
    else length hs < 255 \<longrightarrow> (\<exists>i F'. share_open F dp w = (Inr i, F') \<and> share_inv n F' (new_handle dp i w # hs))"
proof -
  let ?i = "find_from 0 (sem_is dp) F"
  note key = sem_is_key [OF assms(2)]
  have P: "(\<lambda>e. sem_fs e \<and> sem_is dp e) = sem_is dp" using key by auto
  have n: "length F = n" "n < 2 ^ 32" using assms(1) by (auto simp: share_inv_def)
  {
    assume i: "?i < length F" "sem_is dp (F ! ?i)"
    let ?e = "F ! ?i" and ?m = "at_entry ?i hs"
    have m: "holders (key_of dp) hs = ?m" "sem_fs ?e"
      using holders_entry [OF assms(1), of ?i] i n key by auto
    have inv: "entry_inv ?e ?m" using assms(1) i n by (simp add: share_inv_def)
    have c: "sem_ctr ?e = 0x100 \<longleftrightarrow> (\<exists>h \<in> set ?m. h_write h)" "?m \<noteq> []"
      using inv m(2) by (auto simp: entry_inv_def split: if_splits)
    have ?thesis
    proof (cases "w \<or> (\<exists>h \<in> set ?m. h_write h)")
      case True
      then have "share_open F dp w = (Inl FR_LOCKED, F)"
        using c i by (auto simp: share_open_def chk_share_def Let_def P)
      with True m(1) c(2) show ?thesis by simp
    next
      case False
      have q: "unat (sem_ctr ?e) = length ?m" "\<forall>h \<in> set ?m. \<not> h_write h"
      proof -
        have "sem_ctr ?e \<noteq> 0x100" using c(1) False by blast
        then show "unat (sem_ctr ?e) = length ?m" "\<forall>h \<in> set ?m. \<not> h_write h"
          using inv m(2) unfolding entry_inv_def by presburger+
      qed
      show ?thesis
      proof (cases "length hs < 255")
        case l: True
        have le: "length ?m < 255" unfolding at_entry_def by (rule le_less_trans [OF length_filter_le l])
        have add: "unat (sem_ctr ?e + 1) = length ?m + 1"
          using q(1) le u32_add1 [of "sem_ctr ?e"] by simp
        have ne: "sem_ctr ?e + 1 \<noteq> 0x100"
        proof
          assume "sem_ctr ?e + 1 = 0x100"
          then have "unat (sem_ctr ?e + 1) = 256" by simp
          with add le show False by simp
        qed
        let ?e' = "?e\<lparr>sem_ctr := sem_ctr ?e + 1\<rparr>"
        have ev: "entry_inv ?e' (new_handle dp (of_nat ?i + 1) w # ?m)"
          using inv m(2) c(1) False q ne add i(2) key
          by (auto simp: entry_inv_def new_handle_def key_of_def)
        have un: "\<forall>j < n. sem_fs (F ! j) \<longrightarrow> (sem_clu (F ! j), sem_ofs (F ! j)) = key_of dp \<longrightarrow> j = ?i"
        proof (intro allI impI)
          fix j assume j: "j < n" "sem_fs (F ! j)" "(sem_clu (F ! j), sem_ofs (F ! j)) = key_of dp"
          have "sem_fs ?e" "(sem_clu ?e, sem_ofs ?e) = key_of dp" using i(2) key by simp_all
          with j i(1) n(1) show "j = ?i" by (intro share_inv_keys [OF assms(1)]) simp_all
        qed
        have "(sem_clu ?e', sem_ofs ?e') = key_of dp" "sem_fs ?e'" "?i < n"
          using i key n(1) by simp_all
        then have "share_inv n (F[?i := ?e']) (new_handle dp (of_nat ?i + 1) w # hs)"
          by (intro share_inv_update [OF assms(1) _ l ev _ _ un])
        moreover have "(of_nat ?i + 1 :: u32) \<noteq> 0"
          using handle_id [of ?i] i n by auto
        moreover have "share_open F dp w = (Inr (of_nat ?i + 1), F[?i := ?e'])"
        proof -
          have "\<not> w" "sem_ctr ?e \<noteq> 0x100" using False c(1) by auto
          moreover have "chk_share F dp 0 = FR_OK"
            unfolding chk_share_def P Let_def using i(1) \<open>sem_ctr ?e \<noteq> 0x100\<close> by simp
          moreover have "inc_share F dp 0 = (of_nat ?i + 1, F[?i := ?e'])"
            unfolding inc_share_def Let_def using i(1) by simp
          ultimately show ?thesis using \<open>(of_nat ?i + 1 :: u32) \<noteq> 0\<close> by (simp add: share_open_def)
        qed
        ultimately have "\<exists>i F'. share_open F dp w = (Inr i, F') \<and> share_inv n F' (new_handle dp i w # hs)"
          by blast
        with False c(2) m(1) show ?thesis by simp
      next
        case False
        then show ?thesis using \<open>\<not> (w \<or> (\<exists>h \<in> set ?m. h_write h))\<close> m(1) c(2) by simp
      qed
    qed
  } note found = this
  {
    assume no: "?i = length F" "\<forall>e \<in> set F. \<not> sem_is dp e"
    then have m: "holders (key_of dp) hs = []" using holders_none [OF assms(1)] key by blast
    let ?j = "find_from 0 (\<lambda>e. \<not> sem_fs e) F"
    have ?thesis
    proof (rule find_from_cases [of "\<lambda>e. \<not> sem_fs e" F])
      assume full: "?j = length F" "\<forall>e \<in> set F. \<not> \<not> sem_fs e"
      then have "\<not> list_ex (\<lambda>e. \<not> sem_fs e) F" by (auto simp: list_ex_iff)
      then have "share_open F dp w = (Inl FR_TOO_MANY_OPEN_FILES, F)"
        using no(1) by (simp add: share_open_def chk_share_def P)
      with m full(2) show ?thesis by simp
    next
      assume free: "?j < length F" "\<not> sem_fs (F ! ?j)"
      then have f: "list_ex (\<lambda>e. \<not> sem_fs e) F" "\<not> (\<forall>e \<in> set F. sem_fs e)" by (auto simp: list_ex_iff)
      let ?e = "\<lparr>sem_fs = obj_fs (dobj dp), sem_clu = sclust (dobj dp), sem_ofs = dptr dp,
        sem_ctr = if w then 0x100 else 1\<rparr>"
      have at: "at_entry ?j hs = []" "entry_inv (F ! ?j) (at_entry ?j hs)"
        using assms(1) free n by (auto simp: share_inv_def entry_inv_def)
      have "share_inv n (F[?j := ?e]) (new_handle dp (of_nat ?j + 1) w # hs)" if "length hs < 255"
      proof (rule share_inv_update [OF assms(1)])
        show "entry_inv ?e (new_handle dp (of_nat ?j + 1) w # at_entry ?j hs)"
          using at(1) assms(2) by (simp add: entry_inv_def new_handle_def)
        show "\<forall>k < n. sem_fs (F ! k) \<longrightarrow> (sem_clu (F ! k), sem_ofs (F ! k)) = key_of dp \<longrightarrow> k = ?j"
          using no(2) key n by auto
      qed (use free n that assms(2) in \<open>simp_all add: key_of_def\<close>)
      moreover have "share_open F dp w = (Inr (of_nat ?j + 1), F[?j := ?e])"
        using handle_id [of ?j] no(1) free f(1) n assms(2)
        by (cases w) (auto simp: share_open_def chk_share_def inc_share_def Let_def P)
      ultimately show ?thesis using m f(2) by auto
    qed
  } note fresh = this
  show ?thesis
    by (rule find_from_cases [of "sem_is dp" F]) (erule (1) fresh, erule (1) found)
qed

lemma share_close_spec:
  assumes "share_inv n F (us @ h # vs)"
  shows "\<exists>F'. dec_share F (h_id h) = (FR_OK, F') \<and> share_inv n F' (us @ vs)"
proof -
  let ?i = "unat (h_id h) - 1"
  have n: "length F = n" "n < 2 ^ 32" and i: "?i < n" "unat (h_id h) = ?i + 1"
    and hs: "\<forall>h \<in> set (us @ vs). 0 < unat (h_id h) \<and> unat (h_id h) \<le> n" "length (us @ vs) < 256"
    using assms by (auto simp: share_inv_def)
  let ?e = "F ! ?i" and ?m = "at_entry ?i us @ h # at_entry ?i vs"
  have at: "at_entry ?i (us @ h # vs) = ?m" "at_entry ?i (us @ vs) = at_entry ?i us @ at_entry ?i vs"
    using i by (auto simp: at_entry_def)
  have keys: "\<forall>i < n. \<forall>j < n. sem_fs (F ! i) \<and> sem_fs (F ! j) \<and> sem_clu (F ! i) = sem_clu (F ! j) \<and>
      sem_ofs (F ! i) = sem_ofs (F ! j) \<longrightarrow> i = j"
    using assms unfolding share_inv_def by blast
  have inv: "entry_inv ?e ?m" using assms i(1) unfolding at(1) [symmetric] share_inv_def by blast
  then have used: "sem_fs ?e" by (simp add: entry_inv_def split: if_splits)
  define c where "c = (if sem_ctr ?e = 0x100 then 0 else sem_ctr ?e)"
  define c' where "c' = (if c > 0 then c - 1 else c)"
  define e where "e = ?e\<lparr>sem_ctr := c', sem_fs := (if c' = 0 then False else sem_fs ?e)\<rparr>"
  have "unat (h_id h - 1) = ?i"
    using i(2) by (subst unat_minus_one) auto
  then have dec: "dec_share F (h_id h) = (FR_OK, F[?i := e])"
    using i n by (simp add: dec_share_def Let_def e_def c'_def c_def)
  have e: "entry_inv e (at_entry ?i us @ at_entry ?i vs)"
  proof (cases "sem_ctr ?e = 0x100")
    case True
    with inv used have "at_entry ?i us @ at_entry ?i vs = []" by (simp add: entry_inv_def)
    moreover have "\<not> sem_fs e" using True by (simp add: e_def c'_def c_def)
    ultimately show ?thesis by (simp add: entry_inv_def)
  next
    case False
    let ?r = "at_entry ?i us @ at_entry ?i vs"
    have q: "unat (sem_ctr ?e) = length ?r + 1" "\<forall>h \<in> set ?r. \<not> h_write h"
      "\<forall>h \<in> set ?r. h_clu h = sem_clu ?e \<and> h_ofs h = sem_ofs ?e"
      using inv used False by (simp_all add: entry_inv_def)
    have "sem_ctr ?e \<noteq> 0" using q(1) by auto
    then have "c' = sem_ctr ?e - 1" using False by (simp add: c'_def c_def word_neq_0_conv)
    then have c': "unat c' = length ?r"
      using q(1) unat_minus_one [OF \<open>sem_ctr ?e \<noteq> 0\<close>] by simp
    have "length ?r < 256"
    proof -
      have "length (at_entry ?i (us @ vs)) \<le> length (us @ vs)"
        unfolding at_entry_def by (rule length_filter_le)
      with hs(2) at(2) show ?thesis by simp
    qed
    then have "c' \<noteq> 0x100" using c' by auto
    moreover have "c' = 0 \<longleftrightarrow> ?r = []" using c' by (metis length_0_conv unat_eq_zero)
    ultimately show ?thesis using q c' used by (simp add: entry_inv_def e_def)
  qed
  have sem: "sem_fs e \<Longrightarrow> sem_fs ?e" "sem_clu e = sem_clu ?e" "sem_ofs e = sem_ofs ?e"
    using used by (simp_all add: e_def)
  have B: "\<forall>j < n. entry_inv (F[?i := e] ! j) (at_entry j (us @ vs))"
  proof (intro allI impI)
    fix j assume j: "j < n"
    show "entry_inv (F[?i := e] ! j) (at_entry j (us @ vs))"
    proof (cases "j = ?i")
      case True
      then show ?thesis using e at(2) i n by simp
    next
      case False
      then have "at_entry j (us @ vs) = at_entry j (us @ h # vs)" using i by (simp add: at_entry_def)
      with False j assms show ?thesis by (simp add: share_inv_def)
    qed
  qed
  have "sem_fs (F[?i := e] ! j) \<longrightarrow> sem_fs (F ! j)" "sem_clu (F[?i := e] ! j) = sem_clu (F ! j)"
    "sem_ofs (F[?i := e] ! j) = sem_ofs (F ! j)" if "j < n" for j
    using sem that i n by (cases "j = ?i"; simp)+
  then have C: "\<forall>j < n. \<forall>k < n. sem_fs (F[?i := e] ! j) \<and> sem_fs (F[?i := e] ! k) \<and>
      sem_clu (F[?i := e] ! j) = sem_clu (F[?i := e] ! k) \<and>
      sem_ofs (F[?i := e] ! j) = sem_ofs (F[?i := e] ! k) \<longrightarrow> j = k"
    using keys by simp
  have "share_inv n (F[?i := e]) (us @ vs)"
    unfolding share_inv_def by (intro conjI B C) (use n hs in simp_all)
  with dec show ?thesis by blast
qed

lemma share_reach_inv: "share_reach n F hs \<Longrightarrow> share_inv n F hs"
proof (induction rule: share_reach.induct)
  case (mounted F)
  then show ?case by (simp add: share_inv_def clear_share_def entry_inv_def at_entry_def)
next
  case (opened F hs dp w i F')
  from share_open_spec [OF opened(5,2), of w] opened(3,4) show ?case
    by (auto simp: new_handle_def split: if_splits)
next
  case (closed F us h vs F')
  with share_close_spec [OF closed(3)] show ?case by auto
qed

lemma holders_readers:
  assumes "share_inv n F hs" and "1 < length (holders k hs)"
  shows "\<forall>h \<in> set (holders k hs). \<not> h_write h"
proof -
  have "holders k hs \<noteq> []" using assms(2) by auto
  then obtain e where "e \<in> set F" "sem_fs e" "(sem_clu e, sem_ofs e) = k"
    using holders_none [OF assms(1), of k] by blast
  then obtain i where i: "i < n" "sem_fs (F ! i)" "(sem_clu (F ! i), sem_ofs (F ! i)) = k"
    using assms(1) by (auto simp: in_set_conv_nth share_inv_def)
  have "entry_inv (F ! i) (at_entry i hs)" using assms(1) i(1) by (simp add: share_inv_def)
  then show ?thesis
    using holders_entry [OF assms(1) i(1,2)] i(2,3) assms(2)
    by (cases "sem_ctr (F ! i) = 0x100") (simp_all add: entry_inv_def)
qed

text \<open>C18: the sharing rule. In every state that openings and closings reach, two handles of the same
  object are both readers; opening an object is refused with \<open>FR_LOCKED\<close> exactly if it would break
  this, with \<open>FR_TOO_MANY_OPEN_FILES\<close> exactly if the object is not open and the table is full, and
  otherwise, below 255 handles, it gives a handle; and every handle can be closed.\<close>

theorem share_table_rule:
  assumes "share_reach n F hs" and "obj_fs (dobj dp)" and "same = holders (key_of dp) hs"
  shows "(1 < length same \<longrightarrow> (\<forall>h \<in> set same. \<not> h_write h)) \<and>
    (if same \<noteq> [] \<and> (w \<or> (\<exists>h \<in> set same. h_write h)) then share_open F dp w = (Inl FR_LOCKED, F)
     else if same = [] \<and> (\<forall>e \<in> set F. sem_fs e)
       then share_open F dp w = (Inl FR_TOO_MANY_OPEN_FILES, F)
     else length hs < 255 \<longrightarrow> (\<exists>i. fst (share_open F dp w) = Inr i)) \<and>
    (\<forall>h \<in> set hs. fst (dec_share F (h_id h)) = FR_OK)"
proof -
  note inv = share_reach_inv [OF assms(1)]
  have "fst (dec_share F (h_id h)) = FR_OK" if h: "h \<in> set hs" for h
  proof -
    obtain us vs where "hs = us @ h # vs" using split_list [OF h] by blast
    with share_close_spec [of n F us h vs] inv show ?thesis by auto
  qed
  moreover have "1 < length same \<longrightarrow> (\<forall>h \<in> set same. \<not> h_write h)"
    using holders_readers [OF inv] assms(3) by blast
  moreover have "if same \<noteq> [] \<and> (w \<or> (\<exists>h \<in> set same. h_write h)) then share_open F dp w = (Inl FR_LOCKED, F)
     else if same = [] \<and> (\<forall>e \<in> set F. sem_fs e)
       then share_open F dp w = (Inl FR_TOO_MANY_OPEN_FILES, F)
     else length hs < 255 \<longrightarrow> (\<exists>i. fst (share_open F dp w) = Inr i)"
    using share_open_spec [OF inv assms(2), of w, folded assms(3)]
    by (metis (no_types, lifting) fst_conv)
  ultimately show ?thesis by blast
qed

definition sample_object :: ffdir where
  "sample_object = undefined\<lparr>dobj := undefined\<lparr>obj_fs := True, sclust := 0\<rparr>, dptr := 32\<rparr>"

theorem share_table_rule_witness:
  \<comment> \<open>a file that is being read cannot be opened for writing\<close>
  "let F = snd (share_open [\<lparr>sem_fs = False, sem_clu = 0, sem_ofs = 0, sem_ctr = 0\<rparr>] sample_object False)
   in share_open F sample_object True = (Inl FR_LOCKED, F)"
proof -
  let ?F0 = "[\<lparr>sem_fs = False, sem_clu = 0, sem_ofs = 0, sem_ctr = 0\<rparr>]"
  let ?h = "new_handle sample_object 1 False"
  have "share_reach 1 (clear_share ?F0) []" by (rule share_reach.mounted) simp_all
  then have 0: "share_reach 1 ?F0 []" by (simp add: clear_share_def)
  have o: "obj_fs (dobj sample_object)" by (simp add: sample_object_def)
  have "share_open ?F0 sample_object False = (Inr 1, snd (share_open ?F0 sample_object False))"
    by (simp add: share_open_def chk_share_def inc_share_def sem_is_def sample_object_def)
  from share_reach.opened [OF 0 o _ this]
  have r: "share_reach 1 (snd (share_open ?F0 sample_object False)) [?h]" by (simp add: new_handle_def)
  have "holders (key_of sample_object) [?h] = [?h]"
    by (simp add: holders_def key_of_def new_handle_def sample_object_def)
  with share_table_rule [OF r o refl, of True] show ?thesis by (simp add: Let_def)
qed

end
