(* ===== verification/FatMount.thy ===== *)
theory FatMount
  imports FatName FatShare
begin

text \<open>
  Paths and mounting (\<^verbatim>\<open>ff.c\<close>: \<open>follow_path\<close>, \<open>check_fs\<close>, \<open>find_volume\<close>, \<open>mount_volume\<close>,
  \<open>lock_volume\<close>, \<open>unlock_volume\<close>, \<open>validate\<close>, \<open>f_mount\<close>). The static variables of \<^verbatim>\<open>ff.c\<close> are the
  record \<open>ffsys\<close>, with the one filesystem object the application registers; the functions of
  \<^verbatim>\<open>ffsystem.c\<close> are the record \<open>ff_mutex\<close>. The result \<open>None\<close> is a loop that does not end or a
  path that is not terminated.

  The lemmas on the boot sector say what a successful analysis guarantees: the geometry on which the
  theories of the table and of the chains rest.
\<close>

section \<open>The state of the module\<close>

record 'o ff_mutex =
  mx_create :: "nat \<Rightarrow> 'o \<Rightarrow> bool \<times> 'o"   \<comment> \<open>\<open>ff_mutex_create\<close>\<close>
  mx_delete :: "nat \<Rightarrow> 'o \<Rightarrow> 'o"           \<comment> \<open>\<open>ff_mutex_delete\<close>\<close>
  mx_take :: "nat \<Rightarrow> 'o \<Rightarrow> bool \<times> 'o"     \<comment> \<open>\<open>ff_mutex_take\<close>\<close>
  mx_give :: "nat \<Rightarrow> 'o \<Rightarrow> 'o"             \<comment> \<open>\<open>ff_mutex_give\<close>\<close>

record ('d, 'o) ffsys =
  vol :: "'d fatfs"      \<comment> \<open>the object \<open>FatFs[0]\<close> points to\<close>
  FatFs :: bool          \<comment> \<open>\<open>FatFs[0]\<close> is not null\<close>
  Fsid :: u16
  CurrVol :: int
  Files :: "filesem list"
  SysLock :: byte        \<comment> \<open>0: no mutex, 1: unlocked, 2: locked\<close>
  mutexes :: 'o

abbreviation FF_VOLUMES :: nat where "FF_VOLUMES \<equiv> 1"
abbreviation STA_NOINIT :: byte where "STA_NOINIT \<equiv> 0x01"
abbreviation STA_PROTECT :: byte where "STA_PROTECT \<equiv> 0x04"
abbreviation FA_READ :: byte where "FA_READ \<equiv> 0x01"
abbreviation FA_WRITE :: byte where "FA_WRITE \<equiv> 0x02"

section \<open>Locking\<close>

definition lock_volume :: "'o ff_mutex \<Rightarrow> bool \<Rightarrow> ('d, 'o) ffsys \<Rightarrow> bool \<times> ('d, 'o) ffsys" where
  \<comment> \<open>the branch without \<^verbatim>\<open>FS_LOCK\<close>, a macro that is never defined: \<open>syslock\<close> has no effect\<close>
  "lock_volume mx syslock s =
    (case mx_take mx (unat (ldrv (vol s))) (mutexes s) of (rv, k) \<Rightarrow> (rv, s\<lparr>mutexes := k\<rparr>))"

definition unlock_volume :: "'o ff_mutex \<Rightarrow> bool \<Rightarrow> fresult \<Rightarrow> ('d, 'o) ffsys \<Rightarrow> ('d, 'o) ffsys" where
  \<comment> \<open>the second argument: \<open>fs\<close> is not null\<close>
  "unlock_volume mx fs res s =
    (if fs \<and> res \<noteq> FR_NOT_ENABLED \<and> res \<noteq> FR_INVALID_DRIVE \<and> res \<noteq> FR_TIMEOUT then
       (let s = (if SysLock s = 2
                 then s\<lparr>SysLock := 1, mutexes := mx_give mx FF_VOLUMES (mutexes s)\<rparr> else s)
        in s\<lparr>mutexes := mx_give mx (unat (ldrv (vol s))) (mutexes s)\<rparr>)
     else s)"

section \<open>Following a path\<close>

partial_function (option) follow_loop ::
  "'d disk_io \<Rightarrow> byte list \<Rightarrow> ffdir \<Rightarrow> 'd fatfs \<Rightarrow> (fresult \<times> ffdir \<times> 'd fatfs) option" where
  "follow_loop io path dp fs =
    do { (res, f, path') \<leftarrow> create_name path (fn dp);
         (let dp = dp\<lparr>fn := f\<rparr> in
          if res \<noteq> FR_OK then Some (res, dp, fs)
          else
            do { (res, dp, fs1) \<leftarrow> dir_find io dp fs;
                 (let ns = fn dp ! NSFLAG in
                  if res \<noteq> FR_OK then
                    (if res = FR_NO_FILE then
                       (if ns AND NS_DOT \<noteq> 0 then
                          (if ns AND NS_LAST = 0 then follow_loop io path' dp fs1
                           else Some (FR_OK, dp\<lparr>fn := (fn dp)[NSFLAG := NS_NONAME]\<rparr>, fs1))
                        else Some (if ns AND NS_LAST = 0 then FR_NO_PATH else res, dp, fs1))
                     else Some (res, dp, fs1))
                  else if ns AND NS_LAST \<noteq> 0 then Some (FR_OK, dp, fs1)
                  else if obj_attr (dobj dp) AND AM_DIR = 0 then Some (FR_NO_PATH, dp, fs1)
                  else
                    follow_loop io path'
                      (dp\<lparr>dobj := (dobj dp)\<lparr>sclust := ld_clust fs1 (win fs1) (unat (dptr dp mod 512))\<rparr>\<rparr>)
                      fs1) }) }"

definition follow_path ::
  "'d disk_io \<Rightarrow> ffdir \<Rightarrow> byte list \<Rightarrow> 'd fatfs \<Rightarrow> (fresult \<times> ffdir \<times> 'd fatfs) option" where
  "follow_path io dp path fs =
    do { c \<leftarrow> c_at path;
         (dp, path) \<leftarrow>
           (if \<not> IsSeparator c then Some (dp\<lparr>dobj := (dobj dp)\<lparr>sclust := cdir fs\<rparr>\<rparr>, path)
            else do { path \<leftarrow> skip_sep path; Some (dp\<lparr>dobj := (dobj dp)\<lparr>sclust := 0\<rparr>\<rparr>, path) });
         c \<leftarrow> c_at path;
         if c < 0x20 then dir_sdi io 0 (dp\<lparr>fn := (fn dp)[NSFLAG := NS_NONAME]\<rparr>) fs
         else follow_loop io path dp fs }"

section \<open>Finding the volume\<close>

abbreviation BS_JmpBoot :: nat where "BS_JmpBoot \<equiv> 0"
abbreviation BPB_BytsPerSec :: nat where "BPB_BytsPerSec \<equiv> 11"
abbreviation BPB_SecPerClus :: nat where "BPB_SecPerClus \<equiv> 13"
abbreviation BPB_RsvdSecCnt :: nat where "BPB_RsvdSecCnt \<equiv> 14"
abbreviation BPB_NumFATs :: nat where "BPB_NumFATs \<equiv> 16"
abbreviation BPB_RootEntCnt :: nat where "BPB_RootEntCnt \<equiv> 17"
abbreviation BPB_TotSec16 :: nat where "BPB_TotSec16 \<equiv> 19"
abbreviation BPB_FATSz16 :: nat where "BPB_FATSz16 \<equiv> 22"
abbreviation BPB_TotSec32 :: nat where "BPB_TotSec32 \<equiv> 32"
abbreviation BPB_FATSz32 :: nat where "BPB_FATSz32 \<equiv> 36"
abbreviation BPB_FSVer32 :: nat where "BPB_FSVer32 \<equiv> 42"
abbreviation BPB_RootClus32 :: nat where "BPB_RootClus32 \<equiv> 44"
abbreviation BPB_FSInfo32 :: nat where "BPB_FSInfo32 \<equiv> 48"
abbreviation BS_FilSysType32 :: nat where "BS_FilSysType32 \<equiv> 82"
abbreviation MBR_Table :: nat where "MBR_Table \<equiv> 446"
abbreviation SZ_PTE :: nat where "SZ_PTE \<equiv> 16"
abbreviation PTE_StLba :: nat where "PTE_StLba \<equiv> 8"

definition check_fs :: "'d disk_io \<Rightarrow> u32 \<Rightarrow> 'd fatfs \<Rightarrow> nat \<times> 'd fatfs" where
  \<comment> \<open>0: FAT boot record, 2: valid boot sector, 3: invalid boot sector, 4: disk error\<close>
  "check_fs io sect fs =
    (case move_window io sect (fs\<lparr>wflag := 0, winsect := 0 - 1\<rparr>) of
       (res, fs) \<Rightarrow>
         if res \<noteq> FR_OK then (4, fs)
         else
           (let p = win fs; sign = ld_word p BS_55AA; b = p ! BS_JmpBoot;
                w = ld_word p BPB_BytsPerSec; c = p ! BPB_SecPerClus
            in if (b = 0xEB \<or> b = 0xE9 \<or> b = 0xE8) \<and>
                  (sign = 0xAA55 \<and>
                   take 8 (drop BS_FilSysType32 p) = [0x46, 0x41, 0x54, 0x33, 0x32, 0x20, 0x20, 0x20] \<or>
                   w AND (w - 1) = 0 \<and> w \<ge> 512 \<and> w \<le> 512 \<and> c \<noteq> 0 \<and> c AND (c - 1) = 0 \<and>
                   ld_word p BPB_RsvdSecCnt \<noteq> 0 \<and> (ucast (p ! BPB_NumFATs) :: u32) - 1 \<le> 1 \<and>
                   ld_word p BPB_RootEntCnt \<noteq> 0 \<and>
                   (ld_word p BPB_TotSec16 \<ge> 128 \<or> ld_dword p BPB_TotSec32 \<ge> 0x10000) \<and>
                   ld_word p BPB_FATSz16 \<noteq> 0)
               then (0, fs)
               else (if sign = 0xAA55 then 2 else 3, fs)))"

fun try_partitions :: "'d disk_io \<Rightarrow> nat \<Rightarrow> u32 list \<Rightarrow> 'd fatfs \<Rightarrow> nat \<times> 'd fatfs" where
  \<comment> \<open>\<open>do ... while (part == 0 && fmt >= 2 && ++i < 4)\<close> over the rest of the table\<close>
  "try_partitions io part [] fs = (3, fs)"
| "try_partitions io part (pt # pts) fs =
     (case (if pt \<noteq> 0 then check_fs io pt fs else (3, fs)) of
        (fmt, fs) \<Rightarrow>
          if part = 0 \<and> fmt \<ge> 2 \<and> pts \<noteq> [] then try_partitions io part pts fs else (fmt, fs))"

definition find_volume :: "'d disk_io \<Rightarrow> nat \<Rightarrow> 'd fatfs \<Rightarrow> nat \<times> 'd fatfs" where
  "find_volume io part fs =
    (case check_fs io 0 fs of
       (fmt, fs) \<Rightarrow>
         if fmt \<noteq> 2 \<and> (fmt \<ge> 3 \<or> part = 0) then (fmt, fs)
         else
           (let mbr_pt = map (\<lambda>i. ld_dword (win fs) (MBR_Table + i * SZ_PTE + PTE_StLba)) [0..<4]
            in try_partitions io part (drop (if part \<noteq> 0 then part - 1 else 0) mbr_pt) fs))"

section \<open>Analysing the boot record\<close>

abbreviation MAX_FAT12 :: u32 where "MAX_FAT12 \<equiv> 0xFF5"
abbreviation MAX_FAT16 :: u32 where "MAX_FAT16 \<equiv> 0xFFF5"
abbreviation MAX_FAT32 :: u32 where "MAX_FAT32 \<equiv> 0x0FFFFFF5"

definition fat_subtype :: "u32 \<Rightarrow> byte" where
  \<comment> \<open>from the number of clusters; 0: too many\<close>
  "fat_subtype nclst =
    (if nclst \<le> MAX_FAT12 then FS_FAT12 else if nclst \<le> MAX_FAT16 then FS_FAT16
     else if nclst \<le> MAX_FAT32 then FS_FAT32 else 0)"

definition needed_fat_size :: "byte \<Rightarrow> u32 \<Rightarrow> u32" where
  \<comment> \<open>\<open>szbfat\<close>, from the subtype and the number of entries\<close>
  "needed_fat_size fmt n =
    (if fmt = FS_FAT32 then n * 4 else if fmt = FS_FAT16 then n * 2 else n * 3 div 2 + (n AND 1))"

definition load_fsinfo :: "'d disk_io \<Rightarrow> byte \<Rightarrow> u32 \<Rightarrow> 'd fatfs \<Rightarrow> 'd fatfs" where
  "load_fsinfo io fmt bsect fs =
    (let fs = fs\<lparr>last_clst := 0xFFFFFFFF, free_clst := 0xFFFFFFFF, fsi_flag := 0x80\<rparr> in
     if fmt = FS_FAT32 \<and> ld_word (win fs) BPB_FSInfo32 = 1 then
       (case move_window io (bsect + 1) fs of
          (res, fs) \<Rightarrow>
            if res = FR_OK then
              (let fs = fs\<lparr>fsi_flag := 0\<rparr> in
               if ld_word (win fs) BS_55AA = 0xAA55 \<and> ld_dword (win fs) FSI_LeadSig = 0x41615252 \<and>
                  ld_dword (win fs) FSI_StrucSig = 0x61417272
               then fs\<lparr>free_clst := ld_dword (win fs) FSI_Free_Count,
                       last_clst := ld_dword (win fs) FSI_Nxt_Free\<rparr>
               else fs)
            else fs)
     else fs)"

definition analyse_bpb :: "'d disk_io \<Rightarrow> u32 \<Rightarrow> 'd fatfs \<Rightarrow> byte option \<times> 'd fatfs" where
  \<comment> \<open>the subtype, or \<open>None\<close> for \<open>FR_NO_FILESYSTEM\<close>; the fields set before a failed test stay set\<close>
  "analyse_bpb io bsect fs =
    (let p = win fs in
     if ld_word p BPB_BytsPerSec \<noteq> 512 then (None, fs)
     else
       (let fasize = ucast (ld_word p BPB_FATSz16);
            fasize = (if fasize = 0 then ld_dword p BPB_FATSz32 else fasize);
            fs = fs\<lparr>fsize := fasize, n_fats := p ! BPB_NumFATs\<rparr>
        in if n_fats fs \<noteq> 1 \<and> n_fats fs \<noteq> 2 then (None, fs)
           else
             (let fasize = fasize * ucast (n_fats fs);
                  fs = fs\<lparr>csize := ucast (p ! BPB_SecPerClus)\<rparr>
              in if csize fs = 0 \<or> csize fs AND (csize fs - 1) \<noteq> 0 then (None, fs)
                 else
                   (let fs = fs\<lparr>n_rootdir := ld_word p BPB_RootEntCnt\<rparr> in
                    if n_rootdir fs mod 16 \<noteq> 0 then (None, fs)
                    else
                      (let tsect = ucast (ld_word p BPB_TotSec16);
                           tsect = (if tsect = 0 then ld_dword p BPB_TotSec32 else tsect);
                           nrsv = ld_word p BPB_RsvdSecCnt;
                           sysect = ucast nrsv + fasize + ucast (n_rootdir fs div 16);
                           nclst = (tsect - sysect) div ucast (csize fs);
                           fmt = fat_subtype nclst
                       in if nrsv = 0 \<or> tsect < sysect \<or> nclst = 0 \<or> fmt = 0 then (None, fs)
                          else
                            (let fs = fs\<lparr>n_fatent := nclst + 2, volbase := bsect,
                                         fatbase := bsect + ucast nrsv, database := bsect + sysect\<rparr>
                             in if fmt = FS_FAT32 \<and> (ld_word p BPB_FSVer32 \<noteq> 0 \<or> n_rootdir fs \<noteq> 0) \<or>
                                   fmt \<noteq> FS_FAT32 \<and> n_rootdir fs = 0
                                then (None, fs)
                                else
                                  (let fs = fs\<lparr>dirbase := if fmt = FS_FAT32 then ld_dword p BPB_RootClus32
                                                          else fatbase fs + fasize\<rparr>
                                   in if fsize fs < (needed_fat_size fmt (n_fatent fs) + 511) div 512
                                      then (None, fs)
                                      else (Some fmt, load_fsinfo io fmt bsect fs))))))))"

section \<open>Mounting\<close>

definition mount_fs ::
  "'d disk_io \<Rightarrow> ('d, 'o) ffsys \<Rightarrow> fresult \<times> ('d, 'o) ffsys" where
  \<comment> \<open>from \<open>find_volume\<close> on: the volume, the analysis and the initialisation of the object\<close>
  "mount_fs io s =
    (case find_volume io 0 (vol s) of
       (fmt, fs) \<Rightarrow>
         if fmt = 4 then (FR_DISK_ERR, s\<lparr>vol := fs\<rparr>)
         else if fmt \<ge> 2 then (FR_NO_FILESYSTEM, s\<lparr>vol := fs\<rparr>)
         else
           (case analyse_bpb io (winsect fs) fs of
              (None, fs) \<Rightarrow> (FR_NO_FILESYSTEM, s\<lparr>vol := fs\<rparr>)
            | (Some fmt, fs) \<Rightarrow>
                (FR_OK, s\<lparr>vol := fs\<lparr>fs_type := fmt, fs_id := Fsid s + 1, cdir := 0\<rparr>,
                          Fsid := Fsid s + 1, Files := clear_share (Files s)\<rparr>)))"

definition mounted_status :: "'d disk_io \<Rightarrow> ('d, 'o) ffsys \<Rightarrow> byte \<times> ('d, 'o) ffsys" where
  \<comment> \<open>the status of the drive of a mounted volume\<close>
  "mounted_status io s =
    (if fs_type (vol s) \<noteq> 0 then
       (case io_status io (pdrv (vol s)) (medium (vol s)) of
          (st, d) \<Rightarrow> (st, s\<lparr>vol := (vol s)\<lparr>medium := d\<rparr>\<rparr>))
     else (STA_NOINIT, s))"

definition mount_volume ::
  "'d disk_io \<Rightarrow> 'o ff_mutex \<Rightarrow> byte list option \<Rightarrow> byte \<Rightarrow> ('d, 'o) ffsys \<Rightarrow>
    (fresult \<times> bool \<times> byte list option \<times> ('d, 'o) ffsys) option" where
  \<comment> \<open>the result, \<open>*rfs\<close> (not null), \<open>*path\<close> and the state\<close>
  "mount_volume io mx path mode s =
    do { (v, path) \<leftarrow> get_ldnumber (CurrVol s) path;
         if v < 0 then Some (FR_INVALID_DRIVE, False, path, s)
         else if \<not> FatFs s then Some (FR_NOT_ENABLED, False, path, s)
         else
           (case lock_volume mx True s of
              (False, s) \<Rightarrow> Some (FR_TIMEOUT, False, path, s)
            | (True, s) \<Rightarrow>
                (let mode = mode AND NOT FA_READ;
                     (stat, s1) = mounted_status io s
                 in if stat AND STA_NOINIT = 0 then
                      Some (if mode \<noteq> 0 \<and> stat AND STA_PROTECT \<noteq> 0 then FR_WRITE_PROTECTED else FR_OK,
                            True, path, s1)
                    else
                      (let fs = (vol s1)\<lparr>fs_type := 0\<rparr> in
                       case io_initialize io (pdrv fs) (medium fs) of
                         (stat, d) \<Rightarrow>
                           let s2 = s1\<lparr>vol := fs\<lparr>medium := d\<rparr>\<rparr> in
                           if stat AND STA_NOINIT \<noteq> 0 then Some (FR_NOT_READY, True, path, s2)
                           else if mode \<noteq> 0 \<and> stat AND STA_PROTECT \<noteq> 0
                           then Some (FR_WRITE_PROTECTED, True, path, s2)
                           else (case mount_fs io s2 of (res, s3) \<Rightarrow> Some (res, True, path, s3))))) }"

definition validate ::
  "'d disk_io \<Rightarrow> 'o ff_mutex \<Rightarrow> ffobj \<Rightarrow> ('d, 'o) ffsys \<Rightarrow> fresult \<times> bool \<times> ('d, 'o) ffsys" where
  \<comment> \<open>the result, \<open>*rfs\<close> (not null) and the state\<close>
  "validate io mx obj s =
    (if obj_fs obj \<and> fs_type (vol s) \<noteq> 0 \<and> obj_id obj = fs_id (vol s) then
       (case lock_volume mx False s of
          (True, s) \<Rightarrow>
            (case io_status io (pdrv (vol s)) (medium (vol s)) of
               (st, d) \<Rightarrow>
                 let s = s\<lparr>vol := (vol s)\<lparr>medium := d\<rparr>\<rparr> in
                 if st AND STA_NOINIT = 0 then (FR_OK, True, s)
                 else (FR_INVALID_OBJECT, False, unlock_volume mx True FR_OK s))
        | (False, s) \<Rightarrow> (FR_TIMEOUT, False, s))
     else (FR_INVALID_OBJECT, False, s))"

definition f_mount ::
  "'d disk_io \<Rightarrow> 'o ff_mutex \<Rightarrow> bool \<Rightarrow> byte list \<Rightarrow> byte \<Rightarrow> ('d, 'o) ffsys \<Rightarrow>
    (fresult \<times> ('d, 'o) ffsys) option" where
  \<comment> \<open>the third argument: \<open>fs\<close> is not null\<close>
  "f_mount io mx fs path opt s =
    do { (v, rp) \<leftarrow> get_ldnumber (CurrVol s) (Some path);
         if v < 0 then Some (FR_INVALID_DRIVE, s)
         else
           (let s1 = (if FatFs s
                      then s\<lparr>FatFs := False, Files := clear_share (Files s),
                             mutexes := mx_delete mx (nat v) (mutexes s), vol := (vol s)\<lparr>fs_type := 0\<rparr>\<rparr>
                      else s);
                (err, s2) =
                  (if fs then
                     (let s2 = s1\<lparr>vol := (vol s1)\<lparr>pdrv := of_int v, ldrv := of_int v\<rparr>\<rparr> in
                      case mx_create mx (nat v) (mutexes s2) of
                        (False, k) \<Rightarrow> (True, s2\<lparr>mutexes := k\<rparr>)
                      | (True, k) \<Rightarrow>
                          (let s3 = s2\<lparr>mutexes := k\<rparr>;
                               (err, s4) =
                                 (if SysLock s3 = 0 then
                                    (case mx_create mx FF_VOLUMES (mutexes s3) of
                                       (False, k) \<Rightarrow> (True, s3\<lparr>mutexes := mx_delete mx (nat v) k\<rparr>)
                                     | (True, k) \<Rightarrow> (False, s3\<lparr>mutexes := k, SysLock := 1\<rparr>))
                                  else (False, s3))
                           in if err then (True, s4)
                              else (False, s4\<lparr>vol := (vol s4)\<lparr>fs_type := 0\<rparr>, FatFs := True\<rparr>)))
                   else (False, s1))
            in if err then Some (FR_INT_ERR, s2)
               else if opt = 0 then Some (FR_OK, s2)
               else
                 do { (res, has, p, s3) \<leftarrow> mount_volume io mx (Some path) 0 s2;
                      Some (res, unlock_volume mx has res s3) }) }"

section \<open>What a mount guarantees\<close>

text \<open>The window while a volume is being looked for: nothing to write back.\<close>

context fat_disk begin

definition clean :: "'d fatfs \<Rightarrow> bool" where
  "clean fs \<longleftrightarrow> wflag fs = 0 \<and> ok (medium fs) \<and> length (win fs) = SS \<and> pdrv fs = 0 \<and>
     (winsect fs < nsect \<longrightarrow> win fs = contents (medium fs) (winsect fs))"

definition same_drive :: "'d fatfs \<Rightarrow> 'd fatfs \<Rightarrow> bool" where
  "same_drive fs fs' \<longleftrightarrow> (\<forall>j < nsect. contents (medium fs') j = contents (medium fs) j)"

lemma same_drive_trans: "same_drive a b \<Longrightarrow> same_drive b c \<Longrightarrow> same_drive a c"
  by (simp add: same_drive_def)

lemma move_window_clean:
  assumes "clean fs" and "move_window io sect fs = (r, fs')"
  shows "clean fs' \<and> same_drive fs fs' \<and> steady fs' = steady fs \<and> (r = FR_OK \<longrightarrow> winsect fs' = sect)"
proof (cases "sect = winsect fs")
  case True
  with assms show ?thesis by (simp add: move_window_def same_drive_def)
next
  case False
  have c: "wflag fs = 0" "ok (medium fs)" "length (win fs) = 512" "pdrv fs = 0"
    using assms(1) by (simp_all add: clean_def)
  obtain t bs d where t: "io_read io 0 sect 1 (medium fs) = (t, bs, d)" by (metis surj_pair)
  from read_law [OF c(2) t]
  have d: "ok d" "\<forall>j < nsect. contents d j = contents (medium fs) j" "length bs \<le> 512"
    "t = RES_OK \<longrightarrow> sect < nsect \<longrightarrow> bs = contents (medium fs) sect" by auto
  have big: "\<not> (- 1 :: u32) < nsect" using word_n1_ge [of nsect] by (simp add: not_less)
  have r: "r = (if t = RES_OK then FR_OK else FR_DISK_ERR)"
    "fs' = fs\<lparr>medium := d, win := store_at 0 bs (win fs), winsect := if t = RES_OK then sect else - 1\<rparr>"
    using assms(2) False c t by (auto simp: move_window_def sync_window_def Let_def split: if_splits)
  have full: "store_at 0 bs (win fs) = contents d sect" if "t = RES_OK" "sect < nsect"
    using that d c(3) contents_length [OF c(2)] by (simp add: store_at_def)
  have "length (store_at 0 bs (win fs)) = 512" using c(3) d(3) by simp
  then show ?thesis
    using r d c big full by (auto simp: clean_def same_drive_def)
qed

lemma check_fs_clean:
  assumes "ok (medium fs)" and "length (win fs) = SS" and "pdrv fs = 0"
    and "check_fs io sect fs = (fmt, fs')"
  shows "clean fs' \<and> same_drive fs fs' \<and> steady fs' = steady fs \<and> fmt \<in> {0, 2, 3, 4} \<and>
    (fmt = 0 \<longrightarrow> winsect fs' = sect)"
proof -
  obtain r fs1 where m: "move_window io sect (fs\<lparr>wflag := 0, winsect := 0 - 1\<rparr>) = (r, fs1)" by fastforce
  have big: "\<not> (- 1 :: u32) < nsect" using word_n1_ge [of nsect] by (simp add: not_less)
  have "clean (fs\<lparr>wflag := 0, winsect := 0 - 1\<rparr>)" using assms(1-3) big by (simp add: clean_def)
  from move_window_clean [OF this m] assms(4) m show ?thesis
    by (auto simp: check_fs_def Let_def same_drive_def split: if_splits)
qed

lemma try_partitions_clean:
  assumes "ok (medium fs)" and "length (win fs) = SS" and "pdrv fs = 0"
    and "try_partitions io part pts fs = (fmt, fs')"
  shows "fmt \<le> 1 \<longrightarrow> fmt = 0 \<and> clean fs' \<and> same_drive fs fs' \<and> steady fs' = steady fs"
  using assms
proof (induction pts arbitrary: fs)
  case (Cons pt pts)
  obtain f fs1 where c: "(if pt \<noteq> 0 then check_fs io pt fs else (3, fs)) = (f, fs1)" by fastforce
  show ?case
  proof (cases "pt = 0")
    case True
    then have "f = 3" "fs1 = fs" using c by auto
    then show ?thesis using Cons c by (auto split: if_splits)
  next
    case False
    then have c': "check_fs io pt fs = (f, fs1)" using c by simp
    note k = check_fs_clean [OF Cons.prems(1-3) c']
    then have k1: "ok (medium fs1)" "length (win fs1) = SS" "pdrv fs1 = 0" by (auto simp: clean_def)
    show ?thesis
    proof (cases "part = 0 \<and> f \<ge> 2 \<and> pts \<noteq> []")
      case True
      then have "try_partitions io part pts fs1 = (fmt, fs')" using Cons.prems(4) c by auto
      from Cons.IH [OF k1 this] k show ?thesis using same_drive_trans by auto
    next
      case False
      then have "fmt = f" "fs' = fs1" using Cons.prems(4) c by auto
      then show ?thesis using k by auto
    qed
  qed
qed simp

lemma find_volume_clean:
  assumes "ok (medium fs)" and "length (win fs) = SS" and "pdrv fs = 0"
    and "find_volume io part fs = (fmt, fs')" and "fmt \<le> 1"
  shows "fmt = 0 \<and> clean fs' \<and> same_drive fs fs' \<and> steady fs' = steady fs"
proof -
  obtain f fs1 where c: "check_fs io 0 fs = (f, fs1)" by fastforce
  note k = check_fs_clean [OF assms(1-3) c]
  show ?thesis
  proof (cases "f \<noteq> 2 \<and> (f \<ge> 3 \<or> part = 0)")
    case True
    then have "fmt = f" "fs' = fs1" using assms(4) c by (auto simp: find_volume_def)
    then show ?thesis using k assms(5) by auto
  next
    case False
    then obtain pts where "try_partitions io part pts fs1 = (fmt, fs')"
      using assms(4) c by (auto simp: find_volume_def Let_def)
    moreover have "ok (medium fs1)" "length (win fs1) = SS" "pdrv fs1 = 0"
      using k by (auto simp: clean_def)
    ultimately show ?thesis
      using try_partitions_clean k assms(5) same_drive_trans by metis
  qed
qed

lemma load_fsinfo_clean:
  assumes "clean fs"
  shows "clean (load_fsinfo io fmt b fs) \<and> same_drive fs (load_fsinfo io fmt b fs) \<and>
    geometry (load_fsinfo io fmt b fs) = geometry fs"
proof -
  let ?fs = "fs\<lparr>last_clst := 0xFFFFFFFF, free_clst := 0xFFFFFFFF, fsi_flag := 0x80\<rparr>"
  obtain r fs1 where m: "move_window io (b + 1) ?fs = (r, fs1)" by fastforce
  have c: "clean ?fs" using assms by (simp add: clean_def)
  have u: "clean (fs1\<lparr>fsi_flag := x\<rparr>) = clean fs1" "clean (fs1\<lparr>free_clst := y\<rparr>) = clean fs1"
    "clean (fs1\<lparr>last_clst := y\<rparr>) = clean fs1" for fs1 x y
    by (simp_all add: clean_def)
  from move_window_clean [OF c m] steady_geometry [of fs1 ?fs]
  have "clean fs1" "same_drive ?fs fs1" "geometry fs1 = geometry fs" by auto
  then show ?thesis
    using m c by (auto simp: load_fsinfo_def Let_def u same_drive_def)
qed

end

text \<open>The numbers of a boot record.\<close>

definition bpb_fat_size :: "byte list \<Rightarrow> u32" where
  "bpb_fat_size p =
    (if ld_word p BPB_FATSz16 = 0 then ld_dword p BPB_FATSz32 else ucast (ld_word p BPB_FATSz16))"

definition bpb_total :: "byte list \<Rightarrow> u32" where
  "bpb_total p =
    (if ld_word p BPB_TotSec16 = 0 then ld_dword p BPB_TotSec32 else ucast (ld_word p BPB_TotSec16))"

definition bpb_system :: "byte list \<Rightarrow> nat" where
  \<comment> \<open>reserved sectors, allocation tables and root directory, as a natural number\<close>
  "bpb_system p = unat (ld_word p BPB_RsvdSecCnt) + unat (p ! BPB_NumFATs) * unat (bpb_fat_size p) +
     unat (ld_word p BPB_RootEntCnt) div 16"

definition bpb_sound :: "u32 \<Rightarrow> u32 \<Rightarrow> byte list \<Rightarrow> bool" where
  \<comment> \<open>what the code does not check: the areas fit the volume, and the volume fits the drive\<close>
  "bpb_sound nsect b p \<longleftrightarrow> 0 < unat (bpb_total p) \<and> bpb_system p \<le> unat (bpb_total p) \<and> unat b + unat (bpb_total p) \<le> unat nsect"

definition volume_ok :: "u32 \<Rightarrow> 'd fatfs \<Rightarrow> bool" where
  \<comment> \<open>tables, root directory and clusters lie on the drive, one after the other\<close>
  "volume_ok nsect fs \<longleftrightarrow> layout nsect fs \<and> fat_ok fs \<and> csize fs \<noteq> 0 \<and> csize fs AND (csize fs - 1) = 0 \<and>
     fat_end fs \<le> unat (database fs) \<and>
     unat (database fs) + unat (csize fs) * (unat (n_fatent fs) - 2) \<le> unat nsect \<and>
     (if fs_type fs = FS_FAT32 then n_rootdir fs = 0
      else unat (dirbase fs) = fat_end fs \<and> n_rootdir fs \<noteq> 0 \<and> unat (n_rootdir fs) mod 16 = 0 \<and>
        unat (dirbase fs) + unat (n_rootdir fs) div 16 = unat (database fs))"

lemma volume_ok_cong: "geometry fs = geometry fs' \<Longrightarrow> volume_ok nsect fs = volume_ok nsect fs'"
  unfolding volume_ok_def by (simp only: geometry_cong [of fs fs'] fat_ok_cong [of fs fs'] geometry_fields [of fs fs'])

definition bpb_volume :: "byte list \<Rightarrow> u32 \<Rightarrow> byte \<Rightarrow> 'd fatfs \<Rightarrow> bool" where
  \<comment> \<open>the fields of the object are those of the boot record in sector \<open>b\<close>, and it passed the tests\<close>
  "bpb_volume p b fmt fs \<longleftrightarrow>
    (let sys = ucast (ld_word p BPB_RsvdSecCnt) + bpb_fat_size p * ucast (p ! BPB_NumFATs) +
               ucast (ld_word p BPB_RootEntCnt div 16);
         n = (bpb_total p - sys) div ucast (p ! BPB_SecPerClus)
     in fsize fs = bpb_fat_size p \<and> n_fats fs = p ! BPB_NumFATs \<and> n_fats fs \<in> {1, 2} \<and>
        csize fs = ucast (p ! BPB_SecPerClus) \<and> csize fs \<noteq> 0 \<and> csize fs AND (csize fs - 1) = 0 \<and>
        n_rootdir fs = ld_word p BPB_RootEntCnt \<and> n_rootdir fs mod 16 = 0 \<and>
        ld_word p BPB_RsvdSecCnt \<noteq> 0 \<and> sys \<le> bpb_total p \<and> n \<noteq> 0 \<and> fmt = fat_subtype n \<and> fmt \<noteq> 0 \<and>
        n_fatent fs = n + 2 \<and> volbase fs = b \<and> fatbase fs = b + ucast (ld_word p BPB_RsvdSecCnt) \<and>
        database fs = b + sys \<and> (fmt = FS_FAT32 \<longleftrightarrow> n_rootdir fs = 0) \<and>
        (fmt \<noteq> FS_FAT32 \<longrightarrow> dirbase fs = fatbase fs + bpb_fat_size p * ucast (p ! BPB_NumFATs)) \<and>
        (needed_fat_size fmt (n + 2) + 511) div 512 \<le> fsize fs)"

lemma bpb_volume_cong: "geometry fs = geometry fs' \<Longrightarrow> bpb_volume p b fmt fs = bpb_volume p b fmt fs'"
  unfolding bpb_volume_def by (simp only: geometry_fields [of fs fs'])

lemma unat_ucast_u16 [simp]: "unat (ucast (x :: u16) :: u32) = unat x"
proof -
  have "unat x < 2 ^ 16" by (rule order_less_le_trans [OF unsigned_less]) simp
  then show ?thesis by (simp add: unsigned_ucast_eq take_bit_nat_eq_self)
qed

lemma unat_ucast_u8 [simp]: "unat (ucast (x :: byte) :: u32) = unat x" "unat (ucast (x :: byte) :: u16) = unat x"
proof -
  have "unat x < 2 ^ 8" by (rule order_less_le_trans [OF unsigned_less]) simp
  then show "unat (ucast x :: u32) = unat x" "unat (ucast x :: u16) = unat x"
    by (simp_all add: unsigned_ucast_eq take_bit_nat_eq_self)
qed

lemma csize_ucast: "(ucast (ucast (x :: byte) :: u16) :: u32) = ucast x"
  by (simp add: word_unat_eq_iff)

lemma ucast_eq_0: "(ucast (x :: u16) :: u32) = 0 \<longleftrightarrow> x = 0"
  by (simp add: word_unat_eq_iff)

context fat_disk begin

lemma analyse_bpb_volume:
  assumes "analyse_bpb io b fs = (Some fmt, fs')" and "clean fs"
  shows "bpb_volume (win fs) b fmt fs' \<and> clean fs' \<and> same_drive fs fs' \<and> pdrv fs' = pdrv fs"
proof -
  define fs1 where "fs1 = fs\<lparr>fsize := bpb_fat_size (win fs), n_fats := win fs ! BPB_NumFATs,
    csize := ucast (win fs ! BPB_SecPerClus), n_rootdir := ld_word (win fs) BPB_RootEntCnt,
    n_fatent := (bpb_total (win fs) - (ucast (ld_word (win fs) BPB_RsvdSecCnt) +
      bpb_fat_size (win fs) * ucast (win fs ! BPB_NumFATs) + ucast (ld_word (win fs) BPB_RootEntCnt div 16)))
      div ucast (win fs ! BPB_SecPerClus) + 2, volbase := b,
    fatbase := b + ucast (ld_word (win fs) BPB_RsvdSecCnt),
    database := b + (ucast (ld_word (win fs) BPB_RsvdSecCnt) +
      bpb_fat_size (win fs) * ucast (win fs ! BPB_NumFATs) + ucast (ld_word (win fs) BPB_RootEntCnt div 16)),
    dirbase := if fmt = FS_FAT32 then ld_dword (win fs) BPB_RootClus32
      else b + ucast (ld_word (win fs) BPB_RsvdSecCnt) + bpb_fat_size (win fs) * ucast (win fs ! BPB_NumFATs)\<rparr>"
  have f: "(if ucast (ld_word (win fs) BPB_FATSz16) = (0 :: u32) then ld_dword (win fs) BPB_FATSz32
      else ucast (ld_word (win fs) BPB_FATSz16)) = bpb_fat_size (win fs)"
    "(if ucast (ld_word (win fs) BPB_TotSec16) = (0 :: u32) then ld_dword (win fs) BPB_TotSec32
      else ucast (ld_word (win fs) BPB_TotSec16)) = bpb_total (win fs)"
    by (simp_all add: bpb_fat_size_def bpb_total_def ucast_eq_0)
  have "bpb_volume (win fs) b fmt fs1 \<and> fs' = load_fsinfo io fmt b fs1"
    using assms(1) unfolding analyse_bpb_def Let_def f
    by (simp add: csize_ucast not_less not_le split: if_splits)
      (auto simp: bpb_volume_def Let_def fs1_def csize_ucast not_less)
  moreover have "clean fs1" "same_drive fs fs1" "pdrv fs1 = pdrv fs"
    using assms(2) by (simp_all add: clean_def same_drive_def fs1_def)
  moreover note load_fsinfo_clean [of fs1 fmt b]
  ultimately show ?thesis
    using bpb_volume_cong [of "load_fsinfo io fmt b fs1" fs1] geometry_fields(2) same_drive_trans by metis
qed

end

lemma fat_subtype_cases:
  assumes "fmt = fat_subtype n" and "fmt \<noteq> 0"
  shows "fmt \<in> {FS_FAT12, FS_FAT16, FS_FAT32}" and "unat n + 2 \<le> unat (fat_limit fmt)"
    and "unat (fat_limit fmt) \<le> (if fmt = FS_FAT12 then 0xFF7 else if fmt = FS_FAT16 then 0xFFF7 else 0x0FFFFFF7)"
  using assms by (auto simp: fat_subtype_def fat_limit_def word_le_nat_alt split: if_splits)

lemma needed_fat_bytes:
  assumes "fmt \<in> {FS_FAT12, FS_FAT16, FS_FAT32}" and "unat n \<le> unat (fat_limit fmt)"
  shows "unat (needed_fat_size fmt n) = table_bytes fmt (unat n)" and "table_bytes fmt (unat n) < 2 ^ 31"
proof -
  have l: "unat n \<le> (if fmt = FS_FAT12 then 0xFF7 else if fmt = FS_FAT16 then 0xFFF7 else 0x0FFFFFF7)"
    using assms by (auto simp: fat_limit_def)
  have odd: "unat (n AND 1) = unat n mod 2"
    by (simp add: and_one_eq unat_mod_distrib)
  have 3: "3 * m div 2 = m + m div 2" for m :: nat by simp
  have m: "unat (n * 3) = 3 * unat n" "unat (n * 2) = 2 * unat n" "unat (n * 4) = 4 * unat n"
    if "unat n \<le> 0x0FFFFFF7"
    using that by (simp_all add: unat_mult_lem [THEN iffD1])
  have le: "unat n \<le> 0x0FFFFFF7" using l by (auto split: if_splits)
  have "unat (n * 3 div 2 + (n AND 1)) = unat n + unat n div 2 + unat n mod 2"
  proof -
    have "unat (n * 3 div 2) = unat n + unat n div 2"
      using m(1) [OF le] 3 by (simp add: unat_div_distrib)
    moreover have "unat n + unat n div 2 + unat n mod 2 < 2 ^ 32" using le by simp
    ultimately show ?thesis using odd by (simp add: u32_add)
  qed
  then show "unat (needed_fat_size fmt n) = table_bytes fmt (unat n)"
    using assms(1) m [OF le] by (auto simp: needed_fat_size_def table_bytes_def)
  show "table_bytes fmt (unat n) < 2 ^ 31"
    using l by (auto simp: table_bytes_def split: if_splits)
qed

lemma bpb_volume_ok:
  assumes "bpb_volume p b fmt fs" and "bpb_sound nsect b p" and "pdrv fs = 0" and "fs_type fs = fmt"
    and "fmt = FS_FAT32 \<longrightarrow> 2 \<le> unat (ld_word p BPB_RsvdSecCnt)"
  shows "volume_ok nsect fs"
proof -
  let ?R = "unat (ld_word p BPB_RsvdSecCnt)" and ?A = "unat (p ! BPB_NumFATs) * unat (bpb_fat_size p)"
    and ?D = "unat (ld_word p BPB_RootEntCnt) div 16" and ?T = "unat (bpb_total p)"
  define sys where "sys = ucast (ld_word p BPB_RsvdSecCnt) + bpb_fat_size p * ucast (p ! BPB_NumFATs) +
    ucast (ld_word p BPB_RootEntCnt div 16)"
  define n where "n = (bpb_total p - sys) div ucast (p ! BPB_SecPerClus)"
  have v: "fsize fs = bpb_fat_size p" "n_fats fs = p ! BPB_NumFATs" "n_fats fs \<in> {1, 2}"
    "csize fs = ucast (p ! BPB_SecPerClus)" "csize fs \<noteq> 0" "csize fs AND (csize fs - 1) = 0"
    "n_rootdir fs = ld_word p BPB_RootEntCnt" "n_rootdir fs mod 16 = 0"
    "ld_word p BPB_RsvdSecCnt \<noteq> 0" "sys \<le> bpb_total p" "n \<noteq> 0"
    "fmt = fat_subtype n" "fmt \<noteq> 0" "n_fatent fs = n + 2" "volbase fs = b"
    "fatbase fs = b + ucast (ld_word p BPB_RsvdSecCnt)" "database fs = b + sys"
    "fmt = FS_FAT32 \<longleftrightarrow> n_rootdir fs = 0"
    "fmt \<noteq> FS_FAT32 \<longrightarrow> dirbase fs = fatbase fs + bpb_fat_size p * ucast (p ! BPB_NumFATs)"
    "(needed_fat_size fmt (n + 2) + 511) div 512 \<le> fsize fs"
    using assms(1) unfolding bpb_volume_def Let_def sys_def [symmetric] n_def [symmetric] by blast+
  have r0: "?R \<noteq> 0" using v(9) by (simp add: unat_eq_0)
  have t: "?R + ?A + ?D \<le> ?T" "unat b + ?T \<le> unat nsect"
    using assms(2) by (simp_all add: bpb_sound_def bpb_system_def)
  note big = u32_unat_less [of nsect]
  have a: "unat (bpb_fat_size p * ucast (p ! BPB_NumFATs)) = ?A"
    using t big by (simp add: unat_mult_lem [THEN iffD1] mult.commute)
  have fb: "unat (fatbase fs) = unat b + ?R" using t big by (simp add: v(16) u32_add)
  have sys: "unat sys = ?R + ?A + ?D"
    using t big a by (simp add: sys_def u32_add unat_div_distrib)
  have db: "unat (database fs) = unat b + unat sys" using t big sys by (simp add: v(17) u32_add)
  have fe: "fat_end fs = unat b + ?R + ?A" by (simp add: fat_end_def fb v(1,2))
  note sub = fat_subtype_cases [OF v(12,13)]
  have n2: "unat (n_fatent fs) = unat n + 2"
    using sub(2,3) by (simp add: v(14) u32_add split: if_splits)
  have ty: "fmt \<in> {FS_FAT12, FS_FAT16, FS_FAT32}" by (rule sub(1))
  have lay: "layout nsect fs"
    using assms(3-5) v(3,15) r0 fe fb t by (auto simp: layout_def)
  have fat: "fat_ok fs"
  proof -
    have l: "unat (n + 2) \<le> unat (fat_limit fmt)" using sub(2) n2 v(14) by simp
    note nb = needed_fat_bytes [OF ty l]
    have "unat (needed_fat_size fmt (n + 2) + 511) = table_bytes fmt (unat (n + 2)) + 511"
      using nb by (simp add: u32_add)
    then have "(table_bytes fmt (unat (n + 2)) + 511) div 512 \<le> unat (fsize fs)"
      using v(20) by (simp add: word_le_nat_alt unat_div_distrib)
    then have "table_bytes fmt (unat (n + 2)) \<le> 512 * unat (fsize fs)" by linarith
    moreover have "2 \<le> n_fatent fs" "n_fatent fs \<le> fat_limit fmt"
      using n2 l v(14) by (simp_all add: word_le_nat_alt)
    ultimately show ?thesis using ty assms(4) v(14) by (simp add: fat_ok_def)
  qed
  have data: "unat (database fs) + unat (csize fs) * (unat (n_fatent fs) - 2) \<le> unat nsect"
  proof -
    have "unat n = (?T - unat sys) div unat (csize fs)"
      using v(10) by (simp add: n_def v(4) unat_div_distrib unat_sub)
    then have "unat (csize fs) * unat n \<le> ?T - unat sys" by simp
    then show ?thesis using db n2 sys t by simp
  qed
  have root: "if fs_type fs = FS_FAT32 then n_rootdir fs = 0
      else unat (dirbase fs) = fat_end fs \<and> n_rootdir fs \<noteq> 0 \<and> unat (n_rootdir fs) mod 16 = 0 \<and>
        unat (dirbase fs) + unat (n_rootdir fs) div 16 = unat (database fs)"
  proof (cases "fmt = FS_FAT32")
    case True
    then show ?thesis using v(18) assms(4) by simp
  next
    case False
    have "unat (dirbase fs) = fat_end fs"
      using v(19) False a fb fe t big by (simp add: u32_add)
    moreover have "unat (n_rootdir fs) mod 16 = 0"
      using arg_cong [OF v(8), of unat] by (simp add: unat_mod_distrib)
    ultimately show ?thesis using False v(7,18) assms(4) fe db sys by simp
  qed
  show ?thesis unfolding volume_ok_def using lay fat v(5,6) data root fe db sys by simp
qed

context fat_disk begin

lemma mount_fs_volume:
  assumes "mount_fs io s = (FR_OK, s')" and "ok (medium (vol s))" and "length (win (vol s)) = SS"
    and "pdrv (vol s) = 0"
  shows "\<exists>q. bpb_volume q (volbase (vol s')) (fs_type (vol s')) (vol s') \<and> clean (vol s') \<and>
    (volbase (vol s') < nsect \<longrightarrow> q = contents (medium (vol s')) (volbase (vol s'))) \<and>
    cdir (vol s') = 0 \<and> Files s' = clear_share (Files s) \<and> fs_id (vol s') = Fsid s' \<and> FatFs s' = FatFs s"
proof -
  obtain fmt fs1 where f: "find_volume io 0 (vol s) = (fmt, fs1)" by fastforce
  have "fmt \<noteq> 4" "\<not> 2 \<le> fmt" using assms(1) f by (auto simp: mount_fs_def split: if_splits)
  then have "fmt \<le> 1" by simp
  note v = find_volume_clean [OF assms(2-4) f this]
  obtain ty fs2 where a: "analyse_bpb io (winsect fs1) fs1 = (Some ty, fs2)"
    "s' = s\<lparr>vol := fs2\<lparr>fs_type := ty, fs_id := Fsid s + 1, cdir := 0\<rparr>, Fsid := Fsid s + 1,
      Files := clear_share (Files s)\<rparr>"
    using assms(1) f v by (auto simp: mount_fs_def split: prod.splits option.splits)
  have c1: "clean fs1" using v by blast
  note b = analyse_bpb_volume [OF a(1) c1]
  have g: "bpb_volume q x t (fs2\<lparr>fs_type := ty, fs_id := y, cdir := 0\<rparr>) = bpb_volume q x t fs2" for q x t y
    by (simp add: bpb_volume_def)
  have vb: "volbase fs2 = winsect fs1" using b by (simp add: bpb_volume_def Let_def)
  have "win fs1 = contents (medium fs2) (winsect fs1)" if "winsect fs1 < nsect"
    using c1 that b by (simp add: clean_def same_drive_def)
  then show ?thesis
    using a(2) b g vb by (intro exI [of _ "win fs1"]) (simp add: clean_def)
qed

end

lemma mount_volume_unmounted:
  assumes "mount_volume io mx path mode s = Some (FR_OK, True, path', s')" and "fs_type (vol s) = 0"
  obtains k st d where "io_initialize io (pdrv (vol s)) (medium (vol s)) = (st, d)"
    and "st AND STA_NOINIT = 0"
    and "mount_fs io (s\<lparr>mutexes := k, vol := (vol s)\<lparr>fs_type := 0, medium := d\<rparr>\<rparr>) = (FR_OK, s')"
proof -
  obtain v q where v: "get_ldnumber (CurrVol s) path = Some (v, q)"
    using assms(1) by (cases "get_ldnumber (CurrVol s) path") (auto simp: mount_volume_def)
  have "\<not> v < 0" "FatFs s" using assms(1) v by (auto simp: mount_volume_def split: if_splits)
  moreover obtain b k where l: "mx_take mx (unat (ldrv (vol s))) (mutexes s) = (b, k)" by fastforce
  moreover have b using assms(1) v calculation
    by (cases b) (simp_all add: mount_volume_def lock_volume_def)
  moreover obtain st d where i: "io_initialize io (pdrv (vol s)) (medium (vol s)) = (st, d)" by fastforce
  ultimately have m: "mount_volume io mx path mode s =
      (if st AND STA_NOINIT \<noteq> 0
       then Some (FR_NOT_READY, True, q, s\<lparr>mutexes := k, vol := (vol s)\<lparr>fs_type := 0, medium := d\<rparr>\<rparr>)
       else if mode AND NOT FA_READ \<noteq> 0 \<and> st AND STA_PROTECT \<noteq> 0
       then Some (FR_WRITE_PROTECTED, True, q, s\<lparr>mutexes := k, vol := (vol s)\<lparr>fs_type := 0, medium := d\<rparr>\<rparr>)
       else case mount_fs io (s\<lparr>mutexes := k, vol := (vol s)\<lparr>fs_type := 0, medium := d\<rparr>\<rparr>) of
              (res, s3) \<Rightarrow> Some (res, True, q, s3))"
    using v assms(2) by (simp add: mount_volume_def mounted_status_def lock_volume_def Let_def)
  show thesis
  proof (rule that [OF i])
    show "st AND STA_NOINIT = 0" using m assms(1) by (auto split: if_splits)
    show "mount_fs io (s\<lparr>mutexes := k, vol := (vol s)\<lparr>fs_type := 0, medium := d\<rparr>\<rparr>) = (FR_OK, s')"
      using m assms(1) by (auto split: if_splits prod.splits)
  qed
qed

section \<open>Properties of mounting\<close>

text \<open>C11: a successful mount establishes the geometry that the file system relies on. When the drive
  obeys its contract and the areas that the boot record declares fit the volume and the drive (which
  the code does not check in full), the mounted object has its tables, its root directory and its
  clusters one after the other on the drive, a table with an entry for every cluster, a window that
  agrees with the drive, the root as current directory and no open file.\<close>

theorem mount_geometry:
  assumes "fat_disk io ok contents nsect"
    and "mount_volume io mx path mode s = Some (FR_OK, True, path', s')" and "fs_type (vol s) = 0"
    and "pdrv (vol s) = 0" and "length (win (vol s)) = SS"
    and "\<forall>st d. io_initialize io 0 (medium (vol s)) = (st, d) \<longrightarrow> st AND STA_NOINIT = 0 \<longrightarrow> ok d"
    and "bpb_sound nsect (volbase (vol s')) (contents (medium (vol s')) (volbase (vol s')))"
    and "fs_type (vol s') = FS_FAT32 \<longrightarrow>
      2 \<le> unat (ld_word (contents (medium (vol s')) (volbase (vol s'))) BPB_RsvdSecCnt)"
  shows "volume_ok nsect (vol s') \<and> window_ok ok contents nsect (vol s') \<and> cdir (vol s') = 0 \<and>
    (\<forall>e \<in> set (Files s'). \<not> sem_fs e) \<and> fs_id (vol s') = Fsid s'"
proof -
  obtain k st d where i: "io_initialize io (pdrv (vol s)) (medium (vol s)) = (st, d)"
    "st AND STA_NOINIT = 0"
    "mount_fs io (s\<lparr>mutexes := k, vol := (vol s)\<lparr>fs_type := 0, medium := d\<rparr>\<rparr>) = (FR_OK, s')"
    by (rule mount_volume_unmounted [OF assms(2,3)])
  have d: "ok d" using assms(4,6) i(1,2) by auto
  obtain q where q: "bpb_volume q (volbase (vol s')) (fs_type (vol s')) (vol s')"
    "fat_disk.clean ok contents nsect (vol s')"
    "volbase (vol s') < nsect \<longrightarrow> q = contents (medium (vol s')) (volbase (vol s'))"
    "cdir (vol s') = 0" "Files s' = clear_share (Files s)" "fs_id (vol s') = Fsid s'"
    using fat_disk.mount_fs_volume [OF assms(1) i(3)] d assms(4,5) by auto
  have vb: "volbase (vol s') < nsect" using assms(7) by (simp add: bpb_sound_def word_less_nat_alt)
  note cl = q(2) [unfolded fat_disk.clean_def [OF assms(1)]]
  have "volume_ok nsect (vol s')"
    using bpb_volume_ok [OF q(1) _ _ refl] q(3) vb assms(7,8) cl by simp
  moreover have "window_ok ok contents nsect (vol s')" using cl by (simp add: window_ok_def)
  moreover have "\<forall>e \<in> set (Files s'). \<not> sem_fs e" by (simp add: q(5) clear_share_def)
  ultimately show ?thesis using q(4,6) by blast
qed

text \<open>A drive in memory, and a boot record: 200 sectors, one sector per cluster, two FATs of a sector.\<close>

definition ram_io :: "(u32 \<Rightarrow> byte list) disk_io" where
  "ram_io =
    \<lparr>io_read = (\<lambda>drv k n d. (RES_OK, concat (map (\<lambda>i. d (k + of_nat i)) [0..<unat n]), d)),
     io_write = (\<lambda>drv b k n d. (RES_OK, \<lambda>j. if j - k < n then take 512 (drop (512 * unat (j - k)) b) else d j)),
     io_sync = (\<lambda>drv d. (RES_OK, d)), io_status = (\<lambda>drv d. (0, d)), io_initialize = (\<lambda>drv d. (0, d))\<rparr>"

definition ram_ok :: "(u32 \<Rightarrow> byte list) \<Rightarrow> bool" where
  "ram_ok d \<longleftrightarrow> (\<forall>k. length (d k) = 512)"

lemma ram_fat_disk: "fat_disk ram_io ram_ok (\<lambda>d. d) nsect"
proof
  have one: "j - k < 1 \<longleftrightarrow> j = k" for j k :: u32 by (simp add: word_less_nat_alt unat_eq_0)
  show "ram_ok d' \<and> (\<forall>j < nsect. j \<noteq> k \<longrightarrow> d' j = d j) \<and> (r = RES_OK \<longrightarrow> d' k = b)"
    if "ram_ok d" "k < nsect" "length b = 512" "io_write ram_io 0 b k 1 d = (r, d')" for d k b r d'
    using that by (auto simp: ram_io_def ram_ok_def one)
qed (auto simp: ram_io_def ram_ok_def)

definition sample_boot :: "byte list" where
  "sample_boot = [0xEB] @ replicate 10 0 @ [0x00, 0x02, 1, 1, 0, 2, 16, 0, 200, 0, 0, 1, 0] @
     replicate 486 0 @ [0x55, 0xAA]"

definition ram_mutex :: "unit ff_mutex" where
  "ram_mutex = \<lparr>mx_create = (\<lambda>v k. (True, k)), mx_delete = (\<lambda>v k. k), mx_take = (\<lambda>v k. (True, k)),
                mx_give = (\<lambda>v k. k)\<rparr>"

definition ram_system :: "(u32 \<Rightarrow> byte list) \<Rightarrow> (u32 \<Rightarrow> byte list, unit) ffsys" where
  "ram_system d =
    \<lparr>vol = \<lparr>fs_type = 0, pdrv = 0, ldrv = 0, n_fats = 0, wflag = 0, fsi_flag = 0, fs_id = 0, n_rootdir = 0,
            csize = 0, last_clst = 0, free_clst = 0, cdir = 0, n_fatent = 0, fsize = 0, volbase = 0,
            fatbase = 0, dirbase = 0, database = 0, winsect = 0, win = replicate 512 0, medium = d\<rparr>,
     FatFs = True, Fsid = 0, CurrVol = 0,
     Files = [\<lparr>sem_fs = False, sem_clu = 0, sem_ofs = 0, sem_ctr = 0\<rparr>], SysLock = 1, mutexes = ()\<rparr>"

definition sample_disk :: "u32 \<Rightarrow> byte list" where
  "sample_disk k = (if k = 0 then sample_boot else replicate 512 0)"

lemma sample_mount:
  "case mount_volume ram_io ram_mutex (Some [0x2F, 0]) 0 (ram_system sample_disk) of
     None \<Rightarrow> False
   | Some (r, has, p, s) \<Rightarrow> r = FR_OK \<and> has \<and> volbase (vol s) = 0 \<and> fs_type (vol s) = FS_FAT12 \<and>
       bpb_sound 200 0 (medium (vol s) 0)"
  by code_simp

theorem mount_geometry_witness:
  "\<exists>p s. mount_volume ram_io ram_mutex (Some [0x2F, 0]) 0 (ram_system sample_disk) = Some (FR_OK, True, p, s) \<and>
     volume_ok 200 (vol s)"
proof -
  obtain p s where m: "mount_volume ram_io ram_mutex (Some [0x2F, 0]) 0 (ram_system sample_disk)
      = Some (FR_OK, True, p, s)"
    "volbase (vol s) = 0" "fs_type (vol s) = FS_FAT12" "bpb_sound 200 0 (medium (vol s) 0)"
    using sample_mount by (auto split: option.splits)
  have i: "\<forall>st d. io_initialize ram_io 0 (medium (vol (ram_system sample_disk))) = (st, d) \<longrightarrow>
      st AND STA_NOINIT = 0 \<longrightarrow> ram_ok d"
    by (simp add: ram_io_def ram_system_def ram_ok_def sample_disk_def sample_boot_def)
  have z: "fs_type (vol (ram_system sample_disk)) = 0" "pdrv (vol (ram_system sample_disk)) = 0"
    "length (win (vol (ram_system sample_disk))) = SS"
    by (simp_all add: ram_system_def)
  from mount_geometry [OF ram_fat_disk m(1) z i, of 200] m show ?thesis by simp
qed

end
