(* ===== verification/FatFile.thy ===== *)
theory FatFile
  imports FatMount
begin

text \<open>
  Files (\<^verbatim>\<open>ff.c\<close>: \<open>f_open\<close>, \<open>f_read\<close>, \<open>f_write\<close>, \<open>f_sync\<close>, \<open>f_close\<close>, \<open>f_lseek\<close>,
  \<open>f_truncate\<close>). A file object is the record \<open>ffil\<close>, its pointer into the window an offset. The
  caller's buffer is an explicit list of bytes; the position of \<open>rbuff\<close> and \<open>wbuff\<close> in it is the
  number of bytes transferred so far, which the code counts in \<open>*br\<close> and \<open>*bw\<close>. The value of
  \<open>GET_FATTIME\<close> is an argument. \<open>None\<close> is a loop that does not end or a path that is not terminated.
\<close>

section \<open>File objects\<close>

record ffil =
  fobj :: ffobj
  fflag :: byte
  ferr :: fresult      \<comment> \<open>the abort flag\<close>
  fptr :: u32
  fclust :: u32        \<comment> \<open>the current cluster, invalid when \<open>fptr\<close> is 0\<close>
  fsect :: u32         \<comment> \<open>the sector in the buffer, 0: invalid\<close>
  dir_sect :: u32
  dir_ptr :: nat
  fbuf :: "byte list"

abbreviation FA_CREATE_NEW :: byte where "FA_CREATE_NEW \<equiv> 0x04"
abbreviation FA_CREATE_ALWAYS :: byte where "FA_CREATE_ALWAYS \<equiv> 0x08"
abbreviation FA_OPEN_ALWAYS :: byte where "FA_OPEN_ALWAYS \<equiv> 0x10"
abbreviation FA_OPEN_APPEND :: byte where "FA_OPEN_APPEND \<equiv> 0x30"
abbreviation FA_SEEKEND :: byte where "FA_SEEKEND \<equiv> 0x20"
abbreviation FA_MODIFIED :: byte where "FA_MODIFIED \<equiv> 0x40"
abbreviation FA_DIRTY :: byte where "FA_DIRTY \<equiv> 0x80"

definition flush_buf ::
  "'d disk_io \<Rightarrow> ffil \<Rightarrow> 'd fatfs \<Rightarrow> fresult \<times> ffil \<times> 'd fatfs" where
  \<comment> \<open>write back a dirty sector cache\<close>
  "flush_buf io fp fs =
    (if fflag fp AND FA_DIRTY \<noteq> 0 then
       (case io_write io (pdrv fs) (fbuf fp) (fsect fp) 1 (medium fs) of
          (r, d) \<Rightarrow>
            if r \<noteq> RES_OK then (FR_DISK_ERR, fp, fs\<lparr>medium := d\<rparr>)
            else (FR_OK, fp\<lparr>fflag := fflag fp AND NOT FA_DIRTY\<rparr>, fs\<lparr>medium := d\<rparr>))
     else (FR_OK, fp, fs))"

definition load_buf ::
  "'d disk_io \<Rightarrow> u32 \<Rightarrow> ffil \<Rightarrow> 'd fatfs \<Rightarrow> fresult \<times> ffil \<times> 'd fatfs" where
  \<comment> \<open>fill the sector cache\<close>
  "load_buf io sect fp fs =
    (case io_read io (pdrv fs) sect 1 (medium fs) of
       (r, bs, d) \<Rightarrow>
         (if r \<noteq> RES_OK then FR_DISK_ERR else FR_OK, fp\<lparr>fbuf := store_at 0 bs (fbuf fp)\<rparr>,
          fs\<lparr>medium := d\<rparr>))"

section \<open>Reading\<close>

definition read_clust ::
  "'d disk_io \<Rightarrow> u32 \<Rightarrow> ffil \<Rightarrow> 'd fatfs \<Rightarrow> fresult \<times> ffil \<times> 'd fatfs" where
  \<comment> \<open>the current cluster, on a sector boundary\<close>
  "read_clust io csect fp fs =
    (if csect = 0 then
       (case (if fptr fp = 0 then (sclust (fobj fp), fs) else get_fat io (fclust fp) fs) of
          (clst, fs) \<Rightarrow>
            if clst < 2 then (FR_INT_ERR, fp, fs)
            else if clst = 0xFFFFFFFF then (FR_DISK_ERR, fp, fs)
            else (FR_OK, fp\<lparr>fclust := clst\<rparr>, fs))
     else (FR_OK, fp, fs))"

definition read_part :: "u32 \<Rightarrow> u32 \<Rightarrow> byte list \<Rightarrow> ffil \<Rightarrow> u32 \<times> byte list" where
  \<comment> \<open>from the sector cache: the number of bytes and the caller's buffer\<close>
  "read_part btr br buff fp =
    (let rcnt = 512 - fptr fp mod 512;
         rcnt = (if rcnt > btr then btr else rcnt)
     in (rcnt, store_at (unat br) (take (unat rcnt) (drop (unat (fptr fp mod 512)) (fbuf fp))) buff))"

definition read_direct ::
  "'d disk_io \<Rightarrow> u32 \<Rightarrow> u32 \<Rightarrow> u32 \<Rightarrow> byte list \<Rightarrow> ffil \<Rightarrow> 'd fatfs \<Rightarrow>
    fresult \<times> u32 \<times> byte list \<times> ffil \<times> 'd fatfs" where
  \<comment> \<open>whole sectors into the caller's buffer; a dirty cached sector replaces its copy on the drive\<close>
  "read_direct io sect cc br buff fp fs =
    (case io_read io (pdrv fs) sect cc (medium fs) of
       (r, bs, d) \<Rightarrow>
         let buff = store_at (unat br) bs buff; fs = fs\<lparr>medium := d\<rparr> in
         if r \<noteq> RES_OK then (FR_DISK_ERR, 0, buff, fp, fs)
         else (FR_OK, 512 * cc,
               if fflag fp AND FA_DIRTY \<noteq> 0 \<and> fsect fp - sect < cc
               then store_at (unat br + unat ((fsect fp - sect) * 512)) (fbuf fp) buff else buff,
               fp, fs))"

definition read_chunk ::
  "'d disk_io \<Rightarrow> u32 \<Rightarrow> u32 \<Rightarrow> byte list \<Rightarrow> ffil \<Rightarrow> 'd fatfs \<Rightarrow>
    fresult \<times> u32 \<times> byte list \<times> ffil \<times> 'd fatfs" where
  \<comment> \<open>the body of the loop: \<open>rcnt\<close> and the caller's buffer; an error is an \<open>ABORT\<close>\<close>
  "read_chunk io btr br buff fp fs =
    (if fptr fp mod 512 = 0 then
       (let csect = fptr fp div 512 AND (ucast (csize fs) - 1) in
        case read_clust io csect fp fs of
          (res, fp, fs) \<Rightarrow>
            if res \<noteq> FR_OK then (res, 0, buff, fp, fs)
            else
              (let sect = clst2sect (fclust fp) fs in
               if sect = 0 then (FR_INT_ERR, 0, buff, fp, fs)
               else
                 (let sect = sect + csect; cc = btr div 512 in
                  if cc > 0 then
                    read_direct io sect
                      (if csect + cc > ucast (csize fs) then ucast (csize fs) - csect else cc) br buff fp fs
                  else
                    (case (if fsect fp \<noteq> sect then
                             (case flush_buf io fp fs of
                                (res, fp, fs) \<Rightarrow>
                                  if res \<noteq> FR_OK then (res, fp, fs) else load_buf io sect fp fs)
                           else (FR_OK, fp, fs)) of
                       (res, fp, fs) \<Rightarrow>
                         if res \<noteq> FR_OK then (res, 0, buff, fp, fs)
                         else
                           (let fp = fp\<lparr>fsect := sect\<rparr> in
                            case read_part btr br buff fp of (rcnt, buff) \<Rightarrow> (FR_OK, rcnt, buff, fp, fs))))))
     else (case read_part btr br buff fp of (rcnt, buff) \<Rightarrow> (FR_OK, rcnt, buff, fp, fs)))"

partial_function (option) read_bytes ::
  "'d disk_io \<Rightarrow> u32 \<Rightarrow> u32 \<Rightarrow> byte list \<Rightarrow> ffil \<Rightarrow> 'd fatfs \<Rightarrow>
    (fresult \<times> u32 \<times> byte list \<times> ffil \<times> 'd fatfs) option" where
  "read_bytes io btr br buff fp fs =
    (if btr = 0 then Some (FR_OK, br, buff, fp, fs)
     else
       (case read_chunk io btr br buff fp fs of
          (res, rcnt, buff, fp, fs) \<Rightarrow>
            if res \<noteq> FR_OK then Some (res, br, buff, fp, fs)
            else read_bytes io (btr - rcnt) (br + rcnt) buff (fp\<lparr>fptr := fptr fp + rcnt\<rparr>) fs))"

definition f_read ::
  "'d disk_io \<Rightarrow> 'o ff_mutex \<Rightarrow> ffil \<Rightarrow> byte list \<Rightarrow> u32 \<Rightarrow> ('d, 'o) ffsys \<Rightarrow>
    (fresult \<times> u32 \<times> byte list \<times> ffil \<times> ('d, 'o) ffsys) option" where
  \<comment> \<open>the result, \<open>*br\<close>, the caller's buffer, the file object and the state\<close>
  "f_read io mx fp buff btr s =
    (case validate io mx (fobj fp) s of
       (res, has, s) \<Rightarrow>
         (let res = (if res \<noteq> FR_OK then res else ferr fp) in
          if res \<noteq> FR_OK then Some (res, 0, buff, fp, unlock_volume mx has res s)
          else if fflag fp AND FA_READ = 0
          then Some (FR_DENIED, 0, buff, fp, unlock_volume mx has FR_DENIED s)
          else
            (let remain = objsize (fobj fp) - fptr fp;
                 btr = (if btr > remain then remain else btr)
             in do { (res, br, buff, fp, fs) \<leftarrow> read_bytes io btr 0 buff fp (vol s);
                     Some (res, br, buff, if res \<noteq> FR_OK then fp\<lparr>ferr := res\<rparr> else fp,
                           unlock_volume mx has res (s\<lparr>vol := fs\<rparr>)) })))"

section \<open>Writing\<close>

definition write_clust ::
  "'d disk_io \<Rightarrow> u32 \<Rightarrow> ffil \<Rightarrow> 'd fatfs \<Rightarrow> (fresult option \<times> ffil \<times> 'd fatfs) option" where
  \<comment> \<open>the current cluster, on a sector boundary; the inner \<open>None\<close>: the disk is full\<close>
  "write_clust io csect fp fs =
    (if csect = 0 then
       do { (clst, fs) \<leftarrow>
              (if fptr fp = 0 then
                 (if sclust (fobj fp) = 0 then create_chain io 0 fs else Some (sclust (fobj fp), fs))
               else create_chain io (fclust fp) fs);
            Some (if clst = 0 then (None, fp, fs)
                  else if clst = 1 then (Some FR_INT_ERR, fp, fs)
                  else if clst = 0xFFFFFFFF then (Some FR_DISK_ERR, fp, fs)
                  else (Some FR_OK,
                        fp\<lparr>fclust := clst,
                           fobj := (if sclust (fobj fp) = 0 then (fobj fp)\<lparr>sclust := clst\<rparr> else fobj fp)\<rparr>,
                        fs)) }
     else Some (Some FR_OK, fp, fs))"

definition write_part :: "u32 \<Rightarrow> u32 \<Rightarrow> byte list \<Rightarrow> ffil \<Rightarrow> u32 \<times> ffil" where
  \<comment> \<open>into the sector cache\<close>
  "write_part btw bw buff fp =
    (let wcnt = 512 - fptr fp mod 512;
         wcnt = (if wcnt > btw then btw else wcnt)
     in (wcnt, fp\<lparr>fbuf := store_at (unat (fptr fp mod 512)) (take (unat wcnt) (drop (unat bw) buff)) (fbuf fp),
                 fflag := fflag fp OR FA_DIRTY\<rparr>))"

definition write_direct ::
  "'d disk_io \<Rightarrow> u32 \<Rightarrow> u32 \<Rightarrow> u32 \<Rightarrow> byte list \<Rightarrow> ffil \<Rightarrow> 'd fatfs \<Rightarrow>
    fresult \<times> u32 \<times> ffil \<times> 'd fatfs" where
  \<comment> \<open>whole sectors from the caller's buffer, the bytes the driver reads behind \<open>wbuff\<close>\<close>
  "write_direct io sect cc bw buff fp fs =
    (case io_write io (pdrv fs) (take (512 * unat cc) (drop (unat bw) buff)) sect cc (medium fs) of
       (r, d) \<Rightarrow>
         let fs = fs\<lparr>medium := d\<rparr> in
         if r \<noteq> RES_OK then (FR_DISK_ERR, 0, fp, fs)
         else (FR_OK, 512 * cc,
               if fsect fp - sect < cc
               then fp\<lparr>fbuf := take 512 (drop (unat bw + unat ((fsect fp - sect) * 512)) buff),
                       fflag := fflag fp AND NOT FA_DIRTY\<rparr>
               else fp, fs))"

definition write_sector ::
  "'d disk_io \<Rightarrow> u32 \<Rightarrow> u32 \<Rightarrow> u32 \<Rightarrow> byte list \<Rightarrow> ffil \<Rightarrow> 'd fatfs \<Rightarrow>
    fresult \<times> u32 \<times> ffil \<times> 'd fatfs" where
  \<comment> \<open>on a sector boundary, the current cluster being known\<close>
  "write_sector io csect btw bw buff fp fs =
    (case flush_buf io fp fs of
       (res, fp, fs) \<Rightarrow>
         if res \<noteq> FR_OK then (res, 0, fp, fs)
         else
           (let sect = clst2sect (fclust fp) fs in
            if sect = 0 then (FR_INT_ERR, 0, fp, fs)
            else
              (let sect = sect + csect; cc = btw div 512 in
               if cc > 0 then
                 write_direct io sect
                   (if csect + cc > ucast (csize fs) then ucast (csize fs) - csect else cc) bw buff fp fs
               else
                 (case (if fsect fp \<noteq> sect \<and> fptr fp < objsize (fobj fp) then load_buf io sect fp fs
                        else (FR_OK, fp, fs)) of
                    (res, fp, fs) \<Rightarrow>
                      if res \<noteq> FR_OK then (FR_DISK_ERR, 0, fp, fs)
                      else
                        (case write_part btw bw buff (fp\<lparr>fsect := sect\<rparr>) of
                           (wcnt, fp) \<Rightarrow> (FR_OK, wcnt, fp, fs))))))"

definition write_chunk ::
  "'d disk_io \<Rightarrow> u32 \<Rightarrow> u32 \<Rightarrow> byte list \<Rightarrow> ffil \<Rightarrow> 'd fatfs \<Rightarrow>
    (fresult option \<times> u32 \<times> ffil \<times> 'd fatfs) option" where
  \<comment> \<open>the body of the loop; the inner \<open>None\<close> is the \<open>break\<close> on a full disk\<close>
  "write_chunk io btw bw buff fp fs =
    (if fptr fp mod 512 = 0 then
       (let csect = fptr fp div 512 AND (ucast (csize fs) - 1) in
        do { (x, fp, fs) \<leftarrow> write_clust io csect fp fs;
             Some (if x = Some FR_OK then
                     (case write_sector io csect btw bw buff fp fs of (res, r) \<Rightarrow> (Some res, r))
                   else (x, 0, fp, fs)) })
     else Some (Some FR_OK, case write_part btw bw buff fp of (wcnt, fp) \<Rightarrow> (wcnt, fp, fs)))"

definition advance :: "u32 \<Rightarrow> ffil \<Rightarrow> ffil" where
  \<comment> \<open>the pointer after \<open>wcnt\<close> bytes were written, and the size\<close>
  "advance wcnt fp =
    (let fp = fp\<lparr>fptr := fptr fp + wcnt\<rparr> in
     fp\<lparr>fobj := (fobj fp)\<lparr>objsize := if fptr fp > objsize (fobj fp) then fptr fp else objsize (fobj fp)\<rparr>\<rparr>)"

partial_function (option) write_bytes ::
  "'d disk_io \<Rightarrow> u32 \<Rightarrow> u32 \<Rightarrow> byte list \<Rightarrow> ffil \<Rightarrow> 'd fatfs \<Rightarrow>
    (fresult \<times> u32 \<times> ffil \<times> 'd fatfs) option" where
  "write_bytes io btw bw buff fp fs =
    (if btw = 0 then Some (FR_OK, bw, fp, fs)
     else
       do { (x, wcnt, fp, fs) \<leftarrow> write_chunk io btw bw buff fp fs;
            case x of
              None \<Rightarrow> Some (FR_OK, bw, fp, fs)
            | Some res \<Rightarrow>
                if res \<noteq> FR_OK then Some (res, bw, fp, fs)
                else write_bytes io (btw - wcnt) (bw + wcnt) buff (advance wcnt fp) fs })"

definition f_write ::
  "'d disk_io \<Rightarrow> 'o ff_mutex \<Rightarrow> ffil \<Rightarrow> byte list \<Rightarrow> u32 \<Rightarrow> ('d, 'o) ffsys \<Rightarrow>
    (fresult \<times> u32 \<times> ffil \<times> ('d, 'o) ffsys) option" where
  "f_write io mx fp buff btw s =
    (case validate io mx (fobj fp) s of
       (res, has, s) \<Rightarrow>
         (let res = (if res \<noteq> FR_OK then res else ferr fp) in
          if res \<noteq> FR_OK then Some (res, 0, fp, unlock_volume mx has res s)
          else if fflag fp AND FA_WRITE = 0
          then Some (FR_DENIED, 0, fp, unlock_volume mx has FR_DENIED s)
          else
            (let btw = (if fptr fp + btw < fptr fp then 0xFFFFFFFF - fptr fp else btw) in
             do { (res, bw, fp, fs) \<leftarrow> write_bytes io btw 0 buff fp (vol s);
                  Some (res, bw, if res \<noteq> FR_OK then fp\<lparr>ferr := res\<rparr>
                                 else fp\<lparr>fflag := fflag fp OR FA_MODIFIED\<rparr>,
                        unlock_volume mx has res (s\<lparr>vol := fs\<rparr>)) })))"

section \<open>Synchronising and closing\<close>

definition update_entry :: "u32 \<Rightarrow> ffil \<Rightarrow> 'd fatfs \<Rightarrow> 'd fatfs" where
  \<comment> \<open>the directory entry of a changed file, in the window\<close>
  "update_entry tm fp fs =
    (let dir = dir_ptr fp;
         w = win fs;
         w = w[dir + DIR_Attr := w ! (dir + DIR_Attr) OR AM_ARC];
         w = st_clust fs w dir (sclust (fobj fp));
         w = st_dword w (dir + DIR_FileSize) (objsize (fobj fp));
         w = st_dword w (dir + DIR_ModTime) tm;
         w = st_word w (dir + DIR_LstAccDate) 0
     in fs\<lparr>win := w, wflag := 1\<rparr>)"

definition sync_file ::
  "'d disk_io \<Rightarrow> u32 \<Rightarrow> ffil \<Rightarrow> 'd fatfs \<Rightarrow> fresult \<times> ffil \<times> 'd fatfs" where
  \<comment> \<open>the branch for a valid object\<close>
  "sync_file io tm fp fs =
    (if fflag fp AND FA_MODIFIED \<noteq> 0 then
       (case flush_buf io fp fs of
          (res, fp, fs) \<Rightarrow>
            if res \<noteq> FR_OK then (FR_DISK_ERR, fp, fs)
            else
              (case move_window io (dir_sect fp) fs of
                 (res, fs) \<Rightarrow>
                   if res = FR_OK then
                     (case sync_fs io (update_entry tm fp fs) of
                        (res, fs) \<Rightarrow> (res, fp\<lparr>fflag := fflag fp AND NOT FA_MODIFIED\<rparr>, fs))
                   else (res, fp, fs)))
     else (FR_OK, fp, fs))"

definition f_sync ::
  "'d disk_io \<Rightarrow> 'o ff_mutex \<Rightarrow> u32 \<Rightarrow> ffil \<Rightarrow> ('d, 'o) ffsys \<Rightarrow> fresult \<times> ffil \<times> ('d, 'o) ffsys" where
  "f_sync io mx tm fp s =
    (case validate io mx (fobj fp) s of
       (res, has, s) \<Rightarrow>
         if res = FR_OK then
           (case sync_file io tm fp (vol s) of
              (res, fp, fs) \<Rightarrow> (res, fp, unlock_volume mx has res (s\<lparr>vol := fs\<rparr>)))
         else (res, fp, unlock_volume mx has res s))"

definition f_close ::
  "'d disk_io \<Rightarrow> 'o ff_mutex \<Rightarrow> u32 \<Rightarrow> ffil \<Rightarrow> ('d, 'o) ffsys \<Rightarrow> fresult \<times> ffil \<times> ('d, 'o) ffsys" where
  "f_close io mx tm fp s =
    (case f_sync io mx tm fp s of
       (res, fp, s) \<Rightarrow>
         if res = FR_OK then
           (case validate io mx (fobj fp) s of
              (res, has, s) \<Rightarrow>
                if res = FR_OK then
                  (case dec_share (Files s) (lockid (fobj fp)) of
                     (res, F) \<Rightarrow>
                       (res, if res = FR_OK then fp\<lparr>fobj := (fobj fp)\<lparr>obj_fs := False\<rparr>\<rparr> else fp,
                        unlock_volume mx has FR_OK (s\<lparr>Files := F\<rparr>)))
                else (res, fp, s))
         else (res, fp, s))"

section \<open>Seeking and truncating\<close>

partial_function (option) seek_follow ::
  "'d disk_io \<Rightarrow> u32 \<Rightarrow> u32 \<Rightarrow> u32 \<Rightarrow> ffil \<Rightarrow> 'd fatfs \<Rightarrow>
    (fresult \<times> u32 \<times> u32 \<times> ffil \<times> 'd fatfs) option" where
  \<comment> \<open>the cluster following loop: the result, \<open>clst\<close> and \<open>ofs\<close>\<close>
  "seek_follow io bcs clst ofs fp fs =
    (if ofs > bcs then
       (let ofs = ofs - bcs; fp = fp\<lparr>fptr := fptr fp + bcs\<rparr> in
        do { (clst, fs) \<leftarrow>
               (if fflag fp AND FA_WRITE \<noteq> 0 then create_chain io clst fs else Some (get_fat io clst fs));
             if fflag fp AND FA_WRITE \<noteq> 0 \<and> clst = 0 then Some (FR_OK, clst, 0, fp, fs)
             else if clst = 0xFFFFFFFF then Some (FR_DISK_ERR, clst, ofs, fp, fs)
             else if clst \<le> 1 \<or> clst \<ge> n_fatent fs then Some (FR_INT_ERR, clst, ofs, fp, fs)
             else seek_follow io bcs clst ofs (fp\<lparr>fclust := clst\<rparr>) fs })
     else Some (FR_OK, clst, ofs, fp, fs))"

definition seek_start ::
  "'d disk_io \<Rightarrow> u32 \<Rightarrow> u32 \<Rightarrow> u32 \<Rightarrow> ffil \<Rightarrow> 'd fatfs \<Rightarrow>
    (fresult \<times> u32 \<times> u32 \<times> ffil \<times> 'd fatfs) option" where
  \<comment> \<open>from the pointer \<open>ifptr\<close> before the seek: the cluster to start from and the rest of the offset\<close>
  "seek_start io bcs ifptr ofs fp fs =
    (if ifptr > 0 \<and> (ofs - 1) div bcs \<ge> (ifptr - 1) div bcs then
       (let p = (ifptr - 1) AND NOT (bcs - 1) in
        Some (FR_OK, fclust fp, ofs - p, fp\<lparr>fptr := p\<rparr>, fs))
     else
       (let clst = sclust (fobj fp) in
        do { (clst, fs, fp) \<leftarrow>
               (if clst = 0 then
                  do { (clst, fs) \<leftarrow> create_chain io 0 fs;
                       Some (clst, fs,
                             if clst = 1 \<or> clst = 0xFFFFFFFF then fp
                             else fp\<lparr>fobj := (fobj fp)\<lparr>sclust := clst\<rparr>\<rparr>) }
                else Some (clst, fs, fp));
             Some (if sclust (fobj fp) = 0 \<and> clst = 1 then (FR_INT_ERR, clst, ofs, fp, fs)
                   else if sclust (fobj fp) = 0 \<and> clst = 0xFFFFFFFF then (FR_DISK_ERR, clst, ofs, fp, fs)
                   else (FR_OK, clst, ofs, fp\<lparr>fclust := clst\<rparr>, fs)) }))"

definition seek_move ::
  "'d disk_io \<Rightarrow> u32 \<Rightarrow> ffil \<Rightarrow> 'd fatfs \<Rightarrow> (fresult \<times> u32 \<times> ffil \<times> 'd fatfs) option" where
  \<comment> \<open>move the pointer: the result and \<open>nsect\<close>\<close>
  "seek_move io ofs fp fs =
    (let ifptr = fptr fp; fp = fp\<lparr>fptr := 0\<rparr>; bcs = ucast (csize fs) * 512 in
     if ofs > 0 then
       do { (res, clst, ofs, fp, fs) \<leftarrow> seek_start io bcs ifptr ofs fp fs;
            if res \<noteq> FR_OK then Some (res, 0, fp, fs)
            else if clst \<noteq> 0 then
              do { (res, clst, ofs, fp, fs) \<leftarrow> seek_follow io bcs clst ofs fp fs;
                   if res \<noteq> FR_OK then Some (res, 0, fp, fs)
                   else
                     (let fp = fp\<lparr>fptr := fptr fp + ofs\<rparr> in
                      if ofs mod 512 \<noteq> 0 then
                        (let nsect = clst2sect clst fs in
                         Some (if nsect = 0 then (FR_INT_ERR, 0, fp, fs)
                               else (FR_OK, nsect + ofs div 512, fp, fs)))
                      else Some (FR_OK, 0, fp, fs)) }
            else Some (FR_OK, 0, fp, fs) }
     else Some (FR_OK, 0, fp, fs))"

definition seek_load ::
  "'d disk_io \<Rightarrow> u32 \<Rightarrow> ffil \<Rightarrow> 'd fatfs \<Rightarrow> fresult \<times> ffil \<times> 'd fatfs" where
  \<comment> \<open>fill the sector cache at the new pointer\<close>
  "seek_load io nsect fp fs =
    (if fptr fp mod 512 \<noteq> 0 \<and> nsect \<noteq> fsect fp then
       (case flush_buf io fp fs of
          (res, fp, fs) \<Rightarrow>
            if res \<noteq> FR_OK then (res, fp, fs)
            else
              (case load_buf io nsect fp fs of
                 (res, fp, fs) \<Rightarrow> if res \<noteq> FR_OK then (res, fp, fs) else (FR_OK, fp\<lparr>fsect := nsect\<rparr>, fs)))
     else (FR_OK, fp, fs))"

definition f_lseek ::
  "'d disk_io \<Rightarrow> 'o ff_mutex \<Rightarrow> ffil \<Rightarrow> u32 \<Rightarrow> ('d, 'o) ffsys \<Rightarrow>
    (fresult \<times> ffil \<times> ('d, 'o) ffsys) option" where
  "f_lseek io mx fp ofs s =
    (case validate io mx (fobj fp) s of
       (res, has, s) \<Rightarrow>
         (let res = (if res = FR_OK then ferr fp else res) in
          if res \<noteq> FR_OK then Some (res, fp, unlock_volume mx has res s)
          else
            (let ofs = (if ofs > objsize (fobj fp) \<and> fflag fp AND FA_WRITE = 0 then objsize (fobj fp)
                        else ofs)
             in do { (res, nsect, fp, fs) \<leftarrow> seek_move io ofs fp (vol s);
                     let (res, fp, fs) =
                       (if res \<noteq> FR_OK then (res, fp, fs)
                        else seek_load io nsect
                               (if fptr fp > objsize (fobj fp)
                                then fp\<lparr>fobj := (fobj fp)\<lparr>objsize := fptr fp\<rparr>,
                                        fflag := fflag fp OR FA_MODIFIED\<rparr>
                                else fp) fs)
                     in Some (res, if res \<noteq> FR_OK then fp\<lparr>ferr := res\<rparr> else fp,
                              unlock_volume mx has res (s\<lparr>vol := fs\<rparr>)) })))"

definition truncate_chain ::
  "'d disk_io \<Rightarrow> ffil \<Rightarrow> 'd fatfs \<Rightarrow> (fresult \<times> ffil \<times> 'd fatfs) option" where
  \<comment> \<open>remove the clusters behind the pointer\<close>
  "truncate_chain io fp fs =
    (if fptr fp = 0 then
       do { (res, fs) \<leftarrow> remove_chain io (sclust (fobj fp)) 0 fs;
            Some (res, fp\<lparr>fobj := (fobj fp)\<lparr>sclust := 0\<rparr>\<rparr>, fs) }
     else
       (case get_fat io (fclust fp) fs of
          (ncl, fs) \<Rightarrow>
            let res = (if ncl = 1 then FR_INT_ERR else if ncl = 0xFFFFFFFF then FR_DISK_ERR else FR_OK) in
            if res = FR_OK \<and> ncl < n_fatent fs then
              do { (res, fs) \<leftarrow> remove_chain io ncl (fclust fp) fs; Some (res, fp, fs) }
            else Some (res, fp, fs)))"

definition f_truncate ::
  "'d disk_io \<Rightarrow> 'o ff_mutex \<Rightarrow> ffil \<Rightarrow> ('d, 'o) ffsys \<Rightarrow> (fresult \<times> ffil \<times> ('d, 'o) ffsys) option" where
  "f_truncate io mx fp s =
    (case validate io mx (fobj fp) s of
       (res, has, s) \<Rightarrow>
         (let res = (if res \<noteq> FR_OK then res else ferr fp) in
          if res \<noteq> FR_OK then Some (res, fp, unlock_volume mx has res s)
          else if fflag fp AND FA_WRITE = 0 then Some (FR_DENIED, fp, unlock_volume mx has FR_DENIED s)
          else if fptr fp < objsize (fobj fp) then
            do { (res, fp, fs) \<leftarrow> truncate_chain io fp (vol s);
                 let fp = fp\<lparr>fobj := (fobj fp)\<lparr>objsize := fptr fp\<rparr>, fflag := fflag fp OR FA_MODIFIED\<rparr>;
                     (res, fp, fs) = (if res = FR_OK then flush_buf io fp fs else (res, fp, fs))
                 in Some (res, if res \<noteq> FR_OK then fp\<lparr>ferr := res\<rparr> else fp,
                          unlock_volume mx has res (s\<lparr>vol := fs\<rparr>)) }
          else Some (FR_OK, fp, unlock_volume mx has FR_OK s)))"

section \<open>Opening\<close>

definition open_reset ::
  "'d disk_io \<Rightarrow> u32 \<Rightarrow> ffdir \<Rightarrow> 'd fatfs \<Rightarrow> (fresult \<times> 'd fatfs) option" where
  \<comment> \<open>the initial state of the directory entry of a created or overwritten file\<close>
  "open_reset io tm dj fs =
    (let dir = ddir dj;
         w = st_dword (win fs) (dir + DIR_CrtTime) tm;
         w = st_dword w (dir + DIR_ModTime) tm;
         cl = ld_clust fs w dir;
         w = w[dir + DIR_Attr := AM_ARC];
         w = st_clust fs w dir 0;
         w = st_dword w (dir + DIR_FileSize) 0;
         fs = fs\<lparr>win := w, wflag := 1\<rparr>
     in if cl \<noteq> 0 then
          (let sc = winsect fs in
           do { (res, fs) \<leftarrow> remove_chain io cl 0 fs;
                Some (if res = FR_OK then
                        (case move_window io sc fs of (res, fs) \<Rightarrow> (res, fs\<lparr>last_clst := cl - 1\<rparr>))
                      else (res, fs)) })
        else Some (FR_OK, fs))"

definition open_create ::
  "'d disk_io \<Rightarrow> u32 \<Rightarrow> filesem list \<Rightarrow> fresult \<Rightarrow> byte \<Rightarrow> ffdir \<Rightarrow> 'd fatfs \<Rightarrow>
    (fresult \<times> byte \<times> ffdir \<times> 'd fatfs) option" where
  \<comment> \<open>the branch that may create the file: the result, the mode, the directory object, the volume\<close>
  "open_create io tm F res mode dj fs =
    do { (res, mode, dj, fs) \<leftarrow>
           (if res \<noteq> FR_OK then
              do { (res, dj, fs) \<leftarrow>
                     (if res = FR_NO_FILE then
                        (if enq_share F then dir_register io dj fs
                         else Some (FR_TOO_MANY_OPEN_FILES, dj, fs))
                      else Some (res, dj, fs));
                   Some (res, mode OR FA_CREATE_ALWAYS, dj, fs) }
            else
              Some (if obj_attr (dobj dj) AND (AM_RDO OR AM_DIR) \<noteq> 0 then FR_DENIED
                    else if mode AND FA_CREATE_NEW \<noteq> 0 then FR_EXIST else FR_OK, mode, dj, fs));
         if res = FR_OK \<and> mode AND FA_CREATE_ALWAYS \<noteq> 0 then
           do { (res, fs) \<leftarrow> open_reset io tm dj fs; Some (res, mode, dj, fs) }
         else Some (res, mode, dj, fs) }"

definition open_existing :: "byte \<Rightarrow> ffdir \<Rightarrow> fresult \<Rightarrow> fresult" where
  "open_existing mode dj res =
    (if res = FR_OK then
       (if obj_attr (dobj dj) AND AM_DIR \<noteq> 0 then FR_NO_FILE
        else if mode AND FA_WRITE \<noteq> 0 \<and> obj_attr (dobj dj) AND AM_RDO \<noteq> 0 then FR_DENIED else FR_OK)
     else res)"

partial_function (option) append_follow ::
  "'d disk_io \<Rightarrow> u32 \<Rightarrow> u32 \<Rightarrow> u32 \<Rightarrow> 'd fatfs \<Rightarrow> (fresult \<times> u32 \<times> u32 \<times> 'd fatfs) option" where
  \<comment> \<open>\<open>for (ofs = fp->obj.objsize; res == FR_OK && ofs > bcs; ofs -= bcs)\<close>; the result,
     \<open>clst\<close> and \<open>ofs\<close>\<close>
  "append_follow io bcs clst ofs fs =
    (if ofs > bcs then
       (case get_fat io clst fs of
          (clst, fs) \<Rightarrow>
            let res = (if clst = 0xFFFFFFFF then FR_DISK_ERR else if clst \<le> 1 then FR_INT_ERR else FR_OK)
            in if res \<noteq> FR_OK then Some (res, clst, ofs - bcs, fs)
               else append_follow io bcs clst (ofs - bcs) fs)
     else Some (FR_OK, clst, ofs, fs))"

definition open_append ::
  "'d disk_io \<Rightarrow> ffil \<Rightarrow> 'd fatfs \<Rightarrow> (fresult \<times> ffil \<times> 'd fatfs) option" where
  \<comment> \<open>seek to the end of a file that is not empty\<close>
  "open_append io fp fs =
    (let fp = fp\<lparr>fptr := objsize (fobj fp)\<rparr>; bcs = ucast (csize fs) * 512 in
     do { (res, clst, ofs, fs) \<leftarrow> append_follow io bcs (sclust (fobj fp)) (objsize (fobj fp)) fs;
          let fp = fp\<lparr>fclust := clst\<rparr> in
          Some (if res = FR_OK \<and> ofs mod 512 \<noteq> 0 then
                  (let sc = clst2sect clst fs in
                   if sc = 0 then (FR_INT_ERR, fp, fs)
                   else load_buf io (sc + ofs div 512) (fp\<lparr>fsect := sc + ofs div 512\<rparr>) fs)
                else (res, fp, fs)) })"

definition open_init :: "byte \<Rightarrow> ffdir \<Rightarrow> ffil \<Rightarrow> 'd fatfs \<Rightarrow> ffil" where
  \<comment> \<open>the file object of an entry in the window\<close>
  "open_init mode dj fp fs =
    fp\<lparr>fobj := (fobj fp)\<lparr>sclust := ld_clust fs (win fs) (ddir dj),
                        objsize := ld_dword (win fs) (ddir dj + DIR_FileSize),
                        obj_fs := True, obj_id := fs_id fs\<rparr>,
       fflag := mode, ferr := FR_OK, fsect := 0, fptr := 0, fbuf := replicate 512 0\<rparr>"

definition open_entry ::
  "'d disk_io \<Rightarrow> u32 \<Rightarrow> filesem list \<Rightarrow> ffdir \<Rightarrow> byte list \<Rightarrow> byte \<Rightarrow> 'd fatfs \<Rightarrow>
    (fresult \<times> byte \<times> ffdir \<times> 'd fatfs) option" where
  \<comment> \<open>find, check and create or overwrite the file: the result, the mode, the directory object and
     the volume; \<open>dj\<close> is the uninitialised local variable\<close>
  "open_entry io tm F dj path mode fs =
    do { (res, dj, fs) \<leftarrow> follow_path io (dj\<lparr>dobj := (dobj dj)\<lparr>obj_fs := True\<rparr>\<rparr>) path fs;
         let res = (if res = FR_OK then
                      (if fn dj ! NSFLAG AND NS_NONAME \<noteq> 0 then FR_INVALID_NAME
                       else chk_share F dj (if mode AND NOT FA_READ \<noteq> 0 then 1 else 0))
                    else res)
         in if mode AND (FA_CREATE_ALWAYS OR FA_OPEN_ALWAYS OR FA_CREATE_NEW) \<noteq> 0
            then open_create io tm F res mode dj fs
            else Some (open_existing mode dj res, mode, dj, fs) }"

definition open_handle ::
  "'d disk_io \<Rightarrow> byte \<Rightarrow> ffdir \<Rightarrow> ffil \<Rightarrow> ('d, 'o) ffsys \<Rightarrow>
    (fresult \<times> ffil \<times> ('d, 'o) ffsys) option" where
  \<comment> \<open>the file object of the entry in the window\<close>
  "open_handle io mode dj fp s =
    (let mode = (if mode AND FA_CREATE_ALWAYS \<noteq> 0 then mode OR FA_MODIFIED else mode);
         (i, F) = inc_share (Files s) dj (if mode AND NOT FA_READ \<noteq> 0 then 1 else 0);
         fp = fp\<lparr>dir_sect := winsect (vol s), dir_ptr := ddir dj, fobj := (fobj fp)\<lparr>lockid := i\<rparr>\<rparr>
     in if i = 0 then Some (FR_INT_ERR, fp, s\<lparr>Files := F\<rparr>)
        else
          (let fp = open_init mode dj fp (vol s) in
           if mode AND FA_SEEKEND \<noteq> 0 \<and> objsize (fobj fp) > 0 then
             do { (res, fp, fs) \<leftarrow> open_append io fp (vol s);
                  Some (res, fp,
                        s\<lparr>vol := fs,
                          Files := if res \<noteq> FR_OK then snd (dec_share F (lockid (fobj fp))) else F\<rparr>) }
           else Some (FR_OK, fp, s\<lparr>Files := F\<rparr>)))"

definition open_file ::
  "'d disk_io \<Rightarrow> u32 \<Rightarrow> ffdir \<Rightarrow> byte list \<Rightarrow> byte \<Rightarrow> ffil \<Rightarrow> ('d, 'o) ffsys \<Rightarrow>
    (fresult \<times> ffil \<times> ('d, 'o) ffsys) option" where
  \<comment> \<open>on a mounted volume\<close>
  "open_file io tm dj path mode fp s =
    do { (res, mode, dj, fs) \<leftarrow> open_entry io tm (Files s) dj path mode (vol s);
         if res \<noteq> FR_OK then Some (res, fp, s\<lparr>vol := fs\<rparr>)
         else open_handle io mode dj fp (s\<lparr>vol := fs\<rparr>) }"

definition f_open ::
  "'d disk_io \<Rightarrow> 'o ff_mutex \<Rightarrow> u32 \<Rightarrow> ffdir \<Rightarrow> ffil \<Rightarrow> byte list \<Rightarrow> byte \<Rightarrow> ('d, 'o) ffsys \<Rightarrow>
    (fresult \<times> ffil \<times> ('d, 'o) ffsys) option" where
  "f_open io mx tm dj fp path mode s =
    (let mode = mode AND (FA_READ OR FA_WRITE OR FA_CREATE_ALWAYS OR FA_CREATE_NEW OR FA_OPEN_ALWAYS OR
                          FA_OPEN_APPEND)
     in do { (res, has, p, s) \<leftarrow> mount_volume io mx (Some path) mode s;
             (res, fp, s) \<leftarrow> (if res = FR_OK then do { p \<leftarrow> p; open_file io tm dj p mode fp s }
                             else Some (res, fp, s));
             Some (res, if res \<noteq> FR_OK then fp\<lparr>fobj := (fobj fp)\<lparr>obj_fs := False\<rparr>\<rparr> else fp,
                   unlock_volume mx has res s) })"

end
