(* ===== verification/FatApi.thy ===== *)
theory FatApi
  imports FatFile
begin

text \<open>
  The functions of the FatFs interface on directories and on the volume (\<^verbatim>\<open>ff.c\<close>:
  \<open>f_chdrive\<close>, \<open>f_chdir\<close>, \<open>f_getcwd\<close>, \<open>f_opendir\<close>, \<open>f_closedir\<close>, \<open>f_readdir\<close>, \<open>f_findnext\<close>,
  \<open>f_findfirst\<close>, \<open>f_stat\<close>, \<open>f_getfree\<close>, \<open>f_unlink\<close>, \<open>f_mkdir\<close>, \<open>f_rename\<close>). A local directory
  object that C leaves uninitialised is an argument \<open>dj\<close>, and so is the value of \<open>GET_FATTIME\<close>.
  \<open>None\<close> is a loop that does not end, a path that is not terminated or, in \<open>f_getcwd\<close>, an access
  outside the caller's buffer.
\<close>

definition on_volume ::
  "'d disk_io \<Rightarrow> 'o ff_mutex \<Rightarrow> byte list \<Rightarrow> byte \<Rightarrow> ('d, 'o) ffsys \<Rightarrow> 'a \<Rightarrow>
    (byte list \<Rightarrow> ('d, 'o) ffsys \<Rightarrow> (fresult \<times> 'a \<times> ('d, 'o) ffsys) option) \<Rightarrow>
    (fresult \<times> 'a \<times> ('d, 'o) ffsys) option" where
  \<comment> \<open>what the functions that take a path share: \<open>mount_volume\<close>, the body on the rest of the path
     when it succeeds, and \<open>LEAVE_FF\<close>; the value \<open>a\<close> is returned when it fails\<close>
  "on_volume io mx path mode s a f =
    do { (res, has, p, s) \<leftarrow> mount_volume io mx (Some path) mode s;
         (res, a, s) \<leftarrow> (if res = FR_OK then do { p \<leftarrow> p; f p s } else Some (res, a, s));
         Some (res, a, unlock_volume mx has res s) }"

definition fresh_dir :: "ffdir \<Rightarrow> ffdir" where
  \<comment> \<open>\<open>dj.obj.fs = fs\<close>\<close>
  "fresh_dir dj = dj\<lparr>dobj := (dobj dj)\<lparr>obj_fs := True\<rparr>\<rparr>"

abbreviation no_name :: "ffdir \<Rightarrow> bool" where
  "no_name dj \<equiv> fn dj ! NSFLAG AND NS_NONAME \<noteq> 0"

section \<open>The current directory\<close>

definition f_chdrive :: "byte list \<Rightarrow> ('d, 'o) ffsys \<Rightarrow> (fresult \<times> ('d, 'o) ffsys) option" where
  "f_chdrive path s =
    do { (v, p) \<leftarrow> get_ldnumber (CurrVol s) (Some path);
         Some (if v < 0 then (FR_INVALID_DRIVE, s) else (FR_OK, s\<lparr>CurrVol := v\<rparr>)) }"

definition f_chdir ::
  "'d disk_io \<Rightarrow> 'o ff_mutex \<Rightarrow> ffdir \<Rightarrow> byte list \<Rightarrow> ('d, 'o) ffsys \<Rightarrow>
    (fresult \<times> unit \<times> ('d, 'o) ffsys) option" where
  "f_chdir io mx dj path s =
    on_volume io mx path 0 s ()
      (\<lambda>path s.
         do { (res, dj, fs) \<leftarrow> follow_path io (fresh_dir dj) path (vol s);
              let (res, fs) =
                (if res = FR_OK then
                   (if no_name dj then (FR_OK, fs\<lparr>cdir := sclust (dobj dj)\<rparr>)
                    else if obj_attr (dobj dj) AND AM_DIR \<noteq> 0
                    then (FR_OK, fs\<lparr>cdir := ld_clust fs (win fs) (ddir dj)\<rparr>)
                    else (FR_NO_PATH, fs))
                 else (res, fs))
              in Some (if res = FR_NO_FILE then FR_NO_PATH else res, (), s\<lparr>vol := fs\<rparr>) })"

partial_function (option) find_child ::
  "'d disk_io \<Rightarrow> u32 \<Rightarrow> ffdir \<Rightarrow> 'd fatfs \<Rightarrow> (fresult \<times> ffdir \<times> 'd fatfs) option" where
  \<comment> \<open>the inner loop of \<open>f_getcwd\<close>: the entry that links to the cluster \<open>ccl\<close>\<close>
  "find_child io ccl dj fs =
    do { (res, dj, fs) \<leftarrow> dir_read io False dj fs;
         if res \<noteq> FR_OK then Some (res, dj, fs)
         else if ccl = ld_clust fs (win fs) (ddir dj) then Some (FR_OK, dj, fs)
         else
           do { (res, dj, fs) \<leftarrow> dir_next io False dj fs;
                if res = FR_OK then find_child io ccl dj fs else Some (res, dj, fs) } }"

fun push_name :: "nat \<Rightarrow> byte list \<Rightarrow> byte list \<Rightarrow> nat \<times> byte list" where
  \<comment> \<open>\<open>while (n) buff[--i] = fno.fname[--n]\<close>, on the reversed name\<close>
  "push_name i [] buff = (i, buff)"
| "push_name i (c # cs) buff = push_name (i - 1) cs (buff[i - 1 := c])"

definition cwd_step ::
  "'d disk_io \<Rightarrow> filinfo \<Rightarrow> nat \<Rightarrow> byte list \<Rightarrow> ffdir \<Rightarrow> 'd fatfs \<Rightarrow>
    (fresult \<times> nat \<times> byte list \<times> ffdir \<times> 'd fatfs) option" where
  \<comment> \<open>one parent directory: find the name of the child in it and put it on the stack\<close>
  "cwd_step io fno i buff dj fs =
    (let ccl = sclust (dobj dj) in
     do { (res, dj, fs) \<leftarrow> dir_sdi io SZDIRE dj fs;
          if res \<noteq> FR_OK then Some (res, i, buff, dj, fs)
          else
            (case move_window io (dsect dj) fs of
               (res, fs) \<Rightarrow>
                 if res \<noteq> FR_OK then Some (res, i, buff, dj, fs)
                 else
                   do { (res, dj, fs) \<leftarrow>
                          dir_sdi io 0 (dj\<lparr>dobj := (dobj dj)\<lparr>sclust := ld_clust fs (win fs) (ddir dj)\<rparr>\<rparr>) fs;
                        if res \<noteq> FR_OK then Some (res, i, buff, dj, fs)
                        else
                          do { (res, dj, fs) \<leftarrow> find_child io ccl dj fs;
                               let res = (if res = FR_NO_FILE then FR_INT_ERR else res);
                                   nam = fi_fname (get_fileinfo dj fs fno)
                               in if res \<noteq> FR_OK then Some (res, i, buff, dj, fs)
                                  else if i < length nam + 1
                                  then Some (FR_NOT_ENOUGH_CORE, i, buff, dj, fs)
                                  else
                                    (case push_name i (rev nam) buff of
                                       (i, buff) \<Rightarrow>
                                         Some (FR_OK, i - 1, buff[i - 1 := 0x2F], dj, fs)) } }) })"

partial_function (option) cwd_loop ::
  "'d disk_io \<Rightarrow> filinfo \<Rightarrow> nat \<Rightarrow> byte list \<Rightarrow> ffdir \<Rightarrow> 'd fatfs \<Rightarrow>
    (fresult \<times> nat \<times> byte list \<times> 'd fatfs) option" where
  "cwd_loop io fno i buff dj fs =
    (if sclust (dobj dj) = 0 then Some (FR_OK, i, buff, fs)
     else
       do { (res, i, buff, dj, fs) \<leftarrow> cwd_step io fno i buff dj fs;
            if res \<noteq> FR_OK then Some (res, i, buff, fs) else cwd_loop io fno i buff dj fs })"

definition put_at :: "nat \<Rightarrow> byte \<Rightarrow> byte list \<Rightarrow> byte list option" where
  "put_at i c buff = (if i < length buff then Some (buff[i := c]) else None)"

definition cwd_finish :: "nat \<Rightarrow> byte list \<Rightarrow> (nat \<times> byte list) option" where
  \<comment> \<open>the root directory, and the stacked path copied to the start of the buffer; \<open>tp\<close> and the
     buffer\<close>
  "cwd_finish i buff =
    do { (i, buff) \<leftarrow>
           (if i = length buff then do { buff \<leftarrow> put_at (i - 1) 0x2F buff; Some (i - 1, buff) }
            else Some (i, buff));
         Some (length buff - i, drop i buff @ drop (length buff - i) buff) }"

definition f_getcwd ::
  "'d disk_io \<Rightarrow> 'o ff_mutex \<Rightarrow> ffdir \<Rightarrow> filinfo \<Rightarrow> byte list \<Rightarrow> ('d, 'o) ffsys \<Rightarrow>
    (fresult \<times> byte list \<times> ('d, 'o) ffsys) option" where
  \<comment> \<open>\<open>len\<close> is the length of the buffer; the path \<open>""\<close> in it has no drive to skip\<close>
  "f_getcwd io mx dj fno buff s =
    do { buff \<leftarrow> put_at 0 0 buff;
         (res, has, p, s) \<leftarrow> mount_volume io mx (Some buff) 0 s;
         (res, tp, buff, s) \<leftarrow>
           (if res = FR_OK then
              do { (res, i, buff, fs) \<leftarrow>
                     cwd_loop io fno (length buff) buff
                       ((fresh_dir dj)\<lparr>dobj := (dobj (fresh_dir dj))\<lparr>sclust := cdir (vol s)\<rparr>\<rparr>) (vol s);
                   (tp, buff) \<leftarrow> (if res = FR_OK then cwd_finish i buff else Some (0, buff));
                   Some (res, tp, buff, s\<lparr>vol := fs\<rparr>) }
            else Some (res, 0, buff, s));
         buff \<leftarrow> put_at tp 0 buff;
         Some (res, buff, unlock_volume mx has res s) }"

section \<open>Directories\<close>

definition opened_dir ::
  "'d disk_io \<Rightarrow> ffdir \<Rightarrow> ('d, 'o) ffsys \<Rightarrow> (fresult \<times> ffdir \<times> ('d, 'o) ffsys) option" where
  \<comment> \<open>the path was followed to a directory: rewind it and lock it\<close>
  "opened_dir io dp s =
    (let dp = dp\<lparr>dobj := (dobj dp)\<lparr>obj_id := fs_id (vol s)\<rparr>\<rparr> in
     do { (res, dp, fs) \<leftarrow> dir_sdi io 0 dp (vol s);
          let s = s\<lparr>vol := fs\<rparr> in
          Some (if res = FR_OK then
                  (if sclust (dobj dp) \<noteq> 0 then
                     (case inc_share (Files s) dp 0 of
                        (i, F) \<Rightarrow>
                          (if i = 0 then FR_TOO_MANY_OPEN_FILES else FR_OK,
                           dp\<lparr>dobj := (dobj dp)\<lparr>lockid := i\<rparr>\<rparr>, s\<lparr>Files := F\<rparr>))
                   else (FR_OK, dp\<lparr>dobj := (dobj dp)\<lparr>lockid := 0\<rparr>\<rparr>, s))
                else (res, dp, s)) })"

definition open_dir ::
  "'d disk_io \<Rightarrow> ffdir \<Rightarrow> byte list \<Rightarrow> ('d, 'o) ffsys \<Rightarrow>
    (fresult \<times> ffdir \<times> ('d, 'o) ffsys) option" where
  \<comment> \<open>on a mounted volume\<close>
  "open_dir io dp path s =
    do { (res, dp, fs) \<leftarrow> follow_path io (fresh_dir dp) path (vol s);
         let s = s\<lparr>vol := fs\<rparr>;
             (res, dp) =
               (if res = FR_OK \<and> \<not> no_name dp then
                  (if obj_attr (dobj dp) AND AM_DIR \<noteq> 0
                   then (FR_OK, dp\<lparr>dobj := (dobj dp)\<lparr>sclust := ld_clust fs (win fs) (ddir dp)\<rparr>\<rparr>)
                   else (FR_NO_PATH, dp))
                else (res, dp))
         in do { (res, dp, s) \<leftarrow> (if res = FR_OK then opened_dir io dp s else Some (res, dp, s));
                 Some (if res = FR_NO_FILE then FR_NO_PATH else res, dp, s) } }"

definition f_opendir ::
  "'d disk_io \<Rightarrow> 'o ff_mutex \<Rightarrow> ffdir \<Rightarrow> byte list \<Rightarrow> ('d, 'o) ffsys \<Rightarrow>
    (fresult \<times> ffdir \<times> ('d, 'o) ffsys) option" where
  "f_opendir io mx dp path s =
    do { (res, has, p, s) \<leftarrow> mount_volume io mx (Some path) 0 s;
         (res, dp, s) \<leftarrow> (if res = FR_OK then do { p \<leftarrow> p; open_dir io dp p s } else Some (res, dp, s));
         Some (res, if res \<noteq> FR_OK then dp\<lparr>dobj := (dobj dp)\<lparr>obj_fs := False\<rparr>\<rparr> else dp,
               unlock_volume mx has res s) }"

definition f_closedir ::
  "'d disk_io \<Rightarrow> 'o ff_mutex \<Rightarrow> ffdir \<Rightarrow> ('d, 'o) ffsys \<Rightarrow> fresult \<times> ffdir \<times> ('d, 'o) ffsys" where
  "f_closedir io mx dp s =
    (case validate io mx (dobj dp) s of
       (res, has, s) \<Rightarrow>
         if res = FR_OK then
           (case (if lockid (dobj dp) \<noteq> 0 then dec_share (Files s) (lockid (dobj dp)) else (FR_OK, Files s)) of
              (res, F) \<Rightarrow>
                (res, if res = FR_OK then dp\<lparr>dobj := (dobj dp)\<lparr>obj_fs := False\<rparr>\<rparr> else dp,
                 unlock_volume mx has FR_OK (s\<lparr>Files := F\<rparr>)))
         else (res, dp, s))"

definition read_item ::
  "'d disk_io \<Rightarrow> ffdir \<Rightarrow> filinfo option \<Rightarrow> 'd fatfs \<Rightarrow>
    (fresult \<times> ffdir \<times> filinfo option \<times> 'd fatfs) option" where
  \<comment> \<open>the branch for a valid object\<close>
  "read_item io dp fno fs =
    (case fno of
       None \<Rightarrow> do { (res, dp, fs) \<leftarrow> dir_sdi io 0 dp fs; Some (res, dp, None, fs) }
     | Some f \<Rightarrow>
         do { (res, dp, fs) \<leftarrow> dir_read io False dp fs;
              let res = (if res = FR_NO_FILE then FR_OK else res) in
              if res = FR_OK then
                (let f = get_fileinfo dp fs f in
                 do { (res, dp, fs) \<leftarrow> dir_next io False dp fs;
                      Some (if res = FR_NO_FILE then FR_OK else res, dp, Some f, fs) })
              else Some (res, dp, Some f, fs) })"

definition f_readdir ::
  "'d disk_io \<Rightarrow> 'o ff_mutex \<Rightarrow> ffdir \<Rightarrow> filinfo option \<Rightarrow> ('d, 'o) ffsys \<Rightarrow>
    (fresult \<times> ffdir \<times> filinfo option \<times> ('d, 'o) ffsys) option" where
  \<comment> \<open>\<open>None\<close> for \<open>fno\<close>: a null pointer\<close>
  "f_readdir io mx dp fno s =
    (case validate io mx (dobj dp) s of
       (res, has, s) \<Rightarrow>
         if res = FR_OK then
           do { (res, dp, fno, fs) \<leftarrow> read_item io dp fno (vol s);
                Some (res, dp, fno, unlock_volume mx has res (s\<lparr>vol := fs\<rparr>)) }
         else Some (res, dp, fno, unlock_volume mx has res s))"

partial_function (option) f_findnext ::
  "'d disk_io \<Rightarrow> 'o ff_mutex \<Rightarrow> ffdir \<Rightarrow> filinfo option \<Rightarrow> ('d, 'o) ffsys \<Rightarrow>
    (fresult \<times> ffdir \<times> filinfo option \<times> ('d, 'o) ffsys) option" where
  "f_findnext io mx dp fno s =
    do { (res, dp, fno, s) \<leftarrow> f_readdir io mx dp fno s;
         case fno of
           None \<Rightarrow> Some (res, dp, None, s)
         | Some f \<Rightarrow>
             if res \<noteq> FR_OK \<or> fi_fname f = [] then Some (res, dp, Some f, s)
             else
               do { m \<leftarrow> pattern_match FIND_RECURS (dpat dp) (fi_fname f @ [0]) 0;
                    if m then Some (res, dp, Some f, s) else f_findnext io mx dp (Some f) s } }"

definition f_findfirst ::
  "'d disk_io \<Rightarrow> 'o ff_mutex \<Rightarrow> ffdir \<Rightarrow> filinfo option \<Rightarrow> byte list \<Rightarrow> byte list \<Rightarrow> ('d, 'o) ffsys \<Rightarrow>
    (fresult \<times> ffdir \<times> filinfo option \<times> ('d, 'o) ffsys) option" where
  "f_findfirst io mx dp fno path pattern s =
    do { (res, dp, s) \<leftarrow> f_opendir io mx (dp\<lparr>dpat := pattern\<rparr>) path s;
         if res = FR_OK then f_findnext io mx dp fno s else Some (res, dp, fno, s) }"

definition f_stat ::
  "'d disk_io \<Rightarrow> 'o ff_mutex \<Rightarrow> ffdir \<Rightarrow> byte list \<Rightarrow> filinfo option \<Rightarrow> ('d, 'o) ffsys \<Rightarrow>
    (fresult \<times> filinfo option \<times> ('d, 'o) ffsys) option" where
  "f_stat io mx dj path fno s =
    on_volume io mx path 0 s fno
      (\<lambda>path s.
         do { (res, dj, fs) \<leftarrow> follow_path io (fresh_dir dj) path (vol s);
              Some (if res = FR_OK then
                      (if no_name dj then (FR_INVALID_NAME, fno, s\<lparr>vol := fs\<rparr>)
                       else (FR_OK, map_option (get_fileinfo dj fs) fno, s\<lparr>vol := fs\<rparr>))
                    else (res, fno, s\<lparr>vol := fs\<rparr>)) })"

section \<open>Free clusters\<close>

partial_function (option) count_fat12 ::
  "'d disk_io \<Rightarrow> u32 \<Rightarrow> u32 \<Rightarrow> 'd fatfs \<Rightarrow> (fresult \<times> u32 \<times> 'd fatfs) option" where
  "count_fat12 io clst nfree fs =
    (case get_fat io clst fs of
       (stat, fs) \<Rightarrow>
         if stat = 0xFFFFFFFF then Some (FR_DISK_ERR, nfree, fs)
         else if stat = 1 then Some (FR_INT_ERR, nfree, fs)
         else
           (let nfree = (if stat = 0 then nfree + 1 else nfree) in
            if clst + 1 < n_fatent fs then count_fat12 io (clst + 1) nfree fs
            else Some (FR_OK, nfree, fs)))"

partial_function (option) count_fat ::
  "'d disk_io \<Rightarrow> u32 \<Rightarrow> u32 \<Rightarrow> nat \<Rightarrow> u32 \<Rightarrow> 'd fatfs \<Rightarrow> (fresult \<times> u32 \<times> 'd fatfs) option" where
  \<comment> \<open>FAT16 and FAT32: \<open>clst\<close> entries are left, from the offset \<open>i\<close> of the window or of \<open>sect\<close>\<close>
  "count_fat io clst sect i nfree fs =
    (case (if i = 0 then move_window io sect fs else (FR_OK, fs)) of
       (res, fs) \<Rightarrow>
         if res \<noteq> FR_OK then Some (res, nfree, fs)
         else
           (let sect = (if i = 0 then sect + 1 else sect);
                free = (if fs_type fs = FS_FAT16 then ld_word (win fs) i = 0
                        else ld_dword (win fs) i AND 0x0FFFFFFF = 0);
                nfree = (if free then nfree + 1 else nfree);
                i = (i + (if fs_type fs = FS_FAT16 then 2 else 4)) mod SS
            in if clst - 1 \<noteq> 0 then count_fat io (clst - 1) sect i nfree fs
               else Some (FR_OK, nfree, fs)))"

definition scan_free :: "'d disk_io \<Rightarrow> 'd fatfs \<Rightarrow> (fresult \<times> u32 \<times> 'd fatfs) option" where
  "scan_free io fs =
    (if fs_type fs = FS_FAT12 then count_fat12 io 2 0 fs
     else count_fat io (n_fatent fs) (fatbase fs) 0 0 fs)"

definition f_getfree ::
  "'d disk_io \<Rightarrow> 'o ff_mutex \<Rightarrow> byte list \<Rightarrow> ('d, 'o) ffsys \<Rightarrow>
    (fresult \<times> u32 option \<times> ('d, 'o) ffsys) option" where
  \<comment> \<open>the number stored in \<open>*nclst\<close>; \<open>*fatfs\<close> is the volume\<close>
  "f_getfree io mx path s =
    on_volume io mx path 0 s None
      (\<lambda>path s.
         if free_clst (vol s) \<le> n_fatent (vol s) - 2 then Some (FR_OK, Some (free_clst (vol s)), s)
         else
           do { (res, nfree, fs) \<leftarrow> scan_free io (vol s);
                Some (if res = FR_OK
                      then (FR_OK, Some nfree,
                            s\<lparr>vol := fs\<lparr>free_clst := nfree, fsi_flag := fsi_flag fs OR 1\<rparr>\<rparr>)
                      else (res, None, s\<lparr>vol := fs\<rparr>)) })"

section \<open>Removing, creating and renaming\<close>

definition dir_empty :: "'d disk_io \<Rightarrow> ffdir \<Rightarrow> u32 \<Rightarrow> 'd fatfs \<Rightarrow> (fresult \<times> 'd fatfs) option" where
  \<comment> \<open>the test that a sub-directory is empty; \<open>sdj\<close> is the uninitialised local variable\<close>
  "dir_empty io sdj dclst fs =
    do { (res, sdj, fs) \<leftarrow> dir_sdi io 0 (sdj\<lparr>dobj := (dobj sdj)\<lparr>obj_fs := True, sclust := dclst\<rparr>\<rparr>) fs;
         if res = FR_OK then
           do { (res, sdj, fs) \<leftarrow> dir_read io False sdj fs;
                Some (if res = FR_OK then FR_DENIED else if res = FR_NO_FILE then FR_OK else res, fs) }
         else Some (res, fs) }"

definition unlink_entry ::
  "'d disk_io \<Rightarrow> ffdir \<Rightarrow> u32 \<Rightarrow> 'd fatfs \<Rightarrow> (fresult \<times> 'd fatfs) option" where
  \<comment> \<open>remove the entry and the chain \<open>dclst\<close>\<close>
  "unlink_entry io dj dclst fs =
    (case dir_remove io dj fs of
       (res, fs) \<Rightarrow>
         do { (res, fs) \<leftarrow>
                (if res = FR_OK \<and> dclst \<noteq> 0 then remove_chain io dclst 0 fs else Some (res, fs));
              Some (if res = FR_OK then sync_fs io fs else (res, fs)) })"

definition unlink_object ::
  "'d disk_io \<Rightarrow> ffdir \<Rightarrow> ffdir \<Rightarrow> 'd fatfs \<Rightarrow> (fresult \<times> 'd fatfs) option" where
  \<comment> \<open>the object \<open>dj\<close> is accessible\<close>
  "unlink_object io sdj dj fs =
    (let res = (if no_name dj then FR_INVALID_NAME
                else if obj_attr (dobj dj) AND AM_RDO \<noteq> 0 then FR_DENIED else FR_OK);
         dclst = (if res = FR_OK then ld_clust fs (win fs) (ddir dj) else 0)
     in do { (res, fs) \<leftarrow>
               (if res = FR_OK \<and> obj_attr (dobj dj) AND AM_DIR \<noteq> 0 then
                  (if dclst = cdir fs then Some (FR_DENIED, fs) else dir_empty io sdj dclst fs)
                else Some (res, fs));
             if res = FR_OK then unlink_entry io dj dclst fs else Some (res, fs) })"

definition f_unlink ::
  "'d disk_io \<Rightarrow> 'o ff_mutex \<Rightarrow> ffdir \<Rightarrow> ffdir \<Rightarrow> byte list \<Rightarrow> ('d, 'o) ffsys \<Rightarrow>
    (fresult \<times> unit \<times> ('d, 'o) ffsys) option" where
  "f_unlink io mx dj sdj path s =
    on_volume io mx path FA_WRITE s ()
      (\<lambda>path s.
         do { (res, dj, fs) \<leftarrow> follow_path io (fresh_dir dj) path (vol s);
              let res = (if res = FR_OK \<and> fn dj ! NSFLAG AND NS_DOT \<noteq> 0 then FR_INVALID_NAME else res);
                  res = (if res = FR_OK then chk_share (Files s) dj 2 else res)
              in do { (res, fs) \<leftarrow> (if res = FR_OK then unlink_object io sdj dj fs else Some (res, fs));
                      Some (res, (), s\<lparr>vol := fs\<rparr>) } })"

definition dot_entries :: "u32 \<Rightarrow> u32 \<Rightarrow> u32 \<Rightarrow> 'd fatfs \<Rightarrow> 'd fatfs" where
  \<comment> \<open>the entries \<open>"."\<close> and \<open>".."\<close> of a new directory, in the cleared window\<close>
  "dot_entries tm dcl pcl fs =
    (let w = store_at 0 (replicate 11 0x20) (win fs);
         w = w[DIR_Name := 0x2E];
         w = w[DIR_Attr := AM_DIR];
         w = st_dword w DIR_ModTime tm;
         w = st_clust fs w 0 dcl;
         w = store_at 32 (take 32 w) w;
         w = w[33 := 0x2E];
         w = st_clust fs w 32 pcl
     in fs\<lparr>win := w, wflag := 1\<rparr>)"

definition make_dir ::
  "'d disk_io \<Rightarrow> u32 \<Rightarrow> ffdir \<Rightarrow> 'd fatfs \<Rightarrow> (fresult \<times> 'd fatfs) option" where
  \<comment> \<open>\<open>dj\<close> is the place of the new name\<close>
  "make_dir io tm dj fs =
    do { (dcl, fs) \<leftarrow> create_chain io 0 fs;
         let res = (if dcl = 0xFFFFFFFF then FR_DISK_ERR else if dcl = 1 then FR_INT_ERR
                    else if dcl = 0 then FR_DENIED else FR_OK)
         in do { (res, dj, fs) \<leftarrow>
                   (if res = FR_OK then
                      (case dir_clear io dcl fs of
                         (res, fs) \<Rightarrow>
                           if res = FR_OK then dir_register io dj (dot_entries tm dcl (sclust (dobj dj)) fs)
                           else Some (res, dj, fs))
                    else Some (res, dj, fs));
                 if res = FR_OK then
                   (let w = st_dword (win fs) (ddir dj + DIR_ModTime) tm;
                        w = st_clust fs w (ddir dj) dcl;
                        w = w[ddir dj + DIR_Attr := AM_DIR]
                    in Some (sync_fs io (fs\<lparr>win := w, wflag := 1\<rparr>)))
                 else do { (r, fs) \<leftarrow> remove_chain io dcl 0 fs; Some (res, fs) } } }"

definition f_mkdir ::
  "'d disk_io \<Rightarrow> 'o ff_mutex \<Rightarrow> u32 \<Rightarrow> ffdir \<Rightarrow> byte list \<Rightarrow> ('d, 'o) ffsys \<Rightarrow>
    (fresult \<times> unit \<times> ('d, 'o) ffsys) option" where
  "f_mkdir io mx tm dj path s =
    on_volume io mx path FA_WRITE s ()
      (\<lambda>path s.
         do { (res, dj, fs) \<leftarrow> follow_path io (fresh_dir dj) path (vol s);
              let res = (if res = FR_OK then FR_EXIST else res);
                  res = (if res = FR_NO_FILE \<and> fn dj ! NSFLAG AND NS_DOT \<noteq> 0 then FR_INVALID_NAME else res)
              in do { (res, fs) \<leftarrow> (if res = FR_NO_FILE then make_dir io tm dj fs else Some (res, fs));
                      Some (res, (), s\<lparr>vol := fs\<rparr>) } })"

definition rename_register ::
  "'d disk_io \<Rightarrow> byte list \<Rightarrow> u32 \<Rightarrow> ffdir \<Rightarrow> 'd fatfs \<Rightarrow> (fresult \<times> 'd fatfs) option" where
  \<comment> \<open>the new entry: the old one, \<open>buf\<close>, with the new name; the directory of the old object starts
     at \<open>old\<close>\<close>
  "rename_register io buf old djn fs =
    do { (res, djn, fs) \<leftarrow> dir_register io djn fs;
         Some (if res = FR_OK then
                 (let dir = ddir djn;
                      w = store_at (dir + 13) (drop 13 buf) (win fs);
                      a = buf ! DIR_Attr;
                      a = (if a AND AM_DIR = 0 then a OR AM_ARC else a);
                      fs = fs\<lparr>win := w[dir + DIR_Attr := a], wflag := 1\<rparr>
                  in if a AND AM_DIR \<noteq> 0 \<and> old \<noteq> sclust (dobj djn) then
                       (let sect = clst2sect (ld_clust fs (win fs) dir) fs in
                        if sect = 0 then (FR_INT_ERR, fs)
                        else
                          (case move_window io sect fs of
                             (res, fs) \<Rightarrow>
                               (res, if res = FR_OK \<and> win fs ! 33 = 0x2E
                                     then fs\<lparr>win := st_clust fs (win fs) 32 (sclust (dobj djn)), wflag := 1\<rparr>
                                     else fs)))
                     else (FR_OK, fs))
               else (res, fs)) }"

definition rename_object ::
  "'d disk_io \<Rightarrow> byte list \<Rightarrow> ffdir \<Rightarrow> 'd fatfs \<Rightarrow> (fresult \<times> 'd fatfs) option" where
  \<comment> \<open>the object \<open>djo\<close> to be renamed is found\<close>
  "rename_object io path_new djo fs =
    (let buf = take 32 (drop (ddir djo) (win fs)) in
     do { (res, djn, fs) \<leftarrow> follow_path io djo path_new fs;
          let res = (if res = FR_OK then
                       (if sclust (dobj djn) = sclust (dobj djo) \<and> dptr djn = dptr djo then FR_NO_FILE
                        else FR_EXIST)
                     else res)
          in do { (res, fs) \<leftarrow>
                    (if res = FR_NO_FILE then rename_register io buf (sclust (dobj djo)) djn fs
                     else Some (res, fs));
                  Some (if res = FR_OK then
                          (case dir_remove io djo fs of
                             (res, fs) \<Rightarrow> if res = FR_OK then sync_fs io fs else (res, fs))
                        else (res, fs)) } })"

definition f_rename ::
  "'d disk_io \<Rightarrow> 'o ff_mutex \<Rightarrow> ffdir \<Rightarrow> byte list \<Rightarrow> byte list \<Rightarrow> ('d, 'o) ffsys \<Rightarrow>
    (fresult \<times> unit \<times> ('d, 'o) ffsys) option" where
  "f_rename io mx djo path_old path_new s =
    do { (v, path_new) \<leftarrow> get_ldnumber (CurrVol s) (Some path_new);
         path_new \<leftarrow> path_new;
         on_volume io mx path_old FA_WRITE s ()
           (\<lambda>path s.
              do { (res, djo, fs) \<leftarrow> follow_path io (fresh_dir djo) path (vol s);
                   let res = (if res = FR_OK \<and> fn djo ! NSFLAG AND (NS_DOT OR NS_NONAME) \<noteq> 0
                              then FR_INVALID_NAME else res);
                       res = (if res = FR_OK then chk_share (Files s) djo 2 else res)
                   in do { (res, fs) \<leftarrow> (if res = FR_OK then rename_object io path_new djo fs
                                         else Some (res, fs));
                           Some (res, (), s\<lparr>vol := fs\<rparr>) } }) }"

end
