(* ===== verification/FatKeep.thy ===== *)
theory FatKeep
  imports FatApi
begin

text \<open>
  Every function of FatFs below the mount leaves the geometry of the volume alone, whatever the drive
  answers: the lemmas \<open>f_keeps\<close>, one for each function, in the order of the calls. The functions
  without loops are rewritten, the results of the others are followed by \<open>keeps\<close>.
\<close>

named_theorems keeps \<open>functions that leave the geometry of the volume alone\<close>

definition stays :: "('y \<Rightarrow> 'd fatfs) \<Rightarrow> 'd fatfs \<Rightarrow> 'y option \<Rightarrow> bool" where
  \<comment> \<open>a result, if there is one, has a volume with the same geometry\<close>
  "stays p G x \<longleftrightarrow> (\<forall>y. x = Some y \<longrightarrow> geometry (p y) = G)"

lemma stays_simps [simp]:
  "stays p G None" "stays p G (Some y) \<longleftrightarrow> geometry (p y) = G"
  "stays p G (Option.bind x f) \<longleftrightarrow> (\<forall>y. x = Some y \<longrightarrow> stays p G (f y))"
  by (auto simp: stays_def bind_eq_Some_conv)

lemma staysI: "(\<And>y. x = Some y \<Longrightarrow> geometry (p y) = G) \<Longrightarrow> stays p G x"
  by (simp add: stays_def)

lemma staysD: "x = Some y \<Longrightarrow> stays p G x \<Longrightarrow> geometry (p y) = G"
  by (simp add: stays_def)

abbreviation kept :: "'d fatfs \<Rightarrow> 'd fatfs \<Rightarrow> bool" where
  "kept fs fs' \<equiv> geometry fs' = geometry fs"

lemma sync_window_keeps [simp]: "kept fs (snd (sync_window io fs))"
  by (simp add: sync_window_def Let_def split_beta)

lemma sync_window_keeps' [keeps]: "sync_window io fs = y \<Longrightarrow> kept fs (snd y)"
  by (drule sym) simp

lemma move_window_keeps [simp]: "kept fs (snd (move_window io k fs))"
  by (simp add: move_window_def Let_def split_beta)

lemma move_window_keeps' [keeps]: "move_window io k fs = y \<Longrightarrow> kept fs (snd y)"
  by (drule sym) simp

lemma sync_fs_keeps [simp]: "kept fs (snd (sync_fs io fs))"
  by (simp add: sync_fs_def Let_def split_beta)

lemma sync_fs_keeps' [keeps]: "sync_fs io fs = y \<Longrightarrow> kept fs (snd y)"
  by (drule sym) simp

lemma get_fat_keeps [simp]: "kept fs (snd (get_fat io c fs))"
  by (simp add: get_fat_def Let_def split_beta)

lemma get_fat_keeps' [keeps]: "get_fat io c fs = y \<Longrightarrow> kept fs (snd y)"
  by (drule sym) simp

lemma put_fat_keeps [simp]: "kept fs (snd (put_fat io c v fs))"
  by (simp add: put_fat_def Let_def split_beta)

lemma put_fat_keeps' [keeps]: "put_fat io c v fs = y \<Longrightarrow> kept fs (snd y)"
  by (drule sym) simp

lemma remove_loop_keeps [keeps]: "remove_loop io c fs = Some y \<Longrightarrow> kept fs (snd y)"
  apply (drule remove_loop.raw_induct [where P = "\<lambda>io c fs y. kept fs (snd y)", rotated])
  subgoal premises IH for f io c fs y
    by (rule staysD [OF IH(2), of "snd" "geometry fs", simplified o_apply])
      (auto simp: Let_def split_beta bind_eq_Some_conv intro: staysI dest!: IH(1) keeps split: option.split sum.split)
  by simp

lemma remove_chain_keeps [keeps]: "remove_chain io c p fs = Some y \<Longrightarrow> kept fs (snd y)"
  by (erule staysD [of _ _ "snd" "geometry fs", simplified o_apply])
    (auto simp: remove_chain_def Let_def split_beta bind_eq_Some_conv intro: staysI dest!: keeps split: option.split sum.split)

lemma find_free_keeps [keeps]: "find_free io scl ncl fs = Some y \<Longrightarrow> kept fs (snd y)"
  apply (drule find_free.raw_induct [where P = "\<lambda>io scl ncl fs y. kept fs (snd y)", rotated])
  subgoal premises IH for f io scl ncl fs y
    by (rule staysD [OF IH(2), of "snd" "geometry fs", simplified o_apply])
      (auto simp: Let_def split_beta bind_eq_Some_conv intro: staysI dest!: IH(1) keeps split: option.split sum.split)
  by simp

lemma chain_start_keeps [simp]: "kept fs (snd (chain_start io c fs))"
  by (simp add: chain_start_def Let_def split_beta)

lemma chain_start_keeps' [keeps]: "chain_start io c fs = y \<Longrightarrow> kept fs (snd y)"
  by (drule sym) simp

lemma next_free_keeps [keeps]: "next_free io c scl fs = Some y \<Longrightarrow> kept fs (snd y)"
  by (erule staysD [of _ _ "snd" "geometry fs", simplified o_apply])
    (auto simp: next_free_def Let_def split_beta bind_eq_Some_conv intro: staysI dest!: keeps split: option.split sum.split)

lemma create_chain_keeps [keeps]: "create_chain io c fs = Some y \<Longrightarrow> kept fs (snd y)"
  by (erule staysD [of _ _ "snd" "geometry fs", simplified o_apply])
    (auto simp: create_chain_def Let_def split_beta bind_eq_Some_conv intro: staysI dest!: keeps split: option.split sum.split)

lemma clear_loop_keeps [simp]: "kept fs (snd (clear_loop io sect n k fs))"
  by (induction k arbitrary: n fs) (simp_all add: split_beta)

lemma dir_clear_keeps [simp]: "kept fs (snd (dir_clear io c fs))"
  by (simp add: dir_clear_def Let_def split_beta)

lemma dir_clear_keeps' [keeps]: "dir_clear io c fs = y \<Longrightarrow> kept fs (snd y)"
  by (drule sym) simp

lemma sdi_follow_keeps [keeps]: "sdi_follow io csz ofs c fs = Some y \<Longrightarrow> kept fs (snd y)"
  apply (drule sdi_follow.raw_induct [where P = "\<lambda>io csz ofs c fs y. kept fs (snd y)", rotated])
  subgoal premises IH for f io csz ofs c fs y
    by (rule staysD [OF IH(2), of "snd" "geometry fs", simplified o_apply])
      (auto simp: Let_def split_beta bind_eq_Some_conv intro: staysI dest!: IH(1) keeps split: option.split sum.split)
  by simp

lemma dir_sdi_keeps [keeps]: "dir_sdi io ofs dp fs = Some y \<Longrightarrow> kept fs (snd (snd y))"
  by (erule staysD [of _ _ "(snd \<circ> snd)" "geometry fs", simplified o_apply])
    (auto simp: dir_sdi_def Let_def split_beta bind_eq_Some_conv intro: staysI dest!: keeps split: option.split sum.split)

lemma dir_next_cluster_keeps [keeps]: "dir_next_cluster io st dp fs = Some y \<Longrightarrow> kept fs (snd (snd y))"
  by (erule staysD [of _ _ "(snd \<circ> snd)" "geometry fs", simplified o_apply])
    (auto simp: dir_next_cluster_def Let_def split_beta bind_eq_Some_conv intro: staysI dest!: keeps split: option.split sum.split)

lemma dir_next_keeps [keeps]: "dir_next io st dp fs = Some y \<Longrightarrow> kept fs (snd (snd y))"
  by (erule staysD [of _ _ "(snd \<circ> snd)" "geometry fs", simplified o_apply])
    (auto simp: dir_next_def Let_def split_beta bind_eq_Some_conv intro: staysI dest!: keeps split: option.split sum.split)

lemma alloc_loop_keeps [keeps]: "alloc_loop io n_ent n dp fs = Some y \<Longrightarrow> kept fs (snd (snd y))"
  apply (drule alloc_loop.raw_induct [where P = "\<lambda>io n_ent n dp fs y. kept fs (snd (snd y))", rotated])
  subgoal premises IH for f io n_ent n dp fs y
    by (rule staysD [OF IH(2), of "(snd \<circ> snd)" "geometry fs", simplified o_apply])
      (auto simp: Let_def split_beta bind_eq_Some_conv intro: staysI dest!: IH(1) keeps split: option.split sum.split)
  by simp

lemma dir_alloc_keeps [keeps]: "dir_alloc io n dp fs = Some y \<Longrightarrow> kept fs (snd (snd y))"
  by (erule staysD [of _ _ "(snd \<circ> snd)" "geometry fs", simplified o_apply])
    (auto simp: dir_alloc_def Let_def split_beta bind_eq_Some_conv intro: staysI dest!: keeps split: option.split sum.split)

lemma read_loop_keeps [keeps]: "read_loop io vl res dp fs = Some y \<Longrightarrow> kept fs (snd (snd y))"
  apply (drule read_loop.raw_induct [where P = "\<lambda>io vl res dp fs y. kept fs (snd (snd y))", rotated])
  subgoal premises IH for f io vl res dp fs y
    by (rule staysD [OF IH(2), of "(snd \<circ> snd)" "geometry fs", simplified o_apply])
      (auto simp: Let_def split_beta bind_eq_Some_conv intro: staysI dest!: IH(1) keeps split: option.split sum.split)
  by simp

lemma dir_read_keeps [keeps]: "dir_read io vl dp fs = Some y \<Longrightarrow> kept fs (snd (snd y))"
  by (erule staysD [of _ _ "(snd \<circ> snd)" "geometry fs", simplified o_apply])
    (auto simp: dir_read_def Let_def split_beta bind_eq_Some_conv intro: staysI dest!: keeps split: option.split sum.split)

lemma find_loop_keeps [keeps]: "find_loop io dp fs = Some y \<Longrightarrow> kept fs (snd (snd y))"
  apply (drule find_loop.raw_induct [where P = "\<lambda>io dp fs y. kept fs (snd (snd y))", rotated])
  subgoal premises IH for f io dp fs y
    by (rule staysD [OF IH(2), of "(snd \<circ> snd)" "geometry fs", simplified o_apply])
      (auto simp: Let_def split_beta bind_eq_Some_conv intro: staysI dest!: IH(1) keeps split: option.split sum.split)
  by simp

lemma dir_find_keeps [keeps]: "dir_find io dp fs = Some y \<Longrightarrow> kept fs (snd (snd y))"
  by (erule staysD [of _ _ "(snd \<circ> snd)" "geometry fs", simplified o_apply])
    (auto simp: dir_find_def Let_def split_beta bind_eq_Some_conv intro: staysI dest!: keeps split: option.split sum.split)

lemma dir_register_keeps [keeps]: "dir_register io dp fs = Some y \<Longrightarrow> kept fs (snd (snd y))"
  by (erule staysD [of _ _ "(snd \<circ> snd)" "geometry fs", simplified o_apply])
    (auto simp: dir_register_def Let_def split_beta bind_eq_Some_conv intro: staysI dest!: keeps split: option.split sum.split)

lemma dir_remove_keeps [simp]: "kept fs (snd (dir_remove io dp fs))"
  by (simp add: dir_remove_def Let_def split_beta)

lemma dir_remove_keeps' [keeps]: "dir_remove io dp fs = y \<Longrightarrow> kept fs (snd y)"
  by (drule sym) simp

lemma follow_loop_keeps [keeps]: "follow_loop io path dp fs = Some y \<Longrightarrow> kept fs (snd (snd y))"
  apply (drule follow_loop.raw_induct [where P = "\<lambda>io path dp fs y. kept fs (snd (snd y))", rotated])
  subgoal premises IH for f io path dp fs y
    by (rule staysD [OF IH(2), of "(snd \<circ> snd)" "geometry fs", simplified o_apply])
      (auto simp: Let_def split_beta bind_eq_Some_conv intro: staysI dest!: IH(1) keeps split: option.split sum.split)
  by simp

lemma follow_path_keeps [keeps]: "follow_path io dp path fs = Some y \<Longrightarrow> kept fs (snd (snd y))"
  by (erule staysD [of _ _ "(snd \<circ> snd)" "geometry fs", simplified o_apply])
    (auto simp: follow_path_def Let_def split_beta bind_eq_Some_conv intro: staysI dest!: keeps split: option.split sum.split)

lemma check_fs_keeps [simp]: "kept fs (snd (check_fs io k fs))"
  by (simp add: check_fs_def Let_def split_beta)

lemma check_fs_keeps' [keeps]: "check_fs io k fs = y \<Longrightarrow> kept fs (snd y)"
  by (drule sym) simp

lemma load_fsinfo_keeps [simp]: "kept fs (load_fsinfo io fmt b fs)"
  by (simp add: load_fsinfo_def Let_def split_beta)

lemma load_fsinfo_keeps' [keeps]: "load_fsinfo io fmt b fs = y \<Longrightarrow> kept fs (y)"
  by (drule sym) simp

lemma flush_buf_keeps [simp]: "kept fs (snd (snd (flush_buf io fp fs)))"
  by (simp add: flush_buf_def Let_def split_beta)

lemma flush_buf_keeps' [keeps]: "flush_buf io fp fs = y \<Longrightarrow> kept fs (snd (snd y))"
  by (drule sym) simp

lemma load_buf_keeps [simp]: "kept fs (snd (snd (load_buf io k fp fs)))"
  by (simp add: load_buf_def Let_def split_beta)

lemma load_buf_keeps' [keeps]: "load_buf io k fp fs = y \<Longrightarrow> kept fs (snd (snd y))"
  by (drule sym) simp

lemma read_clust_keeps [simp]: "kept fs (snd (snd (read_clust io cs fp fs)))"
  by (simp add: read_clust_def Let_def split_beta)

lemma read_clust_keeps' [keeps]: "read_clust io cs fp fs = y \<Longrightarrow> kept fs (snd (snd y))"
  by (drule sym) simp

lemma read_direct_keeps [simp]: "kept fs (snd (snd (snd (snd (read_direct io k cc br buff fp fs)))))"
  by (simp add: read_direct_def Let_def split_beta)

lemma read_direct_keeps' [keeps]: "read_direct io k cc br buff fp fs = y \<Longrightarrow> kept fs (snd (snd (snd (snd y))))"
  by (drule sym) simp

lemma read_chunk_keeps [simp]: "kept fs (snd (snd (snd (snd (read_chunk io btr br buff fp fs)))))"
  by (simp add: read_chunk_def Let_def split_beta)

lemma read_chunk_keeps' [keeps]: "read_chunk io btr br buff fp fs = y \<Longrightarrow> kept fs (snd (snd (snd (snd y))))"
  by (drule sym) simp

lemma read_bytes_keeps [keeps]: "read_bytes io btr br buff fp fs = Some y \<Longrightarrow> kept fs (snd (snd (snd (snd y))))"
  apply (drule read_bytes.raw_induct [where P = "\<lambda>io btr br buff fp fs y. kept fs (snd (snd (snd (snd y))))", rotated])
  subgoal premises IH for f io btr br buff fp fs y
    by (rule staysD [OF IH(2), of "(snd \<circ> snd \<circ> snd \<circ> snd)" "geometry fs", simplified o_apply])
      (auto simp: Let_def split_beta bind_eq_Some_conv intro: staysI dest!: IH(1) keeps split: option.split sum.split)
  by simp

lemma write_clust_keeps [keeps]: "write_clust io cs fp fs = Some y \<Longrightarrow> kept fs (snd (snd y))"
  by (erule staysD [of _ _ "(snd \<circ> snd)" "geometry fs", simplified o_apply])
    (auto simp: write_clust_def Let_def split_beta bind_eq_Some_conv intro: staysI dest!: keeps split: option.split sum.split)

lemma write_direct_keeps [simp]: "kept fs (snd (snd (snd (write_direct io k cc bw buff fp fs))))"
  by (simp add: write_direct_def Let_def split_beta)

lemma write_direct_keeps' [keeps]: "write_direct io k cc bw buff fp fs = y \<Longrightarrow> kept fs (snd (snd (snd y)))"
  by (drule sym) simp

lemma write_sector_keeps [simp]: "kept fs (snd (snd (snd (write_sector io cs btw bw buff fp fs))))"
  by (simp add: write_sector_def Let_def split_beta)

lemma write_sector_keeps' [keeps]: "write_sector io cs btw bw buff fp fs = y \<Longrightarrow> kept fs (snd (snd (snd y)))"
  by (drule sym) simp

lemma write_chunk_keeps [keeps]: "write_chunk io btw bw buff fp fs = Some y \<Longrightarrow> kept fs (snd (snd (snd y)))"
  by (erule staysD [of _ _ "(snd \<circ> snd \<circ> snd)" "geometry fs", simplified o_apply])
    (auto simp: write_chunk_def Let_def split_beta bind_eq_Some_conv intro: staysI dest!: keeps split: option.split sum.split)

lemma write_bytes_keeps [keeps]: "write_bytes io btw bw buff fp fs = Some y \<Longrightarrow> kept fs (snd (snd (snd y)))"
  apply (drule write_bytes.raw_induct [where P = "\<lambda>io btw bw buff fp fs y. kept fs (snd (snd (snd y)))", rotated])
  subgoal premises IH for f io btw bw buff fp fs y
    by (rule staysD [OF IH(2), of "(snd \<circ> snd \<circ> snd)" "geometry fs", simplified o_apply])
      (auto simp: Let_def split_beta bind_eq_Some_conv intro: staysI dest!: IH(1) keeps split: option.split sum.split)
  by simp

lemma sync_file_keeps [simp]: "kept fs (snd (snd (sync_file io tm fp fs)))"
  by (simp add: sync_file_def Let_def update_entry_def split_beta)

lemma sync_file_keeps' [keeps]: "sync_file io tm fp fs = y \<Longrightarrow> kept fs (snd (snd y))"
  by (drule sym) simp

lemma seek_follow_keeps [keeps]: "seek_follow io bcs c ofs fp fs = Some y \<Longrightarrow> kept fs (snd (snd (snd (snd y))))"
  apply (drule seek_follow.raw_induct [where P = "\<lambda>io bcs c ofs fp fs y. kept fs (snd (snd (snd (snd y))))", rotated])
  subgoal premises IH for f io bcs c ofs fp fs y
    by (rule staysD [OF IH(2), of "(snd \<circ> snd \<circ> snd \<circ> snd)" "geometry fs", simplified o_apply])
      (auto simp: Let_def split_beta bind_eq_Some_conv intro: staysI dest!: IH(1) keeps split: option.split sum.split)
  by simp

lemma seek_start_keeps [keeps]: "seek_start io bcs ip ofs fp fs = Some y \<Longrightarrow> kept fs (snd (snd (snd (snd y))))"
  by (erule staysD [of _ _ "(snd \<circ> snd \<circ> snd \<circ> snd)" "geometry fs", simplified o_apply])
    (auto simp: seek_start_def Let_def split_beta bind_eq_Some_conv intro: staysI dest!: keeps split: option.split sum.split)

lemma seek_move_keeps [keeps]: "seek_move io ofs fp fs = Some y \<Longrightarrow> kept fs (snd (snd (snd y)))"
  by (erule staysD [of _ _ "(snd \<circ> snd \<circ> snd)" "geometry fs", simplified o_apply])
    (auto simp: seek_move_def Let_def split_beta bind_eq_Some_conv intro: staysI dest!: keeps split: option.split sum.split)

lemma seek_load_keeps [simp]: "kept fs (snd (snd (seek_load io k fp fs)))"
  by (simp add: seek_load_def Let_def split_beta)

lemma seek_load_keeps' [keeps]: "seek_load io k fp fs = y \<Longrightarrow> kept fs (snd (snd y))"
  by (drule sym) simp

lemma truncate_chain_keeps [keeps]: "truncate_chain io fp fs = Some y \<Longrightarrow> kept fs (snd (snd y))"
  by (erule staysD [of _ _ "(snd \<circ> snd)" "geometry fs", simplified o_apply])
    (auto simp: truncate_chain_def Let_def split_beta bind_eq_Some_conv intro: staysI dest!: keeps split: option.split sum.split)

lemma open_reset_keeps [keeps]: "open_reset io tm dj fs = Some y \<Longrightarrow> kept fs (snd y)"
  by (erule staysD [of _ _ "snd" "geometry fs", simplified o_apply])
    (auto simp: open_reset_def Let_def split_beta bind_eq_Some_conv intro: staysI dest!: keeps split: option.split sum.split)

lemma open_create_keeps [keeps]: "open_create io tm F res m dj fs = Some y \<Longrightarrow> kept fs (snd (snd (snd y)))"
  by (erule staysD [of _ _ "(snd \<circ> snd \<circ> snd)" "geometry fs", simplified o_apply])
    (auto simp: open_create_def Let_def split_beta bind_eq_Some_conv intro: staysI dest!: keeps split: option.split sum.split)

lemma append_follow_keeps [keeps]: "append_follow io bcs c ofs fs = Some y \<Longrightarrow> kept fs (snd (snd (snd y)))"
  apply (drule append_follow.raw_induct [where P = "\<lambda>io bcs c ofs fs y. kept fs (snd (snd (snd y)))", rotated])
  subgoal premises IH for f io bcs c ofs fs y
    by (rule staysD [OF IH(2), of "(snd \<circ> snd \<circ> snd)" "geometry fs", simplified o_apply])
      (auto simp: Let_def split_beta bind_eq_Some_conv intro: staysI dest!: IH(1) keeps split: option.split sum.split)
  by simp

lemma open_append_keeps [keeps]: "open_append io fp fs = Some y \<Longrightarrow> kept fs (snd (snd y))"
  by (erule staysD [of _ _ "(snd \<circ> snd)" "geometry fs", simplified o_apply])
    (auto simp: open_append_def Let_def split_beta bind_eq_Some_conv intro: staysI dest!: keeps split: option.split sum.split)

lemma find_child_keeps [keeps]: "find_child io ccl dj fs = Some y \<Longrightarrow> kept fs (snd (snd y))"
  apply (drule find_child.raw_induct [where P = "\<lambda>io ccl dj fs y. kept fs (snd (snd y))", rotated])
  subgoal premises IH for f io ccl dj fs y
    by (rule staysD [OF IH(2), of "(snd \<circ> snd)" "geometry fs", simplified o_apply])
      (auto simp: Let_def split_beta bind_eq_Some_conv intro: staysI dest!: IH(1) keeps split: option.split sum.split)
  by simp

lemma cwd_step_keeps [keeps]: "cwd_step io fno i buff dj fs = Some y \<Longrightarrow> kept fs (snd (snd (snd (snd y))))"
  by (erule staysD [of _ _ "(snd \<circ> snd \<circ> snd \<circ> snd)" "geometry fs", simplified o_apply])
    (auto simp: cwd_step_def Let_def split_beta bind_eq_Some_conv intro: staysI dest!: keeps split: option.split sum.split)

lemma cwd_loop_keeps [keeps]: "cwd_loop io fno i buff dj fs = Some y \<Longrightarrow> kept fs (snd (snd (snd y)))"
  apply (drule cwd_loop.raw_induct [where P = "\<lambda>io fno i buff dj fs y. kept fs (snd (snd (snd y)))", rotated])
  subgoal premises IH for f io fno i buff dj fs y
    by (rule staysD [OF IH(2), of "(snd \<circ> snd \<circ> snd)" "geometry fs", simplified o_apply])
      (auto simp: Let_def split_beta bind_eq_Some_conv intro: staysI dest!: IH(1) keeps split: option.split sum.split)
  by simp

lemma read_item_keeps [keeps]: "read_item io dp fno fs = Some y \<Longrightarrow> kept fs (snd (snd (snd y)))"
  by (erule staysD [of _ _ "(snd \<circ> snd \<circ> snd)" "geometry fs", simplified o_apply])
    (auto simp: read_item_def Let_def split_beta bind_eq_Some_conv intro: staysI dest!: keeps split: option.split sum.split)

lemma count_fat12_keeps [keeps]: "count_fat12 io c n fs = Some y \<Longrightarrow> kept fs (snd (snd y))"
  apply (drule count_fat12.raw_induct [where P = "\<lambda>io c n fs y. kept fs (snd (snd y))", rotated])
  subgoal premises IH for f io c n fs y
    by (rule staysD [OF IH(2), of "(snd \<circ> snd)" "geometry fs", simplified o_apply])
      (auto simp: Let_def split_beta bind_eq_Some_conv intro: staysI dest!: IH(1) keeps split: option.split sum.split)
  by simp

lemma count_fat_keeps [keeps]: "count_fat io c k i n fs = Some y \<Longrightarrow> kept fs (snd (snd y))"
  apply (drule count_fat.raw_induct [where P = "\<lambda>io c k i n fs y. kept fs (snd (snd y))", rotated])
  subgoal premises IH for f io c k i n fs y
    by (rule staysD [OF IH(2), of "(snd \<circ> snd)" "geometry fs", simplified o_apply])
      (auto simp: Let_def split_beta bind_eq_Some_conv intro: staysI dest!: IH(1) keeps split: option.split sum.split)
  by simp

lemma scan_free_keeps [keeps]: "scan_free io fs = Some y \<Longrightarrow> kept fs (snd (snd y))"
  by (erule staysD [of _ _ "(snd \<circ> snd)" "geometry fs", simplified o_apply])
    (auto simp: scan_free_def Let_def split_beta bind_eq_Some_conv intro: staysI dest!: keeps split: option.split sum.split)

lemma dir_empty_keeps [keeps]: "dir_empty io sdj d fs = Some y \<Longrightarrow> kept fs (snd y)"
  by (erule staysD [of _ _ "snd" "geometry fs", simplified o_apply])
    (auto simp: dir_empty_def Let_def split_beta bind_eq_Some_conv intro: staysI dest!: keeps split: option.split sum.split)

lemma unlink_entry_keeps [keeps]: "unlink_entry io dj d fs = Some y \<Longrightarrow> kept fs (snd y)"
  by (erule staysD [of _ _ "snd" "geometry fs", simplified o_apply])
    (auto simp: unlink_entry_def Let_def split_beta bind_eq_Some_conv intro: staysI dest!: keeps split: option.split sum.split)

lemma unlink_object_keeps [keeps]: "unlink_object io sdj dj fs = Some y \<Longrightarrow> kept fs (snd y)"
  by (erule staysD [of _ _ "snd" "geometry fs", simplified o_apply])
    (auto simp: unlink_object_def Let_def split_beta bind_eq_Some_conv intro: staysI dest!: keeps split: option.split sum.split)

lemma make_dir_keeps [keeps]: "make_dir io tm dj fs = Some y \<Longrightarrow> kept fs (snd y)"
  by (erule staysD [of _ _ "snd" "geometry fs", simplified o_apply])
    (auto simp: make_dir_def Let_def dot_entries_def split_beta bind_eq_Some_conv intro: staysI dest!: keeps split: option.split sum.split)

lemma rename_register_keeps [keeps]: "rename_register io b old dj fs = Some y \<Longrightarrow> kept fs (snd y)"
  by (erule staysD [of _ _ "snd" "geometry fs", simplified o_apply])
    (auto simp: rename_register_def Let_def split_beta bind_eq_Some_conv intro: staysI dest!: keeps split: option.split sum.split)

lemma rename_object_keeps [keeps]: "rename_object io p dj fs = Some y \<Longrightarrow> kept fs (snd y)"
  by (erule staysD [of _ _ "snd" "geometry fs", simplified o_apply])
    (auto simp: rename_object_def Let_def split_beta bind_eq_Some_conv intro: staysI dest!: keeps split: option.split sum.split)

end
