(* ===== verification/FatResult.thy ===== *)
theory FatResult
  imports FatKeep
begin

text \<open>
  The result codes that the functions below the mount can return. \<open>unlock_volume\<close> gives the mutex back
  only for some results, so it matters that a call that holds it never ends with one of the others:
  the lemmas \<open>f_plain\<close>, one for each function.
\<close>

named_theorems plains \<open>functions with a plain result\<close>

definition plain :: "fresult \<Rightarrow> bool" where
  \<comment> \<open>\<open>unlock_volume\<close> gives the mutex back\<close>
  "plain r \<longleftrightarrow> r \<noteq> FR_NOT_ENABLED \<and> r \<noteq> FR_INVALID_DRIVE \<and> r \<noteq> FR_TIMEOUT"

lemma plain_codes [simp]:
  "plain FR_OK" "plain FR_DISK_ERR" "plain FR_INT_ERR" "plain FR_NOT_READY" "plain FR_NO_FILE"
  "plain FR_NO_PATH" "plain FR_INVALID_NAME" "plain FR_DENIED" "plain FR_EXIST" "plain FR_WRITE_PROTECTED"
  "plain FR_INVALID_OBJECT" "plain FR_NO_FILESYSTEM" "plain FR_LOCKED" "plain FR_NOT_ENOUGH_CORE"
  "plain FR_TOO_MANY_OPEN_FILES"
  by (simp_all add: plain_def)

definition ends :: "('y \<Rightarrow> bool) \<Rightarrow> 'y option \<Rightarrow> bool" where
  "ends P x \<longleftrightarrow> (\<forall>y. x = Some y \<longrightarrow> P y)"

lemma ends_simps [simp]:
  "ends P None" "ends P (Some y) \<longleftrightarrow> P y"
  "ends P (Option.bind x f) \<longleftrightarrow> (\<forall>y. x = Some y \<longrightarrow> ends P (f y))"
  by (auto simp: ends_def bind_eq_Some_conv)

lemma endsI: "(\<And>y. x = Some y \<Longrightarrow> P y) \<Longrightarrow> ends P x"
  by (simp add: ends_def)

lemma endsD: "x = Some y \<Longrightarrow> ends P x \<Longrightarrow> P y"
  by (simp add: ends_def)

abbreviation plain_fst :: "fresult \<times> 'a \<Rightarrow> bool" where
  "plain_fst y \<equiv> plain (fst y)"

lemma sync_window_plain [simp]: "plain_fst (sync_window io fs)"
  by (simp add: sync_window_def Let_def split_beta)

lemma sync_window_plain' [plains]: "sync_window io fs = y \<Longrightarrow> plain_fst y"
  by (drule sym) simp

lemma move_window_plain [simp]: "plain_fst (move_window io k fs)"
  by (simp add: move_window_def Let_def split_beta)

lemma move_window_plain' [plains]: "move_window io k fs = y \<Longrightarrow> plain_fst y"
  by (drule sym) simp

lemma sync_fs_plain [simp]: "plain_fst (sync_fs io fs)"
  by (simp add: sync_fs_def Let_def split_beta)

lemma sync_fs_plain' [plains]: "sync_fs io fs = y \<Longrightarrow> plain_fst y"
  by (drule sym) simp

lemma put_fat_plain [simp]: "plain_fst (put_fat io c v fs)"
  by (simp add: put_fat_def Let_def split_beta)

lemma put_fat_plain' [plains]: "put_fat io c v fs = y \<Longrightarrow> plain_fst y"
  by (drule sym) simp

lemma remove_loop_plain [plains]: "remove_loop io c fs = Some y \<Longrightarrow> plain_fst y"
  apply (drule remove_loop.raw_induct [where P = "\<lambda>io c fs y. plain_fst y", rotated])
  subgoal premises IH for f io c fs y
    by (rule endsD [OF IH(2), of plain_fst])
      (auto simp: Let_def split_beta bind_eq_Some_conv intro: endsI dest!: IH(1) plains split: option.split sum.split)
  by simp

lemma remove_chain_plain [plains]: "remove_chain io c p fs = Some y \<Longrightarrow> plain_fst y"
  by (erule endsD [of _ _ plain_fst])
    (auto simp: remove_chain_def Let_def split_beta bind_eq_Some_conv intro: endsI dest!: plains split: option.split sum.split)

lemma dir_clear_plain [simp]: "plain_fst (dir_clear io c fs)"
  by (simp add: dir_clear_def Let_def split_beta)

lemma dir_clear_plain' [plains]: "dir_clear io c fs = y \<Longrightarrow> plain_fst y"
  by (drule sym) simp

lemma sdi_follow_plain [plains]:
  "sdi_follow io csz ofs c fs = Some y \<Longrightarrow> case fst y of Inl r \<Rightarrow> plain r | Inr _ \<Rightarrow> True"
  apply (drule sdi_follow.raw_induct [where P = "\<lambda>io csz ofs c fs y. case fst y of Inl r \<Rightarrow> plain r | Inr _ \<Rightarrow> True", rotated])
  subgoal premises IH for f io csz ofs c fs y
    using IH(2) by (auto simp: split_beta dest!: IH(1) split: if_splits)
  by simp

lemma sdi_finish_plain [simp]: "plain_fst (sdi_finish c sect ofs dp)"
  by (simp add: sdi_finish_def Let_def)

lemma dir_sdi_plain [plains]: "dir_sdi io ofs dp fs = Some y \<Longrightarrow> plain_fst y"
  by (erule endsD [of _ _ plain_fst])
    (auto simp: dir_sdi_def Let_def split_beta bind_eq_Some_conv intro: endsI dest!: plains split: option.split sum.split)

lemma dir_next_cluster_plain [plains]: "dir_next_cluster io st dp fs = Some y \<Longrightarrow> plain_fst y"
  by (erule endsD [of _ _ plain_fst])
    (auto simp: dir_next_cluster_def Let_def split_beta bind_eq_Some_conv intro: endsI dest!: plains split: option.split sum.split)

lemma dir_next_plain [plains]: "dir_next io st dp fs = Some y \<Longrightarrow> plain_fst y"
  by (erule endsD [of _ _ plain_fst])
    (auto simp: dir_next_def Let_def split_beta bind_eq_Some_conv intro: endsI dest!: plains split: option.split sum.split)

lemma alloc_loop_plain [plains]: "alloc_loop io n_ent n dp fs = Some y \<Longrightarrow> plain_fst y"
  apply (drule alloc_loop.raw_induct [where P = "\<lambda>io n_ent n dp fs y. plain_fst y", rotated])
  subgoal premises IH for f io n_ent n dp fs y
    by (rule endsD [OF IH(2), of plain_fst])
      (auto simp: Let_def split_beta bind_eq_Some_conv intro: endsI dest!: IH(1) plains split: option.split sum.split)
  by simp

lemma dir_alloc_plain [plains]: "dir_alloc io n dp fs = Some y \<Longrightarrow> plain_fst y"
  by (erule endsD [of _ _ plain_fst])
    (auto simp: dir_alloc_def Let_def split_beta bind_eq_Some_conv intro: endsI dest!: plains split: option.split sum.split)

lemma read_loop_plain [plains]: "read_loop io vl res dp fs = Some y \<Longrightarrow> plain res \<Longrightarrow> plain_fst y"
  apply (drule read_loop.raw_induct [where P = "\<lambda>io vl res dp fs y. plain res \<longrightarrow> plain_fst y", rotated])
  subgoal premises IH for f io vl res dp fs y
    by (rule impI, rule endsD [OF IH(3), of plain_fst])
      (auto simp: Let_def split_beta intro: endsI dest!: IH(2) plains)
  by simp

lemma dir_read_plain [plains]: "dir_read io vl dp fs = Some y \<Longrightarrow> plain_fst y"
  by (erule endsD [of _ _ plain_fst])
    (auto simp: dir_read_def Let_def split_beta bind_eq_Some_conv intro: endsI dest!: plains split: option.split sum.split)

lemma find_loop_plain [plains]: "find_loop io dp fs = Some y \<Longrightarrow> plain_fst y"
  apply (drule find_loop.raw_induct [where P = "\<lambda>io dp fs y. plain_fst y", rotated])
  subgoal premises IH for f io dp fs y
    by (rule endsD [OF IH(2), of plain_fst])
      (auto simp: Let_def split_beta bind_eq_Some_conv intro: endsI dest!: IH(1) plains split: option.split sum.split)
  by simp

lemma dir_find_plain [plains]: "dir_find io dp fs = Some y \<Longrightarrow> plain_fst y"
  by (erule endsD [of _ _ plain_fst])
    (auto simp: dir_find_def Let_def split_beta bind_eq_Some_conv intro: endsI dest!: plains split: option.split sum.split)

lemma dir_register_plain [plains]: "dir_register io dp fs = Some y \<Longrightarrow> plain_fst y"
  by (erule endsD [of _ _ plain_fst])
    (auto simp: dir_register_def Let_def split_beta bind_eq_Some_conv intro: endsI dest!: plains split: option.split sum.split)

lemma dir_remove_plain [simp]: "plain_fst (dir_remove io dp fs)"
  by (simp add: dir_remove_def Let_def split_beta)

lemma dir_remove_plain' [plains]: "dir_remove io dp fs = y \<Longrightarrow> plain_fst y"
  by (drule sym) simp

lemma name_loop_plain [plains]: "name_loop i ni sfn p = Some y \<Longrightarrow> plain_fst y"
  by (induction i ni sfn p rule: name_loop.induct)
    (auto simp: Let_def bind_eq_Some_conv split: if_splits)

lemma create_name_plain [plains]: "create_name path f = Some y \<Longrightarrow> plain_fst y"
  by (erule endsD [of _ _ plain_fst])
    (auto simp: create_name_def Let_def split_beta intro: endsI dest!: plains)

lemma follow_loop_plain [plains]: "follow_loop io path dp fs = Some y \<Longrightarrow> plain_fst y"
  apply (drule follow_loop.raw_induct [where P = "\<lambda>io path dp fs y. plain_fst y", rotated])
  subgoal premises IH for f io path dp fs y
    by (rule endsD [OF IH(2), of plain_fst])
      (auto simp: Let_def split_beta bind_eq_Some_conv intro: endsI dest!: IH(1) plains split: option.split sum.split)
  by simp

lemma follow_path_plain [plains]: "follow_path io dp path fs = Some y \<Longrightarrow> plain_fst y"
  by (erule endsD [of _ _ plain_fst])
    (auto simp: follow_path_def Let_def split_beta bind_eq_Some_conv intro: endsI dest!: plains split: option.split sum.split)

lemma flush_buf_plain [simp]: "plain_fst (flush_buf io fp fs)"
  by (simp add: flush_buf_def Let_def split_beta)

lemma flush_buf_plain' [plains]: "flush_buf io fp fs = y \<Longrightarrow> plain_fst y"
  by (drule sym) simp

lemma load_buf_plain [simp]: "plain_fst (load_buf io k fp fs)"
  by (simp add: load_buf_def Let_def split_beta)

lemma load_buf_plain' [plains]: "load_buf io k fp fs = y \<Longrightarrow> plain_fst y"
  by (drule sym) simp

lemma read_clust_plain [simp]: "plain_fst (read_clust io cs fp fs)"
  by (simp add: read_clust_def Let_def split_beta)

lemma read_clust_plain' [plains]: "read_clust io cs fp fs = y \<Longrightarrow> plain_fst y"
  by (drule sym) simp

lemma read_direct_plain [simp]: "plain_fst (read_direct io k cc br buff fp fs)"
  by (simp add: read_direct_def Let_def split_beta)

lemma read_direct_plain' [plains]: "read_direct io k cc br buff fp fs = y \<Longrightarrow> plain_fst y"
  by (drule sym) simp

lemma read_chunk_plain [simp]: "plain_fst (read_chunk io btr br buff fp fs)"
  by (simp add: read_chunk_def Let_def split_beta)

lemma read_chunk_plain' [plains]: "read_chunk io btr br buff fp fs = y \<Longrightarrow> plain_fst y"
  by (drule sym) simp

lemma read_bytes_plain [plains]: "read_bytes io btr br buff fp fs = Some y \<Longrightarrow> plain_fst y"
  apply (drule read_bytes.raw_induct [where P = "\<lambda>io btr br buff fp fs y. plain_fst y", rotated])
  subgoal premises IH for f io btr br buff fp fs y
    by (rule endsD [OF IH(2), of plain_fst])
      (auto simp: Let_def split_beta bind_eq_Some_conv intro: endsI dest!: IH(1) plains split: option.split sum.split)
  by simp

lemma write_clust_plain [plains]:
  "write_clust io cs fp fs = Some y \<Longrightarrow> fst y = Some r \<Longrightarrow> plain r"
  by (auto simp: write_clust_def bind_eq_Some_conv split: if_splits)

lemma write_direct_plain [simp]: "plain_fst (write_direct io k cc bw buff fp fs)"
  by (simp add: write_direct_def Let_def split_beta)

lemma write_direct_plain' [plains]: "write_direct io k cc bw buff fp fs = y \<Longrightarrow> plain_fst y"
  by (drule sym) simp

lemma write_sector_plain [simp]: "plain_fst (write_sector io cs btw bw buff fp fs)"
  by (simp add: write_sector_def Let_def split_beta)

lemma write_sector_plain' [plains]: "write_sector io cs btw bw buff fp fs = y \<Longrightarrow> plain_fst y"
  by (drule sym) simp

lemma write_chunk_plain [plains]:
  "write_chunk io btw bw buff fp fs = Some y \<Longrightarrow> fst y = Some r \<Longrightarrow> plain r"
  by (auto simp: write_chunk_def Let_def split_beta bind_eq_Some_conv dest!: plains split: if_splits)

lemma write_bytes_plain [plains]: "write_bytes io btw bw buff fp fs = Some y \<Longrightarrow> plain_fst y"
  apply (drule write_bytes.raw_induct [where P = "\<lambda>io btw bw buff fp fs y. plain_fst y", rotated])
  subgoal premises IH for f io btw bw buff fp fs y
    by (rule endsD [OF IH(2), of plain_fst])
      (auto simp: Let_def split_beta bind_eq_Some_conv intro: endsI dest!: IH(1) plains split: option.split sum.split)
  by simp

lemma sync_file_plain [simp]: "plain_fst (sync_file io tm fp fs)"
  by (simp add: sync_file_def Let_def update_entry_def split_beta)

lemma sync_file_plain' [plains]: "sync_file io tm fp fs = y \<Longrightarrow> plain_fst y"
  by (drule sym) simp

lemma seek_follow_plain [plains]: "seek_follow io bcs c ofs fp fs = Some y \<Longrightarrow> plain_fst y"
  apply (drule seek_follow.raw_induct [where P = "\<lambda>io bcs c ofs fp fs y. plain_fst y", rotated])
  subgoal premises IH for f io bcs c ofs fp fs y
    by (rule endsD [OF IH(2), of plain_fst])
      (auto simp: Let_def split_beta bind_eq_Some_conv intro: endsI dest!: IH(1) plains split: option.split sum.split)
  by simp

lemma seek_start_plain [plains]: "seek_start io bcs ip ofs fp fs = Some y \<Longrightarrow> plain_fst y"
  by (erule endsD [of _ _ plain_fst])
    (auto simp: seek_start_def Let_def split_beta bind_eq_Some_conv intro: endsI dest!: plains split: option.split sum.split)

lemma seek_move_plain [plains]: "seek_move io ofs fp fs = Some y \<Longrightarrow> plain_fst y"
  by (erule endsD [of _ _ plain_fst])
    (auto simp: seek_move_def Let_def split_beta bind_eq_Some_conv intro: endsI dest!: plains split: option.split sum.split)

lemma seek_load_plain [simp]: "plain_fst (seek_load io k fp fs)"
  by (simp add: seek_load_def Let_def split_beta)

lemma seek_load_plain' [plains]: "seek_load io k fp fs = y \<Longrightarrow> plain_fst y"
  by (drule sym) simp

lemma truncate_chain_plain [plains]: "truncate_chain io fp fs = Some y \<Longrightarrow> plain_fst y"
  by (erule endsD [of _ _ plain_fst])
    (auto simp: truncate_chain_def Let_def split_beta bind_eq_Some_conv intro: endsI dest!: plains split: option.split sum.split)

lemma share_plain [simp]:
  "plain (chk_share F dj acc)" "plain_fst (dec_share F i)" "plain (open_existing m dj res) \<longleftrightarrow> plain res"
  by (auto simp: chk_share_def dec_share_def open_existing_def Let_def plain_def)

lemma open_reset_plain [plains]: "open_reset io tm dj fs = Some y \<Longrightarrow> plain_fst y"
  by (erule endsD [of _ _ plain_fst])
    (auto simp: open_reset_def Let_def split_beta bind_eq_Some_conv intro: endsI dest!: plains split: option.split sum.split)

lemma open_create_plain [plains]:
  "open_create io tm F res m dj fs = Some y \<Longrightarrow> plain res \<Longrightarrow> plain_fst y"
  by (erule endsD [of _ _ plain_fst])
    (auto simp: open_create_def Let_def split_beta bind_eq_Some_conv intro: endsI dest!: plains)

lemma append_follow_plain [plains]: "append_follow io bcs c ofs fs = Some y \<Longrightarrow> plain_fst y"
  apply (drule append_follow.raw_induct [where P = "\<lambda>io bcs c ofs fs y. plain_fst y", rotated])
  subgoal premises IH for f io bcs c ofs fs y
    by (rule endsD [OF IH(2), of plain_fst])
      (auto simp: Let_def split_beta bind_eq_Some_conv intro: endsI dest!: IH(1) plains split: option.split sum.split)
  by simp

lemma open_append_plain [plains]: "open_append io fp fs = Some y \<Longrightarrow> plain_fst y"
  by (erule endsD [of _ _ plain_fst])
    (auto simp: open_append_def Let_def split_beta bind_eq_Some_conv intro: endsI dest!: plains split: option.split sum.split)

lemma find_child_plain [plains]: "find_child io ccl dj fs = Some y \<Longrightarrow> plain_fst y"
  apply (drule find_child.raw_induct [where P = "\<lambda>io ccl dj fs y. plain_fst y", rotated])
  subgoal premises IH for f io ccl dj fs y
    by (rule endsD [OF IH(2), of plain_fst])
      (auto simp: Let_def split_beta bind_eq_Some_conv intro: endsI dest!: IH(1) plains split: option.split sum.split)
  by simp

lemma cwd_step_plain [plains]: "cwd_step io fno i buff dj fs = Some y \<Longrightarrow> plain_fst y"
  by (erule endsD [of _ _ plain_fst])
    (auto simp: cwd_step_def Let_def split_beta bind_eq_Some_conv intro: endsI dest!: plains split: option.split sum.split)

lemma cwd_loop_plain [plains]: "cwd_loop io fno i buff dj fs = Some y \<Longrightarrow> plain_fst y"
  apply (drule cwd_loop.raw_induct [where P = "\<lambda>io fno i buff dj fs y. plain_fst y", rotated])
  subgoal premises IH for f io fno i buff dj fs y
    by (rule endsD [OF IH(2), of plain_fst])
      (auto simp: Let_def split_beta bind_eq_Some_conv intro: endsI dest!: IH(1) plains split: option.split sum.split)
  by simp

lemma read_item_plain [plains]: "read_item io dp fno fs = Some y \<Longrightarrow> plain_fst y"
  by (erule endsD [of _ _ plain_fst])
    (auto simp: read_item_def Let_def split_beta bind_eq_Some_conv intro: endsI dest!: plains split: option.split sum.split)

lemma count_fat12_plain [plains]: "count_fat12 io c n fs = Some y \<Longrightarrow> plain_fst y"
  apply (drule count_fat12.raw_induct [where P = "\<lambda>io c n fs y. plain_fst y", rotated])
  subgoal premises IH for f io c n fs y
    by (rule endsD [OF IH(2), of plain_fst])
      (auto simp: Let_def split_beta bind_eq_Some_conv intro: endsI dest!: IH(1) plains split: option.split sum.split)
  by simp

lemma count_fat_plain [plains]: "count_fat io c k i n fs = Some y \<Longrightarrow> plain_fst y"
  apply (drule count_fat.raw_induct [where P = "\<lambda>io c k i n fs y. plain_fst y", rotated])
  subgoal premises IH for f io c k i n fs y
    by (rule endsD [OF IH(2), of plain_fst])
      (auto simp: Let_def split_beta bind_eq_Some_conv intro: endsI dest!: IH(1) plains split: option.split sum.split)
  by simp

lemma scan_free_plain [plains]: "scan_free io fs = Some y \<Longrightarrow> plain_fst y"
  by (erule endsD [of _ _ plain_fst])
    (auto simp: scan_free_def Let_def split_beta bind_eq_Some_conv intro: endsI dest!: plains split: option.split sum.split)

lemma dir_empty_plain [plains]: "dir_empty io sdj d fs = Some y \<Longrightarrow> plain_fst y"
  by (erule endsD [of _ _ plain_fst])
    (auto simp: dir_empty_def Let_def split_beta bind_eq_Some_conv intro: endsI dest!: plains split: option.split sum.split)

lemma unlink_entry_plain [plains]: "unlink_entry io dj d fs = Some y \<Longrightarrow> plain_fst y"
  by (erule endsD [of _ _ plain_fst])
    (auto simp: unlink_entry_def Let_def split_beta bind_eq_Some_conv intro: endsI dest!: plains split: option.split sum.split)

lemma unlink_object_plain [plains]: "unlink_object io sdj dj fs = Some y \<Longrightarrow> plain_fst y"
  by (erule endsD [of _ _ plain_fst])
    (auto simp: unlink_object_def Let_def split_beta bind_eq_Some_conv intro: endsI dest!: plains split: option.split sum.split)

lemma make_dir_plain [plains]: "make_dir io tm dj fs = Some y \<Longrightarrow> plain_fst y"
  by (erule endsD [of _ _ plain_fst])
    (auto simp: make_dir_def Let_def dot_entries_def split_beta bind_eq_Some_conv intro: endsI dest!: plains split: option.split sum.split)

lemma rename_register_plain [plains]: "rename_register io b old dj fs = Some y \<Longrightarrow> plain_fst y"
  by (erule endsD [of _ _ plain_fst])
    (auto simp: rename_register_def Let_def split_beta bind_eq_Some_conv intro: endsI dest!: plains split: option.split sum.split)

lemma rename_object_plain [plains]: "rename_object io p dj fs = Some y \<Longrightarrow> plain_fst y"
  by (erule endsD [of _ _ plain_fst])
    (auto simp: rename_object_def Let_def split_beta bind_eq_Some_conv intro: endsI dest!: plains split: option.split sum.split)

section \<open>The abort flag\<close>

text \<open>
  Only \<open>ABORT\<close> sets the abort flag of a file object: the functions below the interface leave it alone.
\<close>

named_theorems aborts \<open>functions that leave the abort flag alone\<close>

abbreviation same_flag :: "ffil \<Rightarrow> ffil \<Rightarrow> bool" where
  "same_flag fp fp' \<equiv> ferr fp' = ferr fp"

lemma flush_buf_flag [simp]: "same_flag fp (fst (snd (flush_buf io fp fs)))"
  by (simp add: flush_buf_def Let_def split_beta)

lemma flush_buf_flag' [aborts]: "flush_buf io fp fs = y \<Longrightarrow> same_flag fp (fst (snd y))"
  by (drule sym) simp

lemma load_buf_flag [simp]: "same_flag fp (fst (snd (load_buf io k fp fs)))"
  by (simp add: load_buf_def Let_def split_beta)

lemma load_buf_flag' [aborts]: "load_buf io k fp fs = y \<Longrightarrow> same_flag fp (fst (snd y))"
  by (drule sym) simp

lemma read_clust_flag [simp]: "same_flag fp (fst (snd (read_clust io cs fp fs)))"
  by (simp add: read_clust_def Let_def split_beta)

lemma read_clust_flag' [aborts]: "read_clust io cs fp fs = y \<Longrightarrow> same_flag fp (fst (snd y))"
  by (drule sym) simp

lemma read_direct_flag [simp]: "same_flag fp (fst (snd (snd (snd (read_direct io k cc br buff fp fs)))))"
  by (simp add: read_direct_def Let_def split_beta)

lemma read_direct_flag' [aborts]: "read_direct io k cc br buff fp fs = y \<Longrightarrow> same_flag fp (fst (snd (snd (snd y))))"
  by (drule sym) simp

lemma read_chunk_flag [simp]: "same_flag fp (fst (snd (snd (snd (read_chunk io btr br buff fp fs)))))"
  by (simp add: read_chunk_def Let_def split_beta)

lemma read_chunk_flag' [aborts]: "read_chunk io btr br buff fp fs = y \<Longrightarrow> same_flag fp (fst (snd (snd (snd y))))"
  by (drule sym) simp

lemma read_bytes_flag [aborts]: "read_bytes io btr br buff fp fs = Some y \<Longrightarrow> same_flag fp (fst (snd (snd (snd y))))"
  apply (drule read_bytes.raw_induct [where P = "\<lambda>io btr br buff fp fs y. same_flag fp (fst (snd (snd (snd y))))", rotated])
  subgoal premises IH for f io btr br buff fp fs y
    by (rule endsD [OF IH(2), of "\<lambda>y. same_flag fp (fst (snd (snd (snd y))))"])
      (auto simp: Let_def split_beta bind_eq_Some_conv intro: endsI dest!: IH(1) aborts split: option.split)
  by simp

lemma write_clust_flag [aborts]: "write_clust io cs fp fs = Some y \<Longrightarrow> same_flag fp (fst (snd y))"
  by (erule endsD [of _ _ "\<lambda>y. same_flag fp (fst (snd y))"])
    (auto simp: write_clust_def Let_def split_beta bind_eq_Some_conv intro: endsI dest!: aborts)

lemma write_part_flag [simp]: "same_flag fp (snd (write_part btw bw buff fp))"
  by (simp add: write_part_def Let_def)

lemma advance_flag [simp]: "ferr (advance n fp) = ferr fp"
  by (simp add: advance_def Let_def)

lemma write_direct_flag [simp]: "same_flag fp (fst (snd (snd (write_direct io k cc bw buff fp fs))))"
  by (simp add: write_direct_def Let_def split_beta)

lemma write_direct_flag' [aborts]: "write_direct io k cc bw buff fp fs = y \<Longrightarrow> same_flag fp (fst (snd (snd y)))"
  by (drule sym) simp

lemma write_sector_flag [simp]: "same_flag fp (fst (snd (snd (write_sector io cs btw bw buff fp fs))))"
  by (simp add: write_sector_def Let_def split_beta)

lemma write_sector_flag' [aborts]: "write_sector io cs btw bw buff fp fs = y \<Longrightarrow> same_flag fp (fst (snd (snd y)))"
  by (drule sym) simp

lemma write_chunk_flag [aborts]: "write_chunk io btw bw buff fp fs = Some y \<Longrightarrow> same_flag fp (fst (snd (snd y)))"
  by (erule endsD [of _ _ "\<lambda>y. same_flag fp (fst (snd (snd y)))"])
    (auto simp: write_chunk_def Let_def split_beta bind_eq_Some_conv intro: endsI dest!: aborts)

lemma write_bytes_flag [aborts]: "write_bytes io btw bw buff fp fs = Some y \<Longrightarrow> same_flag fp (fst (snd (snd y)))"
  apply (drule write_bytes.raw_induct [where P = "\<lambda>io btw bw buff fp fs y. same_flag fp (fst (snd (snd y)))", rotated])
  subgoal premises IH for f io btw bw buff fp fs y
    by (rule endsD [OF IH(2), of "\<lambda>y. same_flag fp (fst (snd (snd y)))"])
      (auto simp: Let_def split_beta bind_eq_Some_conv intro: endsI dest!: IH(1) aborts split: option.split)
  by simp

lemma sync_file_flag [simp]: "same_flag fp (fst (snd (sync_file io tm fp fs)))"
  by (simp add: sync_file_def Let_def split_beta)

lemma sync_file_flag' [aborts]: "sync_file io tm fp fs = y \<Longrightarrow> same_flag fp (fst (snd y))"
  by (drule sym) simp

lemma seek_follow_flag [aborts]: "seek_follow io bcs c ofs fp fs = Some y \<Longrightarrow> same_flag fp (fst (snd (snd (snd y))))"
  apply (drule seek_follow.raw_induct [where P = "\<lambda>io bcs c ofs fp fs y. same_flag fp (fst (snd (snd (snd y))))", rotated])
  subgoal premises IH for f io bcs c ofs fp fs y
    by (rule endsD [OF IH(2), of "\<lambda>y. same_flag fp (fst (snd (snd (snd y))))"])
      (auto simp: Let_def split_beta bind_eq_Some_conv intro: endsI dest!: IH(1) aborts split: option.split)
  by simp

lemma seek_start_flag [aborts]: "seek_start io bcs ip ofs fp fs = Some y \<Longrightarrow> same_flag fp (fst (snd (snd (snd y))))"
  by (erule endsD [of _ _ "\<lambda>y. same_flag fp (fst (snd (snd (snd y))))"])
    (auto simp: seek_start_def Let_def split_beta bind_eq_Some_conv intro: endsI dest!: aborts)

lemma seek_move_flag [aborts]: "seek_move io ofs fp fs = Some y \<Longrightarrow> same_flag fp (fst (snd (snd y)))"
  by (erule endsD [of _ _ "\<lambda>y. same_flag fp (fst (snd (snd y)))"])
    (auto simp: seek_move_def Let_def split_beta bind_eq_Some_conv intro: endsI dest!: aborts)

lemma seek_load_flag [simp]: "same_flag fp (fst (snd (seek_load io k fp fs)))"
  by (simp add: seek_load_def Let_def split_beta)

lemma seek_load_flag' [aborts]: "seek_load io k fp fs = y \<Longrightarrow> same_flag fp (fst (snd y))"
  by (drule sym) simp

lemma truncate_chain_flag [aborts]: "truncate_chain io fp fs = Some y \<Longrightarrow> same_flag fp (fst (snd y))"
  by (erule endsD [of _ _ "\<lambda>y. same_flag fp (fst (snd y))"])
    (auto simp: truncate_chain_def Let_def split_beta bind_eq_Some_conv intro: endsI dest!: aborts)

lemma open_append_flag [aborts]: "open_append io fp fs = Some y \<Longrightarrow> same_flag fp (fst (snd y))"
  by (erule endsD [of _ _ "\<lambda>y. same_flag fp (fst (snd y))"])
    (auto simp: open_append_def Let_def split_beta bind_eq_Some_conv intro: endsI dest!: aborts)

end
