(* ===== verification/FatSession.thy ===== *)
theory FatSession
  imports FatResult Osal
begin

text \<open>
  Sessions: sequences of calls of the FatFs interface, and the mutex of the volume. The functions of
  \<^verbatim>\<open>ffsystem.c\<close> (theory \<open>Osal\<close>) are the mutexes of \<^verbatim>\<open>ff.c\<close>. The property is that no call
  keeps the mutex, whatever the drive answers and wherever the call fails: the next call, of any task,
  does not wait for one that has returned.
\<close>

definition os_mutex :: "'k sem_api \<Rightarrow> 'k ff_state ff_mutex" where
  "os_mutex api =
    \<lparr>mx_create = (\<lambda>v s. case ff_mutex_create api v s of Some (r, s') \<Rightarrow> (r \<noteq> 0, s') | None \<Rightarrow> (False, s)),
     mx_delete = (\<lambda>v s. case ff_mutex_delete api v s of Some s' \<Rightarrow> s' | None \<Rightarrow> s),
     mx_take = ff_lock api, mx_give = ff_unlock api\<rparr>"

lemma check_fs_drive [simp]: "ldrv (snd (check_fs io k fs)) = ldrv fs"
  by (rule geometry_fields(13) [OF check_fs_keeps])

lemma try_partitions_drive [simp]: "ldrv (snd (try_partitions io n pts fs)) = ldrv fs"
  by (cases "n = 0"; hypsubst?; induction pts arbitrary: fs; simp add: split_beta)

lemma find_volume_drive [simp]: "ldrv (snd (find_volume io n fs)) = ldrv fs"
  by (simp add: find_volume_def Let_def split_beta)

lemma load_fsinfo_drive [simp]: "ldrv (load_fsinfo io fmt b fs) = ldrv fs"
  by (rule geometry_fields(13) [OF load_fsinfo_keeps])

lemma drive_rules:
  "(\<And>x. x = e \<Longrightarrow> ldrv (snd (f x)) = v) \<Longrightarrow> ldrv (snd (Let e f)) = v"
  "ldrv (snd a) = v \<Longrightarrow> ldrv (snd b) = v \<Longrightarrow> ldrv (snd (if c then a else b)) = v"
  by simp_all

lemma analyse_bpb_drive [simp]: "ldrv (snd (analyse_bpb io b fs)) = ldrv fs"
  unfolding analyse_bpb_def by (intro drive_rules) simp_all

lemma mount_fs_state [simp]:
  "ldrv (vol (snd (mount_fs io s))) = ldrv (vol s)" "SysLock (snd (mount_fs io s)) = SysLock s"
  "mutexes (snd (mount_fs io s)) = mutexes s" "plain_fst (mount_fs io s)"
  by (simp_all add: mount_fs_def split_beta split: option.split)

text \<open>Verification conditions: the results of a program, branch by branch.\<close>

lemma ends_Some: "P y \<Longrightarrow> ends P (Some y)"
  by simp

lemma ends_bind: "(\<And>y. x = Some y \<Longrightarrow> ends P (f y)) \<Longrightarrow> ends P (Option.bind x f)"
  by simp

lemma ends_let: "(\<And>x. x = e \<Longrightarrow> ends P (f x)) \<Longrightarrow> ends P (Let e f)"
  by simp

lemma ends_let_prod:
  "(\<And>a b. e = (a, b) \<Longrightarrow> ends P (f a b)) \<Longrightarrow> ends P (let (a, b) = e in f a b)"
  by (cases e) simp

lemma ends_if: "(c \<Longrightarrow> ends P a) \<Longrightarrow> (\<not> c \<Longrightarrow> ends P b) \<Longrightarrow> ends P (if c then a else b)"
  by simp

lemma ends_prod: "(\<And>a b. y = (a, b) \<Longrightarrow> ends P (f a b)) \<Longrightarrow> ends P (case y of (a, b) \<Rightarrow> f a b)"
  by (simp add: split_beta)

lemma ends_bool:
  "(c \<Longrightarrow> ends P a) \<Longrightarrow> (\<not> c \<Longrightarrow> ends P b) \<Longrightarrow> ends P (case c of True \<Rightarrow> a | False \<Rightarrow> b)"
  by (simp split: bool.split)

lemmas vc = ends_Some ends_bind ends_let_prod ends_let ends_if ends_prod ends_bool

section \<open>The functions the calls are made of\<close>

text \<open>What the calls need of each function they are made of, in one fact.\<close>

named_theorems parts \<open>geometry, result code and abort flag\<close>

lemma read_bytes_part [parts]:
  "read_bytes io btr br buff fp fs = Some y \<Longrightarrow>
    kept fs (snd (snd (snd (snd y)))) \<and> plain_fst y \<and> same_flag fp (fst (snd (snd (snd y))))"
  by (simp add: read_bytes_keeps read_bytes_plain read_bytes_flag)

lemma write_bytes_part [parts]:
  "write_bytes io btw bw buff fp fs = Some y \<Longrightarrow>
    kept fs (snd (snd (snd y))) \<and> plain_fst y \<and> same_flag fp (fst (snd (snd y)))"
  by (simp add: write_bytes_keeps write_bytes_plain write_bytes_flag)

lemma seek_move_part [parts]:
  "seek_move io ofs fp fs = Some y \<Longrightarrow>
    kept fs (snd (snd (snd y))) \<and> plain_fst y \<and> same_flag fp (fst (snd (snd y)))"
  by (simp add: seek_move_keeps seek_move_plain seek_move_flag)

lemma truncate_chain_part [parts]:
  "truncate_chain io fp fs = Some y \<Longrightarrow>
    kept fs (snd (snd y)) \<and> plain_fst y \<and> same_flag fp (fst (snd y))"
  by (simp add: truncate_chain_keeps truncate_chain_plain truncate_chain_flag)

lemma follow_path_part [parts]:
  "follow_path io dp path fs = Some y \<Longrightarrow>
    kept fs (snd (snd y)) \<and> plain_fst y"
  by (simp add: follow_path_keeps follow_path_plain)

lemma open_append_part [parts]:
  "open_append io fp fs = Some y \<Longrightarrow>
    kept fs (snd (snd y)) \<and> plain_fst y \<and> same_flag fp (fst (snd y))"
  by (simp add: open_append_keeps open_append_plain open_append_flag)

lemma cwd_loop_part [parts]:
  "cwd_loop io fno i buff dj fs = Some y \<Longrightarrow>
    kept fs (snd (snd (snd y))) \<and> plain_fst y"
  by (simp add: cwd_loop_keeps cwd_loop_plain)

lemma dir_sdi_part [parts]:
  "dir_sdi io ofs dp fs = Some y \<Longrightarrow>
    kept fs (snd (snd y)) \<and> plain_fst y"
  by (simp add: dir_sdi_keeps dir_sdi_plain)

lemma read_item_part [parts]:
  "read_item io dp fno fs = Some y \<Longrightarrow>
    kept fs (snd (snd (snd y))) \<and> plain_fst y"
  by (simp add: read_item_keeps read_item_plain)

lemma scan_free_part [parts]:
  "scan_free io fs = Some y \<Longrightarrow>
    kept fs (snd (snd y)) \<and> plain_fst y"
  by (simp add: scan_free_keeps scan_free_plain)

lemma unlink_object_part [parts]:
  "unlink_object io sdj dj fs = Some y \<Longrightarrow>
    kept fs (snd y) \<and> plain_fst y"
  by (simp add: unlink_object_keeps unlink_object_plain)

lemma make_dir_part [parts]:
  "make_dir io tm dj fs = Some y \<Longrightarrow>
    kept fs (snd y) \<and> plain_fst y"
  by (simp add: make_dir_keeps make_dir_plain)

lemma rename_object_part [parts]:
  "rename_object io p dj fs = Some y \<Longrightarrow>
    kept fs (snd y) \<and> plain_fst y"
  by (simp add: rename_object_keeps rename_object_plain)

lemma flush_buf_part [parts]:
  "flush_buf io fp fs = y \<Longrightarrow>
    kept fs (snd (snd y)) \<and> plain_fst y \<and> same_flag fp (fst (snd y))"
  by (drule sym) simp

lemma sync_file_part [parts]:
  "sync_file io tm fp fs = y \<Longrightarrow>
    kept fs (snd (snd y)) \<and> plain_fst y \<and> same_flag fp (fst (snd y))"
  by (drule sym) simp

lemma seek_load_part [parts]:
  "seek_load io k fp fs = y \<Longrightarrow>
    kept fs (snd (snd y)) \<and> plain_fst y \<and> same_flag fp (fst (snd y))"
  by (drule sym) simp

section \<open>The state of the mutex between and during calls\<close>

locale volume_mutex =
  mutex_provider "mx_take mx 0" "mx_give mx 0" ready locked
  for mx :: "'o ff_mutex" and ready :: "'o \<Rightarrow> bool" and locked :: "'o \<Rightarrow> bool"
begin

definition free :: "('d, 'o) ffsys \<Rightarrow> bool" where
  \<comment> \<open>no call is under way\<close>
  "free s \<longleftrightarrow> ready (mutexes s) \<and> \<not> locked (mutexes s) \<and> ldrv (vol s) = 0 \<and> SysLock s \<noteq> 2"

definition busy :: "('d, 'o) ffsys \<Rightarrow> bool" where
  \<comment> \<open>a call holds the mutex\<close>
  "busy s \<longleftrightarrow> ready (mutexes s) \<and> locked (mutexes s) \<and> ldrv (vol s) = 0 \<and> SysLock s \<noteq> 2"

lemma lock_volume_cases:
  assumes "lock_volume mx sl s = (b, s')" and "free s"
  shows "(if b then busy s' else free s') \<and> vol s' = vol s"
proof -
  let ?k = "snd (mx_take mx 0 (mutexes s))"
  have "mx_take mx 0 (mutexes s) = (b, ?k)" "s' = s\<lparr>mutexes := ?k\<rparr>"
    using assms by (auto simp: lock_volume_def free_def split_beta intro: prod_eqI)
  then show ?thesis
    using assms(2) lock_ok [of "mutexes s" ?k] lock_fail [of "mutexes s" ?k]
    by (cases b) (simp_all add: free_def busy_def)
qed

lemma unlock_free: "busy s \<Longrightarrow> plain r \<Longrightarrow> free (unlock_volume mx True r s)"
  using unlock_ok [of "mutexes s"]
  by (simp add: unlock_volume_def busy_def free_def plain_def Let_def)

lemma unlock_not [simp]: "unlock_volume mx False r s = s"
  by (simp add: unlock_volume_def)

lemma mount_volume_cases:
  assumes "mount_volume io mx path mode s = Some (res, has, p, s')" and "free s"
  shows "if has then busy s' \<and> plain res else free s' \<and> res \<noteq> FR_OK"
proof -
  have l: "busy s1" if "lock_volume mx True s = (True, s1)" for s1
    using lock_volume_cases [OF that assms(2)] by simp
  have nl: "free s1" if "lock_volume mx True s = (False, s1)" for s1
    using lock_volume_cases [OF that assms(2)] by simp
  have st: "busy s2" if "(stat, s2) = mounted_status io s1" and "busy s1" for s1 s2 stat
    using that(1) [symmetric] that(2) by (auto simp: mounted_status_def busy_def split: prod.splits if_splits)
  have fs: "busy s2 \<and> plain r" if "mount_fs io (s1\<lparr>vol := (vol s1)\<lparr>fs_type := 0, medium := d\<rparr>\<rparr>) = (r, s2)"
      and "busy s1" for s1 s2 r d
    using that mount_fs_state [of io "s1\<lparr>vol := (vol s1)\<lparr>fs_type := 0, medium := d\<rparr>\<rparr>"]
    by (simp add: busy_def)
  have nb: "busy (s1\<lparr>vol := (vol s1)\<lparr>fs_type := 0, medium := d\<rparr>\<rparr>)" if "busy s1" for s1 d
    using that by (simp add: busy_def)
  have "ends (\<lambda>(res, has, p, s'). if has then busy s' \<and> plain res else free s' \<and> res \<noteq> FR_OK)
      (mount_volume io mx path mode s)"
    unfolding mount_volume_def
    by (intro vc) (auto simp: assms(2) dest: nl dest!: l dest: st fs intro: nb)
  with assms(1) show ?thesis by (simp add: ends_def)
qed

lemma validate_cases:
  assumes "validate io mx obj s = (res, has, s')" and "free s"
  shows "if res = FR_OK then has \<and> busy s' else \<not> has \<and> free s'"
proof (cases "obj_fs obj \<and> fs_type (vol s) \<noteq> 0 \<and> obj_id obj = fs_id (vol s)")
  case False
  then have "validate io mx obj s = (FR_INVALID_OBJECT, False, s)"
    unfolding validate_def by (simp only: if_False)
  then show ?thesis using assms by simp
next
  case True
  obtain b s1 where l: "lock_volume mx False s = (b, s1)" by fastforce
  note c = lock_volume_cases [OF l assms(2)]
  obtain st d where d: "io_status io (pdrv (vol s1)) (medium (vol s1)) = (st, d)" by fastforce
  have v: "validate io mx obj s =
      (if b then
         if st AND STA_NOINIT = 0 then (FR_OK, True, s1\<lparr>vol := (vol s1)\<lparr>medium := d\<rparr>\<rparr>)
         else (FR_INVALID_OBJECT, False, unlock_volume mx True FR_OK (s1\<lparr>vol := (vol s1)\<lparr>medium := d\<rparr>\<rparr>))
       else (FR_TIMEOUT, False, s1))"
    using True l d by (simp add: validate_def Let_def)
  have "busy (s1\<lparr>vol := (vol s1)\<lparr>medium := d\<rparr>\<rparr>)" if b using c that by (auto simp: busy_def)
  with v assms(1) c unlock_free [of "s1\<lparr>vol := (vol s1)\<lparr>medium := d\<rparr>\<rparr>" FR_OK] show ?thesis
    by (auto split: if_splits)
qed

lemma busy_kept:
  assumes "busy s" and "kept (vol s) fs"
  shows "busy (s\<lparr>vol := fs\<rparr>)" "busy (s\<lparr>vol := fs, Files := F\<rparr>)"
  using assms(1) geometry_fields(13) [OF assms(2)] by (simp_all add: busy_def)

lemma busy_Files [simp]: "busy (s\<lparr>Files := F\<rparr>) \<longleftrightarrow> busy s"
  by (simp add: busy_def)

lemmas leave = unlock_free busy_kept

lemma mount_volume_part:
  "mount_volume io mx path mode s = Some y \<Longrightarrow> free s \<Longrightarrow>
    if fst (snd y) then busy (snd (snd (snd y))) \<and> plain_fst y
    else free (snd (snd (snd y))) \<and> fst y \<noteq> FR_OK"
  using mount_volume_cases [of io path mode s "fst y" "fst (snd y)" "fst (snd (snd y))" "snd (snd (snd y))"]
  by simp

section \<open>The calls on files\<close>

lemma f_read_free:
  "free s \<Longrightarrow> plain (ferr fp) \<Longrightarrow>
    ends (\<lambda>(r, br, b, fp', s'). free s' \<and> plain (ferr fp')) (f_read io mx fp buff n s)"
  unfolding f_read_def
  by (intro vc) (auto simp: leave dest!: validate_cases parts split: if_splits)

lemma f_write_free:
  "free s \<Longrightarrow> plain (ferr fp) \<Longrightarrow>
    ends (\<lambda>(r, bw, fp', s'). free s' \<and> plain (ferr fp')) (f_write io mx fp buff n s)"
  unfolding f_write_def
  by (intro vc) (auto simp: leave dest!: validate_cases parts split: if_splits)

lemma f_lseek_free:
  "free s \<Longrightarrow> plain (ferr fp) \<Longrightarrow>
    ends (\<lambda>(r, fp', s'). free s' \<and> plain (ferr fp')) (f_lseek io mx fp ofs s)"
  unfolding f_lseek_def
  by (intro vc) (auto simp: leave dest!: validate_cases parts split: if_splits)

lemma f_truncate_free:
  "free s \<Longrightarrow> plain (ferr fp) \<Longrightarrow>
    ends (\<lambda>(r, fp', s'). free s' \<and> plain (ferr fp')) (f_truncate io mx fp s)"
  unfolding f_truncate_def
  by (intro vc) (auto simp: leave dest!: validate_cases parts split: if_splits)

lemma f_sync_free:
  "f_sync io mx tm fp s = (r, fp', s') \<Longrightarrow> free s \<Longrightarrow> plain (ferr fp) \<Longrightarrow>
    free s' \<and> plain (ferr fp')"
  by (auto simp: f_sync_def leave dest!: validate_cases parts split: if_splits prod.splits)

lemma f_close_free:
  "f_close io mx tm fp s = (r, fp', s') \<Longrightarrow> free s \<Longrightarrow> plain (ferr fp) \<Longrightarrow>
    free s' \<and> plain (ferr fp')"
  by (auto simp: f_close_def leave dest!: f_sync_free validate_cases
      split: if_splits prod.splits)

lemma open_create_part [parts]:
  "open_create io tm F res m dj fs = Some y \<Longrightarrow>
    kept fs (snd (snd (snd y))) \<and> (plain res \<longrightarrow> plain_fst y)"
  by (simp add: open_create_keeps open_create_plain)

lemma open_init_flag [simp]: "ferr (open_init m dj fp fs) = FR_OK"
  by (simp add: open_init_def)

lemma open_entry_part [parts]:
  "open_entry io tm F dj path m fs = Some y \<Longrightarrow> kept fs (snd (snd (snd y))) \<and> plain_fst y"
  by (erule endsD [of _ _ "\<lambda>y. kept fs (snd (snd (snd y))) \<and> plain_fst y"], unfold open_entry_def, intro vc)
    (auto intro!: endsI dest!: parts)

lemma open_handle_busy:
  "busy s \<Longrightarrow> ends (\<lambda>(r, fp', s'). busy s' \<and> plain r \<and> (r = FR_OK \<longrightarrow> ferr fp' = FR_OK))
    (open_handle io mode dj fp s)"
  unfolding open_handle_def by (intro vc) (auto simp: leave dest!: parts)

lemma open_file_busy:
  "busy s \<Longrightarrow> ends (\<lambda>(r, fp', s'). busy s' \<and> plain r \<and> (r = FR_OK \<longrightarrow> ferr fp' = FR_OK))
    (open_file io tm dj path mode fp s)"
  unfolding open_file_def
  by (intro vc) (auto simp: leave intro!: open_handle_busy dest!: parts)

lemma f_open_free:
  "free s \<Longrightarrow> plain (ferr fp) \<Longrightarrow>
    ends (\<lambda>(r, fp', s'). free s' \<and> (r = FR_OK \<longrightarrow> plain (ferr fp'))) (f_open io mx tm dj fp path mode s)"
  unfolding f_open_def
  by (intro vc) (auto simp: leave bind_eq_Some_conv dest!: mount_volume_part endsD [OF _ open_file_busy]
      split: if_splits)

section \<open>The calls on directories and on the volume\<close>

lemma on_volume_free:
  assumes "free s" and "\<And>p s. busy s \<Longrightarrow> ends (\<lambda>(r, a, s'). plain r \<and> busy s') (f p s)"
  shows "ends (\<lambda>(r, a, s'). free s') (on_volume io mx path mode s a f)"
  unfolding on_volume_def
  by (intro vc) (auto simp: assms leave bind_eq_Some_conv dest!: mount_volume_part endsD [OF _ assms(2)]
      split: if_splits)

lemma busy_cdir: "busy s \<Longrightarrow> kept (vol s) fs \<Longrightarrow> busy (s\<lparr>vol := fs\<lparr>cdir := c\<rparr>\<rparr>)"
  by (rule busy_kept) simp_all

lemma f_chdir_free: "free s \<Longrightarrow> ends (\<lambda>(r, a, s'). free s') (f_chdir io mx dj path s)"
  unfolding f_chdir_def
  by (erule on_volume_free, intro vc) (auto simp: leave busy_cdir dest!: parts split: if_splits)

lemma f_getcwd_free: "free s \<Longrightarrow> ends (\<lambda>(r, b, s'). free s') (f_getcwd io mx dj fno buff s)"
  unfolding f_getcwd_def
  by (intro vc) (auto simp: leave bind_eq_Some_conv dest!: mount_volume_part parts split: if_splits)

lemma opened_dir_busy:
  "busy s \<Longrightarrow> ends (\<lambda>(r, dp', s'). busy s' \<and> plain r) (opened_dir io dp s)"
  unfolding opened_dir_def by (intro vc) (auto simp: leave split_beta dest!: parts)

lemma open_dir_busy:
  "busy s \<Longrightarrow> ends (\<lambda>(r, dp', s'). busy s' \<and> plain r) (open_dir io dp path s)"
  unfolding open_dir_def
  by (intro vc) (auto simp: leave dest!: parts endsD [OF _ opened_dir_busy] split: if_splits)

lemma f_opendir_free: "free s \<Longrightarrow> ends (\<lambda>(r, dp', s'). free s') (f_opendir io mx dp path s)"
  unfolding f_opendir_def
  by (intro vc) (auto simp: leave bind_eq_Some_conv dest!: mount_volume_part endsD [OF _ open_dir_busy]
      split: if_splits)

lemma f_closedir_free: "f_closedir io mx dp s = (r, dp', s') \<Longrightarrow> free s \<Longrightarrow> free s'"
  by (auto simp: f_closedir_def leave dest!: validate_cases split: if_splits prod.splits)

lemma f_readdir_free: "free s \<Longrightarrow> ends (\<lambda>(r, dp', f, s'). free s') (f_readdir io mx dp fno s)"
  unfolding f_readdir_def
  by (intro vc) (auto simp: leave dest!: validate_cases parts split: if_splits)

lemma f_findnext_free:
  "f_findnext io mx dp fno s = Some y \<Longrightarrow> free s \<Longrightarrow> free (snd (snd (snd y)))"
  apply (drule f_findnext.raw_induct [where P = "\<lambda>io m dp fno s y. m = mx \<longrightarrow> free s \<longrightarrow> free (snd (snd (snd y)))", rotated])
  subgoal premises IH for f io m dp fno s y
    by (intro impI, rule endsD [OF IH(3), of "\<lambda>y. free (snd (snd (snd y)))"])
      (auto simp: split_beta intro: endsI dest!: IH(2) endsD [OF _ f_readdir_free] split: option.split)
  by simp

lemma f_findfirst_free:
  "free s \<Longrightarrow> ends (\<lambda>(r, dp', f, s'). free s') (f_findfirst io mx dp fno path pat s)"
  unfolding f_findfirst_def
  by (intro vc) (auto intro!: endsI dest!: endsD [OF _ f_opendir_free] f_findnext_free)

lemma f_stat_free: "free s \<Longrightarrow> ends (\<lambda>(r, f, s'). free s') (f_stat io mx dj path fno s)"
  unfolding f_stat_def
  by (erule on_volume_free, intro vc) (auto simp: leave dest!: parts)

lemma f_getfree_free: "free s \<Longrightarrow> ends (\<lambda>(r, n, s'). free s') (f_getfree io mx path s)"
  unfolding f_getfree_def
  by (erule on_volume_free, intro vc) (auto simp: leave intro!: busy_kept dest!: parts)

lemma f_unlink_free: "free s \<Longrightarrow> ends (\<lambda>(r, a, s'). free s') (f_unlink io mx dj sdj path s)"
  unfolding f_unlink_def
  by (erule on_volume_free, intro vc) (auto simp: leave dest!: parts split: if_splits)

lemma f_mkdir_free: "free s \<Longrightarrow> ends (\<lambda>(r, a, s'). free s') (f_mkdir io mx tm dj path s)"
  unfolding f_mkdir_def
  by (erule on_volume_free, intro vc) (auto simp: leave dest!: parts split: if_splits)

lemma f_rename_free: "free s \<Longrightarrow> ends (\<lambda>(r, a, s'). free s') (f_rename io mx dj p q s)"
  unfolding f_rename_def
  by (intro vc, erule on_volume_free, intro vc) (auto simp: leave dest!: parts split: if_splits)

end

section \<open>Sessions\<close>

text \<open>
  One call of the interface. The second component of a state are the file objects in use; a call on a
  file takes one of them. A closed file and a file that could not be opened are dropped.
\<close>

inductive fat_step ::
  "'d disk_io \<Rightarrow> 'o ff_mutex \<Rightarrow> ('d, 'o) ffsys \<times> ffil list \<Rightarrow> ('d, 'o) ffsys \<times> ffil list \<Rightarrow> bool"
  for io mx where
  opens: "f_open io mx tm dj fp path mode s = Some (r, fp', s') \<Longrightarrow> plain (ferr fp) \<Longrightarrow>
    fat_step io mx (s, fps) (s', if r = FR_OK then fp' # fps else fps)"
| reads: "f_read io mx fp buff n s = Some (r, br, b, fp', s') \<Longrightarrow>
    fat_step io mx (s, us @ fp # vs) (s', us @ fp' # vs)"
| writes: "f_write io mx fp buff n s = Some (r, bw, fp', s') \<Longrightarrow>
    fat_step io mx (s, us @ fp # vs) (s', us @ fp' # vs)"
| seeks: "f_lseek io mx fp ofs s = Some (r, fp', s') \<Longrightarrow>
    fat_step io mx (s, us @ fp # vs) (s', us @ fp' # vs)"
| truncates: "f_truncate io mx fp s = Some (r, fp', s') \<Longrightarrow>
    fat_step io mx (s, us @ fp # vs) (s', us @ fp' # vs)"
| syncs: "f_sync io mx tm fp s = (r, fp', s') \<Longrightarrow>
    fat_step io mx (s, us @ fp # vs) (s', us @ fp' # vs)"
| closes: "f_close io mx tm fp s = (r, fp', s') \<Longrightarrow>
    fat_step io mx (s, us @ fp # vs) (s', if r = FR_OK then us @ vs else us @ fp' # vs)"
| changes: "f_chdir io mx dj path s = Some (r, a, s') \<Longrightarrow> fat_step io mx (s, fps) (s', fps)"
| getcwd: "f_getcwd io mx dj fno buff s = Some (r, b, s') \<Longrightarrow> fat_step io mx (s, fps) (s', fps)"
| opendirs: "f_opendir io mx dp path s = Some (r, dp', s') \<Longrightarrow> fat_step io mx (s, fps) (s', fps)"
| closedirs: "f_closedir io mx dp s = (r, dp', s') \<Longrightarrow> fat_step io mx (s, fps) (s', fps)"
| readdirs: "f_readdir io mx dp fno s = Some (r, dp', f, s') \<Longrightarrow> fat_step io mx (s, fps) (s', fps)"
| findnexts: "f_findnext io mx dp fno s = Some (r, dp', f, s') \<Longrightarrow> fat_step io mx (s, fps) (s', fps)"
| findfirsts: "f_findfirst io mx dp fno path pat s = Some (r, dp', f, s') \<Longrightarrow>
    fat_step io mx (s, fps) (s', fps)"
| stats: "f_stat io mx dj path fno s = Some (r, f, s') \<Longrightarrow> fat_step io mx (s, fps) (s', fps)"
| getfrees: "f_getfree io mx path s = Some (r, n, s') \<Longrightarrow> fat_step io mx (s, fps) (s', fps)"
| unlinks: "f_unlink io mx dj sdj path s = Some (r, a, s') \<Longrightarrow> fat_step io mx (s, fps) (s', fps)"
| mkdirs: "f_mkdir io mx tm dj path s = Some (r, a, s') \<Longrightarrow> fat_step io mx (s, fps) (s', fps)"
| renames: "f_rename io mx dj path path' s = Some (r, a, s') \<Longrightarrow> fat_step io mx (s, fps) (s', fps)"

context volume_mutex begin

definition between :: "('d, 'o) ffsys \<times> ffil list \<Rightarrow> bool" where
  "between x \<longleftrightarrow> free (fst x) \<and> (\<forall>fp \<in> set (snd x). plain (ferr fp))"

lemma fat_step_between: "fat_step io mx x y \<Longrightarrow> between x \<Longrightarrow> between y"
  by (induction rule: fat_step.induct)
    (auto simp: between_def dest!: f_sync_free f_close_free f_closedir_free f_findnext_free
      endsD [OF _ f_open_free] endsD [OF _ f_read_free] endsD [OF _ f_write_free]
      endsD [OF _ f_lseek_free] endsD [OF _ f_truncate_free] endsD [OF _ f_chdir_free]
      endsD [OF _ f_getcwd_free] endsD [OF _ f_opendir_free] endsD [OF _ f_readdir_free]
      endsD [OF _ f_findfirst_free] endsD [OF _ f_stat_free] endsD [OF _ f_getfree_free]
      endsD [OF _ f_unlink_free] endsD [OF _ f_mkdir_free] endsD [OF _ f_rename_free])

lemma fat_session_between: "(fat_step io mx)\<^sup>*\<^sup>* x y \<Longrightarrow> between x \<Longrightarrow> between y"
  by (induction rule: rtranclp_induct) (auto intro: fat_step_between)

end

sublocale kernel_mutex \<subseteq> volm: volume_mutex "os_mutex api" "ff_ready alive 0" "ff_locked held 0"
proof -
  have "mx_take (os_mutex api) 0 = ff_lock api 0" "mx_give (os_mutex api) 0 = ff_unlock api 0"
    by (simp_all add: os_mutex_def)
  then show "volume_mutex (os_mutex api) (ff_ready alive 0) (ff_locked held 0)"
    using fatfs_provider [of 0] by (simp add: volume_mutex_def)
qed

lemma get_ldnumber_zero: "get_ldnumber 0 p = Some (v, q) \<Longrightarrow> \<not> v < 0 \<Longrightarrow> v = 0"
  by (auto simp: get_ldnumber_def bind_eq_Some_conv split: option.splits if_splits)

context kernel_mutex begin

lemma ff_create:
  assumes "ff_mutex_create api v s = Some (r, s')" and "r \<noteq> 0"
  obtains h where "v < length (fst s)" "fst s' = (fst s)[v := Some h]" "h \<notin> alive (snd s)"
    "alive (snd s') = insert h (alive (snd s))" "held (snd s') = held (snd s) - {h}"
proof -
  obtain t k where s: "s = (t, k)" by (cases s)
  obtain hnd k' where c: "sem_create api k = (hnd, k')" by fastforce
  have v: "v < length t" using assms(1) s by (simp add: ff_mutex_create_def split: if_splits)
  then have r: "r = (if hnd \<noteq> None then 1 else 0)" "s' = (t[v := hnd], k')"
    using assms(1) s c by (auto simp: ff_mutex_create_def)
  then obtain h where h: "hnd = Some h" using assms(2) by (cases hnd) auto
  show thesis using that [of h] create_Some [of k h k'] c h r s v by simp
qed

lemma ff_create_some: "v < length (fst s) \<Longrightarrow> \<exists>r s'. ff_mutex_create api v s = Some (r, s')"
  by (cases s) (simp add: ff_mutex_create_def split_beta)

lemma volume_kernel: "volume_mutex (os_mutex api) (ff_ready alive 0) (ff_locked held 0)"
  by (rule volm.volume_mutex_axioms)

lemma f_mount_free:
  assumes "f_mount io (os_mutex api) True path opt s0 = Some (FR_OK, s)"
    and "\<not> FatFs s0" and "SysLock s0 = 0" and "CurrVol s0 = 0" and "length (fst (mutexes s0)) = 2"
  shows "volm.free s"
proof -
  obtain v q where v: "get_ldnumber 0 (Some path) = Some (v, q)"
    using assms(1,4) by (cases "get_ldnumber 0 (Some path)") (auto simp: f_mount_def)
  have "\<not> v < 0" using assms(1,4) v by (auto simp: f_mount_def)
  then have v0: "v = 0" using get_ldnumber_zero v by blast
  obtain r k where c: "ff_mutex_create api 0 (mutexes s0) = Some (r, k)"
    using ff_create_some [of 0 "mutexes s0"] assms(5) by auto
  have r: "r \<noteq> 0"
    using assms(1-4) v v0 c by (auto simp: f_mount_def os_mutex_def Let_def)
  obtain h where h: "fst k = (fst (mutexes s0))[0 := Some h]" "h \<notin> alive (snd (mutexes s0))"
      "alive (snd k) = insert h (alive (snd (mutexes s0)))" "held (snd k) = held (snd (mutexes s0)) - {h}"
    using ff_create [OF c r] by metis
  obtain r2 k2 where c2: "ff_mutex_create api 1 k = Some (r2, k2)"
    using ff_create_some [of 1 k] assms(5) h(1) by auto
  have r2: "r2 \<noteq> 0"
    using assms(1-4) v v0 c r c2 by (auto simp: f_mount_def os_mutex_def Let_def)
  obtain h2 where h2: "fst k2 = (fst k)[1 := Some h2]" "alive (snd k2) = insert h2 (alive (snd k))"
      "held (snd k2) = held (snd k) - {h2}"
    using ff_create [OF c2 r2] by metis
  let ?s = "s0\<lparr>vol := (vol s0)\<lparr>pdrv := 0, ldrv := 0\<rparr>, mutexes := k, mutexes := k2, SysLock := 1,
      vol := (vol s0)\<lparr>pdrv := 0, ldrv := 0, fs_type := 0\<rparr>, FatFs := True\<rparr>"
  have f: "volm.free ?s"
    using assms(5) h h2 by (simp add: volm.free_def ff_ready_def ff_locked_def)
  have m: "f_mount io (os_mutex api) True path opt s0 =
      (if opt = 0 then Some (FR_OK, ?s)
       else do { (res, has, p, s3) \<leftarrow> mount_volume io (os_mutex api) (Some path) 0 ?s;
                 Some (res, unlock_volume (os_mutex api) has res s3) })"
    using assms(2-4) v v0 c r c2 r2 by (simp add: f_mount_def os_mutex_def Let_def)
  show ?thesis
  proof (cases "opt = 0")
    case True
    then show ?thesis using assms(1) m f by simp
  next
    case False
    with assms(1) m have "do { (res, has, p, s3) \<leftarrow> mount_volume io (os_mutex api) (Some path) 0 ?s;
        Some (res, unlock_volume (os_mutex api) has res s3) } = Some (FR_OK, s)" by simp
    then show ?thesis using f
      by (auto simp: bind_eq_Some_conv volm.leave dest!: volm.mount_volume_part split: if_splits)
  qed
qed

end

section \<open>Property\<close>

text \<open>C10: no call of the FatFs interface keeps the mutex of the volume. After a successful \<open>f_mount\<close>
  and any sequence of calls on files, directories and the volume, successful or not and whatever the
  drive answers, the mutex exists and is not held, for every kernel with the laws of a mutex.\<close>

theorem calls_release_mutex:
  assumes "kernel_mutex api alive held"
    and "f_mount io (os_mutex api) True path opt s0 = Some (FR_OK, s)"
    and "\<not> FatFs s0" and "SysLock s0 = 0" and "CurrVol s0 = 0" and "length (fst (mutexes s0)) = 2"
    and "(fat_step io (os_mutex api))\<^sup>*\<^sup>* (s, []) (s', fps)"
  shows "ff_ready alive 0 (mutexes s') \<and> \<not> ff_locked held 0 (mutexes s')"
proof -
  note vm = kernel_mutex.volume_kernel [OF assms(1)]
  have "volume_mutex.free (ff_ready alive 0) (ff_locked held 0) s"
    by (rule kernel_mutex.f_mount_free [OF assms(1-6)])
  then have "volume_mutex.between (ff_ready alive 0) (ff_locked held 0) (s, [])"
    by (simp add: volume_mutex.between_def [OF vm])
  from volume_mutex.fat_session_between [OF vm assms(7) this] show ?thesis
    by (simp add: volume_mutex.between_def [OF vm] volume_mutex.free_def [OF vm])
qed

definition kernel_system :: "(u32 \<Rightarrow> byte list) \<Rightarrow> (u32 \<Rightarrow> byte list, kernel ff_state) ffsys" where
  "kernel_system d =
    \<lparr>vol = vol (ram_system d), FatFs = False, Fsid = 0, CurrVol = 0, Files = Files (ram_system d),
     SysLock = 0, mutexes = ([None, None], \<lparr>k_alive = [], k_held = [], k_next = 0\<rparr>)\<rparr>"

definition blank_dir :: ffdir where
  "blank_dir =
    \<lparr>dobj = \<lparr>obj_fs = False, obj_id = 0, obj_attr = 0, obj_stat = 0, sclust = 0, objsize = 0, lockid = 0\<rparr>,
     dptr = 0, dclust = 0, dsect = 0, ddir = 0, fn = replicate 12 0, dpat = []\<rparr>"

definition mounted_system :: "(u32 \<Rightarrow> byte list, kernel ff_state) ffsys" where
  \<comment> \<open>after \<open>f_mount\<close>\<close>
  "mounted_system = (kernel_system sample_disk)\<lparr>FatFs := True, SysLock := 1,
     mutexes := ([Some 0, Some 1], \<lparr>k_alive = [1, 0], k_held = [], k_next = 2\<rparr>)\<rparr>"

lemma sample_mounted:
  "f_mount ram_io (os_mutex kernel_api) True [0x2F, 0] 0 (kernel_system sample_disk) = Some (FR_OK, mounted_system)"
  by (simp add: f_mount_def get_ldnumber_def kernel_system_def mounted_system_def os_mutex_def kernel_api_def
      ff_mutex_create_def ram_system_def IsTerminator_def)

lemma sample_chdir:
  "case f_chdir ram_io (os_mutex kernel_api) blank_dir [0x2F, 0] mounted_system of
     None \<Rightarrow> False | Some (r, a, s) \<Rightarrow> r = FR_OK \<and> fs_type (vol s) = FS_FAT12"
  by code_simp

theorem calls_release_mutex_witness:
  "\<exists>s. f_mount ram_io (os_mutex kernel_api) True [0x2F, 0] 0 (kernel_system sample_disk)
       = Some (FR_OK, mounted_system) \<and>
     f_chdir ram_io (os_mutex kernel_api) blank_dir [0x2F, 0] mounted_system = Some (FR_OK, (), s) \<and>
     fs_type (vol s) = FS_FAT12 \<and> \<not> ff_locked kernel_held 0 (mutexes s)"
proof -
  obtain s where c: "f_chdir ram_io (os_mutex kernel_api) blank_dir [0x2F, 0] mounted_system = Some (FR_OK, (), s)"
      "fs_type (vol s) = FS_FAT12"
    using sample_chdir by (auto split: option.splits)
  have "fat_step ram_io (os_mutex kernel_api) (mounted_system, []) (s, [])" by (rule changes [OF c(1)])
  then have "(fat_step ram_io (os_mutex kernel_api))\<^sup>*\<^sup>* (mounted_system, []) (s, [])" by (rule r_into_rtranclp)
  from calls_release_mutex [OF kernel.kernel_mutex_axioms sample_mounted _ _ _ _ this] c
  have "\<not> ff_locked kernel_held 0 (mutexes s)" by (simp add: kernel_system_def)
  with c sample_mounted show ?thesis by blast
qed

end
