(* ===== verification/SdStream.thy ===== *)
theory SdStream
  imports FatWindow
begin

text \<open>
  Transfers of several blocks (\<^verbatim>\<open>sdmm.c\<close>: \<open>disk_read\<close> with CMD18, \<open>disk_write\<close> with CMD25), which
  FatFs uses for whole sectors. The locale \<open>sd_stream\<close> adds to the laws of a card what the
  specification says of these commands: \<open>streaming a c\<close>, the card sends the blocks from the address
  \<open>a\<close> on until it is stopped; \<open>gathers n a c\<close>, it takes blocks for the addresses from \<open>a\<close> on and is
  busy for \<open>n\<close> more bytes. The locale \<open>stream_disk\<close> is the contract that results for FatFs.
\<close>

locale sd_stream = sd_card api mem busy waits busy_max
  for api :: "'c card_api"
    and mem :: "'c \<Rightarrow> u32 \<Rightarrow> byte list"
    and busy :: "nat \<Rightarrow> 'c \<Rightarrow> bool"
    and waits :: "u32 \<Rightarrow> 'c \<Rightarrow> bool"
    and busy_max :: nat +
  fixes streaming :: "u32 \<Rightarrow> 'c \<Rightarrow> bool"
    and gathers :: "nat \<Rightarrow> u32 \<Rightarrow> 'c \<Rightarrow> bool"
    and stride :: u32
  assumes stream_cmd: "busy 0 c \<Longrightarrow>
          \<exists>j c'. j \<le> 9 \<and>
            serves api (card_xmit api (cmd_packet CMD18 a) c) (replicate j 0xFF @ [0x00]) c' \<and>
            streaming a c' \<and> mem c' = mem c"
    and stream_block: "streaming a c \<Longrightarrow>
          \<exists>k crc c'. k < 1000 \<and> length crc = 2 \<and> length (mem c a) = 512 \<and>
            serves api c (replicate k 0xFF @ 0xFE # mem c a @ crc) c' \<and>
            streaming (a + stride) c' \<and> mem c' = mem c"
    and stream_stop: "streaming a c \<Longrightarrow>
          \<exists>x j r n c'. j \<le> 9 \<and> r AND 0x80 = 0 \<and> n \<le> busy_max \<and>
            serves api (card_xmit api (cmd_packet CMD12 0) c) (x # replicate j 0xFF @ [r]) c' \<and>
            busy n c' \<and> mem c' = mem c"
    and app_cmd: "busy 0 c \<Longrightarrow> cmd \<in> {CMD55, ACMD23 AND 0x7F} \<Longrightarrow>
          \<exists>j r c'. j \<le> 9 \<and> r \<le> 1 \<and>
            serves api (card_xmit api (cmd_packet cmd arg) c) (replicate j 0xFF @ [r]) c' \<and>
            busy 0 c' \<and> mem c' = mem c"
    and gather_cmd: "busy 0 c \<Longrightarrow>
          \<exists>j c'. j \<le> 9 \<and>
            serves api (card_xmit api (cmd_packet CMD25 a) c) (replicate j 0xFF @ [0x00]) c' \<and>
            gathers 0 a c' \<and> mem c' = mem c"
    and recv_gathers: "gathers 0 a c \<Longrightarrow>
          \<exists>c'. card_recv api c = (0xFF, c') \<and> gathers 0 a c' \<and> mem c' = mem c"
    and recv_gathers_busy: "gathers (Suc n) a c \<Longrightarrow>
          \<exists>d c'. card_recv api c = (d, c') \<and> d \<noteq> 0xFF \<and> gathers n a c' \<and> mem c' = mem c"
    and gather_block: "gathers 0 a c \<Longrightarrow> length b = 512 \<Longrightarrow>
          \<exists>x y r n c'. serves api (card_xmit api b (card_xmit api [0xFC] c)) [x, y, r] c' \<and>
            r AND 0x1F = 0x05 \<and> n \<le> busy_max \<and> gathers n (a + stride) c' \<and> mem c' = (mem c)(a := b)"
    and gather_stop: "gathers 0 a c \<Longrightarrow>
          \<exists>n. n \<le> busy_max \<and> busy n (card_xmit api [0xFD] c) \<and>
            mem (card_xmit api [0xFD] c) = mem c"
begin

definition blocks :: "(u32 \<Rightarrow> byte list) \<Rightarrow> u32 \<Rightarrow> nat \<Rightarrow> byte list" where
  \<comment> \<open>\<open>n\<close> blocks from the address \<open>a\<close> on\<close>
  "blocks m a n = concat (map (\<lambda>i. m (a + of_nat i * stride)) [0..<n])"

lemma blocks_Suc: "blocks m a (Suc n) = m a @ blocks m (a + stride) n"
  by (simp add: blocks_def upt_conv_Cons del: upt_Suc)
    (simp add: map_Suc_upt [symmetric] comp_def algebra_simps del: upt_Suc)

lemma read_blocks_stream:
  "streaming a c \<Longrightarrow> unat n = Suc k \<Longrightarrow>
    \<exists>c' a'. read_blocks api n c = (blocks (mem c) a (unat n), 0, c') \<and> streaming a' c' \<and> mem c' = mem c"
proof (induction k arbitrary: n a c)
  case 0
  obtain j crc c' where b: "j < 1000" "length crc = 2" "length (mem c a) = 512"
      "serves api c (replicate j 0xFF @ 0xFE # mem c a @ crc) c'" "streaming (a + stride) c'" "mem c' = mem c"
    using stream_block [OF 0(1)] by blast
  have "n = 1" using 0(2) by (metis One_nat_def unat_1 word_unat_eq_iff)
  with rcvr_datablock_serves [OF b(1,3,2,4)] b(5,6) show ?case
    by (subst read_blocks.simps) (auto simp: blocks_def)
next
  case (Suc k)
  obtain j crc c1 where b: "j < 1000" "length crc = 2" "length (mem c a) = 512"
      "serves api c (replicate j 0xFF @ 0xFE # mem c a @ crc) c1" "streaming (a + stride) c1" "mem c1 = mem c"
    using stream_block [OF Suc.prems(1)] by blast
  have n: "n \<noteq> 0" "unat (n - 1) = Suc k" "n - 1 \<noteq> 0"
    using Suc.prems(2) by (auto simp: unat_minus_one unat_eq_0 [symmetric])
  obtain c' a' where c': "read_blocks api (n - 1) c1 = (blocks (mem c1) (a + stride) (unat (n - 1)), 0, c')"
      "streaming a' c'" "mem c' = mem c1"
    using Suc.IH [OF b(5) n(2)] by blast
  have "read_blocks api n c = (mem c a @ blocks (mem c1) (a + stride) (unat (n - 1)), 0, c')"
    using rcvr_datablock_serves [OF b(1,3,2,4)] c'(1) n(3) by (subst read_blocks.simps) simp
  moreover have "mem c a @ blocks (mem c1) (a + stride) (unat (n - 1)) = blocks (mem c) a (unat n)"
    unfolding b(6) using Suc.prems(2) n(2) by (simp only: blocks_Suc)
  ultimately show ?case using c'(2,3) b(6) by metis
qed

lemma send_stop:
  assumes "streaming a c"
  shows "\<exists>r n c'. send_cmd api CMD12 0 c = (r, c') \<and> n \<le> busy_max \<and> busy n c' \<and> mem c' = mem c"
proof -
  obtain x j r n c' where t: "j \<le> 9" "r AND 0x80 = 0" "n \<le> busy_max"
      "serves api (card_xmit api (cmd_packet CMD12 0) c) (x # replicate j 0xFF @ [r]) c'"
      "busy n c'" "mem c' = mem c"
    using stream_stop [OF assms] by blast
  obtain c1 where c1: "card_recv api (card_xmit api (cmd_packet CMD12 0) c) = (x, c1)"
      "serves api c1 (replicate j 0xFF @ [r]) c'"
    using t(4) by (auto simp: serves_Cons)
  have "wait_response api 9 c1 = (r, c')" by (rule wait_response_serves [OF t(1,2) c1(2)])
  with c1(1) t(3,5,6) show ?thesis by (auto simp: send_cmd_def send_cmd_packet_def)
qed

lemma disk_read_stream:
  assumes "busy n (dk_card s)" and "n \<le> busy_max" and "dk_Stat s = 0" and "count > 1"
  shows "\<exists>s' m. disk_read api 0 sector count s =
      (RES_OK, blocks (mem (dk_card s)) (block_arg (dk_CardType s) sector) (unat count), s') \<and>
    m \<le> busy_max \<and> busy m (dk_card s') \<and> mem (dk_card s') = mem (dk_card s) \<and> dk_Stat s' = 0 \<and>
    dk_CardType s' = dk_CardType s"
proof -
  let ?a = "block_arg (dk_CardType s) sector"
  have n: "n \<le> 5000" using assms(2) busy_bound by simp
  obtain c1 where c1: "busy 0 c1" "mem c1 = mem (dk_card s)"
      "send_cmd api CMD18 ?a (dk_card s) = wait_response api 9 (card_xmit api (cmd_packet CMD18 ?a) c1)"
    using send_cmd_ready [OF assms(1) n, of CMD18 ?a] by auto
  obtain j c2 where c2: "j \<le> 9"
      "serves api (card_xmit api (cmd_packet CMD18 ?a) c1) (replicate j 0xFF @ [0x00]) c2"
      "streaming ?a c2" "mem c2 = mem c1"
    using stream_cmd [OF c1(1)] by blast
  have cmd: "send_cmd api CMD18 ?a (dk_card s) = (0, c2)"
    unfolding c1(3) by (rule wait_response_serves [OF c2(1) _ c2(2)]) simp
  have "unat count \<noteq> 0" using assms(4) by (simp add: word_less_nat_alt)
  then obtain k where "unat count = Suc k" using not0_implies_Suc by blast
  with read_blocks_stream [OF c2(3)] obtain c3 a' where c3:
      "read_blocks api count c2 = (blocks (mem c2) ?a (unat count), 0, c3)" "streaming a' c3" "mem c3 = mem c2"
    by blast
  obtain r m c4 where c4: "send_cmd api CMD12 0 c3 = (r, c4)" "m \<le> busy_max" "busy m c4" "mem c4 = mem c3"
    using send_stop [OF c3(2)] by blast
  let ?s = "s\<lparr>dk_Stat := 0, dk_card := deselect api c4\<rparr>"
  have "disk_read api 0 sector count s = (RES_OK, blocks (mem (dk_card s)) ?a (unat count), ?s)"
    using assms(3,4) present cmd c3(1) c4(1) c2(4) c1(2) by (simp add: disk_read_def disk_status_def)
  moreover have "busy (m - 1) (dk_card ?s)" "mem (dk_card ?s) = mem (dk_card s)" "m - 1 \<le> busy_max"
    using deselect_busy [OF c4(3)] c4(2,4) c3(3) c2(4) c1(2) by simp_all
  ultimately show ?thesis by (intro exI [of _ ?s] exI [of _ "m - 1"]) simp
qed

text \<open>Writing.\<close>

lemma wait_ready_gathers:
  "gathers n a c \<Longrightarrow> n < tmr \<Longrightarrow>
   \<exists>c'. wait_ready_for api tmr c = (True, c') \<and> gathers 0 a c' \<and> mem c' = mem c"
proof (induction n arbitrary: c tmr)
  case 0
  then obtain t where "tmr = Suc t" by (cases tmr) auto
  with recv_gathers [OF 0(1)] show ?case by auto
next
  case (Suc n)
  then obtain t where t: "tmr = Suc t" by (cases tmr) auto
  obtain d c1 where c1: "card_recv api c = (d, c1)" "d \<noteq> 0xFF" "gathers n a c1" "mem c1 = mem c"
    using recv_gathers_busy [OF Suc.prems(1)] by blast
  with Suc.IH [OF c1(3), of t] Suc.prems(2) t show ?case by auto
qed

lemma xmit_gathered:
  assumes "gathers n a c" and "n \<le> busy_max" and "length b = 512"
  shows "\<exists>m c'. xmit_datablock api b 0xFC c = (True, c') \<and> m \<le> busy_max \<and> gathers m (a + stride) c' \<and>
    mem c' = (mem c)(a := b)"
proof -
  have "n < 5000" using assms(2) busy_bound by simp
  from wait_ready_gathers [OF assms(1) this] obtain c1 where c1:
      "wait_ready api c = (True, c1)" "gathers 0 a c1" "mem c1 = mem c"
    by (auto simp: wait_ready_def)
  obtain x y r m c' where w: "serves api (card_xmit api b (card_xmit api [0xFC] c1)) [x, y, r] c'"
      "r AND 0x1F = 0x05" "m \<le> busy_max" "gathers m (a + stride) c'" "mem c' = (mem c1)(a := b)"
    using gather_block [OF c1(2) assms(3)] by blast
  have "serves api (card_xmit api b (card_xmit api [0xFC] c1)) ([x, y] @ [r]) c'" using w(1) by simp
  then obtain c2 where c2: "rcvr_mmc api 2 (card_xmit api b (card_xmit api [0xFC] c1)) = ([x, y], c2)"
      "card_recv api c2 = (r, c')"
    unfolding serves_append by (auto simp: serves_def numeral_2_eq_2 split: prod.splits)
  then have "xmit_datablock api b 0xFC c = (True, c')"
    using c1(1) w(2) by (simp add: xmit_datablock_def Let_def)
  with w(3-5) c1(3) show ?thesis by metis
qed

definition put_blocks :: "(u32 \<Rightarrow> byte list) \<Rightarrow> u32 \<Rightarrow> byte list \<Rightarrow> nat \<Rightarrow> u32 \<Rightarrow> byte list" where
  \<comment> \<open>the memory after \<open>n\<close> blocks of \<open>b\<close> were stored from the address \<open>a\<close> on\<close>
  "put_blocks m a b n = foldl (\<lambda>m i. m(a + of_nat i * stride := take 512 (drop (512 * i) b))) m [0..<n]"

lemma put_blocks_Suc:
  "put_blocks m a b (Suc n) = put_blocks (m(a := take 512 b)) (a + stride) (drop 512 b) n"
proof -
  have "[0..<Suc n] = 0 # map Suc [0..<n]" by (simp add: map_Suc_upt upt_conv_Cons del: upt_Suc)
  then show ?thesis
    by (simp add: put_blocks_def foldl_map algebra_simps del: upt_Suc)
qed

lemma write_blocks_gathers:
  "gathers n a c \<Longrightarrow> n \<le> busy_max \<Longrightarrow> unat count = Suc k \<Longrightarrow> length b = 512 * unat count \<Longrightarrow>
    \<exists>m a' c'. write_blocks api b count c = (0, c') \<and> m \<le> busy_max \<and> gathers m a' c' \<and>
      mem c' = put_blocks (mem c) a b (unat count)"
proof (induction k arbitrary: n a c count b)
  case 0
  have l: "length (take 512 b) = 512" using 0(3,4) by simp
  obtain m c' where w: "xmit_datablock api (take 512 b) 0xFC c = (True, c')" "m \<le> busy_max"
      "gathers m (a + stride) c'" "mem c' = (mem c)(a := take 512 b)"
    using xmit_gathered [OF 0(1,2) l] by blast
  have "count = 1" using 0(3) by (metis One_nat_def unat_1 word_unat_eq_iff)
  with w show ?case by (subst write_blocks.simps) (auto simp: put_blocks_def)
next
  case (Suc k)
  have l: "length (take 512 b) = 512" using Suc.prems(3,4) by simp
  obtain m c1 where w: "xmit_datablock api (take 512 b) 0xFC c = (True, c1)" "m \<le> busy_max"
      "gathers m (a + stride) c1" "mem c1 = (mem c)(a := take 512 b)"
    using xmit_gathered [OF Suc.prems(1,2) l] by blast
  have n: "unat (count - 1) = Suc k" "count - 1 \<noteq> 0"
    using Suc.prems(3) by (auto simp: unat_minus_one unat_eq_0 [symmetric])
  have l2: "length (drop 512 b) = 512 * unat (count - 1)" using Suc.prems(3,4) n(1) by simp
  obtain m' a' c' where c': "write_blocks api (drop 512 b) (count - 1) c1 = (0, c')" "m' \<le> busy_max"
      "gathers m' a' c'" "mem c' = put_blocks (mem c1) (a + stride) (drop 512 b) (unat (count - 1))"
    using Suc.IH [OF w(3,2) n(1) l2] by blast
  have "write_blocks api b count c = (0, c')"
    using w(1) c'(1) n(2) by (subst write_blocks.simps) simp
  moreover have "mem c' = put_blocks (mem c) a b (unat count)"
    unfolding c'(4) w(4) Suc.prems(3) n(1) by (simp only: put_blocks_Suc)
  ultimately show ?case using c'(2,3) by metis
qed

lemma send_app_cmd:
  assumes "busy n c" and "n \<le> 5000"
  shows "\<exists>r c'. send_cmd api ACMD23 arg c = (r, c') \<and> busy 0 c' \<and> mem c' = mem c"
proof -
  have one: "\<exists>r c'. send_cmd api cmd x d = (r, c') \<and> r \<le> 1 \<and> busy 0 c' \<and> mem c' = mem d"
    if "busy m d" "m \<le> 5000" "cmd \<in> {CMD55, 0x17}" for m d cmd x
  proof -
    have "cmd AND 0x80 = 0" "cmd \<noteq> CMD12" using that(3) by auto
    from send_cmd_ready [OF that(1,2) this, of x] obtain d1 where d1: "busy 0 d1" "mem d1 = mem d"
        "send_cmd api cmd x d = wait_response api 9 (card_xmit api (cmd_packet cmd x) d1)" by blast
    have "cmd \<in> {CMD55, ACMD23 AND 0x7F}" using that(3) by simp
    from app_cmd [OF d1(1) this, of x] obtain j r d2 where d2: "j \<le> 9" "r \<le> 1"
        "serves api (card_xmit api (cmd_packet cmd x) d1) (replicate j 0xFF @ [r]) d2" "busy 0 d2" "mem d2 = mem d1"
      by blast
    have "unat r = 0 \<or> unat r = 1" using d2(2) unfolding word_le_nat_alt by simp linarith
    then have "r = 0 \<or> r = 1" by (simp add: word_unat_eq_iff)
    then have "r AND 0x80 = 0" by auto
    from wait_response_serves [OF d2(1) this d2(3)] d1 d2 show ?thesis by auto
  qed
  obtain r c1 where c1: "send_cmd api CMD55 0 c = (r, c1)" "r \<le> 1" "busy 0 c1" "mem c1 = mem c"
    using one [OF assms, where cmd = CMD55 and x = 0] by auto
  obtain r2 c2 where c2: "send_cmd api 0x17 arg c1 = (r2, c2)" "busy 0 c2" "mem c2 = mem c1"
    using one [OF c1(3), where cmd = "0x17" and x = arg] by auto
  have "send_cmd api ACMD23 arg c = (r2, c2)"
    using c1(1,2) c2(1) by (auto simp: send_cmd_def)
  with c1(4) c2 show ?thesis by auto
qed

lemma disk_write_stream:
  assumes "busy n (dk_card s)" and "n \<le> busy_max" and "dk_Stat s = 0" and "count > 1"
    and "length buff = 512 * unat count"
  shows "\<exists>s' m. disk_write api 0 buff sector count s = (RES_OK, s') \<and> m \<le> busy_max \<and>
    busy m (dk_card s') \<and>
    mem (dk_card s') = put_blocks (mem (dk_card s)) (block_arg (dk_CardType s) sector) buff (unat count) \<and>
    dk_Stat s' = 0 \<and> dk_CardType s' = dk_CardType s"
proof -
  let ?a = "block_arg (dk_CardType s) sector"
  have n: "n \<le> 5000" using assms(2) busy_bound by simp
  define c0 where "c0 = (if dk_CardType s AND CT_SDC \<noteq> 0 then snd (send_cmd api ACMD23 count (dk_card s)) else dk_card s)"
  obtain n0 where c0: "busy n0 c0" "n0 \<le> 5000" "mem c0 = mem (dk_card s)"
  proof (cases "dk_CardType s AND CT_SDC = 0")
    case True
    then show ?thesis using that [of n] assms(1) n by (simp add: c0_def)
  next
    case False
    then show ?thesis using that [of 0] send_app_cmd [OF assms(1) n, of count] by (auto simp: c0_def)
  qed
  obtain c1 where c1: "busy 0 c1" "mem c1 = mem c0"
      "send_cmd api CMD25 ?a c0 = wait_response api 9 (card_xmit api (cmd_packet CMD25 ?a) c1)"
    using send_cmd_ready [OF c0(1,2), of CMD25 ?a] by auto
  obtain j c2 where c2: "j \<le> 9"
      "serves api (card_xmit api (cmd_packet CMD25 ?a) c1) (replicate j 0xFF @ [0x00]) c2"
      "gathers 0 ?a c2" "mem c2 = mem c1"
    using gather_cmd [OF c1(1)] by blast
  have cmd: "send_cmd api CMD25 ?a c0 = (0, c2)"
    unfolding c1(3) by (rule wait_response_serves [OF c2(1) _ c2(2)]) simp
  have "unat count \<noteq> 0" using assms(4) by (simp add: word_less_nat_alt)
  then obtain k where k: "unat count = Suc k" using not0_implies_Suc by blast
  obtain m a' c3 where c3: "write_blocks api buff count c2 = (0, c3)" "m \<le> busy_max" "gathers m a' c3"
      "mem c3 = put_blocks (mem c2) ?a buff (unat count)"
    using write_blocks_gathers [OF c2(3) _ k assms(5)] by auto
  have "m < 5000" using c3(2) busy_bound by simp
  from wait_ready_gathers [OF c3(3) this] obtain c4 where c4:
      "wait_ready api c3 = (True, c4)" "gathers 0 a' c4" "mem c4 = mem c3"
    by (auto simp: wait_ready_def)
  let ?c = "card_xmit api [0xFD] c4"
  obtain q where q: "q \<le> busy_max" "busy q ?c" "mem ?c = mem c4" using gather_stop [OF c4(2)] by blast
  have stop: "xmit_datablock api [] 0xFD c3 = (True, ?c)" using c4(1) by (simp add: xmit_datablock_def)
  let ?s = "s\<lparr>dk_Stat := 0, dk_card := deselect api ?c\<rparr>"
  have "count \<noteq> 1" using assms(4) by auto
  then have "disk_write api 0 buff sector count s = (RES_OK, ?s)"
    using assms(3) present cmd c3(1) stop
    by (cases "dk_CardType s AND CT_SDC = 0") (simp_all add: disk_write_def disk_status_def c0_def)
  moreover have "busy (q - 1) (dk_card ?s)" "mem (dk_card ?s) = mem ?c" "q - 1 \<le> busy_max"
    using deselect_busy [OF q(2)] q(1) by simp_all
  ultimately show ?thesis
    using q(3) c4(3) c3(4) c2(4) c1(2) c0(3) by (intro exI [of _ ?s] exI [of _ "q - 1"]) simp
qed

lemma block_arg_add:
  assumes "stride = (if ty AND CT_BLOCK = 0 then 512 else 1)"
  shows "block_arg ty (k + i) = block_arg ty k + i * stride"
  using assms by (simp add: block_arg_def algebra_simps)

end

section \<open>The contract for whole sectors\<close>

text \<open>
  Reading and writing several sectors at once. \<open>sectors c k n\<close> are the contents of \<open>n\<close> sectors.
\<close>

definition sectors :: "(u32 \<Rightarrow> byte list) \<Rightarrow> u32 \<Rightarrow> nat \<Rightarrow> byte list" where
  "sectors c k n = concat (map (\<lambda>i. c (k + of_nat i)) [0..<n])"

locale stream_disk = reliable_disk io ok contents nsect
  for io :: "'d disk_io" and ok and contents and nsect +
  assumes read_many: "ok d \<Longrightarrow> n \<noteq> 0 \<Longrightarrow> unat k + unat n \<le> unat nsect \<Longrightarrow>
          \<exists>d'. io_read io 0 k n d = (RES_OK, sectors (contents d) k (unat n), d') \<and> ok d' \<and>
            (\<forall>j < nsect. contents d' j = contents d j)"
    and write_many: "ok d \<Longrightarrow> n \<noteq> 0 \<Longrightarrow> unat k + unat n \<le> unat nsect \<Longrightarrow> length b = 512 * unat n \<Longrightarrow>
          \<exists>d'. io_write io 0 b k n d = (RES_OK, d') \<and> ok d' \<and>
            (\<forall>j < nsect. contents d' j =
               (if unat k \<le> unat j \<and> unat j < unat k + unat n then take 512 (drop (512 * (unat j - unat k)) b)
                else contents d j))"

context sd_stream begin

lemma put_blocks_end:
  "put_blocks m a b (Suc n) = (put_blocks m a b n)(a + of_nat n * stride := take 512 (drop (512 * n) b))"
  by (simp add: put_blocks_def)

lemma put_blocks_contents:
  assumes "stride = (if ty AND CT_BLOCK = 0 then 512 else 1)" and "nsect_ok ty nsect" and "j < nsect"
  shows "unat k + n \<le> unat nsect \<Longrightarrow> put_blocks m (block_arg ty k) b n (block_arg ty j) =
    (if unat k \<le> unat j \<and> unat j < unat k + n then take 512 (drop (512 * (unat j - unat k)) b)
     else m (block_arg ty j))"
proof (induction n)
  case 0
  then show ?case by (auto simp: put_blocks_def)
next
  case (Suc n)
  have n: "n < 2 ^ 32" "unat k + n < 2 ^ 32" using Suc.prems u32_unat_less [of nsect] by linarith+
  have kn: "unat (k + of_nat n) = unat k + n"
    using u32_add [of k "of_nat n"] u32_of_nat [OF n(1)] n(2) by simp
  then have "k + of_nat n < nsect" using Suc.prems by (simp add: word_less_nat_alt)
  then have v: "sector_valid ty (k + of_nat n)" "sector_valid ty j"
    using nsect_ok_valid [OF assms(2)] assms(3) by auto
  have eq: "block_arg ty j = block_arg ty k + of_nat n * stride \<longleftrightarrow> unat j = unat k + n"
    using block_arg_inj [OF v(2,1)] block_arg_add [OF assms(1), of k "of_nat n"] kn
    by (metis word_unat_eq_iff)
  show ?case
  proof (cases "unat j = unat k + n")
    case True
    then show ?thesis using eq by (simp add: put_blocks_end)
  next
    case False
    with Suc eq show ?thesis by (auto simp: put_blocks_end)
  qed
qed

lemma blocks_contents:
  assumes "stride = (if ty AND CT_BLOCK = 0 then 512 else 1)" and "dk_CardType s = ty"
  shows "blocks (mem (dk_card s)) (block_arg ty k) n = sectors (disk_contents mem s) k n"
  using assms(2) by (simp add: blocks_def sectors_def disk_contents_def block_arg_add [OF assms(1)])

lemma stream_device:
  assumes "nsect_ok ty nsect" and "stride = (if ty AND CT_BLOCK = 0 then 512 else 1)"
  shows "stream_disk (sd_io api) (disk_ok busy busy_max ty) (disk_contents mem) nsect"
proof (rule stream_disk.intro [OF reliable_device [OF assms(1)]], unfold_locales)
  fix d and n k :: u32
  assume h: "disk_ok busy busy_max ty d" "n \<noteq> 0" "unat k + unat n \<le> unat nsect"
  show "\<exists>d'. io_read (sd_io api) 0 k n d = (RES_OK, sectors (disk_contents mem d) k (unat n), d') \<and>
      disk_ok busy busy_max ty d' \<and> (\<forall>j < nsect. disk_contents mem d' j = disk_contents mem d j)"
  proof (cases "n = 1")
    case True
    with block_device.rd_ok [OF device h(1), of k] show ?thesis by (auto simp: sd_io_def sectors_def)
  next
    case False
    then have "n > 1" using h(2) unfolding word_less_nat_alt word_unat_eq_iff by simp
    obtain m where m: "busy m (dk_card d)" "m \<le> busy_max" "dk_Stat d = 0" "dk_CardType d = ty"
      using h(1) by (auto simp: disk_ok_def)
    from disk_read_stream [OF m(1-3) \<open>n > 1\<close>, of k] m(4) blocks_contents [OF assms(2) m(4)]
    show ?thesis by (auto simp: sd_io_def disk_ok_def disk_contents_def)
  qed
next
  fix d and n k :: u32 and b :: "byte list"
  assume h: "disk_ok busy busy_max ty d" "n \<noteq> 0" "unat k + unat n \<le> unat nsect" "length b = 512 * unat n"
  show "\<exists>d'. io_write (sd_io api) 0 b k n d = (RES_OK, d') \<and> disk_ok busy busy_max ty d' \<and>
      (\<forall>j < nsect. disk_contents mem d' j =
        (if unat k \<le> unat j \<and> unat j < unat k + unat n then take 512 (drop (512 * (unat j - unat k)) b)
         else disk_contents mem d j))"
  proof (cases "n = 1")
    case True
    have k: "k < nsect" using h(3) True by (simp add: word_less_nat_alt)
    note v = nsect_ok_valid [OF assms(1)]
    have j: "j = k \<longleftrightarrow> unat k \<le> unat j \<and> unat j < unat k + 1" for j by (auto simp: word_unat_eq_iff)
    from block_device.wr_ok [OF device h(1) v [OF k], of b] h(4) True v
    show ?thesis by (auto simp: sd_io_def j)
  next
    case False
    then have "n > 1" using h(2) unfolding word_less_nat_alt word_unat_eq_iff by simp
    obtain m where m: "busy m (dk_card d)" "m \<le> busy_max" "dk_Stat d = 0" "dk_CardType d = ty"
      using h(1) by (auto simp: disk_ok_def)
    obtain d' where d': "disk_write api 0 b k n d = (RES_OK, d')" "disk_ok busy busy_max ty d'"
        "mem (dk_card d') = put_blocks (mem (dk_card d)) (block_arg ty k) b (unat n)" "dk_CardType d' = ty"
      using disk_write_stream [OF m(1-3) \<open>n > 1\<close> h(4), of k] m(4) by (auto simp: disk_ok_def)
    have "disk_contents mem d' j =
        (if unat k \<le> unat j \<and> unat j < unat k + unat n then take 512 (drop (512 * (unat j - unat k)) b)
         else disk_contents mem d j)" if "j < nsect" for j
      using put_blocks_contents [OF assms(2,1) that h(3)] d'(3,4) m(4) by (simp add: disk_contents_def)
    then show ?thesis using d'(1,2) by (auto simp: sd_io_def)
  qed
qed

end

text \<open>The simulated card answers the commands for several blocks too.\<close>

definition sim_streaming :: "u32 \<Rightarrow> sim_card \<Rightarrow> bool" where
  "sim_streaming a c \<longleftrightarrow> sim_phase c = Sim_stream a \<and> sim_out c = [] \<and> (\<forall>a. length (sim_mem c a) = 512)"

definition sim_gathers :: "nat \<Rightarrow> u32 \<Rightarrow> sim_card \<Rightarrow> bool" where
  "sim_gathers n a c \<longleftrightarrow> sim_phase c = Sim_waits a \<and> sim_out c = replicate n 0 \<and>
     (\<forall>a. length (sim_mem c a) = 512)"

lemma sim_command_idle:
  "sim_phase c = Sim_idle \<Longrightarrow> card_xmit sim_api (cmd_packet CMD18 a) c = c\<lparr>sim_out := [0x00], sim_phase := Sim_stream a\<rparr>"
  "sim_phase c = Sim_idle \<Longrightarrow> card_xmit sim_api (cmd_packet CMD25 a) c = c\<lparr>sim_out := [0x00], sim_phase := Sim_waits a\<rparr>"
  "sim_phase c = Sim_idle \<Longrightarrow> card_xmit sim_api (cmd_packet CMD55 a) c = c\<lparr>sim_out := [0x01]\<rparr>"
  "sim_phase c = Sim_idle \<Longrightarrow> card_xmit sim_api (cmd_packet 0x17 a) c = c\<lparr>sim_out := [0x00]\<rparr>"
  using packet_arg_cmd [of CMD18 a] packet_arg_cmd [of CMD25 a]
  by (simp_all add: sim_api_def sim_xmit_def sim_command_def Let_def) (simp_all add: cmd_packet_def)

interpretation sim_stream: sd_stream sim_api sim_mem sim_busy sim_waits 2 sim_streaming sim_gathers 1
proof unfold_locales
  fix c a assume c: "sim_busy 0 c"
  let ?c = "card_xmit sim_api (cmd_packet CMD18 a) c"
  have "serves sim_api ?c [0x00] (?c\<lparr>sim_out := []\<rparr>)"
    using c by (intro sim_serves) (simp add: sim_command_idle sim_busy_def)
  then show "\<exists>j c'. j \<le> 9 \<and> serves sim_api ?c (replicate j 0xFF @ [0x00]) c' \<and> sim_streaming a c' \<and>
      sim_mem c' = sim_mem c"
    using c by (intro exI [of _ 0] exI [of _ "?c\<lparr>sim_out := []\<rparr>"])
      (simp add: sim_command_idle sim_busy_def sim_streaming_def)
next
  fix a c assume c: "sim_streaming a c"
  let ?d = "c\<lparr>sim_phase := Sim_stream (a + 1), sim_out := 0xFE # sim_mem c a @ [0, 0]\<rparr>"
  have "card_recv sim_api c = (0xFF, ?d)"
    using c by (simp add: sim_streaming_def sim_api_def sim_recv_def)
  moreover have "serves sim_api ?d (0xFE # sim_mem c a @ [0, 0]) (?d\<lparr>sim_out := []\<rparr>)"
    by (intro sim_serves) simp
  ultimately have "serves sim_api c (replicate 1 0xFF @ 0xFE # sim_mem c a @ [0, 0]) (?d\<lparr>sim_out := []\<rparr>)"
    by (simp add: serves_Cons)
  then show "\<exists>k crc c'. k < 1000 \<and> length crc = 2 \<and> length (sim_mem c a) = 512 \<and>
      serves sim_api c (replicate k 0xFF @ 0xFE # sim_mem c a @ crc) c' \<and>
      sim_streaming (a + 1) c' \<and> sim_mem c' = sim_mem c"
    using c by (intro exI [of _ 1] exI [of _ "[0, 0]"] exI [of _ "?d\<lparr>sim_out := []\<rparr>"])
      (simp add: sim_streaming_def)
next
  fix a c assume c: "sim_streaming a c"
  let ?c = "card_xmit sim_api (cmd_packet CMD12 0) c"
  have x: "?c = c\<lparr>sim_phase := Sim_idle, sim_out := [0xFF, 0x00]\<rparr>"
    using c by (simp add: sim_streaming_def sim_api_def sim_xmit_def cmd_packet_def)
  have "serves sim_api ?c [0xFF, 0x00] (?c\<lparr>sim_out := []\<rparr>)" by (intro sim_serves) (simp add: x)
  then show "\<exists>x j r n c'. j \<le> 9 \<and> r AND 0x80 = 0 \<and> n \<le> 2 \<and>
      serves sim_api ?c (x # replicate j 0xFF @ [r]) c' \<and> sim_busy n c' \<and> sim_mem c' = sim_mem c"
    using c by (intro exI [of _ "0xFF"] exI [of _ "0 :: nat"] exI [of _ "0 :: byte"]
        exI [of _ "?c\<lparr>sim_out := []\<rparr>"]) (simp add: x sim_streaming_def sim_busy_def)
next
  fix c and cmd :: byte and arg
  assume c: "sim_busy 0 c" and k: "cmd \<in> {CMD55, ACMD23 AND 0x7F}"
  let ?c = "card_xmit sim_api (cmd_packet cmd arg) c"
  obtain r where r: "?c = c\<lparr>sim_out := [r]\<rparr>" "r \<le> 1"
    using c k by (auto simp: sim_busy_def sim_command_idle)
  have "serves sim_api ?c [r] (?c\<lparr>sim_out := []\<rparr>)" by (intro sim_serves) (simp add: r)
  then show "\<exists>j r c'. j \<le> 9 \<and> r \<le> 1 \<and> serves sim_api ?c (replicate j 0xFF @ [r]) c' \<and> sim_busy 0 c' \<and>
      sim_mem c' = sim_mem c"
    using c r by (intro exI [of _ 0] exI [of _ r] exI [of _ "?c\<lparr>sim_out := []\<rparr>"]) (simp add: sim_busy_def)
next
  fix c a assume c: "sim_busy 0 c"
  let ?c = "card_xmit sim_api (cmd_packet CMD25 a) c"
  have "serves sim_api ?c [0x00] (?c\<lparr>sim_out := []\<rparr>)"
    using c by (intro sim_serves) (simp add: sim_command_idle sim_busy_def)
  then show "\<exists>j c'. j \<le> 9 \<and> serves sim_api ?c (replicate j 0xFF @ [0x00]) c' \<and> sim_gathers 0 a c' \<and>
      sim_mem c' = sim_mem c"
    using c by (intro exI [of _ 0] exI [of _ "?c\<lparr>sim_out := []\<rparr>"])
      (simp add: sim_command_idle sim_busy_def sim_gathers_def)
next
  fix a c assume "sim_gathers 0 a c"
  then show "\<exists>c'. card_recv sim_api c = (0xFF, c') \<and> sim_gathers 0 a c' \<and> sim_mem c' = sim_mem c"
    by (simp add: sim_gathers_def sim_api_def sim_recv_def)
next
  fix n a c assume "sim_gathers (Suc n) a c"
  then show "\<exists>d c'. card_recv sim_api c = (d, c') \<and> d \<noteq> 0xFF \<and> sim_gathers n a c' \<and> sim_mem c' = sim_mem c"
    by (simp add: sim_gathers_def sim_api_def sim_recv_def)
next
  fix a c and b :: "byte list"
  assume c: "sim_gathers 0 a c" and b: "length b = 512"
  let ?d = "c\<lparr>sim_phase := Sim_waits (a + 1), sim_mem := (sim_mem c)(a := b), sim_out := [0, 0]\<rparr>"
  have d: "serves sim_api (card_xmit sim_api b (card_xmit sim_api [0xFC] c)) [0xFF, 0xFF, 0xE5] ?d"
      "sim_gathers 2 (a + 1) ?d" "sim_mem ?d = (sim_mem c)(a := b)"
    using c b by (simp_all add: sim_gathers_def sim_api_def sim_xmit_def serves_Cons sim_recv_def numeral_2_eq_2)
  show "\<exists>x y r n c'. serves sim_api (card_xmit sim_api b (card_xmit sim_api [0xFC] c)) [x, y, r] c' \<and>
      r AND 0x1F = 0x05 \<and> n \<le> 2 \<and> sim_gathers n (a + 1) c' \<and> sim_mem c' = (sim_mem c)(a := b)"
    by (rule exI [of _ "0xFF"], rule exI [of _ "0xFF"], rule exI [of _ "0xE5"], rule exI [of _ 2],
        rule exI [of _ ?d]) (use d in simp)
next
  fix a c assume "sim_gathers 0 a c"
  then show "\<exists>n \<le> 2. sim_busy n (card_xmit sim_api [0xFD] c) \<and> sim_mem (card_xmit sim_api [0xFD] c) = sim_mem c"
    by (intro exI [of _ 2]) (simp add: sim_gathers_def sim_busy_def sim_api_def sim_xmit_def numeral_2_eq_2)
qed

interpretation sim_disk: stream_disk "sd_io sim_api" "disk_ok sim_busy 2 0x18" "disk_contents sim_mem" nsect
  for nsect
  by (rule sim_stream.stream_device) (simp_all add: nsect_ok_def)

end
