(* ===== verification/FatRead.thy ===== *)
theory FatRead
  imports FatSession SdStream
begin

text \<open>
  The contents of a file. A file is the list \<open>xs\<close> of its clusters in the allocation table; byte \<open>n\<close>
  is byte \<open>n mod 512\<close> of sector \<open>n div 512\<close> of these clusters, which a dirty sector cache of the file
  object hides. \<open>file_ok\<close> and \<open>file_pos\<close> are the invariant of an open file. The lemmas show that
  \<open>f_read\<close> delivers the bytes of the file from the read pointer on: across sectors and clusters, by
  whole sectors and through the cache.
\<close>

section \<open>The bytes of a file\<close>

definition dirty :: "ffil \<Rightarrow> bool" where
  "dirty fp \<longleftrightarrow> fflag fp AND FA_DIRTY \<noteq> 0"

definition file_sector :: "u32 list \<Rightarrow> 'd fatfs \<Rightarrow> nat \<Rightarrow> u32" where
  \<comment> \<open>the sector on the drive of sector \<open>i\<close> of the file\<close>
  "file_sector xs fs i = clst2sect (xs ! (i div unat (csize fs))) fs + of_nat (i mod unat (csize fs))"

definition file_sectors :: "u32 list \<Rightarrow> 'd fatfs \<Rightarrow> u32 set" where
  "file_sectors xs fs = file_sector xs fs ` {..< length xs * unat (csize fs)}"

definition file_block :: "('d \<Rightarrow> u32 \<Rightarrow> byte list) \<Rightarrow> u32 list \<Rightarrow> ffil \<Rightarrow> 'd fatfs \<Rightarrow> nat \<Rightarrow> byte list" where
  "file_block contents xs fp fs i =
    (let k = file_sector xs fs i
     in if dirty fp \<and> fsect fp = k then fbuf fp else contents (medium fs) k)"

definition file_byte :: "('d \<Rightarrow> u32 \<Rightarrow> byte list) \<Rightarrow> u32 list \<Rightarrow> ffil \<Rightarrow> 'd fatfs \<Rightarrow> nat \<Rightarrow> byte" where
  "file_byte contents xs fp fs n = file_block contents xs fp fs (n div SS) ! (n mod SS)"

definition file_bytes :: "('d \<Rightarrow> u32 \<Rightarrow> byte list) \<Rightarrow> u32 list \<Rightarrow> ffil \<Rightarrow> 'd fatfs \<Rightarrow> byte list" where
  "file_bytes contents xs fp fs = map (file_byte contents xs fp fs) [0..<unat (objsize (fobj fp))]"

definition file_room :: "u32 list \<Rightarrow> 'd fatfs \<Rightarrow> nat" where
  \<comment> \<open>the sectors the clusters hold\<close>
  "file_room xs fs = length xs * unat (csize fs)"

definition file_chain :: "('d \<Rightarrow> u32 \<Rightarrow> byte list) \<Rightarrow> u32 list \<Rightarrow> ffobj \<Rightarrow> 'd fatfs \<Rightarrow> bool" where
  \<comment> \<open>the clusters are a chain of the table, they hold the file, and none is in the window\<close>
  "file_chain contents xs ob fs \<longleftrightarrow>
     (if xs = [] then sclust ob = 0
      else fat_chain (fat_of contents fs) (n_fatent fs) xs \<and> hd xs = sclust ob) \<and>
     unat (objsize ob) \<le> SS * file_room xs fs \<and> winsect fs \<notin> file_sectors xs fs"

definition cache_ok :: "('d \<Rightarrow> u32 \<Rightarrow> byte list) \<Rightarrow> u32 list \<Rightarrow> ffil \<Rightarrow> 'd fatfs \<Rightarrow> bool" where
  \<comment> \<open>a dirty cache is a sector of the file, a clean one agrees with the drive where the file has bytes\<close>
  "cache_ok contents xs fp fs \<longleftrightarrow> length (fbuf fp) = SS \<and>
     (if dirty fp then fsect fp \<in> file_sectors xs fs
      else \<forall>i < file_room xs fs. SS * i < unat (objsize (fobj fp)) \<longrightarrow> fsect fp = file_sector xs fs i \<longrightarrow>
             fbuf fp = contents (medium fs) (fsect fp))"

definition file_ok :: "('d \<Rightarrow> u32 \<Rightarrow> byte list) \<Rightarrow> u32 list \<Rightarrow> ffil \<Rightarrow> 'd fatfs \<Rightarrow> bool" where
  "file_ok contents xs fp fs \<longleftrightarrow> file_chain contents xs (fobj fp) fs \<and> cache_ok contents xs fp fs"

lemmas file_ok_defs = file_ok_def file_chain_def cache_ok_def

definition file_pos :: "u32 list \<Rightarrow> ffil \<Rightarrow> 'd fatfs \<Rightarrow> bool" where
  \<comment> \<open>the current cluster and the cached sector belong to the read/write pointer\<close>
  "file_pos xs fp fs \<longleftrightarrow> fptr fp \<le> objsize (fobj fp) \<and>
     (fptr fp \<noteq> 0 \<longrightarrow> fclust fp = xs ! ((unat (fptr fp) - 1) div (unat (csize fs) * SS))) \<and>
     (unat (fptr fp) mod SS \<noteq> 0 \<longrightarrow> fsect fp = file_sector xs fs (unat (fptr fp) div SS))"

lemma file_cong:
  assumes "geometry fs' = geometry fs"
  shows "file_sector xs fs' = file_sector xs fs" "file_sectors xs fs' = file_sectors xs fs"
    "file_room xs fs' = file_room xs fs" "file_pos xs fp fs' = file_pos xs fp fs"
proof -
  show s: "file_sector xs fs' = file_sector xs fs"
    by (rule ext) (simp add: file_sector_def geometry_cong(4) [OF assms] geometry_fields(4) [OF assms])
  show "file_sectors xs fs' = file_sectors xs fs" "file_room xs fs' = file_room xs fs"
      "file_pos xs fp fs' = file_pos xs fp fs"
    by (simp_all add: file_sectors_def file_room_def file_pos_def s geometry_fields(4) [OF assms])
qed

section \<open>Lists of blocks and powers of two\<close>

lemma store_at_append:
  assumes "i + length a + length b \<le> length xs"
  shows "store_at (i + length a) b (store_at i a xs) = store_at i (a @ b) xs"
  by (rule nth_equalityI) (use assms in \<open>auto simp: nth_store_at nth_append\<close>)

lemma concat_blocks:
  assumes "\<And>j. j < c \<Longrightarrow> length (g j) = n"
  shows "length (concat (map g [0..<c])) = c * n"
    and "m < c * n \<Longrightarrow> concat (map g [0..<c]) ! m = g (m div n) ! (m mod n)"
proof -
  have "length (concat (map g [0..<c])) = c * n \<and>
      (\<forall>m < c * n. concat (map g [0..<c]) ! m = g (m div n) ! (m mod n))"
    using assms
  proof (induction c)
    case (Suc c)
    then have IH: "length (concat (map g [0..<c])) = c * n"
        "\<forall>m < c * n. concat (map g [0..<c]) ! m = g (m div n) ! (m mod n)" by simp_all
    have "m div n = c \<and> m mod n = m - c * n" if "m < Suc c * n" "\<not> m < c * n" for m
    proof -
      have d: "m div n = c" using that by (intro div_nat_eqI) (simp_all add: mult.commute)
      then show ?thesis using div_mult_mod_eq [of m n] by simp
    qed
    with IH Suc.prems show ?case by (auto simp: nth_append)
  qed simp
  then show "length (concat (map g [0..<c])) = c * n"
    "m < c * n \<Longrightarrow> concat (map g [0..<c]) ! m = g (m div n) ! (m mod n)" by simp_all
qed

lemma nat_power_of_two: "(m :: nat) AND (m - 1) = 0 \<Longrightarrow> m \<noteq> 0 \<Longrightarrow> \<exists>n. m = 2 ^ n"
proof (induction m rule: less_induct)
  case (less m)
  show ?case
  proof (cases "even m")
    case True
    then obtain k where k: "m = 2 * k" by blast
    with less.prems have k0: "k \<noteq> 0" by simp
    have "m - 1 = 2 * (k - 1) + 1" using k k0 by simp
    then have "2 * (k AND (k - 1)) = 0"
      using less.prems(1) k and_nat_rec [of m "m - 1"] by simp
    with less.IH [of k] k k0 obtain n where "k = 2 ^ n" by auto
    with k have "m = 2 ^ Suc n" by simp
    then show ?thesis by blast
  next
    case False
    then obtain k where k: "m = 2 * k + 1" by (blast elim: oddE)
    then have "k AND k = 0" using less.prems(1) and_nat_rec [of m "m - 1"] by simp
    with k show ?thesis by (intro exI [of _ 0]) simp
  qed
qed

lemma mask_of_power:
  assumes "c AND (c - 1) = (0 :: u16)" and "c \<noteq> 0"
  shows "unat (x AND (ucast c - 1) :: u32) = unat x mod unat c"
proof -
  have c0: "unat c \<noteq> 0" using assms(2) by (simp add: word_unat_eq_iff)
  have "unat c AND (unat c - 1) = 0"
    using arg_cong [OF assms(1), of unat] unat_minus_one [OF assms(2)] by (simp add: unsigned_and_eq)
  then obtain n where n: "unat c = 2 ^ n" using nat_power_of_two c0 by blast
  have u: "unat (ucast c - 1 :: u32) = 2 ^ n - 1"
    using n c0 by (subst unat_minus_one) (auto simp: word_unat_eq_iff)
  have "unat (x AND (ucast c - 1)) = unat x AND mask n"
    using u by (simp add: unsigned_and_eq mask_eq_exp_minus_1)
  then show ?thesis using n by (simp add: take_bit_eq_mask [symmetric] take_bit_eq_mod)
qed

section \<open>Where the sectors of a file are\<close>

lemma chain_next:
  "fat_chain F n xs \<Longrightarrow> Suc m < length xs \<Longrightarrow> F (xs ! m) = xs ! Suc m"
  by (induction F n xs arbitrary: m rule: fat_chain.induct) (auto simp: nth_Cons split: nat.split)

lemma cluster_sector:
  assumes "volume_ok nsect fs" and "2 \<le> c" and "c < n_fatent fs"
  shows "unat (clst2sect c fs) = unat (database fs) + unat (csize fs) * (unat c - 2)"
    and "unat (clst2sect c fs) + unat (csize fs) \<le> unat nsect"
proof -
  have v: "unat (database fs) + unat (csize fs) * (unat (n_fatent fs) - 2) \<le> unat nsect"
    using assms(1) by (simp add: volume_ok_def)
  have c: "2 \<le> unat c" "unat c < unat (n_fatent fs)" using assms(2,3) by (simp_all add: word_le_nat_alt word_less_nat_alt)
  have u: "unat (c - 2) = unat c - 2" "unat (n_fatent fs - 2) = unat (n_fatent fs) - 2"
    using c by (simp_all add: unat_sub word_le_nat_alt)
  have "unat c - 2 + 1 \<le> unat (n_fatent fs) - 2" using c by simp
  then have "unat (csize fs) * (unat c - 2 + 1) \<le> unat (csize fs) * (unat (n_fatent fs) - 2)"
    by (rule mult_le_mono2)
  then have p: "unat (csize fs) * (unat c - 2) + unat (csize fs) \<le> unat (csize fs) * (unat (n_fatent fs) - 2)"
    by (simp add: algebra_simps)
  have "\<not> n_fatent fs - 2 \<le> c - 2" using c u by (simp add: word_le_nat_alt)
  then have "clst2sect c fs = database fs + ucast (csize fs) * (c - 2)" by (simp add: clst2sect_def Let_def)
  moreover have "unat (ucast (csize fs) * (c - 2)) = unat (csize fs) * (unat c - 2)"
    using p v u32_unat_less [of nsect] u by (subst unat_mult_lem [THEN iffD1]) simp_all
  ultimately show "unat (clst2sect c fs) = unat (database fs) + unat (csize fs) * (unat c - 2)"
    using p v u32_unat_less [of nsect] by (simp add: u32_add)
  then show "unat (clst2sect c fs) + unat (csize fs) \<le> unat nsect" using p v by simp
qed

lemma data_sector:
  assumes "volume_ok nsect fs" and "2 \<le> c" and "c < n_fatent fs" and "j < unat (csize fs)"
  shows "unat (clst2sect c fs + of_nat j) = unat (clst2sect c fs) + j"
    and "unat (database fs) \<le> unat (clst2sect c fs + of_nat j)" and "clst2sect c fs + of_nat j < nsect"
    and "\<not> shadow fs (clst2sect c fs + of_nat j)" and "\<not> in_fat fs (clst2sect c fs + of_nat j)"
proof -
  let ?k = "clst2sect c fs + of_nat j"
  note c = cluster_sector [OF assms(1-3)]
  have "unat (of_nat j :: u32) = j"
    using assms(4) c(2) u32_unat_less [of nsect] by (intro u32_of_nat) linarith
  then show v: "unat ?k = unat (clst2sect c fs) + j"
    using assms(4) c(2) u32_unat_less [of nsect] by (simp add: u32_add)
  then show db: "unat (database fs) \<le> unat ?k" using c(1) by simp
  show "?k < nsect" using v assms(4) c(2) by (simp add: word_less_nat_alt)
  have l: "fat_end fs \<le> unat (database fs)" "layout nsect fs"
    using assms(1) by (simp_all add: volume_ok_def)
  have "unat (fatbase fs) \<le> fat_end fs" by (simp add: fat_end_def)
  moreover have "unat (volbase fs + 1) < unat (fatbase fs)" if "fs_type fs = FS_FAT32"
  proof -
    have "unat (volbase fs) + 1 < unat (fatbase fs)" using l(2) that by (simp add: layout_def)
    then show ?thesis using u32_unat_less [of "fatbase fs"] by (simp add: u32_add1)
  qed
  ultimately show "\<not> shadow fs ?k" using db l(1) by (auto simp: shadow_def)
  have "unat (fatbase fs) + unat (fsize fs) \<le> fat_end fs" using l(2) by (auto simp: layout_def fat_end_def)
  then show "\<not> in_fat fs ?k" using db l(1) by (simp add: in_fat_def)
qed

lemma file_sector_value:
  assumes "volume_ok nsect fs" and "file_ok contents xs fp fs" and "i < file_room xs fs"
  shows "xs ! (i div unat (csize fs)) \<in> set xs"
    and "2 \<le> xs ! (i div unat (csize fs)) \<and> xs ! (i div unat (csize fs)) < n_fatent fs"
    and "unat (file_sector xs fs i) =
      unat (clst2sect (xs ! (i div unat (csize fs))) fs) + i mod unat (csize fs)"
    and "unat (database fs) \<le> unat (file_sector xs fs i)" and "file_sector xs fs i < nsect"
    and "\<not> shadow fs (file_sector xs fs i)" and "file_sector xs fs i \<in> file_sectors xs fs"
    and "\<not> in_fat fs (file_sector xs fs i)"
proof -
  let ?c = "xs ! (i div unat (csize fs))"
  have "csize fs \<noteq> 0" using assms(1) by (simp add: volume_ok_def)
  then have cs: "unat (csize fs) > 0" by (simp add: word_unat_eq_iff)
  have d: "i div unat (csize fs) < length xs"
    using assms(3) cs by (simp add: file_room_def div_less_iff_less_mult)
  then show s: "?c \<in> set xs" by simp
  have "xs \<noteq> []" using d by auto
  then have "fat_chain (fat_of contents fs) (n_fatent fs) xs" using assms(2) by (simp add: file_ok_defs)
  from fat_chain_range [OF this s] show r: "2 \<le> ?c \<and> ?c < n_fatent fs" .
  have m: "i mod unat (csize fs) < unat (csize fs)" using cs by simp
  note ds = data_sector [OF assms(1) conjunct1 [OF r] conjunct2 [OF r] m, folded file_sector_def]
  show "unat (file_sector xs fs i) = unat (clst2sect ?c fs) + i mod unat (csize fs)"
    "unat (database fs) \<le> unat (file_sector xs fs i)" "file_sector xs fs i < nsect"
    "\<not> shadow fs (file_sector xs fs i)" "\<not> in_fat fs (file_sector xs fs i)"
    by (rule ds)+
  show "file_sector xs fs i \<in> file_sectors xs fs" using assms(3) by (simp add: file_sectors_def file_room_def)
qed

lemma file_sectors_elim:
  assumes "k \<in> file_sectors xs fs"
  obtains i where "i < file_room xs fs" "k = file_sector xs fs i"
  using assms by (auto simp: file_sectors_def file_room_def)

lemma file_sector_next:
  assumes "i mod unat (csize fs) + j < unat (csize fs)"
  shows "file_sector xs fs (i + j) = file_sector xs fs i + of_nat j"
    and "i < file_room xs fs \<Longrightarrow> i + j < file_room xs fs"
proof -
  let ?c = "unat (csize fs)"
  have e: "i + j = (i mod ?c + j) + i div ?c * ?c" by simp
  have "(i + j) div ?c = (i mod ?c + j) div ?c + i div ?c"
    using assms by (subst e, subst div_mult_self1) auto
  moreover have "(i + j) mod ?c = (i mod ?c + j) mod ?c" by (subst e, subst mod_mult_self1) simp
  ultimately have d: "(i + j) div ?c = i div ?c" "(i + j) mod ?c = i mod ?c + j" using assms by simp_all
  then show "file_sector xs fs (i + j) = file_sector xs fs i + of_nat j" by (simp add: file_sector_def)
  have c: "0 < ?c" using assms by simp
  show "i < file_room xs fs \<Longrightarrow> i + j < file_room xs fs"
    using d(1) c by (simp add: file_room_def div_less_iff_less_mult [symmetric])
qed

section \<open>What leaves a file as it is\<close>

lemma file_ok_update [simp]:
  "file_ok contents xs (fp\<lparr>fptr := p\<rparr>) fs = file_ok contents xs fp fs"
  "file_ok contents xs (fp\<lparr>fclust := c\<rparr>) fs = file_ok contents xs fp fs"
  "file_ok contents xs (fp\<lparr>ferr := e\<rparr>) fs = file_ok contents xs fp fs"
  by (simp_all add: file_ok_defs dirty_def)

lemma file_block_update [simp]:
  "file_block contents xs (fp\<lparr>fptr := p\<rparr>) fs = file_block contents xs fp fs"
  "file_block contents xs (fp\<lparr>fclust := c\<rparr>) fs = file_block contents xs fp fs"
  "file_block contents xs (fp\<lparr>ferr := e\<rparr>) fs = file_block contents xs fp fs"
  by (rule ext, simp add: file_block_def dirty_def Let_def)+

lemma dirty_clear [simp]: "\<not> dirty (fp\<lparr>fflag := f AND - 129\<rparr>)"
proof -
  have "(f AND NOT FA_DIRTY) AND FA_DIRTY = 0" by (rule bit_word_eqI) (auto simp: bit_simps)
  then show ?thesis by (simp add: dirty_def)
qed

lemma move_window_winsect:
  "move_window io k fs = (r, fs') \<Longrightarrow> winsect fs' \<in> {winsect fs, k, - 1}"
proof -
  assume m: "move_window io k fs = (r, fs')"
  have "winsect (snd (sync_window io fs)) = winsect fs"
    by (simp add: sync_window_def Let_def split: prod.split)
  with m show ?thesis
    by (auto simp: move_window_def Let_def split: if_splits prod.splits)
qed

context fat_disk begin

definition off_data :: "'d fatfs \<Rightarrow> 'd fatfs \<Rightarrow> bool" where
  \<comment> \<open>the window is where it was or on no sector of the data area\<close>
  "off_data fs fs' \<longleftrightarrow> winsect fs' = winsect fs \<or> in_fat fs (winsect fs') \<or> \<not> winsect fs' < nsect"

lemma off_data_trans: "off_data a b \<Longrightarrow> off_data b c \<Longrightarrow> geometry b = geometry a \<Longrightarrow> off_data a c"
  using in_fat_cong [of b a] by (auto simp: off_data_def)

lemma move_off_data:
  assumes "good fs" and "n < SS * unat (fsize fs)"
    and "move_window io (fatbase fs + of_nat (n div SS)) fs = (r, fs')"
  shows "off_data fs fs' \<and> geometry fs' = geometry fs \<and> good fs'"
proof -
  have "\<not> (- 1 :: u32) < nsect" using word_n1_ge [of nsect] by (simp add: not_less)
  then have "off_data fs fs'"
    using move_window_winsect [OF assms(3)] fat_sector(4) [OF _ assms(2)] assms(1)
    by (auto simp: off_data_def good_def)
  then show ?thesis using move_at_byte [OF assms] by blast
qed

lemma get_fat_off_data:
  assumes "good fs" and "fat_ok fs" and "get_fat io c fs = (v, fs')"
  shows "off_data fs fs'"
proof (cases "2 \<le> c \<and> c < n_fatent fs")
  case False
  with assms show ?thesis by (auto simp: get_fat_def off_data_def not_le not_less)
next
  case c: True
  have nc: "\<not> (c < 2 \<or> c \<ge> n_fatent fs)" using c by (simp add: not_le not_less)
  note r = fat_range [OF assms(2) conjunct2 [OF c]]
  note o = fat12_offset [OF r(1)] fat16_offset [OF r(1)]
  from assms(2) consider "fs_type fs = FS_FAT12" | "fs_type fs = FS_FAT16" | "fs_type fs = FS_FAT32"
    by (auto simp: fat_ok_def)
  then show ?thesis
  proof cases
    case 1
    let ?b = "unat c + unat c div 2"
    have b: "?b < SS * unat (fsize fs)" "?b + 1 < SS * unat (fsize fs)" using r(2) 1 by auto
    obtain q1 fs1 where m1: "move_window io (fatbase fs + of_nat (?b div SS)) fs = (q1, fs1)" by fastforce
    note s1 = move_off_data [OF assms(1) b(1) m1]
    have b2: "?b + 1 < SS * unat (fsize fs1)" using b(2) s1 geometry_fields(6) by metis
    obtain q2 fs2 where m2: "move_window io (fatbase fs1 + of_nat ((?b + 1) div SS)) fs1 = (q2, fs2)"
      by fastforce
    note s2 = move_off_data [OF conjunct2 [OF conjunct2 [OF s1]] b2 m2]
    have "fs' = (if q1 = FR_OK then fs2 else fs1)"
      using 1 nc m1 m2 o assms(3) by (auto simp: get_fat_def Let_def sector_div split: if_splits)
    with s1 s2 off_data_trans show ?thesis by (metis (full_types))
  next
    case 2
    then have b: "2 * unat c < SS * unat (fsize fs)" using r(3) by simp
    obtain q fs1 where m: "move_window io (fatbase fs + of_nat (2 * unat c div SS)) fs = (q, fs1)" by fastforce
    have "fs' = fs1" using 2 nc m o assms(3) by (auto simp: get_fat_def sector_div split: if_splits)
    with move_off_data [OF assms(1) b m] show ?thesis by simp
  next
    case 3
    then have b: "4 * unat c < SS * unat (fsize fs)" using r(4) by simp
    obtain q fs1 where m: "move_window io (fatbase fs + of_nat (4 * unat c div SS)) fs = (q, fs1)" by fastforce
    have "fs' = fs1" using 3 nc m o assms(3) by (auto simp: get_fat_def sector_div split: if_splits)
    with move_off_data [OF assms(1) b m] show ?thesis by simp
  qed
qed

lemma fat_of_kept:
  assumes "\<And>k. in_fat fs k \<Longrightarrow> k < nsect \<Longrightarrow> \<not> shadow fs k \<Longrightarrow> view contents fs' k = view contents fs k"
    and "geometry fs' = geometry fs" and "layout nsect fs" and "fat_ok fs" and "c < n_fatent fs"
  shows "fat_of contents fs' c = fat_of contents fs c"
  unfolding fat_of_def geometry_fields [OF assms(2)]
proof (rule fat_entry_cong [of _ _ "unat (n_fatent fs)"])
  fix m assume "m < table_bytes (fs_type fs) (unat (n_fatent fs))"
  then have "m < SS * unat (fsize fs)" using assms(4) by (auto simp: fat_ok_def)
  note f = fat_sector [OF assms(3) this]
  show "fat_byte contents fs' m = fat_byte contents fs m"
    using assms(1) [OF f(4,2,3)] by (simp add: fat_byte_def geometry_fields [OF assms(2)])
qed (use assms(4,5) in \<open>auto simp: fat_ok_def word_less_nat_alt\<close>)

definition held :: "u32 list \<Rightarrow> ffil \<Rightarrow> 'd fatfs \<Rightarrow> bool" where
  "held xs fp fs \<longleftrightarrow> good fs \<and> volume_ok nsect fs \<and> file_ok contents xs fp fs"

definition same_file :: "u32 list \<Rightarrow> ffil \<Rightarrow> 'd fatfs \<Rightarrow> ffil \<Rightarrow> 'd fatfs \<Rightarrow> bool" where
  \<comment> \<open>the blocks of the file, the table and every sector outside the file are the same\<close>
  "same_file xs fp fs fp' fs' \<longleftrightarrow> geometry fs' = geometry fs \<and> held xs fp' fs' \<and>
     (\<forall>c < n_fatent fs. fat_of contents fs' c = fat_of contents fs c) \<and>
     keeps_but (\<lambda>k. k \<in> file_sectors xs fs) fs fs' \<and>
     (\<forall>i < file_room xs fs. file_block contents xs fp' fs' i = file_block contents xs fp fs i)"

lemma same_file_refl: "held xs fp fs \<Longrightarrow> same_file xs fp fs fp fs"
  by (simp add: same_file_def keeps_but_def)

lemma same_file_trans:
  assumes "same_file xs fp fs fp1 fs1" and "same_file xs fp1 fs1 fp2 fs2"
  shows "same_file xs fp fs fp2 fs2"
proof -
  have g: "geometry fs1 = geometry fs" "geometry fs2 = geometry fs" using assms by (simp_all add: same_file_def)
  note eqs = file_cong(2,3) [OF g(1)] geometry_fields(5) [OF g(1)]
  have k: "keeps_but (\<lambda>k. k \<in> file_sectors xs fs) fs fs1" "keeps_but (\<lambda>k. k \<in> file_sectors xs fs) fs1 fs2"
    using assms unfolding same_file_def eqs by blast+
  have "keeps_but (\<lambda>k. k \<in> file_sectors xs fs) fs fs2" by (rule keeps_but_trans [OF k g(1)])
  with assms g(2) show ?thesis unfolding same_file_def eqs by simp
qed

lemma file_sector_off:
  assumes "held xs fp fs" and "k \<in> file_sectors xs fs"
  shows "k < nsect" "\<not> shadow fs k" "\<not> in_fat fs k" "k \<noteq> winsect fs" "length (contents (medium fs) k) = 512"
proof -
  obtain i where i: "i < file_room xs fs" "k = file_sector xs fs i" using file_sectors_elim [OF assms(2)] .
  have h: "volume_ok nsect fs" "file_ok contents xs fp fs" "good fs" using assms(1) by (simp_all add: held_def)
  note v = file_sector_value [OF h(1,2) i(1)]
  show "k < nsect" "\<not> shadow fs k" using v(5,6) i(2) by simp_all
  show "\<not> in_fat fs k" using v(8) i(2) by simp
  show "k \<noteq> winsect fs" using h(2) assms(2) by (auto simp: file_ok_defs)
  show "length (contents (medium fs) k) = 512"
    using h(3) v(5) i(2) by (intro contents_length) (auto simp: good_def window_ok_def)
qed

lemma held_view:
  \<comment> \<open>what is enough for a file: the window is off its sectors, the table is the same, and its sectors are\<close>
  assumes "held xs fp fs" and "good fs'" and "geometry fs' = geometry fs" and "winsect fs' \<notin> file_sectors xs fs"
    and "\<And>c. c < n_fatent fs \<Longrightarrow> fat_of contents fs' c = fat_of contents fs c"
    and "\<And>k. k \<in> file_sectors xs fs \<Longrightarrow> contents (medium fs') k = contents (medium fs) k"
  shows "held xs fp fs'" and "i < file_room xs fs \<Longrightarrow> file_block contents xs fp fs' i = file_block contents xs fp fs i"
proof -
  note g = file_cong [OF assms(3)] geometry_fields [OF assms(3)]
  have h: "volume_ok nsect fs" "file_ok contents xs fp fs" using assms(1) by (simp_all add: held_def)
  have c: "contents (medium fs') (file_sector xs fs i) = contents (medium fs) (file_sector xs fs i)"
    if "i < file_room xs fs" for i
    using assms(6) [OF file_sector_value(7) [OF h that]] .
  show "file_block contents xs fp fs' i = file_block contents xs fp fs i" if "i < file_room xs fs"
    using c [OF that] by (simp add: file_block_def Let_def g)
  have "fat_chain (fat_of contents fs') (n_fatent fs) xs = fat_chain (fat_of contents fs) (n_fatent fs) xs"
    if "fat_chain (fat_of contents fs) (n_fatent fs) xs"
    using assms(5) fat_chain_range [OF that] by (intro fat_chain_cong) blast
  then have "file_ok contents xs fp fs'"
    using h(2) assms(4) c unfolding file_ok_defs g by (auto split: if_splits)
  then show "held xs fp fs'" using assms(2,3) h(1) volume_ok_cong [OF assms(3)] by (simp add: held_def)
qed

lemma held_kept:
  \<comment> \<open>the table is as it was, and the sectors of the file are\<close>
  assumes "held xs fp fs" and "good fs'" and "geometry fs' = geometry fs" and "winsect fs' \<notin> file_sectors xs fs"
    and "\<And>c. c < n_fatent fs \<Longrightarrow> fat_of contents fs' c = fat_of contents fs c"
    and "\<And>k. k \<in> file_sectors xs fs \<Longrightarrow> contents (medium fs') k = contents (medium fs) k"
    and "keeps_but (\<lambda>k. k \<in> file_sectors xs fs) fs fs'"
  shows "same_file xs fp fs fp fs'"
  using held_view [OF assms(1-6)] assms(3,5,7) by (simp add: same_file_def)

lemma get_fat_same:
  assumes "held xs fp fs" and "get_fat io c fs = (v, fs')"
  shows "same_file xs fp fs fp fs'"
proof -
  have h: "good fs" "fat_ok fs" "layout nsect fs" "file_ok contents xs fp fs"
    using assms(1) by (auto simp: held_def volume_ok_def)
  note s = get_fat_spec [OF h(1,2) assms(2)]
  have geo: "geometry fs' = geometry fs" using s by (blast intro: steady_geometry)
  have off: "winsect fs' \<notin> file_sectors xs fs"
    using get_fat_off_data [OF h(1,2) assms(2)] file_sector_off [OF assms(1)] h(4)
    by (auto simp: off_data_def file_ok_defs)
  have "contents (medium fs') k = contents (medium fs) k" if "k \<in> file_sectors xs fs" for k
  proof -
    note o = file_sector_off [OF assms(1) that]
    have "same_view fs fs'" using s by simp
    then have "view contents fs' k = view contents fs k" using o(1,2) by (simp add: same_view_def)
    moreover have "k \<noteq> winsect fs'" using off that by auto
    ultimately show ?thesis using o(4) by (simp add: view_def)
  qed
  moreover have sv: "same_view fs fs'" "good fs'" using s by simp_all
  ultimately show ?thesis
    by (intro held_kept [OF assms(1) _ geo off same_view_fat_of [OF _ geo h(3,2)] _ same_view_keeps [OF sv(1)]])
qed

end

context stream_disk begin

lemma rewrite_same:
  \<comment> \<open>the drive takes the contents of the dirty cache\<close>
  assumes "held xs fp fs" and "dirty fp" and "ok d" and "contents d (fsect fp) = fbuf fp"
    and "\<And>k. k < nsect \<Longrightarrow> k \<noteq> fsect fp \<Longrightarrow> contents d k = contents (medium fs) k"
  shows "same_file xs fp fs (fp\<lparr>fflag := fflag fp AND NOT FA_DIRTY\<rparr>) (fs\<lparr>medium := d\<rparr>)"
proof -
  let ?fp = "fp\<lparr>fflag := fflag fp AND NOT FA_DIRTY\<rparr>" and ?fs = "fs\<lparr>medium := d\<rparr>"
  have h: "good fs" "volume_ok nsect fs" "file_ok contents xs fp fs" using assms(1) by (simp_all add: held_def)
  have geo: "geometry ?fs = geometry fs" by simp
  note g = file_cong [OF geo] geometry_fields [OF geo]
  have k: "fsect fp \<in> file_sectors xs fs" using h(3) assms(2) by (simp add: file_ok_defs)
  note o = file_sector_off [OF assms(1) k]
  have v: "view contents ?fs j = view contents fs j" if "j < nsect" "j \<noteq> fsect fp" for j
    using assms(5) [OF that] by (simp add: view_def)
  have good: "good ?fs"
    using h(1) assms(3,5) o(4) unfolding good_def window_ok_def geometry_cong [OF geo]
    by auto
  have lay: "layout nsect fs" "fat_ok fs" using h(2) by (simp_all add: volume_ok_def)
  have fat: "fat_of contents ?fs c = fat_of contents fs c" if "c < n_fatent fs" for c
    using v o(3) by (intro fat_of_kept [OF _ geo lay that]) auto
  have b: "file_block contents xs ?fp ?fs i = file_block contents xs fp fs i" if i: "i < file_room xs fs" for i
  proof (cases "file_sector xs fs i = fsect fp")
    case True
    then show ?thesis using assms(2,4) by (simp add: file_block_def Let_def g)
  next
    case False
    then show ?thesis
      using assms(5) [OF file_sector_value(5) [OF h(2,3) i] False] by (simp add: file_block_def Let_def g)
  qed
  have "fat_chain (fat_of contents ?fs) (n_fatent fs) xs = fat_chain (fat_of contents fs) (n_fatent fs) xs"
    if "fat_chain (fat_of contents fs) (n_fatent fs) xs"
    using fat fat_chain_range [OF that] by (intro fat_chain_cong) blast
  then have "file_ok contents xs ?fp ?fs"
    using h(3) assms(4) unfolding file_ok_defs g by (auto split: if_splits)
  moreover have "keeps_but (\<lambda>k. k \<in> file_sectors xs fs) fs ?fs"
    unfolding keeps_but_def using v k by blast
  ultimately show ?thesis
    using b fat good geo h(2) volume_ok_cong [OF geo] by (simp add: same_file_def held_def)
qed

lemma flush_same:
  assumes "held xs fp fs"
  shows "\<exists>fp' fs'. flush_buf io fp fs = (FR_OK, fp', fs') \<and> same_file xs fp fs fp' fs' \<and> \<not> dirty fp' \<and>
    fp' = fp\<lparr>fflag := fflag fp'\<rparr>"
proof (cases "dirty fp")
  case False
  then show ?thesis using same_file_refl [OF assms] by (simp add: flush_buf_def dirty_def)
next
  case True
  have h: "good fs" "file_ok contents xs fp fs" using assms by (simp_all add: held_def)
  have k: "fsect fp \<in> file_sectors xs fs" "length (fbuf fp) = 512" using h(2) True by (simp_all add: file_ok_defs)
  note o = file_sector_off [OF assms k(1)]
  have p: "pdrv fs = 0" "ok (medium fs)" using h(1) by (simp_all add: good_def layout_def window_ok_def)
  obtain d where d: "io_write io 0 (fbuf fp) (fsect fp) 1 (medium fs) = (RES_OK, d)"
    using write_ok [OF p(2) o(1) k(2)] by (metis prod.collapse)
  have l: "ok d" "contents d (fsect fp) = fbuf fp"
      "\<And>j. j < nsect \<Longrightarrow> j \<noteq> fsect fp \<Longrightarrow> contents d j = contents (medium fs) j"
    using write_law [OF p(2) o(1) k(2) d] by auto
  have "flush_buf io fp fs = (FR_OK, fp\<lparr>fflag := fflag fp AND NOT FA_DIRTY\<rparr>, fs\<lparr>medium := d\<rparr>)"
    using True d p(1) by (simp add: flush_buf_def dirty_def)
  with rewrite_same [OF assms True l] show ?thesis by simp
qed

lemma medium_same:
  assumes "held xs fp fs" and "ok d" and "\<forall>k < nsect. contents d k = contents (medium fs) k"
  shows "same_file xs fp fs fp (fs\<lparr>medium := d\<rparr>)"
proof (rule held_kept [OF assms(1)])
  have h: "good fs" "layout nsect fs" "fat_ok fs" "file_ok contents xs fp fs"
    using assms(1) by (auto simp: held_def volume_ok_def)
  show geo: "geometry (fs\<lparr>medium := d\<rparr>) = geometry fs" by simp
  show "good (fs\<lparr>medium := d\<rparr>)"
    using h(1) assms(2,3) unfolding good_def window_ok_def geometry_cong [OF geo] by auto
  show "winsect (fs\<lparr>medium := d\<rparr>) \<notin> file_sectors xs fs" using h(4) by (simp add: file_ok_defs)
  show "fat_of contents (fs\<lparr>medium := d\<rparr>) c = fat_of contents fs c" if "c < n_fatent fs" for c
    using assms(3) by (intro fat_of_kept [OF _ geo h(2,3) that]) (auto simp: view_def)
  show "contents (medium (fs\<lparr>medium := d\<rparr>)) k = contents (medium fs) k" if "k \<in> file_sectors xs fs" for k
    using assms(3) file_sector_off(1) [OF assms(1) that] by simp
  show "keeps_but (\<lambda>k. k \<in> file_sectors xs fs) fs (fs\<lparr>medium := d\<rparr>)"
    using assms(3) by (simp add: keeps_but_def view_def)
qed

lemma load_same:
  assumes "held xs fp fs" and "\<not> dirty fp" and "i < file_room xs fs"
  shows "\<exists>fs'. load_buf io (file_sector xs fs i) fp fs =
      (FR_OK, fp\<lparr>fbuf := file_block contents xs fp fs i\<rparr>, fs') \<and>
    same_file xs fp fs (fp\<lparr>fbuf := file_block contents xs fp fs i, fsect := file_sector xs fs i\<rparr>) fs'"
proof -
  let ?k = "file_sector xs fs i"
  have h: "good fs" "volume_ok nsect fs" "file_ok contents xs fp fs" using assms(1) by (simp_all add: held_def)
  note v = file_sector_value [OF h(2,3) assms(3)]
  note o = file_sector_off [OF assms(1) v(7)]
  have p: "pdrv fs = 0" "ok (medium fs)" using h(1) by (simp_all add: good_def layout_def window_ok_def)
  obtain bs d where d: "io_read io 0 ?k 1 (medium fs) = (RES_OK, bs, d)"
    using read_ok [OF p(2) o(1)] by (metis prod.collapse)
  have l: "ok d" "\<forall>j < nsect. contents d j = contents (medium fs) j" "bs = contents (medium fs) ?k"
    using read_law [OF p(2) d] o(1) by auto
  have b: "file_block contents xs fp fs i = bs" using assms(2) l(3) by (simp add: file_block_def Let_def)
  have "length (fbuf fp) = 512" using h(3) by (simp add: file_ok_defs)
  then have "load_buf io ?k fp fs = (FR_OK, fp\<lparr>fbuf := bs\<rparr>, fs\<lparr>medium := d\<rparr>)"
    using d p(1) l(3) o(5) by (simp add: load_buf_def store_at_def)
  moreover have "same_file xs fp fs (fp\<lparr>fbuf := bs, fsect := ?k\<rparr>) (fs\<lparr>medium := d\<rparr>)"
  proof -
    have m: "same_file xs fp fs fp (fs\<lparr>medium := d\<rparr>)" by (rule medium_same [OF assms(1) l(1,2)])
    have "geometry (fs\<lparr>medium := d\<rparr>) = geometry fs" by simp
    note g = file_cong [OF this]
    have nd: "\<not> dirty (fp\<lparr>fbuf := bs, fsect := ?k\<rparr>)" using assms(2) by (simp add: dirty_def)
    have "contents d ?k = contents (medium fs) ?k" using l(2) o(1) by blast
    then have "file_ok contents xs (fp\<lparr>fbuf := bs, fsect := ?k\<rparr>) (fs\<lparr>medium := d\<rparr>)"
      using m nd assms(2) l(3) o(5) by (auto simp: same_file_def held_def file_ok_defs)
    then show ?thesis
      using m nd assms(2) by (simp add: same_file_def held_def file_block_def Let_def)
  qed
  ultimately show ?thesis unfolding b by blast
qed

lemma clean_block:
  assumes "held xs fp fs" and "i < file_room xs fs" and "fsect fp = file_sector xs fs i"
    and "SS * i < unat (objsize (fobj fp))"
  shows "file_block contents xs fp fs i = fbuf fp"
proof -
  have h: "volume_ok nsect fs" "file_ok contents xs fp fs" using assms(1) by (simp_all add: held_def)
  have "\<not> dirty fp \<Longrightarrow> fbuf fp = contents (medium fs) (fsect fp)"
    using h(2) assms(2-4) unfolding file_ok_def cache_ok_def by presburger
  then show ?thesis using assms(3) by (simp add: file_block_def Let_def)
qed

end

section \<open>Reading\<close>

definition file_slice :: "('d \<Rightarrow> u32 \<Rightarrow> byte list) \<Rightarrow> u32 list \<Rightarrow> ffil \<Rightarrow> 'd fatfs \<Rightarrow> nat \<Rightarrow> nat \<Rightarrow> byte list" where
  "file_slice contents xs fp fs p n = map (file_byte contents xs fp fs) [p..<p + n]"

lemma file_slice_bytes:
  "p + n \<le> unat (objsize (fobj fp)) \<Longrightarrow>
   file_slice contents xs fp fs p n = take n (drop p (file_bytes contents xs fp fs))"
  by (rule nth_equalityI) (simp_all add: file_slice_def file_bytes_def)

lemma file_slice_length [simp]: "length (file_slice contents xs fp fs p n) = n"
  by (simp add: file_slice_def)

lemma file_slice_nth: "m < n \<Longrightarrow> file_slice contents xs fp fs p n ! m = file_byte contents xs fp fs (p + m)"
  by (simp add: file_slice_def)

lemma file_slice_append:
  "file_slice contents xs fp fs p (m + n) = file_slice contents xs fp fs p m @ file_slice contents xs fp fs (p + m) n"
  unfolding file_slice_def add.assoc [symmetric] by (subst upt_add_eq_append) simp_all

lemma pred_div:
  fixes m n :: nat
  assumes "0 < n" and "0 < m"
  shows "(m - 1) div n = (if m mod n = 0 then m div n - 1 else m div n)"
  using assms div_Suc [of "m - 1" n] mod_Suc [of "m - 1" n] by (auto split: if_splits)

lemma sector_of_pos:
  fixes p n c :: nat
  shows "0 < n \<Longrightarrow> p mod SS + n \<le> SS \<Longrightarrow> (p + n - 1) div SS = p div SS"
    and "p div (c * SS) = p div SS div c" and "(p + SS * n) div SS = p div SS + n"
    and "p mod SS + n < SS \<Longrightarrow> (p + n) div SS = p div SS"
proof -
  have d: "(p + k) div SS = p div SS" if "p mod SS + k < SS" for k
  proof -
    have "p + k = (p mod SS + k) + p div SS * SS" by simp
    then have "(p + k) div SS = (p mod SS + k) div SS + p div SS" by (metis div_mult_self1 zero_neq_numeral add.commute)
    then show ?thesis using that by simp
  qed
  show "p mod SS + n < SS \<Longrightarrow> (p + n) div SS = p div SS" by (rule d)
  show "0 < n \<Longrightarrow> p mod SS + n \<le> SS \<Longrightarrow> (p + n - 1) div SS = p div SS"
    using d [of "n - 1"] by simp
  show "p div (c * SS) = p div SS div c" by (simp add: div_mult2_eq [symmetric] mult.commute)
  show "(p + SS * n) div SS = p div SS + n" by simp
qed

lemma same_cluster:
  fixes i j c :: nat
  assumes "i mod c + j < c" shows "(i + j) div c = i div c"
proof -
  have e: "i + j = (i mod c + j) + i div c * c" by simp
  show ?thesis using assms by (subst e, subst div_mult_self1) auto
qed

lemma pos_in_sector:
  \<comment> \<open>the pointer after a transfer inside one sector\<close>
  assumes "0 < n" and "p mod SS + n \<le> SS" and "unat (fptr fp) = p + n" and "p + n \<le> unat (objsize (fobj fp))"
    and "fsect fp = file_sector xs fs (p div SS)" and "fclust fp = xs ! (p div SS div unat (csize fs))"
  shows "file_pos xs fp fs"
proof -
  have d: "(p + n - 1) div SS = p div SS" by (rule sector_of_pos(1) [OF assms(1,2)])
  have "(p + n) div SS = p div SS" if "(p + n) mod SS \<noteq> 0"
  proof (rule sector_of_pos(4))
    have "p mod SS + n \<noteq> SS"
    proof
      assume "p mod SS + n = SS"
      then have "p + n = (p div SS + 1) * SS"
        using div_mult_mod_eq [of p SS] unfolding add_mult_distrib by linarith
      then show False using that by simp
    qed
    with assms(2) show "p mod SS + n < SS" by simp
  qed
  then show ?thesis
    using assms(3-6) d unfolding file_pos_def sector_of_pos(2) by (simp add: word_le_nat_alt)
qed

lemma direct_count:
  \<comment> \<open>the number of whole sectors of a direct transfer\<close>
  fixes cs cnt :: u32 and c :: u16
  assumes "0 < unat c" and "unat cs = i mod unat c" and "cnt div 512 \<noteq> 0"
  defines "cc \<equiv> (if cs + cnt div 512 > ucast c then ucast c - cs else cnt div 512)"
  shows "i mod unat c + unat cc \<le> unat c" and "0 < unat cc" and "SS * unat cc \<le> unat cnt"
proof -
  have m: "i mod unat c < unat c" using assms(1) by simp
  have u: "unat (cnt div 512) = unat cnt div SS" by (simp add: unat_div_distrib)
  have "unat c < 2 ^ 16" by (rule order_less_le_trans [OF unsigned_less]) simp
  moreover have "unat cnt div SS < 2 ^ 23" using u32_unat_less [of cnt] by (simp add: div_less_iff_less_mult)
  ultimately have "unat (cs + cnt div 512) = i mod unat c + unat cnt div SS"
    using m assms(2) u by (subst u32_add) simp_all
  moreover have "unat (ucast c - cs) = unat c - i mod unat c"
    using m assms(2) by (subst unat_sub) (simp_all add: word_le_nat_alt)
  moreover have "0 < unat cnt div SS" using assms(3) u by (metis neq0_conv unat_0 word_unat_eq_iff)
  ultimately have c: "i mod unat c + unat cc \<le> unat c" "0 < unat cc" "unat cc \<le> unat cnt div SS"
    using m u by (auto simp: cc_def word_less_nat_alt not_less)
  then show "i mod unat c + unat cc \<le> unat c" "0 < unat cc" by blast+
  show "SS * unat cc \<le> unat cnt" using c(3) div_mult_mod_eq [of "unat cnt" SS] by linarith
qed

context stream_disk begin

lemma same_slice:
  assumes "same_file xs fp fs fp' fs'" and "p + n \<le> SS * file_room xs fs"
  shows "file_slice contents xs fp' fs' p n = file_slice contents xs fp fs p n"
proof (rule nth_equalityI)
  fix m assume "m < length (file_slice contents xs fp' fs' p n)"
  then have m: "m < n" by simp
  then have "(p + m) div SS < file_room xs fs" using assms(2) by (simp add: div_less_iff_less_mult)
  with m assms(1) show "file_slice contents xs fp' fs' p n ! m = file_slice contents xs fp fs p n ! m"
    by (simp add: file_slice_nth file_byte_def same_file_def)
qed simp

lemma held_fields:
  assumes "held xs fp fs" and "fptr fp < objsize (fobj fp)"
  shows "unat (fptr fp) div SS < file_room xs fs" and "0 < unat (csize fs)"
    and "unat (fptr fp div 512 AND (ucast (csize fs) - 1)) = unat (fptr fp) div SS mod unat (csize fs)"
proof -
  have h: "volume_ok nsect fs" "file_ok contents xs fp fs" using assms(1) by (simp_all add: held_def)
  have "unat (fptr fp) < unat (objsize (fobj fp))" using assms(2) by (simp add: word_less_nat_alt)
  also have "\<dots> \<le> SS * file_room xs fs" using h(2) by (simp add: file_ok_defs)
  finally show "unat (fptr fp) div SS < file_room xs fs" by (simp add: div_less_iff_less_mult)
  have c: "csize fs AND (csize fs - 1) = 0" "csize fs \<noteq> 0" using h(1) by (simp_all add: volume_ok_def)
  then show "0 < unat (csize fs)" by (simp add: unat_gt_0)
  show "unat (fptr fp div 512 AND (ucast (csize fs) - 1)) = unat (fptr fp) div SS mod unat (csize fs)"
    using mask_of_power [OF c] by (simp add: unat_div_distrib)
qed

lemma chain_entry:
  assumes "held xs fp fs" and "j < length xs"
  shows "2 \<le> xs ! j \<and> xs ! j < n_fatent fs \<and> xs ! j \<noteq> 0xFFFFFFFF"
proof -
  have h: "volume_ok nsect fs" "file_ok contents xs fp fs" using assms(1) by (simp_all add: held_def)
  have "fat_chain (fat_of contents fs) (n_fatent fs) xs" using h(2) assms(2) by (auto simp: file_ok_defs split: if_splits)
  then have r: "2 \<le> xs ! j \<and> xs ! j < n_fatent fs" by (rule fat_chain_range) (use assms(2) in simp)
  have "fat_ok fs" using h(1) by (simp add: volume_ok_def)
  from fat_range(1) [OF this conjunct2 [OF r]] have "xs ! j \<noteq> 0xFFFFFFFF" by auto
  with r show ?thesis by simp
qed

lemma read_clust_same:
  assumes "held xs fp fs" and "file_pos xs fp fs" and "fptr fp < objsize (fobj fp)"
    and "unat (fptr fp) mod SS = 0"
  shows "\<exists>fs'. read_clust io (fptr fp div 512 AND (ucast (csize fs) - 1)) fp fs =
      (FR_OK, fp\<lparr>fclust := xs ! (unat (fptr fp) div SS div unat (csize fs))\<rparr>, fs') \<and>
    same_file xs fp fs fp fs'"
proof -
  let ?p = "unat (fptr fp)" and ?c = "unat (csize fs)"
  let ?cs = "fptr fp div 512 AND (ucast (csize fs) - 1)"
  note f = held_fields [OF assms(1,3)]
  have j: "?p div SS div ?c < length xs"
    using f(1,2) by (simp add: file_room_def div_less_iff_less_mult)
  note e = chain_entry [OF assms(1) j]
  have ok: "file_ok contents xs fp fs" "fat_ok fs" "good fs"
    using assms(1) by (simp_all add: held_def volume_ok_def)
  have chain: "fat_chain (fat_of contents fs) (n_fatent fs) xs" "hd xs = sclust (fobj fp)"
    using ok(1) j by (auto simp: file_ok_defs split: if_splits)
  have pm: "?p mod (SS * ?c) = SS * (?p div SS mod ?c)"
    using assms(4) mod_mult2_eq [of ?p SS ?c] by simp
  have cs0: "?cs = 0 \<longleftrightarrow> ?p div SS mod ?c = 0"
    using f(3) by (metis unat_0 word_unat_eq_iff)
  consider "?cs \<noteq> 0" | "?cs = 0" "?p = 0" | "?cs = 0" "?p \<noteq> 0" by blast
  then show ?thesis
  proof cases
    case 1
    then have "?p div SS mod ?c \<noteq> 0" using cs0 by blast
    then have m: "?p mod (?c * SS) \<noteq> 0" using pm by (simp add: mult.commute)
    then have "?p \<noteq> 0" by (metis mod_0)
    then have "fclust fp = xs ! (?p div SS div ?c)"
      using assms(2) pred_div [of "?c * SS" ?p] f(2) m
      by (simp add: file_pos_def sector_of_pos(2) word_unat_eq_iff)
    then show ?thesis using 1 same_file_refl [OF assms(1)] by (simp add: read_clust_def)
  next
    case 2
    then have "sclust (fobj fp) = xs ! (?p div SS div ?c)"
      using chain(2) j by (simp add: hd_conv_nth)
    moreover have "fptr fp = 0" using 2(2) by (simp add: word_unat_eq_iff)
    moreover have "\<not> xs ! (?p div SS div ?c) < 2" using e by (simp add: not_less)
    ultimately show ?thesis
      using 2(1) e same_file_refl [OF assms(1)] by (simp add: read_clust_def)
  next
    case 3
    let ?q = "?p div SS div ?c"
    have m: "?p mod (?c * SS) = 0" using 3(1) cs0 pm by (simp add: mult.commute)
    then have "?p = (?p div (?c * SS)) * (?c * SS)" by auto
    then have q: "?q \<noteq> 0" using 3(2) unfolding sector_of_pos(2) by (metis mult_0)
    have "fclust fp = xs ! (?q - 1)"
      using assms(2) pred_div [of "?c * SS" ?p] f(2) m 3(2)
      by (simp add: file_pos_def sector_of_pos(2) word_unat_eq_iff)
    moreover have "fat_of contents fs (xs ! (?q - 1)) = xs ! ?q"
      using chain_next [OF chain(1), of "?q - 1"] j q by simp
    moreover have "?q - 1 < length xs" using j by simp
    note e1 = chain_entry [OF assms(1) this]
    ultimately obtain fs' where g: "get_fat io (fclust fp) fs = (xs ! ?q, fs')"
      using get_fat_ok [OF ok(3,2)] e1 by metis
    moreover have "fptr fp \<noteq> 0" using 3(2) by (simp add: word_unat_eq_iff)
    moreover have "\<not> xs ! ?q < 2" using e by (simp add: not_less)
    ultimately show ?thesis
      using 3(1) e get_fat_same [OF assms(1) g] by (simp add: read_clust_def)
  qed
qed

lemma read_direct_same:
  assumes "held xs fp fs" and "i < file_room xs fs" and "i mod unat (csize fs) + unat cc \<le> unat (csize fs)"
    and "cc \<noteq> 0" and "unat br + SS * unat cc \<le> length buff" and "SS * unat cc < 2 ^ 32"
  shows "\<exists>fs'. read_direct io (file_sector xs fs i) cc br buff fp fs =
      (FR_OK, 512 * cc, store_at (unat br) (file_slice contents xs fp fs (SS * i) (SS * unat cc)) buff, fp, fs') \<and>
    same_file xs fp fs fp fs'"
proof -
  let ?k = "file_sector xs fs i" and ?n = "unat cc"
  have h: "good fs" "volume_ok nsect fs" "file_ok contents xs fp fs" using assms(1) by (simp_all add: held_def)
  have p: "pdrv fs = 0" "ok (medium fs)" using h(1) by (simp_all add: good_def layout_def window_ok_def)
  have next_sector: "file_sector xs fs (i + j) = ?k + of_nat j" "i + j < file_room xs fs" if "j < ?n" for j
    using file_sector_next [of i fs j xs] assms(2,3) that by simp_all
  have n0: "0 < ?n" using assms(4) by (simp add: unat_gt_0)
  note v = file_sector_value [OF h(2,3) assms(2)]
  have in_range: "unat ?k + ?n \<le> unat nsect"
    using v(3) cluster_sector(2) [OF h(2) conjunct1 [OF v(2)] conjunct2 [OF v(2)]] assms(3) by linarith
  obtain d where d: "io_read io 0 ?k cc (medium fs) = (RES_OK, sectors (contents (medium fs)) ?k ?n, d)"
      "ok d" "\<forall>j < nsect. contents d j = contents (medium fs) j"
    using read_many [OF p(2) assms(4) in_range] by blast
  let ?bs = "sectors (contents (medium fs)) ?k ?n"
  have len: "length (contents (medium fs) (?k + of_nat j)) = SS" if "j < ?n" for j
    using file_sector_off(5) [OF assms(1) file_sector_value(7) [OF h(2,3) next_sector(2) [OF that]]]
      next_sector(1) [OF that] by simp
  have bs: "length ?bs = ?n * SS"
      "\<And>m. m < ?n * SS \<Longrightarrow> ?bs ! m = contents (medium fs) (?k + of_nat (m div SS)) ! (m mod SS)"
    using concat_blocks [of ?n "\<lambda>j. contents (medium fs) (?k + of_nat j)" SS] len by (simp_all add: sectors_def)
  let ?D = "dirty fp \<and> fsect fp - ?k < cc" and ?d = "unat (fsect fp - ?k)"
  have fb: "length (fbuf fp) = SS" using h(3) by (simp add: file_ok_defs)
  have dn: "?D \<Longrightarrow> ?d < ?n" by (simp add: word_less_nat_alt)
  have same: "fsect fp = ?k + of_nat j \<longleftrightarrow> ?d = j" if "j < ?n" for j
  proof -
    have "unat (of_nat j :: u32) = j" using that u32_unat_less [of cc] by (intro u32_of_nat) simp
    then have "?d = j \<longleftrightarrow> fsect fp - ?k = of_nat j" by (metis word_unat_eq_iff)
    then show ?thesis by (auto simp: algebra_simps)
  qed
  have slice: "file_slice contents xs fp fs (SS * i) (SS * ?n) ! m =
      (if ?D \<and> ?d = m div SS then fbuf fp ! (m mod SS) else ?bs ! m)" if m: "m < ?n * SS" for m
  proof -
    have j: "m div SS < ?n" using m by (simp add: div_less_iff_less_mult)
    have "?d = m div SS \<Longrightarrow> fsect fp - ?k < cc" using j by (simp add: word_less_nat_alt)
    then show ?thesis
      using m bs(2) [OF m] same [OF j] next_sector [OF j]
      by (auto simp: file_slice_nth file_byte_def file_block_def Let_def mult.commute)
  qed
  have merged: "(if ?D then store_at (?d * SS) (fbuf fp) ?bs else ?bs) = file_slice contents xs fp fs (SS * i) (SS * ?n)"
  proof (rule nth_equalityI)
    have r: "?d * SS + length (fbuf fp) \<le> length ?bs" if "?D" using dn [OF that] bs(1) fb by simp
    show "length (if ?D then store_at (?d * SS) (fbuf fp) ?bs else ?bs) =
        length (file_slice contents xs fp fs (SS * i) (SS * ?n))"
      using r bs(1) by simp
    fix m assume "m < length (if ?D then store_at (?d * SS) (fbuf fp) ?bs else ?bs)"
    then have m: "m < ?n * SS" using r bs(1) by (simp split: if_splits)
    have "?d * SS \<le> m \<and> m < ?d * SS + SS \<longleftrightarrow> ?d = m div SS"
      using div_nat_eqI [of SS ?d m] div_mult_mod_eq [of m SS] mod_less_divisor [of SS m]
      by (auto simp: mult.commute)
    moreover have "m - m div SS * SS = m mod SS" using div_mult_mod_eq [of m SS] by linarith
    then have "?d = m div SS \<Longrightarrow> m - ?d * SS = m mod SS" by simp
    ultimately show "(if ?D then store_at (?d * SS) (fbuf fp) ?bs else ?bs) ! m =
        file_slice contents xs fp fs (SS * i) (SS * ?n) ! m"
      using slice [OF m] nth_store_at [OF r, of m] fb by auto
  qed
  have "unat ((fsect fp - ?k) * 512) = ?d * SS" if "?D"
    using dn [OF that] assms(6) by (subst unat_mult_lem [THEN iffD1]) simp_all
  moreover have "store_at (unat br + ?d * SS) (fbuf fp) (store_at (unat br) ?bs buff) =
      store_at (unat br) (store_at (?d * SS) (fbuf fp) ?bs) buff" if "?D"
    by (rule nth_equalityI) (use assms(5) dn [OF that] bs(1) fb in \<open>auto simp: nth_store_at\<close>)
  ultimately have "read_direct io ?k cc br buff fp fs =
      (FR_OK, 512 * cc, store_at (unat br) (file_slice contents xs fp fs (SS * i) (SS * ?n)) buff, fp, fs\<lparr>medium := d\<rparr>)"
    using d(1) p(1) merged by (auto simp: read_direct_def Let_def dirty_def split: if_splits)
  with medium_same [OF assms(1) d(2,3)] show ?thesis by blast
qed

text \<open>The sector cache on the sector \<open>i\<close> of the file.\<close>

lemma cache_same:
  assumes "held xs fp fs" and "i < file_room xs fs"
  shows "\<exists>fp' fs'. (if fsect fp \<noteq> file_sector xs fs i then
        (case flush_buf io fp fs of
           (res, fp, fs') \<Rightarrow> if res \<noteq> FR_OK then (res, fp, fs') else load_buf io (file_sector xs fs i) fp fs')
      else (FR_OK, fp, fs)) = (FR_OK, fp', fs') \<and>
    same_file xs fp fs (fp'\<lparr>fsect := file_sector xs fs i\<rparr>) fs' \<and>
    fobj fp' = fobj fp \<and> fptr fp' = fptr fp \<and> fclust fp' = fclust fp"
proof (cases "fsect fp = file_sector xs fs i")
  case True
  have e: "fp\<lparr>fsect := file_sector xs fs i\<rparr> = fp" using True by (cases fp) simp
  show ?thesis
    by (rule exI [of _ fp], rule exI [of _ fs], unfold e) (use True same_file_refl [OF assms(1)] in simp)
next
  case False
  obtain fp1 fs1 where f: "flush_buf io fp fs = (FR_OK, fp1, fs1)" "same_file xs fp fs fp1 fs1" "\<not> dirty fp1"
      "fp1 = fp\<lparr>fflag := fflag fp1\<rparr>"
    using flush_same [OF assms(1)] by blast
  have g: "geometry fs1 = geometry fs" "held xs fp1 fs1" using f(2) by (simp_all add: same_file_def)
  note c = file_cong [OF g(1)]
  obtain fs2 where l: "load_buf io (file_sector xs fs i) fp1 fs1 =
        (FR_OK, fp1\<lparr>fbuf := file_block contents xs fp1 fs1 i\<rparr>, fs2)"
      "same_file xs fp1 fs1 (fp1\<lparr>fbuf := file_block contents xs fp1 fs1 i, fsect := file_sector xs fs i\<rparr>) fs2"
    using load_same [OF g(2) f(3), of i] assms(2) c by auto
  have "fobj fp1 = fobj fp" "fptr fp1 = fptr fp" "fclust fp1 = fclust fp" by (subst f(4), simp)+
  with False f(1) l(1) same_file_trans [OF f(2) l(2)] show ?thesis by (simp add: c)
qed

lemma read_part_same:
  assumes "held xs fp fs" and "unat (fptr fp) + unat btr \<le> unat (objsize (fobj fp))" and "btr \<noteq> 0"
    and "fsect fp = file_sector xs fs (unat (fptr fp) div SS)"
    and "fclust fp = xs ! (unat (fptr fp) div SS div unat (csize fs))"
  shows "\<exists>n. read_part btr br buff fp =
      (n, store_at (unat br) (file_slice contents xs fp fs (unat (fptr fp)) (unat n)) buff) \<and>
    0 < unat n \<and> unat n \<le> unat btr \<and> file_pos xs (fp\<lparr>fptr := fptr fp + n\<rparr>) fs"
proof -
  let ?p = "unat (fptr fp)" and ?r = "512 - fptr fp mod 512"
  define n where "n = (if ?r > btr then btr else ?r)"
  have m: "unat (fptr fp mod 512) = ?p mod SS" by (simp add: unat_mod_distrib)
  have ml: "?p mod SS < SS" by simp
  have "unat ?r = SS - ?p mod SS" using m by (subst unat_sub) (simp_all add: word_le_nat_alt)
  then have n: "0 < unat n" "unat n \<le> unat btr" "?p mod SS + unat n \<le> SS"
    using assms(3) ml by (auto simp: n_def word_less_nat_alt unat_gt_0 not_less)
  have b: "btr > 0" using assms(3) by (simp add: word_neq_0_conv)
  have lt: "fptr fp < objsize (fobj fp)"
    using assms(2) b by (simp add: word_less_nat_alt)
  have buf: "file_block contents xs fp fs (?p div SS) = fbuf fp"
  proof (rule clean_block [OF assms(1) held_fields(1) [OF assms(1) lt] assms(4)])
    show "SS * (?p div SS) < unat (objsize (fobj fp))"
      using lt times_div_less_eq_dividend [of SS ?p] by (simp only: word_less_nat_alt)
  qed
  have len: "length (fbuf fp) = SS" using assms(1) by (simp add: held_def file_ok_defs)
  have in_sector: "(?p + k) div SS = ?p div SS" "(?p + k) mod SS = ?p mod SS + k" if "k < unat n" for k
  proof -
    show d: "(?p + k) div SS = ?p div SS" using that n(3) by (intro sector_of_pos(4)) simp
    show "(?p + k) mod SS = ?p mod SS + k"
      using div_mult_mod_eq [of "?p + k" SS] div_mult_mod_eq [of ?p SS] unfolding d by linarith
  qed
  have "take (unat n) (drop (?p mod SS) (fbuf fp)) = file_slice contents xs fp fs ?p (unat n)"
    using n len in_sector buf by (intro nth_equalityI) (simp_all add: file_slice_nth file_byte_def)
  then have r: "read_part btr br buff fp = (n, store_at (unat br) (file_slice contents xs fp fs ?p (unat n)) buff)"
    using m by (simp add: read_part_def Let_def n_def)
  have "?p + unat n < 2 ^ 32" using assms(2) n(2) u32_unat_less [of "objsize (fobj fp)"] by linarith
  then have u: "unat (fptr fp + n) = ?p + unat n" by (rule u32_add)
  have "file_pos xs (fp\<lparr>fptr := fptr fp + n\<rparr>) fs"
    using u assms(2,4,5) n by (intro pos_in_sector [of "unat n" ?p]) simp_all
  with r n show ?thesis by blast
qed

lemma read_chunk_same:
  assumes "held xs fp fs" and "file_pos xs fp fs" and "btr \<noteq> 0"
    and "unat (fptr fp) + unat btr \<le> unat (objsize (fobj fp))" and "unat br + unat btr \<le> length buff"
  shows "\<exists>n fp' fs'. read_chunk io btr br buff fp fs =
      (FR_OK, n, store_at (unat br) (file_slice contents xs fp fs (unat (fptr fp)) (unat n)) buff, fp', fs') \<and>
    0 < unat n \<and> unat n \<le> unat btr \<and> same_file xs fp fs fp' fs' \<and>
    file_pos xs (fp'\<lparr>fptr := fptr fp + n\<rparr>) fs' \<and> fptr fp' = fptr fp \<and> fobj fp' = fobj fp"
proof -
  let ?p = "unat (fptr fp)" and ?c = "unat (csize fs)"
  have b: "0 < unat btr" using assms(3) by (simp add: unat_gt_0)
  then have lt: "fptr fp < objsize (fobj fp)" using assms(4) by (simp add: word_less_nat_alt)
  note f = held_fields [OF assms(1) lt]
  have m: "fptr fp mod 512 = 0 \<longleftrightarrow> ?p mod SS = 0" by (simp add: word_unat_eq_iff unat_mod_distrib)
  show ?thesis
  proof (cases "?p mod SS = 0")
    case False
    then have "fsect fp = file_sector xs fs (?p div SS)" "fclust fp = xs ! (?p div SS div ?c)"
      using assms(2) pred_div [of SS ?p]
      by (auto simp: file_pos_def sector_of_pos(2) word_unat_eq_iff)
    from read_part_same [OF assms(1,4,3) this, of br buff] obtain n where n:
      "read_part btr br buff fp = (n, store_at (unat br) (file_slice contents xs fp fs ?p (unat n)) buff)"
      "0 < unat n" "unat n \<le> unat btr" "file_pos xs (fp\<lparr>fptr := fptr fp + n\<rparr>) fs" by blast
    with False m same_file_refl [OF assms(1)] show ?thesis by (simp add: read_chunk_def)
  next
    case True
    let ?cs = "fptr fp div 512 AND (ucast (csize fs) - 1)"
    define i where "i = ?p div SS"
    have p: "?p = SS * i" using True by (auto simp: i_def)
    let ?x = "xs ! (i div ?c)" and ?k = "file_sector xs fs i"
    let ?fp = "fp\<lparr>fclust := ?x\<rparr>"
    obtain fs1 where c: "read_clust io ?cs fp fs = (FR_OK, ?fp, fs1)" "same_file xs fp fs fp fs1"
      using read_clust_same [OF assms(1,2) lt True] by (auto simp: i_def)
    have g: "geometry fs1 = geometry fs" using c(2) by (simp add: same_file_def)
    note cong = file_cong [OF g] geometry_fields(4) [OF g] geometry_cong(4) [OF g]
    have s1: "same_file xs fp fs ?fp fs1" and h1: "held xs ?fp fs1"
      using c(2) by (simp_all add: same_file_def held_def)
    have i: "i < file_room xs fs" using f(1) by (simp add: i_def)
    have h: "volume_ok nsect fs" "file_ok contents xs fp fs" using assms(1) by (simp_all add: held_def)
    note v = file_sector_value [OF h i]
    note cl = cluster_sector [OF h(1) conjunct1 [OF v(2)] conjunct2 [OF v(2)]]
    have ucs: "unat ?cs = i mod ?c" using f(3) by (simp add: i_def)
    moreover have "?cs = of_nat (unat ?cs)" by simp
    ultimately have cs: "?cs = of_nat (i mod ?c)" "unat ?cs = i mod ?c" by metis+
    have k: "clst2sect ?x fs1 + ?cs = ?k" by (simp add: file_sector_def cong cs(1))
    have "fat_end fs \<le> unat (database fs)" "layout nsect fs" using h(1) by (simp_all add: volume_ok_def)
    then have "unat (clst2sect ?x fs) \<noteq> 0" using cl(1) by (auto simp: layout_def fat_end_def)
    then have k0: "clst2sect ?x fs1 \<noteq> 0" unfolding cong by auto
    let ?cc = "btr div 512"
    have ucc: "unat ?cc = unat btr div SS" by (simp add: unat_div_distrib)
    show ?thesis
    proof (cases "?cc = 0")
      case True
      obtain fp2 fs2 where d: "(if fsect fp \<noteq> ?k then
          (case flush_buf io ?fp fs1 of
             (res, fp, fs) \<Rightarrow> if res \<noteq> FR_OK then (res, fp, fs) else load_buf io ?k fp fs)
          else (FR_OK, ?fp, fs1)) = (FR_OK, fp2, fs2)"
        "same_file xs ?fp fs1 (fp2\<lparr>fsect := ?k\<rparr>) fs2" "fobj fp2 = fobj fp" "fptr fp2 = fptr fp" "fclust fp2 = ?x"
        using cache_same [OF h1, of i] i unfolding cong by auto
      let ?fp2 = "fp2\<lparr>fsect := ?k\<rparr>"
      have g2: "geometry fs2 = geometry fs" "held xs ?fp2 fs2" using d(2) g by (simp_all add: same_file_def)
      note cong2 = file_cong [OF g2(1)] geometry_fields(4) [OF g2(1)]
      have s2: "same_file xs fp fs ?fp2 fs2" by (rule same_file_trans [OF s1 d(2)])
      obtain n where n: "read_part btr br buff ?fp2 =
          (n, store_at (unat br) (file_slice contents xs ?fp2 fs2 ?p (unat n)) buff)"
        "0 < unat n" "unat n \<le> unat btr" "file_pos xs (?fp2\<lparr>fptr := fptr fp + n\<rparr>) fs2"
        using read_part_same [OF g2(2), of btr br buff] assms(3,4) d(3-5) by (auto simp: cong2 i_def)
      have "?p + unat n \<le> SS * file_room xs fs" using n(3) assms(4) h(2) by (simp add: file_ok_defs)
      note sl = same_slice [OF s2 this]
      have "read_chunk io btr br buff fp fs =
          (FR_OK, n, store_at (unat br) (file_slice contents xs fp fs ?p (unat n)) buff, ?fp2, fs2)"
        using \<open>?p mod SS = 0\<close> m c(1) k k0 True d(1) n(1) unfolding read_chunk_def Let_def sl
        by (simp split del: if_split cong: if_cong)
      with n(2-4) s2 d(3,4) show ?thesis by auto
    next
      case False
      define cc where "cc = (if ?cs + ?cc > ucast (csize fs1) then ucast (csize fs1) - ?cs else ?cc)"
      have pos: "?cc > 0" using False by (simp add: word_neq_0_conv)
      note dc = direct_count [OF f(2) cs(2) False, folded cc_def [unfolded geometry_fields(4) [OF g]]]
      note cc = dc(1,2) and bd = dc(3)
      have bd2: "SS * unat cc < 2 ^ 32" "unat br + SS * unat cc \<le> length buff"
        using bd u32_unat_less [of btr] assms(5) by linarith+
      have n: "unat (512 * cc) = SS * unat cc" using bd2(1) by (subst unat_mult_lem [THEN iffD1]) simp_all
      obtain fs2 where d: "read_direct io ?k cc br buff ?fp fs1 = (FR_OK, 512 * cc,
            store_at (unat br) (file_slice contents xs ?fp fs1 (SS * i) (SS * unat cc)) buff, ?fp, fs2)"
          "same_file xs ?fp fs1 ?fp fs2"
        using read_direct_same [OF h1, of i cc br buff] i cc bd2 unfolding cong by (auto simp: unat_gt_0)
      have s2: "same_file xs fp fs ?fp fs2" by (rule same_file_trans [OF s1 d(2)])
      have "?p + SS * unat cc \<le> SS * file_room xs fs" using bd assms(4) h(2) by (simp add: file_ok_defs)
      note sl = same_slice [OF s1 this]
      have "read_chunk io btr br buff fp fs = (FR_OK, 512 * cc,
          store_at (unat br) (file_slice contents xs fp fs ?p (SS * unat cc)) buff, ?fp, fs2)"
        using \<open>?p mod SS = 0\<close> m c(1) k k0 pos d(1) [folded p, unfolded sl] unfolding read_chunk_def Let_def cc_def
        by (simp split del: if_split cong: if_cong)
      moreover have "file_pos xs (?fp\<lparr>fptr := fptr fp + 512 * cc\<rparr>) fs2"
      proof -
        have u: "unat (fptr fp + 512 * cc) = SS * (i + unat cc)"
          using p n bd assms(4) u32_unat_less [of "objsize (fobj fp)"] by (subst u32_add) simp_all
        have "(SS * (i + unat cc) - 1) div SS = i + unat cc - 1"
          using cc(2) pred_div [of SS "SS * (i + unat cc)"] by simp
        moreover have "(i + unat cc - 1) div ?c = i div ?c"
          using same_cluster [of i ?c "unat cc - 1"] cc(1,2) by simp
        moreover have g2: "geometry fs2 = geometry fs" using s2 by (simp add: same_file_def)
        ultimately show ?thesis
          using u bd assms(4) p unfolding file_cong(4) [OF g2]
          by (simp add: file_pos_def sector_of_pos(2) word_le_nat_alt)
      qed
      ultimately show ?thesis using s2 n cc(2) bd by auto
    qed
  qed
qed

lemma read_bytes_same:
  "held xs fp fs \<Longrightarrow> file_pos xs fp fs \<Longrightarrow> unat (fptr fp) + unat btr \<le> unat (objsize (fobj fp)) \<Longrightarrow>
   unat br + unat btr \<le> length buff \<Longrightarrow> unat br + unat btr < 2 ^ 32 \<Longrightarrow>
   \<exists>fp' fs'. read_bytes io btr br buff fp fs = Some (FR_OK, br + btr,
       store_at (unat br) (file_slice contents xs fp fs (unat (fptr fp)) (unat btr)) buff, fp', fs') \<and>
     same_file xs fp fs fp' fs' \<and> file_pos xs fp' fs' \<and> fptr fp' = fptr fp + btr \<and> fobj fp' = fobj fp"
proof (induction "unat btr" arbitrary: btr br buff fp fs rule: less_induct)
  case less
  show ?case
  proof (cases "btr = 0")
    case True
    have "file_slice contents xs fp fs (unat (fptr fp)) 0 = []" by (simp add: file_slice_def)
    with True less.prems(2) same_file_refl [OF less.prems(1)] show ?thesis by (subst read_bytes.simps) simp
  next
    case False
    let ?p = "unat (fptr fp)"
    obtain n fp1 fs1 where c: "read_chunk io btr br buff fp fs =
        (FR_OK, n, store_at (unat br) (file_slice contents xs fp fs ?p (unat n)) buff, fp1, fs1)"
      "0 < unat n" "unat n \<le> unat btr" "same_file xs fp fs fp1 fs1"
      "file_pos xs (fp1\<lparr>fptr := fptr fp + n\<rparr>) fs1" "fptr fp1 = fptr fp" "fobj fp1 = fobj fp"
      using read_chunk_same [OF less.prems(1,2) False less.prems(3,4)] by blast
    let ?fp = "fp1\<lparr>fptr := fptr fp + n\<rparr>" and ?buff = "store_at (unat br) (file_slice contents xs fp fs ?p (unat n)) buff"
    have u: "unat (btr - n) = unat btr - unat n" "unat (br + n) = unat br + unat n"
        "unat (fptr fp + n) = ?p + unat n"
      using c(3) less.prems(3,5) u32_unat_less [of "objsize (fobj fp)"]
      by (simp_all add: unat_sub word_le_nat_alt u32_add)
    have h: "held xs ?fp fs1" "same_file xs fp fs ?fp fs1" using c(4) by (simp_all add: same_file_def held_def)
    have len: "length ?buff = length buff" using c(3) less.prems(4) by simp
    obtain fp2 fs2 where r: "read_bytes io (btr - n) (br + n) ?buff ?fp fs1 = Some (FR_OK, br + n + (btr - n),
         store_at (unat (br + n)) (file_slice contents xs ?fp fs1 (unat (fptr fp + n)) (unat (btr - n))) ?buff, fp2, fs2)"
      "same_file xs ?fp fs1 fp2 fs2" "file_pos xs fp2 fs2" "fptr fp2 = fptr fp + n + (btr - n)" "fobj fp2 = fobj fp"
      using less.hyps [OF _ h(1) c(5), of "btr - n" "br + n" ?buff] c(2,3,7) less.prems(3-5) len
      by (auto simp: u)
    have "unat (objsize (fobj fp)) \<le> SS * file_room xs fs" using less.prems(1) by (simp add: held_def file_ok_defs)
    then have sl: "file_slice contents xs ?fp fs1 (?p + unat n) (unat btr - unat n) =
        file_slice contents xs fp fs (?p + unat n) (unat btr - unat n)"
      using c(3) less.prems(3) by (intro same_slice [OF h(2)]) simp
    have "store_at (unat br + unat n) (file_slice contents xs fp fs (?p + unat n) (unat btr - unat n)) ?buff =
        store_at (unat br) (file_slice contents xs fp fs ?p (unat btr)) buff"
      using store_at_append [of "unat br" "file_slice contents xs fp fs ?p (unat n)"
          "file_slice contents xs fp fs (?p + unat n) (unat btr - unat n)" buff]
        file_slice_append [of contents xs fp fs ?p "unat n" "unat btr - unat n"] c(3) less.prems(4) by simp
    then have "read_bytes io btr br buff fp fs = Some (FR_OK, br + btr,
        store_at (unat br) (file_slice contents xs fp fs ?p (unat btr)) buff, fp2, fs2)"
      using False c(1,6) r(1) sl by (subst read_bytes.simps) (simp add: u)
    then show ?thesis using same_file_trans [OF h(2) r(2)] r(3-5) by simp
  qed
qed

end

lemma unlock_volume_vol [simp]: "vol (unlock_volume mx has res s) = vol s"
  by (simp add: unlock_volume_def Let_def)

section \<open>Property\<close>

text \<open>C6: reading a file. On an SD card that keeps the laws of single and multiple block transfers, a
  read of \<open>btr\<close> bytes of an open file delivers the bytes of the file from the pointer on, as many as
  there are up to its end: across sectors and clusters, by whole sectors or through the cache, what the
  cache holds and has not written yet included. The rest of the caller's buffer stays as it was, the
  pointer advances by the bytes read, the contents of the file and the invariants of the volume and
  of the file object are kept.\<close>

theorem f_read_slice:
  assumes "stream_disk io ok contents nsect" and "validate io mx (fobj fp) s = (FR_OK, True, s1)"
    and "ferr fp = FR_OK" and "fflag fp AND FA_READ \<noteq> 0"
    and "volume_ok nsect (vol s1)" and "window_ok ok contents nsect (vol s1)"
    and "file_ok contents xs fp (vol s1)" and "file_pos xs fp (vol s1)"
    and "n = min (unat btr) (unat (objsize (fobj fp)) - unat (fptr fp))" and "n \<le> length buff"
  shows "\<exists>fp' s'. f_read io mx fp buff btr s =
      Some (FR_OK, of_nat n, store_at 0 (take n (drop (unat (fptr fp)) (file_bytes contents xs fp (vol s1)))) buff, fp', s') \<and>
    unat (fptr fp') = unat (fptr fp) + n \<and> fobj fp' = fobj fp \<and>
    file_bytes contents xs fp' (vol s') = file_bytes contents xs fp (vol s1) \<and>
    volume_ok nsect (vol s') \<and> window_ok ok contents nsect (vol s') \<and>
    file_ok contents xs fp' (vol s') \<and> file_pos xs fp' (vol s')"
proof -
  let ?p = "unat (fptr fp)" and ?o = "unat (objsize (fobj fp))" and ?m = "of_nat n :: u32"
  note fd = reliable_disk.axioms(1) [OF stream_disk.axioms(1) [OF assms(1)]]
  have h: "fat_disk.held ok contents nsect xs fp (vol s1)"
  proof -
    have "layout nsect (vol s1)" using assms(5) by (simp add: volume_ok_def)
    then show ?thesis using assms(5-7) by (simp add: fat_disk.held_def [OF fd] fat_disk.good_def [OF fd])
  qed
  have le: "?p \<le> ?o" using assms(8) by (simp add: file_pos_def word_le_nat_alt)
  have n32: "n < 2 ^ 32" using assms(9) u32_unat_less [of btr] by simp
  then have um: "unat ?m = n" by (rule u32_of_nat)
  have pn: "?p + n \<le> ?o" using assms(9) le by linarith
  have "unat (objsize (fobj fp) - fptr fp) = ?o - ?p" using le by (simp add: unat_sub word_le_nat_alt)
  then have btr: "(if btr > objsize (fobj fp) - fptr fp then objsize (fobj fp) - fptr fp else btr) = ?m"
    using assms(9) um by (simp add: word_unat_eq_iff word_less_nat_alt min_def)
  obtain fp' fs' where r: "read_bytes io ?m 0 buff fp (vol s1) =
        Some (FR_OK, ?m, store_at 0 (file_slice contents xs fp (vol s1) ?p n) buff, fp', fs')"
      "fat_disk.same_file ok contents nsect xs fp (vol s1) fp' fs'" "file_pos xs fp' fs'"
      "fptr fp' = fptr fp + ?m" "fobj fp' = fobj fp"
    using stream_disk.read_bytes_same [OF assms(1) h assms(8), of ?m 0 buff] um n32 assms(10) pn by auto
  have u: "unat (fptr fp') = ?p + n"
    using r(4) um pn u32_unat_less [of "objsize (fobj fp)"] by (simp add: u32_add)
  have "f_read io mx fp buff btr s = Some (FR_OK, ?m, store_at 0 (file_slice contents xs fp (vol s1) ?p n) buff, fp',
      unlock_volume mx True FR_OK (s1\<lparr>vol := fs'\<rparr>))"
    using assms(2-4) r(1) btr by (simp add: f_read_def Let_def)
  moreover have "file_slice contents xs fp (vol s1) ?p n = take n (drop ?p (file_bytes contents xs fp (vol s1)))"
    using pn by (rule file_slice_bytes)
  moreover have "file_bytes contents xs fp' fs' = file_bytes contents xs fp (vol s1)"
  proof -
    have "file_bytes contents xs f fs = file_slice contents xs f fs 0 (unat (objsize (fobj f)))" for f fs
      by (simp add: file_bytes_def file_slice_def)
    moreover have "?o \<le> SS * file_room xs (vol s1)" using assms(7) by (simp add: file_ok_defs)
    ultimately show ?thesis using stream_disk.same_slice [OF assms(1) r(2), of 0 ?o] r(5) by simp
  qed
  ultimately show ?thesis
    using r(2,3,5) u by (simp add: fat_disk.same_file_def [OF fd] fat_disk.held_def [OF fd] fat_disk.good_def [OF fd])
qed

text \<open>A file of ten bytes in one cluster, its sector cached and not yet written.\<close>

definition sample_file_system :: "(sim_card disk, kernel ff_state) ffsys" where
  "sample_file_system =
    \<lparr>vol = sample_file_volume\<lparr>n_rootdir := 0\<rparr>, FatFs = True, Fsid = 1, CurrVol = 0, Files = [], SysLock = 1,
     mutexes = ([Some 0, Some 1], \<lparr>k_alive = [1, 0], k_held = [], k_next = 2\<rparr>)\<rparr>"

definition sample_file :: ffil where
  "sample_file =
    \<lparr>fobj = \<lparr>obj_fs = True, obj_id = 1, obj_attr = 0, obj_stat = 0, sclust = 5, objsize = 10, lockid = 0\<rparr>,
     fflag = 0x83, ferr = FR_OK, fptr = 3, fclust = 5, fsect = 8, dir_sect = 0, dir_ptr = 0,
     fbuf = [0x61, 0x62, 0x63, 0x64, 0x65] @ replicate 507 0\<rparr>"

lemma sample_file_system_ok:
  "volume_ok 1000 (vol sample_file_system)"
  "window_ok (disk_ok sim_busy 2 0x18) (disk_contents sim_mem) 1000 (vol sample_file_system)"
  "file_ok (disk_contents sim_mem) [5] sample_file (vol sample_file_system)"
  "file_pos [5] sample_file (vol sample_file_system)"
proof -
  let ?v = "sample_file_volume\<lparr>n_rootdir := 0\<rparr>"
  have f: "fat_of (disk_contents sim_mem) ?v 5 = 0x0FFFFFFF"
    using sample_file_volume_fat [of 5] by (simp add: fat_of_def fat_byte_def [abs_def] view_def [abs_def] cong: if_cong)
  note d = sample_file_system_def sample_file_def sample_file_volume_def sample_volume_def
  show "volume_ok 1000 (vol sample_file_system)"
    by (simp add: d volume_ok_def layout_def fat_ok_def fat_end_def table_bytes_def fat_limit_def)
  show "window_ok (disk_ok sim_busy 2 0x18) (disk_contents sim_mem) 1000 (vol sample_file_system)"
    using sample_file_volume_ok(2) by (simp add: sample_file_system_def window_ok_def shadow_def fat_end_def)
  have s: "file_sectors [5] ?v = {8}"
    by (simp add: file_sectors_def file_sector_def clst2sect_def Let_def d lessThan_Suc)
  show "file_ok (disk_contents sim_mem) [5] sample_file (vol sample_file_system)"
    using f s by (simp add: file_ok_defs sample_file_system_def sample_file_def dirty_def file_room_def)
      (simp add: d)
  show "file_pos [5] sample_file (vol sample_file_system)"
    by (simp add: file_pos_def d file_sector_def clst2sect_def Let_def)
qed

lemma sample_file_valid:
  obtains s1 where
    "validate (sd_io sim_api) (os_mutex kernel_api) (fobj sample_file) sample_file_system = (FR_OK, True, s1)"
    "vol s1 = vol sample_file_system"
proof -
  obtain k where k: "ff_lock kernel_api 0 (mutexes sample_file_system) = (True, k)"
    by (simp add: ff_lock_def ff_mutex_take_def kernel_api_def sample_file_system_def)
  let ?s = "sample_file_system\<lparr>mutexes := k\<rparr>"
  have m: "mx_take (os_mutex kernel_api) 0 (mutexes sample_file_system) = (True, k)"
    using k by (simp add: os_mutex_def)
  have d: "io_status (sd_io sim_api) 0 (medium (vol ?s)) = (0, medium (vol ?s))"
    by (simp add: sd_io_def disk_status_def sim_api_def sample_file_system_def sample_file_volume_def sample_volume_def)
  have f: "fs_type (vol sample_file_system) = 3" "pdrv (vol sample_file_system) = 0" "ldrv (vol sample_file_system) = 0"
      "fs_id (vol sample_file_system) = 1" "obj_fs (fobj sample_file)" "obj_id (fobj sample_file) = 1"
    by (simp_all add: sample_file_system_def sample_file_volume_def sample_volume_def sample_file_def)
  have "validate (sd_io sim_api) (os_mutex kernel_api) (fobj sample_file) sample_file_system = (FR_OK, True, ?s)"
    using d f m by (simp add: validate_def lock_volume_def)
  then show thesis by (rule that) simp
qed

theorem f_read_slice_witness:
  "\<exists>fp' s'. f_read (sd_io sim_api) (os_mutex kernel_api) sample_file [0, 0, 0, 0] 2 sample_file_system =
     Some (FR_OK, 2, [0x64, 0x65, 0, 0], fp', s') \<and> unat (fptr fp') = 5"
proof -
  obtain s1 where v: "validate (sd_io sim_api) (os_mutex kernel_api) (fobj sample_file) sample_file_system = (FR_OK, True, s1)"
      and e: "vol s1 = vol sample_file_system"
    by (rule sample_file_valid)
  have b: "take 2 (drop 3 (file_bytes (disk_contents sim_mem) [5] sample_file (vol sample_file_system))) = [0x64, 0x65]"
    by (simp add: file_bytes_def file_byte_def file_block_def Let_def dirty_def sample_file_def sample_file_system_def
        sample_file_volume_def sample_volume_def file_sector_def clst2sect_def upt_rec)
  have g: "ferr sample_file = FR_OK" "fflag sample_file AND FA_READ \<noteq> 0"
      "unat (fptr sample_file) = 3" "unat (objsize (fobj sample_file)) = 10"
    by (simp_all add: sample_file_def)
  have "(2 :: nat) = min (unat (2 :: u32)) (unat (objsize (fobj sample_file)) - unat (fptr sample_file))"
    unfolding g by simp
  from f_read_slice [OF sim_disk.stream_disk_axioms v g(1,2) sample_file_system_ok [folded e] this, of "[0, 0, 0, 0]",
      unfolded e g b]
  show ?thesis by (auto simp: store_at_def)
qed

end
