(* ===== verification/FatGrow.thy ===== *)
theory FatGrow
  imports FatRead "HOL-Library.Sublist"
begin

text \<open>
  Stretching a file. The first section says where \<open>create_chain\<close> leaves the window: a stale copy of a
  sector of the new cluster in it would be written over the file later. \<open>ext\<close> says what a write leaves
  alone; \<open>grow_file\<close> is the file after a cluster was appended to its chain.
\<close>

section \<open>The window after a cluster was allocated\<close>

context fat_disk begin

definition near :: "'d fatfs \<Rightarrow> 'd fatfs \<Rightarrow> bool" where
  "near fs fs' \<longleftrightarrow> good fs' \<and> geometry fs' = geometry fs \<and> same_view fs fs' \<and> off_data fs fs'"

lemma near_refl: "good fs \<Longrightarrow> near fs fs"
  by (simp add: near_def off_data_def)

lemma near_trans:
  assumes "near a b" and "near b c" shows "near a c"
  using assms same_view_trans [of a b c] off_data_trans [of a b c] by (simp add: near_def)

lemma get_fat_near:
  assumes "good fs" and "fat_ok fs" and "get_fat io c fs = (v, fs')"
  shows "near fs fs'"
  using get_fat_spec [OF assms] get_fat_off_data [OF assms] steady_geometry [of fs' fs] by (simp add: near_def)

lemma near_fat_ok: "near fs fs' \<Longrightarrow> fat_ok fs' = fat_ok fs"
  using fat_ok_cong [of fs' fs] by (simp add: near_def)

lemma find_free_near:
  "find_free io scl ncl fs = Some y \<Longrightarrow> good fs \<Longrightarrow> fat_ok fs \<Longrightarrow> near fs (snd y)"
  apply (drule find_free.raw_induct [where P = "\<lambda>j scl ncl fs y. j = io \<longrightarrow> good fs \<longrightarrow> fat_ok fs \<longrightarrow> near fs (snd y)", rotated])
  subgoal premises IH for f j scl ncl fs y
  proof (intro impI)
    assume h: "j = io" "good fs" "fat_ok fs"
    define m where "m = (if ncl + 1 \<ge> n_fatent fs then 2 else ncl + 1)"
    obtain cs fs1 where g: "get_fat io m fs = (cs, fs1)" by fastforce
    note n = get_fat_near [OF h(2,3) g]
    have "y = (Inl 0, fs) \<or> snd y = fs1 \<or> f io scl m fs1 = Some y"
      using IH(4) g h(1) unfolding Let_def m_def [symmetric] by (auto split: if_splits)
    then show "near fs (snd y)"
    proof (elim disjE)
      assume "f io scl m fs1 = Some y"
      from IH(3) [OF this] n h near_fat_ok [OF n] have "near fs1 (snd y)" by (simp add: near_def)
      with n show ?thesis by (rule near_trans)
    qed (use h n near_refl in auto)
  qed
  by simp

lemma next_free_near:
  assumes "next_free io clst scl fs = Some y" and "good fs" and "fat_ok fs"
  shows "near fs (snd y)"
proof (cases "scl = clst")
  case False
  with assms find_free_near [of scl scl fs y] show ?thesis by (simp add: next_free_def)
next
  case True
  define m where "m = (if scl + 1 \<ge> n_fatent fs then 2 else scl + 1)"
  obtain cs fs1 where g: "get_fat io m fs = (cs, fs1)" by fastforce
  note n = get_fat_near [OF assms(2,3) g]
  have h: "good fs1" "fat_ok fs1" using n near_fat_ok [OF n] assms(3) by (simp_all add: near_def)
  have "snd y = fs1 \<or> (\<exists>s. find_free io s s fs1 = Some y)"
    using assms(1) g unfolding next_free_def True [symmetric] Let_def m_def [symmetric]
    by (auto split: if_splits)
  with n find_free_near [OF _ h, of _ _ y] near_trans [OF n, of "snd y"] show ?thesis by blast
qed

lemma chain_start_near:
  assumes "chain_start io clst fs = (x, fs')" and "good fs" and "fat_ok fs"
  shows "near fs fs'"
proof (cases "clst = 0")
  case True
  with assms near_refl show ?thesis by (simp add: chain_start_def Let_def)
next
  case False
  then have "snd (get_fat io clst fs) = fs'" using assms(1) by (simp add: chain_start_def split_beta)
  then show ?thesis using get_fat_near [OF assms(2,3)] by (metis prod.collapse)
qed

lemma put_fat_winsect:
  assumes "good fs" and "fat_ok fs" and "2 \<le> c" and "c < n_fatent fs" and "put_fat io c v fs = (FR_OK, fs')"
  shows "in_fat fs (winsect fs')"
proof -
  have l: "layout nsect fs" using assms(1) by (simp add: good_def)
  have nc: "c \<ge> 2 \<and> c < n_fatent fs" using assms(3,4) by simp
  note r = fat_range [OF assms(2,4)]
  note o = fat12_offset [OF r(1)] fat16_offset [OF r(1)]
  have to: "winsect fs1 = k" if "move_window io k fs0 = (FR_OK, fs1)" for k fs0 fs1
    using that by (auto simp: move_window_def Let_def split: if_splits prod.splits)
  have base: "fatbase fs1 = fatbase fs0" if "move_window io k fs0 = (r, fs1)" for k fs0 r fs1
    using geometry_fields(8) [OF move_window_keeps [of io k fs0]] that by simp
  have both: "fatbase fs1 = fatbase fs0 \<and> (r = FR_OK \<longrightarrow> winsect fs1 = k)"
    if "move_window io k fs0 = (r, fs1)" for k fs0 r fs1
    using base [OF that] to that by blast
  note s = fat_sector(4) [OF l]
  from assms(2) consider "fs_type fs = FS_FAT12" | "fs_type fs = FS_FAT16" | "fs_type fs = FS_FAT32"
    by (auto simp: fat_ok_def)
  then show ?thesis
  proof cases
    case 1
    from r(2) [OF 1] s [of "unat c + unat c div 2 + 1"]
    have "in_fat fs (fatbase fs + of_nat ((unat c + unat c div 2 + 1) div SS))" by blast
    with assms(5) nc o 1 show ?thesis
      by (auto simp: put_fat12_eq sector_div Let_def dest!: both split: if_splits prod.splits)
  next
    case 2
    with r(3) s [of "2 * unat c"] have "in_fat fs (fatbase fs + of_nat (2 * unat c div SS))" by simp
    with assms(5) nc o 2 show ?thesis
      by (auto simp: put_fat_def sector_div dest!: to split: if_splits prod.splits)
  next
    case 3
    with r(4) s [of "4 * unat c"] have "in_fat fs (fatbase fs + of_nat (4 * unat c div SS))" by simp
    with assms(5) nc o 3 show ?thesis
      by (auto simp: put_fat_def sector_div Let_def dest!: to split: if_splits prod.splits)
  qed
qed

end

context reliable_disk begin

lemma get_fat_no_error:
  assumes "good fs" and "fat_ok fs" and "get_fat io c fs = (v, fs')"
  shows "v \<noteq> 0xFFFFFFFF"
proof (cases "2 \<le> c \<and> c < n_fatent fs")
  case False
  with get_fat_spec [OF assms] show ?thesis by auto
next
  case True
  then have "v = fat_of contents fs c" using get_fat_ok [OF assms(1,2), of c] assms(3) by auto
  moreover have "fat_of contents fs c \<le> 0x0FFFFFFF"
    using assms(2) by (auto simp: fat_of_def fat_ok_def intro: fat_entry_small)
  ultimately show ?thesis by auto
qed

lemma find_free_no_error:
  "find_free io scl ncl fs = Some y \<Longrightarrow> good fs \<Longrightarrow> fat_ok fs \<Longrightarrow> fst y \<noteq> Inl 0xFFFFFFFF"
  apply (drule find_free.raw_induct [where P = "\<lambda>j scl ncl fs y. j = io \<longrightarrow> good fs \<longrightarrow> fat_ok fs \<longrightarrow>
      fst y \<noteq> Inl 0xFFFFFFFF", rotated])
  subgoal premises IH for f j scl ncl fs y
  proof (intro impI)
    assume h: "j = io" "good fs" "fat_ok fs"
    define m where "m = (if ncl + 1 \<ge> n_fatent fs then 2 else ncl + 1)"
    obtain cs fs1 where g: "get_fat io m fs = (cs, fs1)" by fastforce
    note n = get_fat_near [OF h(2,3) g] get_fat_no_error [OF h(2,3) g]
    have "fst y \<noteq> Inl 0xFFFFFFFF \<or> f io scl m fs1 = Some y"
      using IH(4) g h(1) n(2) unfolding Let_def m_def [symmetric] by (auto split: if_splits)
    then show "fst y \<noteq> Inl 0xFFFFFFFF"
    proof
      assume "f io scl m fs1 = Some y"
      from IH(3) [OF this] h near_fat_ok [OF n(1)] n(1) show ?thesis by (simp add: near_def)
    qed
  qed
  by simp

lemma next_free_no_error:
  assumes "next_free io clst scl fs = Some y" and "good fs" and "fat_ok fs"
  shows "fst y \<noteq> Inl 0xFFFFFFFF"
proof (cases "scl = clst")
  case False
  with assms find_free_no_error [of scl scl fs y] show ?thesis by (simp add: next_free_def)
next
  case True
  define m where "m = (if scl + 1 \<ge> n_fatent fs then 2 else scl + 1)"
  obtain cs fs1 where g: "get_fat io m fs = (cs, fs1)" by fastforce
  note n = get_fat_near [OF assms(2,3) g] get_fat_no_error [OF assms(2,3) g]
  have h: "good fs1" "fat_ok fs1" using n near_fat_ok [OF n(1)] assms(3) by (simp_all add: near_def)
  have "fst y \<noteq> Inl 0xFFFFFFFF \<or> (\<exists>s. find_free io s s fs1 = Some y)"
    using assms(1) g n(2) unfolding next_free_def True [symmetric] Let_def m_def [symmetric]
    by (auto split: if_splits)
  with find_free_no_error [OF _ h, of _ _ y] show ?thesis by blast
qed

lemma put_fat_reliable:
  assumes "good fs" and "fat_ok fs" and "put_fat io c v fs = (r, fs')"
  shows "(r = FR_INT_ERR \<and> fs' = fs) \<or>
    (r = FR_OK \<and> in_fat fs (winsect fs') \<and> good fs' \<and> fat_ok fs' \<and> geometry fs' = geometry fs)"
proof (cases "2 \<le> c \<and> c < n_fatent fs")
  case True
  with put_fat_ok [OF assms(1,2), of c v] assms(3) have p: "puts c v fs FR_OK fs'" "r = FR_OK" by auto
  have "in_fat fs (winsect fs')" using put_fat_winsect [OF assms(1,2), of c v fs'] True assms(3) p(2) by simp
  with p puts_fields [OF p(1)] assms(2) show ?thesis by simp
next
  case False
  with assms(3) show ?thesis by (auto simp: put_fat_def)
qed

text \<open>Either nothing was written, or the window is in the table.\<close>

lemma create_chain_near:
  assumes "create_chain io clst fs = Some (v, fs')" and "has_fat fs F"
  shows "v \<noteq> 0xFFFFFFFF \<and> (near fs fs' \<or> in_fat fs (winsect fs') \<and> v \<noteq> 0)"
proof -
  have h: "good fs" "fat_ok fs" using assms(2) by (simp_all add: has_fat_def)
  obtain x fs1 where c: "chain_start io clst fs = (x, fs1)" by fastforce
  note n1 = chain_start_near [OF c h]
  have h1: "good fs1" "fat_ok fs1" using n1 near_fat_ok [OF n1] h by (simp_all add: near_def)
  have x: "x \<noteq> Inl 0xFFFFFFFF"
  proof (cases "clst = 0")
    case True
    then show ?thesis using c by (auto simp: chain_start_def Let_def)
  next
    case False
    obtain cs fs2 where g: "get_fat io clst fs = (cs, fs2)" by fastforce
    from get_fat_no_error [OF h g] c False g show ?thesis by (auto simp: chain_start_def split: if_splits)
  qed
  show ?thesis
  proof (cases x)
    case (Inl w)
    then show ?thesis using assms(1) c n1 x by (simp add: create_chain_def)
  next
    case (Inr scl)
    show ?thesis
    proof (cases "free_clst fs1 = 0")
      case True
      then show ?thesis using assms(1) c n1 Inr by (simp add: create_chain_def)
    next
      case fr: False
      obtain y fs2 where y: "next_free io clst scl fs1 = Some (y, fs2)"
        using assms(1) c Inr fr by (auto simp: create_chain_def bind_eq_Some_conv)
      have n2: "near fs fs2" using next_free_near [OF y h1] near_trans [OF n1] by simp
      have h2: "good fs2" "fat_ok fs2" using n2 near_fat_ok [OF n2] h by (simp_all add: near_def)
      show ?thesis
      proof (cases y)
        case (Inl w)
        then show ?thesis using assms(1) c \<open>x = Inr scl\<close> fr y n2 next_free_no_error [OF y h1] by (simp add: create_chain_def)
      next
        case (Inr ncl)
        obtain r3 fs3 where p3: "put_fat io ncl 0xFFFFFFFF fs2 = (r3, fs3)" by fastforce
        obtain r fs4 where p4: "(if r3 = FR_OK \<and> clst \<noteq> 0 then put_fat io clst ncl fs3 else (r3, fs3)) = (r, fs4)"
          by fastforce
        have v: "v = (if r = FR_OK then ncl else if r = FR_DISK_ERR then 0xFFFFFFFF else 1) \<and>
            winsect fs' = winsect fs4 \<and> (r \<noteq> FR_OK \<longrightarrow> fs' = fs4)"
          using assms(1) c \<open>x = Inr scl\<close> fr y Inr p3 p4 by (auto simp: create_chain_def Let_def)
        have "ncl \<noteq> 0xFFFFFFFF \<and> ncl \<noteq> 0" if "r = FR_OK"
        proof -
          have "r3 = FR_OK" using p4 that by (auto split: if_splits)
          then have n: "2 \<le> ncl" "ncl < n_fatent fs2" using p3 by (auto simp: put_fat_def split: if_splits)
          from fat_range(1) [OF h2(2) n(2)] n(1) show ?thesis by auto
        qed
        moreover have "r \<noteq> FR_DISK_ERR \<and> (fs4 = fs2 \<and> r \<noteq> FR_OK \<or> in_fat fs (winsect fs4))"
        proof (cases "r3 = FR_OK")
          case False
          then show ?thesis using put_fat_reliable [OF h2 p3] p4 by auto
        next
          case True
          have g2: "geometry fs2 = geometry fs" using n2 by (simp add: near_def)
          have p: "in_fat fs (winsect fs3)" "good fs3" "fat_ok fs3" "geometry fs3 = geometry fs"
            using put_fat_reliable [OF h2 p3] True g2 in_fat_cong [OF g2] by simp_all
          show ?thesis
          proof (cases "clst = 0")
            case True
            then show ?thesis using p4 \<open>r3 = FR_OK\<close> p(1) by simp
          next
            case False
            then have "put_fat io clst ncl fs3 = (r, fs4)" using p4 True by simp
            from put_fat_reliable [OF p(2,3) this] p(1) in_fat_cong [OF p(4)] show ?thesis by auto
          qed
        qed
        ultimately show ?thesis using v n2 by auto
      qed
    qed
  qed
qed

end

section \<open>What a write leaves alone\<close>

definition no_one :: "('d \<Rightarrow> u32 \<Rightarrow> byte list) \<Rightarrow> 'd fatfs \<Rightarrow> bool" where
  \<comment> \<open>no entry has the reserved value 1\<close>
  "no_one contents fs \<longleftrightarrow> (\<forall>c. 2 \<le> c \<longrightarrow> c < n_fatent fs \<longrightarrow> fat_of contents fs c \<noteq> 1)"

definition disk_full :: "('d \<Rightarrow> u32 \<Rightarrow> byte list) \<Rightarrow> 'd fatfs \<Rightarrow> bool" where
  \<comment> \<open>no cluster can be had: the volume's count of free clusters is zero (\<open>create_chain\<close> then does not
    search the table), or no entry of the table is free\<close>
  "disk_full contents fs \<longleftrightarrow> free_clst fs = 0 \<or>
     (\<forall>c. 2 \<le> c \<longrightarrow> c < n_fatent fs \<longrightarrow> fat_of contents fs c \<noteq> 0)"

definition chain_end :: "u32 list \<Rightarrow> u32" where
  "chain_end xs = (if xs = [] then 0 else last xs)"

definition other_chains :: "('d \<Rightarrow> u32 \<Rightarrow> byte list) \<Rightarrow> u32 list \<Rightarrow> 'd fatfs \<Rightarrow> u32 list \<Rightarrow> 'd fatfs \<Rightarrow> bool" where
  \<comment> \<open>the chains that are disjoint from the file stay chains and stay disjoint from it\<close>
  "other_chains contents xs fs xs' fs' \<longleftrightarrow>
     (\<forall>ds. fat_chain (fat_of contents fs) (n_fatent fs) ds \<longrightarrow> set ds \<inter> set xs = {} \<longrightarrow>
        fat_chain (fat_of contents fs') (n_fatent fs) ds \<and> set ds \<inter> set xs' = {})"

lemma file_sector_append:
  assumes "i < file_room xs fs"
  shows "file_sector (xs @ ys) fs i = file_sector xs fs i"
proof -
  have "i div unat (csize fs) < length xs"
    using assms by (cases "csize fs = 0") (auto simp: file_room_def div_less_iff_less_mult unat_gt_0)
  then show ?thesis by (simp add: file_sector_def nth_append)
qed

lemma file_room_append: "file_room (xs @ ys) fs = file_room xs fs + length ys * unat (csize fs)"
  by (simp add: file_room_def add_mult_distrib)

lemma file_sectors_append: "file_sectors xs fs \<subseteq> file_sectors (xs @ ys) fs"
proof
  fix k assume "k \<in> file_sectors xs fs"
  then obtain i where i: "i < file_room xs fs" "k = file_sector xs fs i" by (rule file_sectors_elim)
  show "k \<in> file_sectors (xs @ ys) fs"
    unfolding file_sectors_def
  proof (rule image_eqI)
    show "k = file_sector (xs @ ys) fs i" using i by (simp add: file_sector_append)
    show "i \<in> {..< length (xs @ ys) * unat (csize fs)}"
      using i(1) file_room_append [of xs ys fs] by (simp add: file_room_def)
  qed
qed

context stream_disk begin

definition ext :: "u32 list \<Rightarrow> 'd fatfs \<Rightarrow> u32 list \<Rightarrow> 'd fatfs \<Rightarrow> bool" where
  "ext xs fs xs' fs' \<longleftrightarrow> geometry fs' = geometry fs \<and> prefix xs xs' \<and>
     keeps_but (\<lambda>k. in_fat fs k \<or> k \<in> file_sectors xs' fs) fs fs' \<and>
     other_chains contents xs fs xs' fs' \<and> (no_one contents fs \<longrightarrow> no_one contents fs')"

lemma keeps_but_mono: "keeps_but A fs fs' \<Longrightarrow> (\<And>k. A k \<Longrightarrow> B k) \<Longrightarrow> keeps_but B fs fs'"
  by (auto simp: keeps_but_def)

lemma ext_trans:
  assumes "ext xs fs ys fs1" and "ext ys fs1 zs fs2" shows "ext xs fs zs fs2"
proof -
  have g: "geometry fs1 = geometry fs" using assms(1) by (simp add: ext_def)
  note eqs = file_cong [OF g] geometry_fields [OF g] in_fat_cong [OF g]
  obtain ws where zs: "zs = ys @ ws" using assms(2) by (auto simp: ext_def prefix_def)
  have "keeps_but (\<lambda>k. in_fat fs k \<or> k \<in> file_sectors zs fs) fs fs1"
    using assms(1) file_sectors_append [of ys fs ws] zs by (auto simp: ext_def intro: keeps_but_mono)
  moreover have "keeps_but (\<lambda>k. in_fat fs k \<or> k \<in> file_sectors zs fs) fs1 fs2"
    using assms(2) unfolding ext_def eqs by blast
  ultimately have "keeps_but (\<lambda>k. in_fat fs k \<or> k \<in> file_sectors zs fs) fs fs2"
    using g by (rule keeps_but_trans)
  moreover have "other_chains contents xs fs zs fs2"
    using assms unfolding ext_def other_chains_def eqs by blast
  ultimately show ?thesis using assms g by (auto simp: ext_def)
qed

lemma fat_same_chains:
  assumes "\<forall>c < n_fatent fs. fat_of contents fs' c = fat_of contents fs c" and "n_fatent fs' = n_fatent fs"
  shows "other_chains contents xs fs xs fs'" and "no_one contents fs' = no_one contents fs"
    and "no_free (fat_of contents fs') (n_fatent fs) = no_free (fat_of contents fs) (n_fatent fs)"
proof -
  have "fat_chain (fat_of contents fs') (n_fatent fs) ds"
    if "fat_chain (fat_of contents fs) (n_fatent fs) ds" for ds
    using that assms(1) fat_chain_range [OF that] by (subst fat_chain_cong [of ds _ "fat_of contents fs"]) auto
  then show "other_chains contents xs fs xs fs'" by (simp add: other_chains_def)
qed (use assms in \<open>auto simp: no_one_def no_free_def\<close>)

lemma same_file_ext:
  assumes "same_file xs fp fs fp' fs'" shows "ext xs fs xs fs'"
proof -
  have g: "geometry fs' = geometry fs" using assms by (simp add: same_file_def)
  have "\<forall>c < n_fatent fs. fat_of contents fs' c = fat_of contents fs c" using assms by (simp add: same_file_def)
  note f = fat_same_chains [OF this geometry_fields(5) [OF g]]
  have "keeps_but (\<lambda>k. k \<in> file_sectors xs fs) fs fs'" using assms by (simp add: same_file_def)
  then have "keeps_but (\<lambda>k. in_fat fs k \<or> k \<in> file_sectors xs fs) fs fs'" by (rule keeps_but_mono) simp
  with f g show ?thesis by (simp add: ext_def)
qed

section \<open>Stretching the chain of a file\<close>

lemma create_chain_full:
  assumes "has_fat fs F" and "create_chain io clst fs = Some (0, fs')"
  shows "free_clst fs' = 0 \<or> no_free F (n_fatent fs)"
proof -
  obtain x fs1 where c: "chain_start io clst fs = (x, fs1)" by fastforce
  note s1 = chain_start_spec [OF assms(1) c]
  have n1: "n_fatent fs1 = n_fatent fs" using s1 geometry_fields(5) steady_geometry by metis
  have x0: "x \<noteq> Inl 0"
    using c by (auto simp: chain_start_def Let_def split: if_splits prod.splits)
  show ?thesis
  proof (cases x)
    case (Inl v)
    then have "create_chain io clst fs = Some (v, fs1)" by (simp add: create_chain_def c)
    with assms(2) x0 Inl show ?thesis by simp
  next
    case (Inr scl)
    show ?thesis
    proof (cases "free_clst fs1 = 0")
      case True
      then show ?thesis using assms(2) Inr by (simp add: create_chain_def c)
    next
      case fr: False
      have scl: "1 \<le> scl" "scl < n_fatent fs1" "scl = clst \<Longrightarrow> 2 \<le> clst" using s1 Inr n1 by auto
      from next_free_total [OF conjunct1 [OF s1] scl] obtain y fs2 where
        y: "next_free io clst scl fs1 = Some (y, fs2)" "search_result F (n_fatent fs1) y" by blast
      show ?thesis
      proof (cases y)
        case (Inl v)
        then have "create_chain io clst fs = Some (v, fs2)" using Inr fr y(1) by (simp add: create_chain_def c)
        then have "v = 0" using assms(2) by simp
        then show ?thesis using y(2) Inl n1 by (auto simp: search_result_def)
      next
        case (Inr ncl)
        then have "2 \<le> ncl" using y(2) by (simp add: search_result_def)
        then have n0: "ncl \<noteq> 0" by auto
        obtain r3 fs3 where p3: "put_fat io ncl 0xFFFFFFFF fs2 = (r3, fs3)" by fastforce
        obtain r fs4 where p4: "(if r3 = FR_OK \<and> clst \<noteq> 0 then put_fat io clst ncl fs3 else (r3, fs3)) = (r, fs4)"
          by fastforce
        have "0 = (if r = FR_OK then ncl else if r = FR_DISK_ERR then 0xFFFFFFFF else 1)"
          using assms(2) \<open>x = Inr scl\<close> fr y(1) Inr p3 p4 by (simp add: create_chain_def c Let_def split: if_splits)
        with n0 show ?thesis by (simp split: if_splits)
      qed
    qed
  qed
qed

lemma held_fat:
  assumes "held xs fp fs" shows "has_fat fs (fat_of contents fs)"
proof -
  have "volume_ok nsect fs" "good fs" using assms by (simp_all add: held_def)
  then have "fat_ok fs" "good fs" by (simp_all add: volume_ok_def)
  then show ?thesis by (simp add: has_fat_def)
qed

lemma file_medium:
  \<comment> \<open>a sector of the file on the drive, when the table was changed and the window is off the file\<close>
  assumes "held xs fp fs" and "keeps_but (in_fat fs) fs fs'" and "winsect fs' \<notin> file_sectors xs fs"
    and "k \<in> file_sectors xs fs"
  shows "contents (medium fs') k = contents (medium fs) k"
proof -
  note o = file_sector_off [OF assms(1,4)]
  have "view contents fs' k = view contents fs k" using assms(2) o(1-3) by (simp add: keeps_but_def)
  moreover have "k \<noteq> winsect fs'" using assms(3,4) by auto
  ultimately show ?thesis using o(4) by (simp add: view_def)
qed

lemma near_same:
  assumes "held xs fp fs" and "near fs fs'"
  shows "same_file xs fp fs fp fs'"
proof -
  have n: "good fs'" "geometry fs' = geometry fs" "same_view fs fs'" "off_data fs fs'"
    using assms(2) by (simp_all add: near_def)
  have h: "layout nsect fs" "fat_ok fs" "file_ok contents xs fp fs"
    using assms(1) by (simp_all add: held_def volume_ok_def)
  have off: "winsect fs' \<notin> file_sectors xs fs"
    using n(4) file_sector_off [OF assms(1)] h(3) by (auto simp: off_data_def file_ok_defs)
  show ?thesis
    by (rule held_kept [OF assms(1) n(1,2) off same_view_fat_of [OF n(3,2) h(1,2)]
          file_medium [OF assms(1) same_view_keeps [OF n(3)] off] same_view_keeps [OF n(3)]])
qed

lemma grow_full:
  assumes "held xs fp fs" and "create_chain io l fs = Some (0, fs')"
  shows "same_file xs fp fs fp fs' \<and> (free_clst fs' = 0 \<or> no_free (fat_of contents fs') (n_fatent fs))"
proof -
  note h = held_fat [OF assms(1)]
  have "near fs fs'" using create_chain_near [OF assms(2) h] by blast
  note s = near_same [OF assms(1) this]
  have "\<forall>c < n_fatent fs. fat_of contents fs' c = fat_of contents fs c" using s by (simp add: same_file_def)
  then show ?thesis using s create_chain_full [OF h assms(2)] by (auto simp: no_free_def)
qed

lemma grow_file:
  assumes "held xs fp fs" and "create_chain io (chain_end xs) fs = Some (v, fs')" and "v \<noteq> 0"
    and "no_one contents fs"
  shows "held (xs @ [v]) (if xs = [] then fp\<lparr>fobj := (fobj fp)\<lparr>sclust := v\<rparr>\<rparr> else fp) fs' \<and>
    ext xs fs (xs @ [v]) fs' \<and> 2 \<le> v \<and> v \<noteq> 0xFFFFFFFF \<and>
    (\<forall>i < file_room xs fs. file_block contents (xs @ [v]) fp fs' i = file_block contents xs fp fs i)"
proof -
  let ?F = "fat_of contents fs" and ?n = "n_fatent fs" and ?l = "chain_end xs"
  note hf = held_fat [OF assms(1)]
  have h: "volume_ok nsect fs" "file_ok contents xs fp fs" "fat_ok fs"
  proof -
    show "volume_ok nsect fs" "file_ok contents xs fp fs" using assms(1) by (simp_all add: held_def)
    then show "fat_ok fs" by (simp add: volume_ok_def)
  qed
  obtain F' where c: "has_fat fs' F'" "geometry fs' = geometry fs" "keeps_but (in_fat fs) fs fs'"
      "created ?l ?F v fs fs' F'"
    using create_chain_total [OF hf, of ?l] assms(2) by auto
  note nr = create_chain_near [OF assms(2) hf]
  note eqs = file_cong [OF c(2)] geometry_fields [OF c(2)]
  have l: "?l \<noteq> 0 \<Longrightarrow> xs = butlast xs @ [?l] \<and> fat_chain ?F ?n (butlast xs @ [?l])"
    using h(2) by (auto simp: chain_end_def file_ok_defs split: if_splits)
  have l2: "2 \<le> ?l \<and> ?l < ?n \<and> ?F ?l \<ge> ?n" if "?l \<noteq> 0"
  proof -
    have "fat_chain ?F ?n [?l]"
      by (rule fat_chain_suffix [of _ _ "butlast xs"]) (use l [OF that] in blast)
    then show ?thesis by simp
  qed
  have lx: "?l = 0 \<longleftrightarrow> xs = []"
  proof
    assume "?l = 0"
    show "xs = []"
    proof (rule ccontr)
      assume ne: "xs \<noteq> []"
      then have "fat_chain ?F ?n xs" using h(2) by (simp add: file_ok_defs)
      from fat_chain_range [OF this, of "last xs"] ne \<open>?l = 0\<close> show False by (simp add: chain_end_def)
    qed
  qed (simp add: chain_end_def)
  let ?E = "0xFFFFFFFF AND fat_mask (fs_type fs)"
  have v: "2 \<le> v" "v < ?n" "?F v = 0" "F' = (if ?l = 0 then ?F(v := ?E) else ?F(v := ?E, ?l := v))"
  proof -
    have "2 \<le> v \<and> v < ?n \<and> ?F v = 0 \<and> F' = (if ?l = 0 then ?F(v := ?E) else ?F(v := ?E, ?l := v))"
      using c(4) assms(3,4) nr l2 unfolding created_def Let_def no_one_def
      by (auto simp: not_le not_less split: if_splits)
    then show "2 \<le> v" "v < ?n" "?F v = 0" "F' = (if ?l = 0 then ?F(v := ?E) else ?F(v := ?E, ?l := v))" by blast+
  qed
  have E: "?n \<le> ?E" by (rule eoc_end [OF h(3)])
  have F': "fat_of contents fs' c = F' c" if "c < ?n" for c
    using c(1) that by (simp add: has_fat_def eqs)
  have vl: "v \<noteq> ?l"
  proof
    assume e: "v = ?l"
    have "?l \<noteq> 0" using v(1) e by auto
    from l2 [OF this] v(2,3) e show False by auto
  qed
  have "F' v \<noteq> 0" using v(4) vl E v(2) by auto
  then have "\<not> near fs fs'"
    using same_view_fat_of [of fs fs' v] h F' [OF v(2)] v(2,3) by (auto simp: near_def volume_ok_def)
  then have w: "in_fat fs (winsect fs')" using nr by blast
  have new: "v \<notin> set xs \<and> fat_chain F' ?n (xs @ [v])"
  proof (cases "xs = []")
    case True
    then show ?thesis using v E lx by simp
  next
    case False
    then show ?thesis
      using fat_chain_extend [OF conjunct2 [OF l] v(3,1,2) E] l lx v(4) by (metis append_Cons append_Nil append_assoc)
  qed
  have chain: "fat_chain (fat_of contents fs') ?n (xs @ [v])"
    using new fat_chain_range [of F' ?n "xs @ [v]"] F' fat_chain_cong [of "xs @ [v]" "fat_of contents fs'" F'] by blast
  have rng: "2 \<le> x \<and> x < ?n" if "x \<in> set (xs @ [v])" for x using fat_chain_range [OF chain that] .
  have cs: "0 < unat (csize fs)" using h(1) by (simp add: volume_ok_def unat_gt_0)
  have off: "k < nsect \<and> \<not> shadow fs k \<and> \<not> in_fat fs k" if kf: "k \<in> file_sectors (xs @ [v]) fs" for k
  proof -
    obtain i where i: "i < file_room (xs @ [v]) fs" "k = file_sector (xs @ [v]) fs i"
      by (rule file_sectors_elim [OF kf])
    have "i div unat (csize fs) < length (xs @ [v])" using i(1) cs by (simp add: file_room_def div_less_iff_less_mult)
    then have "(xs @ [v]) ! (i div unat (csize fs)) \<in> set (xs @ [v])" by (rule nth_mem)
    from data_sector [OF h(1) conjunct1 [OF rng [OF this]] conjunct2 [OF rng [OF this]], of "i mod unat (csize fs)"] cs
    show ?thesis by (simp add: i(2) file_sector_def)
  qed
  have w': "winsect fs' \<notin> file_sectors (xs @ [v]) fs" using off w by blast
  have w'': "winsect fs' \<notin> file_sectors xs fs" using w' file_sectors_append [of xs fs "[v]"] by blast
  note med = file_medium [OF assms(1) c(3) w'']
  let ?fp = "if xs = [] then fp\<lparr>fobj := (fobj fp)\<lparr>sclust := v\<rparr>\<rparr> else fp"
  have blk: "file_block contents (xs @ [v]) fp fs' i = file_block contents xs fp fs i" if i: "i < file_room xs fs" for i
    using med [OF file_sector_value(7) [OF h(1,2) i]] by (simp add: file_block_def Let_def eqs file_sector_append [OF i])
  have fields: "objsize (fobj ?fp) = objsize (fobj fp)" "fbuf ?fp = fbuf fp" "fsect ?fp = fsect fp" "dirty ?fp = dirty fp"
    by (simp_all add: dirty_def)
  have size: "unat (objsize (fobj fp)) \<le> SS * file_room xs fs" using h(2) by (simp add: file_ok_defs)
  have hd: "hd (xs @ [v]) = sclust (fobj ?fp)" using h(2) by (auto simp: file_ok_defs)
  have "file_chain contents (xs @ [v]) (fobj ?fp) fs'"
    using chain hd size w' unfolding file_chain_def fields eqs by (simp add: file_room_append)
  moreover have "cache_ok contents (xs @ [v]) ?fp fs'"
    unfolding cache_ok_def fields eqs
  proof (intro conjI)
    have co: "cache_ok contents xs fp fs" using h(2) by (simp add: file_ok_def)
    then show "length (fbuf fp) = SS" by (simp add: cache_ok_def)
    show "if dirty fp then fsect fp \<in> file_sectors (xs @ [v]) fs
      else \<forall>i < file_room (xs @ [v]) fs. SS * i < unat (objsize (fobj fp)) \<longrightarrow>
        fsect fp = file_sector (xs @ [v]) fs i \<longrightarrow> fbuf fp = contents (medium fs') (fsect fp)"
    proof (cases "dirty fp")
      case True
      then show ?thesis using co file_sectors_append [of xs fs "[v]"] by (auto simp: cache_ok_def)
    next
      case False
      have "fbuf fp = contents (medium fs') (fsect fp)"
        if i: "SS * i < unat (objsize (fobj fp))" "fsect fp = file_sector (xs @ [v]) fs i" for i
      proof -
        have "SS * i < SS * file_room xs fs" using i(1) size by (rule order_less_le_trans)
        then have r: "i < file_room xs fs" by simp
        then have f: "fsect fp = file_sector xs fs i" using i(2) by (simp add: file_sector_append)
        have "fbuf fp = contents (medium fs) (fsect fp)" using co False i(1) r f by (simp add: cache_ok_def)
        then show ?thesis using med [OF file_sector_value(7) [OF h(1,2) r]] f by simp
      qed
      with False show ?thesis by auto
    qed
  qed
  ultimately have "held (xs @ [v]) ?fp fs'"
    using c(1) h(1) volume_ok_cong [OF c(2)] by (simp add: held_def file_ok_def has_fat_def)
  moreover have "ext xs fs (xs @ [v]) fs'"
    unfolding ext_def
  proof (intro conjI impI)
    show "keeps_but (\<lambda>k. in_fat fs k \<or> k \<in> file_sectors (xs @ [v]) fs) fs fs'"
      using c(3) by (rule keeps_but_mono) simp
    show "other_chains contents xs fs (xs @ [v]) fs'"
      unfolding other_chains_def
    proof (intro allI impI)
      fix ds assume ds: "fat_chain ?F ?n ds" "set ds \<inter> set xs = {}"
      have nv: "v \<notin> set ds" using fat_chain_nonzero [OF ds(1)] v(3) by blast
      moreover have "?l \<notin> set ds"
        using fat_chain_range [OF ds(1), of ?l] ds(2) lx l by (cases "?l = 0") (auto simp: chain_end_def)
      ultimately have "\<forall>x \<in> set ds. fat_of contents fs' x = ?F x"
        using F' fat_chain_range [OF ds(1)] v(4) by auto
      then show "fat_chain (fat_of contents fs') ?n ds \<and> set ds \<inter> set (xs @ [v]) = {}"
        using ds nv fat_chain_cong [of ds "fat_of contents fs'" ?F] by auto
    qed
    show "no_one contents fs'" if "no_one contents fs"
      unfolding no_one_def eqs
    proof (intro allI impI)
      fix x assume x: "2 \<le> x" "x < ?n"
      have "v \<noteq> 1" using v(1) by (auto simp: word_le_nat_alt)
      moreover have "2 \<le> ?E" using v(1,2) E by (meson order_trans order_less_imp_le)
      then have "?E \<noteq> 1" by (auto simp: word_le_nat_alt)
      ultimately have "v \<noteq> 1" "?E \<noteq> 1" by blast+
      then show "fat_of contents fs' x \<noteq> 1"
        using that x F' [OF x(2)] v(4) by (auto simp: no_one_def)
    qed
  qed (use c(2) in simp_all)
  ultimately show ?thesis using v(1) nr blk by blast
qed

end

end
