(* ===== verification/FatWrite.thy ===== *)
theory FatWrite
  imports FatGrow
begin

text \<open>
  Writing to a file. The lemmas show that \<open>f_write\<close> overwrites the bytes of the file from the pointer
  on and stretches the file, and its cluster chain, when they go past its end. \<open>wrote\<close> is one transfer,
  through the sector cache (\<open>write_part_step\<close>) or by whole sectors (\<open>write_direct_step\<close>).
\<close>

context stream_disk begin

text \<open>The current cluster of a write.\<close>

lemma pos_cluster:
  assumes "held xs fp fs" and "file_pos xs fp fs" and "unat (fptr fp) mod SS = 0" and "fptr fp \<noteq> 0"
  shows "fclust fp = xs ! (let i = unat (fptr fp) div SS; c = unat (csize fs)
                           in if i mod c = 0 then i div c - 1 else i div c)"
proof -
  let ?p = "unat (fptr fp)" and ?c = "unat (csize fs)"
  have c: "0 < ?c" using assms(1) by (simp add: held_def volume_ok_def unat_gt_0)
  have p: "0 < ?p" using assms(4) by (simp add: unat_gt_0)
  have "?p mod (SS * ?c) = SS * (?p div SS mod ?c)" using assms(3) mod_mult2_eq [of ?p SS ?c] by simp
  then have "?p mod (?c * SS) = 0 \<longleftrightarrow> ?p div SS mod ?c = 0" by (simp add: mult.commute)
  then show ?thesis
    using assms(2,4) pred_div [of "?c * SS" ?p] c p by (simp add: file_pos_def sector_of_pos(2) Let_def)
qed

lemma size_index:
  assumes "held xs fp fs" and "file_pos xs fp fs"
  shows "unat (fptr fp) div SS \<le> file_room xs fs"
proof -
  have "unat (fptr fp) \<le> unat (objsize (fobj fp))" using assms(2) by (simp add: file_pos_def word_le_nat_alt)
  also have "\<dots> \<le> SS * file_room xs fs" using assms(1) by (simp add: held_def file_ok_defs)
  finally show ?thesis by (simp add: div_le_mono [of _ "SS * file_room xs fs" SS, simplified])
qed

definition grows :: "u32 list \<Rightarrow> ffil \<Rightarrow> 'd fatfs \<Rightarrow> u32 list \<Rightarrow> ffil \<Rightarrow> 'd fatfs \<Rightarrow> bool" where
  \<comment> \<open>the chain may be longer, the blocks and the size are as they were\<close>
  "grows xs fp fs xs' fp' fs' \<longleftrightarrow> held xs' fp' fs' \<and> ext xs fs xs' fs' \<and> fptr fp' = fptr fp \<and>
     objsize (fobj fp') = objsize (fobj fp) \<and>
     (\<forall>i < file_room xs fs. file_block contents xs' fp' fs' i = file_block contents xs fp fs i)"

lemma same_grows:
  "same_file xs fp fs fp' fs' \<Longrightarrow> fptr fp' = fptr fp \<Longrightarrow> fobj fp' = fobj fp \<Longrightarrow> grows xs fp fs xs fp' fs'"
  using same_file_ext [of xs fp fs fp' fs'] by (simp add: grows_def same_file_def)

lemma held_fclust [simp]: "held xs (fp\<lparr>fclust := c\<rparr>) fs = held xs fp fs"
  by (simp add: held_def)

lemma grows_fclust [simp]: "grows xs fp fs xs' (fp'\<lparr>fclust := c\<rparr>) fs' = grows xs fp fs xs' fp' fs'"
  by (simp add: grows_def)

lemma write_clust_step:
  assumes "held xs fp fs" and "file_pos xs fp fs" and "unat (fptr fp) mod SS = 0" and "no_one contents fs"
  shows "\<exists>x fp1 fs1 xs1. write_clust io (fptr fp div 512 AND (ucast (csize fs) - 1)) fp fs = Some (x, fp1, fs1) \<and>
    grows xs fp fs xs1 fp1 fs1 \<and>
    (x = None \<and> xs1 = xs \<and> fp1 = fp \<and> (free_clst fs1 = 0 \<or> no_free (fat_of contents fs1) (n_fatent fs)) \<or>
     x = Some FR_OK \<and> unat (fptr fp) div SS < file_room xs1 fs \<and>
     fclust fp1 = xs1 ! (unat (fptr fp) div SS div unat (csize fs)))"
proof -
  let ?c = "unat (csize fs)" and ?cs = "fptr fp div 512 AND (ucast (csize fs) - 1)"
  define i where "i = unat (fptr fp) div SS"
  have h: "volume_ok nsect fs" "file_ok contents xs fp fs" "good fs" using assms(1) by (simp_all add: held_def)
  have cs: "csize fs AND (csize fs - 1) = 0" "csize fs \<noteq> 0" "fat_ok fs" using h(1) by (simp_all add: volume_ok_def)
  then have c0: "0 < ?c" by (simp add: unat_gt_0)
  have ucs: "unat ?cs = i mod ?c" using mask_of_power [OF cs(1,2)] by (simp add: unat_div_distrib i_def)
  then have cs0: "?cs = 0 \<longleftrightarrow> i mod ?c = 0" by (metis unat_0 word_unat_eq_iff)
  have ir: "i \<le> file_room xs fs" using size_index [OF assms(1,2)] by (simp add: i_def)
  have p: "unat (fptr fp) = SS * i" using assms(3) by (auto simp: i_def)
  have sc: "sclust (fobj fp) = 0 \<longleftrightarrow> xs = []"
  proof (cases "xs = []")
    case False
    then have "sclust (fobj fp) = xs ! 0" using h(2) by (simp add: file_ok_defs hd_conv_nth)
    with chain_entry [OF assms(1), of 0] False show ?thesis by auto
  qed (use h(2) in \<open>simp add: file_ok_defs\<close>)
  have grow: "\<exists>x fp1 fs1 xs1. write_clust io ?cs fp fs = Some (x, fp1, fs1) \<and> grows xs fp fs xs1 fp1 fs1 \<and>
      (x = None \<and> xs1 = xs \<and> fp1 = fp \<and> (free_clst fs1 = 0 \<or> no_free (fat_of contents fs1) (n_fatent fs)) \<or>
       x = Some FR_OK \<and> i < file_room xs1 fs \<and> fclust fp1 = xs1 ! (i div ?c))"
    if "i = file_room xs fs" "?cs = 0"
      and w: "\<And>v fs'. create_chain io (chain_end xs) fs = Some (v, fs') \<Longrightarrow>
        write_clust io ?cs fp fs = Some (if v = 0 then (None, fp, fs') else if v = 1 then (Some FR_INT_ERR, fp, fs')
          else if v = 0xFFFFFFFF then (Some FR_DISK_ERR, fp, fs')
          else (Some FR_OK, fp\<lparr>fclust := v, fobj := (if xs = [] then (fobj fp)\<lparr>sclust := v\<rparr> else fobj fp)\<rparr>, fs'))"
  proof -
    obtain v fs' where c: "create_chain io (chain_end xs) fs = Some (v, fs')"
      using create_chain_total [OF held_fat [OF assms(1)]] by blast
    show ?thesis
    proof (cases "v = 0")
      case True
      from grow_full [OF assms(1)] c True have g: "same_file xs fp fs fp fs'"
          "free_clst fs' = 0 \<or> no_free (fat_of contents fs') (n_fatent fs)" by auto
      from same_grows [OF g(1)] g(2) w [OF c] True show ?thesis by fastforce
    next
      case False
      let ?f = "if xs = [] then fp\<lparr>fobj := (fobj fp)\<lparr>sclust := v\<rparr>\<rparr> else fp"
      note g = grow_file [OF assms(1) c False assms(4)]
      have "v \<noteq> 1" using g by (auto simp: word_le_nat_alt)
      then have r: "write_clust io ?cs fp fs = Some (Some FR_OK, ?f\<lparr>fclust := v\<rparr>, fs')" using w [OF c] g False by simp
      have fb: "file_block contents (xs @ [v]) ?f fs' j = file_block contents (xs @ [v]) fp fs' j" for j
        by (simp add: file_block_def dirty_def Let_def)
      have gr: "grows xs fp fs (xs @ [v]) (?f\<lparr>fclust := v\<rparr>) fs'"
        using g unfolding grows_fclust by (simp add: grows_def fb)
      have room: "i < file_room (xs @ [v]) fs" "(xs @ [v]) ! (i div ?c) = v"
        using that(1) c0 by (simp_all add: file_room_append) (simp add: file_room_def)
      show ?thesis
        by (rule exI [of _ "Some FR_OK"], rule exI [of _ "?f\<lparr>fclust := v\<rparr>"], rule exI [of _ fs'],
            rule exI [of _ "xs @ [v]"]) (use r gr room in simp)
    qed
  qed
  consider "?cs \<noteq> 0" | "?cs = 0" "fptr fp = 0" "xs = []" | "?cs = 0" "fptr fp = 0" "xs \<noteq> []"
    | "?cs = 0" "fptr fp \<noteq> 0" "i < file_room xs fs" | "?cs = 0" "fptr fp \<noteq> 0" "i = file_room xs fs"
    using ir by fastforce
  then have "\<exists>x fp1 fs1 xs1. write_clust io ?cs fp fs = Some (x, fp1, fs1) \<and> grows xs fp fs xs1 fp1 fs1 \<and>
      (x = None \<and> xs1 = xs \<and> fp1 = fp \<and> (free_clst fs1 = 0 \<or> no_free (fat_of contents fs1) (n_fatent fs)) \<or>
       x = Some FR_OK \<and> i < file_room xs1 fs \<and> fclust fp1 = xs1 ! (i div ?c))" (is ?goal)
  proof cases
    case 1
    then have m: "i mod ?c \<noteq> 0" using cs0 by blast
    then have "i \<noteq> file_room xs fs" by (auto simp: file_room_def)
    then have r: "i < file_room xs fs" using ir by simp
    have "i \<noteq> 0" using m by (metis mod_0)
    then have "fptr fp \<noteq> 0" using p by auto
    from pos_cluster [OF assms(1-3) this] m have "fclust fp = xs ! (i div ?c)" by (simp add: Let_def i_def)
    with r 1 same_grows [OF same_file_refl [OF assms(1)]] show ?goal by (auto simp: write_clust_def)
  next
    case 2
    then have "i = file_room xs fs" by (simp add: i_def file_room_def)
    then show ?goal
      by (rule grow [OF _ 2(1)]) (use 2 sc in \<open>simp add: write_clust_def chain_end_def\<close>)
  next
    case 3
    have i0: "i = 0" using 3(2) by (simp add: i_def)
    have s: "sclust (fobj fp) = xs ! 0" using h(2) 3(3) by (simp add: file_ok_defs hd_conv_nth)
    note e = chain_entry [OF assms(1), of 0]
    have "xs ! 0 \<noteq> 0" "xs ! 0 \<noteq> 1" using e 3(3) by (auto simp: word_le_nat_alt)
    then have "write_clust io ?cs fp fs = Some (Some FR_OK, fp\<lparr>fclust := xs ! 0\<rparr>, fs)"
      using 3 s e by (simp add: write_clust_def)
    moreover have "i < file_room xs fs" using i0 3(3) c0 by (simp add: file_room_def)
    ultimately show ?goal
      using i0 same_grows [OF same_file_refl [OF assms(1)]] by fastforce
  next
    case 4
    let ?q = "i div ?c"
    have m: "i mod ?c = 0" using 4(1) cs0 by blast
    have "i \<noteq> 0" using p 4(2) by (auto simp: word_unat_eq_iff)
    then have q: "?q \<noteq> 0" using m c0 by auto
    have j: "?q < length xs" using 4(3) c0 by (simp add: file_room_def div_less_iff_less_mult)
    then have ne: "xs \<noteq> []" by auto
    have f: "fclust fp = xs ! (?q - 1)" using pos_cluster [OF assms(1-3) 4(2)] m by (simp add: Let_def i_def)
    have "fat_chain (fat_of contents fs) (n_fatent fs) xs" using h(2) ne by (simp add: file_ok_defs)
    from chain_next [OF this, of "?q - 1"] j q have F: "fat_of contents fs (xs ! (?q - 1)) = xs ! ?q" by simp
    have j1: "?q - 1 < length xs" using j by simp
    note e = chain_entry [OF assms(1) j] chain_entry [OF assms(1) j1]
    obtain fs' where g: "get_fat io (xs ! (?q - 1)) fs = (xs ! ?q, fs')"
      using get_fat_ok [OF h(3) cs(3), of "xs ! (?q - 1)"] e(2) j F by auto
    note s = get_fat_same [OF assms(1) g]
    have n: "n_fatent fs' = n_fatent fs" using s geometry_fields(5) by (metis same_file_def)
    have nz: "xs ! ?q \<noteq> 0" "xs ! ?q \<noteq> 1" "xs ! (?q - 1) \<noteq> 0" "\<not> xs ! ?q < 2"
      using e j by (auto simp: word_le_nat_alt word_less_nat_alt)
    have "create_chain io (xs ! (?q - 1)) fs = Some (xs ! ?q, fs')"
      using g nz e(1) n by (simp add: create_chain_def chain_start_def)
    then have "write_clust io ?cs fp fs = Some (Some FR_OK, fp\<lparr>fclust := xs ! ?q\<rparr>, fs')"
      using 4(1,2) f nz e(1) sc ne by (simp add: write_clust_def)
    with 4(3) same_grows [OF s] show ?goal by fastforce
  next
    case 5
    let ?q = "i div ?c"
    have "i mod ?c = 0" using 5(1) cs0 by blast
    moreover have q: "?q = length xs" using 5(3) c0 by (simp add: file_room_def)
    ultimately have f: "fclust fp = xs ! (length xs - 1)"
      using pos_cluster [OF assms(1-3) 5(2)] by (simp add: Let_def i_def)
    have "i \<noteq> 0" using p 5(2) by (auto simp: word_unat_eq_iff)
    then have ne: "xs \<noteq> []" using 5(3) by (auto simp: file_room_def)
    with f have "fclust fp = chain_end xs" by (simp add: chain_end_def last_conv_nth)
    then show ?goal
      by (intro grow [OF 5(3,1)]) (use 5 sc ne in \<open>simp add: write_clust_def\<close>)
  qed
  then show ?thesis by (simp add: i_def)
qed

lemma file_sector_inj:
  assumes "held xs fp fs" and "i < file_room xs fs" and "j < file_room xs fs"
    and "file_sector xs fs i = file_sector xs fs j"
  shows "i = j"
proof -
  let ?c = "unat (csize fs)"
  have h: "volume_ok nsect fs" "file_ok contents xs fp fs" using assms(1) by (simp_all add: held_def)
  have c0: "0 < ?c" using h(1) by (simp add: volume_ok_def unat_gt_0)
  note vi = file_sector_value [OF h assms(2)] and vj = file_sector_value [OF h assms(3)]
  let ?x = "xs ! (i div ?c)" and ?y = "xs ! (j div ?c)"
  have u: "unat (database fs) + ?c * (unat ?x - 2) + i mod ?c = unat (database fs) + ?c * (unat ?y - 2) + j mod ?c"
    using vi(3) vj(3) assms(4) cluster_sector(1) [OF h(1) conjunct1 [OF vi(2)] conjunct2 [OF vi(2)]]
      cluster_sector(1) [OF h(1) conjunct1 [OF vj(2)] conjunct2 [OF vj(2)]] by simp
  have m: "i mod ?c < ?c" "j mod ?c < ?c" using c0 by simp_all
  from u have e: "?c * (unat ?x - 2) + i mod ?c = ?c * (unat ?y - 2) + j mod ?c" by simp
  have "unat ?x - 2 = unat ?y - 2" using arg_cong [OF e, of "\<lambda>n. n div ?c"] m c0 by simp
  moreover have "2 \<le> unat ?x" "2 \<le> unat ?y" using vi(2) vj(2) by (simp_all add: word_le_nat_alt)
  ultimately have xy: "?x = ?y" by (simp add: word_unat_eq_iff)
  have d: "i div ?c < length xs" "j div ?c < length xs"
    using assms(2,3) c0 by (simp_all add: file_room_def div_less_iff_less_mult)
  have "fat_chain (fat_of contents fs) (n_fatent fs) xs" using h(2) d(1) by (auto simp: file_ok_defs split: if_splits)
  then have "distinct xs" by (rule fat_chain_distinct)
  then have "i div ?c = j div ?c" using xy d by (simp add: nth_eq_iff_index_eq)
  moreover have "i mod ?c = j mod ?c" using arg_cong [OF e, of "\<lambda>n. n mod ?c"] m by simp
  ultimately show ?thesis by (metis div_mult_mod_eq)
qed

text \<open>The bytes after \<open>d\<close> was stored at \<open>p\<close>.\<close>

definition spliced :: "u32 list \<Rightarrow> ffil \<Rightarrow> 'd fatfs \<Rightarrow> nat \<Rightarrow> byte list \<Rightarrow> u32 list \<Rightarrow> ffil \<Rightarrow> 'd fatfs \<Rightarrow> bool" where
  "spliced xs fp fs p d xs' fp' fs' \<longleftrightarrow>
     file_bytes contents xs' fp' fs' = store_at p d (file_bytes contents xs fp fs)"

lemma splicedI:
  assumes "p \<le> unat (objsize (fobj fp))"
    and "unat (objsize (fobj fp')) = max (unat (objsize (fobj fp))) (p + length d)"
    and "\<And>m. m < unat (objsize (fobj fp')) \<Longrightarrow> file_byte contents xs' fp' fs' m =
      (if p \<le> m \<and> m < p + length d then d ! (m - p) else file_byte contents xs fp fs m)"
  shows "spliced xs fp fs p d xs' fp' fs'"
  unfolding spliced_def
proof (rule nth_equalityI)
  let ?B = "file_bytes contents xs fp fs"
  have B: "length ?B = unat (objsize (fobj fp))" by (simp add: file_bytes_def)
  show l: "length (file_bytes contents xs' fp' fs') = length (store_at p d ?B)"
    using assms(1,2) B by (simp add: store_at_def file_bytes_def max_def)
  fix m assume m: "m < length (file_bytes contents xs' fp' fs')"
  then have mo: "m < unat (objsize (fobj fp'))" by (simp add: file_bytes_def)
  have tk: "length (take p ?B) = p" using assms(1) B by simp
  have "store_at p d ?B ! m = (if p \<le> m \<and> m < p + length d then d ! (m - p) else ?B ! m)"
    using tk m l assms(1) B by (auto simp: store_at_def nth_append not_less le_add_diff_inverse)
  moreover have "?B ! m = file_byte contents xs fp fs m" if "\<not> (p \<le> m \<and> m < p + length d)"
    using that mo assms(1,2) by (auto simp: file_bytes_def)
  ultimately show "file_bytes contents xs' fp' fs' ! m = store_at p d ?B ! m"
    using assms(3) [OF mo] mo by (simp add: file_bytes_def)
qed

lemma spliced_append:
  assumes "spliced xs fp fs p a ys fp1 fs1" and "spliced ys fp1 fs1 (p + length a) b zs fp2 fs2"
    and "p \<le> unat (objsize (fobj fp))"
  shows "spliced xs fp fs p (a @ b) zs fp2 fs2"
proof -
  let ?B = "file_bytes contents xs fp fs"
  have l: "length (take p ?B) = p" using assms(3) by (simp add: file_bytes_def)
  have "store_at (p + length a) b (store_at p a ?B) = store_at p (a @ b) ?B"
    using l by (simp add: store_at_def add.commute add.left_commute)
  then show ?thesis using assms(1,2) by (simp add: spliced_def)
qed

lemma spliced_nil: "spliced xs fp fs p [] xs fp fs"
  by (simp add: spliced_def)

lemma grows_bytes:
  assumes "grows xs fp fs ys fp' fs'" and "held xs fp fs"
  shows "file_bytes contents ys fp' fs' = file_bytes contents xs fp fs"
proof -
  have "m div SS < file_room xs fs" if "m < unat (objsize (fobj fp))" for m
    using that assms(2) by (simp add: held_def file_ok_defs div_less_iff_less_mult mult.commute)
  then show ?thesis using assms(1) by (simp add: file_bytes_def grows_def file_byte_def)
qed

section \<open>One transfer\<close>

definition wrote :: "u32 list \<Rightarrow> ffil \<Rightarrow> 'd fatfs \<Rightarrow> byte list \<Rightarrow> u32 list \<Rightarrow> ffil \<Rightarrow> 'd fatfs \<Rightarrow> bool" where
  "wrote xs fp fs d xs' fp' fs' \<longleftrightarrow> held xs' fp' fs' \<and> file_pos xs' fp' fs' \<and> ext xs fs xs' fs' \<and>
     spliced xs fp fs (unat (fptr fp)) d xs' fp' fs' \<and> unat (fptr fp') = unat (fptr fp) + length d"

lemma grows_wrote:
  assumes "grows xs fp fs ys fp1 fs1" and "held xs fp fs" and "wrote ys fp1 fs1 d zs fp2 fs2"
  shows "wrote xs fp fs d zs fp2 fs2"
proof -
  have e: "ext xs fs ys fs1" and p: "fptr fp1 = fptr fp" using assms(1) by (simp_all add: grows_def)
  have "ext xs fs zs fs2" using ext_trans [OF e] assms(3) by (simp add: wrote_def)
  then show ?thesis
    using assms(3) grows_bytes [OF assms(1,2)] p by (simp add: wrote_def spliced_def)
qed

lemma advance_fields [simp]:
  "fptr (advance n fp) = fptr fp + n" "fbuf (advance n fp) = fbuf fp" "fsect (advance n fp) = fsect fp"
  "fclust (advance n fp) = fclust fp" "fflag (advance n fp) = fflag fp" "sclust (fobj (advance n fp)) = sclust (fobj fp)"
  by (simp_all add: advance_def Let_def)

lemma advance_dirty [simp]: "dirty (advance n fp) = dirty fp"
  by (simp add: dirty_def)

lemma advance_size:
  "unat (fptr fp) + unat n < 2 ^ 32 \<Longrightarrow>
   unat (objsize (fobj (advance n fp))) = max (unat (objsize (fobj fp))) (unat (fptr fp) + unat n)"
  by (auto simp: advance_def Let_def u32_add word_less_nat_alt max_def)

lemma advance_block [simp]: "file_block contents xs (advance n fp) fs = file_block contents xs fp fs"
  by (rule ext) (simp add: file_block_def Let_def)

lemma write_part_step:
  assumes "held xs fp fs" and "unat (fptr fp) div SS < file_room xs fs"
    and "unat (fptr fp) \<le> unat (objsize (fobj fp))"
    and "fsect fp = file_sector xs fs (unat (fptr fp) div SS)"
    and "fclust fp = xs ! (unat (fptr fp) div SS div unat (csize fs))"
    and "btw \<noteq> 0" and "unat (fptr fp) + unat btw < 2 ^ 32" and "unat bw + unat btw \<le> length buff"
  shows "\<exists>n fp1. write_part btw bw buff fp = (n, fp1) \<and> 0 < unat n \<and> unat n \<le> unat btw \<and>
    wrote xs fp fs (take (unat n) (drop (unat bw) buff)) xs (advance n fp1) fs"
proof -
  let ?p = "unat (fptr fp)" and ?r = "512 - fptr fp mod 512"
  define i where "i = ?p div SS"
  define n where "n = (if ?r > btw then btw else ?r)"
  let ?d = "take (unat n) (drop (unat bw) buff)"
  let ?fp = "fp\<lparr>fbuf := store_at (?p mod SS) ?d (fbuf fp), fflag := fflag fp OR FA_DIRTY\<rparr>"
  let ?fa = "advance n ?fp"
  have m: "unat (fptr fp mod 512) = ?p mod SS" by (simp add: unat_mod_distrib)
  have ml: "?p mod SS < SS" by simp
  have "unat ?r = SS - ?p mod SS" using m by (subst unat_sub) (simp_all add: word_le_nat_alt)
  then have n: "0 < unat n" "unat n \<le> unat btw" "?p mod SS + unat n \<le> SS"
    using assms(6) ml by (auto simp: n_def word_less_nat_alt unat_gt_0 not_less)
  have w: "write_part btw bw buff fp = (n, ?fp)"
    unfolding write_part_def Let_def n_def [symmetric] m by simp
  have dl: "length ?d = unat n" using assms(8) n(2) by simp
  have h: "volume_ok nsect fs" "file_ok contents xs fp fs" "good fs" using assms(1) by (simp_all add: held_def)
  have fb: "length (fbuf fp) = SS" using h(2) by (simp add: file_ok_defs)
  have ir: "i < file_room xs fs" using assms(2) by (simp add: i_def)
  have p: "?p = SS * i + ?p mod SS" by (simp add: i_def)
  have size: "unat (objsize (fobj ?fa)) = max (unat (objsize (fobj fp))) (?p + unat n)"
    using advance_size [of ?fp n] assms(7) n(2) by simp
  have "SS * i + SS \<le> SS * file_room xs fs" using ir by (metis Suc_leI add.commute mult_Suc_right mult_le_mono2)
  then have room: "?p + unat n \<le> SS * file_room xs fs" using p n(3) by linarith
  have dirty: "dirty ?fp"
  proof -
    have "bit ((fflag fp OR FA_DIRTY) AND FA_DIRTY) 7" by (simp add: bit_simps)
    then show ?thesis by (auto simp: dirty_def)
  qed
  have k: "fsect fp = file_sector xs fs i" using assms(4) by (simp add: i_def)
  have "file_ok contents xs ?fa fs"
    using h(2) dirty size room dl fb n(3) k ir file_sector_value(7) [OF h(1,2) ir]
    unfolding file_ok_def file_chain_def cache_ok_def by simp
  then have held: "held xs ?fa fs" using h by (simp add: held_def)
  have pu: "unat (fptr fp + n) = ?p + unat n" using assms(7) n(2) by (intro u32_add) linarith
  have pos: "file_pos xs ?fa fs"
    using pu size assms(4,5) n by (intro pos_in_sector [of "unat n" ?p]) simp_all
  have byte: "file_byte contents xs ?fa fs x =
      (if ?p \<le> x \<and> x < ?p + length ?d then ?d ! (x - ?p) else file_byte contents xs fp fs x)"
    if x: "x < unat (objsize (fobj ?fa))" for x
  proof (cases "x div SS = i")
    case True
    have xe: "x = SS * i + x mod SS" using True div_mult_mod_eq [of x SS] by simp
    have "file_byte contents xs ?fa fs x = store_at (?p mod SS) ?d (fbuf fp) ! (x mod SS)"
      using dirty True k by (simp add: file_byte_def file_block_def Let_def)
    also have "\<dots> = (if ?p mod SS \<le> x mod SS \<and> x mod SS < ?p mod SS + unat n
        then ?d ! (x mod SS - ?p mod SS) else fbuf fp ! (x mod SS))"
      using nth_store_at [of "?p mod SS" ?d "fbuf fp" "x mod SS"] dl fb n(3) by simp
    finally have 1: "file_byte contents xs ?fa fs x = (if ?p mod SS \<le> x mod SS \<and> x mod SS < ?p mod SS + unat n
        then ?d ! (x mod SS - ?p mod SS) else fbuf fp ! (x mod SS))" .
    have r: "?p mod SS \<le> x mod SS \<and> x mod SS < ?p mod SS + unat n \<longleftrightarrow> ?p \<le> x \<and> x < ?p + length ?d"
      "x mod SS - ?p mod SS = x - ?p"
      using p xe dl by linarith+
    have "fbuf fp ! (x mod SS) = file_byte contents xs fp fs x" if out: "\<not> (?p \<le> x \<and> x < ?p + length ?d)"
    proof -
      have "x < unat (objsize (fobj fp))" using x size out dl assms(3) by (auto simp: max_def split: if_splits)
      then have "SS * i < unat (objsize (fobj fp))" using xe by linarith
      from clean_block [OF assms(1) ir k this] True show ?thesis by (simp add: file_byte_def)
    qed
    with 1 r show ?thesis by auto
  next
    case False
    have out: "\<not> (?p \<le> x \<and> x < ?p + length ?d)"
    proof
      assume "?p \<le> x \<and> x < ?p + length ?d"
      then have "SS * i \<le> x" "x < SS * i + SS" using p dl n(3) by linarith+
      then have "x div SS = i" by (intro div_nat_eqI) simp_all
      with False show False by simp
    qed
    have "x < SS * file_room xs fs"
      using x size room h(2) by (auto simp: file_ok_defs max_def split: if_splits)
    then have "x div SS < file_room xs fs" by (simp add: div_less_iff_less_mult mult.commute)
    then have "file_sector xs fs (x div SS) \<noteq> fsect fp"
      using file_sector_inj [OF assms(1) _ ir] False k by auto
    then have "file_byte contents xs ?fa fs x = file_byte contents xs fp fs x"
      by (simp add: file_byte_def file_block_def Let_def)
    with out show ?thesis by (simp only: if_False)
  qed
  have "spliced xs fp fs ?p ?d xs ?fa fs"
    by (rule splicedI [OF assms(3) _ byte]) (use size dl in simp_all)
  then have "wrote xs fp fs ?d xs ?fa fs"
    using held pos pu dl same_file_ext [OF same_file_refl [OF assms(1)]] by (simp add: wrote_def)
  with w n(1,2) show ?thesis by blast
qed

lemma write_direct_step:
  assumes "held xs fp fs" and "\<not> dirty fp" and "i < file_room xs fs"
    and "i mod unat (csize fs) + unat cc \<le> unat (csize fs)" and "cc \<noteq> 0"
    and "unat (fptr fp) = SS * i" and "SS * i \<le> unat (objsize (fobj fp))" and "SS * i + SS * unat cc < 2 ^ 32"
    and "fclust fp = xs ! (i div unat (csize fs))" and "unat bw + SS * unat cc \<le> length buff"
  shows "\<exists>fp1 fs1. write_direct io (file_sector xs fs i) cc bw buff fp fs = (FR_OK, 512 * cc, fp1, fs1) \<and>
    wrote xs fp fs (take (SS * unat cc) (drop (unat bw) buff)) xs (advance (512 * cc) fp1) fs1"
proof -
  let ?k = "file_sector xs fs i" and ?n = "unat cc" and ?c = "unat (csize fs)"
  let ?b = "take (SS * ?n) (drop (unat bw) buff)"
  have h: "volume_ok nsect fs" "file_ok contents xs fp fs" "good fs" using assms(1) by (simp_all add: held_def)
  have lay: "layout nsect fs" "fat_ok fs" using h(1) by (simp_all add: volume_ok_def)
  have d0: "pdrv fs = 0" "ok (medium fs)" using h(3) by (simp_all add: good_def layout_def window_ok_def)
  have nxt: "file_sector xs fs (i + j) = ?k + of_nat j" "i + j < file_room xs fs" if "j < ?n" for j
    using file_sector_next [of i fs j xs] assms(3,4) that by simp_all
  have n0: "0 < ?n" using assms(5) by (simp add: unat_gt_0)
  note v = file_sector_value [OF h(1,2) assms(3)]
  have in_range: "unat ?k + ?n \<le> unat nsect"
    using v(3) cluster_sector(2) [OF h(1) conjunct1 [OF v(2)] conjunct2 [OF v(2)]] assms(4) by linarith
  have uk: "unat (file_sector xs fs (i + j)) = unat ?k + j" if "j < ?n" for j
    using nxt(1) [OF that] that in_range u32_unat_less [of nsect] u32_of_nat [of j] by (simp add: u32_add)
  have bl: "length ?b = 512 * ?n" using assms(10) by simp
  obtain d where w: "io_write io 0 ?b ?k cc (medium fs) = (RES_OK, d)" "ok d"
      "\<forall>j < nsect. contents d j = (if unat ?k \<le> unat j \<and> unat j < unat ?k + ?n
         then take 512 (drop (512 * (unat j - unat ?k)) ?b) else contents (medium fs) j)"
    using write_many [OF d0(2) assms(5) in_range bl] by blast
  have inside: "i \<le> j \<and> j < i + ?n"
    if "j < file_room xs fs" "unat ?k \<le> unat (file_sector xs fs j)" "unat (file_sector xs fs j) < unat ?k + ?n" for j
  proof -
    let ?t = "unat (file_sector xs fs j) - unat ?k"
    have t: "?t < ?n" using that n0 by linarith
    have "file_sector xs fs j = file_sector xs fs (i + ?t)" using uk [OF t] that(2) by (simp add: word_unat_eq_iff)
    then have "j = i + ?t" by (rule file_sector_inj [OF assms(1) that(1) nxt(2) [OF t]])
    with t show ?thesis by simp
  qed
  have C: "contents d (file_sector xs fs j) = (if i \<le> j \<and> j < i + ?n then take 512 (drop (512 * (j - i)) ?b)
      else contents (medium fs) (file_sector xs fs j))" if j: "j < file_room xs fs" for j
  proof -
    note vj = file_sector_value(5) [OF h(1,2) j]
    show ?thesis
    proof (cases "i \<le> j \<and> j < i + ?n")
      case True
      then have "j - i < ?n" "i + (j - i) = j" by linarith+
      then have "unat ?k \<le> unat (file_sector xs fs j)" "unat (file_sector xs fs j) < unat ?k + ?n"
          "unat (file_sector xs fs j) - unat ?k = j - i" using uk [of "j - i"] by simp_all
      with True w(3) [rule_format, OF vj] show ?thesis by simp
    next
      case False
      with inside [OF j] w(3) vj show ?thesis by auto
    qed
  qed
  have kept: "contents d j = contents (medium fs) j" if "j < nsect" "j \<notin> file_sectors xs fs" for j
  proof (rule ccontr)
    assume "contents d j \<noteq> contents (medium fs) j"
    with w(3) that(1) have r: "unat ?k \<le> unat j" "unat j < unat ?k + ?n" by (auto split: if_splits)
    then have t: "unat j - unat ?k < ?n" using n0 by linarith
    have "j = file_sector xs fs (i + (unat j - unat ?k))" using uk [OF t] r(1) by (simp add: word_unat_eq_iff)
    then show False using that(2) file_sector_value(7) [OF h(1,2) nxt(2) [OF t]] by simp
  qed
  let ?fs = "fs\<lparr>medium := d\<rparr>"
  have geo: "geometry ?fs = geometry fs" by simp
  note eqs = file_cong [OF geo] geometry_fields [OF geo]
  have wns: "winsect fs \<notin> file_sectors xs fs" using h(2) by (simp add: file_ok_defs)
  have good: "good ?fs"
    using h(3) w(2) kept [OF _ wns] unfolding good_def window_ok_def geometry_cong [OF geo] by auto
  have view: "view contents ?fs j = view contents fs j" if "j < nsect" "j \<notin> file_sectors xs fs" for j
    using kept [OF that] by (simp add: view_def)
  have fat: "\<forall>c < n_fatent fs. fat_of contents ?fs c = fat_of contents fs c"
    using view file_sector_off(3) [OF assms(1)] by (intro allI impI fat_of_kept [OF _ geo lay]) blast+
  note chains = fat_same_chains [OF fat eqs(9)]
  have ext: "ext xs fs xs ?fs"
    using chains geo view by (simp add: ext_def keeps_but_def)
  let ?D = "fsect fp - ?k < cc" and ?t = "unat (fsect fp - ?k)"
  define fp1 where "fp1 = (if ?D then fp\<lparr>fbuf := take 512 (drop (unat bw + unat ((fsect fp - ?k) * 512)) buff),
      fflag := fflag fp AND NOT FA_DIRTY\<rparr> else fp)"
  have run: "write_direct io ?k cc bw buff fp fs = (FR_OK, 512 * cc, fp1, ?fs)"
    using w(1) d0(1) by (simp add: write_direct_def Let_def fp1_def mult.commute)
  have f1: "fptr fp1 = fptr fp" "fobj fp1 = fobj fp" "fsect fp1 = fsect fp" "fclust fp1 = fclust fp"
    by (simp_all add: fp1_def)
  have nd: "\<not> dirty fp1" using assms(2) by (simp add: fp1_def)
  have un: "unat (512 * cc) = SS * ?n" using assms(8) by (subst unat_mult_lem [THEN iffD1]) simp_all
  have D: "?D \<Longrightarrow> ?t < ?n \<and> fsect fp = file_sector xs fs (i + ?t)"
  proof -
    assume ?D
    then have t: "?t < ?n" by (simp add: word_less_nat_alt)
    have "of_nat ?t = fsect fp - ?k" by simp
    then show ?thesis using t nxt(1) [OF t] by (simp add: algebra_simps)
  qed
  have buf: "fbuf fp1 = (if ?D then take 512 (drop (512 * ?t) ?b) else fbuf fp)"
  proof (cases ?D)
    case True
    then have t: "?t < ?n" using D by blast
    have "512 * ?t + 512 \<le> SS * ?n" using t by simp
    moreover have "unat ((fsect fp - ?k) * 512) = 512 * ?t"
      using t assms(8) by (subst unat_mult_lem [THEN iffD1]) simp_all
    ultimately show ?thesis
      using True by (simp add: fp1_def drop_take add.commute)
  qed (simp add: fp1_def)
  have blen: "length (fbuf fp1) = SS"
    using buf D h(2) bl by (auto simp: file_ok_defs)
  let ?fa = "advance (512 * cc) fp1"
  have size: "unat (objsize (fobj ?fa)) = max (unat (objsize (fobj fp))) (SS * (i + ?n))"
    using advance_size [of fp1 "512 * cc"] assms(6,8) un f1 by (simp add: algebra_simps)
  have room: "SS * (i + ?n) \<le> SS * file_room xs fs"
    using nxt(2) [of "?n - 1"] n0 by simp
  have fc: "file_chain contents xs (fobj ?fa) ?fs"
  proof -
    have "fat_chain (fat_of contents ?fs) (n_fatent fs) xs" if "fat_chain (fat_of contents fs) (n_fatent fs) xs"
      using that fat fat_chain_range [OF that] by (subst fat_chain_cong [of xs _ "fat_of contents fs"]) auto
    then show ?thesis
      using h(2) size room f1(2) unfolding file_ok_def file_chain_def eqs by (auto split: if_splits)
  qed
  have cache: "cache_ok contents xs ?fa ?fs"
    unfolding cache_ok_def eqs
  proof (intro conjI)
    show "length (fbuf ?fa) = SS" using blen by simp
    have "fbuf fp1 = contents d (fsect fp)"
      if j: "j < file_room xs fs" "SS * j < unat (objsize (fobj ?fa))" "fsect fp = file_sector xs fs j" for j
    proof (cases ?D)
      case True
      then have t: "?t < ?n" "fsect fp = file_sector xs fs (i + ?t)" using D by blast+
      with buf True C [OF nxt(2) [OF t(1)]] show ?thesis by simp
    next
      case False
      have nj: "\<not> (i \<le> j \<and> j < i + ?n)"
      proof
        assume r: "i \<le> j \<and> j < i + ?n"
        then have "j - i < ?n" "i + (j - i) = j" by linarith+
        then have "fsect fp = ?k + of_nat (j - i)" using j(3) nxt(1) [of "j - i"] by (simp del: of_nat_diff)
        then have "fsect fp - ?k = of_nat (j - i)" by (simp del: of_nat_diff)
        moreover have "unat (of_nat (j - i) :: u32) = j - i"
          using \<open>j - i < ?n\<close> u32_unat_less [of cc] by (intro u32_of_nat) linarith
        ultimately have ?D using \<open>j - i < ?n\<close> by (simp add: word_less_nat_alt del: of_nat_diff)
        with False show False by simp
      qed
      then have "SS * j < unat (objsize (fobj fp))"
        using j(2) size assms(7) by (auto simp: max_def split: if_splits)
      with h(2) assms(2) j have "fbuf fp = contents (medium fs) (fsect fp)"
        by (simp add: file_ok_def cache_ok_def)
      then show ?thesis using buf False C [OF j(1)] nj j(3) by auto
    qed
    then show "if dirty ?fa then fsect ?fa \<in> file_sectors xs fs
      else \<forall>j < file_room xs fs. SS * j < unat (objsize (fobj ?fa)) \<longrightarrow> fsect ?fa = file_sector xs fs j \<longrightarrow>
        fbuf ?fa = contents (medium ?fs) (fsect ?fa)"
      using nd f1(3) by simp
  qed
  have held: "held xs ?fa ?fs"
    using good h(1) volume_ok_cong [OF geo] fc cache by (simp add: held_def file_ok_def)
  have pu: "unat (fptr fp + 512 * cc) = SS * (i + ?n)"
    using assms(6,8) un by (subst u32_add) simp_all
  have pos: "file_pos xs ?fa ?fs"
  proof -
    have "(SS * (i + ?n) - 1) div SS = i + ?n - 1" using n0 pred_div [of SS "SS * (i + ?n)"] by simp
    moreover have "(i + ?n - 1) div ?c = i div ?c"
      using same_cluster [of i ?c "?n - 1"] assms(4) n0 by simp
    ultimately show ?thesis
      unfolding eqs file_pos_def sector_of_pos(2)
      using pu size f1 assms(9) by (simp add: word_le_nat_alt)
  qed
  have byte: "file_byte contents xs ?fa ?fs x = (if SS * i \<le> x \<and> x < SS * i + length ?b then ?b ! (x - SS * i)
      else file_byte contents xs fp fs x)" if x: "x < unat (objsize (fobj ?fa))" for x
  proof -
    have "x < SS * file_room xs fs" using x size room h(2) by (auto simp: file_ok_defs max_def split: if_splits)
    then have j: "x div SS < file_room xs fs" by (simp add: div_less_iff_less_mult mult.commute)
    have new: "file_byte contents xs ?fa ?fs x = contents d (file_sector xs fs (x div SS)) ! (x mod SS)"
      using nd by (simp add: file_byte_def file_block_def Let_def eqs)
    have old: "file_byte contents xs fp fs x = contents (medium fs) (file_sector xs fs (x div SS)) ! (x mod SS)"
      using assms(2) by (simp add: file_byte_def file_block_def Let_def)
    have e: "x = SS * (x div SS) + x mod SS" "x mod SS < SS" by simp_all
    have r: "i \<le> x div SS \<and> x div SS < i + ?n \<longleftrightarrow> SS * i \<le> x \<and> x < SS * i + length ?b"
      using e bl by (auto simp: less_eq_div_iff_mult_less_eq div_less_iff_less_mult algebra_simps)
    show ?thesis
    proof (cases "SS * i \<le> x \<and> x < SS * i + length ?b")
      case True
      with r have q: "i \<le> x div SS" "x div SS < i + ?n" by blast+
      have "512 * (x div SS - i) + x mod SS = x - SS * i" using e q(1) by (simp add: diff_mult_distrib2)
      moreover have "512 * (x div SS - i) \<le> length ?b" using bl q by simp
      ultimately have "take 512 (drop (512 * (x div SS - i)) ?b) ! (x mod SS) = ?b ! (x - SS * i)"
        using e(2) by (simp add: nth_drop del: take_drop drop_take)
      with new C [OF j] q True show ?thesis by simp
    next
      case False
      with r have "\<not> (i \<le> x div SS \<and> x div SS < i + ?n)" by blast
      with new old C [OF j] False show ?thesis by (simp only: if_False)
    qed
  qed
  have "spliced xs fp fs (SS * i) ?b xs ?fa ?fs"
    by (rule splicedI [OF assms(7) _ byte]) (use size bl in \<open>simp_all add: algebra_simps\<close>)
  then have "wrote xs fp fs ?b xs ?fa ?fs"
    using held pos ext pu assms(6) bl f1 by (simp add: wrote_def algebra_simps)
  with run show ?thesis by blast
qed

lemma cluster_nonzero:
  assumes "volume_ok nsect fs" and "2 \<le> c" and "c < n_fatent fs"
  shows "clst2sect c fs \<noteq> 0"
proof -
  have "fat_end fs \<le> unat (database fs)" "layout nsect fs" using assms(1) by (simp_all add: volume_ok_def)
  then have "unat (clst2sect c fs) \<noteq> 0"
    using cluster_sector(1) [OF assms] by (auto simp: layout_def fat_end_def)
  then show ?thesis by auto
qed

lemma same_wrote:
  assumes "same_file xs fp fs fp1 fs1" and "held xs fp fs" and "fptr fp1 = fptr fp" and "fobj fp1 = fobj fp"
    and "wrote xs fp1 fs1 d zs fp2 fs2"
  shows "wrote xs fp fs d zs fp2 fs2"
  by (rule grows_wrote [OF same_grows [OF assms(1,3,4)] assms(2,5)])

text \<open>The cache on the sector \<open>i\<close>, which is loaded only where the file has bytes.\<close>

lemma write_cache_same:
  assumes "held xs fp fs" and "\<not> dirty fp" and "i < file_room xs fs" and "unat (fptr fp) = SS * i"
  shows "\<exists>fp1 fs1. (if fsect fp \<noteq> file_sector xs fs i \<and> fptr fp < objsize (fobj fp)
        then load_buf io (file_sector xs fs i) fp fs else (FR_OK, fp, fs)) = (FR_OK, fp1, fs1) \<and>
    same_file xs fp fs (fp1\<lparr>fsect := file_sector xs fs i\<rparr>) fs1 \<and>
    fptr fp1 = fptr fp \<and> fobj fp1 = fobj fp \<and> fclust fp1 = fclust fp"
proof (cases "fsect fp \<noteq> file_sector xs fs i \<and> fptr fp < objsize (fobj fp)")
  case True
  from load_same [OF assms(1-3)] show ?thesis unfolding if_P [OF True] by fastforce
next
  case False
  let ?fp = "fp\<lparr>fsect := file_sector xs fs i\<rparr>"
  have h: "good fs" "volume_ok nsect fs" "file_ok contents xs fp fs" using assms(1) by (simp_all add: held_def)
  have nd: "\<not> dirty ?fp" using assms(2) by (simp add: dirty_def)
  have "cache_ok contents xs ?fp fs"
  proof -
    have "fbuf fp = contents (medium fs) (file_sector xs fs i)"
      if j: "j < file_room xs fs" "SS * j < unat (objsize (fobj fp))" "file_sector xs fs i = file_sector xs fs j" for j
    proof -
      have "i = j" by (rule file_sector_inj [OF assms(1,3) j(1,3)])
      then have "fptr fp < objsize (fobj fp)" using j(2) assms(4) by (simp add: word_less_nat_alt)
      with False have s: "fsect fp = file_sector xs fs j" using \<open>i = j\<close> by simp
      with h(3) assms(2) j(1,2) have "fbuf fp = contents (medium fs) (fsect fp)"
        unfolding file_ok_def cache_ok_def by presburger
      then show ?thesis using s \<open>i = j\<close> by simp
    qed
    then show ?thesis using h(3) nd by (simp add: file_ok_def cache_ok_def)
  qed
  then have "held xs ?fp fs" using h by (simp add: held_def file_ok_def)
  then have "same_file xs fp fs ?fp fs"
    using assms(2) nd by (simp add: same_file_def keeps_but_def file_block_def Let_def)
  then show ?thesis unfolding if_not_P [OF False] by blast
qed

lemma write_sector_step:
  assumes "held xs fp fs" and "i < file_room xs fs" and "unat (fptr fp) = SS * i"
    and "SS * i \<le> unat (objsize (fobj fp))" and "fclust fp = xs ! (i div unat (csize fs))"
    and "btw \<noteq> 0" and "SS * i + unat btw < 2 ^ 32" and "unat bw + unat btw \<le> length buff"
    and "unat csect = i mod unat (csize fs)"
  shows "\<exists>n fp1 fs1. write_sector io csect btw bw buff fp fs = (FR_OK, n, fp1, fs1) \<and>
    0 < unat n \<and> unat n \<le> unat btw \<and>
    wrote xs fp fs (take (unat n) (drop (unat bw) buff)) xs (advance n fp1) fs1"
proof -
  obtain fp1 fs1 where f: "flush_buf io fp fs = (FR_OK, fp1, fs1)" "same_file xs fp fs fp1 fs1" "\<not> dirty fp1"
      "fp1 = fp\<lparr>fflag := fflag fp1\<rparr>"
    using flush_same [OF assms(1)] by blast
  have f1: "fobj fp1 = fobj fp" "fptr fp1 = fptr fp" "fclust fp1 = fclust fp" by (subst f(4), simp)+
  have g: "geometry fs1 = geometry fs" "held xs fp1 fs1" using f(2) by (simp_all add: same_file_def)
  note eqs = file_cong [OF g(1)] geometry_fields(4) [OF g(1)] geometry_cong(4) [OF g(1)]
  have h: "volume_ok nsect fs" "file_ok contents xs fp fs" using assms(1) by (simp_all add: held_def)
  have c0: "0 < unat (csize fs)" using h(1) by (simp add: volume_ok_def unat_gt_0)
  note v = file_sector_value [OF h assms(2)]
  let ?x = "xs ! (i div unat (csize fs))" and ?k = "file_sector xs fs i" and ?cc = "btw div 512"
  have k0: "clst2sect ?x fs1 \<noteq> 0"
    unfolding eqs by (rule cluster_nonzero [OF h(1) conjunct1 [OF v(2)] conjunct2 [OF v(2)]])
  have "csect = of_nat (unat csect)" by simp
  then have k: "clst2sect ?x fs1 + csect = ?k" by (simp only: file_sector_def eqs assms(9))
  have i1: "i < file_room xs fs1" using assms(2) by (simp add: eqs)
  show ?thesis
  proof (cases "?cc = 0")
    case True
    obtain fp2 fs2 where c: "(if fsect fp1 \<noteq> ?k \<and> fptr fp1 < objsize (fobj fp1) then load_buf io ?k fp1 fs1
          else (FR_OK, fp1, fs1)) = (FR_OK, fp2, fs2)"
        "same_file xs fp1 fs1 (fp2\<lparr>fsect := ?k\<rparr>) fs2" "fptr fp2 = fptr fp" "fobj fp2 = fobj fp" "fclust fp2 = ?x"
      using write_cache_same [OF g(2) f(3) i1] assms(3,5) f1 unfolding eqs by auto
    let ?fp2 = "fp2\<lparr>fsect := ?k\<rparr>"
    have s2: "same_file xs fp fs ?fp2 fs2" by (rule same_file_trans [OF f(2) c(2)])
    have g2: "geometry fs2 = geometry fs" "held xs ?fp2 fs2" using s2 by (simp_all add: same_file_def)
    note eqs2 = file_cong [OF g2(1)] geometry_fields(4) [OF g2(1)]
    obtain n fp3 where w: "write_part btw bw buff ?fp2 = (n, fp3)" "0 < unat n" "unat n \<le> unat btw"
        "wrote xs ?fp2 fs2 (take (unat n) (drop (unat bw) buff)) xs (advance n fp3) fs2"
      using write_part_step [OF g2(2), of btw bw buff] assms(2-8) c(3-5) by (auto simp: eqs2)
    have "wrote xs fp fs (take (unat n) (drop (unat bw) buff)) xs (advance n fp3) fs2"
      by (rule same_wrote [OF s2 assms(1) _ _ w(4)]) (use c in simp_all)
    moreover have "write_sector io csect btw bw buff fp fs = (FR_OK, n, fp3, fs2)"
      using f(1) f1 assms(5) k0 k True c(1) w(1) unfolding write_sector_def Let_def
      by (simp split del: if_split cong: if_cong)
    ultimately show ?thesis using w(2,3) by blast
  next
    case False
    define cc where "cc = (if csect + ?cc > ucast (csize fs1) then ucast (csize fs1) - csect else ?cc)"
    note dc = direct_count [OF c0 assms(9) False, folded cc_def [unfolded geometry_fields(4) [OF g(1)]]]
    have pos: "?cc > 0" using False by (simp add: word_neq_0_conv)
    have n: "unat (512 * cc) = SS * unat cc"
      using dc(3) u32_unat_less [of btw] by (subst unat_mult_lem [THEN iffD1]) simp_all
    obtain fp2 fs2 where d: "write_direct io ?k cc bw buff fp1 fs1 = (FR_OK, 512 * cc, fp2, fs2)"
        "wrote xs fp1 fs1 (take (SS * unat cc) (drop (unat bw) buff)) xs (advance (512 * cc) fp2) fs2"
      using write_direct_step [OF g(2) f(3) i1, of cc bw buff] dc assms(3-5,7,8) f1 unfolding eqs
      by (auto simp: unat_gt_0)
    have "write_sector io csect btw bw buff fp fs = (FR_OK, 512 * cc, fp2, fs2)"
      using f(1) f1 assms(5) k0 k pos d(1) unfolding write_sector_def Let_def cc_def
      by (simp split del: if_split cong: if_cong)
    with same_wrote [OF f(2) assms(1) f1(2,1) d(2)] n dc show ?thesis by auto
  qed
qed

section \<open>The loop\<close>

lemma wrote_trans:
  assumes "wrote xs fp fs a ys fp1 fs1" and "wrote ys fp1 fs1 b zs fp2 fs2"
    and "unat (fptr fp) \<le> unat (objsize (fobj fp))"
  shows "wrote xs fp fs (a @ b) zs fp2 fs2"
proof -
  have "spliced xs fp fs (unat (fptr fp)) (a @ b) zs fp2 fs2"
    using assms by (intro spliced_append [of _ _ _ _ a ys fp1 fs1]) (simp_all add: wrote_def)
  then show ?thesis using assms(1,2) ext_trans [of xs fs ys fs1 zs fs2] by (simp add: wrote_def)
qed

lemma write_chunk_step:
  assumes "held xs fp fs" and "file_pos xs fp fs" and "no_one contents fs" and "btw \<noteq> 0"
    and "unat (fptr fp) + unat btw < 2 ^ 32" and "unat bw + unat btw \<le> length buff"
  shows "\<exists>x n fp1 fs1. write_chunk io btw bw buff fp fs = Some (x, n, fp1, fs1) \<and>
    (x = None \<and> wrote xs fp fs [] xs fp1 fs1 \<and> disk_full contents fs1 \<or>
     x = Some FR_OK \<and> 0 < unat n \<and> unat n \<le> unat btw \<and>
     (\<exists>xs1. wrote xs fp fs (take (unat n) (drop (unat bw) buff)) xs1 (advance n fp1) fs1))"
proof -
  let ?p = "unat (fptr fp)" and ?cs = "fptr fp div 512 AND (ucast (csize fs) - 1)"
  have le: "?p \<le> unat (objsize (fobj fp))" using assms(2) by (simp add: file_pos_def word_le_nat_alt)
  have m: "fptr fp mod 512 = 0 \<longleftrightarrow> ?p mod SS = 0" by (simp add: word_unat_eq_iff unat_mod_distrib)
  have h: "volume_ok nsect fs" "file_ok contents xs fp fs" using assms(1) by (simp_all add: held_def)
  show ?thesis
  proof (cases "?p mod SS = 0")
    case False
    have "unat (objsize (fobj fp)) \<le> SS * file_room xs fs" using h(2) by (simp add: file_ok_defs)
    then have "?p \<le> SS * file_room xs fs" using le by linarith
    moreover have "?p \<noteq> SS * file_room xs fs" using False by auto
    ultimately have "?p < SS * file_room xs fs" by simp
    then have "?p div SS < file_room xs fs" by (simp add: div_less_iff_less_mult mult.commute)
    moreover have "fsect fp = file_sector xs fs (?p div SS)"
        "fclust fp = xs ! (?p div SS div unat (csize fs))"
      using assms(2) pred_div [of SS ?p] False
      by (auto simp: file_pos_def sector_of_pos(2) word_unat_eq_iff)
    ultimately obtain n fp1 where w: "write_part btw bw buff fp = (n, fp1)" "0 < unat n" "unat n \<le> unat btw"
        "wrote xs fp fs (take (unat n) (drop (unat bw) buff)) xs (advance n fp1) fs"
      using write_part_step [OF assms(1) _ le _ _ assms(4-6)] by blast
    then have "write_chunk io btw bw buff fp fs = Some (Some FR_OK, n, fp1, fs)"
      using False m by (simp add: write_chunk_def)
    with w(2-4) show ?thesis by blast
  next
    case True
    obtain x fp1 fs1 xs1 where c: "write_clust io ?cs fp fs = Some (x, fp1, fs1)" "grows xs fp fs xs1 fp1 fs1"
        "x = None \<and> xs1 = xs \<and> fp1 = fp \<and> (free_clst fs1 = 0 \<or> no_free (fat_of contents fs1) (n_fatent fs)) \<or>
         x = Some FR_OK \<and> ?p div SS < file_room xs1 fs \<and> fclust fp1 = xs1 ! (?p div SS div unat (csize fs))"
      using write_clust_step [OF assms(1,2) True assms(3)] by blast
    have g: "geometry fs1 = geometry fs" "held xs1 fp1 fs1" "fptr fp1 = fptr fp" "objsize (fobj fp1) = objsize (fobj fp)"
      using c(2) by (simp_all add: grows_def ext_def)
    note eqs = file_cong [OF g(1)] geometry_fields(4,5) [OF g(1)]
    from c(3) show ?thesis
    proof
      assume n: "x = None \<and> xs1 = xs \<and> fp1 = fp \<and> (free_clst fs1 = 0 \<or> no_free (fat_of contents fs1) (n_fatent fs))"
      have "file_pos xs fp1 fs1" using assms(2) n unfolding eqs by blast
      then have "wrote xs fp1 fs1 [] xs fp1 fs1"
        using g(2) n same_file_ext [OF same_file_refl [OF g(2)]] by (simp add: wrote_def spliced_nil)
      then have "wrote xs fp fs [] xs fp1 fs1" using grows_wrote c(2) assms(1) n by blast
      moreover have "write_chunk io btw bw buff fp fs = Some (None, 0, fp1, fs1)"
        using True m c(1) n by (simp add: write_chunk_def Let_def)
      moreover have "disk_full contents fs1" using n eqs by (simp add: disk_full_def no_free_def)
      ultimately show ?thesis by blast
    next
      assume s: "x = Some FR_OK \<and> ?p div SS < file_room xs1 fs \<and> fclust fp1 = xs1 ! (?p div SS div unat (csize fs))"
      let ?i = "?p div SS"
      have p: "?p = SS * ?i" using True by auto
      have c0: "csize fs AND (csize fs - 1) = 0" "csize fs \<noteq> 0" using h(1) by (simp_all add: volume_ok_def)
      have csv: "unat ?cs = ?i mod unat (csize fs)" using mask_of_power [OF c0] by (simp add: unat_div_distrib)
      have st: "?i < file_room xs1 fs1" "unat (fptr fp1) = SS * ?i" "SS * ?i \<le> unat (objsize (fobj fp1))"
          "fclust fp1 = xs1 ! (?i div unat (csize fs1))" "SS * ?i + unat btw < 2 ^ 32" "unat ?cs = ?i mod unat (csize fs1)"
        using s g(3,4) p le assms(5) csv by (simp_all add: eqs)
      obtain n fp2 fs2 where w: "write_sector io ?cs btw bw buff fp1 fs1 = (FR_OK, n, fp2, fs2)"
          "0 < unat n" "unat n \<le> unat btw"
          "wrote xs1 fp1 fs1 (take (unat n) (drop (unat bw) buff)) xs1 (advance n fp2) fs2"
        using write_sector_step [OF g(2) st(1-4) assms(4) st(5) assms(6) st(6)] by blast
      have "write_chunk io btw bw buff fp fs = Some (Some FR_OK, n, fp2, fs2)"
        using True m c(1) s w(1) by (simp add: write_chunk_def Let_def)
      with w(2,3) grows_wrote [OF c(2) assms(1) w(4)] show ?thesis by blast
    qed
  qed
qed

lemma write_bytes_step:
  "held xs fp fs \<Longrightarrow> file_pos xs fp fs \<Longrightarrow> no_one contents fs \<Longrightarrow>
   unat (fptr fp) + unat btw < 2 ^ 32 \<Longrightarrow> unat bw + unat btw \<le> length buff \<Longrightarrow> unat bw + unat btw < 2 ^ 32 \<Longrightarrow>
   \<exists>n xs' fp' fs'. write_bytes io btw bw buff fp fs = Some (FR_OK, bw + of_nat n, fp', fs') \<and> n \<le> unat btw \<and>
     wrote xs fp fs (take n (drop (unat bw) buff)) xs' fp' fs' \<and> (n < unat btw \<longrightarrow> disk_full contents fs')"
proof (induction "unat btw" arbitrary: btw bw xs fp fs rule: less_induct)
  case less
  show ?case
  proof (cases "btw = 0")
    case True
    have "wrote xs fp fs [] xs fp fs"
      using less.prems(1,2) same_file_ext [OF same_file_refl [OF less.prems(1)]] by (simp add: wrote_def spliced_nil)
    moreover have "write_bytes io btw bw buff fp fs = Some (FR_OK, bw + of_nat 0, fp, fs)"
      using True by (subst write_bytes.simps) simp
    ultimately show ?thesis using True by (intro exI [of _ 0]) auto
  next
    case False
    obtain x n fp1 fs1 where c: "write_chunk io btw bw buff fp fs = Some (x, n, fp1, fs1)"
        "x = None \<and> wrote xs fp fs [] xs fp1 fs1 \<and> disk_full contents fs1 \<or>
         x = Some FR_OK \<and> 0 < unat n \<and> unat n \<le> unat btw \<and>
         (\<exists>xs1. wrote xs fp fs (take (unat n) (drop (unat bw) buff)) xs1 (advance n fp1) fs1)"
      using write_chunk_step [OF less.prems(1-3) False less.prems(4,5)] by blast
    from c(2) show ?thesis
    proof
      assume r: "x = None \<and> wrote xs fp fs [] xs fp1 fs1 \<and> disk_full contents fs1"
      then have "write_bytes io btw bw buff fp fs = Some (FR_OK, bw + of_nat 0, fp1, fs1)"
        using False c(1) by (subst write_bytes.simps) simp
      with r show ?thesis by (intro exI [of _ 0]) auto
    next
      assume "x = Some FR_OK \<and> 0 < unat n \<and> unat n \<le> unat btw \<and>
         (\<exists>xs1. wrote xs fp fs (take (unat n) (drop (unat bw) buff)) xs1 (advance n fp1) fs1)"
      then obtain xs1 where r: "x = Some FR_OK" "0 < unat n" "unat n \<le> unat btw"
        "wrote xs fp fs (take (unat n) (drop (unat bw) buff)) xs1 (advance n fp1) fs1" by blast
      let ?fa = "advance n fp1"
      have u: "unat (btw - n) = unat btw - unat n" "unat (bw + n) = unat bw + unat n"
        using r(3) less.prems(6) by (simp_all add: unat_sub word_le_nat_alt u32_add)
      have dl: "length (take (unat n) (drop (unat bw) buff)) = unat n" using r(3) less.prems(5) by simp
      have w: "held xs1 ?fa fs1" "file_pos xs1 ?fa fs1" "no_one contents fs1"
          "unat (fptr ?fa) = unat (fptr fp) + unat n"
        using r(4) less.prems(3) dl by (simp_all add: wrote_def ext_def)
      obtain k xs2 fp2 fs2 where i: "write_bytes io (btw - n) (bw + n) buff ?fa fs1 = Some (FR_OK, bw + n + of_nat k, fp2, fs2)"
          "k \<le> unat btw - unat n"
          "wrote xs1 ?fa fs1 (take k (drop (unat bw + unat n) buff)) xs2 fp2 fs2"
          "k < unat btw - unat n \<longrightarrow> disk_full contents fs2"
        using less.hyps [of "btw - n" xs1 ?fa fs1 "bw + n"] w r(2,3) less.prems(4-6) by (auto simp: u)
      have d: "take (unat n) (drop (unat bw) buff) @ take k (drop (unat bw + unat n) buff) =
          take (unat n + k) (drop (unat bw) buff)"
        unfolding take_add by (simp add: add.commute)
      have "unat (fptr fp) \<le> unat (objsize (fobj fp))" using less.prems(2) by (simp add: file_pos_def word_le_nat_alt)
      from wrote_trans [OF r(4) i(3) this] have "wrote xs fp fs (take (unat n + k) (drop (unat bw) buff)) xs2 fp2 fs2"
        unfolding d .
      moreover have "write_bytes io btw bw buff fp fs = Some (FR_OK, bw + of_nat (unat n + k), fp2, fs2)"
        using False c(1) r(1) i(1) by (subst write_bytes.simps) (simp add: add.assoc)
      moreover have "unat n + k \<le> unat btw" "unat n + k < unat btw \<longrightarrow> disk_full contents fs2" using i(2,4) r(3) by auto
      ultimately show ?thesis by blast
    qed
  qed
qed

end

lemma modified_same [simp]:
  "dirty (fp\<lparr>fflag := fflag fp OR FA_MODIFIED\<rparr>) = dirty fp"
  "file_ok contents xs (fp\<lparr>fflag := fflag fp OR FA_MODIFIED\<rparr>) fs = file_ok contents xs fp fs"
  "file_pos xs (fp\<lparr>fflag := fflag fp OR FA_MODIFIED\<rparr>) fs = file_pos xs fp fs"
  "file_bytes contents xs (fp\<lparr>fflag := fflag fp OR FA_MODIFIED\<rparr>) fs = file_bytes contents xs fp fs"
proof -
  have "(f OR FA_MODIFIED) AND FA_DIRTY = f AND FA_DIRTY" for f :: byte
    by (simp add: bit.conj_disj_distrib2)
  then show d: "dirty (fp\<lparr>fflag := fflag fp OR FA_MODIFIED\<rparr>) = dirty fp" by (simp add: dirty_def)
  show "file_ok contents xs (fp\<lparr>fflag := fflag fp OR FA_MODIFIED\<rparr>) fs = file_ok contents xs fp fs"
    "file_pos xs (fp\<lparr>fflag := fflag fp OR FA_MODIFIED\<rparr>) fs = file_pos xs fp fs"
    by (simp_all add: file_ok_defs file_pos_def d)
  show "file_bytes contents xs (fp\<lparr>fflag := fflag fp OR FA_MODIFIED\<rparr>) fs = file_bytes contents xs fp fs"
    by (simp add: file_bytes_def file_byte_def file_block_def Let_def d)
qed

lemma clip_bytes:
  fixes p n :: u32
  shows "unat (if p + n < p then 0xFFFFFFFF - p else n) = min (unat n) (2 ^ 32 - 1 - unat p)"
    and "unat p + min (unat n) (2 ^ 32 - 1 - unat p) < 2 ^ 32"
proof -
  have p: "unat p < 2 ^ 32" by (rule u32_unat_less)
  then show "unat p + min (unat n) (2 ^ 32 - 1 - unat p) < 2 ^ 32" by simp
  have s: "unat (p + n) = (unat p + unat n) mod 2 ^ 32" by (simp add: unat_word_ariths)
  have "p \<le> (0xFFFFFFFF :: u32)" using p by (simp add: word_le_nat_alt)
  then have d: "unat (0xFFFFFFFF - p) = 2 ^ 32 - 1 - unat p" by (simp add: unat_sub word_le_nat_alt)
  have "p + n < p \<longleftrightarrow> 2 ^ 32 \<le> unat p + unat n"
  proof (cases "unat p + unat n < 2 ^ 32")
    case False
    then have "(unat p + unat n) mod 2 ^ 32 = unat p + unat n - 2 ^ 32"
      using p u32_unat_less [of n] by (simp add: mod_if)
    then show ?thesis using False u32_unat_less [of n] by (simp add: word_less_nat_alt s)
  qed (simp add: word_less_nat_alt s)
  then show "unat (if p + n < p then 0xFFFFFFFF - p else n) = min (unat n) (2 ^ 32 - 1 - unat p)"
    using p by (simp add: d)
qed

section \<open>Property\<close>

text \<open>C3: writing a file. On an SD card that keeps the laws of single and multiple block transfers, a
  write to an open file stores the caller's bytes at the pointer: the file becomes the old one with
  these bytes over it, longer when they go past its end, and the chain of its clusters is stretched as
  needed. The number of bytes is first clipped so that the pointer does not pass 4 GiB - 1; the call
  then stops early only when no cluster can be had, that is when the volume's count of free clusters is
  zero or no entry of the allocation table is free. As on every FAT volume, no entry has the reserved
  value 1, before and after. The clusters of other files stay chains apart from it, no sector outside
  the file and the allocation table changes its logical contents, and the invariants of the volume and
  of the file object are kept.\<close>

theorem f_write_splice:
  assumes "stream_disk io ok contents nsect" and "validate io mx (fobj fp) s = (FR_OK, True, s1)"
    and "ferr fp = FR_OK" and "fflag fp AND FA_WRITE \<noteq> 0"
    and "volume_ok nsect (vol s1)" and "window_ok ok contents nsect (vol s1)" and "no_one contents (vol s1)"
    and "file_ok contents xs fp (vol s1)" and "file_pos xs fp (vol s1)"
    and m: "m = min (unat btw) (2 ^ 32 - 1 - unat (fptr fp))" and "m \<le> length buff"
  shows "\<exists>n xs' fp' s'. f_write io mx fp buff btw s = Some (FR_OK, of_nat n, fp', s') \<and> n \<le> m \<and>
    file_bytes contents xs' fp' (vol s') =
      store_at (unat (fptr fp)) (take n buff) (file_bytes contents xs fp (vol s1)) \<and>
    prefix xs xs' \<and> unat (fptr fp') = unat (fptr fp) + n \<and>
    (n < m \<longrightarrow> disk_full contents (vol s')) \<and>
    other_chains contents xs (vol s1) xs' (vol s') \<and>
    (\<forall>k < nsect. \<not> shadow (vol s1) k \<longrightarrow> \<not> in_fat (vol s1) k \<longrightarrow> k \<notin> file_sectors xs' (vol s1) \<longrightarrow>
       view contents (vol s') k = view contents (vol s1) k) \<and>
    volume_ok nsect (vol s') \<and> window_ok ok contents nsect (vol s') \<and> no_one contents (vol s') \<and>
    file_ok contents xs' fp' (vol s') \<and> file_pos xs' fp' (vol s')"
proof -
  note fd = reliable_disk.axioms(1) [OF stream_disk.axioms(1) [OF assms(1)]]
  note fds = fat_disk.held_def [OF fd] fat_disk.good_def [OF fd] fat_disk.keeps_but_def [OF fd]
  note sds = stream_disk.wrote_def [OF assms(1)] stream_disk.ext_def [OF assms(1)]
    stream_disk.spliced_def [OF assms(1)]
  have h: "fat_disk.held ok contents nsect xs fp (vol s1)"
  proof -
    have "layout nsect (vol s1)" using assms(5) by (simp add: volume_ok_def)
    then show ?thesis using assms(5,6,8) by (simp add: fds)
  qed
  define b where "b = (if fptr fp + btw < fptr fp then 0xFFFFFFFF - fptr fp else btw)"
  have bm: "unat b = m" and bf: "unat (fptr fp) + unat b < 2 ^ 32"
    using clip_bytes [of "fptr fp" btw] by (simp_all add: b_def m)
  have b0: "unat (0 :: u32) + unat b < 2 ^ 32" using u32_unat_less [of b] by simp
  obtain n xs' fp' fs' where w: "write_bytes io b 0 buff fp (vol s1) = Some (FR_OK, of_nat n, fp', fs')" "n \<le> m"
      "stream_disk.wrote ok contents nsect xs fp (vol s1) (take n buff) xs' fp' fs'"
      "n < m \<longrightarrow> disk_full contents fs'"
    using stream_disk.write_bytes_step [OF assms(1) h assms(9,7) bf _ b0, of buff] assms(11)
    unfolding bm by auto
  have "f_write io mx fp buff btw s = Some (FR_OK, of_nat n, fp'\<lparr>fflag := fflag fp' OR FA_MODIFIED\<rparr>,
      unlock_volume mx True FR_OK (s1\<lparr>vol := fs'\<rparr>))"
    using assms(2-4) w(1) by (simp add: f_write_def Let_def b_def)
  moreover have "unat (fptr fp') = unat (fptr fp) + n" using w(2,3) assms(11) by (simp add: sds)
  moreover have "no_one contents fs'" "volume_ok nsect fs'" "window_ok ok contents nsect fs'" "prefix xs xs'"
      "file_ok contents xs' fp' fs'" "file_pos xs' fp' fs'" "other_chains contents xs (vol s1) xs' fs'"
      "file_bytes contents xs' fp' fs' = store_at (unat (fptr fp)) (take n buff) (file_bytes contents xs fp (vol s1))"
      "\<forall>k < nsect. \<not> shadow (vol s1) k \<longrightarrow> \<not> in_fat (vol s1) k \<longrightarrow> k \<notin> file_sectors xs' (vol s1) \<longrightarrow>
         view contents fs' k = view contents (vol s1) k"
    using w(3) assms(7) by (simp_all add: sds fds)
  ultimately show ?thesis
    using w(2,4) by (intro exI [of _ n] exI [of _ xs'] exI [of _ "fp'\<lparr>fflag := fflag fp' OR FA_MODIFIED\<rparr>"]
        exI [of _ "unlock_volume mx True FR_OK (s1\<lparr>vol := fs'\<rparr>)"]) simp
qed

lemma sample_no_one: "no_one (disk_contents sim_mem) (vol sample_file_system)"
proof -
  have "fat_of (disk_contents sim_mem) (vol sample_file_system) c = (if c = 5 then 0x0FFFFFFF else 0)" if "c < 100" for c
    using sample_file_volume_fat [OF that]
    by (simp add: sample_file_system_def fat_of_def fat_byte_def [abs_def] view_def [abs_def] cong: if_cong)
  moreover have "n_fatent (vol sample_file_system) = 100"
    by (simp add: sample_file_system_def sample_file_volume_def sample_volume_def)
  ultimately show ?thesis by (simp add: no_one_def)
qed

theorem f_write_splice_witness:
  "\<exists>xs' fp' s'. f_write (sd_io sim_api) (os_mutex kernel_api) sample_file [0x78, 0x79] 2 sample_file_system =
     Some (FR_OK, 2, fp', s') \<and> unat (fptr fp') = 5 \<and>
     take 6 (file_bytes (disk_contents sim_mem) xs' fp' (vol s')) = [0x61, 0x62, 0x63, 0x78, 0x79, 0]"
proof -
  obtain s1 where v: "validate (sd_io sim_api) (os_mutex kernel_api) (fobj sample_file) sample_file_system = (FR_OK, True, s1)"
      and e: "vol s1 = vol sample_file_system"
    by (rule sample_file_valid)
  have g: "ferr sample_file = FR_OK" "fflag sample_file AND FA_WRITE \<noteq> 0" "unat (fptr sample_file) = 3"
    by (simp_all add: sample_file_def)
  obtain fp1 s2 where run: "f_write (sd_io sim_api) (os_mutex kernel_api) sample_file [0x78, 0x79] 2 sample_file_system
      = Some (FR_OK, 2, fp1, s2)"
  proof -
    have "write_chunk (sd_io sim_api) 2 0 [0x78, 0x79] sample_file (vol s1) =
        (case write_part 2 0 [0x78, 0x79] sample_file of (n, fp) \<Rightarrow> Some (Some FR_OK, n, fp, vol s1))"
      by (simp add: write_chunk_def sample_file_def split_beta)
    moreover have "fst (write_part 2 0 [0x78, 0x79] sample_file) = 2"
      by (simp add: write_part_def Let_def sample_file_def)
    ultimately have "\<exists>fp. write_bytes (sd_io sim_api) 2 0 [0x78, 0x79] sample_file (vol s1) = Some (FR_OK, 2, fp, vol s1)"
      by (subst write_bytes.simps, subst write_bytes.simps) (auto simp: split_beta)
    moreover have "\<not> fptr sample_file + 2 < fptr sample_file" by (simp add: sample_file_def)
    ultimately show thesis using that v g(1,2) by (auto simp: f_write_def Let_def)
  qed
  have b: "take 6 (store_at 3 [0x78, 0x79]
      (file_bytes (disk_contents sim_mem) [5] sample_file (vol sample_file_system))) = [0x61, 0x62, 0x63, 0x78, 0x79, 0]"
    by (simp add: file_bytes_def file_byte_def file_block_def Let_def dirty_def sample_file_def sample_file_system_def
        sample_file_volume_def sample_volume_def file_sector_def clst2sect_def upt_rec store_at_def)
  obtain n xs' where n: "of_nat n = (2 :: u32)" "n \<le> 2" "unat (fptr fp1) = 3 + n"
      "file_bytes (disk_contents sim_mem) xs' fp1 (vol s2) =
        store_at 3 (take n [0x78, 0x79]) (file_bytes (disk_contents sim_mem) [5] sample_file (vol sample_file_system))"
    using f_write_splice [OF sim_disk.stream_disk_axioms v g(1,2) sample_file_system_ok(1,2) [folded e]
        sample_no_one [folded e] sample_file_system_ok(3,4) [folded e] refl, of 2 "[0x78, 0x79]", unfolded e g] run
    by auto
  have "n = 2"
  proof -
    have "n = 0 \<or> n = 1 \<or> n = 2" using n(2) by linarith
    then show ?thesis using n(1) by auto
  qed
  then have "take 6 (file_bytes (disk_contents sim_mem) xs' fp1 (vol s2)) = [0x61, 0x62, 0x63, 0x78, 0x79, 0]"
      "unat (fptr fp1) = 5"
    using n(3,4) b by simp_all
  with run show ?thesis by blast
qed

end
