(* ===== verification/FatSeek.thy ===== *)
theory FatSeek
  imports FatWrite
begin

text \<open>
  Moving the pointer of a file inside its bytes. \<open>seek_move\<close> follows the chain of the file from its
  start, or from the current cluster when the target lies behind it; \<open>seek_load\<close> brings the sector of
  the new position into the cache, so that the invariant of the file holds again.
\<close>

lemma and_power:
  assumes "unat (c :: u32) = 2 ^ n"
  shows "unat (x AND (c - 1)) = unat x mod unat c" and "unat (x AND NOT (c - 1)) = unat x div unat c * unat c"
proof -
  have "c \<noteq> 0" using assms by (auto simp: word_unat_eq_iff)
  then have "unat (c - 1) = mask n" using assms by (simp add: unat_minus_one mask_eq_exp_minus_1)
  then show m: "unat (x AND (c - 1)) = unat x mod unat c"
    using assms by (simp add: unsigned_and_eq take_bit_eq_mask [symmetric] take_bit_eq_mod)
  have "NOT x AND (x AND (c - 1)) = 0" by (simp add: and.assoc [symmetric])
  then have "x AND NOT (c - 1) = x - (x AND (c - 1))"
    by (simp add: disjunctive_diff_eq_and_not bit.conj_disj_distrib)
  then have "unat (x AND NOT (c - 1)) = unat x - unat x mod unat c"
    using m by (simp add: unat_sub word_le_nat_alt)
  then show "unat (x AND NOT (c - 1)) = unat x div unat c * unat c"
    by (simp add: minus_mod_eq_div_mult)
qed

lemma cluster_bytes:
  assumes "volume_ok nsect fs"
  shows "unat (ucast (csize fs) * 512 :: u32) = unat (csize fs) * SS" and "0 < unat (csize fs)"
    and "\<exists>n. unat (ucast (csize fs) * 512 :: u32) = 2 ^ n"
proof -
  have c: "csize fs AND (csize fs - 1) = 0" "csize fs \<noteq> 0" using assms by (simp_all add: volume_ok_def)
  show c0: "0 < unat (csize fs)" using c(2) by (simp add: unat_gt_0)
  have "unat (csize fs) < 2 ^ 16" by (rule order_less_le_trans [OF unsigned_less]) simp
  then show u: "unat (ucast (csize fs) * 512 :: u32) = unat (csize fs) * SS"
    by (subst unat_mult_lem [THEN iffD1]) simp_all
  have "unat (csize fs) AND (unat (csize fs) - 1) = 0"
    using arg_cong [OF c(1), of unat] unat_minus_one [OF c(2)] by (simp add: unsigned_and_eq)
  then obtain n where "unat (csize fs) = 2 ^ n" using nat_power_of_two c0 by blast
  then have "unat (csize fs) * SS = 2 ^ (n + 9)" by (simp add: power_add)
  with u show "\<exists>n. unat (ucast (csize fs) * 512 :: u32) = 2 ^ n" by metis
qed

context stream_disk begin

lemma follow_chain:
  \<comment> \<open>the next cluster, by either way the code takes\<close>
  assumes "held xs fp fs" and "Suc j < length xs"
  shows "\<exists>fs1. (if fflag fp AND FA_WRITE \<noteq> 0 then create_chain io (xs ! j) fs else Some (get_fat io (xs ! j) fs))
      = Some (xs ! Suc j, fs1) \<and> same_file xs fp fs fp fs1"
proof -
  have j: "j < length xs" using assms(2) by simp
  note e = chain_entry [OF assms(1) j] chain_entry [OF assms(1,2)]
  have h: "good fs" "volume_ok nsect fs" "file_ok contents xs fp fs" using assms(1) by (simp_all add: held_def)
  have ok: "fat_ok fs" using h(2) by (simp add: volume_ok_def)
  have "fat_chain (fat_of contents fs) (n_fatent fs) xs" using h(3) j by (auto simp: file_ok_defs split: if_splits)
  from chain_next [OF this assms(2)] have F: "fat_of contents fs (xs ! j) = xs ! Suc j" .
  obtain fs1 where g: "get_fat io (xs ! j) fs = (xs ! Suc j, fs1)"
    using get_fat_ok [OF h(1) ok, of "xs ! j"] e(1) F by auto
  note s = get_fat_same [OF assms(1) g]
  have n: "n_fatent fs1 = n_fatent fs" using s geometry_fields(5) by (metis same_file_def)
  have "xs ! j \<noteq> 0" "\<not> xs ! Suc j < 2" using e by (auto simp: word_le_nat_alt word_less_nat_alt)
  then have "create_chain io (xs ! j) fs = Some (xs ! Suc j, fs1)"
    using g e(2) n by (simp add: create_chain_def chain_start_def)
  with g s show ?thesis by auto
qed

lemma same_file_update [simp]:
  "same_file xs (fp\<lparr>fptr := p\<rparr>) fs fp' fs' = same_file xs fp fs fp' fs'"
  "same_file xs (fp\<lparr>fclust := c\<rparr>) fs fp' fs' = same_file xs fp fs fp' fs'"
  "same_file xs fp fs (fp'\<lparr>fptr := p\<rparr>) fs' = same_file xs fp fs fp' fs'"
  "same_file xs fp fs (fp'\<lparr>fclust := c\<rparr>) fs' = same_file xs fp fs fp' fs'"
  by (simp_all add: same_file_def held_def)

lemma held_update [simp]:
  "held xs (fp\<lparr>fptr := p\<rparr>) fs = held xs fp fs" "held xs (fp\<lparr>ferr := e\<rparr>) fs = held xs fp fs"
  by (simp_all add: held_def)

lemma seek_follow_same:
  assumes "bcs = ucast (csize fs0) * 512"
  shows "held xs fp fs \<Longrightarrow> geometry fs = geometry fs0 \<Longrightarrow> j < length xs \<Longrightarrow> fclust fp = xs ! j \<Longrightarrow>
    unat (fptr fp) = j * unat bcs \<Longrightarrow> 0 < unat ofs \<Longrightarrow>
    unat (fptr fp) + unat ofs \<le> length xs * unat bcs \<Longrightarrow> unat (fptr fp) + unat ofs < 2 ^ 32 \<Longrightarrow>
    \<exists>j' ofs' fp' fs'. seek_follow io bcs (xs ! j) ofs fp fs = Some (FR_OK, xs ! j', ofs', fp', fs') \<and>
      same_file xs fp fs fp' fs' \<and> j' < length xs \<and> fclust fp' = xs ! j' \<and> unat (fptr fp') = j' * unat bcs \<and>
      0 < unat ofs' \<and> unat ofs' \<le> unat bcs \<and> unat (fptr fp') + unat ofs' = unat (fptr fp) + unat ofs \<and>
      fobj fp' = fobj fp"
proof (induction "unat ofs" arbitrary: j ofs fp fs rule: less_induct)
  case less
  have h: "volume_ok nsect fs" using less.prems(1) by (simp add: held_def)
  have v0: "volume_ok nsect fs0" using h volume_ok_cong [OF less.prems(2)] by simp
  have b0: "0 < unat bcs" using cluster_bytes [OF v0] assms by simp
  show ?case
  proof (cases "ofs > bcs")
    case False
    then have "seek_follow io bcs (xs ! j) ofs fp fs = Some (FR_OK, xs ! j, ofs, fp, fs)"
      by (subst seek_follow.simps) simp
    with False less.prems(3-6) same_file_refl [OF less.prems(1)] show ?thesis
      by (auto simp: not_less word_le_nat_alt)
  next
    case True
    then have ob: "unat bcs < unat ofs" by (simp add: word_less_nat_alt)
    have "j * unat bcs + unat bcs < length xs * unat bcs" using less.prems(5,7) ob by linarith
    then have "Suc j * unat bcs < length xs * unat bcs" by simp
    then have j1: "Suc j < length xs" using mult_less_cancel2 by blast
    let ?fp = "fp\<lparr>fptr := fptr fp + bcs\<rparr>"
    have hp: "held xs ?fp fs" using less.prems(1) by simp
    obtain fs1 where c: "(if fflag ?fp AND FA_WRITE \<noteq> 0 then create_chain io (xs ! j) fs
          else Some (get_fat io (xs ! j) fs)) = Some (xs ! Suc j, fs1)" "same_file xs ?fp fs ?fp fs1"
      using follow_chain [OF hp j1] by blast
    let ?fp1 = "?fp\<lparr>fclust := xs ! Suc j\<rparr>"
    have s1: "same_file xs fp fs ?fp1 fs1" using c(2) by simp
    have g1: "geometry fs1 = geometry fs0" "held xs ?fp1 fs1"
      using s1 less.prems(2) by (simp_all add: same_file_def)
    have n1: "n_fatent fs1 = n_fatent fs" using s1 geometry_fields(5) by (metis same_file_def)
    have e: "2 \<le> xs ! Suc j \<and> xs ! Suc j < n_fatent fs \<and> xs ! Suc j \<noteq> 0xFFFFFFFF"
      by (rule chain_entry [OF less.prems(1) j1])
    have e': "\<not> xs ! Suc j \<le> 1" "xs ! Suc j \<noteq> 0" "\<not> n_fatent fs1 \<le> xs ! Suc j"
      using e n1 by (auto simp: word_le_nat_alt word_less_nat_alt)
    have step: "seek_follow io bcs (xs ! j) ofs fp fs = seek_follow io bcs (xs ! Suc j) (ofs - bcs) ?fp1 fs1"
      using True c(1) e e' by (subst seek_follow.simps) (simp split del: if_split)
    have u: "unat (ofs - bcs) = unat ofs - unat bcs" using ob by (simp add: unat_sub word_le_nat_alt)
    have p: "unat (fptr fp + bcs) = unat (fptr fp) + unat bcs" using less.prems(8) ob by (intro u32_add) linarith
    obtain j' ofs' fp' fs' where r: "seek_follow io bcs (xs ! Suc j) (ofs - bcs) ?fp1 fs1 = Some (FR_OK, xs ! j', ofs', fp', fs')"
        "same_file xs ?fp1 fs1 fp' fs'" "j' < length xs" "fclust fp' = xs ! j'" "unat (fptr fp') = j' * unat bcs"
        "0 < unat ofs'" "unat ofs' \<le> unat bcs" "unat (fptr fp') + unat ofs' = unat (fptr fp) + unat ofs"
        "fobj fp' = fobj fp"
      using less.hyps [of "ofs - bcs" ?fp1 fs1 "Suc j"] ob b0 g1 j1 less.prems(5,7,8) u p by auto
    with step same_file_trans [OF s1 r(2)] show ?thesis by auto
  qed
qed

lemma seek_move_same:
  assumes "held xs fp fs" and "file_pos xs fp fs" and "ofs \<le> objsize (fobj fp)"
  shows "\<exists>k fp' fs'. seek_move io ofs fp fs = Some (FR_OK, k, fp', fs') \<and> same_file xs fp fs fp' fs' \<and>
    fptr fp' = ofs \<and> fobj fp' = fobj fp \<and>
    (ofs \<noteq> 0 \<longrightarrow> fclust fp' = xs ! ((unat ofs - 1) div (unat (csize fs) * SS))) \<and>
    (unat ofs mod SS \<noteq> 0 \<longrightarrow> k = file_sector xs fs (unat ofs div SS))"
proof (cases "ofs = 0")
  case True
  then show ?thesis using same_file_refl [OF assms(1)] by (auto simp: seek_move_def Let_def)
next
  case False
  let ?c = "unat (csize fs)" and ?bcs = "ucast (csize fs) * 512 :: u32" and ?p = "unat (fptr fp)"
  have h: "volume_ok nsect fs" "file_ok contents xs fp fs" using assms(1) by (simp_all add: held_def)
  note b = cluster_bytes [OF h(1)]
  have b0: "0 < unat ?bcs" using b by simp
  have o0: "0 < unat ofs" using False by (simp add: unat_gt_0)
  have size: "unat ofs \<le> length xs * unat ?bcs"
    using h(2) assms(3) b(1) by (simp add: file_ok_defs file_room_def word_le_nat_alt algebra_simps)
  have le: "?p \<le> unat (objsize (fobj fp))" using assms(2) by (simp add: file_pos_def word_le_nat_alt)
  have ne: "xs \<noteq> []" using size o0 by auto
  have sc: "sclust (fobj fp) = xs ! 0" using h(2) ne by (simp add: file_ok_defs hd_conv_nth)
  let ?fp = "fp\<lparr>fptr := 0\<rparr>"
  have start: "\<exists>j o1 fp1. seek_start io ?bcs (fptr fp) ofs ?fp fs = Some (FR_OK, xs ! j, o1, fp1, fs) \<and> j < length xs \<and>
      fclust fp1 = xs ! j \<and> unat (fptr fp1) = j * unat ?bcs \<and> 0 < unat o1 \<and> unat (fptr fp1) + unat o1 = unat ofs \<and>
      same_file xs fp fs fp1 fs \<and> fobj fp1 = fobj fp"
  proof (cases "fptr fp > 0 \<and> (ofs - 1) div ?bcs \<ge> (fptr fp - 1) div ?bcs")
    case True
    let ?j = "(?p - 1) div unat ?bcs" and ?q = "(fptr fp - 1) AND NOT (?bcs - 1)"
    have p0: "fptr fp \<noteq> 0" "0 < ?p" using True by (auto simp: unat_gt_0)
    have pm: "unat (fptr fp - 1) = ?p - 1" "unat (ofs - 1) = unat ofs - 1"
      using p0(1) False by (simp_all add: unat_minus_one)
    obtain m where "unat ?bcs = 2 ^ m" using b(3) by blast
    then have q: "unat ?q = ?j * unat ?bcs" using and_power(2) pm by simp
    have "?j \<le> (unat ofs - 1) div unat ?bcs"
      using True pm by (simp add: word_le_nat_alt unat_div_distrib)
    then have "?j * unat ?bcs \<le> (unat ofs - 1) div unat ?bcs * unat ?bcs" by (rule mult_le_mono1)
    also have "\<dots> \<le> unat ofs - 1" by (rule div_times_less_eq_dividend)
    finally have jo: "?j * unat ?bcs < unat ofs" using o0 by linarith
    then have j: "?j < length xs" using size by (meson mult_less_cancel2 order_less_le_trans)
    have f: "fclust fp = xs ! ?j" using assms(2) p0(1) b(1) by (simp add: file_pos_def)
    have u: "unat (ofs - ?q) = unat ofs - ?j * unat ?bcs" using q jo by (simp add: unat_sub word_le_nat_alt)
    have "seek_start io ?bcs (fptr fp) ofs ?fp fs = Some (FR_OK, xs ! ?j, ofs - ?q, fp\<lparr>fptr := ?q\<rparr>, fs)"
      using True f by (simp add: seek_start_def Let_def)
    with j f q u jo same_file_refl [OF assms(1)] show ?thesis
      by (intro exI [of _ ?j] exI [of _ "ofs - ?q"] exI [of _ "fp\<lparr>fptr := ?q\<rparr>"]) simp
  next
    case nt: False
    have "xs ! 0 \<noteq> 0" using chain_entry [OF assms(1), of 0] ne by auto
    then have "seek_start io ?bcs (fptr fp) ofs ?fp fs = Some (FR_OK, xs ! 0, ofs, fp\<lparr>fptr := 0, fclust := xs ! 0\<rparr>, fs)"
      unfolding seek_start_def if_not_P [OF nt] Let_def by (simp add: sc)
    with ne o0 same_file_refl [OF assms(1)] show ?thesis
      by (intro exI [of _ 0] exI [of _ ofs] exI [of _ "fp\<lparr>fptr := 0, fclust := xs ! 0\<rparr>"]) simp
  qed
  then obtain j o1 fp1 where s: "seek_start io ?bcs (fptr fp) ofs ?fp fs = Some (FR_OK, xs ! j, o1, fp1, fs)"
      "j < length xs" "fclust fp1 = xs ! j" "unat (fptr fp1) = j * unat ?bcs" "0 < unat o1"
      "unat (fptr fp1) + unat o1 = unat ofs" "same_file xs fp fs fp1 fs" "fobj fp1 = fobj fp" by blast
  have h1: "held xs fp1 fs" using s(7) by (simp add: same_file_def)
  obtain j' o2 fp2 fs2 where f: "seek_follow io ?bcs (xs ! j) o1 fp1 fs = Some (FR_OK, xs ! j', o2, fp2, fs2)"
      "same_file xs fp1 fs fp2 fs2" "j' < length xs" "fclust fp2 = xs ! j'" "unat (fptr fp2) = j' * unat ?bcs"
      "0 < unat o2" "unat o2 \<le> unat ?bcs" "unat (fptr fp2) + unat o2 = unat ofs" "fobj fp2 = fobj fp"
    using seek_follow_same [OF refl h1 refl s(2-5)] s(6,8) size u32_unat_less [of ofs] by auto
  have nz: "xs ! j \<noteq> 0" using chain_entry [OF assms(1) s(2)] by auto
  let ?fp3 = "fp2\<lparr>fptr := fptr fp2 + o2\<rparr>"
  have s3: "same_file xs fp fs ?fp3 fs2" using same_file_trans [OF s(7) f(2)] by simp
  have g: "geometry fs2 = geometry fs" using s3 by (simp add: same_file_def)
  have o: "fptr fp2 + o2 = ofs" using f(8) u32_unat_less [of ofs] by (simp add: word_unat_eq_iff u32_add)
  have idx: "(unat ofs - 1) div (?c * SS) = j'"
  proof (rule div_nat_eqI)
    show "?c * SS * j' \<le> unat ofs - 1" using f(5,6,8) b(1) by (simp add: algebra_simps)
    show "unat ofs - 1 < ?c * SS * Suc j'" using f(5-8) b(1) by (simp add: algebra_simps)
  qed
  have om: "unat ofs mod SS = unat o2 mod SS" "unat ofs div SS = j' * ?c + unat o2 div SS"
    using f(5,8) b(1) by (auto simp flip: f(8) simp: mult.assoc [symmetric])
  have m: "o2 mod 512 \<noteq> 0 \<longleftrightarrow> unat o2 mod SS \<noteq> 0" by (simp add: word_unat_eq_iff unat_mod_distrib)
  have op: "ofs > 0" using False by (simp add: word_neq_0_conv)
  show ?thesis
  proof (cases "unat o2 mod SS = 0")
    case True
    then have "seek_move io ofs fp fs = Some (FR_OK, 0, ?fp3, fs2)"
      using op s(1) nz f(1) m by (simp add: seek_move_def Let_def)
    with s3 o f(4,9) idx om True show ?thesis by auto
  next
    case nb: False
    note e = chain_entry [OF assms(1) f(3)]
    let ?k = "clst2sect (xs ! j') fs2"
    have k0: "?k \<noteq> 0" unfolding geometry_cong(4) [OF g] using cluster_nonzero [OF h(1)] e by blast
    have "unat o2 \<noteq> unat ?bcs" using nb b(1) by auto
    then have lt: "unat o2 div SS < ?c" using f(7) b(1) by (simp add: div_less_iff_less_mult)
    have ud: "unat (o2 div 512) = unat o2 div SS" by (simp add: unat_div_distrib)
    have "o2 div 512 = of_nat (unat (o2 div 512))" by simp
    then have "?k + o2 div 512 = file_sector xs fs (unat ofs div SS)"
      unfolding file_sector_def om(2) geometry_cong(4) [OF g] ud using lt b(2) by simp
    moreover have "seek_move io ofs fp fs = Some (FR_OK, ?k + o2 div 512, ?fp3, fs2)"
      using op s(1) nz f(1) m nb k0 by (simp add: seek_move_def Let_def)
    ultimately show ?thesis using s3 o f(4,9) idx by auto
  qed
qed

lemma seek_load_same:
  assumes "held xs fp fs" and "fptr fp \<le> objsize (fobj fp)"
    and "fptr fp \<noteq> 0 \<longrightarrow> fclust fp = xs ! ((unat (fptr fp) - 1) div (unat (csize fs) * SS))"
    and "unat (fptr fp) mod SS \<noteq> 0 \<longrightarrow> k = file_sector xs fs (unat (fptr fp) div SS)"
  shows "\<exists>fp' fs'. seek_load io k fp fs = (FR_OK, fp', fs') \<and> same_file xs fp fs fp' fs' \<and>
    file_pos xs fp' fs' \<and> fptr fp' = fptr fp \<and> fobj fp' = fobj fp"
proof -
  let ?p = "unat (fptr fp)"
  have m: "fptr fp mod 512 \<noteq> 0 \<longleftrightarrow> ?p mod SS \<noteq> 0" by (simp add: word_unat_eq_iff unat_mod_distrib)
  have h: "volume_ok nsect fs" "file_ok contents xs fp fs" using assms(1) by (simp_all add: held_def)
  show ?thesis
  proof (cases "?p mod SS \<noteq> 0 \<and> k \<noteq> fsect fp")
    case False
    then have "seek_load io k fp fs = (FR_OK, fp, fs)" using m by (auto simp: seek_load_def)
    moreover have "file_pos xs fp fs" using False assms(2-4) by (auto simp: file_pos_def)
    ultimately show ?thesis using same_file_refl [OF assms(1)] by blast
  next
    case True
    let ?i = "?p div SS"
    have "?p \<le> SS * file_room xs fs" using h(2) assms(2) by (simp add: file_ok_defs word_le_nat_alt)
    moreover have "?p \<noteq> SS * file_room xs fs" using True by auto
    ultimately have i: "?i < file_room xs fs" by (simp add: div_less_iff_less_mult mult.commute)
    have k: "k = file_sector xs fs ?i" using assms(4) True by blast
    obtain fp1 fs1 where f: "flush_buf io fp fs = (FR_OK, fp1, fs1)" "same_file xs fp fs fp1 fs1" "\<not> dirty fp1"
        "fp1 = fp\<lparr>fflag := fflag fp1\<rparr>"
      using flush_same [OF assms(1)] by blast
    have g1: "geometry fs1 = geometry fs" "held xs fp1 fs1" using f(2) by (simp_all add: same_file_def)
    have f1: "fobj fp1 = fobj fp" "fptr fp1 = fptr fp" "fclust fp1 = fclust fp" by (subst f(4), simp)+
    have i1: "?i < file_room xs fs1" using i by (simp add: file_cong(3) [OF g1(1)])
    obtain fs2 where l: "load_buf io k fp1 fs1 = (FR_OK, fp1\<lparr>fbuf := file_block contents xs fp1 fs1 ?i\<rparr>, fs2)"
        "same_file xs fp1 fs1 (fp1\<lparr>fbuf := file_block contents xs fp1 fs1 ?i, fsect := k\<rparr>) fs2"
      using load_same [OF g1(2) f(3) i1] unfolding file_cong(1) [OF g1(1)] k [symmetric] by blast
    let ?fp = "fp1\<lparr>fbuf := file_block contents xs fp1 fs1 ?i, fsect := k\<rparr>"
    have s2: "same_file xs fp fs ?fp fs2" by (rule same_file_trans [OF f(2) l(2)])
    have "seek_load io k fp fs = (FR_OK, ?fp, fs2)"
      using True m f(1) l(1) by (simp add: seek_load_def)
    moreover have "file_pos xs ?fp fs2"
    proof -
      have "geometry fs2 = geometry fs" using s2 by (simp add: same_file_def)
      note eqs = file_cong(4) [OF this]
      show ?thesis unfolding eqs using assms(2-4) True f1 by (simp add: file_pos_def)
    qed
    ultimately show ?thesis using s2 f1 by auto
  qed
qed

lemma f_lseek_same:
  assumes "validate io mx (fobj fp) s = (FR_OK, True, s1)" and "ferr fp = FR_OK"
    and "held xs fp (vol s1)" and "file_pos xs fp (vol s1)"
    and "fflag fp AND FA_WRITE \<noteq> 0 \<longrightarrow> ofs \<le> objsize (fobj fp)"
  shows "\<exists>fp' fs'. f_lseek io mx fp ofs s = Some (FR_OK, fp', unlock_volume mx True FR_OK (s1\<lparr>vol := fs'\<rparr>)) \<and>
    same_file xs fp (vol s1) fp' fs' \<and> file_pos xs fp' fs' \<and> fobj fp' = fobj fp \<and>
    fptr fp' = (if ofs > objsize (fobj fp) then objsize (fobj fp) else ofs)"
proof -
  define t where "t = (if ofs > objsize (fobj fp) then objsize (fobj fp) else ofs)"
  have t: "(if ofs > objsize (fobj fp) \<and> fflag fp AND FA_WRITE = 0 then objsize (fobj fp) else ofs) = t"
    using assms(5) by (auto simp: t_def not_less)
  have tl: "t \<le> objsize (fobj fp)" by (simp add: t_def not_less)
  obtain k fp1 fs1 where m: "seek_move io t fp (vol s1) = Some (FR_OK, k, fp1, fs1)" "same_file xs fp (vol s1) fp1 fs1"
      "fptr fp1 = t" "fobj fp1 = fobj fp"
      "t \<noteq> 0 \<longrightarrow> fclust fp1 = xs ! ((unat t - 1) div (unat (csize (vol s1)) * SS))"
      "unat t mod SS \<noteq> 0 \<longrightarrow> k = file_sector xs (vol s1) (unat t div SS)"
    using seek_move_same [OF assms(3,4) tl] by blast
  have g: "geometry fs1 = geometry (vol s1)" "held xs fp1 fs1" using m(2) by (simp_all add: same_file_def)
  obtain fp2 fs2 where l: "seek_load io k fp1 fs1 = (FR_OK, fp2, fs2)" "same_file xs fp1 fs1 fp2 fs2"
      "file_pos xs fp2 fs2" "fptr fp2 = t" "fobj fp2 = fobj fp"
    using seek_load_same [OF g(2), of k] m(3-6) tl unfolding file_cong(1) [OF g(1)] geometry_fields(4) [OF g(1)] by auto
  have "\<not> fptr fp1 > objsize (fobj fp1)" using tl m(3,4) by (simp add: not_less)
  then have "f_lseek io mx fp ofs s = Some (FR_OK, fp2, unlock_volume mx True FR_OK (s1\<lparr>vol := fs2\<rparr>))"
    using assms(1,2) t m(1) l(1) by (simp add: f_lseek_def Let_def)
  with same_file_trans [OF m(2) l(2)] l(3-5) show ?thesis unfolding t_def by blast
qed

end

section \<open>Property\<close>

text \<open>C7: moving the pointer. A seek to an offset of the file, or past its end in a file that was opened
  for reading only, returns with the pointer at that offset, at the end of the file at most. The chain
  is followed from its start or from the current cluster, the sector of the new position is in the
  cache, and the bytes of the file, those the cache held and had not written included, its entry and
  the invariants of the volume and of the file object are kept.\<close>

theorem f_lseek_moves:
  assumes "stream_disk io ok contents nsect" and "validate io mx (fobj fp) s = (FR_OK, True, s1)"
    and "ferr fp = FR_OK" and "fflag fp AND FA_WRITE = 0 \<or> ofs \<le> objsize (fobj fp)"
    and "volume_ok nsect (vol s1)" and "window_ok ok contents nsect (vol s1)"
    and "file_ok contents xs fp (vol s1)" and "file_pos xs fp (vol s1)"
  shows "\<exists>fp' s'. f_lseek io mx fp ofs s = Some (FR_OK, fp', s') \<and>
    unat (fptr fp') = min (unat ofs) (unat (objsize (fobj fp))) \<and> fobj fp' = fobj fp \<and>
    file_bytes contents xs fp' (vol s') = file_bytes contents xs fp (vol s1) \<and>
    volume_ok nsect (vol s') \<and> window_ok ok contents nsect (vol s') \<and>
    file_ok contents xs fp' (vol s') \<and> file_pos xs fp' (vol s')"
proof -
  let ?o = "unat (objsize (fobj fp))"
  note fd = reliable_disk.axioms(1) [OF stream_disk.axioms(1) [OF assms(1)]]
  have h: "fat_disk.held ok contents nsect xs fp (vol s1)"
  proof -
    have "layout nsect (vol s1)" using assms(5) by (simp add: volume_ok_def)
    then show ?thesis using assms(5-7) by (simp add: fat_disk.held_def [OF fd] fat_disk.good_def [OF fd])
  qed
  obtain fp' fs' where r: "f_lseek io mx fp ofs s = Some (FR_OK, fp', unlock_volume mx True FR_OK (s1\<lparr>vol := fs'\<rparr>))"
      "fat_disk.same_file ok contents nsect xs fp (vol s1) fp' fs'" "file_pos xs fp' fs'" "fobj fp' = fobj fp"
      "fptr fp' = (if ofs > objsize (fobj fp) then objsize (fobj fp) else ofs)"
    using stream_disk.f_lseek_same [OF assms(1-3) h assms(8)] assms(4) by blast
  have "file_bytes contents xs fp' fs' = file_bytes contents xs fp (vol s1)"
  proof -
    have "file_bytes contents xs f fs = file_slice contents xs f fs 0 (unat (objsize (fobj f)))" for f fs
      by (simp add: file_bytes_def file_slice_def)
    moreover have "?o \<le> SS * file_room xs (vol s1)" using assms(7) by (simp add: file_ok_defs)
    ultimately show ?thesis using stream_disk.same_slice [OF assms(1) r(2), of 0 ?o] r(4) by simp
  qed
  moreover have "unat (fptr fp') = min (unat ofs) ?o" using r(5) by (simp add: word_less_nat_alt min_def)
  ultimately show ?thesis
    using r(1-4) by (simp add: fat_disk.same_file_def [OF fd] fat_disk.held_def [OF fd] fat_disk.good_def [OF fd])
qed

theorem f_lseek_moves_witness:
  "\<exists>fp' s'. f_lseek (sd_io sim_api) (os_mutex kernel_api) sample_file 7 sample_file_system = Some (FR_OK, fp', s') \<and>
     unat (fptr fp') = 7 \<and>
     take 5 (file_bytes (disk_contents sim_mem) [5] fp' (vol s')) = [0x61, 0x62, 0x63, 0x64, 0x65]"
proof -
  obtain s1 where v: "validate (sd_io sim_api) (os_mutex kernel_api) (fobj sample_file) sample_file_system = (FR_OK, True, s1)"
      and e: "vol s1 = vol sample_file_system"
    by (rule sample_file_valid)
  have b: "take 5 (file_bytes (disk_contents sim_mem) [5] sample_file (vol sample_file_system)) = [0x61, 0x62, 0x63, 0x64, 0x65]"
    by (simp add: file_bytes_def file_byte_def file_block_def Let_def dirty_def sample_file_def sample_file_system_def
        sample_file_volume_def sample_volume_def file_sector_def clst2sect_def upt_rec)
  have g: "ferr sample_file = FR_OK" "objsize (fobj sample_file) = 10"
      "fflag sample_file AND FA_WRITE = 0 \<or> (7 :: u32) \<le> objsize (fobj sample_file)"
    by (simp_all add: sample_file_def)
  from f_lseek_moves [OF sim_disk.stream_disk_axioms v g(1,3) sample_file_system_ok [folded e], unfolded e g(2)] b
  show ?thesis by auto
qed

end
