(* ===== verification/FatSync.thy ===== *)
theory FatSync
  imports FatSeek
begin

text \<open>
  Making a file durable. \<open>sync_file\<close> writes the dirty sector cache, the directory entry and the
  window; \<open>sync_fs\<close> the second table, the FSInfo sector and the drive's own buffers. The lemmas show
  that the drive alone then holds what the volume meant before: the bytes of the file, its size and
  first cluster in its entry, and every other sector.
\<close>

section \<open>The directory entry\<close>

definition entry_of :: "ffil \<Rightarrow> u32 \<Rightarrow> 'd fatfs \<Rightarrow> byte list \<Rightarrow> byte list \<Rightarrow> bool" where
  \<comment> \<open>the sector \<open>w\<close> is \<open>w0\<close> with the entry of the file, changed at the time \<open>tm\<close>\<close>
  "entry_of fp tm fs w0 w \<longleftrightarrow>
     ld_dword w (dir_ptr fp + DIR_FileSize) = objsize (fobj fp) \<and> ld_clust fs w (dir_ptr fp) = sclust (fobj fp) \<and>
     ld_dword w (dir_ptr fp + DIR_ModTime) = tm \<and>
     w ! (dir_ptr fp + DIR_Attr) = w0 ! (dir_ptr fp + DIR_Attr) OR AM_ARC \<and>
     length w = length w0 \<and>
     (\<forall>i. i \<noteq> dir_ptr fp + DIR_Attr \<longrightarrow> i < dir_ptr fp + DIR_LstAccDate \<or> dir_ptr fp + 32 \<le> i \<longrightarrow> w ! i = w0 ! i)"

lemma ld_clust_cong:
  assumes "geometry fs' = geometry fs"
  shows "ld_clust fs' w d = ld_clust fs w d"
  unfolding ld_clust_def geometry_fields(1) [OF assms] ..

lemma entry_of_cong: "geometry fs' = geometry fs \<Longrightarrow> entry_of fp tm fs' = entry_of fp tm fs"
  by (rule ext, rule ext, unfold entry_of_def) (simp only: ld_clust_cong [of fs' fs])

lemma clust_halves:
  "ucast (ucast x :: u16) OR push_bit 16 (ucast (ucast (drop_bit 16 x) :: u16)) = (x :: u32)"
proof (rule bit_word_eqI)
  fix n assume "n < LENGTH(32)"
  then show "bit (ucast (ucast x :: u16) OR push_bit 16 (ucast (ucast (drop_bit 16 x) :: u16)) :: u32) n \<longleftrightarrow> bit x n"
    by (cases "n < 16") (auto simp: bit_simps)
qed

lemma ucast_half: "unat (x :: u32) < 2 ^ 16 \<Longrightarrow> ucast (ucast x :: u16) = x"
  by (simp add: word_unat_eq_iff unsigned_ucast_eq unsigned_take_bit_eq take_bit_nat_eq_self)

lemma update_entry_entry:
  assumes "length (win fs) = 512" and "dir_ptr fp + 32 \<le> 512"
    and "fs_type fs = FS_FAT32 \<or> unat (sclust (fobj fp)) < 2 ^ 16"
  shows "entry_of fp tm fs (win fs) (win (update_entry tm fp fs))" and "length (win (update_entry tm fp fs)) = 512"
    and "\<exists>w. update_entry tm fp fs = fs\<lparr>win := w, wflag := 1\<rparr>"
proof -
  let ?d = "dir_ptr fp"
  show "length (win (update_entry tm fp fs)) = 512"
    using assms(1,2) by (simp add: update_entry_def Let_def st_clust_def)
  show "\<exists>w. update_entry tm fp fs = fs\<lparr>win := w, wflag := 1\<rparr>"
    by (simp add: update_entry_def Let_def) blast
  show "entry_of fp tm fs (win fs) (win (update_entry tm fp fs))"
    using assms clust_halves [of "sclust (fobj fp)"] ucast_half [of "sclust (fobj fp)"]
    by (auto simp: entry_of_def update_entry_def Let_def st_clust_def ld_clust_def store_simps ld_word_of ld_dword_of
        nth_st_word nth_st_dword word_of_bytes dword_of_bytes)
qed

section \<open>The drive after \<open>sync_fs\<close>\<close>

context reliable_disk begin

lemma sync_fs_durable:
  assumes "good fs"
  shows "\<exists>fs'. sync_fs io fs = (FR_OK, fs') \<and> good fs' \<and> geometry fs' = geometry fs \<and> wflag fs' = 0 \<and>
    (winsect fs' = winsect fs \<or> shadow fs (winsect fs')) \<and>
    (\<forall>k < nsect. \<not> shadow fs k \<longrightarrow> contents (medium fs') k = view contents fs k)"
proof -
  obtain fs1 where s: "sync_window io fs = (FR_OK, fs1)"
    using sync_window_ok [OF assms] by (metis prod.collapse)
  note w = sync_window_spec [OF assms s]
  have g1: "geometry fs1 = geometry fs" using w by (blast intro: steady_geometry)
  have c1: "contents (medium fs1) k = view contents fs k" if "k < nsect" "\<not> shadow fs k" for k
  proof -
    have "\<not> shadow fs1 k" using that(2) geometry_cong(2) [OF g1] by simp
    then have "view contents fs1 k = contents (medium fs1) k"
      using w that(1) by (auto simp: view_def good_def window_ok_def)
    moreover have "same_view fs fs1" using w by blast
    ultimately show ?thesis using that by (simp add: same_view_def)
  qed
  have d: "layout nsect fs1" "pdrv fs1 = 0" "ok (medium fs1)" "length (win fs1) = 512"
    using w by (auto simp: good_def layout_def window_ok_def)
  have "\<exists>fs2. (if fs_type fs1 = FS_FAT32 \<and> fsi_flag fs1 = 1 then
         (let w = fsinfo_sector (free_clst fs1) (last_clst fs1); ws = volbase fs1 + 1
          in fs1\<lparr>win := w, winsect := ws, medium := snd (io_write io (pdrv fs1) w ws 1 (medium fs1)), fsi_flag := 0\<rparr>)
         else fs1) = fs2 \<and> good fs2 \<and> geometry fs2 = geometry fs \<and> wflag fs2 = 0 \<and>
      (winsect fs2 = winsect fs \<or> shadow fs (winsect fs2)) \<and>
      (\<forall>k < nsect. \<not> shadow fs k \<longrightarrow> contents (medium fs2) k = contents (medium fs1) k)"
  proof (cases "fs_type fs1 = FS_FAT32 \<and> fsi_flag fs1 = 1")
    case False
    then show ?thesis using w g1 by auto
  next
    case True
    let ?w = "fsinfo_sector (free_clst fs1) (last_clst fs1)" and ?ws = "volbase fs1 + 1"
    let ?d = "snd (io_write io 0 ?w ?ws 1 (medium fs1))"
    have l: "length ?w = 512" by (simp add: fsinfo_sector_def Let_def)
    have "unat (volbase fs1) + 1 < unat (fatbase fs1)" "fat_end fs1 \<le> unat nsect"
      using d(1) True by (simp_all add: layout_def)
    moreover have "unat (fatbase fs1) \<le> fat_end fs1" by (simp add: fat_end_def)
    ultimately have n: "?ws < nsect"
      using u32_unat_less [of nsect] by (simp add: word_less_nat_alt u32_add1)
    obtain q d' where q: "io_write io 0 ?w ?ws 1 (medium fs1) = (q, d')" by fastforce
    note wr = write_law [OF d(3) n l q]
    have sh: "shadow fs1 ?ws" using True by (simp add: shadow_def)
    let ?fs2 = "fs1\<lparr>win := ?w, winsect := ?ws, medium := d', fsi_flag := 0\<rparr>"
    have geo: "geometry ?fs2 = geometry fs1" by simp
    have "good ?fs2"
      using wr d(1) l n w sh unfolding good_def window_ok_def geometry_cong [OF geo] by simp
    moreover have "shadow fs ?ws" using sh geometry_cong(2) [OF g1] by simp
    moreover have "contents d' k = contents (medium fs1) k" if "k < nsect" "\<not> shadow fs k" for k
      using wr that sh geometry_cong(2) [OF g1] by metis
    ultimately show ?thesis using True d(2) q w g1 by (simp add: Let_def)
  qed
  then obtain fs2 where f: "(if fs_type fs1 = FS_FAT32 \<and> fsi_flag fs1 = 1 then
         (let w = fsinfo_sector (free_clst fs1) (last_clst fs1); ws = volbase fs1 + 1
          in fs1\<lparr>win := w, winsect := ws, medium := snd (io_write io (pdrv fs1) w ws 1 (medium fs1)), fsi_flag := 0\<rparr>)
         else fs1) = fs2" "good fs2" "geometry fs2 = geometry fs" "wflag fs2 = 0"
      "winsect fs2 = winsect fs \<or> shadow fs (winsect fs2)"
      "\<forall>k < nsect. \<not> shadow fs k \<longrightarrow> contents (medium fs2) k = contents (medium fs1) k" by blast
  have d2: "pdrv fs2 = 0" "ok (medium fs2)" using f(2) by (auto simp: good_def layout_def window_ok_def)
  obtain d3 where y: "io_sync io 0 (medium fs2) = (RES_OK, d3)"
    using sync_ok [OF d2(2)] by (metis prod.collapse)
  note yl = sync_law [OF d2(2) y]
  let ?fs3 = "fs2\<lparr>medium := d3\<rparr>"
  have g3: "geometry ?fs3 = geometry fs2" by simp
  have "good ?fs3" using f(2) yl unfolding good_def window_ok_def geometry_cong [OF g3] by auto
  moreover have "sync_fs io fs = (FR_OK, ?fs3)" using s f(1) d2(1) y by (simp add: sync_fs_def)
  ultimately show ?thesis using f(3-6) c1 yl by auto
qed

end

lemma flag_and_not:
  "a AND NOT FA_MODIFIED AND FA_MODIFIED = (0 :: byte)" "a AND NOT FA_MODIFIED AND FA_DIRTY = a AND FA_DIRTY"
  by (rule bit_word_eqI, auto simp: bit_simps)+

lemma unmodified_same [simp]:
  "dirty (fp\<lparr>fflag := fflag fp AND - 65\<rparr>) = dirty fp"
  "file_ok contents xs (fp\<lparr>fflag := fflag fp AND - 65\<rparr>) fs = file_ok contents xs fp fs"
  "file_pos xs (fp\<lparr>fflag := fflag fp AND - 65\<rparr>) fs = file_pos xs fp fs"
proof -
  show d: "dirty (fp\<lparr>fflag := fflag fp AND - 65\<rparr>) = dirty fp"
    using flag_and_not(2) [of "fflag fp"] by (simp add: dirty_def and.assoc)
  show "file_ok contents xs (fp\<lparr>fflag := fflag fp AND - 65\<rparr>) fs = file_ok contents xs fp fs"
    "file_pos xs (fp\<lparr>fflag := fflag fp AND - 65\<rparr>) fs = file_pos xs fp fs"
    using d by (simp_all add: file_ok_defs file_pos_def)
qed

definition stored_bytes :: "('d \<Rightarrow> u32 \<Rightarrow> byte list) \<Rightarrow> u32 list \<Rightarrow> u32 \<Rightarrow> 'd fatfs \<Rightarrow> byte list" where
  \<comment> \<open>the first \<open>n\<close> bytes of the clusters \<open>xs\<close> as they are on the drive\<close>
  "stored_bytes contents xs n fs =
    map (\<lambda>i. contents (medium fs) (file_sector xs fs (i div SS)) ! (i mod SS)) [0..<unat n]"

lemma clean_bytes:
  "\<not> dirty fp \<Longrightarrow> file_bytes contents xs fp fs = stored_bytes contents xs (objsize (fobj fp)) fs"
  by (simp add: file_bytes_def stored_bytes_def file_byte_def file_block_def Let_def)

context stream_disk begin

lemma sync_file_durable:
  assumes "held xs fp fs" and "fflag fp AND FA_MODIFIED \<noteq> 0"
    and "dir_sect fp < nsect" and "\<not> shadow fs (dir_sect fp)" and "\<not> in_fat fs (dir_sect fp)"
    and "dir_sect fp \<notin> file_sectors xs fs" and "dir_ptr fp + 32 \<le> 512"
    and "fs_type fs = FS_FAT32 \<or> unat (sclust (fobj fp)) < 2 ^ 16"
  shows "\<exists>fp' fs'. sync_file io tm fp fs = (FR_OK, fp', fs') \<and> held xs fp' fs' \<and> geometry fs' = geometry fs \<and>
    wflag fs' = 0 \<and> \<not> dirty fp' \<and> fflag fp' AND FA_MODIFIED = 0 \<and> fobj fp' = fobj fp \<and> fptr fp' = fptr fp \<and>
    fclust fp' = fclust fp \<and> fsect fp' = fsect fp \<and>
    (\<forall>c < n_fatent fs. fat_of contents fs' c = fat_of contents fs c) \<and>
    (\<forall>i < file_room xs fs. file_block contents xs fp' fs' i = file_block contents xs fp fs i) \<and>
    entry_of fp tm fs (view contents fs (dir_sect fp)) (contents (medium fs') (dir_sect fp)) \<and>
    (\<forall>k < nsect. \<not> shadow fs k \<longrightarrow> k \<notin> file_sectors xs fs \<longrightarrow> k \<noteq> dir_sect fp \<longrightarrow>
       contents (medium fs') k = view contents fs k)"
proof -
  let ?D = "dir_sect fp"
  obtain fp1 fs1 where f: "flush_buf io fp fs = (FR_OK, fp1, fs1)" "same_file xs fp fs fp1 fs1" "\<not> dirty fp1"
      "fp1 = fp\<lparr>fflag := fflag fp1\<rparr>"
    using flush_same [OF assms(1)] by blast
  have f1: "fobj fp1 = fobj fp" "dir_sect fp1 = ?D" "dir_ptr fp1 = dir_ptr fp" "fptr fp1 = fptr fp"
      "fclust fp1 = fclust fp" "fsect fp1 = fsect fp" by (subst f(4), simp)+
  have h1: "held xs fp1 fs1" and g1: "geometry fs1 = geometry fs" using f(2) by (simp_all add: same_file_def)
  have good1: "good fs1" and v1: "volume_ok nsect fs1" and o1: "file_ok contents xs fp1 fs1"
    using h1 by (simp_all add: held_def)
  obtain fs2 where m: "move_window io ?D fs1 = (FR_OK, fs2)"
    using move_window_ok [OF good1 assms(3)] by (metis prod.collapse)
  note m2 = move_window_spec [OF good1 assms(3) m]
  have g2: "geometry fs2 = geometry fs" using m2 g1 steady_geometry by metis
  have w2: "winsect fs2 = ?D" "good fs2" using m2 by simp_all
  let ?fs3 = "update_entry tm fp1 fs2"
  have l2: "length (win fs2) = 512" using w2(2) by (simp add: good_def window_ok_def)
  have t2: "fs_type fs2 = FS_FAT32 \<or> unat (sclust (fobj fp1)) < 2 ^ 16"
    using assms(8) geometry_fields(1) [OF g2] f1(1) by simp
  note u = update_entry_entry [OF l2 assms(7) [folded f1(3)] t2, of tm]
  obtain w where w: "?fs3 = fs2\<lparr>win := w, wflag := 1\<rparr>" using u(3) by blast
  have lw: "length w = 512" using u(2) w by simp
  have ws: "winsect fs2 < nsect" using w2(1) assms(3) by simp
  note p = poke_spec [OF w2(2) ws lw]
  obtain fs4 where s: "sync_fs io ?fs3 = (FR_OK, fs4)" "good fs4" "geometry fs4 = geometry ?fs3" "wflag fs4 = 0"
      "winsect fs4 = ?D \<or> shadow ?fs3 (winsect fs4)"
      "\<forall>k < nsect. \<not> shadow ?fs3 k \<longrightarrow> contents (medium fs4) k = view contents ?fs3 k"
    using sync_fs_durable [OF p(1)] w w2(1) by auto
  have g3: "geometry ?fs3 = geometry fs" using w g2 by simp
  have g4: "geometry fs4 = geometry fs1" using s(3) g3 g1 by simp
  have sh: "shadow ?fs3 = shadow fs" "shadow fs1 = shadow fs"
    using geometry_cong(2) [OF g3] geometry_cong(2) [OF g1] by (simp_all add: fun_eq_iff)
  have c4: "contents (medium fs4) k = (if k = ?D then w else view contents fs1 k)" if "k < nsect" "\<not> shadow fs k" for k
    using s(6) that sh p(2) [of k] w w2(1) m2 by (auto simp: same_view_def)
  have fsec: "file_sectors xs fs1 = file_sectors xs fs" by (rule file_cong(2) [OF g1])
  have inf: "in_fat fs1 = in_fat fs" by (rule in_fat_cong [OF g1])
  have off: "winsect fs4 \<notin> file_sectors xs fs1"
    using s(5) assms(6) file_sector_off(2) [OF h1, of "winsect fs4"] unfolding fsec sh by auto
  have data: "contents (medium fs4) k = contents (medium fs1) k" if k: "k \<in> file_sectors xs fs1" for k
  proof -
    note o = file_sector_off [OF h1 k]
    have "k \<noteq> ?D" using k assms(6) unfolding fsec by auto
    then show ?thesis using c4 [OF o(1)] o(2,4) sh by (simp add: view_def)
  qed
  have lay: "layout nsect fs1" "fat_ok fs1" using v1 by (simp_all add: volume_ok_def)
  have v4: "view contents fs4 k = view contents fs1 k" if k: "in_fat fs1 k" "k < nsect" "\<not> shadow fs1 k" for k
  proof -
    have "k \<noteq> ?D" using k(1) assms(5) inf by auto
    moreover have "k \<noteq> winsect fs4" using s(5) k(3) calculation sh by auto
    ultimately show ?thesis using c4 [of k] k(2,3) sh by (simp add: view_def)
  qed
  have fat: "fat_of contents fs4 c = fat_of contents fs1 c" if "c < n_fatent fs1" for c
    using v4 by (intro fat_of_kept [OF _ g4 lay that])
  note hv = held_view [OF h1 s(2) g4 off fat data]
  let ?fp = "fp1\<lparr>fflag := fflag fp1 AND NOT FA_MODIFIED\<rparr>"
  have "sync_file io tm fp fs = (FR_OK, ?fp, fs4)"
    using assms(2) f(1) m f1(2) s(1) by (simp add: sync_file_def)
  moreover have "held xs ?fp fs4" using hv(1) by (simp add: held_def)
  moreover have "fflag ?fp AND FA_MODIFIED = 0" using flag_and_not(1) [of "fflag fp1"] by (simp add: and.assoc)
  moreover have "file_block contents xs ?fp fs4 i = file_block contents xs fp fs i" if "i < file_room xs fs" for i
  proof -
    have "file_block contents xs ?fp fs4 i = file_block contents xs fp1 fs4 i"
      using f(3) unmodified_same(1) [of fp1] by (simp add: file_block_def Let_def)
    also have "\<dots> = file_block contents xs fp1 fs1 i" using that hv(2) file_cong(3) [OF g1] by metis
    also have "\<dots> = file_block contents xs fp fs i" using that f(2) by (simp add: same_file_def)
    finally show ?thesis .
  qed
  moreover have "entry_of fp tm fs (view contents fs ?D) (contents (medium fs4) ?D)"
  proof -
    have "win fs2 = view contents fs1 ?D" using m2 assms(4) sh(2) by simp
    also have "\<dots> = view contents fs ?D" using f(2) assms(3,4,6) by (simp add: same_file_def keeps_but_def)
    finally have "entry_of fp1 tm fs2 (view contents fs ?D) w" using u(1) w by simp
    then have "entry_of fp1 tm fs (view contents fs ?D) w" using entry_of_cong [OF g2] by metis
    then show ?thesis using c4 [OF assms(3,4)] f1 by (simp add: entry_of_def)
  qed
  moreover have "contents (medium fs4) k = view contents fs k"
    if "k < nsect" "\<not> shadow fs k" "k \<notin> file_sectors xs fs" "k \<noteq> ?D" for k
    using c4 [OF that(1,2)] that f(2) by (simp add: same_file_def keeps_but_def)
  moreover have "fat_of contents fs4 c = fat_of contents fs c" if "c < n_fatent fs" for c
    using fat [unfolded geometry_fields(5) [OF g1], OF that] f(2) that by (simp add: same_file_def)
  ultimately show ?thesis using f(3) g4 g1 f1 s(4) unmodified_same(1) [of fp1]
    by (intro exI [of _ ?fp] exI [of _ fs4]) (simp del: unmodified_same)
qed

end

section \<open>Property\<close>



end
