(* ===== verification/FatTrunc.thy ===== *)
theory FatTrunc
  imports FatSync
begin

text \<open>
  Cutting a file off at its pointer. \<open>truncate_chain\<close> gives the clusters behind the pointer back; a
  dirty sector cache is written afterwards, possibly to a sector that was just given back. \<open>cut\<close> is the
  table after the chain was shortened to its first \<open>k\<close> clusters.
\<close>

section \<open>The window after clusters were given back\<close>

context reliable_disk begin

lemma put_fat_off:
  assumes "good fs" and "fat_ok fs" and "put_fat io c v fs = (r, fs')"
  shows "off_data fs fs' \<and> good fs' \<and> fat_ok fs' \<and> geometry fs' = geometry fs"
  using put_fat_reliable [OF assms] assms(1,2) by (auto simp: off_data_def)

lemma remove_loop_off:
  "remove_loop io c fs = Some y \<Longrightarrow> good fs \<Longrightarrow> fat_ok fs \<Longrightarrow> off_data fs (snd y)"
  apply (drule remove_loop.raw_induct [where P = "\<lambda>j c fs y. j = io \<longrightarrow> good fs \<longrightarrow> fat_ok fs \<longrightarrow> off_data fs (snd y)", rotated])
  subgoal premises IH for f j c fs y
  proof (intro impI)
    assume h: "j = io" "good fs" "fat_ok fs"
    obtain nxt fs1 where g: "get_fat io c fs = (nxt, fs1)" by fastforce
    note n = get_fat_near [OF h(2,3) g]
    have h1: "good fs1" "fat_ok fs1" "off_data fs fs1" "geometry fs1 = geometry fs"
      using n near_fat_ok [OF n] h(3) by (simp_all add: near_def)
    obtain r fs2 where p: "put_fat io c 0 fs1 = (r, fs2)" by fastforce
    note q = put_fat_off [OF h1(1,2) p]
    have o2: "off_data fs fs2" using off_data_trans [OF h1(3) _ h1(4)] q by blast
    define fs3 where "fs3 = (if free_clst fs2 < n_fatent fs2 - 2
      then fs2\<lparr>free_clst := free_clst fs2 + 1, fsi_flag := fsi_flag fs2 OR 1\<rparr> else fs2)"
    have s3: "geometry fs3 = geometry fs2" "winsect fs3 = winsect fs2" by (simp_all add: fs3_def)
    have h3: "good fs3"
      using q unfolding good_def window_ok_def geometry_cong [OF s3(1)] by (simp add: fs3_def)
    have o3: "off_data fs fs3" using o2 s3(2) by (simp add: off_data_def)
    have g3: "geometry fs3 = geometry fs" "fat_ok fs3" using q s3(1) h1(4) fat_ok_cong [OF s3(1)] by simp_all
    have "snd y = fs1 \<or> snd y = fs2 \<or> snd y = fs3 \<or> f io nxt fs3 = Some y"
      using IH(4) by (auto simp: h(1) g p Let_def fs3_def [symmetric] split: if_splits)
    then show "off_data fs (snd y)"
    proof (elim disjE)
      assume "f io nxt fs3 = Some y"
      from IH(3) [OF this] h3 g3(2) have "off_data fs3 (snd y)" by simp
      then show ?thesis by (rule off_data_trans [OF o3 _ g3(1)])
    qed (use h1(3) o2 o3 in auto)
  qed
  by simp

lemma remove_chain_off:
  assumes "remove_chain io c p fs = Some (r, fs')" and "good fs" and "fat_ok fs"
  shows "off_data fs fs'"
proof -
  obtain q fs1 where q: "(if p \<noteq> 0 then put_fat io p 0xFFFFFFFF fs else (FR_OK, fs)) = (q, fs1)" by fastforce
  then have h: "off_data fs fs1 \<and> good fs1 \<and> fat_ok fs1 \<and> geometry fs1 = geometry fs"
    using put_fat_off [OF assms(2,3), of p "0xFFFFFFFF" q fs1] assms(2,3) by (auto simp: off_data_def split: if_splits)
  have "fs' = fs \<or> fs' = fs1 \<or> remove_loop io c fs1 = Some (r, fs')"
    using assms(1) q by (auto simp: remove_chain_def split: if_splits)
  then show ?thesis
    using remove_loop_off [of c fs1 "(r, fs')"] h off_data_trans [of fs fs1 fs'] by (auto simp: off_data_def)
qed

end

section \<open>The table\<close>

lemma truncated_same [simp]:
  "dirty (fp\<lparr>fobj := ob\<rparr>) = dirty fp" "dirty (fp\<lparr>fflag := fflag fp OR FA_MODIFIED\<rparr>) = dirty fp"
  using modified_same(1) [of fp] by (simp_all add: dirty_def)

definition clusters_to :: "nat \<Rightarrow> 'd fatfs \<Rightarrow> nat" where
  \<comment> \<open>the clusters that \<open>p\<close> bytes need\<close>
  "clusters_to p fs = (if p = 0 then 0 else (p - 1) div (unat (csize fs) * SS) + 1)"

context stream_disk begin

definition cut :: "u32 list \<Rightarrow> nat \<Rightarrow> 'd fatfs \<Rightarrow> 'd fatfs \<Rightarrow> bool" where
  "cut xs k fs fs' \<longleftrightarrow> good fs' \<and> geometry fs' = geometry fs \<and> keeps_but (in_fat fs) fs fs' \<and>
     winsect fs' \<notin> file_sectors xs fs \<and>
     (\<forall>c < n_fatent fs. c \<notin> set xs \<longrightarrow> fat_of contents fs' c = fat_of contents fs c) \<and>
     (\<forall>c \<in> set (drop k xs). fat_of contents fs' c = 0) \<and>
     (0 < k \<longrightarrow> fat_chain (fat_of contents fs') (n_fatent fs) (take k xs))"

lemma off_file:
  assumes "held xs fp fs" and "off_data fs fs'"
  shows "winsect fs' \<notin> file_sectors xs fs"
proof -
  have "file_ok contents xs fp fs" using assms(1) by (simp add: held_def)
  then show ?thesis
    using assms(2) file_sector_off [OF assms(1)] by (auto simp: off_data_def file_ok_defs)
qed

lemma held_chain:
  assumes "held xs fp fs" and "xs \<noteq> []"
  shows "fat_chain (fat_of contents fs) (n_fatent fs) xs" and "xs ! 0 = sclust (fobj fp)"
  using assms by (auto simp: held_def file_ok_defs hd_conv_nth)

lemma cut_chain:
  assumes "held xs fp fs" and "k < length xs"
  shows "\<exists>fs'. remove_chain io (xs ! k) (chain_end (take k xs)) fs = Some (FR_OK, fs') \<and> cut xs k fs fs'"
proof -
  let ?ks = "take k xs" and ?F = "fat_of contents fs"
  have h: "good fs" "fat_ok fs" using assms(1) by (auto simp: held_def volume_ok_def)
  have "xs \<noteq> []" using assms(2) by auto
  note ch = held_chain(1) [OF assms(1) this]
  have xs: "xs = ?ks @ xs ! k # drop (Suc k) xs" using assms(2) by (rule id_take_nth_drop)
  have ch': "fat_chain ?F (n_fatent fs) (?ks @ xs ! k # drop (Suc k) xs)" using ch xs by simp
  obtain fs' F' where r: "remove_chain io (xs ! k) (chain_end ?ks) fs = Some (FR_OK, fs')" "has_fat fs' F'"
      "geometry fs' = geometry fs" "keeps_but (in_fat fs) fs fs'"
      "F' = (\<lambda>x. if x \<in> set (xs ! k # drop (Suc k) xs) then 0
              else if ?ks \<noteq> [] \<and> x = last ?ks then 0xFFFFFFFF AND fat_mask (fs_type fs) else ?F x)"
      "?ks \<noteq> [] \<longrightarrow> fat_chain F' (n_fatent fs) ?ks"
    using remove_chain_cut [OF held_fat [OF assms(1)] ch'] unfolding chain_end_def by blast
  have n: "n_fatent fs' = n_fatent fs" by (rule geometry_fields(5) [OF r(3)])
  have f: "fat_of contents fs' c = F' c" if "c < n_fatent fs" for c using r(2) that n by (simp add: has_fat_def)
  have d: "drop k xs = xs ! k # drop (Suc k) xs" using assms(2) by (simp add: Cons_nth_drop_Suc)
  have "fat_of contents fs' c = 0" if "c \<in> set (drop k xs)" for c
  proof -
    have "c < n_fatent fs" using fat_chain_range [OF ch] that by (meson in_set_dropD)
    with f that d r(5) show ?thesis by simp
  qed
  moreover have "fat_of contents fs' c = ?F c" if "c < n_fatent fs" "c \<notin> set xs" for c
  proof -
    have c: "c \<notin> set (xs ! k # drop (Suc k) xs)" using that(2) d by (metis in_set_dropD)
    have l: "\<not> (?ks \<noteq> [] \<and> c = last ?ks)" using that(2) by (metis in_set_takeD last_in_set)
    show ?thesis unfolding f [OF that(1)] r(5) if_not_P [OF c] if_not_P [OF l] ..
  qed
  moreover have "fat_chain (fat_of contents fs') (n_fatent fs) ?ks" if "0 < k"
  proof -
    have "?ks \<noteq> []" using that assms(2) by auto
    then have "fat_chain F' (n_fatent fs) ?ks" using r(6) by simp
    then show ?thesis
      using f fat_chain_range [of F' "n_fatent fs" ?ks] fat_chain_cong [of ?ks "fat_of contents fs'" F'] by blast
  qed
  moreover have "winsect fs' \<notin> file_sectors xs fs" by (rule off_file [OF assms(1) remove_chain_off [OF r(1) h]])
  ultimately show ?thesis using r(1-4) by (auto simp: cut_def has_fat_def)
qed

lemma clusters_to:
  assumes "held xs fp fs" and "p \<le> unat (objsize (fobj fp))"
  shows "clusters_to p fs \<le> length xs" and "p \<le> clusters_to p fs * (unat (csize fs) * SS)"
proof -
  let ?b = "unat (csize fs) * SS"
  have h: "volume_ok nsect fs" "file_ok contents xs fp fs" using assms(1) by (simp_all add: held_def)
  have b: "0 < ?b" using cluster_bytes(2) [OF h(1)] by simp
  have "p \<le> length xs * ?b" using h(2) assms(2) by (simp add: file_ok_defs file_room_def algebra_simps)
  then have "(p - 1) div ?b < length xs" if "p \<noteq> 0"
    using that b by (subst div_less_iff_less_mult) auto
  then show "clusters_to p fs \<le> length xs" by (simp add: clusters_to_def Suc_le_eq)
  show "p \<le> clusters_to p fs * ?b"
    using b dividend_less_times_div [of ?b "p - 1"] by (auto simp: clusters_to_def algebra_simps)
qed

lemma truncate_chain_cuts:
  assumes "held xs fp fs" and "file_pos xs fp fs" and "fptr fp < objsize (fobj fp)"
    and "k = clusters_to (unat (fptr fp)) fs"
  shows "\<exists>fs'. truncate_chain io fp fs =
      Some (FR_OK, if fptr fp = 0 then fp\<lparr>fobj := (fobj fp)\<lparr>sclust := 0\<rparr>\<rparr> else fp, fs') \<and> cut xs k fs fs'"
proof -
  let ?p = "unat (fptr fp)" and ?b = "unat (csize fs) * SS"
  have p: "?p < unat (objsize (fobj fp))" using assms(3) by (simp add: word_less_nat_alt)
  have h: "good fs" "fat_ok fs" "file_ok contents xs fp fs" using assms(1) by (auto simp: held_def volume_ok_def)
  have ne: "xs \<noteq> []" using h(3) p by (auto simp: file_ok_defs file_room_def)
  note ch = held_chain [OF assms(1) ne]
  show ?thesis
  proof (cases "fptr fp = 0")
    case True
    have "k = 0" using True assms(4) by (simp add: clusters_to_def)
    then obtain fs' where "remove_chain io (sclust (fobj fp)) 0 fs = Some (FR_OK, fs')" "cut xs k fs fs'"
      using cut_chain [OF assms(1), of 0] ne ch(2) by (auto simp: chain_end_def)
    with True show ?thesis by (auto simp: truncate_chain_def)
  next
    case False
    then have p0: "?p \<noteq> 0" by (simp add: word_unat_eq_iff)
    have k: "k = (?p - 1) div ?b + 1" "0 < k" using p0 assms(4) by (simp_all add: clusters_to_def)
    have kl: "k \<le> length xs" using clusters_to(1) [OF assms(1), of ?p] p assms(4) by simp
    have f: "fclust fp = xs ! (k - 1)" using assms(2) False k(1) by (simp add: file_pos_def)
    have ce: "chain_end (take k xs) = xs ! (k - 1)" using k(2) kl ne by (simp add: chain_end_def last_conv_nth)
    have j: "k - 1 < length xs" using k(2) kl by simp
    note e = chain_entry [OF assms(1) j]
    obtain v fs1 where g: "get_fat io (fclust fp) fs = (v, fs1)" by fastforce
    have v: "v = fat_of contents fs (xs ! (k - 1))"
      using get_fat_ok [OF h(1,2), of "xs ! (k - 1)"] e g f by auto
    note nr = get_fat_near [OF h(1,2) g]
    note s = near_same [OF assms(1) nr] get_fat_no_error [OF h(1,2) g]
    have g1: "geometry fs1 = geometry fs" "good fs1" "same_view fs fs1" using nr by (simp_all add: near_def)
    have h1: "held xs fp fs1" and F1: "\<forall>c < n_fatent fs. fat_of contents fs1 c = fat_of contents fs c"
      using s(1) by (simp_all add: same_file_def)
    note eqs = geometry_fields(5) [OF g1(1)] file_cong(2) [OF g1(1)] in_fat_cong [OF g1(1)]
    have kb1: "keeps_but (in_fat fs) fs fs1" by (rule same_view_keeps [OF g1(3)])
    have F1c: "fat_chain (fat_of contents fs1) (n_fatent fs) xs"
      using ch(1) F1 fat_chain_range [OF ch(1)] fat_chain_cong [of xs "fat_of contents fs1" "fat_of contents fs"] by blast
    show ?thesis
    proof (cases "k < length xs")
      case True
      have v': "v = xs ! k" using chain_next [OF ch(1), of "k - 1"] True k(2) v by simp
      have ek: "v \<noteq> 1" "v \<noteq> 0xFFFFFFFF" "v < n_fatent fs1"
        using chain_entry [OF assms(1) True] v' eqs by (auto simp: word_le_nat_alt [of 2])
      obtain fs' where r: "remove_chain io v (fclust fp) fs1 = Some (FR_OK, fs')" "cut xs k fs1 fs'"
        using cut_chain [OF h1 True] f ce v' by auto
      have "keeps_but (in_fat fs) fs fs'"
        using r(2) kb1 keeps_but_trans [OF kb1 _ g1(1)] unfolding cut_def eqs by blast
      then have "cut xs k fs fs'" using r(2) F1 g1(1) unfolding cut_def eqs by simp
      with False g ek r(1) show ?thesis by (simp add: truncate_chain_def)
    next
      case kn: False
      then have kx: "k = length xs" using kl by simp
      have "fat_chain (fat_of contents fs) (n_fatent fs) [last xs]"
        by (rule fat_chain_suffix [of _ _ "butlast xs"]) (use ch(1) ne in simp)
      then have "n_fatent fs \<le> v"
        using v ne kx by (simp add: last_conv_nth)
      then have v2: "\<not> v < n_fatent fs1" "v \<noteq> 1" using e eqs by (auto simp: word_le_nat_alt word_less_nat_alt)
      have "cut xs k fs fs1"
        using g1 kb1 F1 F1c off_file [OF assms(1)] nr kx unfolding cut_def near_def by simp
      with False g s(2) v2 show ?thesis by (simp add: truncate_chain_def)
    qed
  qed
qed

section \<open>The file after the cut\<close>

lemma flush_off:
  assumes "good fs" and "length (fbuf fp) = 512"
    and "dirty fp \<Longrightarrow> fsect fp < nsect \<and> \<not> shadow fs (fsect fp) \<and> \<not> in_fat fs (fsect fp) \<and> fsect fp \<noteq> winsect fs"
  shows "\<exists>fp' d. flush_buf io fp fs = (FR_OK, fp', fs\<lparr>medium := d\<rparr>) \<and> \<not> dirty fp' \<and> fp' = fp\<lparr>fflag := fflag fp'\<rparr> \<and>
    good (fs\<lparr>medium := d\<rparr>) \<and>
    (\<forall>j < nsect. contents d j = (if dirty fp \<and> j = fsect fp then fbuf fp else contents (medium fs) j))"
proof (cases "dirty fp")
  case False
  then show ?thesis using assms(1) by (intro exI [of _ fp] exI [of _ "medium fs"]) (simp add: flush_buf_def dirty_def)
next
  case True
  note o = assms(3) [OF True]
  have p: "pdrv fs = 0" "ok (medium fs)" using assms(1) by (simp_all add: good_def layout_def window_ok_def)
  obtain d where d: "io_write io 0 (fbuf fp) (fsect fp) 1 (medium fs) = (RES_OK, d)"
    using write_ok [OF p(2) conjunct1 [OF o] assms(2)] by (metis prod.collapse)
  note l = write_law [OF p(2) conjunct1 [OF o] assms(2) d]
  have geo: "geometry (fs\<lparr>medium := d\<rparr>) = geometry fs" by simp
  have "good (fs\<lparr>medium := d\<rparr>)"
    using assms(1) l o unfolding good_def window_ok_def geometry_cong [OF geo] by auto
  moreover have "flush_buf io fp fs = (FR_OK, fp\<lparr>fflag := fflag fp AND NOT FA_DIRTY\<rparr>, fs\<lparr>medium := d\<rparr>)"
    using True d p(1) by (simp add: flush_buf_def dirty_def)
  ultimately show ?thesis using True l
    by (intro exI [of _ "fp\<lparr>fflag := fflag fp AND NOT FA_DIRTY\<rparr>"] exI [of _ d]) simp
qed

lemma flush_cut:
  \<comment> \<open>the cache is written behind the shortened file, and the invariant holds for it\<close>
  assumes "held xs fp fs" and "file_pos xs fp fs" and "fptr fp < objsize (fobj fp)"
    and "k = clusters_to (unat (fptr fp)) fs" and "cut xs k fs fs1"
    and "sclust (fobj fp1) = (if fptr fp = 0 then 0 else sclust (fobj fp))" and "objsize (fobj fp1) = fptr fp"
    and "fbuf fp1 = fbuf fp" "fsect fp1 = fsect fp" "dirty fp1 = dirty fp" "fptr fp1 = fptr fp" "fclust fp1 = fclust fp"
  shows "\<exists>fp' fs'. flush_buf io fp1 fs1 = (FR_OK, fp', fs') \<and> fp' = fp1\<lparr>fflag := fflag fp'\<rparr> \<and>
    held (take k xs) fp' fs' \<and> file_pos (take k xs) fp' fs' \<and> geometry fs' = geometry fs \<and>
    (\<forall>c < n_fatent fs. fat_of contents fs' c = fat_of contents fs1 c) \<and>
    keeps_but (\<lambda>k. in_fat fs k \<or> k \<in> file_sectors xs fs) fs fs' \<and>
    (\<forall>i < file_room (take k xs) fs. file_block contents (take k xs) fp' fs' i = file_block contents xs fp fs i)"
proof -
  let ?ks = "take k xs" and ?p = "unat (fptr fp)" and ?b = "unat (csize fs) * SS"
  have h: "volume_ok nsect fs" "file_ok contents xs fp fs" using assms(1) by (simp_all add: held_def)
  have c: "good fs1" "geometry fs1 = geometry fs" "keeps_but (in_fat fs) fs fs1" "winsect fs1 \<notin> file_sectors xs fs"
      "0 < k \<longrightarrow> fat_chain (fat_of contents fs1) (n_fatent fs) ?ks"
    using assms(5) by (simp_all add: cut_def)
  have p: "?p < unat (objsize (fobj fp))" using assms(3) by (simp add: word_less_nat_alt)
  note ct = clusters_to [OF assms(1) less_imp_le [OF p], folded assms(4)]
  have co: "length (fbuf fp) = SS" "dirty fp \<Longrightarrow> fsect fp \<in> file_sectors xs fs"
      "\<And>i. \<not> dirty fp \<Longrightarrow> i < file_room xs fs \<Longrightarrow> SS * i < unat (objsize (fobj fp)) \<Longrightarrow>
        fsect fp = file_sector xs fs i \<Longrightarrow> fbuf fp = contents (medium fs) (fsect fp)"
    using h(2) by (simp_all add: file_ok_defs)
  have off: "dirty fp1 \<Longrightarrow> fsect fp1 < nsect \<and> \<not> shadow fs1 (fsect fp1) \<and> \<not> in_fat fs1 (fsect fp1) \<and> fsect fp1 \<noteq> winsect fs1"
    using file_sector_off [OF assms(1) co(2)] c(4) co(2) assms(9,10) geometry_cong(2) [OF c(2)] in_fat_cong [OF c(2)]
    by auto
  have l1: "length (fbuf fp1) = 512" using co(1) assms(8) by simp
  obtain fp' d where f: "flush_buf io fp1 fs1 = (FR_OK, fp', fs1\<lparr>medium := d\<rparr>)" "\<not> dirty fp'"
      "fp' = fp1\<lparr>fflag := fflag fp'\<rparr>" "good (fs1\<lparr>medium := d\<rparr>)"
      "\<forall>j < nsect. contents d j = (if dirty fp1 \<and> j = fsect fp1 then fbuf fp1 else contents (medium fs1) j)"
    using flush_off [OF c(1) l1 off] by blast
  have f5: "contents d j = (if dirty fp \<and> j = fsect fp then fbuf fp else contents (medium fs1) j)" if "j < nsect" for j
    using f(5) that assms(8-10) by simp
  have f': "fobj fp' = fobj fp1" "fbuf fp' = fbuf fp" "fsect fp' = fsect fp" "fptr fp' = fptr fp" "fclust fp' = fclust fp"
    using assms(8,9,11,12) by (subst f(3), simp)+
  let ?fs = "fs1\<lparr>medium := d\<rparr>"
  have g: "geometry ?fs = geometry fs" using c(2) by simp
  note eqs = file_cong [OF g] geometry_fields [OF g]
  have room: "file_room ?ks fs \<le> file_room xs fs" by (simp add: file_room_def)
  have sec: "file_sector ?ks fs i = file_sector xs fs i" if "i < file_room ?ks fs" for i
    using file_sector_append [OF that, of "drop k xs"] by simp
  have sub: "file_sectors ?ks fs \<subseteq> file_sectors xs fs" using file_sectors_append [of ?ks fs "drop k xs"] by simp
  have blk: "contents d (file_sector xs fs i) = file_block contents xs fp fs i" if i: "i < file_room xs fs" for i
  proof -
    note v = file_sector_value(5,7) [OF h i]
    show ?thesis
      using f5 [OF v(1)] file_medium [OF assms(1) c(3,4) v(2)] by (simp add: file_block_def Let_def)
  qed
  have fat: "fat_of contents ?fs c = fat_of contents fs1 c" if "c < n_fatent fs" for c
  proof (rule fat_of_kept)
    show "layout nsect fs1" "fat_ok fs1" "c < n_fatent fs1"
      using c(1) h(1) fat_ok_cong [OF c(2)] geometry_fields(5) [OF c(2)] that by (auto simp: good_def volume_ok_def)
    show "view contents ?fs k = view contents fs1 k" if "in_fat fs1 k" "k < nsect" for k
      using off that f5 [OF that(2)] assms(9,10) by (auto simp: view_def)
  qed simp
  have "file_chain contents ?ks (fobj fp') ?fs"
    unfolding file_chain_def eqs
  proof (intro conjI)
    have k0: "?ks = [] \<longleftrightarrow> fptr fp = 0"
      using ct(1) p h(2) assms(4)
      by (auto simp: clusters_to_def file_ok_defs file_room_def word_unat_eq_iff split: if_splits)
    have "fat_chain (fat_of contents ?fs) (n_fatent fs) ?ks" if "?ks \<noteq> []"
    proof -
      have "fat_chain (fat_of contents fs1) (n_fatent fs) ?ks" using c(5) that by simp
      then show ?thesis
        using fat fat_chain_range [of "fat_of contents fs1" "n_fatent fs" ?ks]
          fat_chain_cong [of ?ks "fat_of contents ?fs" "fat_of contents fs1"] by blast
    qed
    moreover have "hd ?ks = sclust (fobj fp)" if "?ks \<noteq> []" using that h(2) by (auto simp: file_ok_defs)
    ultimately show "if ?ks = [] then sclust (fobj fp') = 0
      else fat_chain (fat_of contents ?fs) (n_fatent fs) ?ks \<and> hd ?ks = sclust (fobj fp')"
      using k0 assms(6) f'(1) by (simp del: hd_take take_eq_Nil)
    show "unat (objsize (fobj fp')) \<le> SS * file_room ?ks fs"
      using ct assms(7) f'(1) by (simp add: file_room_def min_def algebra_simps)
    show "winsect ?fs \<notin> file_sectors ?ks fs" using c(4) sub by auto
  qed
  moreover have "cache_ok contents ?ks fp' ?fs"
    using co(1) f(2) f' blk co(3) room p assms(7)
    by (auto simp: cache_ok_def eqs sec file_block_def Let_def)
  ultimately have "held ?ks fp' ?fs"
    using f(4) h(1) volume_ok_cong [OF g] by (simp add: held_def file_ok_def)
  moreover have "file_block contents ?ks fp' ?fs i = file_block contents xs fp fs i" if i: "i < file_room ?ks fs" for i
    using blk [of i] i room f(2) by (simp add: file_block_def [of _ ?ks] eqs sec [OF i])
  moreover have "file_pos ?ks fp' ?fs"
    unfolding eqs file_pos_def f' assms(7)
  proof (intro conjI impI)
    assume "fptr fp \<noteq> 0"
    then have "k = (?p - 1) div ?b + 1" using assms(4) by (simp add: clusters_to_def word_unat_eq_iff)
    then show "fclust fp = ?ks ! ((?p - 1) div ?b)" using assms(2) \<open>fptr fp \<noteq> 0\<close> by (simp add: file_pos_def)
  next
    assume m: "?p mod SS \<noteq> 0"
    have "?p \<le> SS * file_room ?ks fs" using ct by (simp add: file_room_def min_def algebra_simps)
    moreover have "?p \<noteq> SS * file_room ?ks fs" using m by auto
    ultimately have "?p div SS < file_room ?ks fs" by (simp add: div_less_iff_less_mult mult.commute)
    from sec [OF this] m assms(2) show "fsect fp = file_sector ?ks fs (?p div SS)" by (simp add: file_pos_def)
  qed simp
  moreover have "keeps_but (\<lambda>k. in_fat fs k \<or> k \<in> file_sectors xs fs) fs ?fs"
    unfolding keeps_but_def
  proof (intro allI impI)
    fix j assume j: "j < nsect" "\<not> shadow fs j" "\<not> (in_fat fs j \<or> j \<in> file_sectors xs fs)"
    then have nd: "\<not> (dirty fp \<and> j = fsect fp)" using co(2) by auto
    have "contents d j = contents (medium fs1) j" unfolding f5 [OF j(1)] by (rule if_not_P [OF nd])
    then have "view contents ?fs j = view contents fs1 j" by (simp add: view_def)
    then show "view contents ?fs j = view contents fs j" using j c(3) by (simp add: keeps_but_def)
  qed
  ultimately show ?thesis using f(1,3) g fat by blast
qed

end

section \<open>Property\<close>

text \<open>C5: truncating a file. A truncate at a pointer inside the file leaves the bytes before the pointer,
  those of the sector cache included. The chain keeps exactly the first clusters that these bytes need
  (none for a pointer at 0, else one more than the last byte's index over the bytes of a cluster), and
  the entries of all clusters behind them become 0, every entry of another file and every sector outside the file and the
  allocation table keep their contents, and the invariants of the volume and of the file object are kept.\<close>

theorem f_truncate_cuts:
  assumes "stream_disk io ok contents nsect" and "validate io mx (fobj fp) s = (FR_OK, True, s1)"
    and "ferr fp = FR_OK" and "fflag fp AND FA_WRITE \<noteq> 0" and "fptr fp < objsize (fobj fp)"
    and "volume_ok nsect (vol s1)" and "window_ok ok contents nsect (vol s1)"
    and "file_ok contents xs fp (vol s1)" and "file_pos xs fp (vol s1)"
    and k: "k = clusters_to (unat (fptr fp)) (vol s1)"
  shows "\<exists>fp' s'. f_truncate io mx fp s = Some (FR_OK, fp', s') \<and>
    file_bytes contents (take k xs) fp' (vol s') =
      take (unat (fptr fp)) (file_bytes contents xs fp (vol s1)) \<and>
    unat (objsize (fobj fp')) = unat (fptr fp) \<and> fptr fp' = fptr fp \<and>
    (\<forall>c \<in> set (drop k xs). fat_of contents (vol s') c = 0) \<and>
    (\<forall>c < n_fatent (vol s1). c \<notin> set xs \<longrightarrow> fat_of contents (vol s') c = fat_of contents (vol s1) c) \<and>
    (\<forall>j < nsect. \<not> shadow (vol s1) j \<longrightarrow> \<not> in_fat (vol s1) j \<longrightarrow> j \<notin> file_sectors xs (vol s1) \<longrightarrow>
       view contents (vol s') j = view contents (vol s1) j) \<and>
    volume_ok nsect (vol s') \<and> window_ok ok contents nsect (vol s') \<and>
    file_ok contents (take k xs) fp' (vol s') \<and> file_pos (take k xs) fp' (vol s')"
proof -
  note fd = reliable_disk.axioms(1) [OF stream_disk.axioms(1) [OF assms(1)]]
  have h: "fat_disk.held ok contents nsect xs fp (vol s1)"
  proof -
    have "layout nsect (vol s1)" using assms(6) by (simp add: volume_ok_def)
    then show ?thesis using assms(6-8) by (simp add: fat_disk.held_def [OF fd] fat_disk.good_def [OF fd])
  qed
  let ?fs = "vol s1" and ?ks = "take k xs" and ?p = "unat (fptr fp)"
  obtain fs1 where t: "truncate_chain io fp ?fs =
        Some (FR_OK, if fptr fp = 0 then fp\<lparr>fobj := (fobj fp)\<lparr>sclust := 0\<rparr>\<rparr> else fp, fs1)"
      "stream_disk.cut ok contents nsect xs k ?fs fs1"
    using stream_disk.truncate_chain_cuts [OF assms(1) h assms(9,5) k] by blast
  define fp1 where "fp1 = (if fptr fp = 0 then fp\<lparr>fobj := (fobj fp)\<lparr>sclust := 0\<rparr>\<rparr> else fp)"
  define fp2 where "fp2 = fp1\<lparr>fobj := (fobj fp1)\<lparr>objsize := fptr fp1\<rparr>, fflag := fflag fp1 OR FA_MODIFIED\<rparr>"
  have f1: "fptr fp1 = fptr fp" "fobj fp1 = (fobj fp)\<lparr>sclust := (if fptr fp = 0 then 0 else sclust (fobj fp))\<rparr>"
      "fbuf fp1 = fbuf fp" "fsect fp1 = fsect fp" "dirty fp1 = dirty fp" "fclust fp1 = fclust fp"
    by (simp_all add: fp1_def)
  have f2: "fptr fp2 = fptr fp" "sclust (fobj fp2) = (if fptr fp = 0 then 0 else sclust (fobj fp))"
      "objsize (fobj fp2) = fptr fp" "fbuf fp2 = fbuf fp" "fsect fp2 = fsect fp" "dirty fp2 = dirty fp"
      "fclust fp2 = fclust fp"
    using f1 truncated_same(2) [of fp1] by (simp_all add: fp2_def dirty_def)
  obtain fp' fs' where f: "flush_buf io fp2 fs1 = (FR_OK, fp', fs')" "fp' = fp2\<lparr>fflag := fflag fp'\<rparr>"
      "fat_disk.held ok contents nsect ?ks fp' fs'" "file_pos ?ks fp' fs'" "geometry fs' = geometry ?fs"
      "\<forall>c < n_fatent ?fs. fat_of contents fs' c = fat_of contents fs1 c"
      "fat_disk.keeps_but contents nsect (\<lambda>k. in_fat ?fs k \<or> k \<in> file_sectors xs ?fs) ?fs fs'"
      "\<forall>i < file_room ?ks ?fs. file_block contents ?ks fp' fs' i = file_block contents xs fp ?fs i"
    using stream_disk.flush_cut [OF assms(1) h assms(9,5) k t(2) f2(2-6,1,7)] by blast
  have f': "objsize (fobj fp') = fptr fp" "fptr fp' = fptr fp" using f2 by (subst f(2), simp)+
  have c: "\<forall>c < n_fatent ?fs. c \<notin> set xs \<longrightarrow> fat_of contents fs1 c = fat_of contents ?fs c"
      "\<forall>c \<in> set (drop k xs). fat_of contents fs1 c = 0"
    using t(2) by (simp_all add: stream_disk.cut_def [OF assms(1)])
  have rng: "c < n_fatent ?fs" if "c \<in> set xs" for c
    using stream_disk.held_chain(1) [OF assms(1) h] fat_chain_range that by (metis list.set(1) empty_iff)
  have cz: "\<forall>c \<in> set (drop k xs). fat_of contents fs' c = 0"
    using c(2) f(6) rng by (simp add: in_set_dropD)
  have p: "?p < unat (objsize (fobj fp))" using assms(5) by (simp add: word_less_nat_alt)
  have bytes: "file_bytes contents ?ks fp' fs' = take ?p (file_bytes contents xs fp ?fs)"
  proof -
    have "file_ok contents ?ks fp' fs'" using f(3) by (simp add: fat_disk.held_def [OF fd])
    then have "?p \<le> SS * file_room ?ks ?fs" using f'(1) file_cong(3) [OF f(5)] by (simp add: file_ok_defs)
    then have "file_byte contents ?ks fp' fs' i = file_byte contents xs fp ?fs i" if "i < ?p" for i
      using f(8) that by (simp add: file_byte_def div_less_iff_less_mult mult.commute)
    then show ?thesis using p f'(1) by (simp add: file_bytes_def take_map)
  qed
  have "f_truncate io mx fp s = Some (FR_OK, fp', unlock_volume mx True FR_OK (s1\<lparr>vol := fs'\<rparr>))"
    using assms(2-5) t(1) f(1) unfolding fp1_def [symmetric] by (simp add: f_truncate_def Let_def fp2_def)
  with bytes f(3,4,5,6,7) f' c cz show ?thesis
    by (intro exI [of _ fp'] exI [of _ "unlock_volume mx True FR_OK (s1\<lparr>vol := fs'\<rparr>)"])
      (simp add: fat_disk.held_def [OF fd] fat_disk.good_def [OF fd] fat_disk.keeps_but_def [OF fd])
qed

theorem f_truncate_cuts_witness:
  "\<exists>fp' s'. f_truncate (sd_io sim_api) (os_mutex kernel_api) sample_file sample_file_system = Some (FR_OK, fp', s') \<and>
     file_bytes (disk_contents sim_mem) [5] fp' (vol s') = [0x61, 0x62, 0x63]"
proof -
  obtain s1 where v: "validate (sd_io sim_api) (os_mutex kernel_api) (fobj sample_file) sample_file_system = (FR_OK, True, s1)"
      and e: "vol s1 = vol sample_file_system"
    by (rule sample_file_valid)
  have b: "take 3 (file_bytes (disk_contents sim_mem) [5] sample_file (vol sample_file_system)) = [0x61, 0x62, 0x63]"
    by (simp add: file_bytes_def file_byte_def file_block_def Let_def dirty_def sample_file_def sample_file_system_def
        sample_file_volume_def sample_volume_def file_sector_def clst2sect_def upt_rec)
  have g: "ferr sample_file = FR_OK" "fflag sample_file AND FA_WRITE \<noteq> 0" "fptr sample_file < objsize (fobj sample_file)"
      "unat (fptr sample_file) = 3"
    by (simp_all add: sample_file_def)
  have k: "clusters_to 3 (vol sample_file_system) = 1"
    by (simp add: clusters_to_def sample_file_system_def sample_file_volume_def sample_volume_def)
  from f_truncate_cuts [OF sim_disk.stream_disk_axioms v g(1-3) sample_file_system_ok [folded e] refl, unfolded e g(4) k] b
  show ?thesis by auto
qed

end
