(* ===== verification/FatLookup.thy ===== *)
theory FatLookup
  imports FatTrunc
begin

text \<open>
  Looking a name up. A directory is a list of entries: entry \<open>n\<close> is 32 bytes at \<open>32 * (n mod 16)\<close> of
  sector \<open>n div 16\<close> of the directory, which lies in the clusters \<open>xs\<close> or, when \<open>xs\<close> is empty, in the
  fixed root directory of FAT12 and FAT16. \<open>dir_lookup\<close> is the search as a function of this list. The
  lemmas show that \<open>dir_next\<close> steps to the next entry and that \<open>dir_find\<close> computes \<open>dir_lookup\<close>.
\<close>

section \<open>The entries of a directory\<close>

definition dir_room :: "u32 list \<Rightarrow> 'd fatfs \<Rightarrow> nat" where
  "dir_room xs fs = (if xs = [] then unat (n_rootdir fs) else 16 * file_room xs fs)"

definition dir_sector :: "u32 list \<Rightarrow> 'd fatfs \<Rightarrow> nat \<Rightarrow> u32" where
  "dir_sector xs fs n = (if xs = [] then dirbase fs + of_nat (n div 16) else file_sector xs fs (n div 16))"

definition dir_ofs :: "nat \<Rightarrow> nat" where
  "dir_ofs n = 32 * (n mod 16)"

definition dir_ok :: "('d \<Rightarrow> u32 \<Rightarrow> byte list) \<Rightarrow> u32 list \<Rightarrow> u32 \<Rightarrow> 'd fatfs \<Rightarrow> bool" where
  \<comment> \<open>the directory that starts at cluster \<open>cl\<close>, 0 being the root directory; at most 2 MiB\<close>
  "dir_ok contents xs cl fs \<longleftrightarrow> dir_room xs fs \<le> 65536 \<and>
     (if xs = [] then cl = 0 \<and> fs_type fs \<noteq> FS_FAT32
      else fat_chain (fat_of contents fs) (n_fatent fs) xs \<and>
           (if cl = 0 then fs_type fs = FS_FAT32 \<and> hd xs = dirbase fs else hd xs = cl))"

definition entry_is :: "byte list \<Rightarrow> byte list \<Rightarrow> nat \<Rightarrow> bool" where
  \<comment> \<open>the entry at \<open>d\<close> has the name and is not a volume label\<close>
  "entry_is name w d \<longleftrightarrow> w ! (d + DIR_Attr) AND AM_VOL = 0 \<and> take 11 (drop d w) = take 11 name"

definition dir_lookup ::
  "('d \<Rightarrow> u32 \<Rightarrow> byte list) \<Rightarrow> u32 list \<Rightarrow> 'd fatfs \<Rightarrow> byte list \<Rightarrow> nat option" where
  \<comment> \<open>the first entry with the name before the end mark\<close>
  "dir_lookup contents xs fs name =
    List.find (\<lambda>n. entry_is name (view contents fs (dir_sector xs fs n)) (dir_ofs n))
      (takeWhile (\<lambda>n. view contents fs (dir_sector xs fs n) ! dir_ofs n \<noteq> 0) [0..<dir_room xs fs])"

lemma dir_cong:
  assumes "geometry fs' = geometry fs"
  shows "dir_room xs fs' = dir_room xs fs" "dir_sector xs fs' = dir_sector xs fs"
  by (simp_all add: fun_eq_iff dir_room_def dir_sector_def file_cong(1,3) [OF assms] geometry_fields(9,11) [OF assms])

lemma dir_sector_value:
  assumes "volume_ok nsect fs" and "dir_ok contents xs cl fs" and "n < dir_room xs fs"
  shows "dir_sector xs fs n < nsect" and "\<not> shadow fs (dir_sector xs fs n)"
    and "\<not> in_fat fs (dir_sector xs fs n)" and "dir_sector xs fs n \<noteq> 0"
proof -
  have l: "layout nsect fs" "fat_end fs \<le> unat (database fs)" "fat_ok fs" using assms(1) by (simp_all add: volume_ok_def)
  have fe: "0 < unat (fatbase fs)" "unat (fatbase fs) + unat (fsize fs) \<le> fat_end fs"
      "fs_type fs = FS_FAT32 \<Longrightarrow> unat (volbase fs) + 1 < unat (fatbase fs)"
    using l(1) by (auto simp: layout_def fat_end_def)
  have "dir_sector xs fs n < nsect \<and> \<not> shadow fs (dir_sector xs fs n) \<and> \<not> in_fat fs (dir_sector xs fs n) \<and>
      dir_sector xs fs n \<noteq> 0"
  proof (cases "xs = []")
    case True
    have ty: "fs_type fs \<noteq> FS_FAT32" and n: "n < unat (n_rootdir fs)"
      using assms(2,3) True by (simp_all add: dir_ok_def dir_room_def)
    have r: "unat (dirbase fs) = fat_end fs" "unat (n_rootdir fs) mod 16 = 0"
        "unat (dirbase fs) + unat (n_rootdir fs) div 16 = unat (database fs)"
        "unat (database fs) + unat (csize fs) * (unat (n_fatent fs) - 2) \<le> unat nsect"
      using assms(1) ty by (simp_all add: volume_ok_def)
    have d: "n div 16 < unat (n_rootdir fs) div 16" using n r(2) by (metis div_less_iff_less_mult div_mult_mod_eq add.right_neutral zero_less_numeral)
    have db: "unat (database fs) < 2 ^ 32" by (rule u32_unat_less)
    have "unat (of_nat (n div 16) :: u32) = n div 16" using d r(3) db by (intro u32_of_nat) linarith
    then have v: "unat (dirbase fs + of_nat (n div 16)) = unat (dirbase fs) + n div 16"
      using d r(3) db by (simp add: u32_add)
    have "dir_sector xs fs n \<noteq> 0"
      using v fe(1,2) r(1) True by (auto simp: dir_sector_def word_unat_eq_iff)
    moreover have "\<not> shadow fs (dir_sector xs fs n) \<and> \<not> in_fat fs (dir_sector xs fs n)"
      using v r(1) fe(2) ty True by (simp add: dir_sector_def shadow_def in_fat_def)
    moreover have "dir_sector xs fs n < nsect"
      using v d r(3,4) True by (simp add: dir_sector_def word_less_nat_alt)
    ultimately show ?thesis by simp
  next
    case False
    have cs: "0 < unat (csize fs)" using assms(1) by (simp add: volume_ok_def unat_gt_0)
    have "n div 16 < file_room xs fs" using assms(3) False by (simp add: dir_room_def div_less_iff_less_mult mult.commute)
    then have "n div 16 div unat (csize fs) < length xs" using cs by (simp add: file_room_def div_less_iff_less_mult)
    then have "xs ! (n div 16 div unat (csize fs)) \<in> set xs" by (rule nth_mem)
    moreover have "fat_chain (fat_of contents fs) (n_fatent fs) xs" using assms(2) False by (simp add: dir_ok_def)
    ultimately have r: "2 \<le> xs ! (n div 16 div unat (csize fs)) \<and> xs ! (n div 16 div unat (csize fs)) < n_fatent fs"
      using fat_chain_range by blast
    have m: "n div 16 mod unat (csize fs) < unat (csize fs)" using cs by simp
    note ds = data_sector [OF assms(1) conjunct1 [OF r] conjunct2 [OF r] m, folded file_sector_def]
    have "file_sector xs fs (n div 16) \<noteq> 0" using ds(2) l(2) fe(1,2) by (auto simp: word_unat_eq_iff)
    with ds False show ?thesis by (simp add: dir_sector_def)
  qed
  then show "dir_sector xs fs n < nsect" "\<not> shadow fs (dir_sector xs fs n)"
    "\<not> in_fat fs (dir_sector xs fs n)" "dir_sector xs fs n \<noteq> 0" by blast+
qed

definition at_entry :: "u32 list \<Rightarrow> 'd fatfs \<Rightarrow> nat \<Rightarrow> ffdir \<Rightarrow> bool" where
  "at_entry xs fs n dp \<longleftrightarrow> n < dir_room xs fs \<and> unat (dptr dp) = 32 * n \<and> ddir dp = dir_ofs n \<and>
     dsect dp = dir_sector xs fs n \<and>
     dclust dp = (if xs = [] then 0 else xs ! (n div 16 div unat (csize fs)))"

definition found ::
  "('d \<Rightarrow> u32 \<Rightarrow> byte list) \<Rightarrow> u32 list \<Rightarrow> 'd fatfs \<Rightarrow> nat option \<Rightarrow> fresult \<Rightarrow> ffdir \<Rightarrow> 'd fatfs \<Rightarrow> bool" where
  \<comment> \<open>the outcome of a search: the entry is in the window, and the object is at it\<close>
  "found contents xs fs x r dp' fs' \<longleftrightarrow>
     (case x of
        None \<Rightarrow> r = FR_NO_FILE
      | Some m \<Rightarrow> r = FR_OK \<and> at_entry xs fs m dp' \<and> winsect fs' = dir_sector xs fs m \<and>
          win fs' = view contents fs (dir_sector xs fs m) \<and>
          obj_attr (dobj dp') = win fs' ! (dir_ofs m + DIR_Attr) AND AM_MASK)"

section \<open>Stepping through the entries\<close>

context reliable_disk begin

definition browsed :: "'d fatfs \<Rightarrow> 'd fatfs \<Rightarrow> bool" where
  "browsed fs fs' \<longleftrightarrow> good fs' \<and> steady fs' = steady fs \<and> same_view fs fs'"

lemma browsed_refl: "good fs \<Longrightarrow> browsed fs fs"
  by (simp add: browsed_def)

lemma browsed_geometry: "browsed fs fs' \<Longrightarrow> geometry fs' = geometry fs"
  unfolding browsed_def by (blast intro: steady_geometry)

lemma browsed_trans: "browsed a b \<Longrightarrow> browsed b c \<Longrightarrow> browsed a c"
  using browsed_geometry [of a b] same_view_trans [of a b c] by (simp add: browsed_def)

lemma browsed_fat:
  assumes "browsed fs fs'" and "volume_ok nsect fs" and "c < n_fatent fs"
  shows "fat_of contents fs' c = fat_of contents fs c"
  using assms browsed_geometry [OF assms(1)]
  by (intro same_view_fat_of) (auto simp: browsed_def volume_ok_def)

lemma browsed_dir:
  assumes "browsed fs fs'" and "volume_ok nsect fs" and "dir_ok contents xs cl fs"
  shows "volume_ok nsect fs'" and "dir_ok contents xs cl fs'"
proof -
  have g: "geometry fs' = geometry fs" by (rule browsed_geometry [OF assms(1)])
  show "volume_ok nsect fs'" using assms(2) volume_ok_cong [OF g] by simp
  have "fat_chain (fat_of contents fs') (n_fatent fs) xs" if "fat_chain (fat_of contents fs) (n_fatent fs) xs"
    using that browsed_fat [OF assms(1,2)] fat_chain_range [OF that] by (subst fat_chain_cong [of xs _ "fat_of contents fs"]) auto
  then show "dir_ok contents xs cl fs'"
    using assms(3) unfolding dir_ok_def dir_cong [OF g] geometry_fields [OF g] by (auto split: if_splits)
qed

lemma dir_next_cluster_step:
  assumes "good fs" and "fat_ok fs" and "fat_chain (fat_of contents fs) (n_fatent fs) xs" and "i < length xs"
    and "dclust dp = xs ! i"
  shows "\<exists>fs'. browsed fs fs' \<and> dir_next_cluster io False dp fs =
    Some (if Suc i < length xs
          then (FR_OK, dp\<lparr>dclust := xs ! Suc i, dsect := clst2sect (xs ! Suc i) fs\<rparr>, fs')
          else (FR_NO_FILE, dp\<lparr>dsect := 0\<rparr>, fs'))"
proof -
  have r: "2 \<le> xs ! j \<and> xs ! j < n_fatent fs" if "j < length xs" for j
    using that fat_chain_range [OF assms(3)] by simp
  obtain fs' where g: "get_fat io (xs ! i) fs = (fat_of contents fs (xs ! i), fs')" "browsed fs fs'"
    using get_fat_ok [OF assms(1,2), of "xs ! i"] r [OF assms(4)] by (auto simp: browsed_def)
  note ne = get_fat_no_error [OF assms(1,2) g(1)]
  have eq: "n_fatent fs' = n_fatent fs" "clst2sect c fs' = clst2sect c fs" for c
    using geometry_fields(5) geometry_cong(4) browsed_geometry [OF g(2)] by blast+
  show ?thesis
  proof (cases "Suc i < length xs")
    case True
    have F: "fat_of contents fs (xs ! i) = xs ! Suc i" by (rule chain_next [OF assms(3) True])
    have "\<not> xs ! Suc i \<le> 1" "\<not> n_fatent fs \<le> xs ! Suc i" using r [OF True] by (auto simp: word_le_nat_alt word_less_nat_alt)
    then show ?thesis using True g ne assms(5) eq F by (simp add: dir_next_cluster_def)
  next
    case False
    then have i: "i = length xs - 1" "xs \<noteq> []" using assms(4) by auto
    have "fat_chain (fat_of contents fs) (n_fatent fs) [last xs]"
      by (rule fat_chain_suffix [of _ _ "butlast xs"]) (use assms(3) i(2) in simp)
    then have F: "n_fatent fs \<le> fat_of contents fs (xs ! i)" using i by (simp add: last_conv_nth)
    moreover have "\<not> fat_of contents fs (xs ! i) \<le> 1" using F r [OF assms(4)] by (auto simp: word_le_nat_alt word_less_nat_alt)
    ultimately show ?thesis using False g ne assms(5) eq by (simp add: dir_next_cluster_def)
  qed
qed

lemma dir_next_step:
  assumes "good fs" and "volume_ok nsect fs" and "dir_ok contents xs cl fs" and "at_entry xs fs n dp"
  shows "\<exists>r dp' fs'. dir_next io False dp fs = Some (r, dp', fs') \<and> browsed fs fs' \<and>
    fn dp' = fn dp \<and> dobj dp' = dobj dp \<and>
    (if Suc n < dir_room xs fs then r = FR_OK \<and> at_entry xs fs (Suc n) dp' else r = FR_NO_FILE)"
proof -
  let ?c = "unat (csize fs)" and ?k = "n div 16" and ?o = "dptr dp + SZDIRE"
  have a: "n < dir_room xs fs" "unat (dptr dp) = 32 * n" "dsect dp = dir_sector xs fs n"
      "dclust dp = (if xs = [] then 0 else xs ! (?k div ?c))" "ddir dp = dir_ofs n"
    using assms(4) by (simp_all add: at_entry_def)
  have room: "dir_room xs fs \<le> 65536" using assms(3) by (simp add: dir_ok_def)
  have u: "unat ?o = 32 * Suc n" using a(1,2) room by (simp add: u32_add)
  have big: "?o \<ge> MAX_DIR \<longleftrightarrow> Suc n \<ge> 65536" using u by (simp add: word_le_nat_alt)
  have s0: "dsect dp \<noteq> 0" using dir_sector_value(4) [OF assms(2,3) a(1)] a(3) by simp
  have dd: "unat (?o mod 512) = dir_ofs (Suc n)"
    using u by (simp add: unat_mod_distrib dir_ofs_def mult_mod_right)
  have m: "?o mod 512 = 0 \<longleftrightarrow> Suc n mod 16 = 0" unfolding word_unat_eq_iff dd dir_ofs_def by simp
  have r16: "dir_room xs fs mod 16 = 0"
  proof (cases "xs = []")
    case True
    then have "fs_type fs \<noteq> FS_FAT32" using assms(3) by (simp add: dir_ok_def)
    with True assms(2) show ?thesis by (simp add: dir_room_def volume_ok_def)
  qed (simp add: dir_room_def)
  let ?dp = "\<lambda>dp. dp\<lparr>dptr := ?o, ddir := unat (?o mod 512)\<rparr>"
  have at: "at_entry xs fs (Suc n) (?dp dp1)"
    if "Suc n < dir_room xs fs" "dsect dp1 = dir_sector xs fs (Suc n)"
      "dclust dp1 = (if xs = [] then 0 else xs ! (Suc n div 16 div ?c))" for dp1
    using that u dd by (simp add: at_entry_def)
  consider (max) "Suc n \<ge> 65536" | (inner) "\<not> Suc n \<ge> 65536" "Suc n mod 16 \<noteq> 0"
    | (border) "\<not> Suc n \<ge> 65536" "Suc n mod 16 = 0" by blast
  then show ?thesis
  proof cases
    case max
    then have "dir_next io False dp fs = Some (FR_NO_FILE, dp\<lparr>dsect := 0\<rparr>, fs)" using big by (simp add: dir_next_def)
    with max room browsed_refl [OF assms(1)] show ?thesis by auto
  next
    case inner
    have d: "Suc n div 16 = ?k" using inner(2) by (simp add: div_Suc)
    have l: "Suc n < dir_room xs fs" using a(1) inner(2) r16 by (metis Suc_lessI)
    have "dir_next io False dp fs = Some (FR_OK, ?dp dp, fs)" using inner big m s0 by (simp add: dir_next_def Let_def)
    moreover have "at_entry xs fs (Suc n) (?dp dp)"
      by (rule at [OF l]) (use a(3,4) d in \<open>simp_all add: dir_sector_def\<close>)
    ultimately show ?thesis using l browsed_refl [OF assms(1)] by auto
  next
    case border
    have d: "Suc n div 16 = Suc ?k" using border(2) by (simp add: div_Suc)
    have n16: "Suc n = 16 * Suc ?k" using border(2) d div_mult_mod_eq [of "Suc n" 16] by simp
    show ?thesis
    proof (cases "xs = []")
      case True
      have e: "?o div SZDIRE \<ge> ucast (n_rootdir fs) \<longleftrightarrow> \<not> Suc n < dir_room xs fs"
        using u True by (simp add: word_le_nat_alt unat_div_distrib dir_room_def not_less)
      have dc: "dclust dp = 0" using a(4) True by simp
      show ?thesis
      proof (cases "Suc n < dir_room xs fs")
        case l: True
        have "dir_next io False dp fs = Some (FR_OK, ?dp (dp\<lparr>dsect := dsect dp + 1\<rparr>), fs)"
          using border big m s0 dc e l by (simp add: dir_next_def Let_def)
        moreover have "at_entry xs fs (Suc n) (?dp (dp\<lparr>dsect := dsect dp + 1\<rparr>))"
          by (rule at [OF l]) (use a(3,4) d True in \<open>simp_all add: dir_sector_def\<close>)
        ultimately show ?thesis using l browsed_refl [OF assms(1)] by auto
      next
        case l: False
        have "dir_next io False dp fs = Some (FR_NO_FILE, dp\<lparr>dsect := 0\<rparr>, fs)"
          using border big m s0 dc e l by (simp add: dir_next_def Let_def)
        with l browsed_refl [OF assms(1)] show ?thesis by auto
      qed
    next
      case False
      have cs: "0 < ?c" "csize fs AND (csize fs - 1) = 0" "csize fs \<noteq> 0" "fat_ok fs"
        using assms(2) by (simp_all add: volume_ok_def unat_gt_0)
      have rm: "dir_room xs fs = 16 * (length xs * ?c)" using False by (simp add: dir_room_def file_room_def)
      have kr: "?k < length xs * ?c" using a(1) rm by (simp add: div_less_iff_less_mult mult.commute)
      have i: "?k div ?c < length xs" using kr cs(1) by (simp add: div_less_iff_less_mult)
      have ch: "fat_chain (fat_of contents fs) (n_fatent fs) xs" using assms(3) False by (simp add: dir_ok_def)
      have dc: "dclust dp = xs ! (?k div ?c)" using a(4) False by simp
      then have dn: "dclust dp \<noteq> 0" using fat_chain_range [OF ch, of "xs ! (?k div ?c)"] i by auto
      have o5: "unat (?o div 512) = Suc ?k" using u n16 by (simp add: unat_div_distrib)
      have am: "?o div 512 AND (ucast (csize fs) - 1) = 0 \<longleftrightarrow> Suc ?k mod ?c = 0"
        unfolding word_unat_eq_iff mask_of_power [OF cs(2,3)] o5 by simp
      show ?thesis
      proof (cases "Suc ?k mod ?c = 0")
        case nm: False
        have md: "Suc ?k mod ?c = Suc (?k mod ?c)" "Suc ?k div ?c = ?k div ?c" using nm by (auto simp: mod_Suc div_Suc)
        have kc: "?k mod ?c + 1 < ?c" using md(1) cs(1) mod_less_divisor [of ?c "Suc ?k"] by simp
        note fn1 = file_sector_next [OF kc, of xs]
        have fk: "file_sector xs fs (Suc ?k) = file_sector xs fs ?k + 1" "Suc ?k < length xs * ?c"
          using fn1 kr by (simp_all add: file_room_def)
        have l: "Suc n < dir_room xs fs" using fk(2) n16 rm by simp
        have "dir_next io False dp fs = Some (FR_OK, ?dp (dp\<lparr>dsect := dsect dp + 1\<rparr>), fs)"
          using border big m s0 dn am nm by (simp add: dir_next_def Let_def)
        moreover have "at_entry xs fs (Suc n) (?dp (dp\<lparr>dsect := dsect dp + 1\<rparr>))"
          by (rule at [OF l]) (use a(3) dc d False fk(1) md(2) in \<open>simp_all add: dir_sector_def\<close>)
        ultimately show ?thesis using l browsed_refl [OF assms(1)] by auto
      next
        case True
        have md: "Suc ?k div ?c = Suc (?k div ?c)" using True by (simp add: div_Suc)
        let ?dp1 = "dp\<lparr>dsect := dsect dp + 1\<rparr>"
        have dc1: "dclust ?dp1 = xs ! (?k div ?c)" using dc by simp
        obtain fs' where nx: "browsed fs fs'" "dir_next_cluster io False ?dp1 fs =
            Some (if Suc (?k div ?c) < length xs
                  then (FR_OK, ?dp1\<lparr>dclust := xs ! Suc (?k div ?c), dsect := clst2sect (xs ! Suc (?k div ?c)) fs\<rparr>, fs')
                  else (FR_NO_FILE, ?dp1\<lparr>dsect := 0\<rparr>, fs'))"
          using dir_next_cluster_step [OF assms(1) cs(4) ch i dc1] by blast
        have sk: "Suc ?k = Suc (?k div ?c) * ?c" using True md div_mult_mod_eq [of "Suc ?k" ?c] by simp
        have l: "Suc n < dir_room xs fs \<longleftrightarrow> Suc (?k div ?c) < length xs"
          unfolding n16 rm sk using cs(1) by (simp only: nat_mult_less_cancel_disj mult_less_cancel2) simp
        show ?thesis
        proof (cases "Suc (?k div ?c) < length xs")
          case lt: True
          let ?dp2 = "?dp1\<lparr>dclust := xs ! Suc (?k div ?c), dsect := clst2sect (xs ! Suc (?k div ?c)) fs\<rparr>"
          have "dir_next io False dp fs = Some (FR_OK, ?dp ?dp2, fs')"
            using border big m s0 dn am True nx(2) lt by (simp add: dir_next_def Let_def)
          moreover have "at_entry xs fs (Suc n) (?dp ?dp2)"
            by (rule at) (use l lt d False md True in \<open>simp_all add: dir_sector_def file_sector_def\<close>)
          ultimately show ?thesis using l lt nx(1) by auto
        next
          case ge: False
          then have "dir_next io False dp fs = Some (FR_NO_FILE, ?dp1\<lparr>dsect := 0\<rparr>, fs')"
            using border big m s0 dn am True nx(2) by (simp add: dir_next_def Let_def)
          with l ge nx(1) show ?thesis by auto
        qed
      qed
    qed
  qed
qed

section \<open>The search\<close>

lemma find_loop_found:
  assumes "volume_ok nsect fs0" and "dir_ok contents xs cl fs0"
  shows "browsed fs0 fs \<Longrightarrow> at_entry xs fs0 n dp \<Longrightarrow>
    \<exists>r dp' fs'. find_loop io dp fs = Some (r, dp', fs') \<and> browsed fs0 fs' \<and> fn dp' = fn dp \<and>
      (\<exists>a. dobj dp' = (dobj dp)\<lparr>obj_attr := a\<rparr>) \<and>
      found contents xs fs0
        (List.find (\<lambda>n. entry_is (fn dp) (view contents fs0 (dir_sector xs fs0 n)) (dir_ofs n))
          (takeWhile (\<lambda>n. view contents fs0 (dir_sector xs fs0 n) ! dir_ofs n \<noteq> 0) [n..<dir_room xs fs0]))
        r dp' fs'"
proof (induction "dir_room xs fs0 - n" arbitrary: n dp fs rule: less_induct)
  case less
  have n: "n < dir_room xs fs0" and dd: "ddir dp = dir_ofs n" and ds: "dsect dp = dir_sector xs fs0 n"
    using less.prems(2) by (simp_all add: at_entry_def)
  note sv = dir_sector_value [OF assms n]
  have g: "geometry fs = geometry fs0" and good: "good fs"
    using browsed_geometry [OF less.prems(1)] less.prems(1) by (simp_all add: browsed_def)
  let ?v = "\<lambda>n. view contents fs0 (dir_sector xs fs0 n)"
  obtain fs1 where m: "move_window io (dsect dp) fs = (FR_OK, fs1)"
    using move_window_ok [OF good] sv(1) ds by (metis prod.collapse)
  have m1: "good fs1" "steady fs1 = steady fs" "same_view fs fs1" "winsect fs1 = dir_sector xs fs0 n"
    using move_window_spec [OF good _ m] sv(1) ds by auto
  have b01: "browsed fs0 fs1" using browsed_trans [OF less.prems(1)] m1 by (simp add: browsed_def)
  have "view contents fs1 (dir_sector xs fs0 n) = ?v n"
    using b01 sv(1,2) by (simp add: browsed_def same_view_def)
  then have w: "win fs1 = ?v n" using m1(4) by (simp add: view_def)
  have up: "[n..<dir_room xs fs0] = n # [Suc n..<dir_room xs fs0]" using n by (rule upt_conv_Cons)
  let ?a = "?v n ! (dir_ofs n + DIR_Attr)"
  let ?dp = "dp\<lparr>dobj := (dobj dp)\<lparr>obj_attr := ?a AND AM_MASK\<rparr>\<rparr>"
  show ?case
  proof (cases "?v n ! dir_ofs n = 0")
    case True
    then have "find_loop io dp fs = Some (FR_NO_FILE, dp, fs1)"
      using m w dd by (subst find_loop.simps) simp
    moreover have "\<exists>a. dobj dp = (dobj dp)\<lparr>obj_attr := a\<rparr>" by (rule exI [of _ "obj_attr (dobj dp)"]) simp
    ultimately show ?thesis using b01 True up by (simp add: found_def)
  next
    case nz: False
    show ?thesis
    proof (cases "entry_is (fn dp) (?v n) (dir_ofs n)")
      case True
      then have "find_loop io dp fs = Some (FR_OK, ?dp, fs1)"
        using m w dd nz by (subst find_loop.simps) (simp add: entry_is_def Let_def)
      moreover have "at_entry xs fs0 n ?dp" using less.prems(2) by (simp add: at_entry_def)
      ultimately show ?thesis using b01 True nz up m1(4) w by (auto simp: found_def)
    next
      case False
      have b: "volume_ok nsect fs1" "dir_ok contents xs cl fs1" using browsed_dir [OF b01 assms] .
      have g1: "geometry fs1 = geometry fs0" by (rule browsed_geometry [OF b01])
      have ae: "at_entry xs fs1 j d = at_entry xs fs0 j d" for j d
        unfolding at_entry_def dir_cong [OF g1] geometry_fields(4) [OF g1] ..
      have "at_entry xs fs1 n ?dp" using less.prems(2) unfolding ae by (simp add: at_entry_def)
      from dir_next_step [OF m1(1) b this] obtain r dp2 fs2 where x: "dir_next io False ?dp fs1 = Some (r, dp2, fs2)"
          "browsed fs1 fs2" "fn dp2 = fn dp" "dobj dp2 = (dobj dp)\<lparr>obj_attr := ?a AND AM_MASK\<rparr>"
          "if Suc n < dir_room xs fs0 then r = FR_OK \<and> at_entry xs fs0 (Suc n) dp2 else r = FR_NO_FILE"
        unfolding ae dir_cong [OF g1] by auto
      have step: "find_loop io dp fs = (if r = FR_OK then find_loop io dp2 fs2 else Some (r, dp2, fs2))"
        using m w dd nz False x(1) by (subst find_loop.simps) (auto simp: entry_is_def Let_def)
      have b2: "browsed fs0 fs2" by (rule browsed_trans [OF b01 x(2)])
      show ?thesis
      proof (cases "Suc n < dir_room xs fs0")
        case l: True
        then have "dir_room xs fs0 - Suc n < dir_room xs fs0 - n" by simp
        note IH = less.hyps [OF this b2, of dp2]
        have "r = FR_OK" "at_entry xs fs0 (Suc n) dp2" using l x(5) by simp_all
        moreover obtain r' dp' fs' a where "find_loop io dp2 fs2 = Some (r', dp', fs')" "browsed fs0 fs'" "fn dp' = fn dp2"
            "dobj dp' = (dobj dp2)\<lparr>obj_attr := a\<rparr>" "found contents xs fs0
              (List.find (\<lambda>n. entry_is (fn dp2) (?v n) (dir_ofs n))
                (takeWhile (\<lambda>n. ?v n ! dir_ofs n \<noteq> 0) [Suc n..<dir_room xs fs0])) r' dp' fs'"
          using IH calculation(2) by blast
        moreover have "\<exists>a. dobj dp' = (dobj dp)\<lparr>obj_attr := a\<rparr>" using calculation(6) x(4) by auto
        ultimately show ?thesis
          using step x(3) False nz up by (intro exI [of _ r'] exI [of _ dp'] exI [of _ fs']) simp
      next
        case ge: False
        then have "[Suc n..<dir_room xs fs0] = []" by simp
        with ge x(3,4,5) step b2 False nz up show ?thesis by (auto simp: found_def)
      qed
    qed
  qed
qed

lemma dir_sdi_start:
  assumes "good fs" and "volume_ok nsect fs" and "dir_ok contents xs (sclust (dobj dp)) fs" and "0 < dir_room xs fs"
  shows "\<exists>dp'. dir_sdi io 0 dp fs = Some (FR_OK, dp', fs) \<and> at_entry xs fs 0 dp' \<and> fn dp' = fn dp \<and> dobj dp' = dobj dp"
proof -
  let ?cl = "sclust (dobj dp)"
  have ft: "fs_type fs \<in> {FS_FAT12, FS_FAT16, FS_FAT32}" using assms(2) by (auto simp: volume_ok_def fat_ok_def)
  have cs: "0 < csize fs" using assms(2) by (simp add: volume_ok_def word_neq_0_conv)
  note s0 = dir_sector_value(4) [OF assms(2,3,4)]
  show ?thesis
  proof (cases "xs = []")
    case True
    then have c: "?cl = 0" "fs_type fs \<noteq> FS_FAT32" "\<not> fs_type fs \<ge> FS_FAT32"
      using assms(3) ft by (auto simp: dir_ok_def word_le_nat_alt)
    have d: "dirbase fs \<noteq> 0" using s0 True by (simp add: dir_sector_def)
    have n: "\<not> (0 :: u32) \<ge> ucast (n_rootdir fs)"
      using assms(4) True by (simp add: dir_room_def word_le_nat_alt)
    have "dir_sdi io 0 dp fs = Some (FR_OK, dp\<lparr>dptr := 0, dclust := 0, dsect := dirbase fs, ddir := 0\<rparr>, fs)"
      using c d n by (simp add: dir_sdi_def sdi_finish_def Let_def)
    then show ?thesis using True assms(4) by (simp add: at_entry_def dir_ofs_def dir_sector_def)
  next
    case False
    define c where "c = (if ?cl = 0 \<and> fs_type fs \<ge> FS_FAT32 then dirbase fs else ?cl)"
    have ch: "fat_chain (fat_of contents fs) (n_fatent fs) xs" using assms(3) False by (simp add: dir_ok_def)
    have hd: "c = xs ! 0" using assms(3) False ft by (auto simp: dir_ok_def c_def hd_conv_nth split: if_splits)
    then have c0: "c \<noteq> 0" using fat_chain_range [OF ch, of "xs ! 0"] False by auto
    have fsec: "clst2sect c fs = dir_sector xs fs 0" using False hd by (simp add: dir_sector_def file_sector_def)
    have "\<not> ucast (csize fs) * 512 \<le> (0 :: u32)"
      using cluster_bytes(1,2) [OF assms(2)] by (simp add: word_le_nat_alt)
    then have f: "sdi_follow io (ucast (csize fs) * 512) 0 c fs = Some (Inr (c, 0), fs)"
      by (subst sdi_follow.simps) simp
    have "dir_sdi io 0 dp fs =
        Some (FR_OK, dp\<lparr>dptr := 0, dclust := c, dsect := dir_sector xs fs 0, ddir := 0\<rparr>, fs)"
      using c0 f fsec s0
      by (simp add: dir_sdi_def sdi_finish_def Let_def c_def [symmetric] split del: if_split cong: if_cong)
    then show ?thesis using False assms(4) hd by (simp add: at_entry_def dir_ofs_def)
  qed
qed

lemma dir_find_found:
  assumes "good fs" and "volume_ok nsect fs" and "dir_ok contents xs (sclust (dobj dp)) fs" and "0 < dir_room xs fs"
  shows "\<exists>r dp' fs'. dir_find io dp fs = Some (r, dp', fs') \<and> browsed fs fs' \<and> fn dp' = fn dp \<and>
    (\<exists>a. dobj dp' = (dobj dp)\<lparr>obj_attr := a\<rparr>) \<and> found contents xs fs (dir_lookup contents xs fs (fn dp)) r dp' fs'"
proof -
  obtain dp1 where s: "dir_sdi io 0 dp fs = Some (FR_OK, dp1, fs)" "at_entry xs fs 0 dp1" "fn dp1 = fn dp"
      "dobj dp1 = dobj dp"
    using dir_sdi_start [OF assms] by blast
  have "dir_find io dp fs = find_loop io dp1 fs" using s(1) by (simp add: dir_find_def)
  then show ?thesis
    using find_loop_found [OF assms(2,3) browsed_refl [OF assms(1)] s(2)] s(3,4) by (simp add: dir_lookup_def)
qed

end

section \<open>Property\<close>

text \<open>C9: searching a directory. On a conforming SD card \<open>dir_find\<close> returns, and it is the first-match search
  over the list of entries: it stops at the end mark or after the last entry, skips volume labels, and
  answers \<open>FR_OK\<close> with the object at the first entry of that name and that entry in the window, or
  \<open>FR_NO_FILE\<close> when there is none. The search crosses sectors and clusters and works on the fixed root
  directory as well; it changes no sector's logical contents.\<close>

theorem dir_find_looks_up:
  assumes "reliable_disk io ok contents nsect" and "volume_ok nsect fs" and "window_ok ok contents nsect fs"
    and "dir_ok contents xs (sclust (dobj dp)) fs" and "0 < dir_room xs fs"
  shows "\<exists>r dp' fs'. dir_find io dp fs = Some (r, dp', fs') \<and>
    found contents xs fs (dir_lookup contents xs fs (fn dp)) r dp' fs' \<and> fn dp' = fn dp \<and>
    (\<forall>k < nsect. \<not> shadow fs k \<longrightarrow> view contents fs' k = view contents fs k) \<and>
    steady fs' = steady fs \<and> window_ok ok contents nsect fs'"
proof -
  note fd = reliable_disk.axioms(1) [OF assms(1)]
  have "fat_disk.good ok contents nsect fs"
    using assms(2,3) by (simp add: fat_disk.good_def [OF fd] volume_ok_def)
  from reliable_disk.dir_find_found [OF assms(1) this assms(2,4,5)]
  obtain r dp' fs' where f: "dir_find io dp fs = Some (r, dp', fs')" "reliable_disk.browsed ok contents nsect fs fs'"
      "fn dp' = fn dp" "found contents xs fs (dir_lookup contents xs fs (fn dp)) r dp' fs'" by blast
  then show ?thesis
    by (intro exI [of _ r] exI [of _ dp'] exI [of _ fs'])
      (simp add: reliable_disk.browsed_def [OF assms(1)] fat_disk.good_def [OF fd] fat_disk.same_view_def [OF fd])
qed

text \<open>A FAT16 volume with one file of three bytes in its root directory, which is in the window.\<close>

definition sample_entry :: "byte list" where
  "sample_entry = [0x46] @ replicate 10 0x20 @ [AM_ARC] @ replicate 14 0 @ [5, 0, 3, 0, 0, 0]"

definition sample_dir_volume :: "sim_card disk fatfs" where
  "sample_dir_volume = (sample_volume FS_FAT16)
     \<lparr>winsect := 4, win := sample_entry @ replicate 480 0, wflag := 1,
      medium := \<lparr>dk_card = \<lparr>sim_out = [], sim_phase = Sim_idle,
                            sim_mem = (\<lambda>a. if a = 2 then st_word (replicate 512 0) 10 0xFFFF
                                           else if a = 8 then [0x61, 0x62, 0x63] @ replicate 509 0 else replicate 512 0)\<rparr>,
                 dk_Stat = 0, dk_CardType = 0x18, dk_spi = Spi_fast\<rparr>\<rparr>"

definition sample_dir :: ffdir where
  "sample_dir =
    \<lparr>dobj = \<lparr>obj_fs = True, obj_id = 1, obj_attr = 0, obj_stat = 0, sclust = 0, objsize = 0, lockid = 0\<rparr>,
     dptr = 0, dclust = 0, dsect = 0, ddir = 0, fn = [0x46] @ replicate 10 0x20 @ [NS_LAST], dpat = []\<rparr>"

lemma sample_dir_fields:
  "fs_type sample_dir_volume = FS_FAT16" "pdrv sample_dir_volume = 0" "n_fats sample_dir_volume = 2"
  "wflag sample_dir_volume = 1" "n_rootdir sample_dir_volume = 16" "csize sample_dir_volume = 1"
  "n_fatent sample_dir_volume = 100" "fsize sample_dir_volume = 1" "volbase sample_dir_volume = 0"
  "fatbase sample_dir_volume = 2" "dirbase sample_dir_volume = 4" "database sample_dir_volume = 5"
  "winsect sample_dir_volume = 4" "win sample_dir_volume = sample_entry @ replicate 480 0"
  "fs_id sample_dir_volume = 1" "cdir sample_dir_volume = 0" "ldrv sample_dir_volume = 0"
  by (simp_all add: sample_dir_volume_def sample_volume_def)

lemma sample_dir_medium:
  "disk_ok sim_busy 2 0x18 (medium sample_dir_volume)"
  "disk_contents sim_mem (medium sample_dir_volume) k =
     (if k = 2 then st_word (replicate 512 0) 10 0xFFFF
      else if k = 8 then [0x61, 0x62, 0x63] @ replicate 509 0 else replicate 512 0)"
  by (simp_all add: sample_dir_volume_def disk_ok_def sim_busy_def disk_contents_def block_arg_def)

lemma sample_dir_volume_ok:
  "volume_ok 1000 sample_dir_volume"
  "window_ok (disk_ok sim_busy 2 0x18) (disk_contents sim_mem) 1000 sample_dir_volume"
  "dir_ok (disk_contents sim_mem) [] 0 sample_dir_volume" "dir_room [] sample_dir_volume = 16"
proof -
  show "volume_ok 1000 sample_dir_volume"
    by (simp add: sample_dir_fields volume_ok_def layout_def fat_end_def fat_ok_def table_bytes_def fat_limit_def)
  show "window_ok (disk_ok sim_busy 2 0x18) (disk_contents sim_mem) 1000 sample_dir_volume"
    by (simp add: sample_dir_fields sample_dir_medium(1) window_ok_def sample_entry_def)
  show "dir_ok (disk_contents sim_mem) [] 0 sample_dir_volume"
    by (simp add: sample_dir_fields dir_ok_def dir_room_def)
  show "dir_room [] sample_dir_volume = 16"
    by (simp add: sample_dir_fields dir_room_def)
qed

lemma sample_dir_lookup:
  assumes "take 11 name = [0x46] @ replicate 10 0x20"
  shows "dir_lookup (disk_contents sim_mem) [] sample_dir_volume name = Some 0"
proof -
  have up: "[0..<16] = 0 # [1..<16]" by (subst upt_conv_Cons) simp_all
  have v: "view (disk_contents sim_mem) sample_dir_volume (dir_sector [] sample_dir_volume 0) = sample_entry @ replicate 480 0"
    by (simp add: view_def dir_sector_def sample_dir_fields)
  have e: "(sample_entry @ replicate 480 0) ! dir_ofs 0 \<noteq> 0" by (simp add: sample_entry_def dir_ofs_def)
  have i: "entry_is name (sample_entry @ replicate 480 0) (dir_ofs 0)"
    using assms by (simp add: entry_is_def sample_entry_def dir_ofs_def nth_append)
  show ?thesis unfolding dir_lookup_def sample_dir_volume_ok(4) up by (simp add: v e i del: append.simps)
qed

theorem dir_find_looks_up_witness:
  "\<exists>dp' fs'. dir_find (sd_io sim_api) sample_dir sample_dir_volume = Some (FR_OK, dp', fs') \<and>
     winsect fs' = 4 \<and> ddir dp' = 0"
proof -
  have d: "sclust (dobj sample_dir) = 0" "dir_lookup (disk_contents sim_mem) [] sample_dir_volume (fn sample_dir) = Some 0"
    by (simp add: sample_dir_def) (rule sample_dir_lookup, simp add: sample_dir_def)
  have s: "dir_sector [] sample_dir_volume 0 = 4" "dir_ofs 0 = 0"
    by (simp_all add: dir_sector_def sample_dir_fields dir_ofs_def)
  have "dir_ok (disk_contents sim_mem) [] (sclust (dobj sample_dir)) sample_dir_volume" "0 < dir_room [] sample_dir_volume"
    using sample_dir_volume_ok(3,4) d(1) by simp_all
  from dir_find_looks_up [OF sim_fat.reliable_disk_axioms sample_dir_volume_ok(1,2) this] s
  show ?thesis unfolding d(2) by (auto simp: found_def at_entry_def)
qed

end
