(* ===== verification/FatOpen.thy ===== *)
theory FatOpen
  imports FatLookup
begin

text \<open>
  Opening a file that exists. \<open>f_open\<close> follows a path of one name in the current directory, checks the
  entry against the mode and the table of open files, and fills the file object. \<open>entry_file\<close> says that an
  entry of a directory is a file with the clusters \<open>ys\<close>; opening it establishes the invariant on which
  the theories of reading, writing, seeking, truncating and synchronising rest.
\<close>

section \<open>The file behind an entry\<close>

definition entry_sclust :: "('d \<Rightarrow> u32 \<Rightarrow> byte list) \<Rightarrow> u32 list \<Rightarrow> 'd fatfs \<Rightarrow> nat \<Rightarrow> u32" where
  "entry_sclust contents xs fs n = ld_clust fs (view contents fs (dir_sector xs fs n)) (dir_ofs n)"

definition entry_size :: "('d \<Rightarrow> u32 \<Rightarrow> byte list) \<Rightarrow> u32 list \<Rightarrow> 'd fatfs \<Rightarrow> nat \<Rightarrow> u32" where
  "entry_size contents xs fs n = ld_dword (view contents fs (dir_sector xs fs n)) (dir_ofs n + DIR_FileSize)"

definition entry_attr :: "('d \<Rightarrow> u32 \<Rightarrow> byte list) \<Rightarrow> u32 list \<Rightarrow> 'd fatfs \<Rightarrow> nat \<Rightarrow> byte" where
  "entry_attr contents xs fs n = view contents fs (dir_sector xs fs n) ! (dir_ofs n + DIR_Attr) AND AM_MASK"

definition entry_file :: "('d \<Rightarrow> u32 \<Rightarrow> byte list) \<Rightarrow> u32 list \<Rightarrow> nat \<Rightarrow> u32 list \<Rightarrow> 'd fatfs \<Rightarrow> bool" where
  \<comment> \<open>entry \<open>n\<close> of the directory \<open>xs\<close> is a file in the clusters \<open>ys\<close>\<close>
  "entry_file contents xs n ys fs \<longleftrightarrow>
     (if ys = [] then entry_sclust contents xs fs n = 0
      else fat_chain (fat_of contents fs) (n_fatent fs) ys \<and> hd ys = entry_sclust contents xs fs n) \<and>
     unat (entry_size contents xs fs n) \<le> SS * file_room ys fs \<and> dir_sector xs fs n \<notin> file_sectors ys fs"

definition view_bytes :: "('d \<Rightarrow> u32 \<Rightarrow> byte list) \<Rightarrow> u32 list \<Rightarrow> u32 \<Rightarrow> 'd fatfs \<Rightarrow> byte list" where
  \<comment> \<open>the first \<open>n\<close> bytes of the clusters \<open>xs\<close> as FatFs sees them\<close>
  "view_bytes contents xs n fs =
    map (\<lambda>i. view contents fs (file_sector xs fs (i div SS)) ! (i mod SS)) [0..<unat n]"

definition plain_mode :: "byte \<Rightarrow> bool" where
  \<comment> \<open>reading, writing or both, an existing file, no seek to the end\<close>
  "plain_mode mode \<longleftrightarrow> mode \<in> {FA_READ, FA_WRITE, FA_READ OR FA_WRITE}"

lemma chain_sector:
  assumes "volume_ok nsect fs" and "fat_chain (fat_of contents fs) (n_fatent fs) ys" and "i < file_room ys fs"
  shows "file_sector ys fs i < nsect" and "\<not> shadow fs (file_sector ys fs i)" and "file_sector ys fs i \<noteq> 0"
proof -
  have cs: "0 < unat (csize fs)" using assms(1) by (simp add: volume_ok_def unat_gt_0)
  have "i div unat (csize fs) < length ys" using assms(3) cs by (simp add: file_room_def div_less_iff_less_mult)
  then have r: "2 \<le> ys ! (i div unat (csize fs)) \<and> ys ! (i div unat (csize fs)) < n_fatent fs"
    by (intro fat_chain_range [OF assms(2)] nth_mem)
  have m: "i mod unat (csize fs) < unat (csize fs)" using cs by simp
  note ds = data_sector [OF assms(1) conjunct1 [OF r] conjunct2 [OF r] m, folded file_sector_def]
  show "file_sector ys fs i < nsect" "\<not> shadow fs (file_sector ys fs i)" by (rule ds(3), rule ds(4))
  have "fat_end fs \<le> unat (database fs)" "layout nsect fs" using assms(1) by (simp_all add: volume_ok_def)
  moreover from this have "0 < fat_end fs" by (auto simp: layout_def fat_end_def)
  ultimately show "file_sector ys fs i \<noteq> 0" using ds(2) by (auto simp: word_unat_eq_iff)
qed

section \<open>A path of one name\<close>

context reliable_disk begin

lemma follow_one_name:
  assumes "good fs" and "volume_ok nsect fs" and "dir_ok contents xs (cdir fs) fs" and "0 < dir_room xs fs"
    and "create_name path (fn dp) = Some (FR_OK, f, rest)" and "f ! NSFLAG = NS_LAST"
    and "path \<noteq> []" and "\<not> IsSeparator (hd path)" and "\<not> hd path < 0x20"
    and "dir_lookup contents xs fs f = Some n"
  shows "\<exists>dp' fs'. follow_path io dp path fs = Some (FR_OK, dp', fs') \<and> browsed fs fs' \<and> fn dp' = f \<and>
    (\<exists>a. dobj dp' = (dobj dp)\<lparr>sclust := cdir fs, obj_attr := a\<rparr>) \<and> found contents xs fs (Some n) FR_OK dp' fs'"
proof -
  let ?dp = "dp\<lparr>dobj := (dobj dp)\<lparr>sclust := cdir fs\<rparr>, fn := f\<rparr>"
  have "dir_ok contents xs (sclust (dobj ?dp)) fs" using assms(3) by simp
  from dir_find_found [OF assms(1,2) this assms(4)] obtain r dp' fs' a where
    d: "dir_find io ?dp fs = Some (r, dp', fs')" "browsed fs fs'" "fn dp' = f"
      "dobj dp' = (dobj ?dp)\<lparr>obj_attr := a\<rparr>" "found contents xs fs (Some n) r dp' fs'"
    using assms(10) by auto
  have r: "r = FR_OK" using d(5) by (simp add: found_def)
  obtain c p where p: "path = c # p" using assms(7) by (cases path) auto
  have "follow_loop io path (dp\<lparr>dobj := (dobj dp)\<lparr>sclust := cdir fs\<rparr>\<rparr>) fs = Some (FR_OK, dp', fs')"
    using assms(5,6) d(1,3) r by (subst follow_loop.simps) simp
  then have "follow_path io dp path fs = Some (FR_OK, dp', fs')"
    using assms(8,9) p by (simp add: follow_path_def c_at_def)
  then show ?thesis using d r by auto
qed

end

section \<open>The file object\<close>

lemma share_one:
  assumes "\<not> sem_fs e" and "obj_fs (dobj dp)"
  shows "chk_share [e] dp acc = FR_OK \<or> acc = 2" and "\<exists>F. inc_share [e] dp acc = (1, F)"
  using assms by (auto simp: chk_share_def inc_share_def sem_is_def Let_def)

lemma mode_bits:
  assumes "plain_mode mode"
  shows "mode AND (FA_READ OR FA_WRITE OR FA_CREATE_ALWAYS OR FA_CREATE_NEW OR FA_OPEN_ALWAYS OR FA_OPEN_APPEND) = mode"
    and "mode AND (FA_CREATE_ALWAYS OR FA_OPEN_ALWAYS OR FA_CREATE_NEW) = 0" and "mode AND FA_CREATE_ALWAYS = 0"
    and "mode AND FA_SEEKEND = 0" and "mode AND FA_DIRTY = 0"
  using assms by (auto simp: plain_mode_def)

context reliable_disk begin

lemma opened_file:
  assumes "good fs" and "volume_ok nsect fs" and "browsed fs fs'" and "entry_file contents xs n ys fs"
    and "winsect fs' = dir_sector xs fs n" and "win fs' = view contents fs (dir_sector xs fs n)"
    and "ddir dj = dir_ofs n" and "mode AND FA_DIRTY = 0" and "fp' = open_init mode dj fp fs'"
  shows "sclust (fobj fp') = entry_sclust contents xs fs n" and "objsize (fobj fp') = entry_size contents xs fs n"
    and "file_ok contents ys fp' fs'" and "file_pos ys fp' fs'"
    and "file_bytes contents ys fp' fs' = view_bytes contents ys (entry_size contents xs fs n) fs"
proof -
  have g: "geometry fs' = geometry fs" by (rule browsed_geometry [OF assms(3)])
  have f: "fbuf fp' = replicate 512 0" "fsect fp' = 0" "fptr fp' = 0" "\<not> dirty fp'"
    using assms(8,9) by (simp_all add: open_init_def dirty_def)
  show sc: "sclust (fobj fp') = entry_sclust contents xs fs n"
    using assms(6,7,9) ld_clust_cong [OF g] by (simp add: open_init_def entry_sclust_def)
  show sz: "objsize (fobj fp') = entry_size contents xs fs n"
    using assms(6,7,9) by (simp add: open_init_def entry_size_def)
  have w: "winsect fs' \<notin> file_sectors ys fs" using assms(4,5) by (simp add: entry_file_def)
  have size: "unat (entry_size contents xs fs n) \<le> SS * file_room ys fs" using assms(4) by (simp add: entry_file_def)
  have ch: "fat_chain (fat_of contents fs) (n_fatent fs) ys" if "ys \<noteq> []" using assms(4) that by (simp add: entry_file_def)
  have ch': "fat_chain (fat_of contents fs') (n_fatent fs) ys" if "ys \<noteq> []"
    using ch [OF that] browsed_fat [OF assms(3,2)] fat_chain_range [OF ch [OF that]]
      fat_chain_cong [of ys "fat_of contents fs'" "fat_of contents fs"] by blast
  have sec: "file_sector ys fs i < nsect" "\<not> shadow fs (file_sector ys fs i)" "file_sector ys fs i \<noteq> 0"
      "file_sector ys fs i \<in> file_sectors ys fs" if "i < file_room ys fs" for i
  proof -
    have "ys \<noteq> []" using that by (auto simp: file_room_def)
    from chain_sector [OF assms(2) ch [OF this] that]
    show "file_sector ys fs i < nsect" "\<not> shadow fs (file_sector ys fs i)" "file_sector ys fs i \<noteq> 0" by blast+
    show "file_sector ys fs i \<in> file_sectors ys fs" using that by (auto simp: file_sectors_def file_room_def)
  qed
  show "file_pos ys fp' fs'" using f(3) by (simp add: file_pos_def)
  have "file_chain contents ys (fobj fp') fs'"
    using assms(4) ch' w size unfolding file_chain_def file_cong [OF g] geometry_fields [OF g] sc sz
    by (auto simp: entry_file_def)
  moreover have "cache_ok contents ys fp' fs'"
    using f sec(3) unfolding cache_ok_def file_cong [OF g] by auto
  ultimately show "file_ok contents ys fp' fs'" by (simp add: file_ok_def)
  have "contents (medium fs') (file_sector ys fs (i div SS)) = view contents fs (file_sector ys fs (i div SS))"
    if "i < unat (entry_size contents xs fs n)" for i
  proof -
    have i: "i div SS < file_room ys fs" using that size by (simp add: div_less_iff_less_mult mult.commute)
    have "view contents fs' (file_sector ys fs (i div SS)) = view contents fs (file_sector ys fs (i div SS))"
      using assms(3) sec(1,2) [OF i] by (simp add: browsed_def same_view_def)
    moreover have "file_sector ys fs (i div SS) \<noteq> winsect fs'" using sec(4) [OF i] w by auto
    ultimately show ?thesis by (simp add: view_def)
  qed
  then show "file_bytes contents ys fp' fs' = view_bytes contents ys (entry_size contents xs fs n) fs"
    using clean_bytes [OF f(4), of contents ys fs'] sz
    by (simp add: stored_bytes_def view_bytes_def file_cong(1) [OF g])
qed

lemma open_file_opens:
  assumes "plain_mode mode" and "Files s1 = [e]" and "\<not> sem_fs e" and "good (vol s1)" and "volume_ok nsect (vol s1)"
    and "dir_ok contents xs (cdir (vol s1)) (vol s1)" and "0 < dir_room xs (vol s1)"
    and "p \<noteq> []" and "\<not> IsSeparator (hd p)" and "\<not> hd p < 0x20"
    and "create_name p (fn dj) = Some (FR_OK, f, rest)" and "f ! NSFLAG = NS_LAST"
    and "dir_lookup contents xs (vol s1) f = Some n" and "entry_file contents xs n ys (vol s1)"
    and "entry_attr contents xs (vol s1) n AND AM_DIR = 0"
    and "mode AND FA_WRITE = 0 \<or> entry_attr contents xs (vol s1) n AND AM_RDO = 0"
  shows "\<exists>fp' fs' F. open_file io tm dj p mode fp s1 = Some (FR_OK, fp', s1\<lparr>vol := fs', Files := F\<rparr>) \<and>
    browsed (vol s1) fs' \<and> volume_ok nsect fs' \<and> file_ok contents ys fp' fs' \<and> file_pos ys fp' fs' \<and>
    file_bytes contents ys fp' fs' = view_bytes contents ys (entry_size contents xs (vol s1) n) (vol s1) \<and>
    sclust (fobj fp') = entry_sclust contents xs (vol s1) n \<and> objsize (fobj fp') = entry_size contents xs (vol s1) n \<and>
    fptr fp' = 0 \<and> ferr fp' = FR_OK \<and> fflag fp' = mode \<and> obj_fs (fobj fp') \<and> obj_id (fobj fp') = fs_id fs' \<and>
    dir_sect fp' = dir_sector xs (vol s1) n \<and> dir_ptr fp' = dir_ofs n"
proof -
  let ?fs = "vol s1" and ?dj = "dj\<lparr>dobj := (dobj dj)\<lparr>obj_fs := True\<rparr>\<rparr>"
  have cn: "create_name p (fn ?dj) = Some (FR_OK, f, rest)" using assms(11) by simp
  from follow_one_name [OF assms(4-7) cn assms(12,8-10,13)]
  obtain dp fs' a where d: "follow_path io ?dj p ?fs = Some (FR_OK, dp, fs')"
      "browsed ?fs fs'" "fn dp = f"
      "dobj dp = (dobj ?dj)\<lparr>sclust := cdir ?fs, obj_attr := a\<rparr>" "found contents xs ?fs (Some n) FR_OK dp fs'" by blast
  have fo: "winsect fs' = dir_sector xs ?fs n" "win fs' = view contents ?fs (dir_sector xs ?fs n)" "ddir dp = dir_ofs n"
      "obj_attr (dobj dp) = entry_attr contents xs ?fs n"
    using d(5) by (simp_all add: found_def at_entry_def entry_attr_def)
  note mb = mode_bits [OF assms(1)]
  have of: "obj_fs (dobj dp)" using d(4) by simp
  define acc :: nat where "acc = (if mode AND NOT FA_READ \<noteq> 0 then 1 else 0)"
  have "acc \<noteq> 2" by (simp add: acc_def)
  then have ch: "chk_share (Files s1) dp acc = FR_OK" using share_one(1) [OF assms(3) of] assms(2) by auto
  obtain F where ic: "inc_share (Files s1) dp acc = (1, F)" using share_one(2) [OF assms(3) of] assms(2) by auto
  have ex: "open_existing mode dp FR_OK = FR_OK" using assms(15,16) fo(4) by (auto simp: open_existing_def)
  have "f ! NSFLAG AND NS_NONAME = 0" using assms(12) by simp
  then have oe: "open_entry io tm (Files s1) dj p mode ?fs = Some (FR_OK, mode, dp, fs')"
    using d(1,3) ch ex mb(2) by (simp add: open_entry_def acc_def split del: if_split cong: if_cong)
  define fp1 where "fp1 = fp\<lparr>dir_sect := winsect fs', dir_ptr := ddir dp, fobj := (fobj fp)\<lparr>lockid := 1\<rparr>\<rparr>"
  define fp' where "fp' = open_init mode dp fp1 fs'"
  have "open_handle io mode dp fp (s1\<lparr>vol := fs'\<rparr>) = Some (FR_OK, fp', s1\<lparr>vol := fs', Files := F\<rparr>)"
    using ic mb(3,4) unfolding acc_def by (simp add: open_handle_def fp'_def fp1_def Let_def)
  then have of: "open_file io tm dj p mode fp s1 = Some (FR_OK, fp', s1\<lparr>vol := fs', Files := F\<rparr>)"
    using oe by (simp add: open_file_def)
  note r = opened_file [OF assms(4,5) d(2) assms(14) fo(1-3) mb(5) fp'_def]
  have "fptr fp' = 0" "ferr fp' = FR_OK" "fflag fp' = mode" "obj_fs (fobj fp')" "obj_id (fobj fp') = fs_id fs'"
      "dir_sect fp' = dir_sector xs ?fs n" "dir_ptr fp' = dir_ofs n"
    using fo by (simp_all add: fp'_def fp1_def open_init_def)
  with of r d(2) browsed_dir(1) [OF d(2) assms(5,6)] show ?thesis by blast
qed

end

lemma f_open_plain:
  assumes "mount_volume io mx (Some path) mode s = Some (FR_OK, True, Some p, s1)" and "plain_mode mode"
    and "open_file io tm dj p mode fp s1 = Some (FR_OK, fp', s2)"
  shows "f_open io mx tm dj fp path mode s = Some (FR_OK, fp', unlock_volume mx True FR_OK s2)"
  using assms(1,3) unfolding f_open_def mode_bits(1) [OF assms(2)] Let_def by simp

section \<open>Property\<close>


text \<open>The file of the sample volume, opened for reading.\<close>

definition sample_dir_system :: "(sim_card disk, kernel ff_state) ffsys" where
  "sample_dir_system = sample_file_system\<lparr>vol := sample_dir_volume,
     Files := [\<lparr>sem_fs = False, sem_clu = 0, sem_ofs = 0, sem_ctr = 0\<rparr>]\<rparr>"

lemma sample_dir_mounted:
  obtains s1 where
    "mount_volume (sd_io sim_api) (os_mutex kernel_api) (Some [0x46, 0]) FA_READ sample_dir_system
      = Some (FR_OK, True, Some [0x46, 0], s1)"
    "vol s1 = sample_dir_volume" "Files s1 = [\<lparr>sem_fs = False, sem_clu = 0, sem_ofs = 0, sem_ctr = 0\<rparr>]"
proof -
  have l: "get_ldnumber (CurrVol sample_dir_system) (Some [0x46, 0]) = Some (0, Some [0x46, 0])"
    by (simp add: get_ldnumber_def IsTerminator_def sample_dir_system_def sample_file_system_def)
  obtain k where k: "ff_lock kernel_api 0 (mutexes sample_dir_system) = (True, k)"
    by (simp add: ff_lock_def ff_mutex_take_def kernel_api_def sample_dir_system_def sample_file_system_def)
  let ?s = "sample_dir_system\<lparr>mutexes := k\<rparr>"
  have m: "lock_volume (os_mutex kernel_api) True sample_dir_system = (True, ?s)"
    using k by (simp add: lock_volume_def os_mutex_def sample_dir_system_def sample_dir_fields)
  have "mounted_status (sd_io sim_api) ?s = (0, ?s)"
    by (simp add: mounted_status_def sd_io_def disk_status_def sample_dir_system_def sample_dir_fields) (simp add: sample_dir_volume_def sim_api_def)
  then have "mount_volume (sd_io sim_api) (os_mutex kernel_api) (Some [0x46, 0]) FA_READ sample_dir_system
      = Some (FR_OK, True, Some [0x46, 0], ?s)"
    using l m by (simp add: mount_volume_def) (simp add: sample_dir_system_def sample_file_system_def)
  then show thesis by (rule that) (simp_all add: sample_dir_system_def)
qed

lemma sample_dir_entry:
  "entry_file (disk_contents sim_mem) [] 0 [5] sample_dir_volume"
  "entry_size (disk_contents sim_mem) [] sample_dir_volume 0 = 3"
  "entry_attr (disk_contents sim_mem) [] sample_dir_volume 0 = AM_ARC"
  "view_bytes (disk_contents sim_mem) [5] 3 sample_dir_volume = [0x61, 0x62, 0x63]"
proof -
  have v: "view (disk_contents sim_mem) sample_dir_volume (dir_sector [] sample_dir_volume 0) = sample_entry @ replicate 480 0"
    by (simp add: view_def dir_sector_def sample_dir_fields)
  have sc: "entry_sclust (disk_contents sim_mem) [] sample_dir_volume 0 = 5"
    unfolding entry_sclust_def v by (simp add: ld_clust_def sample_dir_fields sample_entry_def dir_ofs_def ld_word_def nth_append)
  show sz: "entry_size (disk_contents sim_mem) [] sample_dir_volume 0 = 3"
    unfolding entry_size_def v by (simp add: sample_entry_def dir_ofs_def ld_dword_def nth_append Let_def)
  show "entry_attr (disk_contents sim_mem) [] sample_dir_volume 0 = AM_ARC"
    unfolding entry_attr_def v by (simp add: sample_entry_def dir_ofs_def nth_append)
  have f: "fat_of (disk_contents sim_mem) sample_dir_volume 5 = 0xFFFF"
    by (simp add: fat_of_def fat_entry_def fat_byte_def view_def sample_dir_fields sample_dir_medium(2) nth_st_word word_of_def)
  have fs: "file_sector [5] sample_dir_volume 0 = 8" "file_sectors [5] sample_dir_volume = {8}"
    by (auto simp: file_sectors_def file_sector_def clst2sect_def sample_dir_fields)
  show "entry_file (disk_contents sim_mem) [] 0 [5] sample_dir_volume"
    unfolding entry_file_def sc sz fs using f by (simp add: sample_dir_fields file_room_def dir_sector_def)
  show "view_bytes (disk_contents sim_mem) [5] 3 sample_dir_volume = [0x61, 0x62, 0x63]"
    by (simp add: view_bytes_def upt_rec fs view_def sample_dir_fields sample_dir_medium(2))
qed

lemma sample_one_name:
  "create_name [0x46, 0] (fn sample_dir) = Some (FR_OK, [0x46] @ replicate 10 0x20 @ [NS_LAST], [])"
  by (simp add: create_name_def sample_dir_def store_at_def c_at_def IsSeparator_def sfn_illegal_def IsLower_def)
    (simp add: eval_nat_numeral)


end
