(* ===== verification/FatClose.thy ===== *)
theory FatClose
  imports FatOpen
begin

text \<open>
  Closing a file and opening it again. What \<open>f_close\<close> leaves on the drive is what \<open>f_open\<close> finds there:
  the search still finds the entry, the entry has the size and the first cluster of the file, and the
  chain behind it the bytes.
\<close>

section \<open>The directory after a file was synchronised\<close>

lemma dir_ofs_apart:
  "dir_ofs m = dir_ofs n \<or> dir_ofs m + 32 \<le> dir_ofs n \<or> dir_ofs n + 32 \<le> dir_ofs m"
  by (cases "m mod 16" "n mod 16" rule: linorder_cases) (simp_all add: dir_ofs_def)

lemma archive_bits:
  "((a :: byte) OR AM_ARC) AND AM_VOL = a AND AM_VOL"
  "((a :: byte) OR AM_ARC) AND AM_MASK AND AM_DIR = a AND AM_MASK AND AM_DIR"
  "((a :: byte) OR AM_ARC) AND AM_MASK AND AM_RDO = a AND AM_MASK AND AM_RDO"
  by (simp_all add: bit.conj_disj_distrib2 and.assoc)

lemma entry_bytes_kept:
  assumes "entry_of fp tm fs w w'" and "dir_ptr fp = dir_ofs n"
  shows "entry_is name w' (dir_ofs m) = entry_is name w (dir_ofs m)"
    and "w' ! dir_ofs m = w ! dir_ofs m"
proof -
  have w: "\<And>i. i \<noteq> dir_ofs n + DIR_Attr \<Longrightarrow> i < dir_ofs n + DIR_LstAccDate \<or> dir_ofs n + 32 \<le> i \<Longrightarrow> w' ! i = w ! i"
      "w' ! (dir_ofs n + DIR_Attr) = w ! (dir_ofs n + DIR_Attr) OR AM_ARC" "length w' = length w"
    using assms(1) unfolding entry_of_def assms(2) by blast+
  have nm: "w' ! (dir_ofs m + i) = w ! (dir_ofs m + i)" if "i < 11" for i
    using dir_ofs_apart [of m n] that by (intro w(1)) auto
  from nm [of 0] show "w' ! dir_ofs m = w ! dir_ofs m" by simp
  have "take 11 (drop (dir_ofs m) w') = take 11 (drop (dir_ofs m) w)"
    using nm w(3) by (intro nth_equalityI) auto
  moreover have "w' ! (dir_ofs m + DIR_Attr) AND AM_VOL = w ! (dir_ofs m + DIR_Attr) AND AM_VOL"
  proof (cases "dir_ofs m = dir_ofs n")
    case True
    then show ?thesis using w(2) archive_bits(1) by simp
  next
    case False
    then show ?thesis using dir_ofs_apart [of m n] by (subst w(1)) auto
  qed
  ultimately show "entry_is name w' (dir_ofs m) = entry_is name w (dir_ofs m)" by (simp add: entry_is_def)
qed

lemma lookup_kept:
  assumes "geometry fs' = geometry fs" and "dir_ptr fp = dir_ofs n"
    and "entry_of fp tm fs (view contents fs (dir_sector xs fs n)) (view contents fs' (dir_sector xs fs n))"
    and "\<And>m. m < dir_room xs fs \<Longrightarrow> dir_sector xs fs m \<noteq> dir_sector xs fs n \<Longrightarrow>
      view contents fs' (dir_sector xs fs m) = view contents fs (dir_sector xs fs m)"
  shows "dir_lookup contents xs fs' name = dir_lookup contents xs fs name"
    and "entry_size contents xs fs' n = objsize (fobj fp)" and "entry_sclust contents xs fs' n = sclust (fobj fp)"
    and "entry_attr contents xs fs' n AND AM_DIR = entry_attr contents xs fs n AND AM_DIR"
    and "entry_attr contents xs fs' n AND AM_RDO = entry_attr contents xs fs n AND AM_RDO"
proof -
  have same: "entry_is name (view contents fs' (dir_sector xs fs m)) (dir_ofs m) =
        entry_is name (view contents fs (dir_sector xs fs m)) (dir_ofs m)"
      "view contents fs' (dir_sector xs fs m) ! dir_ofs m = view contents fs (dir_sector xs fs m) ! dir_ofs m"
    if "m < dir_room xs fs" for m
    using entry_bytes_kept [OF assms(3,2), where m = m] assms(4) [OF that] by (cases "dir_sector xs fs m = dir_sector xs fs n"; simp)+
  show "dir_lookup contents xs fs' name = dir_lookup contents xs fs name"
    unfolding dir_lookup_def dir_cong [OF assms(1)]
    by (intro find_cong takeWhile_cong refl) (auto simp: same dest!: set_takeWhileD)
  show "entry_size contents xs fs' n = objsize (fobj fp)" "entry_sclust contents xs fs' n = sclust (fobj fp)"
    using assms(2,3) unfolding entry_size_def entry_sclust_def dir_cong [OF assms(1)] ld_clust_cong [OF assms(1)]
    by (simp_all add: entry_of_def)
  have "entry_attr contents xs fs' n AND AM_DIR = entry_attr contents xs fs n AND AM_DIR \<and>
      entry_attr contents xs fs' n AND AM_RDO = entry_attr contents xs fs n AND AM_RDO"
  proof -
    have "view contents fs' (dir_sector xs fs n) ! (dir_ofs n + DIR_Attr) =
        view contents fs (dir_sector xs fs n) ! (dir_ofs n + DIR_Attr) OR AM_ARC"
      using assms(3) unfolding entry_of_def assms(2) by blast
    then show ?thesis unfolding entry_attr_def dir_cong [OF assms(1)] and.assoc
      by (simp only: archive_bits)
  qed
  then show "entry_attr contents xs fs' n AND AM_DIR = entry_attr contents xs fs n AND AM_DIR"
    "entry_attr contents xs fs' n AND AM_RDO = entry_attr contents xs fs n AND AM_RDO" by blast+
qed

section \<open>The volume after a file was synchronised\<close>

lemma cdir_kept [simp]:
  "cdir (snd (sync_window io fs)) = cdir fs"
  "cdir (snd (move_window io k fs)) = cdir fs"
  "cdir (update_entry tm fp fs) = cdir fs"
  "cdir (snd (snd (flush_buf io fp fs))) = cdir fs"
  by (simp_all add: sync_window_def move_window_def update_entry_def flush_buf_def Let_def split_beta)

lemma sync_fs_cdir [simp]: "cdir (snd (sync_fs io fs)) = cdir fs"
proof -
  have "cdir (snd (sync_window io fs)) = cdir fs" by simp
  then show ?thesis by (simp add: sync_fs_def Let_def split_beta)
qed

lemma sync_file_cdir: "cdir (snd (snd (sync_file io tm fp fs))) = cdir fs"
  by (simp add: sync_file_def split_beta)

lemma clean_view:
  assumes "window_ok ok contents nsect fs" and "wflag fs = 0" and "k < nsect" and "\<not> shadow fs k"
  shows "view contents fs k = contents (medium fs) k"
  using assms by (auto simp: window_ok_def view_def)

context stream_disk begin

lemma synced_directory:
  assumes "held xs fp fs" and "fflag fp AND FA_MODIFIED \<noteq> 0"
    and "fs_type fs = FS_FAT32 \<or> unat (sclust (fobj fp)) < 2 ^ 16"
    and "dir_ok contents ds (cdir fs) fs" and "n < dir_room ds fs"
    and "dir_sect fp = dir_sector ds fs n" and "dir_ptr fp = dir_ofs n"
    and "\<And>m. m < dir_room ds fs \<Longrightarrow> dir_sector ds fs m \<notin> file_sectors xs fs"
  shows "\<exists>fp' fs'. sync_file io tm fp fs = (FR_OK, fp', fs') \<and> fobj fp' = fobj fp \<and>
    good fs' \<and> volume_ok nsect fs' \<and> geometry fs' = geometry fs \<and>
    dir_ok contents ds (cdir fs') fs' \<and> dir_lookup contents ds fs' name = dir_lookup contents ds fs name \<and>
    entry_file contents ds n xs fs' \<and> entry_size contents ds fs' n = objsize (fobj fp) \<and>
    entry_sclust contents ds fs' n = sclust (fobj fp) \<and>
    entry_attr contents ds fs' n AND AM_DIR = entry_attr contents ds fs n AND AM_DIR \<and>
    entry_attr contents ds fs' n AND AM_RDO = entry_attr contents ds fs n AND AM_RDO \<and>
    view_bytes contents xs (objsize (fobj fp)) fs' = file_bytes contents xs fp fs"
proof -
  have v: "volume_ok nsect fs" and ok: "file_ok contents xs fp fs" using assms(1) by (simp_all add: held_def)
  note dv = dir_sector_value [OF v assms(4)]
  have D: "dir_sect fp < nsect" "\<not> shadow fs (dir_sect fp)" "\<not> in_fat fs (dir_sect fp)"
      "dir_sect fp \<notin> file_sectors xs fs" "dir_ptr fp + 32 \<le> 512"
    using dv [OF assms(5)] assms(8) [OF assms(5)] unfolding assms(6,7) by (auto simp: dir_ofs_def)
  obtain fp' fs' where r: "sync_file io tm fp fs = (FR_OK, fp', fs')" "held xs fp' fs'" "geometry fs' = geometry fs"
      "wflag fs' = 0" "\<not> dirty fp'" "fobj fp' = fobj fp"
      "\<forall>c < n_fatent fs. fat_of contents fs' c = fat_of contents fs c"
      "\<forall>i < file_room xs fs. file_block contents xs fp' fs' i = file_block contents xs fp fs i"
      "entry_of fp tm fs (view contents fs (dir_sect fp)) (contents (medium fs') (dir_sect fp))"
      "\<forall>k < nsect. \<not> shadow fs k \<longrightarrow> k \<notin> file_sectors xs fs \<longrightarrow> k \<noteq> dir_sect fp \<longrightarrow>
         contents (medium fs') k = view contents fs k"
    using sync_file_durable [OF assms(1,2) D assms(3)] by blast
  have h': "good fs'" "volume_ok nsect fs'" "file_ok contents xs fp' fs'" using r(2) by (simp_all add: held_def)
  have cv: "view contents fs' k = contents (medium fs') k" if "k < nsect" "\<not> shadow fs k" for k
  proof (rule clean_view [OF _ r(4) that(1)])
    show "window_ok ok contents nsect fs'" using h'(1) by (simp add: good_def)
    show "\<not> shadow fs' k" using that(2) geometry_cong(2) [OF r(3)] by simp
  qed
  have kept: "view contents fs' (dir_sector ds fs m) = view contents fs (dir_sector ds fs m)"
    if "m < dir_room ds fs" "dir_sector ds fs m \<noteq> dir_sector ds fs n" for m
    using cv [OF dv(1,2) [OF that(1)]] r(10) dv(1,2) [OF that(1)] assms(6,8) that by simp
  have eo: "entry_of fp tm fs (view contents fs (dir_sector ds fs n)) (view contents fs' (dir_sector ds fs n))"
    using r(9) cv [OF D(1,2)] assms(6) by simp
  note lk = lookup_kept [OF r(3) assms(7) eo kept]
  have cd: "cdir fs' = cdir fs" using sync_file_cdir [of io tm fp fs] r(1) by simp
  have "dir_ok contents ds (cdir fs') fs'"
  proof -
    have "fat_chain (fat_of contents fs') (n_fatent fs) ds" if "fat_chain (fat_of contents fs) (n_fatent fs) ds"
      using that r(7) fat_chain_range [OF that] by (subst fat_chain_cong [of ds _ "fat_of contents fs"]) auto
    then show ?thesis using assms(4) unfolding dir_ok_def dir_cong [OF r(3)] geometry_fields [OF r(3)] cd by auto
  qed
  moreover have "entry_file contents ds n xs fs'"
    using h'(3) lk(2,3) D(4) r(6) assms(6) unfolding entry_file_def dir_cong [OF r(3)] file_cong [OF r(3)]
    by (auto simp: file_ok_def file_chain_def file_cong [OF r(3)])
  moreover have "view_bytes contents xs (objsize (fobj fp)) fs' = file_bytes contents xs fp fs"
  proof -
    have room: "i div SS < file_room xs fs" if "i < unat (objsize (fobj fp))" for i
      using that ok by (simp add: file_ok_defs div_less_iff_less_mult mult.commute)
    have "view_bytes contents xs (objsize (fobj fp)) fs' = stored_bytes contents xs (objsize (fobj fp)) fs'"
      unfolding view_bytes_def stored_bytes_def file_cong(1) [OF r(3)]
    proof (intro map_cong refl)
      fix i assume "i \<in> set [0..<unat (objsize (fobj fp))]"
      then have i: "i div SS < file_room xs fs" using room by simp
      then have "file_sector xs fs (i div SS) \<in> file_sectors xs fs"
        by (auto simp: file_sectors_def file_room_def)
      from file_sector_off [OF assms(1) this] cv
      show "view contents fs' (file_sector xs fs (i div SS)) ! (i mod SS) =
          contents (medium fs') (file_sector xs fs (i div SS)) ! (i mod SS)" by simp
    qed
    also have "\<dots> = file_bytes contents xs fp' fs'" using clean_bytes [OF r(5)] r(6) by metis
    also have "\<dots> = file_bytes contents xs fp fs"
      using r(6,8) room by (simp add: file_bytes_def file_byte_def)
    finally show ?thesis .
  qed
  ultimately show ?thesis using r(1,3,6) h'(1,2) lk by blast
qed

end

section \<open>Closing and mounting\<close>

text \<open>\<open>stays_ready\<close>: the drive answers a status query with no flag set and is not changed by it.\<close>

definition stays_ready :: "'d disk_io \<Rightarrow> ('d \<Rightarrow> bool) \<Rightarrow> bool" where
  "stays_ready io ok \<longleftrightarrow> (\<forall>d. ok d \<longrightarrow> io_status io 0 d = (0, d))"

lemma validate_ready:
  assumes "stays_ready io ok" and "ok (medium (vol s))" and "pdrv (vol s) = 0"
    and "validate io mx ob s = (r, has, s')"
  shows "vol s' = vol s" and "Files s' = Files s" and "r = FR_OK \<Longrightarrow> has"
  using assms by (auto simp: validate_def lock_volume_def unlock_volume_def stays_ready_def Let_def
      split: if_splits prod.splits bool.splits)

lemma mount_ready:
  assumes "stays_ready io ok" and "ok (medium (vol s))" and "pdrv (vol s) = 0" and "fs_type (vol s) \<noteq> 0"
    and "mount_volume io mx path mode s = Some (FR_OK, True, q, s')"
  shows "vol s' = vol s" and "Files s' = Files s"
  using assms by (auto simp: mount_volume_def mounted_status_def lock_volume_def stays_ready_def Let_def
      bind_eq_Some_conv split: if_splits prod.splits bool.splits)

lemma unlock_files [simp]: "Files (unlock_volume mx has r s) = Files s"
  by (simp_all add: unlock_volume_def Let_def)

lemma close_synced:
  assumes "stays_ready io ok" and "validate io mx (fobj fp) s = (FR_OK, True, s1)"
    and "sync_file io tm fp (vol s1) = (FR_OK, fp1, fs1)" and "ok (medium fs1)" and "pdrv fs1 = 0"
    and "Files s1 = [e]" and "lockid (fobj fp1) = 1" and "sem_ctr e = 1 \<or> sem_ctr e = 0x100"
    and "f_close io mx tm fp s = (FR_OK, fp2, s2)"
  shows "vol s2 = fs1" and "Files s2 = [e\<lparr>sem_ctr := 0, sem_fs := False\<rparr>]" and "\<not> obj_fs (fobj fp2)"
proof -
  let ?s = "unlock_volume mx True FR_OK (s1\<lparr>vol := fs1\<rparr>)"
  have sy: "f_sync io mx tm fp s = (FR_OK, fp1, ?s)" using assms(2,3) by (simp add: f_sync_def)
  obtain r has s3 where v: "validate io mx (fobj fp1) ?s = (r, has, s3)" by (cases "validate io mx (fobj fp1) ?s")
  have s3: "vol s3 = fs1" "Files s3 = [e]"
    using validate_ready(1,2) [OF assms(1) _ _ v] assms(4-6) by simp_all
  have "dec_share [e] 1 = (FR_OK, [e\<lparr>sem_ctr := 0, sem_fs := False\<rparr>])"
    using assms(8) by (auto simp: dec_share_def Let_def)
  then show "vol s2 = fs1" "Files s2 = [e\<lparr>sem_ctr := 0, sem_fs := False\<rparr>]" "\<not> obj_fs (fobj fp2)"
    using assms(7,9) sy v s3 by (auto simp: f_close_def split: if_splits)
qed

section \<open>Property\<close>


text \<open>The file of the sample volume, open for writing, with three changed bytes in its cache.\<close>

definition sample_open_system :: "(sim_card disk, kernel ff_state) ffsys" where
  "sample_open_system = sample_dir_system\<lparr>Files := [\<lparr>sem_fs = True, sem_clu = 0, sem_ofs = 0, sem_ctr = 0x100\<rparr>]\<rparr>"

definition sample_changed_file :: ffil where
  "sample_changed_file = sample_file\<lparr>fobj := (fobj sample_file)\<lparr>objsize := 3, lockid := 1\<rparr>, fflag := 0xC3,
     dir_sect := 4, dir_ptr := 0, fbuf := [0x78, 0x79, 0x7A] @ replicate 509 0\<rparr>"

definition sample_mutexes :: "nat list \<Rightarrow> kernel ff_state" where
  "sample_mutexes held = ([Some 0, Some 1], \<lparr>k_alive = [1, 0], k_held = held, k_next = 2\<rparr>)"

lemma sim_ready: "stays_ready (sd_io sim_api) (disk_ok sim_busy 2 0x18)"
  by (auto simp: stays_ready_def sd_io_def disk_status_def sim_api_def disk_ok_def)

lemma sample_lock:
  assumes "ldrv (vol s) = 0" and "mutexes s = sample_mutexes []" and "SysLock s = 1"
  shows "lock_volume (os_mutex kernel_api) sys s = (True, s\<lparr>mutexes := sample_mutexes [0]\<rparr>)"
    and "unlock_volume (os_mutex kernel_api) True FR_OK (s\<lparr>mutexes := sample_mutexes [0]\<rparr>) = s"
  using assms by (simp_all add: lock_volume_def unlock_volume_def os_mutex_def ff_lock_def ff_unlock_def ff_mutex_take_def
      ff_mutex_give_def kernel_api_def sample_mutexes_def)

lemma sample_validate:
  assumes "fs_type (vol s) \<noteq> 0" and "obj_fs ob" and "obj_id ob = fs_id (vol s)" and "pdrv (vol s) = 0"
    and "disk_ok sim_busy 2 0x18 (medium (vol s))"
    and "ldrv (vol s) = 0" and "mutexes s = sample_mutexes []" and "SysLock s = 1"
  shows "validate (sd_io sim_api) (os_mutex kernel_api) ob s = (FR_OK, True, s\<lparr>mutexes := sample_mutexes [0]\<rparr>)"
  using assms(1-5) sample_lock(1) [OF assms(6-8)] sim_ready by (simp add: validate_def stays_ready_def)

lemma sample_drive_mounts:
  assumes "fs_type (vol s) \<noteq> 0" and "pdrv (vol s) = 0" and "disk_ok sim_busy 2 0x18 (medium (vol s))"
    and "ldrv (vol s) = 0" and "mutexes s = sample_mutexes []" and "SysLock s = 1" and "FatFs s" and "CurrVol s = 0"
  shows "mount_volume (sd_io sim_api) (os_mutex kernel_api) (Some [0x46, 0]) FA_READ s
    = Some (FR_OK, True, Some [0x46, 0], s\<lparr>mutexes := sample_mutexes [0]\<rparr>)"
proof -
  have "get_ldnumber (CurrVol s) (Some [0x46, 0]) = Some (0, Some [0x46, 0])"
    using assms(8) by (simp add: get_ldnumber_def IsTerminator_def)
  then show ?thesis
    using assms(1-3,7) sample_lock(1) [OF assms(4-6)] sim_ready
    by (simp add: mount_volume_def mounted_status_def stays_ready_def)
qed

lemma sample_changed_ok:
  "file_ok (disk_contents sim_mem) [5] sample_changed_file sample_dir_volume"
  "file_bytes (disk_contents sim_mem) [5] sample_changed_file sample_dir_volume = [0x78, 0x79, 0x7A]"
  "file_sectors [5] sample_dir_volume = {8}"
proof -
  have f: "fat_of (disk_contents sim_mem) sample_dir_volume 5 = 0xFFFF"
    by (simp add: fat_of_def fat_entry_def fat_byte_def view_def sample_dir_fields sample_dir_medium(2) nth_st_word word_of_def)
  show fs: "file_sectors [5] sample_dir_volume = {8}"
    by (auto simp: file_sectors_def file_sector_def clst2sect_def sample_dir_fields)
  have o: "sclust (fobj sample_changed_file) = 5" "objsize (fobj sample_changed_file) = 3" "dirty sample_changed_file"
      "fsect sample_changed_file = 8" "fbuf sample_changed_file = [0x78, 0x79, 0x7A] @ replicate 509 0"
    by (simp_all add: sample_changed_file_def sample_file_def dirty_def)
  show "file_ok (disk_contents sim_mem) [5] sample_changed_file sample_dir_volume"
    unfolding file_ok_defs fs o using f by (simp add: sample_dir_fields file_room_def o(3))
  have "file_sector [5] sample_dir_volume 0 = 8" by (simp add: file_sector_def clst2sect_def sample_dir_fields)
  then show "file_bytes (disk_contents sim_mem) [5] sample_changed_file sample_dir_volume = [0x78, 0x79, 0x7A]"
    by (simp add: file_bytes_def file_byte_def file_block_def o upt_rec)
qed

lemma sample_open_fields:
  "vol sample_open_system = sample_dir_volume" "mutexes sample_open_system = sample_mutexes []"
  "SysLock sample_open_system = 1" "FatFs sample_open_system" "CurrVol sample_open_system = 0"
  "Files sample_open_system = [\<lparr>sem_fs = True, sem_clu = 0, sem_ofs = 0, sem_ctr = 0x100\<rparr>]"
  by (simp_all add: sample_open_system_def sample_dir_system_def sample_file_system_def sample_mutexes_def)

lemma sample_changed_fields:
  "obj_fs (fobj sample_changed_file)" "obj_id (fobj sample_changed_file) = 1" "lockid (fobj sample_changed_file) = 1"
  "fflag sample_changed_file AND FA_MODIFIED \<noteq> 0" "unat (sclust (fobj sample_changed_file)) < 2 ^ 16"
  "dir_sect sample_changed_file = dir_sector [] sample_dir_volume 0" "dir_ptr sample_changed_file = dir_ofs 0"
  by (simp_all add: sample_changed_file_def sample_file_def dir_sector_def sample_dir_fields dir_ofs_def)

lemma sample_dir_apart:
  assumes "m < dir_room [] sample_dir_volume"
  shows "dir_sector [] sample_dir_volume m \<notin> file_sectors [5] sample_dir_volume"
proof -
  have "m div 16 = 0" using assms sample_dir_volume_ok(4) by simp
  then show ?thesis unfolding sample_changed_ok(3) by (simp add: dir_sector_def sample_dir_fields)
qed

lemma sample_close:
  "\<exists>fp1 s2 s3. f_close (sd_io sim_api) (os_mutex kernel_api) tm sample_changed_file sample_open_system = (FR_OK, fp1, s2) \<and>
     mount_volume (sd_io sim_api) (os_mutex kernel_api) (Some [0x46, 0]) FA_READ s2 = Some (FR_OK, True, Some [0x46, 0], s3)"
proof -
  let ?io = "sd_io sim_api" and ?mx = "os_mutex kernel_api" and ?s = sample_open_system and ?fp = sample_changed_file
  note d = sample_dir_fields sample_open_fields sample_changed_fields
  have v: "validate ?io ?mx (fobj ?fp) ?s = (FR_OK, True, ?s\<lparr>mutexes := sample_mutexes [0]\<rparr>)"
    by (rule sample_validate) (simp_all add: d sample_dir_medium(1))
  have h: "fat_disk.held (disk_ok sim_busy 2 0x18) (disk_contents sim_mem) 1000 [5] ?fp sample_dir_volume"
    using sample_dir_volume_ok(1,2) sample_changed_ok(1)
    by (simp add: sim_fat.held_def sim_fat.good_def) (simp add: volume_ok_def)
  have dk: "dir_ok (disk_contents sim_mem) [] (cdir sample_dir_volume) sample_dir_volume" "0 < dir_room [] sample_dir_volume"
    using sample_dir_volume_ok(3,4) by (simp_all add: sample_dir_fields)
  obtain fp2 fs' where c: "sync_file ?io tm ?fp sample_dir_volume = (FR_OK, fp2, fs')" "fobj fp2 = fobj ?fp"
      "fat_disk.good (disk_ok sim_busy 2 0x18) (disk_contents sim_mem) 1000 fs'" "geometry fs' = geometry sample_dir_volume"
    using sim_disk.synced_directory [OF h sample_changed_fields(4) disjI2 dk sample_changed_fields(6,7) sample_dir_apart,
        OF sample_changed_fields(5), of tm] by blast
  have okm: "disk_ok sim_busy 2 0x18 (medium fs')" using c(3) by (simp add: sim_fat.good_def window_ok_def)
  have g: "fs_type fs' = FS_FAT16" "pdrv fs' = 0" "ldrv fs' = 0" "fs_id fs' = 1"
    using geometry_fields [OF c(4)] by (simp_all add: sample_dir_fields)
  let ?s1 = "?s\<lparr>vol := fs'\<rparr>" and ?s2 = "?s\<lparr>vol := fs', Files := [\<lparr>sem_fs = False, sem_clu = 0, sem_ofs = 0, sem_ctr = 0\<rparr>]\<rparr>"
  have u1: "unlock_volume ?mx True FR_OK (?s\<lparr>mutexes := sample_mutexes [0], vol := fs'\<rparr>) = ?s1"
  proof -
    have "?s\<lparr>mutexes := sample_mutexes [0], vol := fs'\<rparr> = ?s1\<lparr>mutexes := sample_mutexes [0]\<rparr>" by simp
    moreover have "unlock_volume ?mx True FR_OK (?s1\<lparr>mutexes := sample_mutexes [0]\<rparr>) = ?s1"
      by (rule sample_lock(2)) (simp_all add: d g)
    ultimately show ?thesis by (rule ssubst)
  qed
  have sy: "f_sync ?io ?mx tm ?fp ?s = (FR_OK, fp2, ?s1)"
    using v c(1) u1 by (simp add: f_sync_def sample_open_fields(1))
  have v1: "validate ?io ?mx (fobj fp2) ?s1 = (FR_OK, True, ?s1\<lparr>mutexes := sample_mutexes [0]\<rparr>)"
    unfolding c(2) by (rule sample_validate) (simp_all add: d g okm)
  have u2: "unlock_volume ?mx True FR_OK (?s1\<lparr>mutexes := sample_mutexes [0],
      Files := [\<lparr>sem_fs = False, sem_clu = 0, sem_ofs = 0, sem_ctr = 0\<rparr>]\<rparr>) = ?s2"
  proof -
    have "?s1\<lparr>mutexes := sample_mutexes [0], Files := [\<lparr>sem_fs = False, sem_clu = 0, sem_ofs = 0, sem_ctr = 0\<rparr>]\<rparr>
        = ?s2\<lparr>mutexes := sample_mutexes [0]\<rparr>" by simp
    moreover have "unlock_volume ?mx True FR_OK (?s2\<lparr>mutexes := sample_mutexes [0]\<rparr>) = ?s2"
      by (rule sample_lock(2)) (simp_all add: d g)
    ultimately show ?thesis by (rule ssubst)
  qed
  have ds: "dec_share [\<lparr>sem_fs = True, sem_clu = 0, sem_ofs = 0, sem_ctr = 0x100\<rparr>] 1
      = (FR_OK, [\<lparr>sem_fs = False, sem_clu = 0, sem_ofs = 0, sem_ctr = 0\<rparr>])"
    by (simp add: dec_share_def Let_def)
  have "f_close ?io ?mx tm ?fp ?s = (FR_OK, fp2\<lparr>fobj := (fobj fp2)\<lparr>obj_fs := False\<rparr>\<rparr>, ?s2)"
    using sy v1 u2 ds c(2) by (simp add: f_close_def sample_open_fields(6) sample_changed_fields(3))
  moreover have "mount_volume ?io ?mx (Some [0x46, 0]) FA_READ ?s2
      = Some (FR_OK, True, Some [0x46, 0], ?s2\<lparr>mutexes := sample_mutexes [0]\<rparr>)"
    by (rule sample_drive_mounts) (simp_all add: d g okm)
  ultimately show ?thesis by blast
qed


end
