(* ===== verification/Spec2Isabelle.thy ===== *)
theory Spec2Isabelle
  imports ConfigLoad Server Security Device SensorObjects Commandline LightClient Osal Wifi Sdmm
    Memtrace CC3100 SdCard Sensors FatPattern FatSfn FatSession SdStream FatOpen FatClose
begin

text \<open>
  A verification library for the C code of the firmware of an IoT sensor board (an EFM32GG with a
  CC3100 network processor, an SD card and five motion and climate sensors).

  \<^bold>\<open>The program.\<close> The board layer (\<^verbatim>\<open>c/board\<close>) drives the chips: the SD card
  (\<^verbatim>\<open>sdmm.c\<close>, \<^verbatim>\<open>board_sd_card.c\<close>), the network processor (\<^verbatim>\<open>board_CC3100.c\<close>) and the
  sensors (\<^verbatim>\<open>board_i2c_sensors.c\<close>, \<^verbatim>\<open>board_b*.c\<close>). FatFs (\<^verbatim>\<open>c/FatFs/ff15/source/ff.c\<close>) keeps
  the FAT file system of the card; \<^verbatim>\<open>config.c\<close> reads the configuration file from it. The network
  services are the Wi-Fi task (\<^verbatim>\<open>wifi_service.c\<close>) and the LwM2M client
  (\<^verbatim>\<open>c/legacy/src/lwm2m\<close>): the objects it offers, its connections and its task, with a debug
  command line and a tracing allocator. Adapters connect mbedTLS and FatFs to FreeRTOS.

  \<^bold>\<open>Theories and code.\<close> Definitions bear the names of the C functions; a part of a long function that
  is a definition of its own is named after what it does, and its comment says which part it is.
  \<^item> \<open>Prelude\<close>: machine integers, character arrays, C strings, and a heap that consumes a list of
    outcomes and counts live blocks. \<open>None\<close> is undefined behaviour (an access outside an object)
    unless a theory says that it is a call that does not return.
  \<^item> \<open>Config\<close>, \<open>ConfigLoad\<close>: \<^verbatim>\<open>config.c\<close>. The lemmas bound every copy, under the conditions
    on the tokens that they name, and say what the setters store.
  \<^item> \<open>Lwm2m\<close>, \<open>Server\<close>, \<open>Security\<close>, \<open>Device\<close>, \<open>SensorObjects\<close>: the objects of
    \<^verbatim>\<open>lwm2m/lightclient/object_*.c\<close>. \<open>Lwm2m\<close> has the interfaces: \<open>instance_list\<close> for the lists
    of liblwm2m and the contract of a readable object. Each object has its handlers, its invariant and
    the balance of its allocations.
  \<^item> \<open>LightClient\<close>: \<^verbatim>\<open>connection.c\<close> and \<^verbatim>\<open>miso_lightclient.c\<close>, over the objects.
    \<open>Commandline\<close>: \<^verbatim>\<open>commandline.c\<close>. \<open>Memtrace\<close>: \<^verbatim>\<open>memtrace.c\<close>, with a refinement to a
    finite map from addresses to sizes.
  \<^item> \<open>Osal\<close>: \<^verbatim>\<open>treading.c\<close>, \<^verbatim>\<open>timing.c\<close>, \<^verbatim>\<open>entropy.c\<close>, \<^verbatim>\<open>ffsystem.c\<close>; \<open>mutex_provider\<close> is
    the contract both mutex adapters meet.
  \<^item> \<open>Wifi\<close>: \<^verbatim>\<open>wifi_service.c\<close>, the task as a loop over the notifications it gets.
  \<^item> \<open>BoardIo\<close>, \<open>CC3100\<close>, \<open>SdCard\<close>, \<open>Sensors\<close>: the board drivers. The interrupts that come while a
    task waits are an explicit list; \<open>mailbox\<close> is the contract of the completion queues. A wait without a
    timeout to which no completion comes is \<open>None\<close>, a call that does not return.
  \<^item> \<open>Sdmm\<close>: \<^verbatim>\<open>sdmm.c\<close>. The locale \<open>sd_card\<close> is the behaviour of a card, \<open>block_device\<close> what
    the driver makes of it.
  \<^item> \<open>FatBytes\<close>, \<open>FatWindow\<close>, \<open>FatTable\<close>, \<open>FatChain\<close>: the lower half of \<^verbatim>\<open>ff.c\<close>. \<open>fat_disk\<close> is
    the contract of a drive whose calls may fail, \<open>reliable_disk\<close> that of one whose calls succeed, and
    every \<open>sd_card\<close> behind \<open>Sdmm\<close> is one. A sector has one logical value, \<open>view\<close>; \<open>fat_of\<close> reads the
    allocation table through it, and a file's clusters are a list (\<open>fat_chain\<close>).
  \<^item> \<open>FatDir\<close>, \<open>FatName\<close>, \<open>FatPattern\<close>, \<open>FatSfn\<close>, \<open>FatShare\<close>: directories, names, patterns and the
    table of open files. \<open>glob\<close> is the meaning of a pattern, \<open>sfn_ok\<close> the type of a short name.
  \<^item> \<open>FatMount\<close>, \<open>FatFile\<close>, \<open>FatApi\<close>: the upper half of \<^verbatim>\<open>ff.c\<close>: mounting, locking and \<open>validate\<close>;
    files; directories and calls on the volume. A call takes the filesystem, the table of open files and
    the state of the mutexes, and returns them. \<open>volume_ok\<close> is the type of a mounted volume;
    \<open>FatKeep\<close> and \<open>FatResult\<close> show that no call changes the geometry of a volume or returns the result
    codes that are internal, \<open>FatSession\<close> that no sequence of calls leaves the volume's mutex taken.
  \<^item> \<open>SdStream\<close>, \<open>FatRead\<close>, \<open>FatGrow\<close>, \<open>FatWrite\<close>, \<open>FatSeek\<close>, \<open>FatSync\<close>, \<open>FatTrunc\<close>: what the
    calls on an open file mean. \<open>stream_disk\<close> extends \<open>reliable_disk\<close> by transfers of several sectors,
    and \<open>Sdmm\<close> provides it. A file is its bytes (\<open>file_bytes\<close>): those of its clusters, with a dirty
    sector cache over them; \<open>file_ok\<close> and \<open>file_pos\<close> are the invariant of an open file. On these bytes
    \<open>f_read\<close> is a slice, \<open>f_write\<close> an overwrite at the pointer, \<open>f_truncate\<close> a prefix and \<open>f_lseek\<close> the
    identity; after \<open>f_sync\<close> the drive alone holds them and the entry of the file.
  \<^item> \<open>FatLookup\<close>, \<open>FatOpen\<close>, \<open>FatClose\<close>: how a file is reached by its name. A directory is a list of entries
    and \<open>dir_lookup\<close> the first match in it, which \<open>dir_find\<close> computes; \<open>f_open\<close> of a file in the current
    directory establishes the invariant of an open file, and opening a file that was closed gives the
    bytes it had. Paths of several names, created files and a table with several open files are modelled
    (\<open>follow_path\<close>, \<open>open_create\<close>, \<open>inc_share\<close>), but these theorems do not speak of them.

  \<^bold>\<open>Interfaces.\<close> What is not in the repository is an argument of the definitions, with its documented
  behaviour as the assumptions of a locale: liblwm2m (\<open>lwm2m_api\<close>, \<open>instance_list\<close>), the kernel's
  mutexes, timers and queues (\<open>kernel_mutex\<close>, \<open>kernel_timer\<close>, \<open>mailbox\<close>), the SD card (\<open>sd_card\<close>).
  Each is interpreted on a concrete instance, on which the witnesses of the properties evaluate;
  the contracts between components of the code are interpreted on the code's own definitions.

  \<^bold>\<open>Loops.\<close> A loop that counts is a recursion on its counter or on the list it walks, and needs no
  bound. The waits of \<open>Sdmm\<close> count down the attempts of the code. The loops of FatFs that follow
  the drive's contents are \<open>partial_function (option)\<close>; \<open>chain_loops_end\<close> shows that those of the
  cluster chains return for every contents of the table, by the number of entries in use (removing) and
  by the distance to the start of the search (creating). The loops of \<open>f_read\<close>, \<open>f_write\<close> and
  \<open>f_lseek\<close> return for every file that satisfies the invariant: their theorems give the result, by
  induction on the bytes that are left; that of \<open>dir_find\<close> returns for every directory of at most 2 MiB, by
  the entries that are left. \<open>pattern_match\<close> recurs on its own counter.

  \<^bold>\<open>Not modelled.\<close> The application in Zig; FreeRTOS, mbedTLS, jsmn, the MQTT client and the vendor's
  libraries, the SimpleLink host driver of the network processor included, which are third-party code,
  submodules or generated; constant tables and files that only forward (LEDs, buttons, clock tree,
  standard streams); of FatFs, what the configuration \<^verbatim>\<open>c/config/ffconf.h\<close> switches off (exFAT, long
  names and code-page tables, formatting, fast seek, attributes, labels, contiguous allocation,
  forwarding, string functions). The start-up code of \<^verbatim>\<open>board.c\<close> is a fixed sequence of register
  writes. Debug output is left out where nothing depends on it.
\<close>

section \<open>Properties that span components\<close>

definition provision :: "string \<Rightarrow> string \<Rightarrow> string \<Rightarrow> config option" where
  "provision uri psk_id psk_key =
    do { c1 \<leftarrow> config_set_lwm2m_uri uri config_init;
         c2 \<leftarrow> config_set_lwm2m_psk_id psk_id c1;
         config_set_lwm2m_psk_key psk_key c2 }"

lemma provision_ok:
  assumes "nul \<in> set u" "length (cstr u) < 128" "nul \<in> set p" "length (cstr p) < 128"
    "nul \<in> set k" "length (cstr k) < 64"
  shows "\<exists>c. provision u p k = Some c \<and> security_config_ok c \<and> cstr (config_get_lwm2m_uri c) = cstr u \<and>
    cstr (config_get_lwm2m_psk_id c) = cstr p \<and> cstr (config_get_lwm2m_psk_key c) = cstr k"
proof -
  have r: "readable x n" if "nul \<in> set x" for x n using that by (simp add: readable_def)
  have len: "length (strncpy_image n x) = n" for n x by (simp add: strncpy_image_def)
  have t: "cstr (strncpy_image n x) = cstr x" if "length (cstr x) < n" for n x
    using cstr_strncpy_image [OF that, of "[]"] by simp
  let ?c = "config_init\<lparr>lwm2m_uri := strncpy_image 128 u, lwm2m_psk_id := strncpy_image 128 p,
      lwm2m_psk_key := strncpy_image 64 k\<rparr>"
  have "provision u p k = Some ?c"
    using assms config_init_wf
    by (simp add: provision_def config_setter_defs strncpy_SomeI [OF _ r] config_wf_def)
  moreover have "security_config_ok ?c"
    using assms config_init_wf
    by (simp add: security_config_ok_def config_wf_def len nul_strncpy_image)
  ultimately show ?thesis
    using assms by (intro exI [of _ ?c]) (simp add: config_getter_defs t)
qed

text \<open>C23: what is provisioned is what the LwM2M client uses. When a URI, an identity and a key that fit
  are set in the configuration and the security object is made from it, a read of its URI resource
  answers 2.05 with that URI, the DTLS layer is given that identity with its terminator, the array
  that holds the bytes the Base64 decoder made of that key (zeros behind them) and the length the
  decoder reported, which is inside the array, and the mode is pre-shared key. The decoder is an
  argument; what is required of it are its documented bounds.\<close>

theorem provision_then_connect:
  assumes "nul \<in> set u" and "length (cstr u) < 128" and "nul \<in> set p" and "length (cstr p) < 128"
    and "nul \<in> set k" and "length (cstr k) < 64" and "base64_ok b64" and "list_api_ok sec_instanceId la"
    and "lwm2m_malloc h = (True, h1)" and "lwm2m_malloc h1 = (True, h2)"
  shows "\<exists>c l ident n. provision u p k = Some c \<and> get_security_object la b64 c h = Some (Some l, h2) \<and>
    prv_security_read api la mem l 0 (data_new [LWM2M_SECURITY_URI_ID])
      = (COAP_205_CONTENT, [put_value (encode_string api (cstr u))
           (LData LWM2M_TYPE_UNDEFINED LWM2M_SECURITY_URI_ID V_none)]) \<and>
    get_public_identiy la l 0 = Some (ident, n) \<and> take n ident = cstr p @ [nul] \<and>
    get_connection_psk la l 0 = Some (key_field (fst (b64 64 (cstr k))), snd (b64 64 (cstr k))) \<and>
    snd (b64 64 (cstr k)) \<le> 64 \<and>
    get_security_mode la l 0 = security_mode_psk"
proof -
  obtain c where c: "provision u p k = Some c" "security_config_ok c" "cstr (config_get_lwm2m_uri c) = cstr u"
      "cstr (config_get_lwm2m_psk_id c) = cstr p" "cstr (config_get_lwm2m_psk_key c) = cstr k"
    using provision_ok [OF assms(1-6)] by blast
  from security_object_made [OF c(2) assms(7-10), of api mem] c(1) show ?thesis
    unfolding c(3-5) by blast
qed

theorem provision_then_connect_witness:
  "\<exists>c l. provision (''coap://h'' @ [nul]) (''id'' @ [nul]) (''a2V5'' @ [nul]) = Some c \<and>
    get_security_object (node_api sec_instanceId) base64_sample c \<lparr>outcomes = [True, True], live = 0\<rparr>
      = Some (Some l, \<lparr>outcomes = [], live = 2\<rparr>) \<and>
    get_connection_psk (node_api sec_instanceId) l 0 = Some (''a2V'' @ replicate 61 nul, 3)"
proof -
  have b: "base64_sample 64 ''a2V5'' = (''a2V'', 3)" by (simp add: base64_sample_def)
  have t: "cstr (''coap://h'' @ [nul]) = ''coap://h''" "cstr (''id'' @ [nul]) = ''id''"
      "cstr (''a2V5'' @ [nul]) = ''a2V5''"
    by (rule cstr_append_nul, simp)+
  show ?thesis
    using provision_then_connect [of "''coap://h'' @ [nul]" "''id'' @ [nul]" "''a2V5'' @ [nul]", unfolded t,
        OF _ _ _ _ _ _ base64_sample_ok node.instance_list_axioms,
        of "\<lparr>outcomes = [True, True], live = 0\<rparr>" "\<lparr>outcomes = [True], live = 1\<rparr>"
          "\<lparr>outcomes = [], live = 2\<rparr>" plain_api True]
    unfolding b by (auto simp: lwm2m_malloc_def heap_malloc_def key_field_def)
qed

end
